(* ===== verification/Prelude.thy ===== *)
theory Prelude
  imports Main "HOL-Library.Word"
begin

text \<open>
  Shared vocabulary of the development.

  \<^item> Time: a monotonic \<open>Instant\<close> and a \<open>Duration\<close> are counted in nanoseconds and a database
    timestamp in microseconds, all as \<^typ>\<open>nat\<close>; the checked and saturating operations the
    code calls on them are defined here, with the ranges of the Rust standard library.
  \<^item> Text: a Rust \<open>str\<close> that is processed byte by byte is a \<^typ>\<open>string\<close> whose characters are
    the bytes of its UTF-8 form; text that is processed character by character is a list of
    Unicode scalar values (\<open>ustr\<close>) with its UTF-8 length.
  \<^item> Errors: a fallible operation returns \<open>'e + 'a\<close>, with \<^term>\<open>Inl\<close> for the error.
  \<^item> State machines: one locale for an invariant of a step relation and one for a state that
    no step leaves, both lifted to runs here and interpreted by the components.
\<close>

type_synonym instant = nat
type_synonym duration = nat
type_synonym micros = nat
type_synonym ustr = "nat list"
type_synonym bytes = "8 word list"

subsection \<open>Results\<close>

definition is_ok :: "'e + 'a \<Rightarrow> bool" where
  "is_ok r = (case r of Inl _ \<Rightarrow> False | Inr _ \<Rightarrow> True)"

lemma is_ok_simps [simp]: "is_ok (Inr x)" "\<not> is_ok (Inl e)"
  by (simp_all add: is_ok_def)

lemma is_ok_iff: "is_ok r \<longleftrightarrow> (\<exists>x. r = Inr x)"
  by (cases r) simp_all

definition bind_result :: "'e + 'a \<Rightarrow> ('a \<Rightarrow> 'e + 'b) \<Rightarrow> 'e + 'b" where
  "bind_result r f = (case r of Inl e \<Rightarrow> Inl e | Inr x \<Rightarrow> f x)"

lemma bind_result_simps [simp]:
  "bind_result (Inl e) f = Inl e"
  "bind_result (Inr x) f = f x"
  by (simp_all add: bind_result_def)

lemma bind_result_Inr: "bind_result r f = Inr y \<longleftrightarrow> (\<exists>x. r = Inr x \<and> f x = Inr y)"
  by (cases r) simp_all

text \<open>An early return: the condition holds or the function returns the error.\<close>

definition ensured :: "bool \<Rightarrow> 'e \<Rightarrow> 'e + unit" where
  "ensured c e = (if c then Inr () else Inl e)"

lemma ensured_simps [simp]: "ensured c e = Inr u \<longleftrightarrow> c" "ensured c e = Inl e' \<longleftrightarrow> \<not> c \<and> e = e'"
  by (auto simp: ensured_def)

definition okay_or :: "'e \<Rightarrow> 'a option \<Rightarrow> 'e + 'a" where
  "okay_or e x = (case x of None \<Rightarrow> Inl e | Some a \<Rightarrow> Inr a)"

lemma okay_or_simps [simp]: "okay_or e x = Inr a \<longleftrightarrow> x = Some a" "okay_or e x = Inl e' \<longleftrightarrow> x = None \<and> e = e'"
  by (auto simp: okay_or_def split: option.splits)

text \<open>\<open>Iterator::collect\<close> into a \<open>Result\<close>: the first error wins, in iteration order.\<close>

fun collect_results :: "('e + 'a) list \<Rightarrow> 'e + 'a list" where
  "collect_results [] = Inr []"
| "collect_results (Inl e # rs) = Inl e"
| "collect_results (Inr x # rs) =
     (case collect_results rs of Inl e \<Rightarrow> Inl e | Inr xs \<Rightarrow> Inr (x # xs))"

lemma collect_results_Inr: "collect_results rs = Inr xs \<longleftrightarrow> rs = map Inr xs"
proof (induction rs arbitrary: xs rule: collect_results.induct)
  case (3 x rs)
  then show ?case by (cases "collect_results rs") (auto simp: Cons_eq_map_conv)
qed (auto simp: Cons_eq_map_conv)

lemma collect_results_Inl:
  "collect_results rs = Inl e \<longleftrightarrow> (\<exists>xs ys. rs = map Inr xs @ Inl e # ys)"
proof (induction rs rule: collect_results.induct)
  case 1
  show ?case by simp
next
  case (2 e' rs)
  show ?case
  proof
    assume "collect_results (Inl e' # rs) = Inl e"
    then have "Inl e' # rs = map Inr [] @ Inl e # rs" by simp
    then show "\<exists>xs ys. Inl e' # rs = map Inr xs @ Inl e # ys" by blast
  next
    assume "\<exists>xs ys. Inl e' # rs = map Inr xs @ Inl e # ys"
    then obtain xs ys where "Inl e' # rs = map Inr xs @ Inl e # ys" by blast
    then show "collect_results (Inl e' # rs) = Inl e" by (cases xs) auto
  qed
next
  case (3 x rs)
  have "(\<exists>xs ys. Inr x # rs = map Inr xs @ Inl e # ys) \<longleftrightarrow>
      (\<exists>xs ys. rs = map Inr xs @ Inl e # ys)"
  proof
    assume "\<exists>xs ys. Inr x # rs = map Inr xs @ Inl e # ys"
    then obtain xs ys where "Inr x # rs = map Inr xs @ Inl e # ys" by blast
    then show "\<exists>xs ys. rs = map Inr xs @ Inl e # ys" by (cases xs) auto
  next
    assume "\<exists>xs ys. rs = map Inr xs @ Inl e # ys"
    then obtain xs ys where "rs = map Inr xs @ Inl e # ys" by blast
    then have "Inr x # rs = map Inr (x # xs) @ Inl e # ys" by simp
    then show "\<exists>xs ys. Inr x # rs = map Inr xs @ Inl e # ys" by blast
  qed
  moreover have "collect_results (Inr x # rs) = Inl e \<longleftrightarrow> collect_results rs = Inl e"
    by (cases "collect_results rs") simp_all
  ultimately show ?case using 3 by simp
qed

lemma collect_results_total:
  "(\<And>x. x \<in> set xs \<Longrightarrow> is_ok (f x)) \<Longrightarrow> \<exists>ys. collect_results (map f xs) = Inr ys"
proof (induction xs)
  case (Cons x xs)
  then obtain y ys where "f x = Inr y" "collect_results (map f xs) = Inr ys"
    by (metis is_ok_iff list.set_intros)
  then show ?case by simp
qed simp

subsection \<open>Durations and instants\<close>

definition nanos_per_sec :: nat where "nanos_per_sec = 1000000000"

definition from_secs :: "nat \<Rightarrow> duration" where "from_secs s = s * nanos_per_sec"

definition from_millis :: "nat \<Rightarrow> duration" where "from_millis ms = ms * 1000000"

definition from_hours :: "nat \<Rightarrow> duration" where "from_hours h = from_secs (h * 3600)"

text \<open>\<open>Duration::MAX\<close>: \<open>u64::MAX\<close> seconds and 999,999,999 nanoseconds.\<close>

definition duration_max :: duration where
  "duration_max = 2 ^ 64 * nanos_per_sec - 1"

text \<open>The largest \<open>Instant\<close> of a Unix target: \<open>i64::MAX\<close> seconds and 999,999,999 nanoseconds.\<close>

definition instant_max :: instant where
  "instant_max = 2 ^ 63 * nanos_per_sec - 1"

definition instant_checked_add :: "instant \<Rightarrow> duration \<Rightarrow> instant option" where
  "instant_checked_add t d = (if t + d \<le> instant_max then Some (t + d) else None)"

definition instant_checked_sub :: "instant \<Rightarrow> duration \<Rightarrow> instant option" where
  "instant_checked_sub t d = (if d \<le> t then Some (t - d) else None)"

text \<open>\<open>Instant::duration_since\<close> and \<open>saturating_duration_since\<close> are zero for a later argument,
  and \<open>Duration::saturating_sub\<close> stops at zero: truncated subtraction on \<^typ>\<open>nat\<close>.\<close>

definition duration_since :: "instant \<Rightarrow> instant \<Rightarrow> duration" where
  "duration_since later earlier = later - earlier"

definition duration_checked_add :: "duration \<Rightarrow> duration \<Rightarrow> duration option" where
  "duration_checked_add a b = (if a + b \<le> duration_max then Some (a + b) else None)"

definition duration_checked_mul :: "duration \<Rightarrow> nat \<Rightarrow> duration option" where
  "duration_checked_mul a k = (if a * k \<le> duration_max then Some (a * k) else None)"

definition as_micros :: "duration \<Rightarrow> nat" where "as_micros d = d div 1000"

text \<open>The largest values of the signed and unsigned integer types the code converts into.\<close>

definition i16_max :: nat where "i16_max = 32767"
definition i64_max :: nat where "i64_max = 9223372036854775807"
definition u16_max :: nat where "u16_max = 65535"
definition u64_max :: nat where "u64_max = 18446744073709551615"

lemmas time_units = nanos_per_sec_def from_secs_def from_millis_def from_hours_def
lemmas time_ranges = duration_max_def instant_max_def i64_max_def time_units

subsection \<open>Text\<close>

text \<open>\<open>char::len_utf8\<close> of a Unicode scalar value, the UTF-8 length of a text, and
  \<open>char::is_control\<close> (the general category Cc: C0, DEL and C1).\<close>

definition len_utf8 :: "nat \<Rightarrow> nat" where
  "len_utf8 c = (if c < 128 then 1 else if c < 2048 then 2 else if c < 65536 then 3 else 4)"

definition utf8_len :: "ustr \<Rightarrow> nat" where
  "utf8_len s = sum_list (map len_utf8 s)"

definition is_control :: "nat \<Rightarrow> bool" where
  "is_control c = (c < 32 \<or> (127 \<le> c \<and> c < 160))"

definition ascii :: "string \<Rightarrow> ustr" where
  "ascii s = map of_char s"

lemma len_utf8_bounds: "1 \<le> len_utf8 c" "len_utf8 c \<le> 4"
  by (simp_all add: len_utf8_def)

lemma utf8_len_simps [simp]:
  "utf8_len [] = 0"
  "utf8_len (c # s) = len_utf8 c + utf8_len s"
  "utf8_len (s @ t) = utf8_len s + utf8_len t"
  by (simp_all add: utf8_len_def)

lemma utf8_len_ge_length: "length s \<le> utf8_len s"
proof (induction s)
  case (Cons c s)
  then show ?case using len_utf8_bounds(1)[of c] by simp
qed simp

text \<open>The bytes of a text, and the decimal form of a number (\<open>to_string\<close>).\<close>

definition bytes_of :: "string \<Rightarrow> bytes" where "bytes_of s = map of_char s"

lemma length_bytes_of [simp]: "length (bytes_of s) = length s"
  by (simp add: bytes_of_def)

lemma bytes_of_inj: "bytes_of s = bytes_of t \<longleftrightarrow> s = t"
proof -
  have "unat (of_char c :: 8 word) = of_char c" for c
    using arg_cong[OF of_nat_of_char[of c, where 'a = "8 word"], of unat]
    by (simp add: unat_of_nat of_char_mod_256)
  then have "inj (of_char :: char \<Rightarrow> 8 word)" by (metis char_of_char injI)
  then show ?thesis by (simp add: bytes_of_def inj_map_eq_map)
qed

fun decimal :: "nat \<Rightarrow> string" where
  "decimal n = (if n < 10 then [char_of (48 + n)] else decimal (n div 10) @ [char_of (48 + n mod 10)])"

declare decimal.simps [simp del]

text \<open>Reading digits, most significant first; \<^term>\<open>None\<close> for another byte.\<close>

definition digit_value :: "8 word \<Rightarrow> nat option" where
  "digit_value b = (if 48 \<le> b \<and> b \<le> 57 then Some (unat b - 48) else None)"

fun digits_value :: "nat \<Rightarrow> bytes \<Rightarrow> nat option" where
  "digits_value n [] = Some n"
| "digits_value n (b # bs) =
     (case digit_value b of None \<Rightarrow> None | Some d \<Rightarrow> digits_value (10 * n + d) bs)"

lemma digits_value_append:
  "digits_value n (xs @ ys) = (case digits_value n xs of None \<Rightarrow> None | Some m \<Rightarrow> digits_value m ys)"
  by (induction n xs rule: digits_value.induct) (auto split: option.splits)

lemma digit_byte:
  assumes "d < 10"
  shows "unat (of_char (char_of (48 + d)) :: 8 word) = 48 + d"
proof -
  have "(of_char (char_of (48 + d)) :: 8 word) = of_nat (of_char (char_of (48 + d)))"
    by (rule of_nat_of_char[symmetric])
  also have "\<dots> = of_nat (48 + d)" using assms by (subst of_char_of) simp
  finally have "unat (of_char (char_of (48 + d)) :: 8 word) = unat (of_nat (48 + d) :: 8 word)"
    by (rule arg_cong)
  then show ?thesis using assms by (simp only: unat_of_nat) simp
qed

lemma digit_char_range:
  fixes d :: nat
  shows "d < 10 \<Longrightarrow> 48 \<le> (of_char (char_of (48 + d)) :: 8 word) \<and> (of_char (char_of (48 + d)) :: 8 word) \<le> 57"
  using digit_byte[of d] by (simp add: word_le_nat_alt)

lemma digit_value_char: "(d :: nat) < 10 \<Longrightarrow> digit_value (of_char (char_of (48 + d))) = Some d"
  using digit_byte[of d] digit_char_range[of d] by (simp add: digit_value_def)

lemma bytes_of_simps [simp]:
  "bytes_of [] = []" "bytes_of (c # s) = of_char c # bytes_of s" "bytes_of (s @ t) = bytes_of s @ bytes_of t"
  by (simp_all add: bytes_of_def)

lemma digits_value_decimal: "digits_value 0 (bytes_of (decimal n)) = Some n"
proof (induction n rule: decimal.induct)
  case (1 n)
  show ?case
  proof (cases "n < 10")
    case True
    then show ?thesis using digit_value_char[of n] by (subst decimal.simps) simp
  next
    case False
    then show ?thesis using 1 digit_value_char[of "n mod 10"]
      by (subst decimal.simps) (simp add: digits_value_append)
  qed
qed

lemma decimal_digits: "b \<in> set (bytes_of (decimal n)) \<Longrightarrow> 48 \<le> b \<and> b \<le> 57"
proof (induction n rule: decimal.induct)
  case (1 n)
  have "n mod 10 < 10" by simp
  then show ?case using 1 digit_char_range[of n] digit_char_range[of "n mod 10"]
    by (subst (asm) (2) decimal.simps) (auto split: if_splits)
qed

lemma decimal_nonempty [simp]: "decimal n \<noteq> []"
  by (subst decimal.simps) simp

subsection \<open>Lists\<close>

lemma find_Some_mem: "find P xs = Some x \<Longrightarrow> x \<in> set xs \<and> P x"
  by (auto simp: find_Some_iff)

lemma list_ex_map_same: "(\<And>x. p (f x) = p x) \<Longrightarrow> list_ex p (map f xs) = list_ex p xs"
  by (induction xs) simp_all

lemma find_map_distinct:
  assumes "distinct (map f xs)" "x \<in> set xs"
  shows "find (\<lambda>y. f y = f x) xs = Some x"
  using assms
proof (induction xs)
  case (Cons a xs)
  then show ?case by (cases "f a = f x") (auto simp: image_iff)
qed simp

lemma distinct_map_filter_filter:
  assumes "distinct (map f (filter P xs))"
  shows "distinct (map f (filter P (filter Q xs)))"
proof -
  have "filter P (filter Q xs) = filter Q (filter P xs)"
    by (simp add: conj_commute)
  with assms show ?thesis by (metis distinct_map_filter)
qed

lemma distinct_map_inj_on: "distinct (map f xs) \<Longrightarrow> x \<in> set xs \<Longrightarrow> y \<in> set xs \<Longrightarrow> f x = f y \<Longrightarrow> x = y"
  by (auto simp: distinct_map inj_on_def)

lemma distinct_remdups_adj_sorted: "sorted (xs :: 'a :: linorder list) \<Longrightarrow> distinct (remdups_adj xs)"
proof (induction xs rule: remdups_adj.induct)
  case (3 x y xs)
  show ?case
  proof (cases "x = y")
    case False
    with "3.prems" have "x < y" "\<forall>z \<in> set xs. y \<le> z" by auto
    then have "x \<notin> set (y # xs)" by auto
    with 3 False show ?thesis by simp
  qed (use 3 in simp)
qed simp_all

text \<open>\<open>sort\<close> and \<open>dedup\<close> list the elements once, in their order.\<close>

lemma sort_dedup: "remdups_adj (sort xs) = sorted_list_of_set (set xs)"
  by (rule sorted_distinct_set_unique) (simp_all add: distinct_remdups_adj_sorted)

text \<open>\<open>strip_prefix\<close> of a text or of a slice.\<close>

fun strip_prefix :: "'a list \<Rightarrow> 'a list \<Rightarrow> 'a list option" where
  "strip_prefix [] s = Some s"
| "strip_prefix (p # ps) [] = None"
| "strip_prefix (p # ps) (c # cs) = (if p = c then strip_prefix ps cs else None)"

lemma strip_prefix_append [simp]: "strip_prefix pre (pre @ xs) = Some xs"
  by (induction pre) simp_all

lemma strip_prefix_Some: "strip_prefix pre s = Some xs \<longleftrightarrow> s = pre @ xs"
  by (induction pre s rule: strip_prefix.induct) auto

text \<open>\<open>slice::split\<close>: the pieces between the separators, also empty ones.\<close>

fun split_on :: "('a \<Rightarrow> bool) \<Rightarrow> 'a list \<Rightarrow> 'a list list" where
  "split_on p [] = [[]]"
| "split_on p (x # xs) =
     (if p x then [] # split_on p xs
      else case split_on p xs of [] \<Rightarrow> [[x]] | piece # pieces \<Rightarrow> (x # piece) # pieces)"

lemma split_on_single: "\<forall>x \<in> set xs. \<not> p x \<Longrightarrow> split_on p xs = [xs]"
  by (induction xs) auto

lemma split_on_append:
  "\<forall>x \<in> set xs. \<not> p x \<Longrightarrow> p s \<Longrightarrow> split_on p (xs @ s # ys) = xs # split_on p ys"
  by (induction xs) auto

text \<open>A separator that occurs in neither first part splits in one way only.\<close>

lemma split_unique:
  "xs @ s # r = ys @ s # r' \<Longrightarrow> s \<notin> set xs \<Longrightarrow> s \<notin> set ys \<Longrightarrow> xs = ys \<and> r = r'"
proof (induction xs arbitrary: ys)
  case Nil
  then show ?case by (cases ys) auto
next
  case (Cons x xs)
  then show ?case by (cases ys) auto
qed

subsection \<open>Header maps\<close>

text \<open>A header map is the list of its pairs in insertion order, the names in lowercase.\<close>

definition get_all :: "string \<Rightarrow> (string \<times> bytes) list \<Rightarrow> bytes list" where
  "get_all n hs = map snd (filter (\<lambda>h. fst h = n) hs)"

definition remove_header :: "string \<Rightarrow> (string \<times> bytes) list \<Rightarrow> (string \<times> bytes) list" where
  "remove_header n hs = filter (\<lambda>h. fst h \<noteq> n) hs"

definition insert_header :: "string \<Rightarrow> bytes \<Rightarrow> (string \<times> bytes) list \<Rightarrow> (string \<times> bytes) list" where
  "insert_header n v hs = remove_header n hs @ [(n, v)]"

lemma get_all_Nil [simp]: "get_all n [] = []"
  by (simp add: get_all_def)

lemma get_all_append [simp]: "get_all n (xs @ ys) = get_all n xs @ get_all n ys"
  by (simp add: get_all_def)

lemma get_all_same [simp]: "get_all n (map (\<lambda>v. (m, v)) vs) = (if n = m then vs else [])"
  by (simp add: get_all_def filter_map o_def)

lemma get_all_removed: "n \<noteq> m \<Longrightarrow> get_all n (remove_header m hs) = get_all n hs"
  by (induction hs) (auto simp: get_all_def remove_header_def)

subsection \<open>Step relations\<close>

text \<open>
  An invariant of a step relation holds along every run. The components interpret this locale
  on their own step relation and invariant.
\<close>

locale step_invariant =
  fixes step :: "'s \<Rightarrow> 's \<Rightarrow> bool"
    and inv :: "'s \<Rightarrow> bool"
  assumes inv_step: "inv s \<Longrightarrow> step s t \<Longrightarrow> inv t"
begin

lemma inv_run: "step\<^sup>*\<^sup>* s t \<Longrightarrow> inv s \<Longrightarrow> inv t"
  by (induction rule: rtranclp_induct) (auto intro: inv_step)

end

text \<open>
  A stable observation of a step system: once a state that satisfies the invariant shows the
  value, every later state shows the same value.
\<close>

locale stable_observation = step_invariant +
  fixes obs :: "'s \<Rightarrow> 'o option"
  assumes obs_step: "inv s \<Longrightarrow> step s t \<Longrightarrow> obs s = Some v \<Longrightarrow> obs t = Some v"
begin

lemma obs_run: "step\<^sup>*\<^sup>* s t \<Longrightarrow> inv s \<Longrightarrow> obs s = Some v \<Longrightarrow> obs t = Some v"
proof (induction rule: rtranclp_induct)
  case (step t u)
  then have "inv t" by (blast intro: inv_run)
  with step show ?case by (blast intro: obs_step)
qed simp

end

end
