(* ===== verification/OperationScope.thy ===== *)
theory OperationScope
  imports Prelude
begin

text \<open>
  The crate \<open>operation-context\<close>: fixed monotonic deadlines and the scope an operation runs in.

  \<open>Deadline\<close> is a record of an origin and a budget, as in the source, so that a budget too large
  for \<open>Instant\<close> addition stays finite. Every operation that reads the clock takes the reading
  as its argument \<open>now\<close>. The cancellation token is a type of another package: a context carries
  a token of any type \<open>'t\<close>, and the operations take \<open>child_token\<close> and \<open>is_cancelled\<close> of that
  package as arguments.
\<close>

record deadline =
  origin :: instant
  budget :: duration

definition deadline_new :: "instant \<Rightarrow> duration \<Rightarrow> deadline" where
  "deadline_new org bud = \<lparr>origin = org, budget = bud\<rparr>"

definition deadline_at :: "instant \<Rightarrow> instant \<Rightarrow> deadline" where
  "deadline_at now cutoff = deadline_new (min cutoff now) (duration_since cutoff now)"

definition remaining_at :: "deadline \<Rightarrow> instant \<Rightarrow> duration" where
  "remaining_at d now = budget d - duration_since now (origin d)"

definition expired :: "deadline \<Rightarrow> instant \<Rightarrow> bool" where
  "expired d now = (remaining_at d now = 0)"

definition deadline_instant :: "deadline \<Rightarrow> instant option" where
  "deadline_instant d = instant_checked_add (origin d) (budget d)"

definition earlier :: "instant \<Rightarrow> deadline \<Rightarrow> deadline \<Rightarrow> deadline" where
  "earlier now self other =
     (if remaining_at self now \<le> remaining_at other now then self else other)"

text \<open>
  \<open>Deadline::wait\<close> sleeps in steps of at most 24 hours until the deadline has expired. The
  clock reading after each sleep is the reading before it plus the requested sleep plus the
  lateness of the timer, which the environment supplies as a function of the reading.
\<close>

definition wait_step :: duration where
  "wait_step = from_hours 24"

function wait :: "(instant \<Rightarrow> duration) \<Rightarrow> deadline \<Rightarrow> instant \<Rightarrow> instant" where
  "wait late d now =
     (if expired d now then now
      else wait late d (now + min (remaining_at d now) wait_step + late now))"
  by pat_completeness auto
termination
proof (relation "measure (\<lambda>(late, d, now). origin d + budget d - now)")
  fix late :: "instant \<Rightarrow> duration" and d :: deadline and now :: instant
  assume "\<not> expired d now"
  then have "0 < remaining_at d now" by (simp add: expired_def)
  moreover have "0 < wait_step" by (simp add: wait_step_def time_units)
  ultimately show "((late, d, now + min (remaining_at d now) wait_step + late now), late, d, now)
      \<in> measure (\<lambda>(late, d, now). origin d + budget d - now)"
    by (auto simp: remaining_at_def duration_since_def)
qed simp

declare wait.simps [simp del]

datatype stopped_reason = DeadlineStop | CancelledStop

record 't operation_context =
  ctx_deadline :: "deadline option"
  cancellation :: 't

definition context_new :: "deadline option \<Rightarrow> 't \<Rightarrow> 't operation_context" where
  "context_new d tok = \<lparr>ctx_deadline = d, cancellation = tok\<rparr>"

definition from_deadline :: "deadline \<Rightarrow> 't \<Rightarrow> 't operation_context" where
  "from_deadline d fresh = context_new (Some d) fresh"

definition with_timeout :: "instant \<Rightarrow> duration \<Rightarrow> 't \<Rightarrow> 't operation_context" where
  "with_timeout now bud fresh = from_deadline (deadline_new now bud) fresh"

definition unbounded :: "'t \<Rightarrow> 't operation_context" where
  "unbounded fresh = context_new None fresh"

definition remaining :: "'t operation_context \<Rightarrow> instant \<Rightarrow> duration option" where
  "remaining c now = map_option (\<lambda>d. remaining_at d now) (ctx_deadline c)"

definition child :: "('t \<Rightarrow> 't) \<Rightarrow> instant \<Rightarrow> 't operation_context \<Rightarrow> duration \<Rightarrow> 't operation_context" where
  "child child_token now c ceiling =
     (let local = deadline_new now ceiling
      in context_new
           (Some (case ctx_deadline c of None \<Rightarrow> local | Some parent \<Rightarrow> earlier now parent local))
           (child_token (cancellation c)))"

definition child_context :: "('t \<Rightarrow> 't) \<Rightarrow> 't operation_context \<Rightarrow> 't operation_context" where
  "child_context child_token c = context_new (ctx_deadline c) (child_token (cancellation c))"

definition stopped ::
  "('t \<Rightarrow> bool) \<Rightarrow> 't operation_context \<Rightarrow> instant \<Rightarrow> stopped_reason option" where
  "stopped is_cancelled c now =
     (if (case ctx_deadline c of None \<Rightarrow> False | Some d \<Rightarrow> expired d now) then Some DeadlineStop
      else if is_cancelled (cancellation c) then Some CancelledStop
      else None)"

definition context_check ::
  "('t \<Rightarrow> bool) \<Rightarrow> 't operation_context \<Rightarrow> instant \<Rightarrow> stopped_reason + unit" where
  "context_check is_cancelled c now =
     (case stopped is_cancelled c now of None \<Rightarrow> Inr () | Some r \<Rightarrow> Inl r)"

text \<open>One poll of \<open>wait_stopped\<close>: whether the deadline's wait and the token's future are ready.\<close>

definition wait_stopped_poll :: "bool \<Rightarrow> bool \<Rightarrow> stopped_reason option" where
  "wait_stopped_poll deadline_ready cancel_ready =
     (if deadline_ready then Some DeadlineStop
      else if cancel_ready then Some CancelledStop else None)"

subsection \<open>Deadlines\<close>

lemma remaining_at_antimono: "now \<le> now' \<Longrightarrow> remaining_at d now' \<le> remaining_at d now"
  by (simp add: remaining_at_def duration_since_def)

lemma expired_mono: "expired d now \<Longrightarrow> now \<le> now' \<Longrightarrow> expired d now'"
  using remaining_at_antimono[of now now' d] by (simp add: expired_def)

lemma expired_iff: "0 < budget d \<Longrightarrow> expired d now \<longleftrightarrow> origin d + budget d \<le> now"
  by (auto simp: expired_def remaining_at_def duration_since_def)

lemma remaining_after_origin:
  "origin d \<le> now \<Longrightarrow> remaining_at d now = origin d + budget d - now"
  by (simp add: remaining_at_def duration_since_def)

lemma expired_after_origin:
  "origin d \<le> now \<Longrightarrow> expired d now \<longleftrightarrow> origin d + budget d \<le> now"
  by (auto simp: expired_def remaining_after_origin)

lemma remaining_deadline_at: "now \<le> now' \<Longrightarrow> remaining_at (deadline_at now cutoff) now' = cutoff - now'"
  by (auto simp: remaining_at_def deadline_at_def deadline_new_def duration_since_def min_def)

lemma earlier_cases: "earlier now a b = a \<or> earlier now a b = b"
  by (simp add: earlier_def)

lemma remaining_order_later:
  assumes "origin a \<le> now" "origin b \<le> now" "remaining_at a now \<le> remaining_at b now" "now \<le> now'"
  shows "remaining_at a now' \<le> remaining_at b now'"
  using assms by (simp add: remaining_after_origin)

lemma remaining_earlier:
  assumes "origin a \<le> now" "origin b \<le> now" "now \<le> now'"
  shows "remaining_at (earlier now a b) now' = min (remaining_at a now') (remaining_at b now')"
proof (cases "remaining_at a now \<le> remaining_at b now")
  case True
  with remaining_order_later[OF assms(1,2) True assms(3)] show ?thesis
    by (simp add: earlier_def min_def)
next
  case False
  then have le: "remaining_at b now \<le> remaining_at a now" by simp
  from False remaining_order_later[OF assms(2,1) le assms(3)] show ?thesis
    by (simp add: earlier_def)
qed

text \<open>
  A child scope never outlives its parent or its ceiling: for every context whose deadline
  started no later than the derivation, at every later clock reading the child's remaining time
  is exactly the smaller of the parent's remaining time and what is left of the ceiling, so a
  child of an unbounded parent is bounded by its ceiling and a child stops with a deadline
  whenever its parent does.
\<close>

lemma child_remaining:
  assumes origin: "\<forall>d. ctx_deadline c = Some d \<longrightarrow> origin d \<le> now"
    and later: "now \<le> now'"
  shows "remaining (child child_token now c ceiling) now' =
    Some (case remaining c now' of
            None \<Rightarrow> ceiling - (now' - now)
          | Some r \<Rightarrow> min r (ceiling - (now' - now)))"
proof (cases "ctx_deadline c")
  case None
  then show ?thesis
    by (simp add: remaining_def child_def context_new_def remaining_at_def deadline_new_def
        duration_since_def)
next
  case (Some d)
  with origin have "origin d \<le> now" by simp
  moreover have "origin (deadline_new now ceiling) \<le> now" by (simp add: deadline_new_def)
  ultimately have "remaining_at (earlier now d (deadline_new now ceiling)) now' =
      min (remaining_at d now') (remaining_at (deadline_new now ceiling) now')"
    using later by (rule remaining_earlier)
  moreover have "remaining_at (deadline_new now ceiling) now' = ceiling - (now' - now)"
    by (simp add: deadline_new_def remaining_at_def duration_since_def)
  ultimately show ?thesis
    using Some by (simp add: remaining_def child_def context_new_def)
qed

theorem child_remaining_witness:
  "remaining (child Suc 5 (with_timeout 0 100 (7::nat)) 20) 15 = Some 10"
proof -
  let ?c = "with_timeout 0 100 (7::nat)"
  have c: "ctx_deadline ?c = Some \<lparr>origin = 0, budget = 100\<rparr>"
    by (simp add: with_timeout_def from_deadline_def context_new_def deadline_new_def)
  then have r: "remaining ?c 15 = Some 85"
    by (simp add: remaining_def remaining_at_def duration_since_def)
  have "remaining (child Suc 5 ?c 20) 15 =
      Some (case remaining ?c 15 of
              None \<Rightarrow> 20 - (15 - 5)
            | Some r \<Rightarrow> min r (20 - (15 - 5)))"
    by (rule child_remaining) (simp_all add: c)
  then show ?thesis by (simp add: r)
qed

text \<open>
  \<open>Deadline::wait\<close> terminates and never returns early: whatever lateness the timer adds,
  the wait ends at a clock reading at which the deadline has expired, and with a punctual timer
  and a deadline that has started it ends exactly at origin plus budget, although it sleeps in
  steps of at most 24 hours.
\<close>

lemma wait_ends_expired:
  "now \<le> wait late d now \<and> expired d (wait late d now) \<and>
   (late = (\<lambda>_. 0) \<and> origin d \<le> now \<longrightarrow> wait late d now = max now (origin d + budget d))"
proof (induction late d now rule: wait.induct)
  case (1 late d now)
  show ?case
  proof (cases "expired d now")
    case True
    then have w: "wait late d now = now" by (simp add: wait.simps[of late d now])
    have "origin d \<le> now \<longrightarrow> max now (origin d + budget d) = now"
      using True expired_after_origin[of d now] by auto
    then show ?thesis unfolding w using True by simp
  next
    case False
    let ?next = "now + min (remaining_at d now) wait_step + late now"
    have unfold: "wait late d now = wait late d ?next"
      using False by (simp add: wait.simps[of late d now])
    have "wait late d ?next = max now (origin d + budget d)"
      if "late = (\<lambda>_. 0)" "origin d \<le> now"
    proof -
      have "wait late d ?next = max ?next (origin d + budget d)"
        using "1.IH"[OF False] that by simp
      with False that show ?thesis
        by (simp add: expired_after_origin remaining_after_origin)
    qed
    with unfold "1.IH"[OF False] show ?thesis by auto
  qed
qed

theorem wait_ends_expired_witness:
  "wait (\<lambda>_. 0) \<lparr>origin = 2, budget = 5\<rparr> 3 = 7"
proof -
  have "wait (\<lambda>_. 0) \<lparr>origin = 2, budget = 5\<rparr> 3 =
      max 3 (origin \<lparr>origin = 2, budget = 5\<rparr> + budget \<lparr>origin = 2, budget = 5\<rparr>)"
    using wait_ends_expired[of 3 "\<lambda>_. 0" "\<lparr>origin = 2, budget = 5\<rparr>"] by simp
  then show ?thesis by simp
qed

lemma stopped_child:
  assumes "\<forall>d. ctx_deadline c = Some d \<longrightarrow> origin d \<le> now" "now \<le> now'"
    and "stopped is_cancelled c now' = Some DeadlineStop"
  shows "stopped is_cancelled (child child_token now c ceiling) now' = Some DeadlineStop"
proof -
  from assms(3) obtain d where d: "ctx_deadline c = Some d" "expired d now'"
    by (auto simp: stopped_def split: option.splits if_splits)
  have "remaining_at (earlier now d (deadline_new now ceiling)) now' =
      min (remaining_at d now') (remaining_at (deadline_new now ceiling) now')"
    by (rule remaining_earlier) (use assms(1,2) d(1) in \<open>simp_all add: deadline_new_def\<close>)
  with d show ?thesis
    by (simp add: stopped_def child_def context_new_def expired_def)
qed

end
