(* ===== verification/Validate.thy ===== *)
theory Validate
  imports Prelude
begin

text \<open>
  The range helpers of \<open>crates/config/src/validate.rs\<close> that every configuration section
  shares. A violated rule is reported by the key an operator would set; the message, which only
  renders the bounds and the value, is not modelled.
\<close>

type_synonym validation = "string + unit"

definition duration_range :: "string \<Rightarrow> duration \<Rightarrow> duration \<Rightarrow> duration \<Rightarrow> validation" where
  "duration_range key value lo hi = (if value < lo \<or> value > hi then Inl key else Inr ())"

definition int_range :: "string \<Rightarrow> nat \<Rightarrow> nat \<Rightarrow> nat \<Rightarrow> validation" where
  "int_range key value lo hi = (if value < lo \<or> value > hi then Inl key else Inr ())"

text \<open>The key bytes an \<open>APP__\<close> environment variable can address.\<close>

definition env_key_byte :: "char \<Rightarrow> bool" where
  "env_key_byte b = (b \<in> set ''abcdefghijklmnopqrstuvwxyz0123456789_-'')"

fun contains_double_underscore :: "string \<Rightarrow> bool" where
  "contains_double_underscore (a # b # s) =
     ((a = CHR ''_'' \<and> b = CHR ''_'') \<or> contains_double_underscore (b # s))"
| "contains_double_underscore _ = False"

definition is_env_addressable :: "string \<Rightarrow> bool" where
  "is_env_addressable name =
     (name \<noteq> [] \<and> list_all env_key_byte name \<and> \<not> contains_double_underscore name
      \<and> last name \<noteq> CHR ''_'')"

lemma duration_range_ok [simp]:
  "duration_range key value lo hi = Inr () \<longleftrightarrow> lo \<le> value \<and> value \<le> hi"
  by (auto simp: duration_range_def)

lemma int_range_ok [simp]:
  "int_range key value lo hi = Inr () \<longleftrightarrow> lo \<le> value \<and> value \<le> hi"
  by (auto simp: int_range_def)

end
