(* ===== verification/Health.thy ===== *)
theory Health
  imports Validate
begin

text \<open>
  The crate \<open>health\<close>: a readiness verdict checked in the background and served from cache, and
  the validation of the \<open>health\<close> configuration section that supplies its policy.

  \<open>State\<close> of the source travels through a watch channel and is written under its lock together
  with the \<open>readiness_ready\<close> gauge; the record below holds the three fields of \<open>State\<close>, that
  gauge and the channel's publication version. Each operation is one critical section of the
  lock: it takes the clock reading the code samples inside the section and returns the new
  state with what the code returns or logs.
\<close>

subsection \<open>Policy and verdicts\<close>

record refresh_policy =
  interval :: duration
  probe_budget :: duration
  failure_threshold :: "32 word"

definition stale_after :: "refresh_policy \<Rightarrow> duration" where
  "stale_after p = (let period = max (interval p) (probe_budget p) in probe_budget p + period * 3)"

text \<open>The same sum with the overflow checks of \<open>Duration\<close> arithmetic; \<^term>\<open>None\<close> is the panic.\<close>

definition stale_after_checked :: "refresh_policy \<Rightarrow> duration option" where
  "stale_after_checked p =
     (let period = max (interval p) (probe_budget p)
      in case duration_checked_mul period 3 of
           None \<Rightarrow> None
         | Some periods \<Rightarrow> duration_checked_add (probe_budget p) periods)"

datatype not_ready =
    Draining
  | NotEvaluated
  | Stale duration duration
  | TimedOut string duration
  | ProbeFailed string string

type_synonym verdict = "not_ready + unit"

record progress_loss =
  last_completed_at :: instant
  observed_at :: instant
  loss_stale_after :: duration

datatype progress = Unarmed | Armed | Expired progress_loss | Stopped

record check =
  at :: instant
  verdict_of :: verdict
  consecutive_failures :: "32 word"

record state =
  draining :: bool
  last_check :: "check option"
  progress :: progress
  ready_gauge :: bool
  version :: nat

definition loss_not_ready :: "progress_loss \<Rightarrow> not_ready" where
  "loss_not_ready l =
     Stale (duration_since (observed_at l) (last_completed_at l)) (loss_stale_after l)"

definition progress_loss_of :: "state \<Rightarrow> progress_loss option" where
  "progress_loss_of s = (case progress s of Expired l \<Rightarrow> Some l | _ \<Rightarrow> None)"

definition expire_progress ::
  "instant \<Rightarrow> duration \<Rightarrow> state \<Rightarrow> state \<times> progress_loss option" where
  "expire_progress now sa s =
     (case progress s of
        Armed \<Rightarrow>
          (case last_check s of
             None \<Rightarrow> (s, None)
           | Some c \<Rightarrow>
               if duration_since now (at c) \<le> sa then (s, None)
               else (let loss = \<lparr>last_completed_at = at c, observed_at = now, loss_stale_after = sa\<rparr>
                     in (s\<lparr>progress := Expired loss, ready_gauge := False\<rparr>, Some loss)))
      | _ \<Rightarrow> (s, None))"

definition state_stop_progress ::
  "instant \<Rightarrow> duration \<Rightarrow> state \<Rightarrow> state \<times> progress_loss option" where
  "state_stop_progress now sa s =
     (let (s1, newly) = expire_progress now sa s
      in (if progress_loss_of s1 = None then s1\<lparr>progress := Stopped\<rparr> else s1, newly))"

definition publish_if :: "bool \<Rightarrow> state \<Rightarrow> state" where
  "publish_if modified s = (if modified then s\<lparr>version := Suc (version s)\<rparr> else s)"

subsection \<open>The owner's operations\<close>

definition readiness_new :: state where
  "readiness_new =
     \<lparr>draining = False, last_check = None, progress = Unarmed, ready_gauge = False, version = 0\<rparr>"

definition start_drain :: "refresh_policy \<Rightarrow> instant \<Rightarrow> state \<Rightarrow> state" where
  "start_drain p now s =
     (let changed = (\<not> draining s);
          (s1, newly) = state_stop_progress now (stale_after p) s
      in publish_if (changed \<or> newly \<noteq> None) (s1\<lparr>draining := True, ready_gauge := False\<rparr>))"

definition arm_progress :: "refresh_policy \<Rightarrow> instant \<Rightarrow> state \<Rightarrow> state \<times> verdict" where
  "arm_progress p now s =
     (if draining s \<or> progress s = Stopped then (s, Inl Draining)
      else case progress_loss_of s of
             Some l \<Rightarrow> (s, Inl (loss_not_ready l))
           | None \<Rightarrow>
               (case last_check s of
                  None \<Rightarrow> (s, Inl NotEvaluated)
                | Some c \<Rightarrow>
                    (case verdict_of c of
                       Inl reason \<Rightarrow> (s, Inl reason)
                     | Inr _ \<Rightarrow>
                         (let changed = (progress s = Unarmed);
                              (s1, newly) = expire_progress now (stale_after p) (s\<lparr>progress := Armed\<rparr>)
                          in (publish_if (changed \<or> newly \<noteq> None) s1,
                              case newly of None \<Rightarrow> Inr () | Some l \<Rightarrow> Inl (loss_not_ready l))))))"

definition observe_progress_loss ::
  "refresh_policy \<Rightarrow> instant \<Rightarrow> state \<Rightarrow> state \<times> progress_loss option" where
  "observe_progress_loss p now s =
     (let (s1, newly) = expire_progress now (stale_after p) s
      in (publish_if (newly \<noteq> None) s1, progress_loss_of s1))"

definition stop_progress ::
  "refresh_policy \<Rightarrow> instant \<Rightarrow> state \<Rightarrow> state \<times> progress_loss option" where
  "stop_progress p now s =
     (let changed = (progress s = Unarmed \<or> progress s = Armed);
          (s1, newly) = state_stop_progress now (stale_after p) s
      in (publish_if changed s1, progress_loss_of s1))"

text \<open>
  One pass of \<open>wait_for_progress_loss\<close>: a loss ends the wait; otherwise it waits for a
  publication, and while armed no longer than one nanosecond past the completion bound.
\<close>

datatype loss_wait = LossNow progress_loss | WaitUntil instant | WaitForChange

definition wait_for_progress_loss ::
  "refresh_policy \<Rightarrow> instant \<Rightarrow> state \<Rightarrow> state \<times> loss_wait" where
  "wait_for_progress_loss p now s =
     (let (s1, loss) = observe_progress_loss p now s
      in (s1,
          case loss of
            Some l \<Rightarrow> LossNow l
          | None \<Rightarrow>
              (case progress s1 of
                 Armed \<Rightarrow> (case last_check s1 of
                             Some c \<Rightarrow> WaitUntil (at c + stale_after p + 1)
                           | None \<Rightarrow> WaitForChange)
               | _ \<Rightarrow> WaitForChange)))"

subsection \<open>One refresh\<close>

text \<open>What one probe's future gave under the shared deadline: its result, or the elapsed timer.\<close>

datatype probe_run = Finished "string + unit" | Elapsed

definition probe_outcome :: "duration \<Rightarrow> string \<times> probe_run \<Rightarrow> verdict" where
  "probe_outcome bud pr =
     (case snd pr of
        Finished (Inr _) \<Rightarrow> Inr ()
      | Finished (Inl err) \<Rightarrow> Inl (ProbeFailed (fst pr) err)
      | Elapsed \<Rightarrow> Inl (TimedOut (fst pr) bud))"

definition check_probes :: "refresh_policy \<Rightarrow> (string \<times> probe_run) list \<Rightarrow> verdict" where
  "check_probes p runs =
     (case collect_results (map (probe_outcome (probe_budget p)) runs) of
        Inl e \<Rightarrow> Inl e
      | Inr _ \<Rightarrow> Inr ())"

definition outcome_label :: "verdict \<Rightarrow> string" where
  "outcome_label v =
     (case v of
        Inr _ \<Rightarrow> ''ok''
      | Inl (TimedOut _ _) \<Rightarrow> ''timed_out''
      | Inl _ \<Rightarrow> ''failed'')"

definition apply_failure_threshold ::
  "check option \<Rightarrow> verdict \<Rightarrow> 32 word \<Rightarrow> instant \<Rightarrow> duration \<Rightarrow> check" where
  "apply_failure_threshold previous observed threshold now sa =
     (let failures =
            (case (observed, previous) of
               (Inr _, _) \<Rightarrow> 0
             | (Inl _, Some c) \<Rightarrow> consecutive_failures c + 1
             | (Inl _, None) \<Rightarrow> 1);
          was_published_ready =
            (case previous of
               None \<Rightarrow> False
             | Some c \<Rightarrow> is_ok (verdict_of c) \<and> duration_since now (at c) \<le> sa);
          hold_ready = (was_published_ready \<and> \<not> is_ok observed \<and> failures < threshold)
      in \<lparr>at = now,
          verdict_of = (if hold_ready then Inr () else observed),
          consecutive_failures = failures\<rparr>)"

definition readiness_transition :: "check option \<Rightarrow> check \<Rightarrow> verdict option" where
  "readiness_transition previous nxt =
     (case previous of
        None \<Rightarrow> None
      | Some c \<Rightarrow> if is_ok (verdict_of c) \<noteq> is_ok (verdict_of nxt) then Some (verdict_of nxt) else None)"

record refresh_log =
  newly_expired :: "progress_loss option"
  late_by :: "duration option"
  absorbed_failure :: "(not_ready \<times> 32 word) option"
  transition_to_log :: "verdict option"

text \<open>The section of \<open>refresh\<close> under the lock, and what it logs once the lock is released.\<close>

definition refresh :: "refresh_policy \<Rightarrow> instant \<Rightarrow> verdict \<Rightarrow> state \<Rightarrow> state \<times> refresh_log" where
  "refresh p now observed s =
     (let sa = stale_after p;
          (s1, newly) = expire_progress now sa s;
          previous = last_check s1;
          nxt = apply_failure_threshold previous observed (failure_threshold p) now sa;
          reporting = (\<not> draining s1 \<and> progress_loss_of s1 = None);
          ready = (\<not> draining s1 \<and> progress_loss_of s1 = None \<and> is_ok (verdict_of nxt));
          log = \<lparr>newly_expired = newly,
                 late_by = (if reporting
                            then (case previous of
                                    None \<Rightarrow> None
                                  | Some c \<Rightarrow> (let age = duration_since now (at c)
                                               in if age > sa then Some age else None))
                            else None),
                 absorbed_failure = (if reporting \<and> is_ok (verdict_of nxt)
                            then (case observed of
                                    Inl reason \<Rightarrow> Some (reason, consecutive_failures nxt)
                                  | Inr _ \<Rightarrow> None)
                            else None),
                 transition_to_log = (if reporting then readiness_transition previous nxt else None)\<rparr>
      in (publish_if True (s1\<lparr>ready_gauge := ready, last_check := Some nxt\<rparr>), log))"

subsection \<open>The reader\<close>

definition verdict :: "duration \<Rightarrow> instant \<Rightarrow> state \<Rightarrow> verdict" where
  "verdict sa now s =
     (if draining s then Inl Draining
      else case progress_loss_of s of
             Some l \<Rightarrow> Inl (loss_not_ready l)
           | None \<Rightarrow>
               (case last_check s of
                  None \<Rightarrow> Inl NotEvaluated
                | Some c \<Rightarrow>
                    (let age = duration_since now (at c)
                     in if age > sa then Inl (Stale age sa) else verdict_of c)))"

record reader =
  seen :: nat
  stale_edge_for :: "instant option"

datatype reader_wait = ReadNow | UntilPublication | UntilPublicationOr instant

text \<open>How \<open>wait_for_verdict_event\<close> waits, and what each way to resolve does to the reader.\<close>

definition checked_at :: "state \<Rightarrow> instant option" where
  "checked_at s = (case last_check s of
                     Some c \<Rightarrow> if \<not> draining s then Some (at c) else None
                   | None \<Rightarrow> None)"

definition wait_for_verdict_event :: "duration \<Rightarrow> state \<Rightarrow> reader \<Rightarrow> reader_wait" where
  "wait_for_verdict_event sa s r =
     (if seen r \<noteq> version s then ReadNow
      else case checked_at s of
             Some t \<Rightarrow> if stale_edge_for r \<noteq> Some t then UntilPublicationOr (t + sa + 1)
                       else UntilPublication
           | None \<Rightarrow> UntilPublication)"

definition on_publication :: "state \<Rightarrow> reader \<Rightarrow> reader" where
  "on_publication s r = r\<lparr>seen := version s\<rparr>"

definition on_stale_edge :: "state \<Rightarrow> reader \<Rightarrow> reader" where
  "on_stale_edge s r = r\<lparr>stale_edge_for := checked_at s\<rparr>"

subsection \<open>The \<open>health\<close> configuration section\<close>

record health_config =
  refresh_interval :: duration
  cfg_probe_budget :: duration
  cfg_failure_threshold :: "32 word"

definition health_default :: health_config where
  "health_default =
     \<lparr>refresh_interval = from_secs 2, cfg_probe_budget = from_secs 4, cfg_failure_threshold = 3\<rparr>"

text \<open>The key of the first violated rule, in the order the code checks them.\<close>

definition health_validate :: "health_config \<Rightarrow> validation" where
  "health_validate c =
     bind_result (duration_range ''health.refresh_interval'' (refresh_interval c)
                    (from_millis 100) (from_secs 300)) (\<lambda>_.
     bind_result (duration_range ''health.probe_budget'' (cfg_probe_budget c)
                    (from_millis 100) (from_secs 30)) (\<lambda>_.
     bind_result (int_range ''health.failure_threshold'' (unat (cfg_failure_threshold c)) 1 100) (\<lambda>_.
     Inr ())))"

text \<open>The policy a process root builds from its validated section.\<close>

definition refresh_policy_of :: "health_config \<Rightarrow> refresh_policy" where
  "refresh_policy_of c =
     \<lparr>interval = refresh_interval c, probe_budget = cfg_probe_budget c,
      failure_threshold = cfg_failure_threshold c\<rparr>"

subsection \<open>The clock and the steps of the process\<close>

text \<open>
  The system is the monotonic clock and the published state. Time passes, and the owner drains,
  arms, observes, stops or publishes a completed check with whatever the probes gave, in any
  order: the interleaving of the refresher, the teardown and the progress observer.
\<close>

type_synonym system = "instant \<times> state"

inductive health_step :: "refresh_policy \<Rightarrow> system \<Rightarrow> system \<Rightarrow> bool" for p where
  tick: "now \<le> now' \<Longrightarrow> health_step p (now, s) (now', s)"
| drain: "health_step p (now, s) (now, start_drain p now s)"
| arm: "health_step p (now, s) (now, fst (arm_progress p now s))"
| observe: "health_step p (now, s) (now, fst (observe_progress_loss p now s))"
| stop: "health_step p (now, s) (now, fst (stop_progress p now s))"
| publish: "health_step p (now, s) (now, fst (refresh p now v s))"

inductive_cases health_stepE: "health_step p (now, s) u"

text \<open>The gauge agrees with the published state in every state between two steps.\<close>

definition published_ready :: "state \<Rightarrow> bool" where
  "published_ready s =
     (\<not> draining s \<and> progress_loss_of s = None \<and>
      (case last_check s of None \<Rightarrow> False | Some c \<Rightarrow> is_ok (verdict_of c)))"

definition health_inv :: "system \<Rightarrow> bool" where
  "health_inv u \<longleftrightarrow>
     (ready_gauge (snd u) \<longleftrightarrow> published_ready (snd u)) \<and>
     (\<forall>c. last_check (snd u) = Some c \<longrightarrow> at c \<le> fst u)"

subsection \<open>What each critical section keeps\<close>

lemma publish_if_simps [simp]:
  "draining (publish_if m s) = draining s"
  "last_check (publish_if m s) = last_check s"
  "progress (publish_if m s) = progress s"
  "ready_gauge (publish_if m s) = ready_gauge s"
  "progress_loss_of (publish_if m s) = progress_loss_of s"
  "published_ready (publish_if m s) = published_ready s"
  by (simp_all add: publish_if_def progress_loss_of_def published_ready_def)

lemma progress_loss_of_simps [simp]:
  "progress s = Expired l \<Longrightarrow> progress_loss_of s = Some l"
  "progress s = Armed \<Longrightarrow> progress_loss_of s = None"
  "progress s = Unarmed \<Longrightarrow> progress_loss_of s = None"
  "progress s = Stopped \<Longrightarrow> progress_loss_of s = None"
  by (simp_all add: progress_loss_of_def)

lemma progress_loss_of_frame [simp]:
  "progress_loss_of (s\<lparr>draining := d\<rparr>) = progress_loss_of s"
  "progress_loss_of (s\<lparr>ready_gauge := g\<rparr>) = progress_loss_of s"
  "progress_loss_of (s\<lparr>last_check := c\<rparr>) = progress_loss_of s"
  by (simp_all add: progress_loss_of_def)

lemma progress_loss_Some: "progress_loss_of s = Some l \<longleftrightarrow> progress s = Expired l"
  by (cases "progress s") (simp_all add: progress_loss_of_def)

text \<open>The cases of \<open>expire_progress\<close>: nothing happens, or an armed gap becomes evidence.\<close>

lemma expire_progress_cases:
  obtains (keep) "expire_progress now sa s = (s, None)"
  | (lose) c l where "progress s = Armed" "last_check s = Some c" "sa < now - at c"
      "l = \<lparr>last_completed_at = at c, observed_at = now, loss_stale_after = sa\<rparr>"
      "expire_progress now sa s = (s\<lparr>progress := Expired l, ready_gauge := False\<rparr>, Some l)"
proof (cases "progress s")
  case Armed
  then show ?thesis
  proof (cases "last_check s")
    case None
    with Armed keep show ?thesis by (simp add: expire_progress_def)
  next
    case (Some c)
    with Armed keep lose show ?thesis
      by (cases "now - at c \<le> sa") (simp_all add: expire_progress_def duration_since_def Let_def)
  qed
qed (use keep in \<open>simp_all add: expire_progress_def\<close>)

lemma expire_progress_Expired: "progress s = Expired l \<Longrightarrow> expire_progress now sa s = (s, None)"
  by (simp add: expire_progress_def)

lemma expire_progress_frame [simp]:
  "draining (fst (expire_progress now sa s)) = draining s"
  "last_check (fst (expire_progress now sa s)) = last_check s"
  by (cases rule: expire_progress_cases[of now sa s]; simp)+

lemma expire_progress_gauge:
  "(ready_gauge s \<longleftrightarrow> published_ready s) \<Longrightarrow>
   ready_gauge (fst (expire_progress now sa s)) \<longleftrightarrow> published_ready (fst (expire_progress now sa s))"
  by (cases rule: expire_progress_cases[of now sa s]) (simp_all add: published_ready_def)

lemma state_stop_progress_frame [simp]:
  "draining (fst (state_stop_progress now sa s)) = draining s"
  "last_check (fst (state_stop_progress now sa s)) = last_check s"
  by (simp_all add: state_stop_progress_def Let_def case_prod_beta)

lemma state_stop_progress_Expired:
  "progress s = Expired l \<Longrightarrow> state_stop_progress now sa s = (s, None)"
  by (simp add: state_stop_progress_def expire_progress_Expired)

lemma state_stop_progress_gauge:
  assumes "ready_gauge s \<longleftrightarrow> published_ready s"
  shows "ready_gauge (fst (state_stop_progress now sa s)) \<longleftrightarrow>
    published_ready (fst (state_stop_progress now sa s))"
proof -
  let ?s = "fst (expire_progress now sa s)"
  have "ready_gauge ?s \<longleftrightarrow> published_ready ?s"
    using assms by (rule expire_progress_gauge)
  moreover have "published_ready (?s\<lparr>progress := Stopped\<rparr>) = published_ready ?s"
    if "progress_loss_of ?s = None"
    using that by (simp add: published_ready_def)
  ultimately show ?thesis
    by (simp add: state_stop_progress_def Let_def case_prod_beta)
qed


lemma refresh_state:
  "fst (refresh p now v s) =
     (let s1 = fst (expire_progress now (stale_after p) s);
          nxt = apply_failure_threshold (last_check s) v (failure_threshold p) now (stale_after p)
      in publish_if True
           (s1\<lparr>ready_gauge := (\<not> draining s \<and> progress_loss_of s1 = None \<and> is_ok (verdict_of nxt)),
               last_check := Some nxt\<rparr>))"
  by (simp add: refresh_def Let_def case_prod_beta)

lemma apply_failure_threshold_at [simp]: "at (apply_failure_threshold c v th now sa) = now"
  by (simp add: apply_failure_threshold_def Let_def)

lemma health_inv_new: "health_inv (now, readiness_new)"
  by (simp add: health_inv_def readiness_new_def published_ready_def)

lemma health_step_inv: "health_step p u w \<Longrightarrow> health_inv u \<Longrightarrow> health_inv w"
proof (induction rule: health_step.induct)
  case (tick now now' s)
  then show ?case by (auto simp: health_inv_def)
next
  case (drain now s)
  then show ?case
    by (simp add: health_inv_def start_drain_def published_ready_def Let_def case_prod_beta)
next
  case (arm now s)
  let ?a = "s\<lparr>progress := Armed\<rparr>"
  have "ready_gauge ?a \<longleftrightarrow> published_ready ?a" if "progress_loss_of s = None"
    using that arm by (simp add: health_inv_def published_ready_def)
  then have "ready_gauge (fst (expire_progress now (stale_after p) ?a)) \<longleftrightarrow>
      published_ready (fst (expire_progress now (stale_after p) ?a))"
    if "progress_loss_of s = None"
    using that by (intro expire_progress_gauge) simp
  with arm show ?case
    by (auto simp: health_inv_def arm_progress_def Let_def case_prod_beta split: option.splits sum.splits)
next
  case (observe now s)
  then show ?case
    using expire_progress_gauge[of s now "stale_after p"]
    by (simp add: health_inv_def observe_progress_loss_def Let_def case_prod_beta)
next
  case (stop now s)
  then show ?case
    using state_stop_progress_gauge[of s now "stale_after p"]
    by (simp add: health_inv_def stop_progress_def Let_def case_prod_beta)
next
  case (publish now s v)
  show ?case
    by (simp add: health_inv_def refresh_state Let_def published_ready_def)
qed

text \<open>A retained loss and a started drain survive every step.\<close>

lemma health_step_loss:
  "health_step p u w \<Longrightarrow> progress_loss_of (snd u) = Some l \<Longrightarrow> progress_loss_of (snd w) = Some l"
proof (induction rule: health_step.induct)
  case (publish now s v)
  then show ?case
    by (simp add: refresh_state Let_def expire_progress_Expired progress_loss_Some)
qed (auto simp: progress_loss_Some start_drain_def arm_progress_def observe_progress_loss_def
  stop_progress_def state_stop_progress_Expired expire_progress_Expired split: option.splits)

definition drain_started :: "system \<Rightarrow> unit option" where
  "drain_started u = (if draining (snd u) then Some () else None)"

lemma health_step_drain:
  "health_step p u w \<Longrightarrow> draining (snd u) \<Longrightarrow> draining (snd w)"
  by (induction rule: health_step.induct)
    (auto simp: start_drain_def arm_progress_def observe_progress_loss_def stop_progress_def
      refresh_state Let_def case_prod_beta)

interpretation health_loss: stable_observation "health_step p" health_inv "\<lambda>u. progress_loss_of (snd u)"
  by unfold_locales (auto intro: health_step_inv health_step_loss)

interpretation health_drain: stable_observation "health_step p" health_inv drain_started
  by unfold_locales
    (auto simp: drain_started_def intro: health_step_drain split: if_splits)


subsection \<open>Reachable states\<close>

definition health_reachable :: "refresh_policy \<Rightarrow> system \<Rightarrow> bool" where
  "health_reachable p u \<longleftrightarrow> (\<exists>t0. (health_step p)\<^sup>*\<^sup>* (t0, readiness_new) u)"

lemma health_reachable_inv: "health_reachable p u \<Longrightarrow> health_inv u"
  by (auto simp: health_reachable_def intro: health_loss.inv_run health_inv_new)

lemma health_reachable_step: "health_reachable p u \<Longrightarrow> health_step p u w \<Longrightarrow> health_reachable p w"
  by (auto simp: health_reachable_def intro: rtranclp.rtrancl_into_rtrancl)

lemma verdict_loss:
  "progress_loss_of s = Some l \<Longrightarrow>
   verdict sa now s = Inl (if draining s then Draining else loss_not_ready l)"
  by (simp add: verdict_def)

lemma verdict_ok_iff:
  "is_ok (verdict sa now s) \<longleftrightarrow>
     published_ready s \<and> (\<forall>c. last_check s = Some c \<longrightarrow> now - at c \<le> sa)"
  by (auto simp: verdict_def published_ready_def Let_def duration_since_def split: option.splits)

text \<open>An armed gap: the first operation that changes anything records it.\<close>

definition gap_loss :: "refresh_policy \<Rightarrow> check \<Rightarrow> instant \<Rightarrow> progress_loss" where
  "gap_loss p c now = \<lparr>last_completed_at = at c, observed_at = now, loss_stale_after = stale_after p\<rparr>"

lemma armed_gap_step:
  assumes armed: "progress s = Armed" "last_check s = Some c" "stale_after p < now - at c"
    and step: "health_step p (now, s) (now', s')"
  shows "s' = s \<or> now' = now \<and> progress_loss_of s' = Some (gap_loss p c now)"
proof -
  have expire: "expire_progress now (stale_after p) s =
      (s\<lparr>progress := Expired (gap_loss p c now), ready_gauge := False\<rparr>, Some (gap_loss p c now))"
    using armed by (simp add: expire_progress_def duration_since_def Let_def gap_loss_def)
  have rearm: "s\<lparr>progress := Armed\<rparr> = s" using armed(1) by simp
  from step show ?thesis
  proof (cases rule: health_step.cases)
    case arm
    then show ?thesis by (auto simp: arm_progress_def armed rearm expire Let_def split: sum.splits)
  qed (auto simp: start_drain_def observe_progress_loss_def stop_progress_def state_stop_progress_def refresh_state Let_def expire)
qed

text \<open>
  C36. A missed completion bound is terminal. Let the process be armed and its last completed check be older
  than the staleness bound. Then, whatever the refresher, the observer and the teardown do from there and in
  whatever order (a late check, a stop of the progress followed by a check, a drain), the reader never answers
  ready again; and as soon as one of them has changed anything, the retained evidence is this first gap, with
  the instant at which it was found, and the gauge is zero.
\<close>

theorem late_check_cannot_restore:
  assumes reach: "health_reachable p (now, s)"
    and armed: "progress s = Armed" and last: "last_check s = Some c"
    and gap: "stale_after p < now - at c"
    and run: "(health_step p)\<^sup>*\<^sup>* (now, s) (now', s')"
  shows "\<not> is_ok (verdict (stale_after p) now' s')
    \<and> (s' = s \<or> \<not> ready_gauge s' \<and> (\<exists>t. now \<le> t \<and> t \<le> now' \<and> progress_loss_of s' =
         Some \<lparr>last_completed_at = at c, observed_at = t, loss_stale_after = stale_after p\<rparr>))"
proof -
  from run have "now \<le> now' \<and> (s' = s \<or> (\<exists>t. now \<le> t \<and> t \<le> now' \<and> progress_loss_of s' = Some (gap_loss p c t)))"
  proof (induction rule: rtranclp_induct2)
    case (step now1 s1 now2 s2)
    have later: "now1 \<le> now2" using step.hyps(2) by (auto elim: health_stepE)
    show ?case
    proof (cases "s1 = s")
      case True
      with step.hyps(2) step.IH gap have "s2 = s \<or> now2 = now1 \<and> progress_loss_of s2 = Some (gap_loss p c now1)"
        by (intro armed_gap_step[OF armed last]) auto
      with step.IH later show ?thesis by auto
    next
      case False
      with step.IH obtain t where "now \<le> t" "t \<le> now1" "progress_loss_of s1 = Some (gap_loss p c t)" by blast
      with step.IH later health_step_loss[OF step.hyps(2)] show ?thesis by force
    qed
  qed simp
  moreover have "health_inv (now', s')" using reach run by (blast intro: health_reachable_inv health_loss.inv_run)
  moreover have "\<not> is_ok (verdict (stale_after p) now' s)" if "now \<le> now'"
    using that gap last by (auto simp: verdict_ok_iff)
  ultimately show ?thesis
    by (auto simp: gap_loss_def verdict_loss health_inv_def published_ready_def)
qed

text \<open>
  Draining is final: once \<open>start_drain\<close> ran, every later read answers \<open>Draining\<close>, also when
  a check that was in flight completes successfully afterwards, and the readiness gauge stays at
  zero.
\<close>

lemma drain_is_final:
  assumes reach: "health_reachable p (now, s)"
    and run: "(health_step p)\<^sup>*\<^sup>* (now, start_drain p now s) (now', s')"
  shows "verdict (stale_after p) now' s' = Inl Draining \<and> \<not> ready_gauge s'"
proof -
  have inv: "health_inv (now, start_drain p now s)"
    using reach by (blast intro: health_reachable_inv health_reachable_step health_step.drain)
  have "drain_started (now, start_drain p now s) = Some ()"
    by (simp add: drain_started_def start_drain_def Let_def case_prod_beta)
  then have "draining s'"
    using health_drain.obs_run[OF run inv] by (auto simp: drain_started_def split: if_splits)
  moreover have "health_inv (now', s')"
    using run inv by (rule health_loss.inv_run)
  ultimately show ?thesis
    by (simp add: verdict_def health_inv_def published_ready_def)
qed

text \<open>
  The gauge tells the truth: in every reachable state the \<open>readiness_ready\<close> gauge is one
  exactly when the published state is ready, a reader that answers ready implies the gauge is
  one, and a gauge of one with a fresh check implies that the reader answers ready.
\<close>

lemma ready_gauge_matches:
  assumes "health_reachable p (now, s)"
  shows "(ready_gauge s \<longleftrightarrow> published_ready s) \<and>
    (is_ok (verdict (stale_after p) now s) \<longleftrightarrow>
       ready_gauge s \<and> (\<forall>c. last_check s = Some c \<longrightarrow> now - at c \<le> stale_after p))"
  using health_reachable_inv[OF assms] by (simp add: health_inv_def verdict_ok_iff)

subsection \<open>The failure threshold\<close>

text \<open>Completed rounds in order: the completion time and what the probes gave.\<close>

definition run_rounds :: "refresh_policy \<Rightarrow> (instant \<times> verdict) list \<Rightarrow> state \<Rightarrow> state" where
  "run_rounds p rs s = fold (\<lambda>(t, v) s. fst (refresh p t v s)) rs s"

definition trailing_failures :: "(instant \<times> verdict) list \<Rightarrow> nat" where
  "trailing_failures rs = length (takeWhile (\<lambda>(t, v). \<not> is_ok v) (rev rs))"

lemma run_rounds_simps [simp]:
  "run_rounds p [] s = s"
  "run_rounds p (rs @ [(t, v)]) s = fst (refresh p t v (run_rounds p rs s))"
  by (simp_all add: run_rounds_def)

lemma trailing_failures_simps [simp]:
  "trailing_failures [] = 0"
  "trailing_failures (rs @ [(t, v)]) = (if is_ok v then 0 else Suc (trailing_failures rs))"
  by (simp_all add: trailing_failures_def)

lemma trailing_failures_le: "trailing_failures rs \<le> length rs"
  unfolding trailing_failures_def by (metis length_rev length_takeWhile_le)

lemma last_check_refresh:
  "last_check (fst (refresh p t v s)) =
     Some (apply_failure_threshold (last_check s) v (failure_threshold p) t (stale_after p))"
  by (simp add: refresh_state Let_def)

lemma unat_Suc_word32: "unat (w :: 32 word) < 2 ^ 32 - 1 \<Longrightarrow> unat (w + 1) = Suc (unat w)"
  by (simp add: unat_word_ariths)

lemma trailing_success:
  "trailing_failures rs < length rs \<Longrightarrow>
   is_ok (snd (rs ! (length rs - Suc (trailing_failures rs))))"
proof (induction rs rule: rev_induct)
  case (snoc x rs)
  obtain t v where x: "x = (t, v)" by (cases x)
  show ?case
  proof (cases "is_ok v")
    case True
    with x show ?thesis by simp
  next
    case False
    with x snoc.prems have lt: "trailing_failures rs < length rs" by simp
    moreover have "length rs - Suc (trailing_failures rs) < length rs" using lt by simp
    ultimately show ?thesis using snoc.IH x False by (simp add: nth_append)
  qed
qed simp

text \<open>The streak the state keeps is the number of failed rounds at the end of the history.\<close>

lemma run_rounds_streak:
  assumes "length rs < 2 ^ 32" "rs \<noteq> []"
  shows "\<exists>c. last_check (run_rounds p rs readiness_new) = Some c
    \<and> unat (consecutive_failures c) = trailing_failures rs
    \<and> (is_ok (verdict_of c) \<longrightarrow> trailing_failures rs = 0 \<or>
         (trailing_failures rs < unat (failure_threshold p) \<and> trailing_failures rs < length rs))"
  using assms
proof (induction rs rule: rev_induct)
  case (snoc x rs)
  obtain t v where x: "x = (t, v)" by (cases x)
  let ?c = "apply_failure_threshold (last_check (run_rounds p rs readiness_new)) v
      (failure_threshold p) t (stale_after p)"
  have last: "last_check (run_rounds p (rs @ [x]) readiness_new) = Some ?c"
    by (simp add: x last_check_refresh)
  show ?case
  proof (cases "rs = []")
    case True
    then show ?thesis
      using last x
      by (cases v) (simp_all add: readiness_new_def apply_failure_threshold_def trailing_failures_def)
  next
    case False
    then obtain c where c: "last_check (run_rounds p rs readiness_new) = Some c"
      "unat (consecutive_failures c) = trailing_failures rs"
      "is_ok (verdict_of c) \<longrightarrow> trailing_failures rs = 0 \<or>
         (trailing_failures rs < unat (failure_threshold p) \<and> trailing_failures rs < length rs)"
      using snoc.IH snoc.prems by auto
    have bound: "unat (consecutive_failures c) < 2 ^ 32 - 1"
      using c(2) trailing_failures_le[of rs] snoc.prems(1) by simp
    have "trailing_failures rs < length rs" if "is_ok (verdict_of c)"
      using c(3) that False by (cases rs) auto
    with last x c(1,2) show ?thesis
      by (cases v) (auto simp: apply_failure_threshold_def Let_def unat_Suc_word32[OF bound]
          word_less_nat_alt)
  qed
qed simp

text \<open>
  A ready answer is backed by a recent success: after any history of completed checks
  (fewer than \<open>2 ^ 32\<close> of them, the range of the failure counter), if the reader answers ready
  then at least one of the last \<open>failure_threshold\<close> checks (of the last one for a threshold of
  zero or one) observed every probe healthy.
\<close>

lemma ready_needs_recent_success:
  assumes bound: "length rs < 2 ^ 32"
    and ready: "is_ok (verdict (stale_after p) now (run_rounds p rs readiness_new))"
  shows "\<exists>(t, v) \<in> set (drop (length rs - max 1 (unat (failure_threshold p))) rs). is_ok v"
proof -
  from ready have pub: "published_ready (run_rounds p rs readiness_new)"
    by (simp add: verdict_ok_iff)
  then have ne: "rs \<noteq> []" by (auto simp: published_ready_def readiness_new_def)
  let ?k = "trailing_failures rs"
  obtain c where c: "last_check (run_rounds p rs readiness_new) = Some c"
    "is_ok (verdict_of c) \<longrightarrow> ?k = 0 \<or> (?k < unat (failure_threshold p) \<and> ?k < length rs)"
    using run_rounds_streak[OF bound ne, of p] by auto
  with pub have k: "?k < length rs" "?k < max 1 (unat (failure_threshold p))"
    using ne by (auto simp: published_ready_def max_def)
  let ?i = "length rs - Suc ?k"
  have "is_ok (snd (rs ! ?i))" using k(1) by (rule trailing_success)
  moreover have "rs ! ?i \<in> set (drop (length rs - max 1 (unat (failure_threshold p))) rs)"
    using k by (auto simp: in_set_conv_nth intro!: exI[of _ "?i - (length rs - max 1 (unat (failure_threshold p)))"])
  ultimately show ?thesis by (auto simp: case_prod_beta)
qed


text \<open>Consecutive completions that are at most \<open>sa\<close> apart.\<close>

fun gaps_within :: "duration \<Rightarrow> instant \<Rightarrow> (instant \<times> verdict) list \<Rightarrow> bool" where
  "gaps_within sa t [] = True"
| "gaps_within sa t ((t', v) # rs) = (t' - t \<le> sa \<and> gaps_within sa t' rs)"

fun last_time :: "instant \<Rightarrow> (instant \<times> verdict) list \<Rightarrow> instant" where
  "last_time t [] = t"
| "last_time t ((t', v) # rs) = last_time t' rs"

lemma last_time_snoc [simp]: "last_time t (rs @ [(t', v)]) = t'"
  by (induction t rs rule: last_time.induct) simp_all

lemma gaps_within_snoc:
  "gaps_within sa t (rs @ [(t', v)]) \<longleftrightarrow> gaps_within sa t rs \<and> t' - last_time t rs \<le> sa"
  by (induction sa t rs rule: gaps_within.induct) auto

lemma run_rounds_Cons: "run_rounds p (r # rs) s = run_rounds p rs (fst (refresh p (fst r) (snd r) s))"
  by (simp add: run_rounds_def case_prod_beta)

lemma run_rounds_draining [simp]: "draining (run_rounds p rs s) = draining s"
  by (induction rs rule: rev_induct) (auto simp: refresh_state Let_def)

lemma refresh_keeps_progress:
  assumes "last_check s = Some c" "t - at c \<le> stale_after p"
  shows "progress_loss_of (fst (refresh p t v s)) = progress_loss_of s"
  using assms by (cases rule: expire_progress_cases[of t "stale_after p" s]) (simp_all add: refresh_state Let_def)

lemma streak_after_success:
  assumes "length fs < 2 ^ 32" "\<forall>(t, v) \<in> set fs. \<not> is_ok v" "gaps_within (stale_after p) t0 fs"
  shows "\<exists>c. last_check (run_rounds p ((t0, Inr ()) # fs) s) = Some c
    \<and> at c = last_time t0 fs \<and> unat (consecutive_failures c) = length fs
    \<and> (is_ok (verdict_of c) \<longleftrightarrow> length fs < max 1 (unat (failure_threshold p)))
    \<and> progress_loss_of (run_rounds p ((t0, Inr ()) # fs) s) = progress_loss_of (fst (refresh p t0 (Inr ()) s))"
  using assms
proof (induction fs rule: rev_induct)
  case Nil
  then show ?case
    by (simp add: run_rounds_Cons last_check_refresh apply_failure_threshold_def Let_def)
next
  case (snoc x fs)
  let ?s = "run_rounds p ((t0, Inr ()) # fs) s"
  obtain t v where x: "x = (t, v)" by (cases x)
  with snoc.prems obtain e where v: "v = Inl e" by (cases v) auto
  from snoc x obtain c where c:
    "last_check ?s = Some c"
    "at c = last_time t0 fs" "unat (consecutive_failures c) = length fs"
    "is_ok (verdict_of c) \<longleftrightarrow> length fs < max 1 (unat (failure_threshold p))"
    "progress_loss_of ?s = progress_loss_of (fst (refresh p t0 (Inr ()) s))"
    by (auto simp: gaps_within_snoc)
  have bound: "unat (consecutive_failures c) < 2 ^ 32 - 1"
    using c(3) snoc.prems(1) by simp
  have fresh: "t - at c \<le> stale_after p"
    using snoc.prems(3) x c(2) by (simp add: gaps_within_snoc)
  have run: "run_rounds p ((t0, Inr ()) # fs @ [x]) s = fst (refresh p t v ?s)"
    using run_rounds_simps(2)[of p "(t0, Inr ()) # fs" t v s] by (simp add: x)
  have "last_check (run_rounds p ((t0, Inr ()) # fs @ [x]) s) =
      Some (apply_failure_threshold (Some c) v (failure_threshold p) t (stale_after p))"
    using c(1) by (simp add: run last_check_refresh)
  moreover have "progress_loss_of (run_rounds p ((t0, Inr ()) # fs @ [x]) s) =
      progress_loss_of (fst (refresh p t0 (Inr ()) s))"
    using refresh_keeps_progress[OF c(1) fresh] c(5) by (simp add: run)
  ultimately show ?case
    using c(3,4) fresh
    by (auto simp: x v apply_failure_threshold_def duration_since_def unat_Suc_word32[OF bound]
        word_less_nat_alt max_def split: if_splits)
qed

text \<open>
  C39. The threshold is exact: from any published state that is not draining, whatever its failure count, a
  healthy check that finds no missed bound starts the count anew; a run of failed checks after it that complete
  no further apart than the staleness bound keeps the published verdict ready for exactly
  \<open>failure_threshold - 1\<close> failures and withdraws it at failure number \<open>failure_threshold\<close> (at the first failure
  for a threshold of zero or one).
\<close>

theorem failure_threshold_exact:
  assumes "length fs < 2 ^ 32" and "\<forall>(t, v) \<in> set fs. \<not> is_ok v"
    and "gaps_within (stale_after p) t0 fs"
    and live: "\<not> draining s" "progress_loss_of (fst (refresh p t0 (Inr ()) s)) = None"
  shows "is_ok (verdict (stale_after p) (last_time t0 fs) (run_rounds p ((t0, Inr ()) # fs) s))
    \<longleftrightarrow> length fs < max 1 (unat (failure_threshold p))"
proof -
  let ?s = "run_rounds p ((t0, Inr ()) # fs) s"
  obtain c where "last_check ?s = Some c" "at c = last_time t0 fs"
    "is_ok (verdict_of c) \<longleftrightarrow> length fs < max 1 (unat (failure_threshold p))"
    "progress_loss_of ?s = None"
    using streak_after_success[OF assms(1-3), of s] live(2) by auto
  then show ?thesis using live(1) by (simp add: verdict_def duration_since_def)
qed

subsection \<open>Probes, staleness and the reader's wake\<close>

text \<open>
  The verdict of a round names the first failed probe in registration order: a round fails
  with a reason exactly when some probe gave that reason (its own error, or the timeout with
  the round's budget) and every probe registered before it succeeded; it succeeds exactly when
  every probe succeeded.
\<close>

lemma check_probes_first_failure:
  "(check_probes p runs = Inl e \<longleftrightarrow>
      (\<exists>before pr after. runs = before @ pr # after \<and>
         (\<forall>q \<in> set before. snd q = Finished (Inr ())) \<and>
         probe_outcome (probe_budget p) pr = Inl e)) \<and>
   (check_probes p runs = Inr () \<longleftrightarrow> (\<forall>q \<in> set runs. snd q = Finished (Inr ())))"
proof -
  let ?o = "probe_outcome (probe_budget p)"
  have ok: "?o q = Inr () \<longleftrightarrow> snd q = Finished (Inr ())" for q
    by (auto simp: probe_outcome_def split: probe_run.splits sum.splits)
  have all_ok: "\<forall>q \<in> set qs. snd q = Finished (Inr ())" if "map ?o qs = map Inr xs" for qs xs
  proof
    fix q assume "q \<in> set qs"
    then have "?o q \<in> set (map Inr xs)" unfolding that[symmetric] by simp
    then have "?o q = Inr ()" by auto
    then show "snd q = Finished (Inr ())" by (simp add: ok)
  qed
  have "check_probes p runs = Inl e \<longleftrightarrow> (\<exists>xs ys. map ?o runs = map Inr xs @ Inl e # ys)"
    by (auto simp: check_probes_def simp flip: collect_results_Inl split: sum.splits)
  also have "\<dots> \<longleftrightarrow> (\<exists>before pr after. runs = before @ pr # after \<and>
      (\<forall>q \<in> set before. snd q = Finished (Inr ())) \<and> ?o pr = Inl e)"
  proof
    assume "\<exists>xs ys. map ?o runs = map Inr xs @ Inl e # ys"
    then obtain xs ys where "map ?o runs = map Inr xs @ Inl e # ys" by blast
    then obtain before rest where split: "runs = before @ rest" "map ?o before = map Inr xs"
      "map ?o rest = Inl e # ys"
      by (auto simp: map_eq_append_conv)
    from split(3) obtain pr after where "rest = pr # after" "?o pr = Inl e"
      by (cases rest) auto
    with split(1) all_ok[OF split(2)]
    show "\<exists>before pr after. runs = before @ pr # after \<and>
        (\<forall>q \<in> set before. snd q = Finished (Inr ())) \<and> ?o pr = Inl e" by blast
  next
    assume "\<exists>before pr after. runs = before @ pr # after \<and>
        (\<forall>q \<in> set before. snd q = Finished (Inr ())) \<and> ?o pr = Inl e"
    then obtain before pr after where r: "runs = before @ pr # after"
      "\<forall>q \<in> set before. snd q = Finished (Inr ())" "?o pr = Inl e" by blast
    then have "map ?o runs = map Inr (map (\<lambda>_. ()) before) @ Inl e # map ?o after"
      using ok by simp
    then show "\<exists>xs ys. map ?o runs = map Inr xs @ Inl e # ys" by blast
  qed
  moreover have "check_probes p runs = Inr () \<longleftrightarrow> (\<exists>xs. map ?o runs = map Inr xs)"
    by (auto simp: check_probes_def simp flip: collect_results_Inr split: sum.splits)
  moreover have "(\<exists>xs. map ?o runs = map Inr xs) \<longleftrightarrow> (\<forall>q \<in> set runs. snd q = Finished (Inr ()))"
  proof
    assume "\<forall>q \<in> set runs. snd q = Finished (Inr ())"
    then have "map ?o runs = map Inr (map (\<lambda>_. ()) runs)" by (simp add: ok)
    then show "\<exists>xs. map ?o runs = map Inr xs" by blast
  qed (blast dest: all_ok)
  ultimately show ?thesis by blast
qed

text \<open>
  A validated policy is safe: for every \<open>health\<close> section that validation admits, the
  staleness bound is computed without overflow, lies between 400 ms and 930 s, and is at least
  one interval plus two probe budgets, so a refresher whose next round starts one interval
  after the last completion and uses its whole budget replaces the verdict before it is stale.
\<close>

lemma validated_stale_after:
  assumes "health_validate c = Inr ()"
  shows "stale_after_checked (refresh_policy_of c) = Some (stale_after (refresh_policy_of c))
    \<and> from_millis 400 \<le> stale_after (refresh_policy_of c)
    \<and> stale_after (refresh_policy_of c) \<le> from_secs 930
    \<and> refresh_interval c + 2 * cfg_probe_budget c \<le> stale_after (refresh_policy_of c)
    \<and> 1 \<le> unat (failure_threshold (refresh_policy_of c))"
proof -
  from assms have r: "from_millis 100 \<le> refresh_interval c" "refresh_interval c \<le> from_secs 300"
    "from_millis 100 \<le> cfg_probe_budget c" "cfg_probe_budget c \<le> from_secs 30"
    "1 \<le> unat (cfg_failure_threshold c)"
    by (auto simp: health_validate_def bind_result_Inr)
  then show ?thesis
    by (auto simp: stale_after_checked_def stale_after_def refresh_policy_of_def Let_def
        duration_checked_mul_def duration_checked_add_def duration_max_def time_units max_def)
qed

text \<open>
  A waiting reader is woken at the right moment and once: when \<open>wait_for_verdict_event\<close>
  waits for a stale edge, that instant is the first at which the current check is refused as
  stale, and at every earlier instant the reader answers that check's own verdict; and once the edge was delivered the same check wakes
  the reader no more, only a new publication does.
\<close>

lemma stale_edge_exact:
  assumes wait: "wait_for_verdict_event sa s r = UntilPublicationOr t"
    and live: "progress_loss_of s = None"
  shows "verdict sa t s = Inl (Stale (sa + 1) sa)
    \<and> (\<exists>c. last_check s = Some c \<and> (\<forall>now < t. verdict sa now s = verdict_of c))
    \<and> wait_for_verdict_event sa s (on_stale_edge s r) = UntilPublication"
proof -
  from wait obtain c where c: "last_check s = Some c" "\<not> draining s" "t = at c + sa + 1"
    "seen r = version s"
    by (auto simp: wait_for_verdict_event_def checked_at_def split: if_splits option.splits)
  then show ?thesis
    using live
    by (auto simp: verdict_def duration_since_def wait_for_verdict_event_def on_stale_edge_def
        checked_at_def Let_def)
qed


subsection \<open>Concrete runs\<close>

definition demo_policy :: refresh_policy where
  "demo_policy = \<lparr>interval = 1, probe_budget = 1, failure_threshold = 3\<rparr>"

definition demo_check :: check where
  "demo_check = \<lparr>at = 0, verdict_of = Inr (), consecutive_failures = 0\<rparr>"

definition demo_armed :: state where
  "demo_armed = \<lparr>draining = False, last_check = Some demo_check, progress = Armed,
     ready_gauge = True, version = 2\<rparr>"

lemma stale_after_demo [simp]: "stale_after demo_policy = 4"
  by (simp add: stale_after_def demo_policy_def)

lemma demo_refresh:
  "fst (refresh demo_policy 0 (Inr ()) readiness_new) =
     demo_armed\<lparr>progress := Unarmed, version := 1\<rparr>"
  by (simp add: refresh_state readiness_new_def demo_armed_def demo_check_def Let_def
      expire_progress_def apply_failure_threshold_def publish_if_def progress_loss_of_def)

lemma demo_arm:
  "fst (arm_progress demo_policy 0 (demo_armed\<lparr>progress := Unarmed, version := 1\<rparr>)) = demo_armed"
  by (simp add: arm_progress_def demo_armed_def demo_check_def Let_def expire_progress_def
      publish_if_def progress_loss_of_def duration_since_def)

lemma demo_reachable: "health_reachable demo_policy (now, demo_armed)"
proof -
  let ?r = "health_step demo_policy"
  have "?r (0, readiness_new) (0, demo_armed\<lparr>progress := Unarmed, version := 1\<rparr>)"
    using health_step.publish[of demo_policy 0 readiness_new "Inr ()"] by (simp add: demo_refresh)
  moreover have "?r (0, demo_armed\<lparr>progress := Unarmed, version := 1\<rparr>) (0, demo_armed)"
    using health_step.arm[of demo_policy 0 "demo_armed\<lparr>progress := Unarmed, version := 1\<rparr>"]
    by (simp only: demo_arm)
  moreover have "?r (0, demo_armed) (now, demo_armed)" by (rule health_step.tick) simp
  ultimately have "?r\<^sup>*\<^sup>* (0, readiness_new) (now, demo_armed)"
    by (meson converse_rtranclp_into_rtranclp rtranclp.rtrancl_refl)
  then show ?thesis by (auto simp: health_reachable_def)
qed

theorem late_check_cannot_restore_witness:
  "\<not> is_ok (verdict (stale_after demo_policy) 12
     (fst (refresh demo_policy 12 (Inr ()) (fst (stop_progress demo_policy 10 demo_armed)))))"
proof -
  let ?stopped = "fst (stop_progress demo_policy 10 demo_armed)"
  let ?step = "health_step demo_policy"
  have "?step (10, demo_armed) (10, ?stopped)" by (rule health_step.stop)
  moreover have "?step (10, ?stopped) (12, ?stopped)" by (rule health_step.tick) simp
  moreover have "?step (12, ?stopped) (12, fst (refresh demo_policy 12 (Inr ()) ?stopped))"
    by (rule health_step.publish)
  ultimately have run: "?step\<^sup>*\<^sup>* (10, demo_armed) (12, fst (refresh demo_policy 12 (Inr ()) ?stopped))"
    by (meson converse_rtranclp_into_rtranclp rtranclp.rtrancl_refl)
  show ?thesis
    using late_check_cannot_restore[OF demo_reachable _ _ _ run, of demo_check] by (simp add: demo_armed_def demo_check_def)
qed

theorem drain_is_final_witness:
  "verdict (stale_after demo_policy) 7
     (fst (refresh demo_policy 5 (Inr ()) (start_drain demo_policy 5 demo_armed))) = Inl Draining"
proof -
  let ?d = "start_drain demo_policy 5 demo_armed"
  let ?s = "fst (refresh demo_policy 5 (Inr ()) ?d)"
  have "health_step demo_policy (5, ?d) (5, ?s)" by (rule health_step.publish)
  moreover have "health_step demo_policy (5, ?s) (7, ?s)" by (rule health_step.tick) simp
  ultimately have "(health_step demo_policy)\<^sup>*\<^sup>* (5, ?d) (7, ?s)" by auto
  from drain_is_final[OF demo_reachable this] show ?thesis by simp
qed

theorem ready_gauge_matches_witness:
  "is_ok (verdict (stale_after demo_policy) 3 demo_armed) \<longleftrightarrow>
     ready_gauge demo_armed \<and> (\<forall>c. last_check demo_armed = Some c \<longrightarrow> 3 - at c \<le> 4)"
  using ready_gauge_matches[OF demo_reachable[of 3]] by simp

theorem ready_needs_recent_success_witness:
  "\<exists>(t, v) \<in> set [(0, Inr ()), (2, Inl NotEvaluated)]. is_ok v"
  using ready_needs_recent_success[of "[(0, Inr ()), (2, Inl NotEvaluated)]" demo_policy 3]
  by (simp add: run_rounds_def demo_refresh refresh_state Let_def demo_armed_def demo_check_def
      expire_progress_def apply_failure_threshold_def publish_if_def progress_loss_of_def
      verdict_def duration_since_def demo_policy_def word_less_nat_alt stale_after_def)

definition demo_failing :: state where
  "demo_failing = demo_armed\<lparr>last_check := Some \<lparr>at = 0, verdict_of = Inl NotEvaluated, consecutive_failures = 7\<rparr>\<rparr>"

lemma demo_failing_live:
  "\<not> draining demo_failing" "progress_loss_of (fst (refresh demo_policy 1 (Inr ()) demo_failing)) = None"
  by (simp_all add: demo_failing_def demo_armed_def refresh_state Let_def expire_progress_def duration_since_def
      progress_loss_of_def)

theorem failure_threshold_exact_witness:
  "is_ok (verdict (stale_after demo_policy) (last_time 1 [(2, Inl NotEvaluated), (4, Inl NotEvaluated)])
     (run_rounds demo_policy [(1, Inr ()), (2, Inl NotEvaluated), (4, Inl NotEvaluated)] demo_failing))
   \<and> \<not> is_ok (verdict (stale_after demo_policy)
     (last_time 1 [(2, Inl NotEvaluated), (4, Inl NotEvaluated), (6, Inl NotEvaluated)])
     (run_rounds demo_policy
       [(1, Inr ()), (2, Inl NotEvaluated), (4, Inl NotEvaluated), (6, Inl NotEvaluated)] demo_failing))"
proof -
  have t: "unat (failure_threshold demo_policy) = 3" by (simp add: demo_policy_def)
  show ?thesis
    using failure_threshold_exact[of "[(2, Inl NotEvaluated), (4, Inl NotEvaluated)]" demo_policy 1 demo_failing]
      failure_threshold_exact[of "[(2, Inl NotEvaluated), (4, Inl NotEvaluated), (6, Inl NotEvaluated)]"
        demo_policy 1 demo_failing] demo_failing_live
    by (simp add: t)
qed

theorem check_probes_first_failure_witness:
  "check_probes demo_policy [(''db'', Finished (Inr ())), (''cache'', Elapsed), (''mq'', Finished (Inl ''x''))]
     = Inl (TimedOut ''cache'' 1)"
  using check_probes_first_failure[of demo_policy
      "[(''db'', Finished (Inr ())), (''cache'', Elapsed), (''mq'', Finished (Inl ''x''))]"
      "TimedOut ''cache'' 1"]
  by (simp add: check_probes_def probe_outcome_def demo_policy_def)

theorem validated_stale_after_witness:
  "stale_after_checked (refresh_policy_of health_default) = Some (from_secs 16)"
proof -
  have "health_validate health_default = Inr ()"
    by (simp add: health_validate_def health_default_def duration_range_def int_range_def time_units)
  from validated_stale_after[OF this] show ?thesis
    by (simp add: stale_after_def refresh_policy_of_def health_default_def time_units)
qed

theorem stale_edge_exact_witness:
  "verdict 4 5 demo_armed = Inl (Stale 5 4)"
  using stale_edge_exact[of 4 demo_armed "\<lparr>seen = 2, stale_edge_for = None\<rparr>" 5]
  by (simp add: wait_for_verdict_event_def checked_at_def demo_armed_def demo_check_def)

end
