(* ===== verification/JobKind.thy ===== *)
theory JobKind
  imports Prelude "HOL-Library.Sublist"
begin

text \<open>
  \<open>crates/infra-jobs/src/kind.rs\<close>: the kind-name grammar, handler dispositions, policies and
  the registry of kinds, with the delay conversion of \<open>enqueue.rs\<close> that dispositions use.

  A kind name is the byte string of its UTF-8 form. A standard error value is the non-empty list
  of the values on its \<open>source()\<close> chain, the error itself first: its \<open>Display\<close> text and whether it
  is the pool's acquire timeout (\<open>sqlx::Error::PoolTimedOut\<close>).
\<close>

subsection \<open>Bounds\<close>

definition MAX_KIND_LEN :: nat where "MAX_KIND_LEN = 64"
definition DEFAULT_MAX_ATTEMPTS :: nat where "DEFAULT_MAX_ATTEMPTS = 25"
definition MAX_ATTEMPTS :: nat where "MAX_ATTEMPTS = 25"
definition DEFAULT_TIMEOUT :: duration where "DEFAULT_TIMEOUT = from_secs 60"
definition UNAVAILABLE_DELAY_MICROS :: micros where "UNAVAILABLE_DELAY_MICROS = 10000000"
definition MIN_TIMEOUT :: duration where "MIN_TIMEOUT = from_secs 1"
definition MAX_TIMEOUT :: duration where "MAX_TIMEOUT = from_secs 3600"
definition MAX_DELAY :: duration where "MAX_DELAY = from_hours (36500 * 24)"
definition ERROR_SUMMARY_MAX_BYTES :: nat where "ERROR_SUMMARY_MAX_BYTES = 1024"

lemmas job_bounds = MAX_KIND_LEN_def DEFAULT_MAX_ATTEMPTS_def MAX_ATTEMPTS_def DEFAULT_TIMEOUT_def
  UNAVAILABLE_DELAY_MICROS_def MIN_TIMEOUT_def MAX_TIMEOUT_def MAX_DELAY_def
  ERROR_SUMMARY_MAX_BYTES_def

subsection \<open>Kind names\<close>

definition is_ascii_lowercase :: "char \<Rightarrow> bool" where
  "is_ascii_lowercase b = (97 \<le> (of_char b :: nat) \<and> (of_char b :: nat) \<le> 122)"

definition is_ascii_digit :: "char \<Rightarrow> bool" where
  "is_ascii_digit b = (48 \<le> (of_char b :: nat) \<and> (of_char b :: nat) \<le> 57)"

definition kind_byte :: "char \<Rightarrow> bool" where
  "kind_byte b = (is_ascii_lowercase b \<or> is_ascii_digit b \<or> b = CHR ''.'' \<or> b = CHR ''_'' \<or> b = CHR ''-'')"

fun kind_bytes_from :: "string \<Rightarrow> bool" where
  "kind_bytes_from [] = True"
| "kind_bytes_from (b # bs) = (if \<not> kind_byte b then False else kind_bytes_from bs)"

definition is_valid_kind_name :: "string \<Rightarrow> bool" where
  "is_valid_kind_name name =
     (case name of
        [] \<Rightarrow> False
      | b # bs \<Rightarrow>
          if length name > MAX_KIND_LEN \<or> \<not> is_ascii_lowercase b then False
          else kind_bytes_from bs)"

subsection \<open>Delays\<close>

text \<open>\<^term>\<open>Inl ()\<close> is \<open>InvalidDelay\<close>.\<close>

definition checked_delay_micros :: "duration \<Rightarrow> unit + micros" where
  "checked_delay_micros d =
     (if d > MAX_DELAY then Inl ()
      else if as_micros d \<le> i64_max then Inr (as_micros d) else Inl ())"

subsection \<open>Handler dispositions\<close>

datatype disposition = Retry | Permanent | RetryAfterAtLeast micros | Snooze micros

record job_error =
  disposition :: disposition
  summary_text :: ustr

definition retryable :: "ustr \<Rightarrow> job_error" where
  "retryable err = \<lparr>disposition = Retry, summary_text = err\<rparr>"

definition permanent :: "ustr \<Rightarrow> job_error" where
  "permanent err = \<lparr>disposition = Permanent, summary_text = err\<rparr>"

definition retry_after_at_least :: "ustr \<Rightarrow> duration \<Rightarrow> unit + job_error" where
  "retry_after_at_least err delay =
     bind_result (checked_delay_micros delay)
       (\<lambda>floor. Inr \<lparr>disposition = RetryAfterAtLeast floor, summary_text = err\<rparr>)"

definition snooze :: "duration \<Rightarrow> unit + job_error" where
  "snooze delay =
     bind_result (checked_delay_micros delay)
       (\<lambda>m. Inr \<lparr>disposition = Snooze m, summary_text = []\<rparr>)"

definition unavailable :: "ustr \<Rightarrow> job_error" where
  "unavailable err = \<lparr>disposition = Snooze UNAVAILABLE_DELAY_MICROS, summary_text = err\<rparr>"

definition is_permanent :: "job_error \<Rightarrow> bool" where
  "is_permanent e = (disposition e = Permanent)"

record std_error =
  display :: ustr
  is_pool_timed_out :: bool

type_synonym error_chain = "std_error \<times> std_error list"

fun pool_timed_out_in :: "std_error list \<Rightarrow> bool" where
  "pool_timed_out_in [] = False"
| "pool_timed_out_in (e # sources) =
     (if is_pool_timed_out e then True else pool_timed_out_in sources)"

definition pool_timed_out :: "error_chain \<Rightarrow> bool" where
  "pool_timed_out err = pool_timed_out_in (fst err # snd err)"

fun with_sources_from :: "ustr \<Rightarrow> std_error list \<Rightarrow> ustr" where
  "with_sources_from acc [] = acc"
| "with_sources_from acc (cause # sources) =
     (if utf8_len acc < ERROR_SUMMARY_MAX_BYTES
      then (let text = display cause
            in if text \<noteq> [] \<and> \<not> sublist text acc
               then with_sources_from (acc @ ascii '': '' @ text) sources
               else with_sources_from acc sources)
      else acc)"

definition with_sources :: "error_chain \<Rightarrow> ustr" where
  "with_sources err = with_sources_from (display (fst err)) (snd err)"

definition job_error_from :: "error_chain \<Rightarrow> job_error" where
  "job_error_from err =
     (let text = with_sources err
      in if pool_timed_out err then unavailable text
         else \<lparr>disposition = Retry, summary_text = text\<rparr>)"

subsection \<open>Policies and the registry\<close>

record policy =
  max_attempts :: nat
  timeout :: duration
  max_running :: "nat option"

definition policy_default :: policy where
  "policy_default =
     \<lparr>max_attempts = DEFAULT_MAX_ATTEMPTS, timeout = DEFAULT_TIMEOUT, max_running = None\<rparr>"

text \<open>A registered kind: its name and its policy; the handler is dispatched by \<open>JobAttempt\<close>.\<close>

record registered =
  reg_name :: string
  reg_policy :: policy

type_synonym kinds = "registered list"
type_synonym registry = "registered list"

definition register :: "kinds \<Rightarrow> string \<Rightarrow> policy \<Rightarrow> kinds" where
  "register ks name pol = ks @ [\<lparr>reg_name = name, reg_policy = pol\<rparr>]"

datatype policy_reason = AttemptsReason | TimeoutReason

datatype kind_error =
    NoKinds
  | DuplicateKind string
  | InvalidName string
  | InvalidPolicy string policy_reason

fun validate_entries :: "string list \<Rightarrow> registered list \<Rightarrow> kind_error + unit" where
  "validate_entries seen [] = Inr ()"
| "validate_entries seen (e # es) =
     (if \<not> is_valid_kind_name (reg_name e) then Inl (InvalidName (reg_name e))
      else if reg_name e \<in> set seen then Inl (DuplicateKind (reg_name e))
      else if \<not> (1 \<le> max_attempts (reg_policy e) \<and> max_attempts (reg_policy e) \<le> MAX_ATTEMPTS)
        then Inl (InvalidPolicy (reg_name e) AttemptsReason)
      else if \<not> (MIN_TIMEOUT \<le> timeout (reg_policy e) \<and> timeout (reg_policy e) \<le> MAX_TIMEOUT)
        then Inl (InvalidPolicy (reg_name e) TimeoutReason)
      else validate_entries (reg_name e # seen) es)"

definition validate :: "kinds \<Rightarrow> kind_error + registry" where
  "validate ks =
     (if ks = [] then Inl NoKinds
      else bind_result (validate_entries [] ks) (\<lambda>_. Inr ks))"

definition registry_names :: "registry \<Rightarrow> string list" where
  "registry_names r = map reg_name r"

definition registry_get :: "registry \<Rightarrow> string \<Rightarrow> registered option" where
  "registry_get r kind = find (\<lambda>e. reg_name e = kind) r"

subsection \<open>Lemmas\<close>

lemma kind_bytes_from_iff: "kind_bytes_from bs \<longleftrightarrow> list_all kind_byte bs"
  by (induction bs) auto

lemma is_valid_kind_name_iff:
  "is_valid_kind_name name \<longleftrightarrow>
     name \<noteq> [] \<and> length name \<le> 64 \<and> is_ascii_lowercase (hd name) \<and> list_all kind_byte name"
  by (auto simp: is_valid_kind_name_def MAX_KIND_LEN_def kind_bytes_from_iff kind_byte_def
      split: list.splits)

definition entry_ok :: "registered \<Rightarrow> bool" where
  "entry_ok e \<longleftrightarrow> is_valid_kind_name (reg_name e)
     \<and> max_attempts (reg_policy e) \<in> {1..MAX_ATTEMPTS}
     \<and> timeout (reg_policy e) \<in> {MIN_TIMEOUT..MAX_TIMEOUT}"

lemma validate_entries_ok:
  "validate_entries seen es = Inr () \<longleftrightarrow>
     list_all entry_ok es \<and> distinct (map reg_name es) \<and> set (map reg_name es) \<inter> set seen = {}"
  by (induction seen es rule: validate_entries.induct) (auto simp: entry_ok_def)

lemma validate_entries_append:
  "validate_entries seen (xs @ ys) =
     (case validate_entries seen xs of
        Inl e \<Rightarrow> Inl e
      | Inr _ \<Rightarrow> validate_entries (rev (map reg_name xs) @ seen) ys)"
  by (induction xs arbitrary: seen) (auto split: sum.split)

text \<open>The error of the first entry that validation refuses.\<close>

lemma validate_entries_Inl:
  "validate_entries seen es = Inl err \<longleftrightarrow>
     (\<exists>before e after. es = before @ e # after \<and> validate_entries seen before = Inr ()
        \<and> validate_entries (rev (map reg_name before) @ seen) [e] = Inl err)"
proof
  assume "validate_entries seen es = Inl err"
  then show "\<exists>before e after. es = before @ e # after \<and> validate_entries seen before = Inr ()
      \<and> validate_entries (rev (map reg_name before) @ seen) [e] = Inl err"
  proof (induction es rule: rev_induct)
    case (snoc e es)
    show ?case
    proof (cases "validate_entries seen es")
      case (Inl err')
      with snoc.prems have "validate_entries seen es = Inl err"
        by (simp add: validate_entries_append)
      from snoc.IH[OF this] obtain before e' after where
        "es = before @ e' # after" "validate_entries seen before = Inr ()"
        "validate_entries (rev (map reg_name before) @ seen) [e'] = Inl err" by blast
      then show ?thesis by (intro exI[of _ before] exI[of _ e'] exI[of _ "after @ [e]"]) simp
    next
      case (Inr u)
      with snoc.prems show ?thesis
        by (intro exI[of _ es] exI[of _ e] exI[of _ "[]"]) (simp add: validate_entries_append)
    qed
  qed simp
next
  assume "\<exists>before e after. es = before @ e # after \<and> validate_entries seen before = Inr ()
      \<and> validate_entries (rev (map reg_name before) @ seen) [e] = Inl err"
  then obtain before e after where es: "es = (before @ [e]) @ after"
    and "validate_entries seen before = Inr ()"
    and "validate_entries (rev (map reg_name before) @ seen) [e] = Inl err" by auto
  then have "validate_entries seen (before @ [e]) = Inl err"
    by (subst validate_entries_append) simp
  then show "validate_entries seen es = Inl err"
    unfolding es by (subst validate_entries_append) simp
qed

text \<open>
  Registry validation admits exactly the kind sets the engine can run: it succeeds, with
  the registered entries unchanged, exactly when at least one kind is registered, every name
  follows the grammar, names are distinct and every policy is in range; then a lookup by a
  registered name returns that entry and a lookup by any other name fails.
\<close>

lemma validate_exact:
  "(validate ks = Inr r \<longleftrightarrow>
      r = ks \<and> ks \<noteq> [] \<and> list_all entry_ok ks \<and> distinct (registry_names ks)) \<and>
   (validate ks = Inr r \<longrightarrow>
      (\<forall>e \<in> set ks. registry_get r (reg_name e) = Some e) \<and>
      (\<forall>name. name \<notin> set (registry_names ks) \<longrightarrow> registry_get r name = None))"
proof -
  have iff: "validate ks = Inr r \<longleftrightarrow>
      r = ks \<and> ks \<noteq> [] \<and> list_all entry_ok ks \<and> distinct (registry_names ks)"
    by (auto simp: validate_def bind_result_Inr validate_entries_ok registry_names_def)
  have "registry_get ks (reg_name e) = Some e"
    if "distinct (registry_names ks)" "e \<in> set ks" for e
    using that find_map_distinct[of reg_name ks e] by (simp add: registry_get_def registry_names_def)
  moreover have "registry_get ks name = None" if "name \<notin> set (registry_names ks)" for name
    using that by (auto simp: registry_get_def registry_names_def find_None_iff)
  ultimately show ?thesis unfolding iff by simp
qed

text \<open>
  The first failure wins, in registration order: a refused set is refused for its first
  refused entry, with every entry before it acceptable, and for that entry an invalid name is
  reported before a duplicate, a duplicate before the attempt budget and the attempt budget
  before the timeout.
\<close>

lemma validate_first_failure:
  assumes "validate ks = Inl err" "ks \<noteq> []"
  shows "\<exists>before e after. ks = before @ e # after
    \<and> list_all entry_ok before \<and> distinct (registry_names before)
    \<and> err = (if \<not> is_valid_kind_name (reg_name e) then InvalidName (reg_name e)
             else if reg_name e \<in> set (registry_names before) then DuplicateKind (reg_name e)
             else if max_attempts (reg_policy e) \<notin> {1..MAX_ATTEMPTS}
               then InvalidPolicy (reg_name e) AttemptsReason
             else InvalidPolicy (reg_name e) TimeoutReason)"
proof -
  from assms have "validate_entries [] ks = Inl err"
    by (auto simp: validate_def bind_result_def split: sum.splits)
  then obtain before e after where b: "ks = before @ e # after" "validate_entries [] before = Inr ()"
    "validate_entries (rev (map reg_name before)) [e] = Inl err"
    by (auto simp: validate_entries_Inl)
  then have "list_all entry_ok before" "distinct (registry_names before)"
    by (auto simp: validate_entries_ok registry_names_def)
  moreover from b(3) have "err = (if \<not> is_valid_kind_name (reg_name e) then InvalidName (reg_name e)
             else if reg_name e \<in> set (registry_names before) then DuplicateKind (reg_name e)
             else if max_attempts (reg_policy e) \<notin> {1..MAX_ATTEMPTS}
               then InvalidPolicy (reg_name e) AttemptsReason
             else InvalidPolicy (reg_name e) TimeoutReason)"
    by (auto simp: registry_names_def split: if_splits)
  ultimately show ?thesis using b(1) by blast
qed

lemma demo_name: "is_valid_kind_name ''mail.send''"
  by (simp add: is_valid_kind_name_iff kind_byte_def is_ascii_lowercase_def is_ascii_digit_def)

theorem validate_exact_witness:
  "registry_get [\<lparr>reg_name = ''mail.send'', reg_policy = policy_default\<rparr>] ''mail.send'' =
     Some \<lparr>reg_name = ''mail.send'', reg_policy = policy_default\<rparr>"
  using validate_exact[of "[\<lparr>reg_name = ''mail.send'', reg_policy = policy_default\<rparr>]"
      "[\<lparr>reg_name = ''mail.send'', reg_policy = policy_default\<rparr>]"]
  by (simp add: entry_ok_def demo_name registry_names_def policy_default_def job_bounds time_units)

theorem validate_first_failure_witness:
  "\<exists>before e after.
     [\<lparr>reg_name = ''mail.send'', reg_policy = policy_default\<rparr>,
      \<lparr>reg_name = ''mail.send'', reg_policy = policy_default\<rparr>] = before @ e # after
     \<and> reg_name e = ''mail.send''"
proof -
  let ?e = "\<lparr>reg_name = ''mail.send'', reg_policy = policy_default\<rparr>"
  have "validate [?e, ?e] = Inl (DuplicateKind ''mail.send'')"
    by (simp add: validate_def demo_name policy_default_def job_bounds time_units)
  from validate_first_failure[OF this] show ?thesis by (auto split: if_splits) blast+
qed

subsection \<open>Error conversion\<close>

lemma pool_timed_out_iff: "pool_timed_out err \<longleftrightarrow> (\<exists>e \<in> set (fst err # snd err). is_pool_timed_out e)"
proof -
  have "pool_timed_out_in es \<longleftrightarrow> (\<exists>e \<in> set es. is_pool_timed_out e)" for es
    by (induction es) auto
  then show ?thesis by (simp add: pool_timed_out_def)
qed

lemma with_sources_from_prefix: "prefix acc (with_sources_from acc sources)"
proof (induction acc sources rule: with_sources_from.induct)
  case (2 acc cause sources)
  let ?next = "acc @ ascii '': '' @ display cause"
  have "prefix acc ?next" by simp
  with 2 show ?case by (auto simp: Let_def intro: prefix_order.trans[of acc ?next])
qed simp

lemma with_sources_from_complete:
  "utf8_len (with_sources_from acc sources) < ERROR_SUMMARY_MAX_BYTES \<Longrightarrow>
   \<forall>cause \<in> set sources. sublist (display cause) (with_sources_from acc sources)"
proof (induction acc sources rule: with_sources_from.induct)
  case (2 acc cause sources)
  let ?next = "acc @ ascii '': '' @ display cause"
  let ?all = "with_sources_from acc (cause # sources)"
  have small: "utf8_len acc < ERROR_SUMMARY_MAX_BYTES"
    using "2.prems" by (auto split: if_splits)
  show ?case
  proof (cases "display cause \<noteq> [] \<and> \<not> sublist (display cause) acc")
    case True
    then have all: "?all = with_sources_from ?next sources" using small by (simp add: Let_def)
    have "sublist (display cause) ?next" by (simp add: sublist_appendI suffix_imp_sublist suffixI)
    then have "sublist (display cause) ?all"
      using with_sources_from_prefix[of ?next sources] all
      by (metis prefix_imp_sublist sublist_order.order_trans)
    with 2 True small all show ?thesis by (auto simp: Let_def)
  next
    case False
    then have all: "?all = with_sources_from acc sources" using small by (auto simp: Let_def)
    have "sublist (display cause) acc" using False by auto
    then have "sublist (display cause) ?all"
      using with_sources_from_prefix[of acc sources] all
      by (metis prefix_imp_sublist sublist_order.order_trans)
    with 2 False small all show ?thesis by (auto simp: Let_def)
  qed
qed simp

text \<open>
  Converting a handler's error keeps its meaning: the job is snoozed for the fixed
  unavailable delay, refunding its attempt, exactly when the pool's acquire timeout is on the
  error's source chain, and is retried otherwise; the summary starts with the error's own text,
  and unless it already reached the summary bound it contains the text of every cause.
\<close>

lemma job_error_from_meaning:
  "(disposition (job_error_from err) = Snooze 10000000 \<longleftrightarrow>
      (\<exists>e \<in> set (fst err # snd err). is_pool_timed_out e)) \<and>
   (disposition (job_error_from err) = Retry \<longleftrightarrow>
      \<not> (\<exists>e \<in> set (fst err # snd err). is_pool_timed_out e)) \<and>
   prefix (display (fst err)) (summary_text (job_error_from err)) \<and>
   (utf8_len (summary_text (job_error_from err)) < ERROR_SUMMARY_MAX_BYTES \<longrightarrow>
      (\<forall>cause \<in> set (snd err). sublist (display cause) (summary_text (job_error_from err))))"
  using with_sources_from_prefix[of "display (fst err)" "snd err"]
    with_sources_from_complete[of "display (fst err)" "snd err"]
  by (simp add: job_error_from_def Let_def unavailable_def with_sources_def pool_timed_out_iff
      UNAVAILABLE_DELAY_MICROS_def)

theorem job_error_from_meaning_witness:
  "disposition (job_error_from
      (\<lparr>display = ascii ''save'', is_pool_timed_out = False\<rparr>,
       [\<lparr>display = ascii ''pool'', is_pool_timed_out = True\<rparr>])) = Snooze 10000000"
  using job_error_from_meaning[of "(\<lparr>display = ascii ''save'', is_pool_timed_out = False\<rparr>,
       [\<lparr>display = ascii ''pool'', is_pool_timed_out = True\<rparr>])"]
  by simp

end
