(* ===== verification/JobEnqueue.thy ===== *)
theory JobEnqueue
  imports JobKind
begin

text \<open>
  \<open>crates/infra-jobs/src/enqueue.rs\<close> up to the statement it sends: the bounded payload writer,
  the scan for escapes that decode to NUL, the preparation of a job and the throttle of wake
  notifications. The \<open>INSERT\<close> itself is \<open>enqueue_insert\<close> of the theory \<open>JobTable\<close>.

  The serializer of the payload type is code of the caller: a payload is what it does, the
  chunks it writes in order and whether it then fails.
\<close>

definition MAX_PAYLOAD_BYTES :: nat where "MAX_PAYLOAD_BYTES = 262144"
definition MAX_UNIQUE_KEY_BYTES :: nat where "MAX_UNIQUE_KEY_BYTES = 255"
definition WAKE_INTERVAL :: duration where "WAKE_INTERVAL = from_millis 25"
definition usize_max :: nat where "usize_max = u64_max"

record enqueue_options =
  opt_delay :: duration
  opt_unique_key :: "ustr option"

datatype enqueue_error =
    InvalidKind string
  | InvalidUniqueKey
  | InvalidDelay
  | PayloadContainsNul
  | SerializeError
  | PayloadTooLarge nat
  | DatabaseError

subsection \<open>The payload writer\<close>

record payload_writer =
  retained :: string
  total :: nat

definition writer_default :: payload_writer where
  "writer_default = \<lparr>retained = [], total = 0\<rparr>"

text \<open>\<^term>\<open>Inl ()\<close> is the length overflow.\<close>

definition writer_write :: "payload_writer \<Rightarrow> string \<Rightarrow> unit + payload_writer" where
  "writer_write w bs =
     (if total w + length bs > usize_max then Inl ()
      else (let keep = min (length bs) (MAX_PAYLOAD_BYTES - length (retained w))
            in Inr \<lparr>retained = retained w @ take keep bs, total = total w + length bs\<rparr>))"

record serialization =
  chunks :: "string list"
  serialize_fails :: bool

fun write_chunks :: "payload_writer \<Rightarrow> string list \<Rightarrow> unit + payload_writer" where
  "write_chunks w [] = Inr w"
| "write_chunks w (c # cs) = bind_result (writer_write w c) (\<lambda>w'. write_chunks w' cs)"

definition to_writer :: "payload_writer \<Rightarrow> serialization \<Rightarrow> unit + payload_writer" where
  "to_writer w ser =
     bind_result (write_chunks w (chunks ser))
       (\<lambda>w'. if serialize_fails ser then Inl () else Inr w')"

subsection \<open>Escapes that decode to NUL\<close>

fun contains_decoded_nul :: "string \<Rightarrow> bool" where
  "contains_decoded_nul [] = False"
| "contains_decoded_nul (b # bs) =
     (if b = CHR 0x5C
      then (if take 5 bs = ''u0000'' then True else contains_decoded_nul (drop 1 bs))
      else contains_decoded_nul bs)"

subsection \<open>Preparation\<close>

record prepared =
  prep_payload :: string
  prep_unique_key :: "ustr option"
  prep_delay_micros :: micros

definition valid_unique_key :: "ustr \<Rightarrow> bool" where
  "valid_unique_key key =
     (key \<noteq> [] \<and> utf8_len key \<le> MAX_UNIQUE_KEY_BYTES \<and> \<not> list_ex is_control key)"

text \<open>
  \<open>is_utf8\<close> stands for \<open>String::from_utf8\<close> accepting the retained bytes.
\<close>

definition prepare ::
  "(string \<Rightarrow> bool) \<Rightarrow> string \<Rightarrow> serialization \<Rightarrow> enqueue_options \<Rightarrow> enqueue_error + prepared" where
  "prepare is_utf8 name ser opts =
     (if \<not> is_valid_kind_name name then Inl (InvalidKind name)
      else bind_result
        (case opt_unique_key opts of
           Some key \<Rightarrow> if valid_unique_key key then Inr (Some key) else Inl InvalidUniqueKey
         | None \<Rightarrow> Inr None)
        (\<lambda>key. bind_result
          (case checked_delay_micros (opt_delay opts) of
             Inl _ \<Rightarrow> Inl InvalidDelay
           | Inr m \<Rightarrow> Inr m)
          (\<lambda>delay. bind_result
            (case to_writer writer_default ser of Inl _ \<Rightarrow> Inl SerializeError | Inr w \<Rightarrow> Inr w)
            (\<lambda>w. if total w > MAX_PAYLOAD_BYTES then Inl (PayloadTooLarge (total w))
                  else if contains_decoded_nul (retained w) then Inl PayloadContainsNul
                  else if \<not> is_utf8 (retained w) then Inl SerializeError
                  else Inr \<lparr>prep_payload = retained w, prep_unique_key = key,
                            prep_delay_micros = delay\<rparr>))))"

subsection \<open>The wake throttle\<close>

type_synonym wake_log = "(string \<times> instant) list"

fun wake_due :: "wake_log \<Rightarrow> string \<Rightarrow> instant \<Rightarrow> bool \<times> wake_log" where
  "wake_due [] kind now = (True, [(kind, now)])"
| "wake_due ((name, t) # log) kind now =
     (if name = kind
      then (if duration_since now t < WAKE_INTERVAL then (False, (name, t) # log)
            else (True, (name, now) # log))
      else (let (due, log') = wake_due log kind now in (due, (name, t) # log')))"

subsection \<open>The writer keeps a bounded prefix and the exact count\<close>

definition writer_inv :: "payload_writer \<Rightarrow> string \<Rightarrow> bool" where
  "writer_inv w written \<longleftrightarrow>
     retained w = take MAX_PAYLOAD_BYTES written \<and> total w = length written"

lemma writer_write_inv:
  assumes "writer_inv w written" "writer_write w bs = Inr w'"
  shows "writer_inv w' (written @ bs)"
  using assms by (auto simp: writer_inv_def writer_write_def Let_def min_def split: if_splits)

lemma write_chunks_inv:
  "writer_inv w written \<Longrightarrow> write_chunks w cs = Inr w' \<Longrightarrow> writer_inv w' (written @ concat cs)"
proof (induction cs arbitrary: w written)
  case (Cons c cs)
  then obtain w1 where w1: "writer_write w c = Inr w1" "write_chunks w1 cs = Inr w'"
    by (auto simp: bind_result_Inr)
  from writer_write_inv[OF Cons.prems(1) w1(1)] w1(2) show ?case
    using Cons.IH[of w1 "written @ c"] by simp
qed simp

lemma write_chunks_total:
  "total w + length (concat cs) \<le> usize_max \<Longrightarrow> \<exists>w'. write_chunks w cs = Inr w'"
proof (induction cs arbitrary: w)
  case (Cons c cs)
  then show ?case by (auto simp: writer_write_def Let_def)
qed simp

lemma to_writer_ok:
  assumes "to_writer writer_default ser = Inr w"
  shows "\<not> serialize_fails ser \<and> retained w = take MAX_PAYLOAD_BYTES (concat (chunks ser))
    \<and> total w = length (concat (chunks ser))"
proof -
  from assms obtain w' where w': "write_chunks writer_default (chunks ser) = Inr w'"
    "\<not> serialize_fails ser" "w' = w"
    by (auto simp: to_writer_def bind_result_Inr split: if_splits)
  have "writer_inv writer_default []" by (simp add: writer_inv_def writer_default_def)
  from write_chunks_inv[OF this w'(1)] w' show ?thesis by (simp add: writer_inv_def)
qed

text \<open>
  A prepared job is exactly what the caller serialized: preparation succeeds only for a
  valid kind name, a valid or absent unique key, a delay of at most 36,500 days and a
  serialization that finishes, has at most 262,144 bytes and no escape that decodes to NUL; the
  prepared payload is then the whole serialized text and the delay its whole microseconds. The
  writer never retains more than the admitted prefix.
\<close>

lemma prepare_ok:
  assumes "prepare is_utf8 name ser opts = Inr p"
  shows "is_valid_kind_name name
    \<and> (\<forall>key. opt_unique_key opts = Some key \<longrightarrow> valid_unique_key key)
    \<and> prep_unique_key p = opt_unique_key opts
    \<and> opt_delay opts \<le> MAX_DELAY \<and> prep_delay_micros p = opt_delay opts div 1000
    \<and> \<not> serialize_fails ser \<and> prep_payload p = concat (chunks ser)
    \<and> length (prep_payload p) \<le> 262144 \<and> \<not> contains_decoded_nul (prep_payload p)"
proof -
  from assms obtain key delay w where steps:
    "is_valid_kind_name name"
    "(case opt_unique_key opts of
        Some k \<Rightarrow> if valid_unique_key k then Inr (Some k) else Inl InvalidUniqueKey
      | None \<Rightarrow> Inr None) = Inr key"
    "checked_delay_micros (opt_delay opts) = Inr delay"
    "to_writer writer_default ser = Inr w"
    "\<not> total w > MAX_PAYLOAD_BYTES" "\<not> contains_decoded_nul (retained w)"
    "p = \<lparr>prep_payload = retained w, prep_unique_key = key, prep_delay_micros = delay\<rparr>"
    by (auto simp: prepare_def bind_result_Inr split: if_splits sum.splits)
  have "key = opt_unique_key opts \<and> (\<forall>k. opt_unique_key opts = Some k \<longrightarrow> valid_unique_key k)"
    using steps(2) by (auto split: option.splits if_splits)
  moreover have "opt_delay opts \<le> MAX_DELAY \<and> delay = opt_delay opts div 1000"
    using steps(3) by (auto simp: checked_delay_micros_def as_micros_def split: if_splits)
  moreover have "\<not> serialize_fails ser \<and> retained w = concat (chunks ser) \<and>
      length (concat (chunks ser)) \<le> 262144"
    using to_writer_ok[OF steps(4)] steps(5) by (simp add: MAX_PAYLOAD_BYTES_def)
  ultimately show ?thesis using steps by simp
qed

text \<open>
  Refusals are precise and ordered: with a valid name, key and delay, a serializer that
  fails is reported as a serialization failure even when it had already written too much or an
  escaped NUL; one that finishes above the bound is reported with its exact byte count; and the
  NUL check speaks only about payloads within the bound.
\<close>

lemma prepare_refusals:
  assumes "is_valid_kind_name name" "opt_delay opts \<le> MAX_DELAY"
    and "\<forall>key. opt_unique_key opts = Some key \<longrightarrow> valid_unique_key key"
    and "length (concat (chunks ser)) \<le> usize_max"
  shows "(serialize_fails ser \<longrightarrow> prepare is_utf8 name ser opts = Inl SerializeError)
    \<and> (\<not> serialize_fails ser \<and> length (concat (chunks ser)) > 262144 \<longrightarrow>
         prepare is_utf8 name ser opts = Inl (PayloadTooLarge (length (concat (chunks ser)))))
    \<and> (\<not> serialize_fails ser \<and> length (concat (chunks ser)) \<le> 262144 \<and>
         contains_decoded_nul (concat (chunks ser)) \<longrightarrow>
         prepare is_utf8 name ser opts = Inl PayloadContainsNul)"
proof -
  obtain w where w: "write_chunks writer_default (chunks ser) = Inr w"
    using write_chunks_total[of writer_default "chunks ser"] assms(4) by (auto simp: writer_default_def)
  have "writer_inv writer_default []" by (simp add: writer_inv_def writer_default_def)
  from write_chunks_inv[OF this w]
  have inv: "retained w = take MAX_PAYLOAD_BYTES (concat (chunks ser))"
    "total w = length (concat (chunks ser))"
    by (simp_all add: writer_inv_def)
  have delay: "checked_delay_micros (opt_delay opts) = Inr (as_micros (opt_delay opts))"
    using assms(2)
    by (auto simp: checked_delay_micros_def as_micros_def MAX_DELAY_def time_units i64_max_def)
  have key: "(case opt_unique_key opts of
      Some k \<Rightarrow> if valid_unique_key k then Inr (Some k) else Inl InvalidUniqueKey
    | None \<Rightarrow> Inr None) = Inr (opt_unique_key opts)"
    using assms(3) by (auto split: option.splits)
  show ?thesis
    using assms(1) by (simp add: prepare_def key delay to_writer_def w inv MAX_PAYLOAD_BYTES_def)
qed

subsection \<open>The NUL scan against the token structure of JSON text\<close>

text \<open>
  Text cut at token borders: a backslash and the byte it escapes are one unit, every other byte
  is a unit of its own.
\<close>

inductive whole_units :: "string \<Rightarrow> bool" where
  none: "whole_units []"
| plain: "b \<noteq> CHR 0x5C \<Longrightarrow> whole_units bs \<Longrightarrow> whole_units (b # bs)"
| escape: "whole_units bs \<Longrightarrow> whole_units (CHR 0x5C # e # bs)"

inductive_cases whole_units_ConsE: "whole_units (b # bs)"

text \<open>
  The scan finds exactly the escapes that decode to NUL: it answers true if and only if the
  six bytes of an escaped NUL stand at a position where the text before them is a whole number
  of escape units, so a doubled backslash before \<open>u0000\<close> is not reported and nothing that decodes
  to NUL is missed.
\<close>

lemma contains_decoded_nul_iff:
  "contains_decoded_nul s \<longleftrightarrow>
     (\<exists>before after. s = before @ (CHR 0x5C # ''u0000'') @ after \<and> whole_units before)"
proof (induction s rule: contains_decoded_nul.induct)
  case 1
  show ?case by simp
next
  case (2 b bs)
  let ?nul = "CHR 0x5C # ''u0000''"
  let ?found = "\<lambda>s. \<exists>before after. s = before @ ?nul @ after \<and> whole_units before"
  show ?case
  proof (cases "b = CHR 0x5C")
    case False
    have "?found (b # bs) \<longleftrightarrow> ?found bs"
    proof
      assume "?found (b # bs)"
      then obtain pre post where "b # bs = pre @ ?nul @ post" "whole_units pre" by blast
      with False obtain pre' where "pre = b # pre'" "bs = pre' @ ?nul @ post" "whole_units pre'"
        by (cases pre) (auto elim: whole_units_ConsE)
      then show "?found bs" by blast
    next
      assume "?found bs"
      then obtain pre post where "bs = pre @ ?nul @ post" "whole_units pre" by blast
      with False have "b # bs = (b # pre) @ ?nul @ post" "whole_units (b # pre)"
        by (auto intro: whole_units.plain)
      then show "?found (b # bs)" by blast
    qed
    with 2 False show ?thesis by simp
  next
    case True
    show ?thesis
    proof (cases "take 5 bs = ''u0000''")
      case here: True
      then have "b # bs = [] @ ?nul @ drop 5 bs" using True append_take_drop_id[of 5 bs] by simp
      then have "?found (b # bs)" by (blast intro: whole_units.none)
      with True here show ?thesis by simp
    next
      case not_here: False
      have "?found (b # bs) \<longleftrightarrow> ?found (drop 1 bs)"
      proof
        assume "?found (b # bs)"
        then obtain pre post where eq: "b # bs = pre @ ?nul @ post" and pre: "whole_units pre" by blast
        from eq not_here have "pre \<noteq> []" by auto
        with eq obtain pre1 where p1: "pre = b # pre1" "bs = pre1 @ ?nul @ post"
          by (cases pre) auto
        with pre True obtain e pre' where "pre1 = e # pre'" "whole_units pre'"
          by (auto elim: whole_units_ConsE)
        with p1 show "?found (drop 1 bs)" by auto
      next
        assume "?found (drop 1 bs)"
        then obtain pre post where d: "drop 1 bs = pre @ ?nul @ post" "whole_units pre" by blast
        then obtain e where "bs = e # pre @ ?nul @ post" by (cases bs) auto
        with d(2) True have "b # bs = (CHR 0x5C # e # pre) @ ?nul @ post"
          "whole_units (CHR 0x5C # e # pre)"
          by (auto intro: whole_units.escape)
        then show "?found (b # bs)" by blast
      qed
      with 2 True not_here show ?thesis by simp
    qed
  qed
qed

subsection \<open>The wake throttle\<close>

lemma wake_due_spec:
  "fst (wake_due log kind now) \<longleftrightarrow>
     (case map_of log kind of None \<Rightarrow> True | Some t \<Rightarrow> \<not> now - t < WAKE_INTERVAL)"
  "map_of (snd (wake_due log kind now)) other =
     (if other = kind \<and> fst (wake_due log kind now) then Some now else map_of log other)"
  by (induction log kind now rule: wake_due.induct)
    (auto simp: duration_since_def Let_def case_prod_beta split: option.splits)

text \<open>The answers of a sequence of calls.\<close>

fun wake_answers :: "wake_log \<Rightarrow> (string \<times> instant) list \<Rightarrow> bool list" where
  "wake_answers log [] = []"
| "wake_answers log ((kind, now) # calls) =
     (let (due, log') = wake_due log kind now in due # wake_answers log' calls)"

lemma wake_spacing_from:
  assumes "i < length calls" "wake_answers log calls ! i" "fst (calls ! i) = kind"
    and "map_of log kind = Some t" "\<forall>c \<in> set calls. t \<le> snd c" "sorted (map snd calls)"
  shows "WAKE_INTERVAL \<le> snd (calls ! i) - t"
  using assms
proof (induction log calls arbitrary: i t rule: wake_answers.induct)
  case (2 log k now calls)
  let ?w = "wake_due log k now"
  show ?case
  proof (cases i)
    case 0
    with 2 show ?thesis by (auto simp: Let_def case_prod_beta wake_due_spec(1) split: option.splits)
  next
    case (Suc j)
    obtain t' where t': "map_of (snd ?w) kind = Some t'" "t \<le> t'" "\<forall>c \<in> set calls. t' \<le> snd c"
      using "2.prems" wake_due_spec(2)[of log k now kind] by (cases "kind = k \<and> fst ?w") auto
    have "WAKE_INTERVAL \<le> snd (calls ! j) - t'"
      using "2.prems" Suc t'
      by (intro "2.IH"[of ?w "fst ?w" "snd ?w"]) (auto simp: Let_def case_prod_beta)
    with Suc t'(2) show ?thesis by simp
  qed
qed simp

text \<open>
  The throttle sends at most one wake notification per kind and interval: over any sequence
  of calls at nondecreasing clock readings, two notifications for the same kind are at least
  25 ms apart.
\<close>

lemma wake_spacing:
  assumes sorted: "sorted (map snd calls)" and ij: "i < j" "j < length calls"
    and same: "fst (calls ! i) = fst (calls ! j)"
    and both: "wake_answers log calls ! i" "wake_answers log calls ! j"
  shows "from_millis 25 \<le> snd (calls ! j) - snd (calls ! i)"
  using assms
proof (induction log calls arbitrary: i j rule: wake_answers.induct)
  case (2 log k now calls)
  let ?w = "wake_due log k now"
  obtain j' where j: "j = Suc j'" using "2.prems"(2) by (cases j) auto
  show ?case
  proof (cases i)
    case 0
    have "WAKE_INTERVAL \<le> snd (calls ! j') - now"
      using "2.prems" 0 j wake_due_spec(2)[of log k now k]
      by (intro wake_spacing_from[of j' calls "snd ?w" k now]) (auto simp: Let_def case_prod_beta)
    with 0 j show ?thesis by (simp add: WAKE_INTERVAL_def)
  next
    case (Suc i')
    with 2 j show ?thesis
      by (auto simp: Let_def case_prod_beta intro!: "2.IH"[of ?w "fst ?w" "snd ?w"])
  qed
qed simp


subsection \<open>Concrete inputs\<close>

definition demo_options :: enqueue_options where
  "demo_options = \<lparr>opt_delay = 1500, opt_unique_key = Some (ascii ''order-7'')\<rparr>"

lemma demo_key: "valid_unique_key (ascii ''order-7'')"
  by (simp add: valid_unique_key_def ascii_def MAX_UNIQUE_KEY_BYTES_def is_control_def len_utf8_def)

lemma demo_prepare:
  "prepare (\<lambda>_. True) ''mail.send'' \<lparr>chunks = [''[1'', '',2]''], serialize_fails = False\<rparr> demo_options =
     Inr \<lparr>prep_payload = ''[1,2]'', prep_unique_key = Some (ascii ''order-7''), prep_delay_micros = 1\<rparr>"
  by (simp add: prepare_def demo_options_def demo_name demo_key to_writer_def writer_write_def
      writer_default_def usize_max_def u64_max_def MAX_PAYLOAD_BYTES_def checked_delay_micros_def
      as_micros_def MAX_DELAY_def time_units i64_max_def)

theorem prepare_ok_witness:
  "concat [''[1'', '',2]''] = ''[1,2]'' \<and> opt_delay demo_options \<le> MAX_DELAY"
  using prepare_ok[OF demo_prepare] by simp

theorem prepare_refusals_witness:
  "prepare (\<lambda>_. True) ''mail.send''
     \<lparr>chunks = [CHR 0x5C # ''u0000''], serialize_fails = True\<rparr> demo_options = Inl SerializeError"
  using prepare_refusals[of "''mail.send''" demo_options
      "\<lparr>chunks = [CHR 0x5C # ''u0000''], serialize_fails = True\<rparr>" "\<lambda>_. True"]
  by (simp add: demo_name demo_key demo_options_def MAX_DELAY_def time_units usize_max_def u64_max_def)

theorem wake_spacing_witness:
  "from_millis 25 \<le> snd ([(''a'', 0), (''a'', 1), (''a'', 25000000)] ! 2) - (0::nat)"
  using wake_spacing[of "[(''a'', 0), (''a'', 1), (''a'', 25000000)]" 0 2 "[]"]
  by (simp add: duration_since_def WAKE_INTERVAL_def from_millis_def)

end
