(* ===== verification/JobTable.thy ===== *)
theory JobTable
  imports JobEnqueue "HOL-Library.Product_Lexorder"
begin

text \<open>
  The table \<open>background_jobs\<close> of the migrations and the statements of \<open>enqueue.rs\<close> on it.

  The database is a parameter of the system, and this is what the code relies on: one statement
  on this table is one atomic change of its rows, evaluated at one \<open>statement_timestamp()\<close>; it is
  refused as a whole when a row would violate a \<open>CHECK\<close> constraint or the partial unique index;
  and \<open>nextval\<close> never returns a value twice. A queue is the list of rows and the last value drawn
  from the claim-generation sequence. Locks that other sessions hold appear as the set of row
  ids a \<open>SKIP LOCKED\<close> statement passes over.
\<close>

subsection \<open>Rows\<close>

datatype job_id = JobId (uuid: nat)

instantiation job_id :: linorder
begin

definition less_eq_job_id :: "job_id \<Rightarrow> job_id \<Rightarrow> bool" where
  "less_eq_job_id a b = (uuid a \<le> uuid b)"

definition less_job_id :: "job_id \<Rightarrow> job_id \<Rightarrow> bool" where
  "less_job_id a b = (uuid a < uuid b)"

instance
proof
  fix x y z :: job_id
  show "(x < y) = (x \<le> y \<and> \<not> y \<le> x)"
    by (auto simp: less_eq_job_id_def less_job_id_def)
  show "x \<le> x" by (simp add: less_eq_job_id_def)
  show "x \<le> y \<Longrightarrow> y \<le> z \<Longrightarrow> x \<le> z" by (simp add: less_eq_job_id_def)
  show "x \<le> y \<Longrightarrow> y \<le> x \<Longrightarrow> x = y" by (auto simp: less_eq_job_id_def intro: job_id.expand)
  show "x \<le> y \<or> y \<le> x" by (auto simp: less_eq_job_id_def)
qed

end

datatype job_state = Pending | Running | Completed | Failed

datatype failure = Exhausted | PermanentFailure

record error_entry =
  entry_attempt :: int
  entry_at :: micros
  entry_error :: ustr

record recovery_entry =
  rec_version :: nat
  rec_attempts :: int
  rec_failure_reason :: "failure option"
  rec_finished_at :: "micros option"
  rec_attempted_by :: "nat option"
  rec_error_summary :: "ustr option"
  rec_errors :: "error_entry list"
  rec_redriven_at :: micros

record job_row =
  j_id :: job_id
  j_created_at :: micros
  j_kind :: string
  j_payload :: string
  j_unique_key :: "ustr option"
  j_state :: job_state
  j_failure_reason :: "failure option"
  j_attempts :: int
  j_generation :: nat
  j_not_before :: micros
  j_claim_expires_at :: "micros option"
  j_attempted_by :: "nat option"
  j_finished_at :: "micros option"
  j_error_summary :: "ustr option"
  j_trace_context :: "string option"
  j_trace_state :: "string option"
  j_errors :: "error_entry list"
  j_recovery :: "recovery_entry list"

record queue =
  rows :: "job_row list"
  sequence :: nat

definition live :: "job_row \<Rightarrow> bool" where
  "live r = (j_state r = Pending \<or> j_state r = Running)"

text \<open>The column types and the \<open>CHECK\<close> constraints of the table.\<close>

definition row_ok :: "job_row \<Rightarrow> bool" where
  "row_ok r =
     (0 \<le> j_attempts r \<and> j_attempts r \<le> int i16_max
      \<and> ((j_state r = Running) = (j_claim_expires_at r \<noteq> None))
      \<and> ((j_state r = Failed) = (j_failure_reason r \<noteq> None))
      \<and> ((j_state r = Completed \<or> j_state r = Failed) = (j_finished_at r \<noteq> None)))"

text \<open>The partial unique index \<open>background_jobs_live_unique_key\<close>.\<close>

definition live_keys :: "job_row list \<Rightarrow> (string \<times> ustr option) list" where
  "live_keys rs = map (\<lambda>r. (j_kind r, j_unique_key r)) (filter (\<lambda>r. live r \<and> j_unique_key r \<noteq> None) rs)"

datatype db_error = CheckViolation | LiveKeyViolation | PrimaryKeyViolation

text \<open>A statement's new rows are installed only when every constraint holds.\<close>

definition install :: "queue \<Rightarrow> job_row list \<Rightarrow> nat \<Rightarrow> db_error + queue" where
  "install q rs sq =
     (if \<not> list_all row_ok rs then Inl CheckViolation
      else if \<not> distinct (live_keys rs) then Inl LiveKeyViolation
      else Inr (q\<lparr>rows := rs, sequence := sq\<rparr>))"

text \<open>\<open>UPDATE ... SET f WHERE p\<close>: the new queue and the number of affected rows.\<close>

definition update_where ::
  "(job_row \<Rightarrow> bool) \<Rightarrow> (job_row \<Rightarrow> job_row) \<Rightarrow> queue \<Rightarrow> db_error + queue \<times> nat" where
  "update_where p f q =
     bind_result (install q (map (\<lambda>r. if p r then f r else r) (rows q)) (sequence q))
       (\<lambda>q'. Inr (q', length (filter p (rows q))))"

definition delete_where :: "(job_row \<Rightarrow> bool) \<Rightarrow> queue \<Rightarrow> queue \<times> nat" where
  "delete_where p q =
     (q\<lparr>rows := filter (\<lambda>r. \<not> p r) (rows q)\<rparr>, length (filter p (rows q)))"

definition find_job :: "job_id \<Rightarrow> queue \<Rightarrow> job_row option" where
  "find_job jid q = find (\<lambda>r. j_id r = jid) (rows q)"

subsection \<open>Enqueue\<close>

datatype enqueued = Created job_id | Duplicate

definition live_holder :: "string \<Rightarrow> ustr option \<Rightarrow> job_row \<Rightarrow> bool" where
  "live_holder kind key r = (key \<noteq> None \<and> live r \<and> j_kind r = kind \<and> j_unique_key r = key)"

text \<open>\<open>jsonb\<close> gives the text PostgreSQL returns for a stored JSON text.\<close>

definition new_row ::
  "(string \<Rightarrow> string) \<Rightarrow> micros \<Rightarrow> job_id \<Rightarrow> string \<Rightarrow> prepared
   \<Rightarrow> string option \<Rightarrow> string option \<Rightarrow> job_row" where
  "new_row jsonb now jid kind p tparent tstate =
     \<lparr>j_id = jid, j_created_at = now, j_kind = kind, j_payload = jsonb (prep_payload p),
      j_unique_key = prep_unique_key p, j_state = Pending, j_failure_reason = None,
      j_attempts = 0, j_generation = 0, j_not_before = now + prep_delay_micros p,
      j_claim_expires_at = None, j_attempted_by = None, j_finished_at = None,
      j_error_summary = None, j_trace_context = tparent, j_trace_state = tstate,
      j_errors = [], j_recovery = []\<rparr>"

definition insert_job :: "job_row \<Rightarrow> queue \<Rightarrow> db_error + queue \<times> enqueued" where
  "insert_job r q =
     (if list_ex (live_holder (j_kind r) (j_unique_key r)) (rows q) then Inr (q, Duplicate)
      else if list_ex (\<lambda>r'. j_id r' = j_id r) (rows q) then Inl PrimaryKeyViolation
      else bind_result (install q (rows q @ [r]) (sequence q)) (\<lambda>q'. Inr (q', Created (j_id r))))"

record enqueue_result =
  enq_answer :: enqueued
  enq_notified :: bool
  enq_queue :: queue
  enq_wake_log :: wake_log

text \<open>
  \<open>enqueue\<close> on the caller's transaction: \<open>db_now\<close> is the statement's timestamp, \<open>now\<close> the
  process clock the throttle reads and \<open>jid\<close> the freshly generated identifier.
\<close>

definition enqueue ::
  "(string \<Rightarrow> bool) \<Rightarrow> (string \<Rightarrow> string) \<Rightarrow> string option \<times> string option
   \<Rightarrow> micros \<Rightarrow> instant \<Rightarrow> job_id \<Rightarrow> string \<Rightarrow> serialization \<Rightarrow> enqueue_options
   \<Rightarrow> wake_log \<Rightarrow> queue \<Rightarrow> enqueue_error + enqueue_result" where
  "enqueue is_utf8 jsonb trace db_now now jid kind ser opts log q =
     bind_result (prepare is_utf8 kind ser opts) (\<lambda>p.
       case insert_job (new_row jsonb db_now jid kind p (fst trace) (snd trace)) q of
         Inl _ \<Rightarrow> Inl DatabaseError
       | Inr (q', Duplicate) \<Rightarrow>
           Inr \<lparr>enq_answer = Duplicate, enq_notified = False, enq_queue = q', enq_wake_log = log\<rparr>
       | Inr (q', Created i) \<Rightarrow>
           (if prep_delay_micros p = 0
            then (let (due, log') = wake_due log kind now
                  in Inr \<lparr>enq_answer = Created i, enq_notified = due, enq_queue = q',
                          enq_wake_log = log'\<rparr>)
            else Inr \<lparr>enq_answer = Created i, enq_notified = False, enq_queue = q',
                      enq_wake_log = log\<rparr>))"

datatype live_payload_comparison = SamePayload | DifferentPayload | NoLongerLive

text \<open>\<open>jsonb_eq\<close> is PostgreSQL's equality of the stored JSON value and the proposed text.\<close>

definition compare_live_payload ::
  "(string \<Rightarrow> bool) \<Rightarrow> (string \<Rightarrow> string \<Rightarrow> bool) \<Rightarrow> string \<Rightarrow> ustr \<Rightarrow> serialization \<Rightarrow> queue
   \<Rightarrow> enqueue_error + live_payload_comparison" where
  "compare_live_payload is_utf8 jsonb_eq kind key ser q =
     bind_result (prepare is_utf8 kind ser \<lparr>opt_delay = 0, opt_unique_key = Some key\<rparr>) (\<lambda>p.
       case find (live_holder kind (prep_unique_key p)) (rows q) of
         None \<Rightarrow> Inr NoLongerLive
       | Some r \<Rightarrow> Inr (if jsonb_eq (j_payload r) (prep_payload p) then SamePayload
                        else DifferentPayload))"

subsection \<open>Well-formed queues\<close>

text \<open>
  The primary key and the constraints hold for the stored rows; the generation of every row was
  drawn from the sequence, and no two rows hold the same drawn generation.
\<close>

definition claim_generations :: "job_row list \<Rightarrow> nat list" where
  "claim_generations rs = map j_generation (filter (\<lambda>r. j_generation r \<noteq> 0) rs)"

definition queue_ok :: "queue \<Rightarrow> bool" where
  "queue_ok q \<longleftrightarrow> distinct (map j_id (rows q)) \<and> list_all row_ok (rows q)
     \<and> distinct (live_keys (rows q))
     \<and> (\<forall>r \<in> set (rows q). j_generation r \<le> sequence q)
     \<and> distinct (claim_generations (rows q))"

definition empty_queue :: queue where
  "empty_queue = \<lparr>rows = [], sequence = 0\<rparr>"

lemma queue_ok_empty: "queue_ok empty_queue"
  by (simp add: queue_ok_def empty_queue_def live_keys_def claim_generations_def)

lemma install_Inr:
  "install q rs sq = Inr q' \<longleftrightarrow>
     q' = q\<lparr>rows := rs, sequence := sq\<rparr> \<and> list_all row_ok rs \<and> distinct (live_keys rs)"
  by (auto simp: install_def)

lemma update_where_Inr:
  "update_where p f q = Inr (q', n) \<longleftrightarrow>
     (let rs = map (\<lambda>r. if p r then f r else r) (rows q)
      in q' = q\<lparr>rows := rs\<rparr> \<and> n = length (filter p (rows q))
         \<and> list_all row_ok rs \<and> distinct (live_keys rs))"
  by (auto simp: update_where_def bind_result_Inr install_Inr Let_def)

text \<open>An update that keeps identity and generation keeps a queue well-formed when it succeeds.\<close>

lemma claim_generations_map:
  "(\<And>r. j_generation (f r) = j_generation r) \<Longrightarrow>
   claim_generations (map (\<lambda>r. if p r then f r else r) rs) = claim_generations rs"
  by (induction rs) (auto simp: claim_generations_def)

lemma update_where_queue_ok:
  assumes ok: "queue_ok q" and upd: "update_where p f q = Inr (q', n)"
    and ids: "\<And>r. j_id (f r) = j_id r" and gens: "\<And>r. j_generation (f r) = j_generation r"
  shows "queue_ok q'"
proof -
  define rs where "rs = map (\<lambda>r. if p r then f r else r) (rows q)"
  from upd have q': "q' = q\<lparr>rows := rs\<rparr>" and new: "list_all row_ok rs" "distinct (live_keys rs)"
    by (simp_all add: update_where_Inr Let_def rs_def)
  have "map j_id rs = map j_id (rows q)" using ids by (simp add: rs_def)
  moreover have "j_generation r \<le> sequence q" if "r \<in> set rs" for r
    using ok that gens by (auto simp: queue_ok_def rs_def)
  moreover have "claim_generations rs = claim_generations (rows q)"
    using gens unfolding rs_def by (rule claim_generations_map)
  ultimately show ?thesis using ok new unfolding queue_ok_def q' by simp
qed

lemma delete_where_queue_ok:
  assumes "queue_ok q"
  shows "queue_ok (fst (delete_where p q))"
  using assms
  by (auto simp: queue_ok_def delete_where_def live_keys_def claim_generations_def list_all_iff
      simp del: filter_filter intro: distinct_map_filter_filter distinct_map_filter)

lemma queue_ok_row:
  assumes "queue_ok q" "r \<in> set (rows q)"
  shows "row_ok r" "find_job (j_id r) q = Some r"
  using assms find_map_distinct[of j_id "rows q" r]
  by (auto simp: queue_ok_def list_all_iff find_job_def)

lemma find_job_SomeD: "find_job jid q = Some r \<Longrightarrow> r \<in> set (rows q) \<and> j_id r = jid"
  by (auto simp: find_job_def dest: find_Some_mem)

lemma find_job_None: "find_job jid q = None \<longleftrightarrow> (\<forall>r \<in> set (rows q). j_id r \<noteq> jid)"
  by (auto simp: find_job_def find_None_iff)

text \<open>
  An update of unique rows that keeps identity, generation, kind and unique key, makes nothing
  live that was not, and satisfies the constraints, cannot be refused.
\<close>

lemma live_keys_all2:
  assumes "list_all2 (\<lambda>r r'. j_kind r' = j_kind r \<and> j_unique_key r' = j_unique_key r
      \<and> (live r' \<longrightarrow> live r)) rs rs'"
    and "distinct (live_keys rs)"
  shows "distinct (live_keys rs') \<and> set (live_keys rs') \<subseteq> set (live_keys rs)"
  using assms
proof (induction rs rs' rule: list_all2_induct)
  case (Cons r rs r' rs')
  have split: "live_keys (x # xs) =
      (if live x \<and> j_unique_key x \<noteq> None then [(j_kind x, j_unique_key x)] else []) @ live_keys xs"
    for x xs by (simp add: live_keys_def)
  have "distinct (live_keys rs') \<and> set (live_keys rs') \<subseteq> set (live_keys rs)"
    using Cons by (simp add: split split: if_splits)
  moreover have "(j_kind r, j_unique_key r) \<notin> set (live_keys rs)"
    if "live r" "j_unique_key r \<noteq> None"
    using Cons.prems that by (simp add: split)
  ultimately show ?case using Cons.hyps(1) unfolding split by auto
qed (simp add: live_keys_def)

lemma update_where_succeeds:
  assumes ok: "queue_ok q"
    and keeps: "\<And>r. j_kind (f r) = j_kind r" "\<And>r. j_unique_key (f r) = j_unique_key r"
    and live: "\<And>r. p r \<Longrightarrow> r \<in> set (rows q) \<Longrightarrow> live (f r) \<Longrightarrow> live r"
    and rows: "\<And>r. p r \<Longrightarrow> r \<in> set (rows q) \<Longrightarrow> row_ok (f r)"
  shows "update_where p f q =
    Inr (q\<lparr>rows := map (\<lambda>r. if p r then f r else r) (rows q)\<rparr>, length (filter p (rows q)))"
proof -
  have "distinct (live_keys (map (\<lambda>r. if p r then f r else r) (rows q)))"
  proof -
    have "list_all2 (\<lambda>r r'. j_kind r' = j_kind r \<and> j_unique_key r' = j_unique_key r
        \<and> (live r' \<longrightarrow> live r)) (rows q) (map (\<lambda>r. if p r then f r else r) (rows q))"
      unfolding list_all2_map2 by (rule list.rel_refl_strong) (use keeps live in auto)
    from live_keys_all2[OF this] ok show ?thesis by (simp add: queue_ok_def)
  qed
  moreover have "list_all row_ok (map (\<lambda>r. if p r then f r else r) (rows q))"
    using ok rows by (auto simp: queue_ok_def list_all_iff)
  ultimately show ?thesis by (simp add: update_where_Inr Let_def)
qed

text \<open>A condition that fixes the identifier selects at most one row.\<close>

lemma filter_one_id:
  assumes "distinct (map j_id rs)" "\<And>r. p r \<Longrightarrow> j_id r = jid"
  shows "length (filter p rs) = (if list_ex p rs then 1 else 0)"
  using assms
proof (induction rs)
  case (Cons r rs)
  have "\<not> list_ex p rs" if "p r"
    using Cons.prems that by (auto simp: list_ex_iff image_iff)
  with Cons show ?case by auto
qed simp

lemma map_if_none: "\<not> list_ex p rs \<Longrightarrow> map (\<lambda>r. if p r then f r else r) rs = rs"
  by (induction rs) auto

text \<open>How an update by identity changes a lookup.\<close>

lemma find_map_same_id:
  "(\<And>r. j_id (g r) = j_id r) \<Longrightarrow>
   find (\<lambda>r. j_id r = jid) (map g rs) = map_option g (find (\<lambda>r. j_id r = jid) rs)"
  by (induction rs) auto

subsection \<open>Enqueue keeps the table well-formed\<close>

lemma row_ok_new_row [simp]: "row_ok (new_row jsonb now jid kind p tp ts)"
  by (simp add: row_ok_def new_row_def)

lemma live_keys_snoc:
  "live_keys (rs @ [r]) =
     live_keys rs @ (if live r \<and> j_unique_key r \<noteq> None then [(j_kind r, j_unique_key r)] else [])"
  by (simp add: live_keys_def)

lemma live_holder_iff:
  "live_holder (j_kind r) (j_unique_key r) s \<and> s \<in> set rs \<Longrightarrow>
   (j_kind r, j_unique_key r) \<in> set (live_keys rs)"
  by (auto simp: live_holder_def live_keys_def image_iff)

lemma live_keys_holder:
  "(kind, key) \<in> set (live_keys rs) \<longleftrightarrow> list_ex (live_holder kind key) rs"
  by (auto simp: live_holder_def live_keys_def list_ex_iff image_iff)

text \<open>
  Enqueue inserts or reports the live holder, and never fails on the index: for a prepared
  job with an identifier that is not yet stored, the insert answers \<open>Duplicate\<close> and changes nothing
  when a live job of the same kind holds the unique key, and otherwise answers \<open>Created\<close> and adds
  exactly the new pending row, due at the statement's time plus the delay; the table stays
  well-formed either way.
\<close>

lemma insert_job_exact:
  assumes ok: "queue_ok q"
    and fresh: "find_job jid q = None"
    and r: "r = new_row jsonb now jid kind p tp ts"
  shows "insert_job r q =
      (if list_ex (live_holder kind (prep_unique_key p)) (rows q) then Inr (q, Duplicate)
       else Inr (q\<lparr>rows := rows q @ [r]\<rparr>, Created jid))
    \<and> (\<not> list_ex (live_holder kind (prep_unique_key p)) (rows q) \<longrightarrow>
         queue_ok (q\<lparr>rows := rows q @ [r]\<rparr>))
    \<and> j_state r = Pending \<and> j_not_before r = now + prep_delay_micros p"
proof -
  have f: "j_id r = jid" "j_kind r = kind" "j_unique_key r = prep_unique_key p" "j_generation r = 0"
    "j_state r = Pending" "row_ok r" "j_not_before r = now + prep_delay_micros p"
    by (simp_all add: r) (simp_all add: new_row_def)
  have new_id: "\<not> list_ex (\<lambda>r'. j_id r' = jid) (rows q)"
    using fresh by (auto simp: find_job_None list_ex_iff)
  have keys: "distinct (live_keys (rows q @ [r]))"
    if "\<not> list_ex (live_holder kind (prep_unique_key p)) (rows q)"
    using that ok f(2,3) by (auto simp: live_keys_snoc queue_ok_def live_keys_holder)
  have "queue_ok (q\<lparr>rows := rows q @ [r]\<rparr>)"
    if "\<not> list_ex (live_holder kind (prep_unique_key p)) (rows q)"
    using ok keys[OF that] new_id f
    by (auto simp: queue_ok_def list_ex_iff image_iff claim_generations_def)
  moreover have "insert_job r q =
      (if list_ex (live_holder kind (prep_unique_key p)) (rows q) then Inr (q, Duplicate)
       else Inr (q\<lparr>rows := rows q @ [r]\<rparr>, Created jid))"
    using ok keys new_id f by (auto simp: insert_job_def install_def queue_ok_def)
  ultimately show ?thesis using f by blast
qed

definition demo_prepared :: prepared where
  "demo_prepared = \<lparr>prep_payload = ''{}'', prep_unique_key = Some (ascii ''k''), prep_delay_micros = 0\<rparr>"

definition demo_row :: job_row where
  "demo_row = new_row id 100 (JobId 1) ''mail.send'' demo_prepared None None"

theorem insert_job_exact_witness:
  "insert_job demo_row empty_queue = Inr (\<lparr>rows = [demo_row], sequence = 0\<rparr>, Created (JobId 1))"
  using insert_job_exact[OF queue_ok_empty _ demo_row_def]
  by (simp add: find_job_def empty_queue_def)

end
