(* ===== verification/JobAttempt.thy ===== *)
theory JobAttempt
  imports Complex_Main JobTable "HOL-Library.Multiset"
begin

text \<open>
  \<open>crates/infra-jobs/src/attempt.rs\<close>: how one supervised attempt ends, which queue transition its
  end becomes, the fenced statements that write it, the batch of completions and the loop that
  persists an outcome.

  The handler, the timers and the database are the environment: \<open>drive\<close> takes when the handler
  finishes and when the drain is forced, \<open>persist\<close> takes what happens to each statement it sends.
  Metrics and log lines are not modelled, except the labels they carry.
\<close>

definition COOPERATIVE_GRACE :: duration where "COOPERATIVE_GRACE = from_millis 100"

subsection \<open>Ends and transitions\<close>

datatype transition =
    Complete
  | RetryTo (retry_summary: ustr) (base_micros: nat) (floor_micros: nat) (timed_out: bool)
  | Fail failure ustr
  | SnoozeFor micros ustr
  | Release

definition failure_label :: "failure \<Rightarrow> string" where
  "failure_label f = (case f of Exhausted \<Rightarrow> ''exhausted'' | PermanentFailure \<Rightarrow> ''permanent'')"

definition transition_label :: "transition \<Rightarrow> string" where
  "transition_label t =
     (case t of
        Complete \<Rightarrow> ''completed''
      | RetryTo _ _ _ timedout \<Rightarrow> (if timedout then ''timeout'' else ''retry'')
      | Fail reason _ \<Rightarrow> failure_label reason
      | SnoozeFor _ _ \<Rightarrow> ''snoozed''
      | Release \<Rightarrow> ''cancelled'')"

datatype json_category = IoError | SyntaxError | DataError | EofError

datatype ended =
    Success
  | Error job_error
  | Panic
  | Payload json_category nat nat
  | Timeout
  | Cancelled

text \<open>\<open>summary\<close>: control characters become spaces and the text stops at the byte bound.\<close>

fun summary_from :: "nat \<Rightarrow> ustr \<Rightarrow> ustr" where
  "summary_from used [] = []"
| "summary_from used (c # cs) =
     (let ch = (if is_control c then 32 else c)
      in if used + len_utf8 ch > ERROR_SUMMARY_MAX_BYTES then []
         else ch # summary_from (used + len_utf8 ch) cs)"

definition summary :: "ustr \<Rightarrow> ustr" where
  "summary text = summary_from 0 text"

definition category_text :: "json_category \<Rightarrow> string" where
  "category_text c =
     (case c of IoError \<Rightarrow> ''io'' | SyntaxError \<Rightarrow> ''syntax'' | DataError \<Rightarrow> ''data'' | EofError \<Rightarrow> ''eof'')"

definition payload_summary :: "string \<Rightarrow> json_category \<Rightarrow> nat \<Rightarrow> nat \<Rightarrow> ustr" where
  "payload_summary kind cat line column =
     ascii ''payload does not decode as '' @ ascii kind @ ascii '': '' @ ascii (category_text cat)
     @ ascii '' error at line '' @ ascii (decimal line) @ ascii '' column '' @ ascii (decimal column)"

definition retry :: "nat \<Rightarrow> policy \<Rightarrow> ustr \<Rightarrow> micros \<Rightarrow> bool \<Rightarrow> transition" where
  "retry attempt pol text flr timedout =
     (let s = summary text
      in if attempt \<ge> max_attempts pol then Fail Exhausted s
         else RetryTo s (attempt ^ 4 * 1000000) flr timedout)"

text \<open>\<open>fmt\<close> is the duration formatting of the \<open>humantime\<close> package.\<close>

definition map_outcome ::
  "(duration \<Rightarrow> ustr) \<Rightarrow> string \<Rightarrow> nat \<Rightarrow> policy \<Rightarrow> ended \<Rightarrow> transition" where
  "map_outcome fmt kind attempt pol e =
     (case e of
        Success \<Rightarrow> Complete
      | Cancelled \<Rightarrow> Release
      | Error err \<Rightarrow>
          (case disposition err of
             Snooze delay \<Rightarrow> SnoozeFor delay (summary (summary_text err))
           | Permanent \<Rightarrow> Fail PermanentFailure (summary (summary_text err))
           | RetryAfterAtLeast flr \<Rightarrow> retry attempt pol (summary_text err) flr False
           | Retry \<Rightarrow> retry attempt pol (summary_text err) 0 False)
      | Panic \<Rightarrow> retry attempt pol (ascii ''handler panicked'') 0 False
      | Payload cat line column \<Rightarrow> retry attempt pol (payload_summary kind cat line column) 0 False
      | Timeout \<Rightarrow>
          retry attempt pol (ascii ''attempt timed out after '' @ fmt (timeout pol)) 0 True)"

subsection \<open>Driving a handler\<close>

datatype handler_result = HandlerOk | HandlerErr job_error | HandlerPanic

definition ended_from :: "handler_result \<Rightarrow> ended" where
  "ended_from r = (case r of HandlerOk \<Rightarrow> Success | HandlerErr e \<Rightarrow> Error e | HandlerPanic \<Rightarrow> Panic)"

definition ended_after_cancel :: "handler_result \<Rightarrow> ended \<Rightarrow> ended" where
  "ended_after_cancel r reason = (if r = HandlerOk then Success else reason)"

text \<open>
  When the handler finishes if it is never cancelled, when the drain is forced, when the handler
  finishes after it was cancelled, and the cleanup deadline a forced drain fixed.
\<close>

record attempt_env =
  natural_finish :: "(instant \<times> handler_result) option"
  force_at :: "instant option"
  cancelled_finish :: "(instant \<times> handler_result) option"
  cleanup_deadline :: "instant option"

definition cleanup_ended_at :: "attempt_env \<Rightarrow> instant option" where
  "cleanup_ended_at env =
     (case (force_at env, cleanup_deadline env) of
        (Some f, Some d) \<Rightarrow> Some (max f d)
      | _ \<Rightarrow> None)"

definition attempt_expired :: "attempt_env \<Rightarrow> instant \<Rightarrow> instant \<Rightarrow> bool" where
  "attempt_expired env local now =
     (now \<ge> local \<or> (case cleanup_deadline env of None \<Rightarrow> False | Some d \<Rightarrow> now \<ge> d))"

text \<open>
  \<open>drive\<close>: the first of the handler's result, the forced drain and the attempt deadline, a
  result before a force before the deadline when they are ready together; then the cancelled
  handler has the cooperative grace, cut short by the local deadline and the end of cleanup.
  \<^term>\<open>None\<close> means that the end is not known.
\<close>

definition drive_cancelled :: "attempt_env \<Rightarrow> instant \<Rightarrow> instant \<Rightarrow> ended \<Rightarrow> ended option" where
  "drive_cancelled env local cancel_at reason =
     (let grace = min (case instant_checked_add cancel_at COOPERATIVE_GRACE of
                         None \<Rightarrow> local | Some t \<Rightarrow> t) local;
          wait_end = max cancel_at (case cleanup_ended_at env of
                                      None \<Rightarrow> grace | Some c \<Rightarrow> min grace c)
      in case cancelled_finish env of
           Some (t, r) \<Rightarrow>
             if t \<le> wait_end then Some (ended_after_cancel r reason)
             else if attempt_expired env local wait_end then None else Some reason
         | None \<Rightarrow> if attempt_expired env local wait_end then None else Some reason)"

definition drive :: "attempt_env \<Rightarrow> instant \<Rightarrow> instant \<Rightarrow> ended option" where
  "drive env attempt_deadline local =
     (let cancel_at = (case force_at env of None \<Rightarrow> attempt_deadline
                         | Some f \<Rightarrow> min f attempt_deadline);
          reason = (case force_at env of
                      Some f \<Rightarrow> if f \<le> attempt_deadline then Cancelled else Timeout
                    | None \<Rightarrow> Timeout)
      in case natural_finish env of
           Some (t, r) \<Rightarrow>
             if t \<le> cancel_at then Some (ended_from r)
             else drive_cancelled env local cancel_at reason
         | None \<Rightarrow> drive_cancelled env local cancel_at reason)"

text \<open>How the payload decoded: a running handler, a panic of the decoder, or its error.\<close>

datatype prepared_handler = HandlerReady | PreparePanic | PrepareError json_category nat nat

definition prepare_handler :: "prepared_handler \<Rightarrow> ended + unit" where
  "prepare_handler p =
     (case p of
        HandlerReady \<Rightarrow> Inr ()
      | PreparePanic \<Rightarrow> Inl Panic
      | PrepareError cat line column \<Rightarrow> Inl (Payload cat line column))"

subsection \<open>The fenced statements\<close>

definition fenced :: "job_id \<Rightarrow> nat \<Rightarrow> job_row \<Rightarrow> bool" where
  "fenced jid gen r = (j_id r = jid \<and> j_generation r = gen \<and> j_claim_expires_at r \<noteq> None)"

definition complete_row :: "micros \<Rightarrow> job_row \<Rightarrow> job_row" where
  "complete_row now r =
     r\<lparr>j_state := Completed, j_finished_at := Some now, j_claim_expires_at := None\<rparr>"

definition complete :: "micros \<Rightarrow> job_id \<Rightarrow> nat \<Rightarrow> queue \<Rightarrow> db_error + queue \<times> nat" where
  "complete now jid gen q = update_where (fenced jid gen) (complete_row now) q"

text \<open>Interval multiplication in PostgreSQL rounds to the nearest microsecond, ties to even.\<close>

definition rint :: "rat \<Rightarrow> int" where
  "rint x = (let f = \<lfloor>x\<rfloor>; d = x - of_int f
             in if d < 1/2 then f else if d > 1/2 then f + 1 else if even f then f else f + 1)"

text \<open>\<open>u\<close> is the draw of \<open>random()\<close>; the \<open>double precision\<close> product is taken exactly.\<close>

definition retry_delay :: "rat \<Rightarrow> nat \<Rightarrow> nat \<Rightarrow> micros" where
  "retry_delay u base flr =
     nat (rint (max (of_nat base * (9/10 + 2/10 * u)) (of_nat flr)))"

definition error_entry_of :: "micros \<Rightarrow> job_row \<Rightarrow> ustr \<Rightarrow> error_entry" where
  "error_entry_of now r text = \<lparr>entry_attempt = j_attempts r, entry_at = now, entry_error = text\<rparr>"

definition outcome_row :: "rat \<Rightarrow> micros \<Rightarrow> transition \<Rightarrow> job_row \<Rightarrow> job_row" where
  "outcome_row u now t r =
     (case t of
        Complete \<Rightarrow> complete_row now r
      | RetryTo s base flr _ \<Rightarrow>
          r\<lparr>j_state := Pending, j_not_before := now + retry_delay u base flr,
            j_claim_expires_at := None, j_error_summary := Some s,
            j_errors := j_errors r @ [error_entry_of now r s]\<rparr>
      | SnoozeFor delay _ \<Rightarrow>
          r\<lparr>j_state := Pending, j_not_before := now + delay, j_claim_expires_at := None,
            j_attempts := j_attempts r - 1\<rparr>
      | Release \<Rightarrow>
          r\<lparr>j_state := Pending, j_claim_expires_at := None, j_attempts := j_attempts r - 1\<rparr>
      | Fail reason s \<Rightarrow>
          r\<lparr>j_state := Failed, j_failure_reason := Some reason, j_finished_at := Some now,
            j_claim_expires_at := None, j_error_summary := Some s,
            j_errors := j_errors r @ [error_entry_of now r s]\<rparr>)"

definition execute ::
  "rat \<Rightarrow> micros \<Rightarrow> job_id \<Rightarrow> nat \<Rightarrow> transition \<Rightarrow> queue \<Rightarrow> db_error + queue \<times> nat" where
  "execute u now jid gen t q = update_where (fenced jid gen) (outcome_row u now t) q"

text \<open>\<open>Job::complete_in_tx\<close>: completion on the caller's transaction.\<close>

datatype complete_error = StaleClaim | CompleteDatabase db_error

definition complete_in_tx :: "micros \<Rightarrow> job_id \<Rightarrow> nat \<Rightarrow> queue \<Rightarrow> complete_error + queue" where
  "complete_in_tx now jid gen q =
     (case complete now jid gen q of
        Inl e \<Rightarrow> Inl (CompleteDatabase e)
      | Inr (q', affected) \<Rightarrow> if affected = 1 then Inr q' else Inl StaleClaim)"

subsection \<open>The batch of completions\<close>

record queued_completion =
  qc_id :: job_id
  qc_generation :: nat
  qc_deadline :: instant
  qc_closed :: bool

text \<open>\<open>Vec::swap_remove\<close>, and the pruning loop of \<open>write_batch\<close>.\<close>

definition swap_remove :: "nat \<Rightarrow> 'a list \<Rightarrow> 'a list" where
  "swap_remove i xs = (if i < length xs - 1 then (butlast xs)[i := last xs] else butlast xs)"

function prune_from :: "('a \<Rightarrow> bool) \<Rightarrow> nat \<Rightarrow> 'a list \<Rightarrow> 'a list" where
  "prune_from bad i xs =
     (if i < length xs
      then (if bad (xs ! i) then prune_from bad i (swap_remove i xs)
            else prune_from bad (Suc i) xs)
      else xs)"
  by pat_completeness auto
termination
  by (relation "measure (\<lambda>(bad, i, xs). length xs - i)") (auto simp: swap_remove_def)

declare prune_from.simps [simp del]

text \<open>
  The batch statement: every listed completion whose claim is still fenced is applied, and the
  one-based positions of the applied ones are returned. A row that several entries name is
  updated once and returned for one of them, taken to be the first.
\<close>

definition complete_batch ::
  "micros \<Rightarrow> (job_id \<times> nat) list \<Rightarrow> queue \<Rightarrow> db_error + queue \<times> nat list" where
  "complete_batch now done q =
     bind_result
       (update_where (\<lambda>r. list_ex (\<lambda>(jid, gen). fenced jid gen r) done) (complete_row now) q)
       (\<lambda>(q', _). Inr (q', map Suc (filter
          (\<lambda>i. list_ex (fenced (fst (done ! i)) (snd (done ! i))) (rows q) \<and>
               done ! i \<notin> set (take i done)) [0..<length done])))"

text \<open>The flags \<open>write_batch\<close> sets from the returned positions.\<close>

definition applied_flags :: "nat \<Rightarrow> nat list \<Rightarrow> bool list" where
  "applied_flags n positions =
     fold (\<lambda>position flags. if 1 \<le> position \<and> position - 1 < length flags
                            then flags[position - 1 := True] else flags)
       positions (replicate n False)"

definition write_batch ::
  "micros \<Rightarrow> (queued_completion \<Rightarrow> bool) \<Rightarrow> queued_completion list \<Rightarrow> queue
   \<Rightarrow> db_error + queue \<times> (queued_completion \<times> bool) list" where
  "write_batch now past batch q =
     (let kept = prune_from (\<lambda>e. qc_closed e \<or> past e) 0 batch
      in if kept = [] then Inr (q, [])
         else bind_result (complete_batch now (map (\<lambda>e. (qc_id e, qc_generation e)) kept) q)
           (\<lambda>(q', positions). Inr (q', zip kept (applied_flags (length kept) positions))))"

subsection \<open>Persisting an outcome\<close>

text \<open>
  What happens to one statement of the loop: it is acknowledged; it takes effect but its answer
  is lost; it fails without effect; or the deadline or the end of cleanup interrupts it, before
  or after it took effect. Each effect has its own timestamp and random draw.
\<close>

datatype send_event =
    Acked micros rat
  | LostAck micros rat
  | SendFails
  | Interrupted "(micros \<times> rat) option"

datatype persistence = Applied | Unchanged | Unknown

text \<open>
  The statement of one turn: a completion goes through \<open>complete_batched\<close>, every other transition through
  its own statement. The batch is the one that holds this attempt's entry alone; \<open>write_batch_as_single\<close> below
  shows that entries of other attempts in the same batch change nothing for it.
\<close>

definition complete_batched :: "micros \<Rightarrow> job_id \<Rightarrow> nat \<Rightarrow> queue \<Rightarrow> db_error + queue \<times> nat" where
  "complete_batched now jid gen q =
     bind_result
       (write_batch now (\<lambda>_. False) [\<lparr>qc_id = jid, qc_generation = gen, qc_deadline = 0, qc_closed = False\<rparr>] q)
       (\<lambda>(q', answers). Inr (q', length (filter snd answers)))"

definition send_turn ::
  "rat \<Rightarrow> micros \<Rightarrow> job_id \<Rightarrow> nat \<Rightarrow> transition \<Rightarrow> queue \<Rightarrow> db_error + queue \<times> nat" where
  "send_turn u now jid gen t q =
     (if t = Complete then complete_batched now jid gen q else execute u now jid gen t q)"

fun persist ::
  "job_id \<Rightarrow> nat \<Rightarrow> transition \<Rightarrow> send_event list \<Rightarrow> queue \<Rightarrow> queue \<times> persistence" where
  "persist jid gen t [] q = (q, Unknown)"
| "persist jid gen t (SendFails # es) q = persist jid gen t es q"
| "persist jid gen t (Interrupted None # es) q = (q, Unknown)"
| "persist jid gen t (Interrupted (Some (now, u)) # es) q =
     (case send_turn u now jid gen t q of Inl _ \<Rightarrow> (q, Unknown) | Inr (q', _) \<Rightarrow> (q', Unknown))"
| "persist jid gen t (LostAck now u # es) q =
     (case send_turn u now jid gen t q of
        Inl _ \<Rightarrow> persist jid gen t es q
      | Inr (q', _) \<Rightarrow> persist jid gen t es q')"
| "persist jid gen t (Acked now u # es) q =
     (case send_turn u now jid gen t q of
        Inl _ \<Rightarrow> persist jid gen t es q
      | Inr (q', n) \<Rightarrow> (q', if n = 1 then Applied else Unchanged))"

record counters =
  known_results :: nat
  cancelled_count :: nat
  released :: nat
  uncertain :: nat

text \<open>
  \<open>run_attempt\<close>: \<open>started\<close> is the clock reading at which the attempt deadline is fixed and
  \<open>local\<close> the attempt's local deadline. The flag tells whether the supervisor retires normally.
\<close>

definition run_attempt ::
  "(duration \<Rightarrow> ustr) \<Rightarrow> registry \<Rightarrow> string \<Rightarrow> job_id \<Rightarrow> nat \<Rightarrow> nat \<Rightarrow> instant \<Rightarrow> instant
   \<Rightarrow> prepared_handler \<Rightarrow> attempt_env \<Rightarrow> send_event list \<Rightarrow> queue \<times> counters
   \<Rightarrow> (queue \<times> counters) \<times> bool" where
  "run_attempt fmt reg kind jid gen attempt started local prep env events qc =
     (let (q, c) = qc in
      case registry_get reg kind of
        None \<Rightarrow> ((q, c), False)
      | Some e \<Rightarrow>
          if attempt_expired env local started then ((q, c\<lparr>uncertain := Suc (uncertain c)\<rparr>), True)
          else
            (let attempt_deadline =
                   min (case instant_checked_add started (timeout (reg_policy e)) of
                          None \<Rightarrow> local | Some t \<Rightarrow> t) local
             in case (case prepare_handler prep of
                        Inl en \<Rightarrow> Some en
                      | Inr _ \<Rightarrow> drive env attempt_deadline local) of
                  None \<Rightarrow> ((q, c\<lparr>uncertain := Suc (uncertain c)\<rparr>), True)
                | Some en \<Rightarrow>
                    (let t = map_outcome fmt kind attempt (reg_policy e) en;
                         c1 = (if t = Release then c\<lparr>cancelled_count := Suc (cancelled_count c)\<rparr>
                               else c\<lparr>known_results := Suc (known_results c)\<rparr>);
                         (q', d) = persist jid gen t events q;
                         c2 = (if d = Applied \<and> t = Release
                               then c1\<lparr>released := Suc (released c1)\<rparr>
                               else if d = Unknown then c1\<lparr>uncertain := Suc (uncertain c1)\<rparr>
                               else c1)
                     in ((q', c2), True))))"


subsection \<open>Summaries and delays\<close>

definition sanitized :: "ustr \<Rightarrow> ustr" where
  "sanitized msg = map (\<lambda>c. if is_control c then 32 else c) msg"

lemma summary_from_spec:
  "used \<le> ERROR_SUMMARY_MAX_BYTES \<Longrightarrow>
   \<exists>rest. sanitized msg = summary_from used msg @ rest
     \<and> used + utf8_len (summary_from used msg) \<le> ERROR_SUMMARY_MAX_BYTES
     \<and> (rest \<noteq> [] \<longrightarrow>
          used + utf8_len (summary_from used msg) + len_utf8 (hd rest) > ERROR_SUMMARY_MAX_BYTES)"
proof (induction used msg rule: summary_from.induct)
  case (1 used)
  then show ?case by (simp add: sanitized_def)
next
  case (2 used c cs)
  let ?ch = "if is_control c then 32 else c"
  show ?case
  proof (cases "used + len_utf8 ?ch > ERROR_SUMMARY_MAX_BYTES")
    case True
    then have "summary_from used (c # cs) = []" by (simp add: Let_def)
    moreover have "sanitized (c # cs) = ?ch # sanitized cs" by (simp add: sanitized_def)
    ultimately show ?thesis using 2 True by auto
  next
    case False
    with 2 obtain rest where "sanitized cs = summary_from (used + len_utf8 ?ch) cs @ rest"
      "used + len_utf8 ?ch + utf8_len (summary_from (used + len_utf8 ?ch) cs) \<le> ERROR_SUMMARY_MAX_BYTES"
      "rest \<noteq> [] \<longrightarrow> used + len_utf8 ?ch + utf8_len (summary_from (used + len_utf8 ?ch) cs)
         + len_utf8 (hd rest) > ERROR_SUMMARY_MAX_BYTES"
      by (auto simp: Let_def)
    with False show ?thesis
      by (intro exI[of _ rest]) (simp add: Let_def sanitized_def add.assoc)
  qed
qed

text \<open>
  A stored error summary is bounded, clean and as long as it can be: it is a prefix of the
  error text with control characters replaced by spaces, it never exceeds 1024 UTF-8 bytes, it
  contains no control character, and where it stops short the next character would not fit.
\<close>

lemma summary_bounded:
  "\<exists>rest. sanitized msg = summary msg @ rest
     \<and> utf8_len (summary msg) \<le> 1024
     \<and> (rest = [] \<or> utf8_len (summary msg) + len_utf8 (hd rest) > 1024)
     \<and> list_all (\<lambda>c. \<not> is_control c) (summary msg)"
proof -
  obtain rest where r: "sanitized msg = summary msg @ rest"
    "utf8_len (summary msg) \<le> 1024"
    "rest \<noteq> [] \<longrightarrow> utf8_len (summary msg) + len_utf8 (hd rest) > 1024"
    using summary_from_spec[of 0 msg] by (auto simp: summary_def ERROR_SUMMARY_MAX_BYTES_def)
  have "list_all (\<lambda>c. \<not> is_control c) (sanitized msg)"
    by (auto simp: sanitized_def list_all_iff is_control_def)
  then have "list_all (\<lambda>c. \<not> is_control c) (summary msg)" unfolding r(1) by simp
  with r show ?thesis by blast
qed

lemma rint_mono_int: "of_int m \<le> x \<Longrightarrow> m \<le> rint x" "x \<le> of_int m \<Longrightarrow> rint x \<le> m"
proof -
  assume "of_int m \<le> x"
  then have "m \<le> \<lfloor>x\<rfloor>" by (simp add: le_floor_iff)
  then show "m \<le> rint x" by (simp add: rint_def Let_def)
next
  assume le: "x \<le> of_int m"
  show "rint x \<le> m"
  proof (cases "x = of_int m")
    case True
    then show ?thesis by (simp add: rint_def Let_def)
  next
    case False
    with le have "\<lfloor>x\<rfloor> < m" by (simp add: floor_less_iff)
    then show ?thesis by (simp add: rint_def Let_def)
  qed
qed

text \<open>
  The retry delay is the fourth-power backoff with ten percent jitter and the requested
  floor: for a draw of \<open>random()\<close> in its range, the delay after attempt \<open>n\<close> is never below the
  floor nor below nine tenths of \<open>n ^ 4\<close> seconds, and never above the larger of the floor and
  eleven tenths of \<open>n ^ 4\<close> seconds.
\<close>

lemma retry_delay_bounds:
  assumes "0 \<le> u" "u < 1"
  shows "flr \<le> retry_delay u (n ^ 4 * 1000000) flr
    \<and> n ^ 4 * 900000 \<le> retry_delay u (n ^ 4 * 1000000) flr
    \<and> retry_delay u (n ^ 4 * 1000000) flr \<le> max (n ^ 4 * 1100000) flr"
proof -
  let ?b = "of_nat (n ^ 4 * 1000000) * (9/10 + 2/10 * u) :: rat"
  let ?x = "max ?b (of_nat flr)"
  have nonneg: "(0::rat) \<le> of_nat (n ^ 4)" by simp
  have lo: "of_nat (n ^ 4 * 900000) \<le> ?b"
  proof -
    have "(of_nat (n ^ 4) :: rat) * 900000 \<le> of_nat (n ^ 4) * (900000 + 200000 * u)"
      using assms(1) by (intro mult_left_mono) auto
    then show ?thesis by (simp add: algebra_simps)
  qed
  have hi: "?b \<le> of_nat (n ^ 4 * 1100000)"
  proof -
    have "(of_nat (n ^ 4) :: rat) * (900000 + 200000 * u) \<le> of_nat (n ^ 4) * 1100000"
      using assms(2) by (intro mult_left_mono) auto
    then show ?thesis by (simp add: algebra_simps)
  qed
  have hi': "?x \<le> of_nat (max (n ^ 4 * 1100000) flr)"
    using hi unfolding of_nat_max by (intro max.mono) simp_all
  have "int flr \<le> rint ?x" by (rule rint_mono_int) simp
  moreover have "int (n ^ 4 * 900000) \<le> rint ?x"
    by (rule rint_mono_int) (use lo in \<open>simp add: le_max_iff_disj\<close>)
  moreover have "rint ?x \<le> int (max (n ^ 4 * 1100000) flr)"
    by (rule rint_mono_int(2)) (use hi' in \<open>simp only: of_int_of_nat_eq\<close>)
  ultimately show ?thesis unfolding retry_delay_def by linarith
qed

theorem retry_delay_bounds_witness:
  "retry_delay (1/2) (3 ^ 4 * 1000000) 5 \<le> max (3 ^ 4 * 1100000) 5"
  using retry_delay_bounds[of "1/2" 5 3] by simp

subsection \<open>Fencing\<close>

definition claim_open :: "job_id \<Rightarrow> nat \<Rightarrow> queue \<Rightarrow> bool" where
  "claim_open jid gen q = list_ex (fenced jid gen) (rows q)"

text \<open>A running row has been charged for its attempt, so a refund stays in the column's range.\<close>

definition charged :: "queue \<Rightarrow> bool" where
  "charged q = list_all (\<lambda>r. j_state r = Running \<longrightarrow> 1 \<le> j_attempts r) (rows q)"

abbreviation sound :: "queue \<Rightarrow> bool" where
  "sound q \<equiv> queue_ok q \<and> charged q"

lemma outcome_row_keeps [simp]:
  "j_id (outcome_row u now t r) = j_id r"
  "j_generation (outcome_row u now t r) = j_generation r"
  "j_kind (outcome_row u now t r) = j_kind r"
  "j_unique_key (outcome_row u now t r) = j_unique_key r"
  "j_claim_expires_at (outcome_row u now t r) = None"
  "j_state (outcome_row u now t r) \<noteq> Running"
  by (cases t; simp add: outcome_row_def complete_row_def)+

lemma outcome_row_ok:
  assumes "row_ok r" "j_claim_expires_at r \<noteq> None" "1 \<le> j_attempts r"
  shows "row_ok (outcome_row u now t r)"
  using assms by (cases t) (auto simp: outcome_row_def complete_row_def row_ok_def)

lemma fenced_outcome_row [simp]: "\<not> fenced i g (outcome_row u now t r)"
  by (simp add: fenced_def)

lemma sound_fenced_row:
  assumes "sound q" "fenced jid gen r" "r \<in> set (rows q)"
  shows "row_ok r" "j_state r = Running" "j_claim_expires_at r \<noteq> None" "1 \<le> j_attempts r"
  using assms by (auto simp: queue_ok_def charged_def list_all_iff fenced_def row_ok_def)

lemma execute_eq:
  assumes "sound q"
  shows "execute u now jid gen t q =
    Inr (q\<lparr>rows := map (\<lambda>r. if fenced jid gen r then outcome_row u now t r else r) (rows q)\<rparr>,
         if claim_open jid gen q then 1 else 0)"
proof -
  have "length (filter (fenced jid gen) (rows q)) = (if claim_open jid gen q then 1 else 0)"
    unfolding claim_open_def using assms
    by (intro filter_one_id[where jid = jid]) (auto simp: queue_ok_def fenced_def)
  moreover have "update_where (fenced jid gen) (outcome_row u now t) q =
    Inr (q\<lparr>rows := map (\<lambda>r. if fenced jid gen r then outcome_row u now t r else r) (rows q)\<rparr>,
         length (filter (fenced jid gen) (rows q)))"
    using assms sound_fenced_row[OF assms]
    by (intro update_where_succeeds) (auto simp: live_def intro!: outcome_row_ok)
  ultimately show ?thesis by (simp add: execute_def)
qed

text \<open>The effect of one outcome statement on the queue, acknowledged or not.\<close>

definition outcome_write :: "job_id \<Rightarrow> nat \<Rightarrow> transition \<Rightarrow> micros \<times> rat \<Rightarrow> queue \<Rightarrow> queue" where
  "outcome_write jid gen t w q =
     (case execute (snd w) (fst w) jid gen t q of Inl _ \<Rightarrow> q | Inr (q', _) \<Rightarrow> q')"

lemma outcome_write_eq:
  "sound q \<Longrightarrow> outcome_write jid gen t w q =
    q\<lparr>rows := map (\<lambda>r. if fenced jid gen r then outcome_row (snd w) (fst w) t r else r) (rows q)\<rparr>"
  by (simp add: outcome_write_def execute_eq)

lemma execute_write:
  "sound q \<Longrightarrow> execute u now jid gen t q =
    Inr (outcome_write jid gen t (now, u) q, if claim_open jid gen q then 1 else 0)"
  by (simp add: execute_eq outcome_write_eq)

lemma outcome_write_sound:
  assumes "sound q"
  shows "sound (outcome_write jid gen t w q)"
proof -
  have ex: "execute (snd w) (fst w) jid gen t q =
      Inr (outcome_write jid gen t w q, if claim_open jid gen q then 1 else 0)"
    using execute_write[OF assms, of "snd w" "fst w"] by simp
  have "queue_ok (outcome_write jid gen t w q)"
    by (rule update_where_queue_ok[OF _ ex[unfolded execute_def]]) (use assms in auto)
  moreover have "charged (outcome_write jid gen t w q)"
    using assms by (auto simp: outcome_write_eq charged_def list_all_iff)
  ultimately show ?thesis by simp
qed

lemma outcome_write_closes: "sound q \<Longrightarrow> \<not> claim_open jid gen (outcome_write jid gen t w q)"
  by (auto simp: outcome_write_eq claim_open_def list_ex_iff)

lemma outcome_write_noop:
  assumes "sound q" "\<not> claim_open jid gen q"
  shows "outcome_write jid gen t w q = q"
  using assms map_if_none[of "fenced jid gen" "rows q"]
  by (simp add: outcome_write_eq claim_open_def)

lemma find_job_outcome_write:
  assumes "sound q"
  shows "find_job j (outcome_write jid gen t w q) =
    map_option (\<lambda>r. if fenced jid gen r then outcome_row (snd w) (fst w) t r else r) (find_job j q)"
  using assms by (simp add: outcome_write_eq find_job_def find_map_same_id)

text \<open>
  What it means for a worker to hold a claim, apart from the statement's own condition: the job is running
  under exactly that generation.
\<close>

definition held_by :: "job_id \<Rightarrow> nat \<Rightarrow> job_row \<Rightarrow> bool" where
  "held_by jid gen r \<longleftrightarrow> j_id r = jid \<and> j_state r = Running \<and> j_generation r = gen"

definition claim_held :: "job_id \<Rightarrow> nat \<Rightarrow> queue \<Rightarrow> bool" where
  "claim_held jid gen q \<longleftrightarrow> (\<exists>r \<in> set (rows q). held_by jid gen r)"

lemma fenced_held: "row_ok r \<Longrightarrow> fenced jid gen r \<longleftrightarrow> held_by jid gen r"
  by (auto simp: fenced_def held_by_def row_ok_def)

lemma claim_open_held: "sound q \<Longrightarrow> claim_open jid gen q \<longleftrightarrow> claim_held jid gen q"
  by (auto simp: claim_open_def claim_held_def list_ex_iff fenced_held queue_ok_def list_all_iff)

text \<open>
  C8. An outcome write is fenced and exact. On a well-formed queue the statement for a claim never
  fails. It affects one row when the job is running under the claim's generation and none otherwise; the
  affected row is the claim's row with the transition applied, every other job keeps its row, a statement of
  a stale claim leaves the queue as it is even when the job runs under a newer generation, and afterwards the
  claim is no longer held and the queue well-formed.
\<close>

theorem execute_fenced:
  assumes "sound q"
  shows "\<exists>q'. execute u now jid gen t q = Inr (q', if claim_held jid gen q then 1 else 0)
    \<and> sound q' \<and> \<not> claim_held jid gen q'
    \<and> (claim_held jid gen q \<or> q' = q)
    \<and> (\<forall>r. find_job jid q = Some r \<and> j_state r = Running \<and> j_generation r = gen \<longrightarrow>
          find_job jid q' = Some (outcome_row u now t r))
    \<and> (\<forall>j. j \<noteq> jid \<longrightarrow> find_job j q' = find_job j q)"
proof (intro exI[of _ "outcome_write jid gen t (now, u) q"] conjI)
  let ?q' = "outcome_write jid gen t (now, u) q"
  note held = claim_open_held[OF assms, symmetric] and after = outcome_write_sound[OF assms, of jid gen t "(now, u)"]
  show "execute u now jid gen t q = Inr (?q', if claim_held jid gen q then 1 else 0)"
    unfolding held by (rule execute_write[OF assms])
  show "queue_ok ?q'" "charged ?q'" using after by auto
  show "\<not> claim_held jid gen ?q'" using outcome_write_closes[OF assms] claim_open_held[OF after] by blast
  show "claim_held jid gen q \<or> ?q' = q" unfolding held using outcome_write_noop[OF assms] by blast
  have "fenced jid gen r" if "find_job jid q = Some r" "j_state r = Running" "j_generation r = gen" for r
    using that assms fenced_held[of r] find_job_SomeD[OF that(1)] by (auto simp: held_by_def queue_ok_def list_all_iff)
  then show "\<forall>r. find_job jid q = Some r \<and> j_state r = Running \<and> j_generation r = gen \<longrightarrow>
      find_job jid ?q' = Some (outcome_row u now t r)"
    by (simp add: find_job_outcome_write[OF assms])
  show "\<forall>j. j \<noteq> jid \<longrightarrow> find_job j ?q' = find_job j q"
    by (auto simp: find_job_outcome_write[OF assms] fenced_def option.map_comp
        split: option.split dest: find_job_SomeD intro!: option.map_ident_strong)
qed

definition demo_running :: job_row where
  "demo_running = demo_row\<lparr>j_state := Running, j_attempts := 1, j_generation := 7,
     j_claim_expires_at := Some 900\<rparr>"

definition demo_queue :: queue where
  "demo_queue = \<lparr>rows = [demo_running], sequence = 7\<rparr>"

lemmas demo_defs = demo_queue_def demo_running_def demo_row_def new_row_def demo_prepared_def

lemma demo_sound: "queue_ok demo_queue" "charged demo_queue"
  by (simp_all add: demo_defs queue_ok_def charged_def row_ok_def i16_max_def live_keys_def
      claim_generations_def)

theorem execute_fenced_witness:
  "\<exists>q'. execute 0 500 (JobId 1) 7 Release demo_queue = Inr (q', 1)
    \<and> execute 0 500 (JobId 1) 6 Release demo_queue = Inr (demo_queue, 0)"
  using execute_fenced[of demo_queue 0 500 "JobId 1" 7 Release]
    execute_fenced[of demo_queue 0 500 "JobId 1" 6 Release] demo_sound
  by (auto simp: claim_held_def held_by_def demo_defs)

text \<open>
  Writes that close what they act on and do nothing once it is closed: a sequence of them is its
  first member, however many follow. The outcome statements of one claim are such writes.
\<close>

locale fenced_writes =
  fixes wr :: "'w \<Rightarrow> 's \<Rightarrow> 's"
    and openp :: "'s \<Rightarrow> bool"
    and good :: "'s \<Rightarrow> bool"
  assumes good_write: "good s \<Longrightarrow> good (wr w s)"
    and write_closes: "good s \<Longrightarrow> \<not> openp (wr w s)"
    and closed_noop: "good s \<Longrightarrow> \<not> openp s \<Longrightarrow> wr w s = s"
begin

lemma fold_closed: "good s \<Longrightarrow> \<not> openp s \<Longrightarrow> fold wr ws s = s"
  by (induction ws) (simp_all add: closed_noop)

lemma fold_first: "good s \<Longrightarrow> fold wr (w # ws) s = wr w s"
  by (simp add: fold_closed good_write write_closes)

lemma fold_at_most_one: "good s \<Longrightarrow> fold wr ws s = s \<or> (\<exists>w \<in> set ws. fold wr ws s = wr w s)"
  by (cases ws) (auto simp: fold_closed good_write write_closes)

end

interpretation claim: fenced_writes "outcome_write jid gen t" "claim_open jid gen" sound
  for jid gen t
  by unfold_locales
    (simp_all add: outcome_write_sound outcome_write_closes outcome_write_noop)

subsection \<open>Persisting\<close>

text \<open>A completion written as a batch of its own is the single completion.\<close>

lemma complete_batched_execute:
  assumes "sound q"
  shows "complete_batched now jid gen q = execute u now jid gen Complete q"
proof -
  have "outcome_row u now Complete = complete_row now" by (simp add: outcome_row_def fun_eq_iff)
  with execute_eq[OF assms, of u now jid gen Complete] show ?thesis
    by (simp add: complete_batched_def write_batch_def prune_from.simps complete_batch_def execute_def bind_result_def
        applied_flags_def claim_open_def)
qed

lemma send_turn_execute: "sound q \<Longrightarrow> send_turn u now jid gen t q = execute u now jid gen t q"
  by (simp add: send_turn_def complete_batched_execute)

lemma send_write:
  "sound q \<Longrightarrow> send_turn u now jid gen t q =
    Inr (outcome_write jid gen t (now, u) q, if claim_open jid gen q then 1 else 0)"
  by (simp add: send_turn_execute execute_write)

text \<open>The statements of the loop that reach the table, in order.\<close>

fun reached :: "send_event list \<Rightarrow> (micros \<times> rat) list" where
  "reached [] = []"
| "reached (SendFails # es) = reached es"
| "reached (Interrupted w # es) = (case w of None \<Rightarrow> [] | Some w \<Rightarrow> [w])"
| "reached (LostAck now u # es) = (now, u) # reached es"
| "reached (Acked now u # es) = [(now, u)]"

lemma persist_queue:
  "sound q \<Longrightarrow> fst (persist jid gen t es q) = fold (outcome_write jid gen t) (reached es) q"
proof (induction jid gen t es q rule: persist.induct)
  case (5 jid gen t now u es q)
  show ?case
    using 5(2)[OF send_write[OF 5(3)] refl outcome_write_sound[OF 5(3)]] 5(3)
    by (simp add: send_write)
qed (auto simp: send_write outcome_write_eq)

lemma persist_answer:
  "sound q \<Longrightarrow> persist jid gen t es q = (q', d) \<Longrightarrow>
   (d = Applied \<longrightarrow> claim_open jid gen q) \<and> (d \<noteq> Unknown \<longrightarrow> reached es \<noteq> [])"
proof (induction jid gen t es q rule: persist.induct)
  case (5 jid gen t now u es q)
  let ?q = "outcome_write jid gen t (now, u) q"
  have "persist jid gen t es ?q = (q', d)"
    using 5(4) by (simp add: send_write[OF 5(3)])
  then have "d = Applied \<longrightarrow> claim_open jid gen ?q"
    using 5(2)[OF send_write[OF 5(3)] refl outcome_write_sound[OF 5(3)]] by blast
  with outcome_write_closes[OF 5(3)] show ?case by simp
qed (auto simp: send_write split: if_splits)

lemma persist_effect:
  assumes "sound q" and "persist jid gen t es q = (q', d)"
  shows "q' = q \<or> (\<exists>now u. execute u now jid gen t q = Inr (q', 1))"
    and "d = Applied \<longrightarrow> claim_open jid gen q \<and> q' \<noteq> q"
    and "d \<noteq> Unknown \<longrightarrow> \<not> claim_open jid gen q'"
    and "sound q'"
proof -
  have q': "q' = fold (outcome_write jid gen t) (reached es) q"
    using persist_queue[OF assms(1), of jid gen t es] assms(2) by simp
  have one: "q' = q \<or> (\<exists>w. q' = outcome_write jid gen t w q)"
    using claim.fold_at_most_one[OF assms(1), of jid gen t "reached es"] q' by blast
  have ex: "execute (snd w) (fst w) jid gen t q = Inr (outcome_write jid gen t w q, 1)"
    if "claim_open jid gen q" for w
    using that execute_write[OF assms(1), of "snd w" "fst w"] by simp
  have once: "q' = q \<or> (\<exists>now u. execute u now jid gen t q = Inr (q', 1))"
    using one ex outcome_write_noop[OF assms(1), of jid gen t] by metis
  have closed: "\<not> claim_open jid gen q'" if "d \<noteq> Unknown"
  proof -
    have "reached es \<noteq> []" using persist_answer[OF assms] that by blast
    then obtain w ws where "reached es = w # ws" by (cases "reached es") auto
    then show ?thesis
      unfolding q' using claim.fold_first[OF assms(1)] outcome_write_closes[OF assms(1)] by simp
  qed
  have "claim_open jid gen q \<and> q' \<noteq> q" if "d = Applied"
    using persist_answer[OF assms] closed that by auto
  moreover have "sound q'" using one assms(1) outcome_write_sound by blast
  ultimately show "q' = q \<or> (\<exists>now u. execute u now jid gen t q = Inr (q', 1))"
    and "d = Applied \<longrightarrow> claim_open jid gen q \<and> q' \<noteq> q"
    and "d \<noteq> Unknown \<longrightarrow> \<not> claim_open jid gen q'"
    and "sound q'"
    using once closed by blast+
qed



subsection \<open>The batch against single completions\<close>

lemma mset_swap_remove: "i < length xs \<Longrightarrow> mset xs = add_mset (xs ! i) (mset (swap_remove i xs))"
proof -
  assume i: "i < length xs"
  then have xs: "xs = butlast xs @ [last xs]" by (cases xs rule: rev_cases) auto
  show ?thesis
  proof (cases "i < length xs - 1")
    case True
    then have "mset ((butlast xs)[i := last xs]) =
        add_mset (last xs) (mset (butlast xs) - {#butlast xs ! i#})"
      by (simp add: mset_update)
    moreover have "butlast xs ! i \<in># mset (butlast xs)" using True by (simp add: in_set_conv_nth) auto
    moreover have "butlast xs ! i = xs ! i" using True by (simp add: nth_butlast)
    moreover have "mset xs = add_mset (last xs) (mset (butlast xs))" by (subst xs) simp
    ultimately show ?thesis using True by (simp add: swap_remove_def) 
  next
    case False
    then have "xs ! i = last xs" using i by (subst last_conv_nth) (auto intro!: arg_cong[of _ _ "nth xs"])
    moreover have "mset xs = add_mset (last xs) (mset (butlast xs))" by (subst xs) simp
    ultimately show ?thesis using False by (simp add: swap_remove_def)
  qed
qed

lemma take_swap_remove: "i < length xs \<Longrightarrow> take i (swap_remove i xs) = take i xs"
  by (auto simp: swap_remove_def take_butlast butlast_conv_take)

text \<open>The pruning loop keeps exactly the entries that are not to be pruned.\<close>

lemma mset_prune_from:
  "\<forall>x \<in> set (take i xs). \<not> bad x \<Longrightarrow>
   mset (prune_from bad i xs) = filter_mset (\<lambda>x. \<not> bad x) (mset xs)"
proof (induction bad i xs rule: prune_from.induct)
  case (1 bad i xs)
  consider "i < length xs" "bad (xs ! i)" | "i < length xs" "\<not> bad (xs ! i)" | "\<not> i < length xs"
    by blast
  then show ?case
  proof cases
    case 1
    then have "mset (prune_from bad i (swap_remove i xs)) =
        filter_mset (\<lambda>x. \<not> bad x) (mset (swap_remove i xs))"
      using "1.IH"(1) "1.prems" take_swap_remove by metis
    with 1 show ?thesis using mset_swap_remove[OF 1(1)] by (subst prune_from.simps) simp
  next
    case 2
    then have "\<forall>x \<in> set (take (Suc i) xs). \<not> bad x"
      using "1.prems" by (simp add: take_Suc_conv_app_nth)
    with 2 "1.IH"(2) show ?thesis by (subst prune_from.simps) simp
  next
    case 3
    with "1.prems" show ?thesis
      by (subst prune_from.simps) (simp add: filter_mset_eq_conv flip: mset_filter)
  qed
qed

lemma applied_flags_aux:
  "length (fold (\<lambda>position flags. if 1 \<le> position \<and> position - 1 < length flags
                  then flags[position - 1 := True] else flags) ps fl) = length fl
   \<and> (i < length fl \<longrightarrow>
      (fold (\<lambda>position flags. if 1 \<le> position \<and> position - 1 < length flags
              then flags[position - 1 := True] else flags) ps fl) ! i
      = (fl ! i \<or> Suc i \<in> set ps))"
proof (induction ps arbitrary: fl)
  case (Cons p ps)
  show ?case
    using Cons[of "fl[p - 1 := True]"] Cons[of fl]
    by (auto simp: nth_list_update split: if_splits)
qed simp

lemma applied_flags_nth:
  "length (applied_flags n ps) = n" "i < n \<Longrightarrow> applied_flags n ps ! i = (Suc i \<in> set ps)"
  using applied_flags_aux[of ps "replicate n False" i] by (simp_all add: applied_flags_def)

text \<open>Single completions one after the other, each with the number of rows it affected.\<close>

fun complete_each :: "micros \<Rightarrow> (job_id \<times> nat) list \<Rightarrow> queue \<Rightarrow> db_error + queue \<times> nat list" where
  "complete_each now [] q = Inr (q, [])"
| "complete_each now ((jid, gen) # cs) q =
     bind_result (complete now jid gen q) (\<lambda>(q1, n).
       bind_result (complete_each now cs q1) (\<lambda>(q2, ns). Inr (q2, n # ns)))"

lemma complete_write:
  assumes "sound q"
  shows "complete now jid gen q =
    Inr (outcome_write jid gen Complete (now, 0) q, if claim_open jid gen q then 1 else 0)"
proof -
  have "outcome_row 0 now Complete = complete_row now" by (simp add: outcome_row_def fun_eq_iff)
  then have "complete now jid gen q = execute 0 now jid gen Complete q"
    by (simp add: complete_def execute_def)
  with execute_write[OF assms] show ?thesis by simp
qed

definition listed :: "(job_id \<times> nat) list \<Rightarrow> job_row \<Rightarrow> bool" where
  "listed cs r = list_ex (\<lambda>(jid, gen). fenced jid gen r) cs"

lemma complete_each_eq:
  "sound q \<Longrightarrow> distinct cs \<Longrightarrow> complete_each now cs q =
     Inr (q\<lparr>rows := map (\<lambda>r. if listed cs r then complete_row now r else r) (rows q)\<rparr>,
          map (\<lambda>(jid, gen). if claim_open jid gen q then 1 else 0) cs)"
proof (induction cs arbitrary: q)
  case Nil
  then show ?case by (simp add: listed_def)
next
  case (Cons c cs)
  obtain jid gen where c: "c = (jid, gen)" by (cases c)
  let ?q = "outcome_write jid gen Complete (now, 0) q"
  have rows: "?q = q\<lparr>rows := map (\<lambda>r. if fenced jid gen r then complete_row now r else r) (rows q)\<rparr>"
    using Cons.prems(1) by (simp add: outcome_write_eq outcome_row_def)
  have closed: "\<not> listed cs (complete_row now r)" for r
    by (auto simp: listed_def list_ex_iff fenced_def complete_row_def)
  have all: "map (\<lambda>r. if listed cs r then complete_row now r else r) (rows ?q) =
      map (\<lambda>r. if listed (c # cs) r then complete_row now r else r) (rows q)"
    unfolding rows using closed by (auto simp: c listed_def)
  have flags: "claim_open i g ?q = claim_open i g q" if "(i, g) \<in> set cs" for i g
  proof -
    have "(i, g) \<noteq> (jid, gen)" using Cons.prems(2) that c by auto
    then have "fenced i g (if fenced jid gen r then complete_row now r else r) = fenced i g r" for r
      by (auto simp: fenced_def complete_row_def)
    then show ?thesis by (simp add: claim_open_def rows list_ex_map_same)
  qed
  have "complete_each now cs ?q = Inr (?q\<lparr>rows := map (\<lambda>r. if listed cs r then complete_row now r else r)
      (rows ?q)\<rparr>, map (\<lambda>(jid, gen). if claim_open jid gen ?q then 1 else 0) cs)"
    using Cons.IH[OF outcome_write_sound[OF Cons.prems(1)]] Cons.prems(2) by simp
  moreover have "?q\<lparr>rows := x\<rparr> = q\<lparr>rows := x\<rparr>" for x by (simp add: rows)
  moreover have "map (\<lambda>(jid, gen). if claim_open jid gen ?q then 1 else 0) cs =
      map (\<lambda>(jid, gen). if claim_open jid gen q then 1 else (0::nat)) cs"
    using flags by auto
  ultimately show ?case
    using complete_write[OF Cons.prems(1)] all by (simp add: c)
qed

lemma complete_batch_eq:
  assumes "sound q" "distinct cs"
  shows "complete_batch now cs q =
     Inr (q\<lparr>rows := map (\<lambda>r. if listed cs r then complete_row now r else r) (rows q)\<rparr>,
          map Suc (filter (\<lambda>i. claim_open (fst (cs ! i)) (snd (cs ! i)) q) [0..<length cs]))"
proof -
  have row: "row_ok (complete_row now r)" "live r" if "listed cs r" "r \<in> set (rows q)" for r
    using that assms(1)
    by (auto simp: listed_def list_ex_iff fenced_def complete_row_def row_ok_def queue_ok_def
        list_all_iff live_def)
  have "update_where (listed cs) (complete_row now) q =
      Inr (q\<lparr>rows := map (\<lambda>r. if listed cs r then complete_row now r else r) (rows q)\<rparr>,
           length (filter (listed cs) (rows q)))"
    using assms(1) row by (intro update_where_succeeds) (auto simp: complete_row_def)
  moreover have "cs ! i \<notin> set (take i cs)" if "i < length cs" for i
    using assms(2) that by (auto simp: in_set_conv_nth nth_eq_iff_index_eq)
  ultimately show ?thesis
    by (auto simp: complete_batch_def listed_def[abs_def] claim_open_def intro!: filter_cong)
qed

text \<open>
  Batching completions changes nothing but their number of statements. For a batch of
  distinct claims, \<open>write_batch\<close> keeps exactly the entries whose waiter is still there and whose
  deadline has not passed; it succeeds, leaves the queue that completing these entries one
  statement at a time leaves, and answers each waiter with what its own statement would have
  reported.
\<close>

lemma write_batch_as_single:
  assumes "sound q"
    and "kept = prune_from (\<lambda>e. qc_closed e \<or> past e) 0 batch"
    and "distinct (map (\<lambda>e. (qc_id e, qc_generation e)) batch)"
  shows "mset kept = filter_mset (\<lambda>e. \<not> qc_closed e \<and> \<not> past e) (mset batch)
    \<and> (\<exists>q' ns. complete_each now (map (\<lambda>e. (qc_id e, qc_generation e)) kept) q = Inr (q', ns)
          \<and> write_batch now past batch q = Inr (q', zip kept (map (\<lambda>n. n = 1) ns)))"
proof -
  let ?key = "\<lambda>e. (qc_id e, qc_generation e)"
  let ?cs = "map ?key kept"
  have kept: "mset kept = filter_mset (\<lambda>e. \<not> qc_closed e \<and> \<not> past e) (mset batch)"
    unfolding assms(2) by (subst mset_prune_from) simp_all
  have "distinct (map ?key (filter (\<lambda>e. \<not> qc_closed e \<and> \<not> past e) batch))"
    using assms(3) by (simp add: distinct_map_filter)
  moreover have "mset ?cs = mset (map ?key (filter (\<lambda>e. \<not> qc_closed e \<and> \<not> past e) batch))"
    using kept by simp
  ultimately have distinct: "distinct ?cs" by (metis mset_eq_imp_distinct_iff)
  let ?ns = "map (\<lambda>(jid, gen). if claim_open jid gen q then 1 else (0::nat)) ?cs"
  have flags: "applied_flags (length kept)
      (map Suc (filter (\<lambda>i. claim_open (fst (?cs ! i)) (snd (?cs ! i)) q) [0..<length ?cs]))
      = map (\<lambda>n. n = 1) ?ns"
    by (rule nth_equalityI) (auto simp: applied_flags_nth)
  note single = complete_each_eq[OF assms(1) distinct, of now]
  have "write_batch now past batch q = Inr (q\<lparr>rows := map (\<lambda>r. if listed ?cs r
      then complete_row now r else r) (rows q)\<rparr>, zip kept (map (\<lambda>n. n = 1) ?ns))"
  proof (cases "kept = []")
    case True
    then show ?thesis using assms(2) by (simp add: write_batch_def listed_def)
  next
    case False
    then show ?thesis
      using flags unfolding write_batch_def assms(2)[symmetric] Let_def
      by (simp add: complete_batch_eq[OF assms(1) distinct])
  qed
  with single kept show ?thesis by blast
qed

definition demo_entry :: "nat \<Rightarrow> bool \<Rightarrow> queued_completion" where
  "demo_entry gen gone = \<lparr>qc_id = JobId 1, qc_generation = gen, qc_deadline = 10, qc_closed = gone\<rparr>"

theorem write_batch_as_single_witness:
  "\<exists>q' ns. complete_each 500 [(JobId 1, 7)] demo_queue = Inr (q', ns)
     \<and> write_batch 500 (\<lambda>e. qc_deadline e \<le> 5) [demo_entry 6 True, demo_entry 7 False] demo_queue
         = Inr (q', zip [demo_entry 7 False] (map (\<lambda>n. n = 1) ns))"
proof -
  have "prune_from (\<lambda>e. qc_closed e \<or> qc_deadline e \<le> 5) 0 [demo_entry 6 True, demo_entry 7 False]
      = [demo_entry 7 False]"
    by (simp add: prune_from.simps swap_remove_def demo_entry_def)
  then show ?thesis
    using write_batch_as_single[of demo_queue "[demo_entry 7 False]" "\<lambda>e. qc_deadline e \<le> 5"
        "[demo_entry 6 True, demo_entry 7 False]" 500] demo_sound
    by (auto simp: demo_entry_def)
qed

subsection \<open>Attempts\<close>

lemma drive_forced:
  assumes "force_at env = Some f" "f \<le> attempt_deadline"
    and "\<And>t r. natural_finish env = Some (t, r) \<Longrightarrow> f < t"
  shows "drive env attempt_deadline local = drive_cancelled env local f Cancelled"
  using assms by (auto simp: drive_def Let_def min_def split: option.splits)

lemma drive_cancelled_cases:
  assumes "drive_cancelled env local cancel_at reason = Some e"
  shows "e = reason \<or> (e = Success \<and> (\<exists>t. cancelled_finish env = Some (t, HandlerOk)))"
  using assms
  by (auto simp: drive_cancelled_def Let_def ended_after_cancel_def split: option.splits if_splits)

text \<open>
  A forced drain refunds the attempt. When the drain is forced before the handler finished and
  before its deadline, the attempt can only end as a success the handler itself reported, as a
  cancellation, or unknown; an error, a snooze or a panic of the cancelled handler does not
  count. Its queue transition is then completion or release, and a release gives the attempt back
  and keeps the job's place in claim order.
\<close>

lemma forced_drain_refunds:
  assumes "force_at env = Some f" "f \<le> attempt_deadline"
    and "\<And>t r. natural_finish env = Some (t, r) \<Longrightarrow> f < t"
    and "drive env attempt_deadline local = Some e"
  shows "(map_outcome fmt kind n pol e = Complete \<and> (\<exists>t. cancelled_finish env = Some (t, HandlerOk)))
    \<or> (map_outcome fmt kind n pol e = Release
        \<and> j_attempts (outcome_row u now Release r) = j_attempts r - 1
        \<and> j_not_before (outcome_row u now Release r) = j_not_before r
        \<and> j_errors (outcome_row u now Release r) = j_errors r
        \<and> j_state (outcome_row u now Release r) = Pending)"
proof -
  have "drive_cancelled env local f Cancelled = Some e"
    using drive_forced[OF assms(1-3)] assms(4) by simp
  from drive_cancelled_cases[OF this] show ?thesis
    by (auto simp: map_outcome_def outcome_row_def)
qed

definition demo_env :: attempt_env where
  "demo_env = \<lparr>natural_finish = None, force_at = Some 1000,
     cancelled_finish = Some (1500, HandlerErr \<lparr>disposition = Permanent, summary_text = []\<rparr>),
     cleanup_deadline = None\<rparr>"

lemma demo_env_drive: "drive demo_env 5000 9000 = Some Cancelled"
  by (simp add: drive_def drive_cancelled_def demo_env_def Let_def cleanup_ended_at_def
      instant_checked_add_def COOPERATIVE_GRACE_def time_ranges ended_after_cancel_def)

theorem forced_drain_refunds_witness:
  "map_outcome (\<lambda>_. []) ''mail.send'' 1 policy_default Cancelled = Release
   \<and> j_attempts (outcome_row 0 0 Release demo_running) = 0"
  using forced_drain_refunds[of demo_env 1000 5000 9000 Cancelled "\<lambda>_. []" "''mail.send''" 1 policy_default
      0 0 demo_running] demo_env_drive
  by (simp add: demo_env_def demo_running_def map_outcome_def)

lemma map_outcome_Release: "map_outcome fmt kind n pol e = Release \<longleftrightarrow> e = Cancelled"
  by (cases e) (auto simp: map_outcome_def retry_def Let_def split: disposition.splits)

text \<open>
  A supervised attempt writes at most its own outcome and is accounted for. On a well-formed
  queue, one run of the supervisor of a registered kind retires, leaves the queue as it was or
  with one application of the transition its end maps to, on its own claim. It counts one known
  result or one cancellation, or else an unknown end, which writes nothing; and it counts a
  release only with a cancellation whose write settled its open claim.
\<close>

lemma run_attempt_accounted:
  assumes "sound q" "registry_get reg kind = Some entry"
    and "run_attempt fmt reg kind jid gen n started local prep env events (q, c) = ((q', c'), retired)"
  shows "retired \<and> sound q'
    \<and> (q' = q \<or> (\<exists>e now u. execute u now jid gen (map_outcome fmt kind n (reg_policy entry) e) q
                    = Inr (q', 1)))
    \<and> (known_results c' + cancelled_count c' = Suc (known_results c + cancelled_count c)
         \<or> (known_results c' + cancelled_count c' = known_results c + cancelled_count c
             \<and> uncertain c' = Suc (uncertain c) \<and> q' = q))
    \<and> (released c' = released c \<or>
         (released c' = Suc (released c) \<and> cancelled_count c' = Suc (cancelled_count c)
          \<and> claim_open jid gen q \<and> \<not> claim_open jid gen q'))"
proof -
  let ?uncertain = "((q, c\<lparr>uncertain := Suc (uncertain c)\<rparr>), True)"
  let ?deadline = "min (case instant_checked_add started (timeout (reg_policy entry)) of
      None \<Rightarrow> local | Some t \<Rightarrow> t) local"
  let ?fin = "case prepare_handler prep of Inl en \<Rightarrow> Some en | Inr _ \<Rightarrow> drive env ?deadline local"
  consider "((q', c'), retired) = ?uncertain" | e where "\<not> attempt_expired env local started" "?fin = Some e"
    using assms(2,3) by (cases "attempt_expired env local started"; cases ?fin)
      (auto simp: run_attempt_def Let_def)
  then show ?thesis
  proof cases
    case 1
    then show ?thesis using assms(1) by auto
  next
    case (2 e)
    let ?t = "map_outcome fmt kind n (reg_policy entry) e"
    obtain q1 d where p: "persist jid gen ?t events q = (q1, d)" by fastforce
    let ?c1 = "if ?t = Release then c\<lparr>cancelled_count := Suc (cancelled_count c)\<rparr>
               else c\<lparr>known_results := Suc (known_results c)\<rparr>"
    have run: "retired" "q' = q1" "c' = (if d = Applied \<and> ?t = Release
        then ?c1\<lparr>released := Suc (released ?c1)\<rparr>
        else if d = Unknown then ?c1\<lparr>uncertain := Suc (uncertain ?c1)\<rparr> else ?c1)"
      using 2 p assms(2,3) by (simp_all add: run_attempt_def Let_def)
    note once = persist_effect[OF assms(1) p, folded run(2)]
    have "q' = q \<or> (\<exists>e now u. execute u now jid gen (map_outcome fmt kind n (reg_policy entry) e) q
        = Inr (q', 1))"
      using once(1) by blast
    moreover have "released c' = released c \<or>
         (released c' = Suc (released c) \<and> cancelled_count c' = Suc (cancelled_count c)
          \<and> claim_open jid gen q \<and> \<not> claim_open jid gen q')"
      using once(2,3) unfolding run(3) by auto
    moreover have "known_results c' + cancelled_count c' = Suc (known_results c + cancelled_count c)"
      unfolding run(3) by auto
    ultimately show ?thesis using run(1) once(4) by blast
  qed
qed

definition demo_registry :: registry where
  "demo_registry = register [] ''mail.send'' policy_default"

definition zero_counters :: counters where
  "zero_counters = \<lparr>known_results = 0, cancelled_count = 0, released = 0, uncertain = 0\<rparr>"

theorem run_attempt_accounted_witness:
  "\<exists>q' c' retired. run_attempt (\<lambda>_. []) demo_registry ''mail.send'' (JobId 1) 7 1 0 9000 PreparePanic
      demo_env [LostAck 500 0, Acked 501 0] (demo_queue, zero_counters) = ((q', c'), retired)
    \<and> retired \<and> sound q' \<and> released c' = 0"
proof -
  let ?r = "run_attempt (\<lambda>_. []) demo_registry ''mail.send'' (JobId 1) 7 1 0 9000 PreparePanic
      demo_env [LostAck 500 0, Acked 501 0] (demo_queue, zero_counters)"
  obtain q' c' retired where r: "?r = ((q', c'), retired)" by (metis surj_pair)
  have get: "registry_get demo_registry ''mail.send'' =
      Some \<lparr>reg_name = ''mail.send'', reg_policy = policy_default\<rparr>"
    by (simp add: registry_get_def demo_registry_def register_def)
  have "retired \<and> sound q' \<and> (released c' = 0 \<or> cancelled_count c' = Suc 0)"
    using run_attempt_accounted[OF _ get r] demo_sound by (auto simp: zero_counters_def)
  moreover have "cancelled_count c' = 0"
    using r by (auto simp: run_attempt_def get attempt_expired_def demo_env_def zero_counters_def
        prepare_handler_def map_outcome_Release Let_def split: prod.splits if_splits)
  ultimately show ?thesis using r by auto
qed

end
