(* ===== verification/JobClaim.thy ===== *)
theory JobClaim
  imports JobAttempt
begin

text \<open>
  \<open>crates/infra-jobs/src/claim.rs\<close>: the claim statement, the policy it binds, how its rows become
  attempts, and the bookkeeping of one round of the claim loop, with the constants of
  \<open>engine.rs\<close> it uses.

  The claim statement is modelled clause by clause: the per-kind scans, the ranking over both
  scans, the final pick and the update. Rows that other sessions lock are the set \<open>locked\<close>, which
  the scans pass over. The order in which the update draws values of the sequence is not
  specified by the statement; the table order is taken.
\<close>

subsection \<open>Constants\<close>

definition POLL_INTERVAL :: duration where "POLL_INTERVAL = from_secs 1"
definition LEASE_RESERVE :: duration where "LEASE_RESERVE = from_secs 60"
definition CANCEL_MARGIN :: duration where "CANCEL_MARGIN = from_secs 2"
definition CLAIM_COOLDOWN :: duration where "CLAIM_COOLDOWN = from_millis 25"

lemmas claim_constants = POLL_INTERVAL_def LEASE_RESERVE_def CANCEL_MARGIN_def CLAIM_COOLDOWN_def

subsection \<open>The bound policy\<close>

record policy_bind =
  pb_kind :: string
  pb_max_attempts :: nat
  pb_timeout_micros :: micros
  pb_claim_limit :: nat

text \<open>\<open>i64::try_from(..)\<close> of an unsigned count, with the fallback of each caller.\<close>

definition as_i64 :: "nat \<Rightarrow> nat" where
  "as_i64 n = (if n \<le> i64_max then n else 1)"

definition timeout_micros :: "duration \<Rightarrow> micros" where
  "timeout_micros d = (if as_micros d \<le> i64_max then as_micros d else i64_max)"

definition lease_reserve_micros :: micros where
  "lease_reserve_micros = (if as_micros LEASE_RESERVE \<le> i64_max then as_micros LEASE_RESERVE else i64_max)"

text \<open>\<open>free\<close> gives the available permits of a kind's \<open>max_running\<close> semaphore, if it has one.\<close>

definition policy_bind_of :: "(string \<Rightarrow> nat option) \<Rightarrow> nat \<Rightarrow> registered \<Rightarrow> policy_bind" where
  "policy_bind_of free requested e =
     \<lparr>pb_kind = reg_name e,
      pb_max_attempts = (if max_attempts (reg_policy e) \<le> i16_max then max_attempts (reg_policy e)
                         else i16_max),
      pb_timeout_micros = timeout_micros (timeout (reg_policy e)),
      pb_claim_limit = (case free (reg_name e) of
                          None \<Rightarrow> requested
                        | Some permits \<Rightarrow> min requested (as_i64 permits))\<rparr>"

definition policy_binds :: "registry \<Rightarrow> (string \<Rightarrow> nat option) \<Rightarrow> nat \<Rightarrow> policy_bind list" where
  "policy_binds reg free requested = map (policy_bind_of free requested) reg"

subsection \<open>The claim statement\<close>

definition due :: "micros \<Rightarrow> job_row \<Rightarrow> bool" where
  "due now r = (j_state r = Pending \<and> j_not_before r \<le> now)"

definition lease_expired :: "micros \<Rightarrow> job_row \<Rightarrow> bool" where
  "lease_expired now r =
     (j_state r = Running \<and> (case j_claim_expires_at r of None \<Rightarrow> False | Some t \<Rightarrow> t \<le> now))"

definition claim_key :: "job_row \<Rightarrow> micros \<times> job_id" where
  "claim_key r = (j_not_before r, j_id r)"

text \<open>One lateral scan: \<open>ORDER BY not_before, id LIMIT claim_limit FOR UPDATE SKIP LOCKED\<close>.\<close>

definition scan ::
  "(job_row \<Rightarrow> bool) \<Rightarrow> job_id set \<Rightarrow> policy_bind \<Rightarrow> job_row list \<Rightarrow> job_row list" where
  "scan p locked b rs =
     take (pb_claim_limit b) (sort_key claim_key
       (filter (\<lambda>r. p r \<and> j_kind r = pb_kind b \<and> j_id r \<notin> locked) rs))"

definition candidates ::
  "micros \<Rightarrow> job_id set \<Rightarrow> policy_bind list \<Rightarrow> job_row list \<Rightarrow> (job_row \<times> nat) list" where
  "candidates now locked binds rs =
     concat (map (\<lambda>b. map (\<lambda>r. (r, pb_claim_limit b)) (scan (due now) locked b rs)) binds)
     @ concat (map (\<lambda>b. map (\<lambda>r. (r, pb_claim_limit b)) (scan (lease_expired now) locked b rs)) binds)"

text \<open>\<open>row_number() OVER (PARTITION BY kind ORDER BY not_before, id)\<close>.\<close>

definition position :: "(job_row \<times> nat) list \<Rightarrow> job_row \<Rightarrow> nat" where
  "position cs r = length (filter (\<lambda>(d, _). j_kind d = j_kind r \<and> claim_key d \<le> claim_key r) cs)"

definition picked ::
  "micros \<Rightarrow> job_id set \<Rightarrow> policy_bind list \<Rightarrow> nat \<Rightarrow> job_row list \<Rightarrow> job_row list" where
  "picked now locked binds requested rs =
     (let cs = candidates now locked binds rs
      in take requested (sort_key claim_key
           (map fst (filter (\<lambda>(r, limit). position cs r \<le> limit) cs))))"

definition rescued :: ustr where "rescued = ascii ''lease expired; rescued''"

text \<open>The \<open>SET\<close> clause, for the policy of the row's kind and a drawn generation.\<close>

definition claim_row :: "micros \<Rightarrow> nat \<Rightarrow> policy_bind \<Rightarrow> nat \<Rightarrow> job_row \<Rightarrow> job_row" where
  "claim_row now worker b gen r =
     (let spent = (j_attempts r \<ge> int (pb_max_attempts b)); expired = lease_expired now r
      in r\<lparr>j_state := (if spent then Failed else Running),
           j_failure_reason := (if spent then Some Exhausted else None),
           j_finished_at := (if spent then Some now else None),
           j_claim_expires_at := (if spent then None
              else Some (now + pb_timeout_micros b + lease_reserve_micros)),
           j_attempts := (if spent then j_attempts r else j_attempts r + 1),
           j_attempted_by := (if spent then j_attempted_by r else Some worker),
           j_error_summary := (if expired then Some rescued
              else if spent then (case j_error_summary r of
                                    None \<Rightarrow> Some (ascii ''attempt budget spent'')
                                  | Some s \<Rightarrow> Some s)
              else j_error_summary r),
           j_errors := (if expired then j_errors r @ [error_entry_of now r rescued]
              else j_errors r),
           j_generation := gen\<rparr>)"

definition chosen :: "micros \<Rightarrow> policy_bind list \<Rightarrow> job_id list \<Rightarrow> job_row \<Rightarrow> policy_bind option" where
  "chosen now binds ids r =
     (if j_id r \<in> set ids \<and> (due now r \<or> lease_expired now r)
      then find (\<lambda>b. pb_kind b = j_kind r) binds else None)"

fun claim_rows ::
  "micros \<Rightarrow> nat \<Rightarrow> (job_row \<Rightarrow> policy_bind option) \<Rightarrow> nat \<Rightarrow> job_row list
   \<Rightarrow> job_row list \<times> nat \<times> job_row list" where
  "claim_rows now worker ch sq [] = ([], sq, [])"
| "claim_rows now worker ch sq (r # rs) =
     (case ch r of
        None \<Rightarrow> (let (rs', sq', out) = claim_rows now worker ch sq rs in (r # rs', sq', out))
      | Some b \<Rightarrow>
          (let r' = claim_row now worker b (Suc sq) r;
               (rs', sq', out) = claim_rows now worker ch (Suc sq) rs
           in (r' # rs', sq', r' # out)))"

text \<open>The statement: the new queue and the rows it returns.\<close>

definition claim ::
  "micros \<Rightarrow> nat \<Rightarrow> job_id set \<Rightarrow> policy_bind list \<Rightarrow> nat \<Rightarrow> queue \<Rightarrow> db_error + queue \<times> job_row list" where
  "claim now worker locked binds requested q =
     (let ids = map j_id (picked now locked binds requested (rows q));
          (rs', sq', out) = claim_rows now worker (chosen now binds ids) (sequence q) (rows q)
      in bind_result (install q rs' sq') (\<lambda>q'. Inr (q', out)))"

subsection \<open>Drawn rows\<close>

record claimed =
  cl_id :: job_id
  cl_generation :: nat
  cl_kind :: string
  cl_attempt :: nat
  cl_payload :: string
  cl_trace_context :: "string option"
  cl_trace_state :: "string option"

datatype drawn =
    DrawnRunning claimed (drawn_timeout: duration) (queue_wait: int)
  | DrawnExhausted job_id string nat "ustr option"

datatype decode_error = UnknownJobKind | AttemptDoesNotFit | RunningClaimHasNoPayload

text \<open>The returned columns are read off the updated row; the wait is in microseconds.\<close>

definition into_drawn :: "registry \<Rightarrow> micros \<Rightarrow> job_row \<Rightarrow> decode_error + drawn" where
  "into_drawn reg now r =
     (let exhausted = (j_state r = Failed);
          payload = (if j_state r = Running then Some (j_payload r) else None)
      in case registry_get reg (j_kind r) of
           None \<Rightarrow> Inl UnknownJobKind
         | Some e \<Rightarrow>
             if \<not> (0 \<le> j_attempts r \<and> j_attempts r \<le> int u16_max) then Inl AttemptDoesNotFit
             else if exhausted
               then Inr (DrawnExhausted (j_id r) (reg_name e) (nat (j_attempts r)) (j_error_summary r))
             else case payload of
                    None \<Rightarrow> Inl RunningClaimHasNoPayload
                  | Some p \<Rightarrow> Inr (DrawnRunning
                      \<lparr>cl_id = j_id r, cl_generation = j_generation r, cl_kind = reg_name e,
                       cl_attempt = nat (j_attempts r), cl_payload = p,
                       cl_trace_context = j_trace_context r, cl_trace_state = j_trace_state r\<rparr>
                      (timeout (reg_policy e)) (int now - int (j_not_before r))))"

datatype claim_round = RoundKnown instant "drawn list" | RoundFailed

text \<open>
  \<open>send_claim\<close>: the statement commits on its own, so a row that does not decode fails the round
  after the rows were claimed. \<open>answered\<close> tells whether the acknowledgement came in time.
\<close>

definition send_claim ::
  "registry \<Rightarrow> (string \<Rightarrow> nat option) \<Rightarrow> micros \<Rightarrow> nat \<Rightarrow> job_id set \<Rightarrow> instant \<Rightarrow> bool \<Rightarrow> nat \<Rightarrow> queue
   \<Rightarrow> queue \<times> claim_round" where
  "send_claim reg free now worker locked sent answered requested q =
     (case claim now worker locked (policy_binds reg free requested) requested q of
        Inl _ \<Rightarrow> (q, RoundFailed)
      | Inr (q', out) \<Rightarrow>
          (case collect_results (map (into_drawn reg now) out) of
             Inl _ \<Rightarrow> (q', RoundFailed)
           | Inr ds \<Rightarrow> (q', if answered then RoundKnown sent ds else RoundFailed)))"

subsection \<open>Dispatching a round\<close>

definition local_deadline :: "instant \<Rightarrow> duration \<Rightarrow> instant" where
  "local_deadline sent d =
     (case instant_checked_add sent d of
        None \<Rightarrow> sent
      | Some t1 \<Rightarrow>
          (case instant_checked_add t1 LEASE_RESERVE of
             None \<Rightarrow> sent
           | Some t2 \<Rightarrow>
               (case instant_checked_sub t2 CANCEL_MARGIN of None \<Rightarrow> sent | Some t3 \<Rightarrow> t3)))"

text \<open>
  The permits of the round, the permits of each limited kind, and the supervisors spawned with
  their deadline and whether they hold a place of their kind.
\<close>

record dispatch_state =
  permits :: nat
  kind_free :: "string \<Rightarrow> nat option"
  spawned :: "(claimed \<times> instant \<times> bool) list"
  exhausted_seen :: "job_id list"

definition kind_slot_take ::
  "registry \<Rightarrow> string \<Rightarrow> (string \<Rightarrow> nat option) \<Rightarrow> (string \<Rightarrow> nat option) \<times> bool" where
  "kind_slot_take reg kind free =
     (case registry_get reg kind of
        None \<Rightarrow> (free, False)
      | Some e \<Rightarrow>
          (case free (reg_name e) of
             None \<Rightarrow> (free, False)
           | Some n \<Rightarrow> if n = 0 then (free, False) else (free(reg_name e \<mapsto> n - 1), True)))"

fun dispatch_known :: "registry \<Rightarrow> instant \<Rightarrow> drawn list \<Rightarrow> dispatch_state \<Rightarrow> dispatch_state" where
  "dispatch_known reg sent [] s = s"
| "dispatch_known reg sent (DrawnExhausted jid kind n err # ds) s =
     dispatch_known reg sent ds (s\<lparr>exhausted_seen := exhausted_seen s @ [jid]\<rparr>)"
| "dispatch_known reg sent (DrawnRunning c d w # ds) s =
     (if permits s = 0 then s
      else (let (free', held) = kind_slot_take reg (cl_kind c) (kind_free s)
            in dispatch_known reg sent ds
                 (s\<lparr>permits := permits s - 1, kind_free := free',
                    spawned := spawned s @ [(c, local_deadline sent d, held)]\<rparr>)))"

datatype next_claim = Now | Soon | Idle

definition finish_round ::
  "registry \<Rightarrow> nat \<Rightarrow> claim_round \<Rightarrow> dispatch_state \<Rightarrow> dispatch_state \<times> next_claim" where
  "finish_round reg requested rnd s =
     (case rnd of
        RoundFailed \<Rightarrow> (s, Idle)
      | RoundKnown sent ds \<Rightarrow>
          (dispatch_known reg sent ds s,
           if length ds = requested then Now else if ds = [] then Idle else Soon))"

text \<open>\<open>take_slots\<close>: one awaited permit and all others that are free.\<close>

definition take_slots :: "nat \<Rightarrow> nat option" where
  "take_slots available =
     (if available = 0 then None
      else Some (if available - 1 < 2 ^ 32 then available else 1))"

text \<open>Dropping a \<open>KindSlot\<close> returns its permit and wakes the loop when the kind was full.\<close>

definition kind_slot_drop :: "string \<Rightarrow> (string \<Rightarrow> nat option) \<Rightarrow> (string \<Rightarrow> nat option) \<times> bool" where
  "kind_slot_drop kind free =
     (case free kind of
        None \<Rightarrow> (free, False)
      | Some n \<Rightarrow> (free(kind \<mapsto> Suc n), n = 0))"

subsection \<open>The pick\<close>

text \<open>
  The reference selection: the jobs that may be claimed, each only while fewer jobs of its kind
  than the kind's limit come before it, in claim order, up to the number requested.
\<close>

definition eligible :: "micros \<Rightarrow> job_id set \<Rightarrow> policy_bind list \<Rightarrow> job_row \<Rightarrow> bool" where
  "eligible now locked binds r =
     ((due now r \<or> lease_expired now r) \<and> j_id r \<notin> locked \<and> j_kind r \<in> set (map pb_kind binds))"

definition limit_of :: "policy_bind list \<Rightarrow> string \<Rightarrow> nat" where
  "limit_of binds kind = (case find (\<lambda>b. pb_kind b = kind) binds of
     None \<Rightarrow> 0 | Some b \<Rightarrow> pb_claim_limit b)"

definition best_jobs ::
  "micros \<Rightarrow> job_id set \<Rightarrow> policy_bind list \<Rightarrow> nat \<Rightarrow> job_row list \<Rightarrow> job_row list" where
  "best_jobs now locked binds requested rs =
     (let es = filter (eligible now locked binds) rs
      in take requested (sort_key claim_key
           (filter (\<lambda>r. length (filter (\<lambda>s. j_kind s = j_kind r \<and> claim_key s < claim_key r) es)
                         < limit_of binds (j_kind r)) es)))"

lemma filter_less_take_sorted:
  fixes k :: "'a \<Rightarrow> 'b::linorder"
  shows "sorted (map k xs) \<Longrightarrow>
    filter (\<lambda>x. k x < c) (take n xs) = take n (filter (\<lambda>x. k x < c) xs)"
proof (induction xs arbitrary: n)
  case (Cons x xs)
  show ?case
  proof (cases "k x < c")
    case True
    with Cons show ?thesis by (cases n) simp_all
  next
    case False
    then have "\<forall>y \<in> set xs. \<not> k y < c" using Cons.prems by auto
    then have "filter (\<lambda>x. k x < c) (x # xs) = []" "filter (\<lambda>x. k x < c) (take n (x # xs)) = []"
      using False by (auto simp: filter_empty_conv dest!: in_set_takeD)
    then show ?thesis by simp
  qed
qed simp

lemma length_filter_sort_key:
  "length (filter P (sort_key k xs)) = length (filter P xs)"
  by (metis mset_filter mset_sort size_mset)

lemma distinct_map_sort: "distinct (map f (sort_key k xs)) = distinct (map f xs)"
  by (rule mset_eq_imp_distinct_iff) simp

text \<open>Membership in the first \<open>n\<close> of a sorted list, by the number of smaller elements.\<close>

lemma mem_take_sort_iff:
  fixes k :: "'a \<Rightarrow> 'b::linorder"
  assumes "distinct (map k xs)"
  shows "x \<in> set (take n (sort_key k xs)) \<longleftrightarrow>
    x \<in> set xs \<and> length (filter (\<lambda>y. k y < k x) xs) < n"
proof -
  let ?s = "sort_key k xs"
  have dist: "distinct (map k ?s)"
    using assms by (simp add: distinct_map_sort)
  have before: "length (filter (\<lambda>y. k y < k (?s ! i)) ?s) = i" if i: "i < length ?s" for i
  proof -
    have less: "k (?s ! j) < k (?s ! i)" if "j < i" for j
      using sorted_nth_mono[of "map k ?s" j i] nth_eq_iff_index_eq[OF dist, of j i] that i
      by (simp add: le_less)
    have geq: "\<not> k (?s ! j) < k (?s ! i)" if "i \<le> j" "j < length ?s" for j
      using sorted_nth_mono[of "map k ?s" i j] that by simp
    have "filter (\<lambda>y. k y < k (?s ! i)) (take i ?s) = take i ?s"
      using less i by (auto simp: filter_id_conv in_set_conv_nth)
    moreover have "filter (\<lambda>y. k y < k (?s ! i)) (drop i ?s) = []"
      using geq by (auto simp: filter_empty_conv in_set_conv_nth)
    moreover have "filter (\<lambda>y. k y < k (?s ! i)) ?s =
        filter (\<lambda>y. k y < k (?s ! i)) (take i ?s) @ filter (\<lambda>y. k y < k (?s ! i)) (drop i ?s)"
      by (metis append_take_drop_id filter_append)
    ultimately show ?thesis using i by simp
  qed
  have "x \<in> set (take n ?s) \<longleftrightarrow> (\<exists>i < length ?s. i < n \<and> ?s ! i = x)"
    by (auto simp: in_set_conv_nth)
  also have "\<dots> \<longleftrightarrow> (\<exists>i < length ?s. ?s ! i = x \<and> length (filter (\<lambda>y. k y < k x) ?s) < n)"
    using before by auto
  also have "\<dots> \<longleftrightarrow> x \<in> set ?s \<and> length (filter (\<lambda>y. k y < k x) ?s) < n"
    by (metis in_set_conv_nth)
  finally show ?thesis by (simp add: length_filter_sort_key)
qed

text \<open>
  One kind: the two scans keep enough rows, and ranking their union by position selects exactly
  the rows with fewer than the limit before them.
\<close>

lemma length_filter_conj_disj:
  "(\<And>x. \<not> (P x \<and> Q x)) \<Longrightarrow>
   length (filter (\<lambda>x. (P x \<or> Q x) \<and> R x) xs) =
     length (filter (\<lambda>x. P x \<and> R x) xs) + length (filter (\<lambda>x. Q x \<and> R x) xs)"
  by (induction xs) auto

lemma scan_kind: "d \<in> set (scan p locked a rs) \<Longrightarrow> j_kind d = pb_kind a"
  by (auto simp: scan_def dest!: in_set_takeD)

lemma scan_less:
  assumes "distinct (map j_id rs)"
  shows "length (filter (\<lambda>y. claim_key y < c) (scan p locked b rs)) =
    min (pb_claim_limit b)
      (length (filter (\<lambda>y. (p y \<and> j_kind y = pb_kind b \<and> j_id y \<notin> locked) \<and> claim_key y < c) rs))"
proof -
  let ?xs = "filter (\<lambda>r. p r \<and> j_kind r = pb_kind b \<and> j_id r \<notin> locked) rs"
  have "length (filter (\<lambda>y. claim_key y < c) (scan p locked b rs)) =
      min (pb_claim_limit b) (length (filter (\<lambda>y. claim_key y < c) (sort_key claim_key ?xs)))"
    unfolding scan_def by (subst filter_less_take_sorted) (simp_all add: min.commute)
  then show ?thesis by (simp add: length_filter_sort_key conj_commute)
qed

lemma scan_mem:
  assumes "distinct (map j_id rs)"
  shows "r \<in> set (scan p locked b rs) \<longleftrightarrow>
    r \<in> set rs \<and> p r \<and> j_kind r = pb_kind b \<and> j_id r \<notin> locked
    \<and> length (filter (\<lambda>y. (p y \<and> j_kind y = pb_kind b \<and> j_id y \<notin> locked)
                           \<and> claim_key y < claim_key r) rs) < pb_claim_limit b"
proof -
  let ?xs = "filter (\<lambda>r. p r \<and> j_kind r = pb_kind b \<and> j_id r \<notin> locked) rs"
  have "distinct (map claim_key ?xs)"
  proof -
    have "distinct (map snd (map claim_key ?xs))"
      using assms by (simp add: claim_key_def comp_def distinct_map_filter)
    then show ?thesis unfolding distinct_map[of snd] by blast
  qed
  from mem_take_sort_iff[OF this, of r "pb_claim_limit b"] show ?thesis
    by (auto simp: scan_def conj_commute conj_left_commute)
qed

lemma scan_distinct: "distinct (map j_id rs) \<Longrightarrow> distinct (map j_id (scan p locked b rs))"
proof -
  assume "distinct (map j_id rs)"
  then have "distinct (map j_id (filter (\<lambda>r. p r \<and> j_kind r = pb_kind b \<and> j_id r \<notin> locked) rs))"
    by (rule distinct_map_filter)
  then have "distinct (map j_id (sort_key claim_key
      (filter (\<lambda>r. p r \<and> j_kind r = pb_kind b \<and> j_id r \<notin> locked) rs)))"
    by (simp add: distinct_map_sort)
  then show ?thesis unfolding scan_def take_map[symmetric] by (rule distinct_take)
qed

lemma count_le_key:
  assumes "distinct (map j_id xs)" "r \<in> set rs" "set xs \<subseteq> set rs" "distinct (map j_id rs)"
  shows "length (filter (\<lambda>y. claim_key y \<le> claim_key r) xs) =
    length (filter (\<lambda>y. claim_key y < claim_key r) xs) + (if r \<in> set xs then 1 else 0)"
  using assms(1,3)
proof (induction xs)
  case (Cons x xs)
  have "claim_key x = claim_key r \<longleftrightarrow> x = r"
    using distinct_map_inj_on[OF assms(4), of x r] assms(2) Cons.prems by (auto simp: claim_key_def)
  then have le: "claim_key x \<le> claim_key r \<longleftrightarrow> claim_key x < claim_key r \<or> x = r"
    by (metis order.order_iff_strict)
  have "r \<notin> set xs" if "x = r" using Cons.prems that by (auto simp: image_iff)
  moreover have "length (filter (\<lambda>y. claim_key y \<le> claim_key r) xs) =
      length (filter (\<lambda>y. claim_key y < claim_key r) xs) + (if r \<in> set xs then 1 else 0)"
    using Cons by simp
  ultimately show ?case using le by (cases "x = r") simp_all
qed simp

lemma filter_binds:
  assumes "distinct (map pb_kind binds)" "b \<in> set binds"
  shows "length (filter (\<lambda>(d, _). j_kind d = pb_kind b \<and> Q d)
      (concat (map (\<lambda>b. map (\<lambda>r. (r, pb_claim_limit b)) (scan p locked b rs)) binds)))
    = length (filter Q (scan p locked b rs))"
  using assms
proof (induction binds)
  case (Cons a binds)
  note kind = scan_kind[of _ p locked _ rs]
  have own: "length (filter (\<lambda>(d, _). j_kind d = pb_kind b \<and> Q d)
      (map (\<lambda>r. (r, pb_claim_limit a)) (scan p locked a rs)))
      = (if pb_kind a = pb_kind b then length (filter Q (scan p locked a rs)) else 0)"
    using kind by (auto simp: filter_map comp_def filter_empty_conv intro!: arg_cong[of _ _ length] filter_cong)
  show ?case
  proof (cases "a = b")
    case True
    then have "filter (\<lambda>(d, _). j_kind d = pb_kind b \<and> Q d)
        (concat (map (\<lambda>b. map (\<lambda>r. (r, pb_claim_limit b)) (scan p locked b rs)) binds)) = []"
      using Cons.prems(1) kind by (fastforce simp: filter_empty_conv image_iff)
    with True own show ?thesis by simp
  next
    case False
    then have "pb_kind a \<noteq> pb_kind b" "b \<in> set binds" using Cons.prems by auto
    with own Cons show ?thesis by simp
  qed
qed simp

lemma due_not_expired: "\<not> (due now r \<and> lease_expired now r)"
  by (auto simp: due_def lease_expired_def)

definition kind_before :: "micros \<Rightarrow> job_id set \<Rightarrow> string \<Rightarrow> job_row list \<Rightarrow> job_row \<Rightarrow> nat" where
  "kind_before now locked kind rs r =
     length (filter (\<lambda>y. (due now y \<or> lease_expired now y) \<and> (j_kind y = kind \<and> j_id y \<notin> locked)
                          \<and> claim_key y < claim_key r) rs)"

lemma ranked_iff:
  assumes ids: "distinct (map j_id rs)" and kinds: "distinct (map pb_kind binds)"
    and b: "b \<in> set binds" "pb_kind b = j_kind r"
  shows "((r, pb_claim_limit b) \<in> set (candidates now locked binds rs)
      \<and> position (candidates now locked binds rs) r \<le> pb_claim_limit b)
    \<longleftrightarrow> r \<in> set rs \<and> (due now r \<or> lease_expired now r) \<and> j_id r \<notin> locked
        \<and> kind_before now locked (j_kind r) rs r < pb_claim_limit b"
proof -
  let ?D = "scan (due now) locked b rs" and ?E = "scan (lease_expired now) locked b rs"
  let ?L = "pb_claim_limit b"
  let ?n = "\<lambda>p. length (filter (\<lambda>y. (p y \<and> j_kind y = pb_kind b \<and> j_id y \<notin> locked)
      \<and> claim_key y < claim_key r) rs)"
  have other: "r \<in> set (scan p locked b' rs) \<Longrightarrow> b' \<in> set binds \<Longrightarrow> b' = b" for p b'
    using b scan_kind distinct_map_inj_on[OF kinds] by metis
  have one: "(r, ?L) \<in> set (concat (map (\<lambda>b. map (\<lambda>r. (r, pb_claim_limit b)) (scan p locked b rs)) binds))
      \<longleftrightarrow> r \<in> set (scan p locked b rs)" for p
    using other[of p] b(1) by (auto simp: image_iff)
  have mem: "(r, ?L) \<in> set (candidates now locked binds rs) \<longleftrightarrow> r \<in> set ?D \<or> r \<in> set ?E"
    unfolding candidates_def set_append Un_iff one ..
  have sub: "set (scan p locked b rs) \<subseteq> set rs" for p
    by (auto simp: scan_mem[OF ids])
  have pos: "position (candidates now locked binds rs) r =
      length (filter (\<lambda>y. claim_key y \<le> claim_key r) ?D)
      + length (filter (\<lambda>y. claim_key y \<le> claim_key r) ?E)"
    unfolding position_def candidates_def b(2)[symmetric]
    by (simp only: filter_append length_append filter_binds[OF kinds b(1)])
  have le: "length (filter (\<lambda>y. claim_key y \<le> claim_key r) (scan p locked b rs)) =
      min ?L (?n p) + (if r \<in> set (scan p locked b rs) then 1 else 0)" if "r \<in> set rs" for p
    using count_le_key[OF scan_distinct[OF ids] that sub ids] scan_less[OF ids] by simp
  have total: "kind_before now locked (j_kind r) rs r = ?n (due now) + ?n (lease_expired now)"
    unfolding kind_before_def b(2)[symmetric]
    using length_filter_conj_disj[of "due now" "lease_expired now", OF due_not_expired]
    by (simp add: conj_assoc)
  have both: "\<not> (r \<in> set ?D \<and> r \<in> set ?E)"
    using due_not_expired by (auto simp: scan_mem[OF ids])
  show ?thesis
  proof (cases "r \<in> set rs")
    case False
    then show ?thesis using mem sub by blast
  next
    case True
    have D: "r \<in> set ?D \<longleftrightarrow> due now r \<and> j_id r \<notin> locked \<and> ?n (due now) < ?L"
      using True b(2) by (auto simp: scan_mem[OF ids])
    have E: "r \<in> set ?E \<longleftrightarrow> lease_expired now r \<and> j_id r \<notin> locked \<and> ?n (lease_expired now) < ?L"
      using True b(2) by (auto simp: scan_mem[OF ids])
    show ?thesis
      unfolding mem pos le[OF True] total using True both D E by (auto simp: min_def)
  qed
qed

lemma distinct_scans:
  assumes "distinct (map pb_kind binds)" "distinct (map j_id rs)"
  shows "distinct (map fst (concat (map (\<lambda>b. map (\<lambda>r. (r, pb_claim_limit b)) (scan p locked b rs)) binds)))"
  using assms(1)
proof (induction binds)
  case (Cons b binds)
  have "distinct (scan p locked b rs)"
    using scan_distinct[OF assms(2)] by (simp add: distinct_map)
  moreover have "r \<notin> set (scan p locked b rs)" if "r \<in> set (scan p locked b' rs)" "b' \<in> set binds" for r b'
    using that Cons.prems scan_kind[of r p locked b rs] scan_kind[OF that(1)] by (auto simp: image_iff)
  ultimately show ?case using Cons by (fastforce simp: comp_def)
qed simp

lemma candidates_distinct:
  assumes "distinct (map pb_kind binds)" "distinct (map j_id rs)"
  shows "distinct (map fst (candidates now locked binds rs))"
proof -
  let ?c = "\<lambda>p. concat (map (\<lambda>b. map (\<lambda>r. (r, pb_claim_limit b)) (scan p locked b rs)) binds)"
  have p: "p r" if "r \<in> set (map fst (?c p))" for r p
    using that by (auto simp: scan_mem[OF assms(2)])
  have "set (map fst (?c (due now))) \<inter> set (map fst (?c (lease_expired now))) = {}"
    using p[of _ "due now"] p[of _ "lease_expired now"] due_not_expired by blast
  with distinct_scans[OF assms] show ?thesis
    unfolding candidates_def map_append distinct_append by blast
qed

lemma candidates_limit:
  assumes "(r, l) \<in> set (candidates now locked binds rs)"
  shows "\<exists>b \<in> set binds. pb_kind b = j_kind r \<and> l = pb_claim_limit b"
  using assms scan_kind by (fastforce simp: candidates_def)

lemma best_count:
  assumes "b \<in> set binds" "pb_kind b = j_kind r"
  shows "length (filter (\<lambda>s. j_kind s = j_kind r \<and> claim_key s < claim_key r)
      (filter (eligible now locked binds) rs)) = kind_before now locked (j_kind r) rs r"
proof -
  have "j_kind r \<in> pb_kind ` set binds" using assms by force
  then show ?thesis
    by (auto simp: kind_before_def eligible_def intro!: arg_cong[of _ _ length] filter_cong)
qed

lemma picked_best:
  assumes ids: "distinct (map j_id rs)" and kinds: "distinct (map pb_kind binds)"
  shows "picked now locked binds requested rs = best_jobs now locked binds requested rs"
proof -
  let ?cs = "candidates now locked binds rs"
  let ?X = "map fst (filter (\<lambda>(r, limit). position ?cs r \<le> limit) ?cs)"
  let ?es = "filter (eligible now locked binds) rs"
  let ?Y = "filter (\<lambda>r. length (filter (\<lambda>s. j_kind s = j_kind r \<and> claim_key s < claim_key r) ?es)
    < limit_of binds (j_kind r)) ?es"
  have limit: "limit_of binds (pb_kind b) = pb_claim_limit b" if "b \<in> set binds" for b
    using find_map_distinct[OF kinds that] by (simp add: limit_of_def)
  have X: "r \<in> set ?X \<longleftrightarrow> (\<exists>b \<in> set binds. pb_kind b = j_kind r
      \<and> (r, pb_claim_limit b) \<in> set ?cs \<and> position ?cs r \<le> pb_claim_limit b)" for r
    using candidates_limit by (fastforce simp: image_iff)
  have Y: "r \<in> set ?Y \<longleftrightarrow> (\<exists>b \<in> set binds. pb_kind b = j_kind r
      \<and> r \<in> set rs \<and> (due now r \<or> lease_expired now r) \<and> j_id r \<notin> locked
      \<and> kind_before now locked (j_kind r) rs r < pb_claim_limit b)" for r
  proof -
    have kinds: "r \<in> set ?Y \<Longrightarrow> \<exists>b \<in> set binds. pb_kind b = j_kind r"
      by (auto simp: eligible_def)
    have "r \<in> set ?Y \<longleftrightarrow> r \<in> set rs \<and> (due now r \<or> lease_expired now r) \<and> j_id r \<notin> locked
      \<and> kind_before now locked (j_kind r) rs r < pb_claim_limit b"
      if "b \<in> set binds" "pb_kind b = j_kind r" for b
    proof -
      have "eligible now locked binds r \<longleftrightarrow> (due now r \<or> lease_expired now r) \<and> j_id r \<notin> locked"
        using that by (force simp: eligible_def)
      then show ?thesis
        using limit[OF that(1)] that(2) by (simp add: best_count[OF that] del: filter_filter)
    qed
    with kinds show ?thesis by blast
  qed
  have "set ?X = set ?Y"
    unfolding set_eq_iff X Y using ranked_iff[OF ids kinds] by blast
  moreover have "distinct ?X" using candidates_distinct[OF kinds ids] by (rule distinct_map_filter)
  moreover have "distinct ?Y" using ids by (simp add: distinct_map)
  ultimately have "mset ?X = mset ?Y" by (simp only: set_eq_iff_mset_eq_distinct)
  moreover have "inj_on claim_key (set ?X)"
    using distinct_map_inj_on[OF ids] \<open>set ?X = set ?Y\<close> by (auto simp: inj_on_def claim_key_def)
  ultimately have "sort_key claim_key ?X = sort_key claim_key ?Y"
    by (intro sort_key_inj_key_eq) simp_all
  then show ?thesis by (simp only: picked_def best_jobs_def Let_def)
qed

subsection \<open>The update\<close>

lemma claim_row_keeps [simp]:
  "j_id (claim_row now worker b g r) = j_id r"
  "j_kind (claim_row now worker b g r) = j_kind r"
  "j_unique_key (claim_row now worker b g r) = j_unique_key r"
  "j_payload (claim_row now worker b g r) = j_payload r"
  "j_generation (claim_row now worker b g r) = g"
  by (simp_all add: claim_row_def Let_def)

lemma claim_row_ok:
  assumes "row_ok r" "pb_max_attempts b \<le> i16_max"
  shows "row_ok (claim_row now worker b g r)"
    and "j_state (claim_row now worker b g r) = Running \<Longrightarrow> 1 \<le> j_attempts (claim_row now worker b g r)"
  using assms by (auto simp: row_ok_def claim_row_def Let_def)

lemma claim_rows_spec:
  assumes "claim_rows now worker ch sq rs = (rs', sq', out)"
  shows "list_all2 (\<lambda>r r'. case ch r of None \<Rightarrow> r' = r
           | Some b \<Rightarrow> (\<exists>g. sq < g \<and> g \<le> sq' \<and> r' = claim_row now worker b g r)) rs rs'
    \<and> sq' = sq + length out \<and> map j_generation out = [Suc sq..<Suc sq']
    \<and> map j_id out = map j_id (filter (\<lambda>r. ch r \<noteq> None) rs)
    \<and> map j_kind out = map j_kind (filter (\<lambda>r. ch r \<noteq> None) rs) \<and> set out \<subseteq> set rs'
    \<and> (\<forall>r \<in> set out. j_state r = Running \<or> j_state r = Failed)"
  using assms
proof (induction rs arbitrary: sq rs' out)
  case (Cons r rs)
  show ?case
  proof (cases "ch r")
    case None
    then obtain rs1 where r: "claim_rows now worker ch sq rs = (rs1, sq', out)" "rs' = r # rs1"
      using Cons.prems by (auto split: prod.splits)
    from Cons.IH[OF r(1)] None show ?thesis by (auto simp: r(2))
  next
    case (Some b)
    then obtain rs1 out1 where r: "claim_rows now worker ch (Suc sq) rs = (rs1, sq', out1)"
      "rs' = claim_row now worker b (Suc sq) r # rs1" "out = claim_row now worker b (Suc sq) r # out1"
      using Cons.prems by (auto simp: Let_def split: prod.splits)
    note IH = Cons.IH[OF r(1)]
    have "list_all2 (\<lambda>r r'. case ch r of None \<Rightarrow> r' = r
        | Some b \<Rightarrow> (\<exists>g. sq < g \<and> g \<le> sq' \<and> r' = claim_row now worker b g r)) rs rs1"
      by (rule list_all2_mono[OF conjunct1[OF IH]]) (auto split: option.splits dest: Suc_lessD)
    moreover have "[Suc sq..<Suc sq'] = Suc sq # [Suc (Suc sq)..<Suc sq']"
      using IH by (simp add: upt_rec)
    moreover have "j_state (claim_row now worker b (Suc sq) r) \<in> {Running, Failed}"
      by (simp add: claim_row_def Let_def)
    ultimately show ?thesis using IH Some by (auto simp: r(2,3))
  qed
qed auto

lemma claim_rows_generations:
  assumes "claim_rows now worker ch sq rs = (rs', sq', out)"
    and "distinct (claim_generations rs)" "\<forall>g \<in> set (claim_generations rs). g \<le> bound" "bound \<le> sq"
  shows "distinct (claim_generations rs')
    \<and> set (claim_generations rs') \<subseteq> set (claim_generations rs) \<union> {sq<..sq'} \<and> sq \<le> sq'"
  using assms
proof (induction rs arbitrary: sq rs' out)
  case (Cons r rs)
  have cons: "claim_generations (x # xs) =
      (if j_generation x \<noteq> 0 then [j_generation x] else []) @ claim_generations xs" for x xs
    by (simp add: claim_generations_def)
  have tail: "distinct (claim_generations rs)" "\<forall>g \<in> set (claim_generations rs). g \<le> bound"
    using Cons.prems(2,3) by (auto simp: cons split: if_splits)
  show ?case
  proof (cases "ch r")
    case None
    then obtain rs1 where r: "claim_rows now worker ch sq rs = (rs1, sq', out)" "rs' = r # rs1"
      using Cons.prems by (auto split: prod.splits)
    from Cons.IH[OF r(1) tail Cons.prems(4)] Cons.prems(2-4) show ?thesis
      by (auto simp: r(2) cons split: if_splits)
  next
    case (Some b)
    then obtain rs1 out1 where r: "claim_rows now worker ch (Suc sq) rs = (rs1, sq', out1)"
      "rs' = claim_row now worker b (Suc sq) r # rs1"
      using Cons.prems by (auto simp: Let_def split: prod.splits)
    have "bound \<le> Suc sq" using Cons.prems(4) by simp
    note IH = Cons.IH[OF r(1) tail this]
    have "Suc sq \<notin> set (claim_generations rs)" using tail(2) Cons.prems(4) by fastforce
    with IH have "Suc sq \<notin> set (claim_generations rs1)" by auto
    with IH show ?thesis by (auto simp: r(2) cons)
  qed
qed (simp add: claim_generations_def)

subsection \<open>The statement as a whole\<close>

text \<open>What a claim relies on: one policy per kind, with a budget that fits its column.\<close>

definition binds_ok :: "policy_bind list \<Rightarrow> bool" where
  "binds_ok binds \<longleftrightarrow> distinct (map pb_kind binds)
     \<and> list_all (\<lambda>b. pb_max_attempts b \<le> i16_max) binds"

lemma policy_binds_ok: "distinct (map reg_name reg) \<Longrightarrow> binds_ok (policy_binds reg free requested)"
  by (auto simp: binds_ok_def policy_binds_def policy_bind_of_def comp_def list_all_iff)

lemma picked_mem:
  assumes "distinct (map j_id rs)" "distinct (map pb_kind binds)" "r \<in> set (picked now locked binds requested rs)"
  shows "r \<in> set rs" "eligible now locked binds r"
  using assms(3) unfolding picked_best[OF assms(1,2)] best_jobs_def Let_def
  by (auto dest!: in_set_takeD)

lemma chosen_iff:
  assumes "distinct (map j_id rs)" "distinct (map pb_kind binds)" "r \<in> set rs"
  shows "chosen now binds (map j_id (picked now locked binds requested rs)) r =
    (if r \<in> set (picked now locked binds requested rs)
     then find (\<lambda>b. pb_kind b = j_kind r) binds else None)"
proof -
  have "j_id r \<in> set (map j_id (picked now locked binds requested rs)) \<longleftrightarrow>
      r \<in> set (picked now locked binds requested rs)"
    using picked_mem(1)[OF assms(1,2)] distinct_map_inj_on[OF assms(1)] assms(3) by (force simp: image_iff)
  moreover have "r \<in> set (picked now locked binds requested rs) \<Longrightarrow> due now r \<or> lease_expired now r"
    using picked_mem(2)[OF assms(1,2)] by (auto simp: eligible_def)
  ultimately show ?thesis by (auto simp: chosen_def)
qed

lemma eligible_bind:
  assumes "eligible now locked binds r"
  shows "\<exists>b. find (\<lambda>b. pb_kind b = j_kind r) binds = Some b \<and> b \<in> set binds"
proof -
  have "find (\<lambda>b. pb_kind b = j_kind r) binds \<noteq> None"
    using assms by (auto simp: eligible_def find_None_iff)
  then obtain b where "find (\<lambda>b. pb_kind b = j_kind r) binds = Some b" by blast
  then show ?thesis using find_Some_mem by fastforce
qed

lemma picked_length: "length (picked now locked binds requested rs) \<le> requested"
  by (simp add: picked_def Let_def)

lemma picked_distinct:
  assumes "distinct (map j_id rs)" "distinct (map pb_kind binds)"
  shows "distinct (picked now locked binds requested rs)"
proof -
  have "distinct rs" using assms(1) by (simp add: distinct_map)
  then show ?thesis
    unfolding picked_best[OF assms] best_jobs_def Let_def by (intro distinct_take) simp
qed

text \<open>Of one kind, no more than its limit is picked.\<close>

lemma picked_kind_limit:
  assumes "distinct (map j_id rs)" "distinct (map pb_kind binds)"
  shows "length (filter (\<lambda>r. j_kind r = kind) (picked now locked binds requested rs)) \<le> limit_of binds kind"
proof -
  let ?es = "filter (eligible now locked binds) rs"
  let ?ks = "filter (\<lambda>r. j_kind r = kind) ?es"
  let ?P = "filter (\<lambda>r. j_kind r = kind) (picked now locked binds requested rs)"
  have "distinct (map snd (map claim_key ?ks))"
    using assms(1) by (simp add: claim_key_def comp_def distinct_map_filter)
  then have keys: "distinct (map claim_key ?ks)" unfolding distinct_map[of snd] by blast
  have "set ?P \<subseteq> set (take (limit_of binds kind) (sort_key claim_key ?ks))"
  proof
    fix r assume "r \<in> set ?P"
    then have r: "j_kind r = kind" "r \<in> set ?es"
      "length (filter (\<lambda>s. j_kind s = j_kind r \<and> claim_key s < claim_key r) ?es) < limit_of binds (j_kind r)"
      unfolding picked_best[OF assms] best_jobs_def Let_def
      by (auto dest!: in_set_takeD simp del: filter_filter)
    have "filter (\<lambda>s. claim_key s < claim_key r) ?ks =
        filter (\<lambda>s. j_kind s = j_kind r \<and> claim_key s < claim_key r) ?es"
      using r(1) by (auto intro!: filter_cong)
    with r show "r \<in> set (take (limit_of binds kind) (sort_key claim_key ?ks))"
      unfolding mem_take_sort_iff[OF keys] by (simp del: filter_filter)
  qed
  then have "card (set ?P) \<le> length (take (limit_of binds kind) (sort_key claim_key ?ks))"
    by (meson card_length card_mono finite_set le_trans)
  moreover have "card (set ?P) = length ?P"
    by (intro distinct_card distinct_filter picked_distinct[OF assms])
  ultimately show ?thesis by (simp add: min_def split: if_splits)
qed

lemma claim_result:
  assumes "sound q" "binds_ok binds"
    and "claim_rows now worker (chosen now binds (map j_id (picked now locked binds requested (rows q))))
           (sequence q) (rows q) = (rs', sq', out)"
  shows "claim now worker locked binds requested q = Inr (q\<lparr>rows := rs', sequence := sq'\<rparr>, out)
    \<and> sound (q\<lparr>rows := rs', sequence := sq'\<rparr>)"
proof -
  let ?ch = "chosen now binds (map j_id (picked now locked binds requested (rows q)))"
  note spec = claim_rows_spec[OF assms(3)]
  define R where "R r r' \<longleftrightarrow> r \<in> set (rows q) \<and> (case ?ch r of None \<Rightarrow> r' = r
     | Some b \<Rightarrow> (\<exists>g. sequence q < g \<and> g \<le> sq' \<and> r' = claim_row now worker b g r))" for r r'
  have all: "list_all2 R (rows q) rs'"
    unfolding R_def using conjunct1[OF spec] by (auto simp: list_all2_conv_all_nth)
  have bind: "b \<in> set binds \<and> live r" if "?ch r = Some b" for r b
    using that by (auto simp: chosen_def live_def due_def lease_expired_def
        split: if_splits dest: find_Some_mem)
  have ok: "row_ok r" if "r \<in> set (rows q)" for r using queue_ok_row(1)[OF _ that] assms(1) by blast
  have row: "j_id r' = j_id r \<and> j_kind r' = j_kind r \<and> j_unique_key r' = j_unique_key r
      \<and> (live r' \<longrightarrow> live r) \<and> row_ok r' \<and> (j_state r' = Running \<longrightarrow> 1 \<le> j_attempts r')
      \<and> j_generation r' \<le> sq'" if "R r r'" for r r'
  proof (cases "?ch r")
    case None
    then show ?thesis
      using that ok assms(1) spec by (auto simp: R_def queue_ok_def charged_def list_all_iff)
  next
    case (Some b)
    have "pb_max_attempts b \<le> i16_max" using bind[OF Some] assms(2) by (simp add: binds_ok_def list_all_iff)
    with Some bind[OF Some] that ok[of r] show ?thesis by (auto simp: R_def claim_row_ok)
  qed
  have ids: "map j_id rs' = map j_id (rows q)"
    using all row by (auto simp: list_all2_conv_all_nth intro!: nth_equalityI)
  have "list_all2 (\<lambda>r r'. j_kind r' = j_kind r \<and> j_unique_key r' = j_unique_key r
      \<and> (live r' \<longrightarrow> live r)) (rows q) rs'"
    by (rule list_all2_mono[OF all]) (use row in blast)
  from live_keys_all2[OF this] assms(1) have keys: "distinct (live_keys rs')"
    by (simp add: queue_ok_def)
  have each: "row_ok r' \<and> (j_state r' = Running \<longrightarrow> 1 \<le> j_attempts r') \<and> j_generation r' \<le> sq'"
    if "r' \<in> set rs'" for r'
    using all that row by (metis in_set_conv_nth list_all2_conv_all_nth)
  have gens: "distinct (claim_generations rs')"
    using claim_rows_generations[OF assms(3), of "sequence q"] assms(1)
    by (auto simp: queue_ok_def claim_generations_def)
  have "claim now worker locked binds requested q = Inr (q\<lparr>rows := rs', sequence := sq'\<rparr>, out)"
    using each keys unfolding claim_def assms(3) Let_def
    by (simp add: install_def list_all_iff)
  with ids keys each gens assms(1) show ?thesis
    by (auto simp: queue_ok_def charged_def list_all_iff)
qed

lemma claim_effect:
  assumes "sound q" "binds_ok binds"
  obtains q' out where "claim now worker locked binds requested q = Inr (q', out)" "sound q'"
    "sequence q' = sequence q + length out"
    "map j_generation out = [Suc (sequence q)..<Suc (sequence q')]"
    "set (map j_id out) = set (map j_id (picked now locked binds requested (rows q)))"
    "mset (map j_kind out) = mset (map j_kind (picked now locked binds requested (rows q)))"
    "set out \<subseteq> set (rows q')" "\<forall>r \<in> set out. j_state r = Running \<or> j_state r = Failed"
    "\<And>r. r \<in> set (rows q) \<Longrightarrow>
       (if r \<in> set (picked now locked binds requested (rows q))
        then (\<exists>b \<in> set binds. \<exists>g. pb_kind b = j_kind r \<and> sequence q < g
                \<and> find_job (j_id r) q' = Some (claim_row now worker b g r))
        else find_job (j_id r) q' = Some r)"
proof -
  let ?P = "picked now locked binds requested (rows q)"
  let ?ch = "chosen now binds (map j_id ?P)"
  have ids: "distinct (map j_id (rows q))" and kinds: "distinct (map pb_kind binds)"
    using assms by (auto simp: queue_ok_def binds_ok_def)
  obtain rs' sq' out where c: "claim_rows now worker ?ch (sequence q) (rows q) = (rs', sq', out)"
    by (metis prod_cases3)
  note spec = claim_rows_spec[OF c] and res = claim_result[OF assms c]
  have ch: "?ch r = (if r \<in> set ?P then find (\<lambda>b. pb_kind b = j_kind r) binds else None)"
    if "r \<in> set (rows q)" for r using that by (rule chosen_iff[OF ids kinds])
  have some: "?ch r \<noteq> None \<longleftrightarrow> r \<in> set ?P" if "r \<in> set (rows q)" for r
    using ch[OF that] eligible_bind[OF picked_mem(2)[OF ids kinds], of r now locked requested]
    by (cases "r \<in> set ?P") auto
  have "distinct (rows q)" using ids by (simp add: distinct_map)
  then have "mset (filter (\<lambda>r. ?ch r \<noteq> None) (rows q)) = mset ?P"
    using some picked_mem(1)[OF ids kinds] picked_distinct[OF ids kinds]
    by (subst set_eq_iff_mset_eq_distinct[symmetric]) auto
  then have perm: "mset (map f (filter (\<lambda>r. ?ch r \<noteq> None) (rows q))) = mset (map f ?P)" for f :: "job_row \<Rightarrow> 'z"
    by simp
  have look: "if r \<in> set ?P then (\<exists>b \<in> set binds. \<exists>g. pb_kind b = j_kind r \<and> sequence q < g
                \<and> find_job (j_id r) (q\<lparr>rows := rs', sequence := sq'\<rparr>) = Some (claim_row now worker b g r))
        else find_job (j_id r) (q\<lparr>rows := rs', sequence := sq'\<rparr>) = Some r"
    if r: "r \<in> set (rows q)" for r
  proof -
    obtain n where n: "n < length (rows q)" "rows q ! n = r" using r by (auto simp: in_set_conv_nth)
    then have r': "rs' ! n \<in> set rs'" "case ?ch r of None \<Rightarrow> rs' ! n = r
        | Some b \<Rightarrow> (\<exists>g. sequence q < g \<and> g \<le> sq' \<and> rs' ! n = claim_row now worker b g r)"
      using spec by (auto simp: list_all2_conv_all_nth)
    have "j_id (rs' ! n) = j_id r" using r'(2) by (auto split: option.splits)
    moreover have "find_job (j_id (rs' ! n)) (q\<lparr>rows := rs', sequence := sq'\<rparr>) = Some (rs' ! n)"
      using res r'(1) by (intro queue_ok_row(2)) auto
    ultimately have "find_job (j_id r) (q\<lparr>rows := rs', sequence := sq'\<rparr>) = Some (rs' ! n)" by simp
    then show ?thesis
      using r'(2) ch[OF r] some[OF r] by (auto split: option.splits dest: find_Some_mem)
  qed
  show ?thesis
  proof (rule that)
    show "claim now worker locked binds requested q = Inr (q\<lparr>rows := rs', sequence := sq'\<rparr>, out)"
      "sound (q\<lparr>rows := rs', sequence := sq'\<rparr>)" using res by auto
    show "set (map j_id out) = set (map j_id ?P)" using perm[of j_id] spec by (metis set_mset_mset)
    show "mset (map j_kind out) = mset (map j_kind ?P)" using perm[of j_kind] spec by metis
    show "sequence (q\<lparr>rows := rs', sequence := sq'\<rparr>) = sequence q + length out"
      "map j_generation out = [Suc (sequence q)..<Suc (sequence (q\<lparr>rows := rs', sequence := sq'\<rparr>))]"
      "set out \<subseteq> set (rows (q\<lparr>rows := rs', sequence := sq'\<rparr>))"
      "\<forall>r \<in> set out. j_state r = Running \<or> j_state r = Failed"
      using spec by simp_all
  qed (rule look)
qed

text \<open>
  C7. A claim takes exactly the best jobs. On a well-formed queue, with one policy per kind, the
  claim statement never fails; it changes the rows of the reference selection (due or expired,
  unlocked, in claim order, at most the requested number and at most the kind's limit before
  each) and no other row, gives every claimed row its own fresh generation above all earlier ones,
  returns exactly the claimed rows, never more than requested, and leaves the queue well-formed.
\<close>

theorem claim_exact:
  assumes "sound q" "binds_ok binds"
  shows "\<exists>q' out. claim now worker locked binds requested q = Inr (q', out) \<and> sound q'
    \<and> length out \<le> requested
    \<and> sequence q' = sequence q + length out
    \<and> map j_generation out = [Suc (sequence q)..<Suc (sequence q')]
    \<and> set (map j_id out) = set (map j_id (best_jobs now locked binds requested (rows q)))
    \<and> (\<forall>r \<in> set (rows q).
         if r \<in> set (best_jobs now locked binds requested (rows q))
         then (\<exists>b \<in> set binds. \<exists>g > sequence q. pb_kind b = j_kind r
                 \<and> find_job (j_id r) q' = Some (claim_row now worker b g r))
         else find_job (j_id r) q' = Some r)"
proof -
  have ids: "distinct (map j_id (rows q))" and kinds: "distinct (map pb_kind binds)"
    using assms by (auto simp: queue_ok_def binds_ok_def)
  obtain q' out where c: "claim now worker locked binds requested q = Inr (q', out)" "sound q'"
    "sequence q' = sequence q + length out"
    "map j_generation out = [Suc (sequence q)..<Suc (sequence q')]"
    "set (map j_id out) = set (map j_id (picked now locked binds requested (rows q)))"
    "mset (map j_kind out) = mset (map j_kind (picked now locked binds requested (rows q)))"
    "set out \<subseteq> set (rows q')" "\<forall>r \<in> set out. j_state r = Running \<or> j_state r = Failed"
    "\<And>r. r \<in> set (rows q) \<Longrightarrow>
       (if r \<in> set (picked now locked binds requested (rows q))
        then (\<exists>b \<in> set binds. \<exists>g. pb_kind b = j_kind r \<and> sequence q < g
                \<and> find_job (j_id r) q' = Some (claim_row now worker b g r))
        else find_job (j_id r) q' = Some r)"
    using claim_effect[OF assms, of now worker locked requested] by blast
  have "length out = length (picked now locked binds requested (rows q))"
    using c(6) by (metis length_map size_mset)
  then have "length out \<le> requested" using picked_length[of now locked binds requested "rows q"] by simp
  then show ?thesis
    using c(1-5) c(9) unfolding picked_best[OF ids kinds] by fastforce
qed

definition demo_pending :: queue where
  "demo_pending = \<lparr>rows = [demo_row], sequence = 0\<rparr>"

lemma demo_pending_sound: "sound demo_pending"
  by (simp add: demo_pending_def queue_ok_def charged_def live_keys_def claim_generations_def demo_row_def)
    (simp add: new_row_def)

lemma demo_binds_ok: "binds_ok (policy_binds demo_registry (\<lambda>_. None) 5)"
  by (rule policy_binds_ok) (simp add: demo_registry_def register_def)

theorem claim_exact_witness:
  "\<exists>q' out. claim 200 9 {} (policy_binds demo_registry (\<lambda>_. None) 5) 5 demo_pending = Inr (q', out)
     \<and> set (map j_id out) = {JobId 1} \<and> length out \<le> 5"
proof -
  have "best_jobs 200 {} (policy_binds demo_registry (\<lambda>_. None) 5) 5 (rows demo_pending) = [demo_row]"
    by (simp add: best_jobs_def demo_pending_def eligible_def due_def demo_row_def new_row_def
        demo_prepared_def policy_binds_def demo_registry_def register_def policy_bind_of_def limit_of_def)
  then show ?thesis
    using claim_exact[OF demo_pending_sound demo_binds_ok, of 200 9 "{}" 5]
    by (auto simp: demo_row_def new_row_def)
qed

subsection \<open>Leases and local deadlines\<close>

text \<open>
  A worker gives up an attempt before the database may hand it to another. The attempt's
  local deadline, counted from the moment the claim was sent, leads the lease by the cancel
  margin, to within the microsecond that the timeout is truncated to; so it does for a clock
  reading at which the sum would overflow. The lease itself starts no earlier than the claim.
\<close>

lemma lease_outlives_attempt:
  assumes "d \<le> MAX_TIMEOUT"
  shows "local_deadline sent d + CANCEL_MARGIN \<le>
    sent + (timeout_micros d + lease_reserve_micros) * 1000 + 999"
proof -
  have reserve: "lease_reserve_micros * 1000 = LEASE_RESERVE" "CANCEL_MARGIN \<le> LEASE_RESERVE"
    by (simp_all add: lease_reserve_micros_def LEASE_RESERVE_def CANCEL_MARGIN_def as_micros_def time_ranges)
  have "as_micros d \<le> i64_max"
  proof -
    have "as_micros d \<le> as_micros MAX_TIMEOUT" using assms unfolding as_micros_def by (rule div_le_mono)
    also have "\<dots> \<le> i64_max" by (simp add: as_micros_def MAX_TIMEOUT_def time_ranges)
    finally show ?thesis .
  qed
  then have "d \<le> timeout_micros d * 1000 + 999"
    by (simp add: timeout_micros_def as_micros_def)
  moreover have "local_deadline sent d + CANCEL_MARGIN \<le> sent + d + LEASE_RESERVE"
    using reserve(2)
    by (auto simp: local_deadline_def instant_checked_add_def instant_checked_sub_def split: option.splits)
  ultimately show ?thesis using reserve(1) by (simp add: algebra_simps)
qed

theorem lease_outlives_attempt_witness:
  "local_deadline 0 (from_secs 30) + CANCEL_MARGIN \<le>
     (timeout_micros (from_secs 30) + lease_reserve_micros) * 1000 + 999"
  using lease_outlives_attempt[of "from_secs 30" 0] by (simp add: MAX_TIMEOUT_def time_units)

subsection \<open>From the claim to the supervisors\<close>

fun running_of :: "drawn list \<Rightarrow> (claimed \<times> duration) list" where
  "running_of [] = []"
| "running_of (DrawnRunning c d w # ds) = (c, d) # running_of ds"
| "running_of (DrawnExhausted _ _ _ _ # ds) = running_of ds"

lemma dispatch_all:
  assumes "length (running_of ds) \<le> permits s"
    and "\<forall>(c, d) \<in> set (running_of ds). registry_get reg (cl_kind c) \<noteq> None"
    and "\<forall>k n. kind_free s k = Some n \<longrightarrow>
           length (filter (\<lambda>(c, d). cl_kind c = k) (running_of ds)) \<le> n"
  shows "permits (dispatch_known reg sent ds s) = permits s - length (running_of ds)
    \<and> spawned (dispatch_known reg sent ds s) = spawned s @
        map (\<lambda>(c, d). (c, local_deadline sent d, kind_free s (cl_kind c) \<noteq> None)) (running_of ds)"
  using assms
proof (induction reg sent ds s rule: dispatch_known.induct)
  case (3 reg sent c d w ds s)
  obtain e where e: "registry_get reg (cl_kind c) = Some e" using 3(3) by auto
  then have name: "reg_name e = cl_kind c" by (auto simp: registry_get_def dest: find_Some_mem)
  have free: "kind_free s (cl_kind c) = Some n \<Longrightarrow> n \<noteq> 0" for n using 3(4) by fastforce
  let ?free = "(case kind_free s (cl_kind c) of None \<Rightarrow> kind_free s
      | Some n \<Rightarrow> (kind_free s)(cl_kind c \<mapsto> n - 1))"
  have take: "kind_slot_take reg (cl_kind c) (kind_free s) = (?free, kind_free s (cl_kind c) \<noteq> None)"
    using e name free by (auto simp: kind_slot_take_def split: option.splits)
  let ?s = "s\<lparr>permits := permits s - 1, kind_free := ?free,
      spawned := spawned s @ [(c, local_deadline sent d, kind_free s (cl_kind c) \<noteq> None)]\<rparr>"
  have pos: "permits s \<noteq> 0" using 3(2) by auto
  have dom: "(?free k \<noteq> None) = (kind_free s k \<noteq> None)" for k by (auto split: option.splits)
  have "\<forall>k n. kind_free ?s k = Some n \<longrightarrow>
      length (filter (\<lambda>(c, d). cl_kind c = k) (running_of ds)) \<le> n"
  proof (intro allI impI)
    fix k n assume k: "kind_free ?s k = Some n"
    show "length (filter (\<lambda>(c, d). cl_kind c = k) (running_of ds)) \<le> n"
    proof (cases "k = cl_kind c")
      case True
      then obtain m where m: "kind_free s k = Some m" "n = m - 1" using k by (auto split: option.splits)
      have "length (filter (\<lambda>(c, d). cl_kind c = k) (running_of (DrawnRunning c d w # ds))) \<le> m"
        using 3(4) m(1) by blast
      with True m(2) show ?thesis by simp
    next
      case False
      then have "kind_free s k = Some n" using k by (auto split: option.splits)
      then have "length (filter (\<lambda>(c, d). cl_kind c = k) (running_of (DrawnRunning c d w # ds))) \<le> n"
        using 3(4) by blast
      with False show ?thesis by auto
    qed
  qed
  moreover have "length (running_of ds) \<le> permits ?s" using 3(2) by simp
  moreover have "\<forall>(c, d) \<in> set (running_of ds). registry_get reg (cl_kind c) \<noteq> None" using 3(3) by simp
  ultimately have "permits (dispatch_known reg sent ds ?s) = permits ?s - length (running_of ds)
    \<and> spawned (dispatch_known reg sent ds ?s) = spawned ?s @
        map (\<lambda>(c, d). (c, local_deadline sent d, kind_free ?s (cl_kind c) \<noteq> None)) (running_of ds)"
    using 3(1)[OF pos refl take[symmetric]] by simp
  then show ?case using pos take dom by (simp add: Let_def)
qed simp_all

lemma length_filter_key: "length (filter (\<lambda>x. f x = k) xs) = count (mset (map f xs)) k"
  by (induction xs) auto

lemma length_filter_conj_le: "length (filter (\<lambda>x. P x \<and> Q x) xs) \<le> length (filter P xs)"
  by (induction xs) auto

lemma into_drawn_running:
  assumes "collect_results (map (into_drawn reg now) out) = Inr ds"
  shows "map (\<lambda>(c, d). (cl_id c, cl_generation c, cl_kind c)) (running_of ds) =
      map (\<lambda>r. (j_id r, j_generation r, j_kind r)) (filter (\<lambda>r. j_state r \<noteq> Failed) out)
    \<and> (\<forall>(c, d) \<in> set (running_of ds). registry_get reg (cl_kind c) \<noteq> None)
    \<and> length ds = length out"
  using assms
proof (induction out arbitrary: ds)
  case (Cons r out)
  from Cons.prems obtain x xs where ds: "ds = x # xs" "into_drawn reg now r = Inr x"
    "collect_results (map (into_drawn reg now) out) = Inr xs"
    by (auto simp: collect_results_Inr map_eq_Cons_conv)
  from ds(2) obtain e where e: "registry_get reg (j_kind r) = Some e" "reg_name e = j_kind r"
    by (auto simp: into_drawn_def registry_get_def Let_def split: option.splits dest: find_Some_mem)
  with ds(2) have "case x of DrawnExhausted _ _ _ _ \<Rightarrow> j_state r = Failed
      | DrawnRunning c d w \<Rightarrow> j_state r \<noteq> Failed \<and> cl_id c = j_id r \<and> cl_generation c = j_generation r
          \<and> cl_kind c = j_kind r"
    by (auto simp: into_drawn_def Let_def split: if_splits)
  with Cons.IH[OF ds(3)] e(1) show ?case by (auto simp: ds(1) split: drawn.splits)
qed simp

lemma into_drawn_ok:
  assumes "row_ok r" "j_state r = Running \<or> j_state r = Failed" "registry_get reg (j_kind r) \<noteq> None"
  shows "is_ok (into_drawn reg now r)"
  using assms by (auto simp: into_drawn_def row_ok_def i16_max_def u16_max_def Let_def)

lemma as_i64_le: "as_i64 n \<le> n"
  by (simp add: as_i64_def i64_max_def)

lemma limit_of_binds:
  shows "limit_of (policy_binds reg free requested) kind \<le> requested"
    and "free kind = Some n \<Longrightarrow> limit_of (policy_binds reg free requested) kind \<le> n"
proof -
  have *: "find (\<lambda>b. pb_kind b = kind) (policy_binds reg free requested) =
      map_option (policy_bind_of free requested) (find (\<lambda>e. reg_name e = kind) reg)"
    by (induction reg) (simp_all add: policy_binds_def policy_bind_of_def)
  have lim: "limit_of (policy_binds reg free requested) kind =
      (if find (\<lambda>e. reg_name e = kind) reg = None then 0
       else case free kind of None \<Rightarrow> requested | Some n \<Rightarrow> min requested (as_i64 n))"
  proof (cases "find (\<lambda>e. reg_name e = kind) reg")
    case (Some e)
    then have "reg_name e = kind" using find_Some_mem[OF Some] by blast
    with Some show ?thesis by (simp add: limit_of_def * policy_bind_of_def)
  qed (simp add: limit_of_def *)
  show "limit_of (policy_binds reg free requested) kind \<le> requested"
    by (simp add: lim split: option.split)
  show "limit_of (policy_binds reg free requested) kind \<le> n" if "free kind = Some n"
    using as_i64_le[of n] that by (auto simp: lim min_def)
qed

text \<open>
  C37. Every claimed job gets its supervisor. When the answer of a claim arrives, for a registry of
  distinct kinds, a round that asked for as many jobs as it holds permits decodes, and dispatch
  never runs out of permits: the supervisors it spawns are exactly the claims the statement
  opened (the exhausted rows apart), each uses one permit, and each attempt of a limited kind
  holds a place of its kind.
\<close>

theorem claimed_jobs_all_start:
  assumes "sound q" "distinct (map reg_name reg)"
    and "send_claim reg free now worker locked sent True requested q = (q', rnd)"
    and "s = \<lparr>permits = requested, kind_free = free, spawned = [], exhausted_seen = []\<rparr>"
  shows "\<exists>ds out. rnd = RoundKnown sent ds
    \<and> claim now worker locked (policy_binds reg free requested) requested q = Inr (q', out)
    \<and> map (\<lambda>(c, _). (cl_id c, cl_generation c)) (spawned (fst (finish_round reg requested rnd s))) =
        map (\<lambda>r. (j_id r, j_generation r)) (filter (\<lambda>r. j_state r = Running) out)
    \<and> permits (fst (finish_round reg requested rnd s))
        + length (spawned (fst (finish_round reg requested rnd s))) = requested
    \<and> list_all (\<lambda>(c, _, held). held = (free (cl_kind c) \<noteq> None))
        (spawned (fst (finish_round reg requested rnd s)))"
proof -
  let ?binds = "policy_binds reg free requested"
  let ?P = "picked now locked ?binds requested (rows q)"
  have binds: "binds_ok ?binds" by (rule policy_binds_ok[OF assms(2)])
  then have kinds: "distinct (map pb_kind ?binds)" by (simp add: binds_ok_def)
  have ids: "distinct (map j_id (rows q))" using assms(1) by (simp add: queue_ok_def)
  obtain q1 out where c: "claim now worker locked ?binds requested q = Inr (q1, out)" "sound q1"
    "mset (map j_kind out) = mset (map j_kind ?P)"
    "set out \<subseteq> set (rows q1)" "\<forall>r \<in> set out. j_state r = Running \<or> j_state r = Failed"
    by (rule claim_effect[OF assms(1) binds, of now worker locked requested], rule that)
  have "registry_get reg (j_kind r) \<noteq> None" if "r \<in> set out" for r
  proof -
    have "j_kind r \<in> set (map j_kind ?P)" using c(3) that by (metis imageI list.set_map set_mset_mset)
    then have "j_kind r \<in> set (map pb_kind ?binds)"
      using picked_mem(2)[OF ids kinds] by (auto simp: eligible_def)
    then show ?thesis by (auto simp: registry_get_def find_None_iff policy_binds_def policy_bind_of_def)
  qed
  then have "is_ok (into_drawn reg now r)" if "r \<in> set out" for r
    using c(2,4,5) that into_drawn_ok queue_ok_row(1) by blast
  then obtain ds where ds: "collect_results (map (into_drawn reg now) out) = Inr ds"
    using collect_results_total by metis
  have q1: "q1 = q'" "rnd = RoundKnown sent ds" using assms(3) c(1) ds by (simp_all add: send_claim_def)
  note drawn = into_drawn_running[OF ds]
  let ?run = "filter (\<lambda>r. j_state r \<noteq> Failed) out"
  have some_kinds: "mset (map (\<lambda>x. cl_kind (fst x)) (running_of ds)) = mset (map j_kind ?run)"
    using arg_cong[OF conjunct1[OF drawn], of "\<lambda>xs. mset (map (\<lambda>(_, _, k). k) xs)"]
    by (simp add: comp_def case_prod_unfold)
  have per_kind: "length (filter (\<lambda>(c, d). cl_kind c = k) (running_of ds)) \<le> n" if "free k = Some n" for k n
  proof -
    have "length (filter (\<lambda>(c, d). cl_kind c = k) (running_of ds)) = length (filter (\<lambda>r. j_kind r = k) ?run)"
      using length_filter_key[of "\<lambda>x. cl_kind (fst x)" k "running_of ds"] length_filter_key[of j_kind k ?run] some_kinds
      by (simp add: case_prod_unfold)
    also have "\<dots> \<le> length (filter (\<lambda>r. j_kind r = k) out)"
      using length_filter_conj_le[of "\<lambda>r. j_kind r = k" "\<lambda>r. j_state r \<noteq> Failed" out]
      by (simp add: conj_commute)
    also have "\<dots> = length (filter (\<lambda>r. j_kind r = k) ?P)" using c(3) by (simp add: length_filter_key)
    also have "\<dots> \<le> n"
      using picked_kind_limit[OF ids kinds] limit_of_binds(2)[of free k n reg requested] that by (meson le_trans)
    finally show ?thesis .
  qed
  have total: "length (running_of ds) \<le> requested"
  proof -
    have "length (running_of ds) = length ?run" using arg_cong[OF conjunct1[OF drawn], of length] by simp
    moreover have "length out = length ?P" using c(3) by (metis length_map size_mset)
    ultimately show ?thesis
      using picked_length[of now locked ?binds requested "rows q"] length_filter_le[of _ out] by (metis le_trans)
  qed
  have disp: "permits (dispatch_known reg sent ds s) = requested - length (running_of ds)
    \<and> spawned (dispatch_known reg sent ds s) =
        map (\<lambda>(c, d). (c, local_deadline sent d, free (cl_kind c) \<noteq> None)) (running_of ds)"
    using dispatch_all[of ds s reg sent] total per_kind drawn by (simp add: assms(4))
  have "filter (\<lambda>r. j_state r = Running) out = ?run" using c(5) by (auto intro!: filter_cong)
  moreover have "map (\<lambda>(c, d). (cl_id c, cl_generation c)) (running_of ds) =
      map (\<lambda>r. (j_id r, j_generation r)) ?run"
    using arg_cong[OF conjunct1[OF drawn], of "map (\<lambda>(a, b, _). (a, b))"]
    by (simp add: comp_def case_prod_unfold)
  ultimately show ?thesis
    using disp total c(1) q1
    by (auto simp: finish_round_def comp_def case_prod_unfold list_all_iff)
qed

theorem claimed_jobs_all_start_witness:
  "\<exists>ds. snd (send_claim demo_registry (\<lambda>_. None) 200 9 {} 0 True 5 demo_pending) = RoundKnown 0 ds"
proof -
  have "distinct (map reg_name demo_registry)" by (simp add: demo_registry_def register_def)
  from claimed_jobs_all_start[OF demo_pending_sound this, of "\<lambda>_. None" 200 9 "{}" 0 5
      "fst (send_claim demo_registry (\<lambda>_. None) 200 9 {} 0 True 5 demo_pending)"
      "snd (send_claim demo_registry (\<lambda>_. None) 200 9 {} 0 True 5 demo_pending)"]
  show ?thesis by auto
qed

end
