(* ===== verification/JobOperator.thy ===== *)
theory JobOperator
  imports JobClaim
begin

text \<open>
  \<open>crates/infra-jobs/src/operator.rs\<close>: admission of operator requests, bounded inspection of the
  queue, and the version-fenced recovery of one failed job.

  Parsing and printing of UUIDs belong to the \<open>uuid\<close> package and are parameters: \<open>parse_uuid\<close> is
  \<open>Uuid::try_parse\<close> and \<open>uuid_text\<close> the \<open>Display\<close> form, both with a UUID as its 128-bit number (the
  nil UUID is zero). Timestamps stay in microseconds instead of the text the statement prints.
\<close>

definition MAX_PAGE :: nat where "MAX_PAGE = 500"
definition MAX_HANDLED_KINDS :: nat where "MAX_HANDLED_KINDS = 1024"
definition MAX_HANDLED_BYTES :: nat where "MAX_HANDLED_BYTES = MAX_HANDLED_KINDS * 65 - 1"

subsection \<open>Admission\<close>

datatype input_error = IdError | KindError | VersionError | CursorError | LimitError | HandledKindsError

record recovery_target =
  rt_id :: job_id
  rt_kind :: string
  rt_version :: nat

definition parse_id :: "(string \<Rightarrow> nat option) \<Rightarrow> string \<Rightarrow> input_error + job_id" where
  "parse_id parse_uuid v =
     (case parse_uuid v of
        None \<Rightarrow> Inl IdError
      | Some n \<Rightarrow> if n = 0 then Inl IdError else Inr (JobId n))"

text \<open>\<open>str::parse::<i64>\<close> of a text of decimal digits.\<close>

definition decimal_value :: "string \<Rightarrow> nat" where
  "decimal_value ds = foldl (\<lambda>n d. 10 * n + (of_char d - 48)) 0 ds"

definition try_new ::
  "(string \<Rightarrow> nat option) \<Rightarrow> string \<Rightarrow> string \<Rightarrow> string \<Rightarrow> input_error + recovery_target" where
  "try_new parse_uuid idt kind version =
     bind_result (parse_id parse_uuid idt) (\<lambda>jid.
       if \<not> is_valid_kind_name kind then Inl KindError
       else if version = [] \<or> \<not> list_all is_ascii_digit version then Inl VersionError
       else if decimal_value version > i64_max then Inl VersionError
       else Inr \<lparr>rt_id = jid, rt_kind = kind, rt_version = decimal_value version\<rparr>)"

datatype row_filter = OnlyFailed | Unhandled "string set"

datatype request = RequestOne job_id | RequestPage "job_id option" nat row_filter

text \<open>\<open>str::split(',')\<close>.\<close>

definition split_commas :: "string \<Rightarrow> string list" where
  "split_commas = split_on (\<lambda>c. c = CHR '','')"

definition admit_cursor ::
  "(string \<Rightarrow> nat option) \<Rightarrow> (nat \<Rightarrow> string) \<Rightarrow> string \<Rightarrow> input_error + job_id" where
  "admit_cursor parse_uuid uuid_text cursor =
     (if length cursor \<noteq> 39 then Inl CursorError
      else case strip_prefix ''v1:'' cursor of
             None \<Rightarrow> Inl CursorError
           | Some t \<Rightarrow>
               (case parse_id parse_uuid t of
                  Inl _ \<Rightarrow> Inl CursorError
                | Inr jid \<Rightarrow> if uuid_text (uuid jid) \<noteq> t then Inl CursorError else Inr jid))"

definition page ::
  "(string \<Rightarrow> nat option) \<Rightarrow> (nat \<Rightarrow> string) \<Rightarrow> string option \<Rightarrow> nat \<Rightarrow> row_filter
   \<Rightarrow> input_error + request" where
  "page parse_uuid uuid_text after limit flt =
     (if \<not> (1 \<le> limit \<and> limit \<le> MAX_PAGE) then Inl LimitError
      else case after of
             None \<Rightarrow> Inr (RequestPage None limit flt)
           | Some cursor \<Rightarrow>
               bind_result (admit_cursor parse_uuid uuid_text cursor)
                 (\<lambda>jid. Inr (RequestPage (Some jid) limit flt)))"

definition inspection_one :: "(string \<Rightarrow> nat option) \<Rightarrow> string \<Rightarrow> input_error + request" where
  "inspection_one parse_uuid idt = bind_result (parse_id parse_uuid idt) (\<lambda>jid. Inr (RequestOne jid))"

definition inspection_failed ::
  "(string \<Rightarrow> nat option) \<Rightarrow> (nat \<Rightarrow> string) \<Rightarrow> string option \<Rightarrow> nat \<Rightarrow> input_error + request" where
  "inspection_failed parse_uuid uuid_text after limit = page parse_uuid uuid_text after limit OnlyFailed"

definition inspection_unhandled ::
  "(string \<Rightarrow> nat option) \<Rightarrow> (nat \<Rightarrow> string) \<Rightarrow> string \<Rightarrow> string option \<Rightarrow> nat \<Rightarrow> input_error + request" where
  "inspection_unhandled parse_uuid uuid_text handled after limit =
     (if length handled > MAX_HANDLED_BYTES
         \<or> (handled \<noteq> [] \<and> length (filter (\<lambda>b. b = CHR '','') handled) \<ge> MAX_HANDLED_KINDS)
      then Inl HandledKindsError
      else if handled = [] then page parse_uuid uuid_text after limit (Unhandled {})
      else if list_all is_valid_kind_name (split_commas handled)
        then page parse_uuid uuid_text after limit (Unhandled (set (split_commas handled)))
        else Inl HandledKindsError)"

definition handled_kinds :: "request \<Rightarrow> string set option" where
  "handled_kinds r = (case r of RequestPage _ _ (Unhandled kinds) \<Rightarrow> Some kinds | _ \<Rightarrow> None)"

subsection \<open>Inspection\<close>

definition state_text :: "job_state \<Rightarrow> string" where
  "state_text s = (case s of Pending \<Rightarrow> ''pending'' | Running \<Rightarrow> ''running''
     | Completed \<Rightarrow> ''completed'' | Failed \<Rightarrow> ''failed'')"

record snapshot_row =
  sr_id :: job_id
  sr_kind :: string
  sr_state :: string
  sr_version :: nat
  sr_attempts :: int
  sr_failure_reason :: "string option"
  sr_created_at :: micros
  sr_not_before :: micros
  sr_claim_expires_at :: "micros option"
  sr_finished_at :: "micros option"
  sr_recovery_count :: nat

record job_snapshot =
  js_id :: job_id
  js_kind :: string
  js_state :: job_state
  js_version :: nat
  js_attempts :: int
  js_failure_reason :: "failure option"
  js_created_at :: micros
  js_not_before :: micros
  js_claim_expires_at :: "micros option"
  js_finished_at :: "micros option"
  js_recovery_count :: nat

text \<open>
  The failures of the transaction around an operation come from the code that runs it, not from the operations below.
\<close>

datatype operator_tx = AcquireFailed | BeginFailed | CommitRefused | CommitUncertain

datatype operator_error =
    Missing | Stale | Conflict | OperatorDatabase db_error | OperatorTransaction operator_tx | InvalidStoredState

definition operator_commit_unknown :: "operator_error \<Rightarrow> bool" where
  "operator_commit_unknown e = (e = OperatorTransaction CommitUncertain)"

definition operator_cause :: "operator_error \<Rightarrow> string" where
  "operator_cause e = (case e of Missing \<Rightarrow> ''missing'' | Stale \<Rightarrow> ''stale'' | Conflict \<Rightarrow> ''conflict''
     | OperatorDatabase _ \<Rightarrow> ''database'' | InvalidStoredState \<Rightarrow> ''invalid_stored_state''
     | OperatorTransaction AcquireFailed \<Rightarrow> ''acquire'' | OperatorTransaction BeginFailed \<Rightarrow> ''begin''
     | OperatorTransaction CommitRefused \<Rightarrow> ''commit_failed'' | OperatorTransaction CommitUncertain \<Rightarrow> ''commit_unknown'')"

definition select_snapshot :: "job_row \<Rightarrow> snapshot_row" where
  "select_snapshot r =
     \<lparr>sr_id = j_id r, sr_kind = j_kind r, sr_state = state_text (j_state r), sr_version = j_generation r,
      sr_attempts = j_attempts r, sr_failure_reason = map_option failure_label (j_failure_reason r),
      sr_created_at = j_created_at r, sr_not_before = j_not_before r,
      sr_claim_expires_at = j_claim_expires_at r, sr_finished_at = j_finished_at r,
      sr_recovery_count = length (j_recovery r)\<rparr>"

definition job_snapshot_of :: "snapshot_row \<Rightarrow> operator_error + job_snapshot" where
  "job_snapshot_of row =
     bind_result
       (if sr_state row = ''pending'' then Inr Pending
        else if sr_state row = ''running'' then Inr Running
        else if sr_state row = ''completed'' then Inr Completed
        else if sr_state row = ''failed'' then Inr Failed
        else Inl InvalidStoredState) (\<lambda>state.
     bind_result
       (case sr_failure_reason row of
          None \<Rightarrow> Inr None
        | Some t \<Rightarrow> if t = ''permanent'' then Inr (Some PermanentFailure)
                    else if t = ''exhausted'' then Inr (Some Exhausted)
                    else Inl InvalidStoredState) (\<lambda>reason.
     Inr \<lparr>js_id = sr_id row, js_kind = sr_kind row, js_state = state, js_version = sr_version row,
          js_attempts = sr_attempts row, js_failure_reason = reason,
          js_created_at = sr_created_at row, js_not_before = sr_not_before row,
          js_claim_expires_at = sr_claim_expires_at row, js_finished_at = sr_finished_at row,
          js_recovery_count = sr_recovery_count row\<rparr>))"

datatype inspection_result =
    ResultOne (one_at: micros) (one_item: "job_snapshot option")
  | ResultPage (page_at: micros) (scanned: nat) (page_items: "job_snapshot list") (page_complete: bool)
      (next_cursor: "string option")

definition include_item :: "row_filter \<Rightarrow> job_snapshot \<Rightarrow> bool" where
  "include_item flt item =
     (case flt of
        OnlyFailed \<Rightarrow> js_state item = Failed
      | Unhandled kinds \<Rightarrow>
          (js_state item = Pending \<or> js_state item = Running) \<and> js_kind item \<notin> kinds)"

fun page_items_from :: "row_filter \<Rightarrow> snapshot_row list \<Rightarrow> operator_error + job_snapshot list" where
  "page_items_from flt [] = Inr []"
| "page_items_from flt (row # rest) =
     bind_result (job_snapshot_of row) (\<lambda>item.
       bind_result (page_items_from flt rest) (\<lambda>items.
         Inr (if include_item flt item then item # items else items)))"

definition inspect ::
  "(nat \<Rightarrow> string) \<Rightarrow> micros \<Rightarrow> request \<Rightarrow> queue \<Rightarrow> operator_error + inspection_result" where
  "inspect uuid_text now req q =
     (case req of
        RequestOne jid \<Rightarrow>
          (case find_job jid q of
             None \<Rightarrow> Inr (ResultOne now None)
           | Some r \<Rightarrow> bind_result (job_snapshot_of (select_snapshot r))
                         (\<lambda>item. Inr (ResultOne now (Some item))))
      | RequestPage after limit flt \<Rightarrow>
          (let selected = (case after of
                 None \<Rightarrow> rows q
               | Some a \<Rightarrow> filter (\<lambda>r. a < j_id r) (rows q));
               found = map select_snapshot (take limit (sort_key j_id selected))
           in if length found > u16_max then Inl InvalidStoredState
              else
                (let whole = length found < limit;
                     cursor = (if whole \<or> found = [] then None
                               else Some (''v1:'' @ uuid_text (uuid (sr_id (last found)))))
                 in bind_result (page_items_from flt found)
                      (\<lambda>items. Inr (ResultPage now (length found) items whole cursor)))))"

subsection \<open>Recovery\<close>

definition lock_failed :: "recovery_target \<Rightarrow> queue \<Rightarrow> operator_error + unit" where
  "lock_failed t q =
     (case find_job (rt_id t) q of
        None \<Rightarrow> Inl Missing
      | Some r \<Rightarrow>
          if j_kind r \<noteq> rt_kind t \<or> j_state r \<noteq> Failed \<or> j_generation r \<noteq> rt_version t
          then Inl Stale else Inr ())"

definition recovery_of :: "micros \<Rightarrow> job_row \<Rightarrow> recovery_entry" where
  "recovery_of now r =
     \<lparr>rec_version = j_generation r, rec_attempts = j_attempts r,
      rec_failure_reason = j_failure_reason r, rec_finished_at = j_finished_at r,
      rec_attempted_by = j_attempted_by r, rec_error_summary = j_error_summary r,
      rec_errors = j_errors r, rec_redriven_at = now\<rparr>"

definition redrive_row :: "micros \<Rightarrow> nat \<Rightarrow> job_row \<Rightarrow> job_row" where
  "redrive_row now gen r =
     r\<lparr>j_recovery := j_recovery r @ [recovery_of now r], j_state := Pending, j_not_before := now,
       j_attempts := 0, j_generation := gen, j_claim_expires_at := None, j_attempted_by := None,
       j_finished_at := None, j_failure_reason := None, j_error_summary := None, j_errors := []\<rparr>"

definition recovery_match :: "recovery_target \<Rightarrow> job_row \<Rightarrow> bool" where
  "recovery_match t r =
     (j_id r = rt_id t \<and> j_kind r = rt_kind t \<and> j_generation r = rt_version t \<and> j_state r = Failed)"

text \<open>The identifier is the primary key, so the statement draws at most one generation.\<close>

definition redrive :: "micros \<Rightarrow> recovery_target \<Rightarrow> queue \<Rightarrow> operator_error + queue \<times> nat" where
  "redrive now t q =
     bind_result (lock_failed t q) (\<lambda>_.
       if \<not> list_ex (recovery_match t) (rows q) then Inl Stale
       else case install q
              (map (\<lambda>r. if recovery_match t r then redrive_row now (Suc (sequence q)) r else r) (rows q))
              (Suc (sequence q)) of
              Inl LiveKeyViolation \<Rightarrow> Inl Conflict
            | Inl e \<Rightarrow> Inl (OperatorDatabase e)
            | Inr q' \<Rightarrow> Inr (q', Suc (sequence q)))"

definition discard :: "recovery_target \<Rightarrow> queue \<Rightarrow> operator_error + queue" where
  "discard t q =
     bind_result (lock_failed t q) (\<lambda>_.
       let (q', n) = delete_where (recovery_match t) q
       in if n \<noteq> 1 then Inl Stale else Inr q')"

subsection \<open>Recovery is fenced\<close>

lemma split_at_row:
  assumes "queue_ok q" "find_job jid q = Some r"
  obtains xs ys where "rows q = xs @ r # ys" "\<forall>s \<in> set (xs @ ys). j_id s \<noteq> jid" "j_id r = jid"
proof -
  have r: "r \<in> set (rows q)" "j_id r = jid" using find_job_SomeD[OF assms(2)] by auto
  then obtain xs ys where xs: "rows q = xs @ r # ys" by (meson split_list)
  moreover have "\<forall>s \<in> set (xs @ ys). j_id s \<noteq> jid"
  proof -
    have "j_id r \<notin> j_id ` (set xs \<union> set ys)" using assms(1) unfolding queue_ok_def xs by auto
    with r(2) show ?thesis by (metis imageI set_append)
  qed
  ultimately show ?thesis using that r(2) by blast
qed

lemma live_keys_append [simp]: "live_keys (xs @ ys) = live_keys xs @ live_keys ys"
  by (simp add: live_keys_def)

lemma live_keys_cons:
  "live_keys (r # rs) =
     (if live r \<and> j_unique_key r \<noteq> None then [(j_kind r, j_unique_key r)] else []) @ live_keys rs"
  by (simp add: live_keys_def)

lemma redrive_row_simps [simp]:
  "j_id (redrive_row now g r) = j_id r" "j_kind (redrive_row now g r) = j_kind r"
  "j_unique_key (redrive_row now g r) = j_unique_key r" "j_generation (redrive_row now g r) = g"
  "j_state (redrive_row now g r) = Pending" "row_ok (redrive_row now g r)" "live (redrive_row now g r)"
  by (simp_all add: redrive_row_def row_ok_def live_def)

lemma claim_generations_append [simp]:
  "claim_generations (xs @ ys) = claim_generations xs @ claim_generations ys"
  by (simp add: claim_generations_def)

lemma claim_generations_cons:
  "claim_generations (r # rs) = (if j_generation r \<noteq> 0 then [j_generation r] else []) @ claim_generations rs"
  by (simp add: claim_generations_def)

lemma redrive_install:
  fixes now :: micros
  assumes ok: "sound q" and r: "find_job (rt_id t) q = Some r" "recovery_match t r"
  defines "rs' \<equiv> map (\<lambda>s. if recovery_match t s then redrive_row now (Suc (sequence q)) s else s) (rows q)"
  shows "install q rs' (Suc (sequence q)) =
      (if list_ex (live_holder (j_kind r) (j_unique_key r)) (rows q) then Inl LiveKeyViolation
       else Inr (q\<lparr>rows := rs', sequence := Suc (sequence q)\<rparr>))"
    and "\<not> list_ex (live_holder (j_kind r) (j_unique_key r)) (rows q) \<Longrightarrow>
      sound (q\<lparr>rows := rs', sequence := Suc (sequence q)\<rparr>)"
proof -
  obtain xs ys where xs: "rows q = xs @ r # ys" "\<forall>s \<in> set (xs @ ys). j_id s \<noteq> rt_id t" "j_id r = rt_id t"
    using split_at_row ok r(1) by blast
  let ?r = "redrive_row now (Suc (sequence q)) r"
  have none: "map (\<lambda>s. if recovery_match t s then redrive_row now (Suc (sequence q)) s else s) zs = zs"
    if "set zs \<subseteq> set (xs @ ys)" for zs
    using xs(2) that by (intro map_idI) (auto simp: recovery_match_def)
  have rs': "rs' = xs @ ?r # ys"
    using none[of xs] none[of ys] r(2) by (simp add: rs'_def xs(1))
  have dead: "\<not> live r" using r(2) by (simp add: recovery_match_def live_def)
  have old: "live_keys (rows q) = live_keys xs @ live_keys ys"
    by (simp add: xs(1) live_keys_cons dead)
  have rows_ok: "list_all row_ok rs'" using ok by (simp add: rs' queue_ok_def xs(1))
  have keys: "distinct (live_keys rs') \<longleftrightarrow> \<not> list_ex (live_holder (j_kind r) (j_unique_key r)) (rows q)"
  proof (cases "j_unique_key r = None")
    case True
    then have "\<not> list_ex (live_holder (j_kind r) (j_unique_key r)) (rows q)"
      by (simp add: live_holder_def list_ex_iff)
    with True ok old show ?thesis by (auto simp: rs' live_keys_cons queue_ok_def)
  next
    case False
    have "distinct (live_keys xs @ live_keys ys)" using ok old by (simp add: queue_ok_def)
    with False show ?thesis
      unfolding live_keys_holder[symmetric] old by (auto simp: rs' live_keys_cons)
  qed
  show "install q rs' (Suc (sequence q)) =
      (if list_ex (live_holder (j_kind r) (j_unique_key r)) (rows q) then Inl LiveKeyViolation
       else Inr (q\<lparr>rows := rs', sequence := Suc (sequence q)\<rparr>))"
    using rows_ok keys by (simp add: install_def)
  assume "\<not> list_ex (live_holder (j_kind r) (j_unique_key r)) (rows q)"
  then have "distinct (live_keys rs')" using keys by simp
  moreover have "\<forall>s \<in> set (rows q). j_generation s < Suc (sequence q)"
    using ok by (auto simp: queue_ok_def less_Suc_eq_le)
  moreover have "distinct (claim_generations (xs @ ys))"
    using ok by (auto simp: queue_ok_def xs(1) claim_generations_cons split: if_splits)
  moreover have "Suc (sequence q) \<notin> set (claim_generations (xs @ ys))"
    using calculation(2) by (auto simp: claim_generations_def xs(1))
  ultimately have "distinct (claim_generations rs')" by (auto simp: rs' claim_generations_cons)
  moreover have "map j_id rs' = map j_id (rows q)" by (simp add: rs' xs(1))
  moreover have "\<forall>s \<in> set rs'. j_generation s \<le> Suc (sequence q)"
    using \<open>\<forall>s \<in> set (rows q). j_generation s < Suc (sequence q)\<close>
    by (auto simp: rs' xs(1) intro: less_imp_le)
  ultimately have "queue_ok (q\<lparr>rows := rs', sequence := Suc (sequence q)\<rparr>)"
    using ok rows_ok \<open>distinct (live_keys rs')\<close> by (simp add: queue_ok_def)
  moreover have "charged (q\<lparr>rows := rs', sequence := Suc (sequence q)\<rparr>)"
    using ok by (simp add: charged_def rs' xs(1))
  ultimately show "sound (q\<lparr>rows := rs', sequence := Suc (sequence q)\<rparr>)" by simp
qed

text \<open>
  Recovery is fenced by identity, kind, state and version, and exact. A redrive refuses a missing
  job, a job that is not the inspected failed cycle, and a job whose unique key a live job holds,
  leaving the queue alone; otherwise it archives the failed cycle, makes that job alone pending
  again with a full attempt budget and draws a generation above every earlier one, so that no
  claim of the old cycle can write to it. The queue stays well-formed.
\<close>

lemma redrive_exact:
  assumes ok: "sound q"
  shows "case find_job (rt_id t) q of
      None \<Rightarrow> redrive now t q = Inl Missing
    | Some r \<Rightarrow>
        (if \<not> recovery_match t r then redrive now t q = Inl Stale
         else if list_ex (live_holder (j_kind r) (j_unique_key r)) (rows q)
           then redrive now t q = Inl Conflict
         else \<exists>q'. redrive now t q = Inr (q', Suc (sequence q)) \<and> sound q'
            \<and> find_job (rt_id t) q' = Some (redrive_row now (Suc (sequence q)) r)
            \<and> (\<forall>j. j \<noteq> rt_id t \<longrightarrow> find_job j q' = find_job j q)
            \<and> (\<forall>gen \<le> sequence q. \<not> claim_open (rt_id t) gen q'))"
proof (cases "find_job (rt_id t) q")
  case None
  then show ?thesis by (simp add: redrive_def lock_failed_def)
next
  case (Some r)
  have mem: "r \<in> set (rows q)" "j_id r = rt_id t" using find_job_SomeD[OF Some] by auto
  have lock: "lock_failed t q = (if recovery_match t r then Inr () else Inl Stale)"
    using Some mem(2) by (auto simp: lock_failed_def recovery_match_def)
  show ?thesis
  proof (cases "recovery_match t r")
    case False
    then show ?thesis using Some lock by (simp add: redrive_def)
  next
    case True
    let ?rs = "map (\<lambda>s. if recovery_match t s then redrive_row now (Suc (sequence q)) s else s) (rows q)"
    let ?q = "q\<lparr>rows := ?rs, sequence := Suc (sequence q)\<rparr>"
    have ex: "list_ex (recovery_match t) (rows q)" using True mem(1) by (auto simp: list_ex_iff)
    note inst = redrive_install[OF ok Some True, of now]
    have look: "find_job j ?q = map_option (\<lambda>s. if recovery_match t s
        then redrive_row now (Suc (sequence q)) s else s) (find_job j q)" for j
      by (simp add: find_job_def find_map_same_id)
    have other: "find_job j ?q = find_job j q" if "j \<noteq> rt_id t" for j
      unfolding look using that
      by (cases "find_job j q") (auto simp: recovery_match_def dest: find_job_SomeD)
    have fenced: "\<not> claim_open (rt_id t) gen ?q" for gen
    proof -
      have "\<not> fenced (rt_id t) gen s" if "s \<in> set ?rs" for s
      proof
        assume f: "fenced (rt_id t) gen s"
        from that obtain s0 where s0: "s0 \<in> set (rows q)"
          "s = (if recovery_match t s0 then redrive_row now (Suc (sequence q)) s0 else s0)" by auto
        then have "j_id s0 = j_id r" using f mem(2) by (auto simp: fenced_def split: if_splits)
        then have "s0 = r" using s0(1) mem(1) ok distinct_map_inj_on[of j_id "rows q"] by (auto simp: queue_ok_def)
        then show False using f s0(2) True by (simp add: fenced_def redrive_row_def)
      qed
      then show ?thesis by (auto simp: claim_open_def list_ex_iff)
    qed
    show ?thesis
      using Some True lock ex inst look[of "rt_id t"] other fenced by (simp add: redrive_def)
  qed
qed

definition demo_failed :: queue where
  "demo_failed = \<lparr>rows = [demo_row\<lparr>j_state := Failed, j_attempts := 25, j_generation := 7,
     j_failure_reason := Some Exhausted, j_finished_at := Some 400\<rparr>], sequence = 7\<rparr>"

definition demo_target :: recovery_target where
  "demo_target = \<lparr>rt_id = JobId 1, rt_kind = ''mail.send'', rt_version = 7\<rparr>"

lemma demo_failed_sound: "queue_ok demo_failed" "charged demo_failed"
  by (simp_all add: demo_failed_def demo_row_def new_row_def demo_prepared_def queue_ok_def charged_def
      row_ok_def i16_max_def live_keys_def live_def claim_generations_def)

theorem redrive_exact_witness:
  "\<exists>q'. redrive 900 demo_target demo_failed = Inr (q', 8) \<and> sound q' \<and> \<not> claim_open (JobId 1) 7 q'"
  using redrive_exact[where q = demo_failed and t = demo_target and now = 900] demo_failed_sound
  by (auto simp: demo_failed_def demo_target_def demo_row_def new_row_def demo_prepared_def find_job_def
      recovery_match_def live_holder_def live_def)

lemma discard_exact:
  assumes ok: "sound q"
  shows "case find_job (rt_id t) q of
      None \<Rightarrow> discard t q = Inl Missing
    | Some r \<Rightarrow>
        (if \<not> recovery_match t r then discard t q = Inl Stale
         else \<exists>q'. discard t q = Inr q' \<and> sound q' \<and> find_job (rt_id t) q' = None
            \<and> rows q' = filter (\<lambda>s. j_id s \<noteq> rt_id t) (rows q))"
proof (cases "find_job (rt_id t) q")
  case None
  then show ?thesis by (simp add: discard_def lock_failed_def)
next
  case (Some r)
  have mem: "r \<in> set (rows q)" "j_id r = rt_id t" using find_job_SomeD[OF Some] by auto
  have lock: "lock_failed t q = (if recovery_match t r then Inr () else Inl Stale)"
    using Some mem(2) by (auto simp: lock_failed_def recovery_match_def)
  show ?thesis
  proof (cases "recovery_match t r")
    case False
    then show ?thesis using Some lock by (simp add: discard_def)
  next
    case True
    have same: "recovery_match t s \<longleftrightarrow> j_id s = rt_id t" if "s \<in> set (rows q)" for s
      using that mem True ok distinct_map_inj_on[of j_id "rows q" s r]
      by (auto simp: recovery_match_def queue_ok_def)
    have one: "length (filter (recovery_match t) (rows q)) = 1"
      using filter_one_id[of "rows q" "recovery_match t" "rt_id t"] ok True mem(1)
      by (auto simp: recovery_match_def queue_ok_def list_ex_iff)
    have kept: "filter (\<lambda>s. \<not> recovery_match t s) (rows q) = filter (\<lambda>s. j_id s \<noteq> rt_id t) (rows q)"
      using same by (intro filter_cong) auto
    have "queue_ok (fst (delete_where (recovery_match t) q))"
      using ok by (intro delete_where_queue_ok) simp
    then show ?thesis
      using Some True lock one kept ok
      by (auto simp: discard_def delete_where_def Let_def find_job_None charged_def list_all_iff)
  qed
qed

subsection \<open>Paging\<close>

text \<open>What an operator should see of a row, and which rows a filter asks for.\<close>

definition snapshot :: "job_row \<Rightarrow> job_snapshot" where
  "snapshot r =
     \<lparr>js_id = j_id r, js_kind = j_kind r, js_state = j_state r, js_version = j_generation r, js_attempts = j_attempts r,
      js_failure_reason = j_failure_reason r, js_created_at = j_created_at r, js_not_before = j_not_before r,
      js_claim_expires_at = j_claim_expires_at r, js_finished_at = j_finished_at r, js_recovery_count = length (j_recovery r)\<rparr>"

definition asked_for :: "row_filter \<Rightarrow> job_row \<Rightarrow> bool" where
  "asked_for flt r \<longleftrightarrow>
     (case flt of OnlyFailed \<Rightarrow> j_state r = Failed | Unhandled kinds \<Rightarrow> j_state r \<in> {Pending, Running} \<and> j_kind r \<notin> kinds)"

lemma job_snapshot_of_eq: "job_snapshot_of (select_snapshot r) = Inr (snapshot r)"
  by (cases "j_state r"; cases "j_failure_reason r")
    (auto simp: snapshot_def job_snapshot_of_def select_snapshot_def state_text_def failure_label_def split: failure.splits)

lemma snapshot_fields:
  "js_id (snapshot r) = j_id r" "js_state (snapshot r) = j_state r" "js_kind (snapshot r) = j_kind r"
  "js_version (snapshot r) = j_generation r" "js_failure_reason (snapshot r) = j_failure_reason r"
  by (simp_all add: snapshot_def)

lemma filter_asked_for: "filter (include_item flt) (map snapshot rs) = map snapshot (filter (asked_for flt) rs)"
  by (induction rs) (auto simp: include_item_def asked_for_def snapshot_fields split: row_filter.splits)

lemma page_items_eq:
  "page_items_from flt (map select_snapshot rs) = Inr (filter (include_item flt) (map snapshot rs))"
  by (induction rs) (simp_all add: job_snapshot_of_eq)

text \<open>
  An operator's walk over the pages: each next page is asked for with the cursor of the last one.
\<close>

fun walk ::
  "(string \<Rightarrow> nat option) \<Rightarrow> (nat \<Rightarrow> string) \<Rightarrow> micros \<Rightarrow> nat \<Rightarrow> row_filter \<Rightarrow> queue \<Rightarrow> nat
   \<Rightarrow> string option \<Rightarrow> job_snapshot list option" where
  "walk parse_uuid uuid_text now limit flt q 0 after = None"
| "walk parse_uuid uuid_text now limit flt q (Suc fuel) after =
     (case page parse_uuid uuid_text after limit flt of
        Inl _ \<Rightarrow> None
      | Inr req \<Rightarrow>
          (case inspect uuid_text now req q of
             Inr (ResultPage _ _ items whole cursor) \<Rightarrow>
               (if whole then Some items
                else map_option ((@) items) (walk parse_uuid uuid_text now limit flt q fuel cursor))
           | _ \<Rightarrow> None))"

text \<open>What the code relies on of the \<open>uuid\<close> package: the printed form parses back and has 36 bytes.\<close>

definition uuid_codec :: "(string \<Rightarrow> nat option) \<Rightarrow> (nat \<Rightarrow> string) \<Rightarrow> queue \<Rightarrow> bool" where
  "uuid_codec parse_uuid uuid_text q \<longleftrightarrow>
     (\<forall>r \<in> set (rows q). parse_uuid (uuid_text (uuid (j_id r))) = Some (uuid (j_id r))
        \<and> length (uuid_text (uuid (j_id r))) = 36 \<and> uuid (j_id r) \<noteq> 0)"

lemma admit_next_cursor:
  assumes "uuid_codec parse_uuid uuid_text q" "r \<in> set (rows q)"
  shows "admit_cursor parse_uuid uuid_text (''v1:'' @ uuid_text (uuid (j_id r))) = Inr (j_id r)"
  using assms by (simp add: uuid_codec_def admit_cursor_def parse_id_def)

lemma last_take_split:
  fixes f :: "'a \<Rightarrow> 'b::linorder"
  assumes "sorted_wrt (<) (map f xs)" "length xs \<ge> n" "n > 0"
  shows "filter (\<lambda>x. f (last (take n xs)) < f x) xs = drop n xs"
proof -
  have last: "last (take n xs) = xs ! (n - 1)"
    using assms(2,3) by (subst last_conv_nth) (auto simp: min_def)
  have "filter (\<lambda>x. f (xs ! (n - 1)) < f x) (take n xs) = []"
  proof -
    have "\<not> f (xs ! (n - 1)) < f (xs ! i)" if "i < n" for i
      using sorted_wrt_nth_less[OF assms(1), of i "n - 1"] that assms(2,3)
      by (cases "i = n - 1") (auto dest: order.asym)
    then show ?thesis using assms(2) by (auto simp: filter_empty_conv in_set_conv_nth)
  qed
  moreover have "filter (\<lambda>x. f (xs ! (n - 1)) < f x) (drop n xs) = drop n xs"
  proof -
    have "f (xs ! (n - 1)) < f (xs ! (n + i))" if "n + i < length xs" for i
      using sorted_wrt_nth_less[OF assms(1), of "n - 1" "n + i"] that assms(3) by auto
    then show ?thesis by (auto simp: filter_id_conv in_set_conv_nth)
  qed
  ultimately show ?thesis
    unfolding last by (metis append_Nil append_take_drop_id filter_append)
qed

definition page_rest :: "queue \<Rightarrow> job_id option \<Rightarrow> job_row list" where
  "page_rest q after = (case after of
     None \<Rightarrow> sort_key j_id (rows q)
   | Some a \<Rightarrow> filter (\<lambda>r. a < j_id r) (sort_key j_id (rows q)))"

lemma inspect_page:
  assumes "limit \<le> MAX_PAGE"
  shows "inspect uuid_text now (RequestPage after limit flt) q =
    (let L = page_rest q after; whole = length L < limit
     in Inr (ResultPage now (min limit (length L)) (filter (include_item flt) (map snapshot (take limit L)))
          whole (if whole \<or> L = [] \<or> limit = 0 then None
                 else Some (''v1:'' @ uuid_text (uuid (j_id (last (take limit L))))))))"
proof -
  have found: "sort_key j_id (case after of None \<Rightarrow> rows q | Some a \<Rightarrow> filter (\<lambda>r. a < j_id r) (rows q))
      = page_rest q after"
    by (cases after) (simp_all add: page_rest_def filter_sort)
  have small: "\<not> length (map select_snapshot (take limit L)) > u16_max" for L :: "job_row list"
    using assms by (simp add: MAX_PAGE_def u16_max_def min_def)
  have last: "sr_id (last (map select_snapshot xs)) = j_id (last xs)" if "xs \<noteq> []" for xs
    using that by (simp add: last_map select_snapshot_def)
  show ?thesis
    unfolding inspect_def request.case Let_def found if_not_P[OF small] page_items_eq bind_result_simps
    using last[of "take limit (page_rest q after)"]
    by (auto simp: min_def not_less not_le)
qed

lemma page_rest_sorted:
  assumes "queue_ok q"
  shows "sorted_wrt (<) (map j_id (page_rest q after))"
proof -
  have "sorted_wrt (<) (map j_id (sort_key j_id (rows q)))"
    using assms by (simp add: strict_sorted_iff distinct_map_sort queue_ok_def)
  then show ?thesis
    by (cases after) (auto simp: page_rest_def sorted_wrt_map intro: sorted_wrt_filter)
qed

lemma page_rest_next:
  assumes "queue_ok q" "0 < limit" "limit \<le> length (page_rest q after)"
  shows "page_rest q (Some (j_id (last (take limit (page_rest q after))))) = drop limit (page_rest q after)"
proof -
  let ?L = "page_rest q after"
  let ?r = "last (take limit ?L)"
  have "?r \<in> set ?L" using assms(2,3) by (metis in_set_takeD last_in_set length_greater_0_conv less_le_trans take_eq_Nil not_less_zero)
  then have "page_rest q (Some (j_id ?r)) = filter (\<lambda>r. j_id ?r < j_id r) ?L"
    by (cases after) (auto simp: page_rest_def intro!: filter_cong)
  then show ?thesis using last_take_split[OF page_rest_sorted[OF assms(1)] assms(3,2)] by simp
qed

lemma walk_rest:
  assumes ok: "queue_ok q" and codec: "uuid_codec parse_uuid uuid_text q"
    and limit: "1 \<le> limit" "limit \<le> MAX_PAGE"
  shows "page parse_uuid uuid_text after limit flt = Inr (RequestPage aft limit flt) \<Longrightarrow>
    length (page_rest q aft) < fuel \<Longrightarrow>
    walk parse_uuid uuid_text now limit flt q fuel after =
      Some (filter (include_item flt) (map snapshot (page_rest q aft)))"
proof (induction fuel arbitrary: after aft)
  case (Suc fuel)
  let ?L = "page_rest q aft"
  show ?case
  proof (cases "length ?L < limit")
    case True
    then show ?thesis using Suc.prems(1) by (simp add: inspect_page[OF limit(2)] Let_def)
  next
    case False
    let ?r = "last (take limit ?L)"
    have ne: "take limit ?L \<noteq> []" using False limit(1) by auto
    then have "?r \<in> set ?L" by (metis in_set_takeD last_in_set)
    then have r: "?r \<in> set (rows q)" by (cases aft) (auto simp: page_rest_def)
    let ?c = "''v1:'' @ uuid_text (uuid (j_id ?r))"
    have "page parse_uuid uuid_text (Some ?c) limit flt = Inr (RequestPage (Some (j_id ?r)) limit flt)"
      using admit_next_cursor[OF codec r] limit by (simp add: page_def)
    moreover have rest: "page_rest q (Some (j_id ?r)) = drop limit ?L"
      using page_rest_next[OF ok] False limit(1) by simp
    ultimately have "walk parse_uuid uuid_text now limit flt q fuel (Some ?c) =
        Some (filter (include_item flt) (map snapshot (drop limit ?L)))"
      using Suc.IH[of "Some ?c" "Some (j_id ?r)"] Suc.prems(2) False limit(1) by simp
    moreover have "filter (include_item flt) (map snapshot (take limit ?L))
        @ filter (include_item flt) (map snapshot (drop limit ?L)) = filter (include_item flt) (map snapshot ?L)"
      by (metis append_take_drop_id filter_append map_append)
    ultimately show ?thesis
      using Suc.prems(1) False ne limit by (auto simp: inspect_page[OF limit(2)] Let_def)
  qed
qed simp

text \<open>
  C40. Paging loses and repeats nothing. On a well-formed queue that does not change meanwhile, an
  operator who follows the cursors from the first page on, with any admitted page size, gets to a
  complete page after at most one page more than there are rows, and has then seen every row
  the filter asks for (the failed ones, or the live ones of other kinds) exactly once, with its current
  fields and in the order of the identifiers: each cursor the code prints is one it admits.
\<close>

theorem paging_complete:
  assumes "queue_ok q" "uuid_codec parse_uuid uuid_text q" "1 \<le> limit" "limit \<le> 500"
    and "length (rows q) < fuel"
  shows "walk parse_uuid uuid_text now limit flt q fuel None =
    Some (map snapshot (filter (asked_for flt) (sort_key j_id (rows q))))"
  using walk_rest[OF assms(1,2), of limit None flt None fuel now] assms(3-5)
  by (simp add: MAX_PAGE_def page_def page_rest_def filter_asked_for)

theorem paging_complete_witness:
  "walk (\<lambda>t. if t = replicate 36 CHR ''0'' then Some 1 else None) (\<lambda>_. replicate 36 CHR ''0'')
     0 1 OnlyFailed demo_failed 2 None = Some [snapshot (hd (rows demo_failed))]"
proof -
  have "uuid_codec (\<lambda>t. if t = replicate 36 CHR ''0'' then Some 1 else None) (\<lambda>_. replicate 36 CHR ''0'') demo_failed"
    by (simp add: uuid_codec_def demo_failed_def demo_row_def new_row_def)
  from paging_complete[OF demo_failed_sound(1) this, of 1 2 0 OnlyFailed] show ?thesis
    by (simp add: demo_failed_def asked_for_def)
qed

end
