(* ===== verification/JobMaintenance.thy ===== *)
theory JobMaintenance
  imports JobOperator "HOL-Library.List_Lexorder" "HOL-Library.Char_ord"
begin

text \<open>
  \<open>crates/infra-jobs/src/maintenance.rs\<close> and the shared state of \<open>engine.rs\<close>: the startup check,
  completed retention, the sampling of registered kinds, the peers of one worker process, the
  failure flags of the operations and the guards of the engine's tasks.
\<close>

definition RETAIN_COMPLETED_FOR :: micros where "RETAIN_COMPLETED_FOR = as_micros (from_hours 24)"
definition RETENTION_BATCH_ROWS :: nat where "RETENTION_BATCH_ROWS = 500"
definition LIVE_JOBS_SAMPLE_CAP :: nat where "LIVE_JOBS_SAMPLE_CAP = 1000"

subsection \<open>Startup check\<close>

datatype startup_error = UnsupportedEncoding | NotWritable | UnsupportedIsolation | Unavailable

text \<open>The answer of the session query within its budget, an error of it, or the budget's end.\<close>

datatype session_answer = Session string bool bool | SessionError | SessionTimeout

definition check_startup :: "session_answer \<Rightarrow> startup_error + unit" where
  "check_startup a =
     (case a of
        Session encoding writable read_committed \<Rightarrow>
          if encoding \<noteq> ''UTF8'' then Inl UnsupportedEncoding
          else if \<not> writable then Inl NotWritable
          else if \<not> read_committed then Inl UnsupportedIsolation
          else Inr ()
      | SessionError \<Rightarrow> Inl Unavailable
      | SessionTimeout \<Rightarrow> Inl Unavailable)"

subsection \<open>Retention\<close>

definition retention_expired :: "micros \<Rightarrow> job_row \<Rightarrow> bool" where
  "retention_expired now r =
     (j_state r = Completed \<and>
      (case j_finished_at r of None \<Rightarrow> False | Some t \<Rightarrow> t + RETAIN_COMPLETED_FOR \<le> now))"

text \<open>The batch statement: the oldest unlocked expired rows, ties in table order.\<close>

definition expired_batch :: "micros \<Rightarrow> job_id set \<Rightarrow> job_row list \<Rightarrow> job_row list" where
  "expired_batch now locked rs =
     take RETENTION_BATCH_ROWS (sort_key (\<lambda>r. the (j_finished_at r))
       (filter (\<lambda>r. retention_expired now r \<and> j_id r \<notin> locked) rs))"

definition delete_batch :: "micros \<Rightarrow> job_id set \<Rightarrow> queue \<Rightarrow> queue \<times> nat" where
  "delete_batch now locked q =
     (let ids = map j_id (expired_batch now locked (rows q))
      in delete_where (\<lambda>r. j_id r \<in> set ids) q)"

text \<open>
  One turn of the pass: whether the token is cancelled before and after admission, whether the
  budget admits the batch, and what happens to the batch: it commits; it fails with its effect
  undone; or it fails although its transaction committed.
\<close>

datatype batch_event =
    BatchCommits micros "job_id set"
  | BatchFails
  | BatchUnknown micros "job_id set"

record pass_turn =
  cancelled_before :: bool
  admitted :: bool
  cancelled_after :: bool
  batch :: batch_event

datatype pass_disposition = PassCompleted | PassBudgetExhausted | PassCancelled

text \<open>\<^term>\<open>None\<close> as the answer: the pass is still running when the given turns are over.\<close>

fun remove_expired_with_cancel ::
  "pass_turn list \<Rightarrow> nat \<Rightarrow> queue \<Rightarrow> queue \<times> (unit + nat \<times> pass_disposition) option" where
  "remove_expired_with_cancel [] removed q = (q, None)"
| "remove_expired_with_cancel (e # es) removed q =
     (if cancelled_before e then (q, Some (Inr (removed, PassCancelled)))
      else if cancelled_after e then (q, Some (Inr (removed, PassCancelled)))
      else if \<not> admitted e then (q, Some (Inr (removed, PassBudgetExhausted)))
      else case batch e of
             BatchFails \<Rightarrow> (q, Some (Inl ()))
           | BatchUnknown now locked \<Rightarrow> (fst (delete_batch now locked q), Some (Inl ()))
           | BatchCommits now locked \<Rightarrow>
               (let (q', n) = delete_batch now locked q;
                    removed' = min (removed + n) u64_max
                in if n < RETENTION_BATCH_ROWS then (q', Some (Inr (removed', PassCompleted)))
                   else remove_expired_with_cancel es removed' q'))"

subsection \<open>Peers and samples\<close>

record peer =
  peer_kinds :: "string list"
  peer_woken :: bool

definition registered_kinds :: "peer list \<Rightarrow> string list" where
  "registered_kinds peers = remdups_adj (sort (concat (map peer_kinds peers)))"

definition wake_peers :: "string option \<Rightarrow> peer list \<Rightarrow> peer list" where
  "wake_peers kind peers =
     map (\<lambda>p. if (case kind of None \<Rightarrow> True | Some k \<Rightarrow> k \<in> set (peer_kinds p))
              then p\<lparr>peer_woken := True\<rparr> else p) peers"

text \<open>\<open>publish_for_kinds\<close>: a sample is published only for the membership it was taken for.\<close>

definition publish_for_kinds :: "string list \<Rightarrow> peer list \<Rightarrow> 'g \<Rightarrow> 'g \<Rightarrow> 'g \<times> bool" where
  "publish_for_kinds kinds peers sample published =
     (if registered_kinds peers \<noteq> kinds then (published, False) else (sample, True))"

record kind_sample =
  ks_kind :: string
  ks_available :: nat
  ks_scheduled :: nat
  ks_running :: nat
  ks_failed :: nat
  ks_oldest_available :: micros

definition sample_kind :: "micros \<Rightarrow> queue \<Rightarrow> string \<Rightarrow> kind_sample" where
  "sample_kind now q kind =
     (let capped = (\<lambda>p. min LIVE_JOBS_SAMPLE_CAP (length (filter (\<lambda>r. j_kind r = kind \<and> p r) (rows q))));
          waiting = sort_key claim_key (filter (\<lambda>r. j_kind r = kind \<and> due now r) (rows q))
      in \<lparr>ks_kind = kind,
          ks_available = capped (due now),
          ks_scheduled = capped (\<lambda>r. j_state r = Pending \<and> now < j_not_before r),
          ks_running = capped (\<lambda>r. j_state r = Running),
          ks_failed = capped (\<lambda>r. j_state r = Failed),
          ks_oldest_available = (case waiting of [] \<Rightarrow> 0 | r # _ \<Rightarrow> now - j_not_before r)\<rparr>)"

definition sample_once :: "micros \<Rightarrow> queue \<Rightarrow> peer list \<Rightarrow> unit + string list \<times> kind_sample list" where
  "sample_once now q peers =
     (let kinds = registered_kinds peers; found = map (sample_kind now q) kinds
      in if found = [] then Inl () else Inr (kinds, found))"

subsection \<open>Failure flags, guards and the cleanup deadline\<close>

datatype operation = OpClaim | OpRecord | OpRelease | OpRetention | OpSample | OpListen

text \<open>The second component tells whether a log line is written.\<close>

definition observe_failure :: "operation \<Rightarrow> (operation \<Rightarrow> bool) \<Rightarrow> (operation \<Rightarrow> bool) \<times> bool" where
  "observe_failure op failing = (failing(op := True), \<not> failing op)"

definition observe_recovery :: "operation \<Rightarrow> (operation \<Rightarrow> bool) \<Rightarrow> (operation \<Rightarrow> bool) \<times> bool" where
  "observe_recovery op failing = (failing(op := False), failing op)"

record engine_state =
  stop :: bool
  failure :: bool
  force :: bool
  eng_cleanup_deadline :: "instant option"

definition supervisor_guard_drop :: "bool \<Rightarrow> bool \<Rightarrow> engine_state \<Rightarrow> engine_state" where
  "supervisor_guard_drop panicking retired s =
     (if panicking \<or> \<not> retired then s\<lparr>failure := True, stop := True\<rparr> else s)"

definition guard_drop :: "bool \<Rightarrow> bool \<Rightarrow> engine_state \<Rightarrow> engine_state" where
  "guard_drop panicking token_cancelled s =
     (if panicking \<or> \<not> token_cancelled then s\<lparr>failure := True\<rparr> else s)"

definition NO_CLEANUP_DEADLINE :: duration where "NO_CLEANUP_DEADLINE = from_hours (24 * 365)"

text \<open>\<open>cancel_and_finish\<close> up to its wait: the deadline is fixed before the force is visible.\<close>

definition cancel_and_finish :: "instant \<Rightarrow> duration \<Rightarrow> engine_state \<Rightarrow> engine_state" where
  "cancel_and_finish now budget s =
     (let s1 = s\<lparr>stop := True\<rparr>;
          s2 = (case eng_cleanup_deadline s1 of
                  Some _ \<Rightarrow> s1
                | None \<Rightarrow> s1\<lparr>eng_cleanup_deadline := Some (case instant_checked_add now budget of
                     Some t \<Rightarrow> t | None \<Rightarrow> now + NO_CLEANUP_DEADLINE)\<rparr>)
      in s2\<lparr>force := True\<rparr>)"

definition cleanup_has_ended :: "instant \<Rightarrow> engine_state \<Rightarrow> bool" where
  "cleanup_has_ended now s =
     (case eng_cleanup_deadline s of None \<Rightarrow> False | Some d \<Rightarrow> d \<le> now)"

subsection \<open>Retention is safe and complete\<close>

lemma expired_batch_mem:
  "r \<in> set (expired_batch now locked rs) \<Longrightarrow> r \<in> set rs \<and> retention_expired now r \<and> j_id r \<notin> locked"
  by (auto simp: expired_batch_def dest!: in_set_takeD)

lemma delete_batch_rows:
  assumes "queue_ok q"
  shows "rows (fst (delete_batch now locked q)) =
      filter (\<lambda>r. r \<notin> set (expired_batch now locked (rows q))) (rows q)"
    and "snd (delete_batch now locked q) = length (expired_batch now locked (rows q))"
proof -
  let ?B = "expired_batch now locked (rows q)"
  have mem: "j_id r \<in> j_id ` set ?B \<longleftrightarrow> r \<in> set ?B" if "r \<in> set (rows q)" for r
    using assms that expired_batch_mem[of _ now locked "rows q"]
      distinct_map_inj_on[of j_id "rows q"] by (metis (no_types, lifting) image_iff queue_ok_def)
  show "rows (fst (delete_batch now locked q)) = filter (\<lambda>r. r \<notin> set ?B) (rows q)"
    using mem by (auto simp: delete_batch_def delete_where_def Let_def intro!: filter_cong)
  have "snd (delete_batch now locked q) = length (filter (\<lambda>r. r \<in> set ?B) (rows q))"
    using mem by (auto simp: delete_batch_def delete_where_def Let_def intro!: arg_cong[of _ _ length] filter_cong)
  moreover have "distinct (rows q)" using assms by (simp add: queue_ok_def distinct_map)
  moreover have "distinct ?B"
    using \<open>distinct (rows q)\<close> unfolding expired_batch_def by (intro distinct_take) simp
  moreover have "set (filter (\<lambda>r. r \<in> set ?B) (rows q)) = set ?B" using expired_batch_mem by fastforce
  ultimately show "snd (delete_batch now locked q) = length ?B"
    by (metis distinct_card distinct_filter)
qed

lemma delete_batch_sound: "sound q \<Longrightarrow> sound (fst (delete_batch now locked q))"
  using delete_where_queue_ok[of q]
  by (auto simp: delete_batch_def Let_def charged_def delete_where_def list_all_iff)

lemma delete_batch_short:
  assumes "queue_ok q" "snd (delete_batch now {} q) < RETENTION_BATCH_ROWS"
  shows "\<not> list_ex (retention_expired now) (rows (fst (delete_batch now {} q)))"
proof -
  have "set (expired_batch now {} (rows q)) = {r \<in> set (rows q). retention_expired now r}"
    using assms(2) unfolding delete_batch_rows(2)[OF assms(1)] by (auto simp: expired_batch_def)
  then show ?thesis by (auto simp: delete_batch_rows(1)[OF assms(1)] list_ex_iff)
qed

definition turn_times :: "pass_turn list \<Rightarrow> micros set" where
  "turn_times es = {now. \<exists>e \<in> set es. \<exists>locked. batch e = BatchCommits now locked \<or> batch e = BatchUnknown now locked}"

lemma delete_batch_length:
  assumes "queue_ok q"
  shows "length (rows (fst (delete_batch now locked q))) + snd (delete_batch now locked q) = length (rows q)"
  using sum_length_filter_compl[of _ "rows q"]
  by (simp add: delete_batch_def delete_where_def Let_def add.commute)

lemma retention_pass:
  assumes "sound q" "remove_expired_with_cancel es removed q = (q', ans)" "removed \<le> u64_max"
  shows "sound q' \<and> set (rows q') \<subseteq> set (rows q)
    \<and> (\<forall>r \<in> set (rows q) - set (rows q'). \<exists>now \<in> turn_times es. retention_expired now r)
    \<and> length (rows q') \<le> length (rows q)
    \<and> (\<forall>n d. ans = Some (Inr (n, d)) \<longrightarrow> n = min (removed + (length (rows q) - length (rows q'))) u64_max)
    \<and> (length (rows q) < RETENTION_BATCH_ROWS * length es \<longrightarrow> ans \<noteq> None)"
  using assms
proof (induction es removed q rule: remove_expired_with_cancel.induct)
  case (2 e es removed q)
  have gone: "r \<in> set (rows (fst (delete_batch now locked q))) \<longleftrightarrow>
      r \<in> set (rows q) \<and> r \<notin> set (expired_batch now locked (rows q))" for now locked r
    using delete_batch_rows(1) 2(2) by auto
  show ?case
  proof (cases "cancelled_before e \<or> cancelled_after e \<or> \<not> admitted e \<or> batch e = BatchFails")
    case True
    then have "q' = q" "ans \<noteq> None" "\<forall>n d. ans = Some (Inr (n, d)) \<longrightarrow> n = removed"
      using 2(3) by (auto split: if_splits)
    with 2(2,4) show ?thesis by auto
  next
    case False
    show ?thesis
    proof (cases "batch e")
      case (BatchUnknown now locked)
      then have "q' = fst (delete_batch now locked q)" "ans = Some (Inl ())" using 2(3) False by auto
      then show ?thesis
        using gone delete_batch_sound[OF 2(2)] delete_batch_length[of q now locked] 2(2) BatchUnknown
          expired_batch_mem[of _ now locked "rows q"]
        by (auto simp: turn_times_def)
    next
      case (BatchCommits now locked)
      obtain q1 n where d: "delete_batch now locked q = (q1, n)" by fastforce
      have s1: "sound q1" using delete_batch_sound[OF 2(2), of now locked] d by simp
      have len: "length (rows q1) + n = length (rows q)"
        using delete_batch_length[of q now locked] d 2(2) by simp
      have here: "\<exists>now \<in> turn_times (e # es). retention_expired now r"
        if "r \<in> set (rows q)" "r \<notin> set (rows q1)" for r
        using that gone[of r now locked] d expired_batch_mem[of r now locked "rows q"] BatchCommits
        by (auto simp: turn_times_def)
      have sub: "set (rows q1) \<subseteq> set (rows q)" using gone[of _ now locked] d by auto
      show ?thesis
      proof (cases "n < RETENTION_BATCH_ROWS")
        case True
        then have "q' = q1" "ans = Some (Inr (min (removed + n) u64_max, PassCompleted))"
          using 2(3) False BatchCommits d by auto
        with s1 len here sub show ?thesis by auto
      next
        case more: False
        let ?r = "min (removed + n) u64_max"
        have rest: "remove_expired_with_cancel es ?r q1 = (q', ans)"
          using 2(3) False BatchCommits d more by simp
        have fls: "\<not> cancelled_before e" "\<not> cancelled_after e" "\<not> \<not> admitted e" using False by auto
        note IH = 2(1)[OF fls BatchCommits refl d[symmetric] refl more s1 rest, simplified]
        have times: "turn_times es \<subseteq> turn_times (e # es)" by (auto simp: turn_times_def)
        have "\<exists>now \<in> turn_times (e # es). retention_expired now r"
          if "r \<in> set (rows q) - set (rows q')" for r
          using that here[of r] IH times by blast
        moreover have "length (rows q) < RETENTION_BATCH_ROWS * length (e # es) \<longrightarrow> ans \<noteq> None"
          using IH len more by auto
        ultimately show ?thesis using IH len sub by (auto simp: min_def split: if_splits)
      qed
    qed (use False in simp)
  qed
qed auto

text \<open>
  Retention deletes only completed jobs that finished a day ago, counts what it deletes, and
  finishes. Whatever cancels, fails or locks rows during a pass, the pass only removes rows that
  were completed and past the retention at the time of one of its batches, in particular no
  live and no failed job; a pass that answers reports the number of rows it removed; and a pass
  ends after at most one batch more than the number of full batches the table holds.
\<close>

lemma retention_safe:
  assumes "sound q" "remove_expired_with_cancel turns 0 q = (q', ans)"
  shows "sound q' \<and> set (rows q') \<subseteq> set (rows q)
    \<and> (\<forall>r \<in> set (rows q) - set (rows q').
         j_state r = Completed \<and> (\<exists>now \<in> turn_times turns. retention_expired now r))
    \<and> (\<forall>n d. ans = Some (Inr (n, d)) \<longrightarrow> n = min (length (rows q) - length (rows q')) u64_max)
    \<and> (length (rows q) < 500 * length turns \<longrightarrow> ans \<noteq> None)"
  using retention_pass[OF assms] by (auto simp: RETENTION_BATCH_ROWS_def retention_expired_def)

definition demo_turn :: pass_turn where
  "demo_turn = \<lparr>cancelled_before = False, admitted = True, cancelled_after = False,
     batch = BatchCommits (10 ^ 12) {}\<rparr>"

theorem retention_safe_witness:
  "\<exists>q' ans. remove_expired_with_cancel [demo_turn] 0 demo_failed = (q', ans) \<and> ans \<noteq> None
     \<and> set (rows demo_failed) \<subseteq> set (rows q')"
proof -
  obtain q' ans where r: "remove_expired_with_cancel [demo_turn] 0 demo_failed = (q', ans)" by fastforce
  from retention_safe[OF _ r] demo_failed_sound show ?thesis
    unfolding r by (auto simp: demo_failed_def)
qed

text \<open>
  Forced cleanup has one deadline. The first forced cleanup fixes it before the force becomes
  visible, and no later call moves it, so a supervisor that sees the force sees a deadline, and
  the same one as every other supervisor.
\<close>

lemma cleanup_deadline_fixed:
  "force (cancel_and_finish now budget s)
   \<and> stop (cancel_and_finish now budget s)
   \<and> eng_cleanup_deadline (cancel_and_finish now budget s) \<noteq> None
   \<and> eng_cleanup_deadline (cancel_and_finish now' budget' (cancel_and_finish now budget s))
       = eng_cleanup_deadline (cancel_and_finish now budget s)
   \<and> (eng_cleanup_deadline s = None \<and> now + budget \<le> instant_max \<longrightarrow>
        (\<forall>t. cleanup_has_ended t (cancel_and_finish now budget s) \<longleftrightarrow> now + budget \<le> t))"
  by (auto simp: cancel_and_finish_def Let_def cleanup_has_ended_def instant_checked_add_def
      split: option.splits)

theorem cleanup_deadline_fixed_witness:
  "cleanup_has_ended 15 (cancel_and_finish 5 10
     \<lparr>stop = False, failure = False, force = False, eng_cleanup_deadline = None\<rparr>)"
  using cleanup_deadline_fixed[of 5 10 "\<lparr>stop = False, failure = False, force = False,
      eng_cleanup_deadline = None\<rparr>"]
  by (simp add: instant_max_def nanos_per_sec_def)

text \<open>The registered kinds of a process are its kinds in ascending order, each once.\<close>

lemma registered_kinds_spec:
  "sorted (registered_kinds peers)" "distinct (registered_kinds peers)"
  "set (registered_kinds peers) = (\<Union>p \<in> set peers. set (peer_kinds p))"
  by (simp_all add: registered_kinds_def distinct_remdups_adj_sorted)

end
