(* ===== verification/JobQueue.thy ===== *)
theory JobQueue
  imports JobMaintenance
begin

text \<open>
  The job queue as a system: workers of any number of processes, stale ones included, producers,
  operators and retention act on one table. The steps are the statements of \<open>enqueue.rs\<close>,
  \<open>claim.rs\<close>, \<open>attempt.rs\<close>, \<open>operator.rs\<close> and \<open>maintenance.rs\<close>, in any order and with any
  arguments; an outcome statement may name any job and any generation, at any time.
\<close>

definition claim_policy_ok :: "policy_bind list \<Rightarrow> bool" where
  "claim_policy_ok binds \<longleftrightarrow> binds_ok binds \<and> list_all (\<lambda>b. pb_max_attempts b \<le> MAX_ATTEMPTS) binds"

inductive queue_step :: "queue \<Rightarrow> queue \<Rightarrow> bool" where
  enqueue_step: "find_job jid q = None \<Longrightarrow>
     insert_job (new_row jsonb now jid kind p tp ts) q = Inr (q', answer) \<Longrightarrow> queue_step q q'"
| claim_step: "claim_policy_ok binds \<Longrightarrow>
     claim now worker locked binds requested q = Inr (q', out) \<Longrightarrow> queue_step q q'"
| outcome_step: "execute u now jid gen t q = Inr (q', n) \<Longrightarrow> queue_step q q'"
| batch_step: "complete_batch now cs q = Inr (q', positions) \<Longrightarrow> queue_step q q'"
| redrive_step: "redrive now target q = Inr (q', version) \<Longrightarrow> queue_step q q'"
| discard_step: "discard target q = Inr q' \<Longrightarrow> queue_step q q'"
| retention_step: "delete_batch now locked q = (q', n) \<Longrightarrow> queue_step q q'"

subsection \<open>The invariant\<close>

text \<open>
  The attempts of a cycle never exceed the largest budget, and its error history has at most one
  entry per attempt, the running attempt apart.
\<close>

definition history_ok :: "job_row \<Rightarrow> bool" where
  "history_ok r \<longleftrightarrow> j_attempts r \<le> int MAX_ATTEMPTS
     \<and> int (length (j_errors r)) + (if j_state r = Running then 1 else 0) \<le> j_attempts r"

definition queue_inv :: "queue \<Rightarrow> bool" where
  "queue_inv q \<longleftrightarrow> queue_ok q \<and> list_all history_ok (rows q)"

text \<open>
  A step keeps the invariant, opens no claim but with a fresh generation, and leaves a completed
  job as it is or removes it.
\<close>

definition advances :: "queue \<Rightarrow> queue \<Rightarrow> bool" where
  "advances q q' \<longleftrightarrow> queue_inv q' \<and> sequence q \<le> sequence q'
    \<and> (\<forall>i g. claim_open i g q' \<longrightarrow> claim_open i g q \<or> sequence q < g)
    \<and> (\<forall>r \<in> set (rows q). j_state r = Completed \<longrightarrow>
         r \<in> set (rows q') \<or> (\<forall>s \<in> set (rows q'). j_id s \<noteq> j_id r))"

lemma queue_inv_sound: "queue_inv q \<Longrightarrow> sound q"
  by (auto simp: queue_inv_def charged_def history_ok_def list_all_iff)

lemma history_new_row: "history_ok (new_row jsonb now jid kind p tp ts)"
  by (simp add: history_ok_def new_row_def)

lemma history_outcome:
  assumes "history_ok r" "j_state r = Running"
  shows "history_ok (outcome_row u now t r)"
  using assms by (cases t) (auto simp: history_ok_def outcome_row_def complete_row_def)

lemma history_claim:
  assumes "history_ok r" "due now r \<or> lease_expired now r" "pb_max_attempts b \<le> MAX_ATTEMPTS"
  shows "history_ok (claim_row now worker b g r)"
  using assms by (auto simp: history_ok_def claim_row_def Let_def due_def lease_expired_def)

lemma history_redrive: "history_ok (redrive_row now g r)"
  by (simp add: history_ok_def redrive_row_def)

text \<open>Rows of the new table and where they come from, statement by statement.\<close>

lemma insert_job_inv:
  assumes "queue_inv q" "find_job jid q = None"
    and "insert_job (new_row jsonb now jid kind p tp ts) q = Inr (q', answer)"
  shows "advances q q'"
proof -
  let ?r = "new_row jsonb now jid kind p tp ts"
  have f: "j_id ?r = jid" "j_generation ?r = 0" "row_ok ?r" "j_claim_expires_at ?r = None"
    by simp_all (simp_all add: new_row_def)
  have "q' = q \<or> (q' = q\<lparr>rows := rows q @ [?r]\<rparr> \<and> distinct (live_keys (rows q @ [?r])))"
    using assms(3) by (auto simp: insert_job_def bind_result_Inr install_Inr split: if_splits)
  moreover have "jid \<notin> j_id ` set (rows q)" using assms(2) by (auto simp: find_job_None)
  ultimately show ?thesis
    using assms(1) f history_new_row
    by (auto simp: advances_def queue_inv_def queue_ok_def claim_generations_def claim_open_def fenced_def)
qed

lemma update_inv:
  assumes inv: "queue_inv q" and upd: "update_where p f q = Inr (q', n)"
    and keeps: "\<And>r. j_id (f r) = j_id r" "\<And>r. j_generation (f r) = j_generation r"
    and hist: "\<And>r. r \<in> set (rows q) \<Longrightarrow> p r \<Longrightarrow> history_ok (f r) \<and> j_claim_expires_at (f r) = None"
    and run: "\<And>r. p r \<Longrightarrow> j_claim_expires_at r \<noteq> None"
  shows "advances q q'"
proof -
  have q': "q' = q\<lparr>rows := map (\<lambda>r. if p r then f r else r) (rows q)\<rparr>"
    using upd by (simp add: update_where_Inr Let_def)
  have "queue_ok q'" using update_where_queue_ok[OF _ upd keeps] inv by (simp add: queue_inv_def)
  moreover have "list_all history_ok (rows q')"
    using inv hist by (auto simp: q' queue_inv_def list_all_iff)
  moreover have "claim_open i g q" if "claim_open i g q'" for i g
    using that hist by (fastforce simp: q' claim_open_def list_ex_iff fenced_def split: if_splits)
  moreover have "r \<in> set (rows q')" if "r \<in> set (rows q)" "j_state r = Completed" for r
  proof -
    have "\<not> p r" using run[of r] that inv by (auto simp: queue_inv_def queue_ok_def list_all_iff row_ok_def)
    with that(1) show ?thesis by (auto simp: q' image_iff intro!: bexI[of _ r])
  qed
  ultimately show ?thesis by (auto simp: advances_def queue_inv_def q')
qed

lemma running_fenced: "queue_inv q \<Longrightarrow> r \<in> set (rows q) \<Longrightarrow> j_claim_expires_at r \<noteq> None \<Longrightarrow>
    history_ok r \<and> j_state r = Running"
  by (auto simp: queue_inv_def queue_ok_def list_all_iff row_ok_def)

lemma execute_inv:
  assumes "queue_inv q" "execute u now jid gen t q = Inr (q', n)"
  shows "advances q q'"
  using assms(2) unfolding execute_def
  by (rule update_inv[OF assms(1)]) (auto simp: fenced_def intro!: history_outcome dest: running_fenced[OF assms(1)])

lemma complete_batch_inv:
  assumes "queue_inv q" "complete_batch now cs q = Inr (q', positions)"
  shows "advances q q'"
proof -
  obtain n where upd: "update_where (\<lambda>r. list_ex (\<lambda>(jid, gen). fenced jid gen r) cs) (complete_row now) q
      = Inr (q', n)"
    using assms(2) by (auto simp: complete_batch_def bind_result_Inr)
  show ?thesis
  proof (rule update_inv[OF assms(1) upd])
    fix r assume r: "r \<in> set (rows q)" "list_ex (\<lambda>(jid, gen). fenced jid gen r) cs"
    then have "j_claim_expires_at r \<noteq> None" by (auto simp: list_ex_iff fenced_def)
    from running_fenced[OF assms(1) r(1) this] show "history_ok (complete_row now r)
        \<and> j_claim_expires_at (complete_row now r) = None"
      by (auto simp: history_ok_def complete_row_def)
  qed (auto simp: complete_row_def list_ex_iff fenced_def)
qed

lemma delete_inv:
  assumes "queue_inv q" "rows q' = filter P (rows q)" "sequence q' = sequence q" "queue_ok q'"
  shows "advances q q'"
proof -
  have "r \<in> set (rows q') \<or> (\<forall>s \<in> set (rows q'). j_id s \<noteq> j_id r)" if "r \<in> set (rows q)" for r
    using that assms(1,2) distinct_map_inj_on[of j_id "rows q" _ r]
    by (auto simp: queue_inv_def queue_ok_def)
  then show ?thesis
    using assms by (auto simp: advances_def queue_inv_def list_all_iff claim_open_def list_ex_iff)
qed

lemma redrive_inv:
  assumes "queue_inv q" "redrive now t q = Inr (q', version)"
  shows "advances q q'"
proof -
  let ?f = "\<lambda>r. if recovery_match t r then redrive_row now (Suc (sequence q)) r else r"
  have inst: "install q (map ?f (rows q)) (Suc (sequence q)) = Inr q'"
    using assms(2) by (auto simp: redrive_def bind_result_Inr split: if_splits sum.splits db_error.splits)
  then have q': "q' = q\<lparr>rows := map ?f (rows q), sequence := Suc (sequence q)\<rparr>" by (simp add: install_Inr)
  obtain r where r: "find_job (rt_id t) q = Some r" "recovery_match t r"
    using assms(2) find_job_SomeD[of "rt_id t" q]
    by (fastforce simp: redrive_def bind_result_Inr lock_failed_def recovery_match_def
        split: option.splits if_splits)
  have "sound q'"
    using redrive_install[OF queue_inv_sound[OF assms(1)] r, of now] inst q' by (auto split: if_splits)
  moreover have "list_all history_ok (rows q')"
    using assms(1) history_redrive by (auto simp: q' queue_inv_def list_all_iff)
  moreover have "claim_open i g q" if "claim_open i g q'" for i g
    using that by (auto simp: q' claim_open_def list_ex_iff fenced_def redrive_row_def split: if_splits)
  moreover have "r \<in> set (rows q')" if "r \<in> set (rows q)" "j_state r = Completed" for r
    using that by (auto simp: q' image_iff recovery_match_def intro!: bexI[of _ r])
  ultimately show ?thesis by (auto simp: advances_def queue_inv_def q')
qed

lemma claim_inv:
  assumes "queue_inv q" "claim_policy_ok binds" "claim now worker locked binds requested q = Inr (q', out)"
  shows "advances q q'"
proof -
  let ?ch = "chosen now binds (map j_id (picked now locked binds requested (rows q)))"
  have snd: "sound q" by (rule queue_inv_sound[OF assms(1)])
  have ok: "binds_ok binds" using assms(2) by (simp add: claim_policy_ok_def)
  obtain rs' sq' out' where c: "claim_rows now worker ?ch (sequence q) (rows q) = (rs', sq', out')"
    by (metis prod_cases3)
  have q': "q' = q\<lparr>rows := rs', sequence := sq'\<rparr>" "sound q'"
    using claim_result[OF snd ok c] assms(3) by auto
  note spec = claim_rows_spec[OF c]
  have origin: "\<exists>r \<in> set (rows q). r' = r \<or> (\<exists>b g. ?ch r = Some b \<and> sequence q < g \<and> r' = claim_row now worker b g r)"
    if "r' \<in> set rs'" for r'
  proof -
    obtain n where n: "n < length rs'" "rs' ! n = r'" using \<open>r' \<in> set rs'\<close> by (auto simp: in_set_conv_nth)
    then have "n < length (rows q)" "case ?ch (rows q ! n) of None \<Rightarrow> r' = rows q ! n
        | Some b \<Rightarrow> (\<exists>g. sequence q < g \<and> g \<le> sq' \<and> r' = claim_row now worker b g (rows q ! n))"
      using spec by (auto simp: list_all2_conv_all_nth)
    then show ?thesis by (intro bexI[of _ "rows q ! n"]) (auto split: option.splits)
  qed
  have ch: "b \<in> set binds \<and> (due now r \<or> lease_expired now r)" if "?ch r = Some b" for r b
    using that by (auto simp: chosen_def split: if_splits dest: find_Some_mem)
  have "history_ok r'" if "r' \<in> set rs'" for r'
    using origin[OF that] ch assms(1,2) history_claim
    by (fastforce simp: queue_inv_def list_all_iff claim_policy_ok_def)
  moreover have "claim_open i g q \<or> sequence q < g" if "claim_open i g q'" for i g
    using that origin by (fastforce simp: q'(1) claim_open_def list_ex_iff fenced_def)
  moreover have "r \<in> set rs'" if "r \<in> set (rows q)" "j_state r = Completed" for r
  proof -
    obtain n where n: "n < length (rows q)" "rows q ! n = r" using \<open>r \<in> set (rows q)\<close> by (auto simp: in_set_conv_nth)
    have "?ch r = None" using ch[of r] that(2) by (cases "?ch r") (auto simp: due_def lease_expired_def)
    with n spec have "rs' ! n = r" "n < length rs'" by (auto simp: list_all2_conv_all_nth)
    then show ?thesis by (metis nth_mem)
  qed
  ultimately show ?thesis using q' spec by (auto simp: advances_def queue_inv_def list_all_iff)
qed

lemma queue_step_inv:
  assumes "queue_step q q'" "queue_inv q"
  shows "advances q q'"
  using assms
proof (induction rule: queue_step.induct)
  case (discard_step target q q')
  then obtain "queue_ok q'" "rows q' = filter (\<lambda>s. \<not> recovery_match target s) (rows q)" "sequence q' = sequence q"
    using delete_where_queue_ok[of q "recovery_match target"]
    by (auto simp: discard_def bind_result_Inr delete_where_def Let_def queue_inv_def split: if_splits)
  then show ?case by (intro delete_inv[OF discard_step(2)])
next
  case (retention_step now locked q q' n)
  then have q': "q' = fst (delete_batch now locked q)" by simp
  have "sequence q' = sequence q" by (simp add: q' delete_batch_def delete_where_def Let_def)
  moreover have "queue_ok q'" using delete_batch_sound[OF queue_inv_sound[OF retention_step(2)]] q' by simp
  moreover have "rows q' = filter (\<lambda>r. r \<notin> set (expired_batch now locked (rows q))) (rows q)"
    using delete_batch_rows(1)[of q now locked] retention_step(2) by (simp add: q' queue_inv_def)
  ultimately show ?case by (intro delete_inv[OF retention_step(2)])
qed (rule insert_job_inv claim_inv execute_inv complete_batch_inv redrive_inv; assumption)+

subsection \<open>Runs\<close>

interpretation jobs_inv: step_invariant queue_step queue_inv
  by unfold_locales (use queue_step_inv in \<open>auto simp: advances_def\<close>)

text \<open>A claim that is closed, of a generation that was drawn, stays closed.\<close>

interpretation closed_claim: step_invariant queue_step
    "\<lambda>q. queue_inv q \<and> gen \<le> sequence q \<and> \<not> claim_open jid gen q" for jid gen
proof unfold_locales
  fix q q' assume "queue_inv q \<and> gen \<le> sequence q \<and> \<not> claim_open jid gen q" "queue_step q q'"
  then show "queue_inv q' \<and> gen \<le> sequence q' \<and> \<not> claim_open jid gen q'"
    using queue_step_inv[of q q'] by (auto simp: advances_def dest: leD)
qed

lemma queue_inv_empty: "queue_inv empty_queue"
  using queue_ok_empty by (simp add: queue_inv_def empty_queue_def)

lemma one_claim_per_job:
  assumes "queue_ok q" "claim_open jid g q" "claim_open jid g' q"
  shows "g = g'"
  using assms distinct_map_inj_on[of j_id "rows q"]
  by (auto simp: queue_ok_def claim_open_def list_ex_iff fenced_def)

text \<open>
  C1. Whatever workers, producers, operators and retention do, in any order, the queue stays
  well-formed from the empty table on: identifiers and live unique keys are unique, the row
  constraints hold, no job is charged more than the largest budget of 25 attempts, no cycle keeps
  more than 25 error entries, and a job has at most one open claim. In such a state no outcome
  statement and no claim of a validated policy is ever refused by the database.
\<close>

theorem queue_invariant:
  assumes "queue_step\<^sup>*\<^sup>* empty_queue q"
  shows "queue_ok q
    \<and> (\<forall>r \<in> set (rows q). j_attempts r \<le> 25 \<and> length (j_errors r) \<le> 25)
    \<and> (\<forall>jid g g'. claim_open jid g q \<and> claim_open jid g' q \<longrightarrow> g = g')
    \<and> (\<forall>u now jid gen t. is_ok (execute u now jid gen t q))
    \<and> (\<forall>now worker locked binds requested. claim_policy_ok binds \<longrightarrow>
          is_ok (claim now worker locked binds requested q))"
proof -
  have inv: "queue_inv q" using jobs_inv.inv_run[OF assms queue_inv_empty] .
  note snd = queue_inv_sound[OF inv]
  have "j_attempts r \<le> 25 \<and> length (j_errors r) \<le> 25" if "r \<in> set (rows q)" for r
  proof -
    have "history_ok r" using inv that by (simp add: queue_inv_def list_all_iff)
    then show ?thesis by (auto simp: history_ok_def MAX_ATTEMPTS_def split: if_splits)
  qed
  moreover have "is_ok (execute u now jid gen t q)" for u now jid gen t
    by (simp add: execute_write[OF snd])
  moreover have "is_ok (claim now worker locked binds requested q)" if "claim_policy_ok binds"
    for now worker locked binds requested
  proof -
    have "binds_ok binds" using that by (simp add: claim_policy_ok_def)
    then show ?thesis using claim_effect[OF snd] by (metis is_ok_iff)
  qed
  ultimately show ?thesis using snd one_claim_per_job by blast
qed

lemma demo_run: "queue_step\<^sup>*\<^sup>* empty_queue demo_pending"
proof -
  have "queue_step empty_queue demo_pending"
    by (rule enqueue_step[of "JobId 1" _ id 100 "''mail.send''" demo_prepared None None _ "Created (JobId 1)"])
      (simp_all add: find_job_def empty_queue_def insert_job_def install_def live_keys_def demo_pending_def
        demo_row_def, simp_all add: new_row_def)
  then show ?thesis by blast
qed

theorem queue_invariant_witness: "queue_ok demo_pending \<and> is_ok (execute 0 5 (JobId 1) 7 Release demo_pending)"
  using queue_invariant[OF demo_run] by blast

text \<open>
  C2. A worker that lost its claim can do no harm, ever. Once the claim of a drawn generation is no
  longer open (settled, released, expired and taken over, or its job recovered or deleted), it is
  not open in any later state, and every outcome statement of that worker, whatever happens in
  between, affects no row and leaves the queue as it is; a completion inside the worker's own
  transaction is refused as stale.
\<close>

theorem stale_claim_harmless:
  assumes "queue_inv q" "gen \<le> sequence q" "\<not> claim_open jid gen q" "queue_step\<^sup>*\<^sup>* q q'"
  shows "execute u now jid gen t q' = Inr (q', 0) \<and> complete_in_tx now jid gen q' = Inl StaleClaim"
proof -
  have "queue_inv q' \<and> gen \<le> sequence q' \<and> \<not> claim_open jid gen q'"
    using closed_claim.inv_run[OF assms(4)] assms(1-3) by blast
  then have "sound q'" "\<not> claim_open jid gen q'" using queue_inv_sound by auto
  then show ?thesis
    by (simp add: execute_write outcome_write_noop complete_in_tx_def complete_write)
qed

theorem stale_claim_harmless_witness:
  "execute 0 5 (JobId 1) 0 Release demo_pending = Inr (demo_pending, 0)"
  using stale_claim_harmless[of empty_queue 0 "JobId 1" demo_pending 0 5 Release] demo_run queue_inv_empty
  by (simp add: empty_queue_def claim_open_def)

text \<open>
  Completion is final. No statement changes a completed job: after any step its row is
  unchanged or gone, so its work is never handed out again.
\<close>

lemma completed_is_final:
  assumes "queue_inv q" "queue_step q q'" "find_job jid q = Some r" "j_state r = Completed"
  shows "find_job jid q' = Some r \<or> find_job jid q' = None"
proof -
  have r: "r \<in> set (rows q)" "j_id r = jid" using find_job_SomeD[OF assms(3)] by auto
  have "advances q q'" by (rule queue_step_inv[OF assms(2,1)])
  then have "queue_ok q'" "r \<in> set (rows q') \<or> (\<forall>s \<in> set (rows q'). j_id s \<noteq> jid)"
    using r assms(4) by (auto simp: advances_def queue_inv_def)
  then show ?thesis using queue_ok_row(2)[of q' r] r(2) by (auto simp: find_job_None)
qed

definition demo_completed :: queue where
  "demo_completed = \<lparr>rows = [complete_row 50 demo_running], sequence = 7\<rparr>"

lemma demo_completed_inv: "queue_inv demo_completed"
  by (simp add: queue_inv_def demo_completed_def complete_row_def demo_defs queue_ok_def row_ok_def
      i16_max_def live_keys_def live_def claim_generations_def history_ok_def MAX_ATTEMPTS_def)

theorem completed_is_final_witness:
  "\<exists>q'. queue_step demo_completed q' \<and>
     (find_job (JobId 1) q' = Some (complete_row 50 demo_running) \<or> find_job (JobId 1) q' = None)"
proof -
  have step: "queue_step demo_completed (fst (delete_batch (10 ^ 12) {} demo_completed))"
    by (rule retention_step) (rule prod.collapse[symmetric])
  have find: "find_job (JobId 1) demo_completed = Some (complete_row 50 demo_running)"
    "j_state (complete_row 50 demo_running) = Completed"
    by (simp_all add: find_job_def demo_completed_def complete_row_def demo_defs)
  from completed_is_final[OF demo_completed_inv step find] step show ?thesis by blast
qed

end
