(* ===== verification/Postgres.thy ===== *)
theory Postgres
  imports Prelude
begin

text \<open>
  \<open>crates/infra-postgres\<close>: the classification of driver errors (\<open>error.rs\<close>), the transaction
  boundary (\<open>transaction.rs\<close>) and the admission, accounting and outcome labels of
  \<open>observe.rs\<close>.

  The work a caller passes to \<open>in_tx\<close> is arbitrary code, so it is a tree: it returns, or it runs one
  statement over one of the routes of the executor and continues with the answer. The server is
  a parameter: a statement is a function from the data of the transaction to the rows it yields
  and its end, and the answer to \<open>COMMIT\<close> is an input.
\<close>

subsection \<open>Driver errors\<close>

text \<open>The variants of \<open>sqlx::Error\<close> the code names; a database error carries its code, if any.\<close>

datatype sqlx_error =
    Database "string option"
  | PoolTimedOut
  | PoolClosed
  | Io
  | Tls
  | Protocol
  | ColumnDecode
  | Decode
  | WorkerCrashed
  | OtherDriver

definition sqlstate_char :: "char \<Rightarrow> bool" where
  "sqlstate_char c =
     (let n = of_char c :: nat in (65 \<le> n \<and> n \<le> 90) \<or> (48 \<le> n \<and> n \<le> 57))"

definition sqlstate :: "sqlx_error \<Rightarrow> string option" where
  "sqlstate err =
     (case err of
        Database (Some code) \<Rightarrow>
          if length code = 5 \<and> list_all sqlstate_char code then Some code else None
      | _ \<Rightarrow> None)"

definition starts_with :: "string \<Rightarrow> string \<Rightarrow> bool" where
  "starts_with s prefix = (take (length prefix) s = prefix)"

definition transient :: "sqlx_error \<Rightarrow> bool" where
  "transient err =
     (case sqlstate err of
        Some code \<Rightarrow>
          starts_with code ''08'' \<or> starts_with code ''53'' \<or>
          code \<in> set [''40001'', ''40003'', ''40P01'', ''57P01'', ''57P02'', ''57P03'', ''57014'', ''25006'']
      | None \<Rightarrow> err \<in> set [PoolTimedOut, PoolClosed, Io, Tls])"

definition failure_cause :: "sqlx_error \<Rightarrow> string" where
  "failure_cause err =
     (case err of
        Database _ \<Rightarrow> ''database''
      | PoolTimedOut \<Rightarrow> ''pool_timeout''
      | PoolClosed \<Rightarrow> ''pool_closed''
      | Io \<Rightarrow> ''io''
      | Tls \<Rightarrow> ''tls''
      | Protocol \<Rightarrow> ''protocol''
      | ColumnDecode \<Rightarrow> ''decode''
      | Decode \<Rightarrow> ''decode''
      | WorkerCrashed \<Rightarrow> ''worker_crashed''
      | OtherDriver \<Rightarrow> ''driver'')"

datatype tx_error =
    TxAcquire sqlx_error
  | TxBegin sqlx_error
  | CommitFailed sqlx_error
  | CommitUnknown sqlx_error

definition commit_rejected :: "sqlx_error \<Rightarrow> bool" where
  "commit_rejected err =
     (case sqlstate err of
        None \<Rightarrow> False
      | Some code \<Rightarrow> starts_with code ''23'' \<or> (starts_with code ''40'' \<and> code \<noteq> ''40003'')
                     \<or> code = ''25P02'')"

definition classify_commit :: "sqlx_error \<Rightarrow> tx_error" where
  "classify_commit err = (if commit_rejected err then CommitFailed err else CommitUnknown err)"

subsection \<open>Transaction options\<close>

datatype isolation = ServerDefault | ReadCommitted | RepeatableRead | Serializable

definition isolation_sql :: "isolation \<Rightarrow> string option" where
  "isolation_sql i =
     (case i of
        ServerDefault \<Rightarrow> None
      | ReadCommitted \<Rightarrow> Some ''READ COMMITTED''
      | RepeatableRead \<Rightarrow> Some ''REPEATABLE READ''
      | Serializable \<Rightarrow> Some ''SERIALIZABLE'')"

record tx_options =
  isolation :: isolation
  read_only :: bool

definition begin_statement :: "tx_options \<Rightarrow> string option" where
  "begin_statement opts =
     (case (isolation opts, read_only opts) of
        (ServerDefault, False) \<Rightarrow> None
      | (ServerDefault, True) \<Rightarrow> Some ''BEGIN READ ONLY''
      | (ReadCommitted, False) \<Rightarrow> Some ''BEGIN ISOLATION LEVEL READ COMMITTED''
      | (ReadCommitted, True) \<Rightarrow> Some ''BEGIN ISOLATION LEVEL READ COMMITTED READ ONLY''
      | (RepeatableRead, False) \<Rightarrow> Some ''BEGIN ISOLATION LEVEL REPEATABLE READ''
      | (RepeatableRead, True) \<Rightarrow> Some ''BEGIN ISOLATION LEVEL REPEATABLE READ READ ONLY''
      | (Serializable, False) \<Rightarrow> Some ''BEGIN ISOLATION LEVEL SERIALIZABLE''
      | (Serializable, True) \<Rightarrow> Some ''BEGIN ISOLATION LEVEL SERIALIZABLE READ ONLY'')"

text \<open>The literals of \<open>begin_statement\<close> are the clauses they spell out.\<close>

lemma begin_statement_spelled:
  "begin_statement opts =
     (if isolation opts = ServerDefault \<and> \<not> read_only opts then None
      else Some (''BEGIN'' @
        (case isolation_sql (isolation opts) of None \<Rightarrow> [] | Some l \<Rightarrow> '' ISOLATION LEVEL '' @ l) @
        (if read_only opts then '' READ ONLY'' else [])))"
  by (cases "isolation opts"; cases "read_only opts")
    (simp_all add: begin_statement_def isolation_sql_def)

subsection \<open>The session and the handle\<close>

text \<open>
  The server's side of an open transaction: active with the data the transaction sees, aborted by
  a failed statement, or lost with its connection. An aborted transaction answers every statement
  with \<open>25P02\<close>.
\<close>

datatype 'd session = Active 'd | Aborted | Lost

definition in_failed_tx :: sqlx_error where "in_failed_tx = Database (Some ''25P02'')"

text \<open>
  What a statement does on the data: the rows it yields, then its end with new data, or an error
  with the session it leaves (a server error aborts, a broken connection loses the session, an
  error of the client before sending changes nothing).
\<close>

type_synonym ('d, 'a) statement = "'d \<Rightarrow> 'a list \<times> (sqlx_error \<times> 'd session + 'd)"

definition respond ::
  "('d, 'a) statement \<Rightarrow> 'd session \<Rightarrow> 'a list \<times> sqlx_error option \<times> 'd session" where
  "respond st s =
     (case s of
        Active d \<Rightarrow>
          (case st d of
             (rows, Inl (e, s')) \<Rightarrow> (rows, Some e, s')
           | (rows, Inr d') \<Rightarrow> (rows, None, Active d'))
      | Aborted \<Rightarrow> ([], Some in_failed_tx, Aborted)
      | Lost \<Rightarrow> ([], Some Io, Lost))"

text \<open>
  \<open>Proving::poll_next\<close>, once per poll. The items are what the statement's stream yields; after
  them it ends. The state is the \<open>failed\<close> and the \<open>not_aborted\<close> flag.
\<close>

fun poll_next ::
  "('e + 'a) list \<Rightarrow> bool \<times> bool \<Rightarrow> ('e + 'a) option \<times> ('e + 'a) list \<times> bool \<times> bool" where
  "poll_next [] (failed, not_aborted) = (None, [], failed, \<not> failed)"
| "poll_next (Inr x # items) (failed, not_aborted) = (Some (Inr x), items, failed, not_aborted)"
| "poll_next (Inl e # items) (failed, not_aborted) = (Some (Inl e), items, True, not_aborted)"

fun poll_times :: "nat \<Rightarrow> ('e + 'a) list \<Rightarrow> bool \<times> bool \<Rightarrow> ('e + 'a) option list \<times> bool" where
  "poll_times 0 items flags = ([], snd flags)"
| "poll_times (Suc n) items flags =
     (let (item, items', flags') = poll_next items flags;
          (rest, proof_flag) = poll_times n items' flags'
      in (item # rest, proof_flag))"

subsection \<open>Work\<close>

text \<open>
  One statement over \<open>fetch_many\<close> (and \<open>execute\<close>, \<open>fetch\<close>, \<open>fetch_all\<close>, which read its stream
  to the end or drop it earlier), \<open>fetch_optional\<close> (and \<open>fetch_one\<close>), \<open>prepare_with\<close> or
  \<open>describe\<close>, or anything done through \<^verbatim>\<open>connection(tx)\<close>.
\<close>

datatype ('d, 'a, 't, 'e) work =
    Return "'e + 't"
  | FetchMany "('d, 'a) statement" nat "(sqlx_error + 'a) option list \<Rightarrow> ('d, 'a, 't, 'e) work"
  | FetchOptional "('d, 'a) statement" "sqlx_error + 'a option \<Rightarrow> ('d, 'a, 't, 'e) work"
  | Prepare "'d session \<Rightarrow> (sqlx_error + unit) \<times> 'd session"
      "sqlx_error + unit \<Rightarrow> ('d, 'a, 't, 'e) work"
  | Connection "'d session \<Rightarrow> 'a \<times> 'd session" "'a \<Rightarrow> ('d, 'a, 't, 'e) work"

record 'd tx_handle =
  session :: "'d session"
  not_aborted :: bool

definition fetch_many ::
  "('d, 'a) statement \<Rightarrow> nat \<Rightarrow> 'd tx_handle \<Rightarrow> (sqlx_error + 'a) option list \<times> 'd tx_handle" where
  "fetch_many st polls h =
     (let (rows, err, s) = respond st (session h);
          items = map Inr rows @ (case err of None \<Rightarrow> [] | Some e \<Rightarrow> [Inl e]);
          (answers, proof_flag) = poll_times polls items (False, False)
      in (answers, \<lparr>session = s, not_aborted = proof_flag\<rparr>))"

definition fetch_optional ::
  "('d, 'a) statement \<Rightarrow> 'd tx_handle \<Rightarrow> (sqlx_error + 'a option) \<times> 'd tx_handle" where
  "fetch_optional st h =
     (case respond st (session h) of
        (rows, None, s) \<Rightarrow>
          (Inr (case rows of [] \<Rightarrow> None | x # _ \<Rightarrow> Some x), \<lparr>session = s, not_aborted = True\<rparr>)
      | (rows, Some e, s) \<Rightarrow> (Inl e, \<lparr>session = s, not_aborted = False\<rparr>))"

definition prepare_with ::
  "('d session \<Rightarrow> (sqlx_error + unit) \<times> 'd session) \<Rightarrow> 'd tx_handle
   \<Rightarrow> (sqlx_error + unit) \<times> 'd tx_handle" where
  "prepare_with p h = (let (r, s) = p (session h) in (r, \<lparr>session = s, not_aborted = False\<rparr>))"

definition via_connection ::
  "('d session \<Rightarrow> 'a \<times> 'd session) \<Rightarrow> 'd tx_handle \<Rightarrow> 'a \<times> 'd tx_handle" where
  "via_connection p h = (let (r, s) = p (session h) in (r, \<lparr>session = s, not_aborted = False\<rparr>))"

lemma fetch_optional_active [simp]:
  "fetch_optional st \<lparr>session = Active d, not_aborted = na\<rparr> =
     (case st d of
        (rows, Inl (e, s)) \<Rightarrow> (Inl e, \<lparr>session = s, not_aborted = False\<rparr>)
      | (rows, Inr d') \<Rightarrow>
          (Inr (case rows of [] \<Rightarrow> None | x # _ \<Rightarrow> Some x), \<lparr>session = Active d', not_aborted = True\<rparr>))"
  by (simp add: fetch_optional_def respond_def split: prod.splits sum.splits)

primrec run_work :: "('d, 'a, 't, 'e) work \<Rightarrow> 'd tx_handle \<Rightarrow> ('e + 't) \<times> 'd tx_handle" where
  "run_work (Return r) h = (r, h)"
| "run_work (FetchMany st n k) h = (let (x, h') = fetch_many st n h in run_work (k x) h')"
| "run_work (FetchOptional st k) h = (let (x, h') = fetch_optional st h in run_work (k x) h')"
| "run_work (Prepare p k) h = (let (x, h') = prepare_with p h in run_work (k x) h')"
| "run_work (Connection p k) h = (let (x, h') = via_connection p h in run_work (k x) h')"

text \<open>Work that goes on with what an earlier part of it returned.\<close>

primrec bind_work ::
  "('d, 'a, 't, 'e) work \<Rightarrow> ('e + 't \<Rightarrow> ('d, 'a, 'u, 'f) work) \<Rightarrow> ('d, 'a, 'u, 'f) work" where
  "bind_work (Return r) c = c r"
| "bind_work (FetchMany st n k) c = FetchMany st n (\<lambda>x. bind_work (k x) c)"
| "bind_work (FetchOptional st k) c = FetchOptional st (\<lambda>x. bind_work (k x) c)"
| "bind_work (Prepare p k) c = Prepare p (\<lambda>x. bind_work (k x) c)"
| "bind_work (Connection p k) c = Connection p (\<lambda>x. bind_work (k x) c)"

lemma run_bind_work [simp]:
  "run_work (bind_work w c) h = (let (r, h') = run_work w h in run_work (c r) h')"
  by (induction w arbitrary: h) (simp_all add: split_beta)

subsection \<open>The transaction boundary\<close>

datatype tx_outcome =
    OutCommitted | OutRolledBack | OutAcquireFailed | OutBeginFailed | OutCommitFailed
  | OutCommitUnknown | OutCancelled

definition tx_outcome_label :: "tx_outcome \<Rightarrow> string" where
  "tx_outcome_label out =
     (case out of
        OutCommitted \<Rightarrow> ''committed''
      | OutRolledBack \<Rightarrow> ''rolled_back''
      | OutAcquireFailed \<Rightarrow> ''acquire_failed''
      | OutBeginFailed \<Rightarrow> ''begin_failed''
      | OutCommitFailed \<Rightarrow> ''commit_failed''
      | OutCommitUnknown \<Rightarrow> ''commit_unknown''
      | OutCancelled \<Rightarrow> ''cancelled'')"

definition outcome_of :: "tx_error \<Rightarrow> tx_outcome" where
  "outcome_of e =
     (case e of
        TxAcquire _ \<Rightarrow> OutAcquireFailed
      | TxBegin _ \<Rightarrow> OutBeginFailed
      | CommitFailed _ \<Rightarrow> OutCommitFailed
      | CommitUnknown _ \<Rightarrow> OutCommitUnknown)"

text \<open>
  What the pool and the server answer around the work. \<open>SELECT 1\<close> on an active session succeeds or
  meets a broken connection; \<open>COMMIT\<close> on an active session is acknowledged, is rejected (the server
  rolled back) or ends without a definite answer, with the data committed or not. The future may
  be dropped at any of its waits.
\<close>

datatype commit_answer = Acknowledged | Rejected sqlx_error | Unanswered sqlx_error bool

datatype drop_point = NotDropped | AtAcquire | AtBegin | AtWork | AtCheck | AtCommit bool

record tx_inputs =
  acquired_conn :: "sqlx_error + unit"
  begun :: "sqlx_error + unit"
  check_lost :: "sqlx_error option"
  commit_answer :: commit_answer
  dropped :: drop_point

text \<open>
  The end of a transaction: what the caller gets (nothing when it dropped the future), the data
  the database keeps, the recorded outcome, and whether the pooled connection is closed instead of
  reused (\<open>DiscardOnDrop\<close>).
\<close>

record ('t, 'e, 'd) tx_end =
  tx_answer :: "('e + 't) option"
  tx_data :: 'd
  tx_label :: tx_outcome
  tx_discard :: bool

definition check_session :: "sqlx_error option \<Rightarrow> 'd session \<Rightarrow> sqlx_error option" where
  "check_session lost s =
     (case s of Active _ \<Rightarrow> lost | Aborted \<Rightarrow> Some in_failed_tx | Lost \<Rightarrow> Some Io)"

text \<open>\<open>COMMIT\<close>: the driver's answer and the data kept; an aborted session answers it like success.\<close>

definition commit_session ::
  "commit_answer \<Rightarrow> 'd \<Rightarrow> 'd session \<Rightarrow> sqlx_error option \<times> 'd" where
  "commit_session a d0 s =
     (case s of
        Active d \<Rightarrow>
          (case a of
             Acknowledged \<Rightarrow> (None, d)
           | Rejected e \<Rightarrow> (Some e, d0)
           | Unanswered e done_there \<Rightarrow> (Some e, if done_there then d else d0))
      | Aborted \<Rightarrow> (None, d0)
      | Lost \<Rightarrow> (Some Io, d0))"

definition tx_failed :: "(tx_error \<Rightarrow> 'e) \<Rightarrow> tx_error \<Rightarrow> 'd \<Rightarrow> bool \<Rightarrow> ('t, 'e, 'd) tx_end" where
  "tx_failed conv e d discard =
     \<lparr>tx_answer = Some (Inl (conv e)), tx_data = d, tx_label = outcome_of e, tx_discard = discard\<rparr>"

definition tx_dropped :: "'d \<Rightarrow> bool \<Rightarrow> ('t, 'e, 'd) tx_end" where
  "tx_dropped d discard =
     \<lparr>tx_answer = None, tx_data = d, tx_label = OutCancelled, tx_discard = discard\<rparr>"

definition commit_phase ::
  "(tx_error \<Rightarrow> 'e) \<Rightarrow> tx_inputs \<Rightarrow> 'd \<Rightarrow> 't \<Rightarrow> 'd session \<Rightarrow> ('t, 'e, 'd) tx_end" where
  "commit_phase conv i d0 v s =
     (case dropped i of
        AtCommit reached \<Rightarrow>
          tx_dropped (if reached then snd (commit_session (commit_answer i) d0 s) else d0) False
      | _ \<Rightarrow>
          (case commit_session (commit_answer i) d0 s of
             (Some e, d) \<Rightarrow> tx_failed conv (classify_commit e) d False
           | (None, d) \<Rightarrow>
               \<lparr>tx_answer = Some (Inr v), tx_data = d, tx_label = OutCommitted, tx_discard = False\<rparr>))"

definition end_phase ::
  "(tx_error \<Rightarrow> 'e) \<Rightarrow> tx_options \<Rightarrow> tx_inputs \<Rightarrow> 'd \<Rightarrow> ('e + 't) \<times> 'd tx_handle
   \<Rightarrow> ('t, 'e, 'd) tx_end" where
  "end_phase conv opts i d0 worked =
     (case worked of
        (Inl e, h) \<Rightarrow>
          \<lparr>tx_answer = Some (Inl e), tx_data = d0, tx_label = OutRolledBack, tx_discard = False\<rparr>
      | (Inr v, h) \<Rightarrow>
          if read_only opts \<or> not_aborted h then commit_phase conv i d0 v (session h)
          else if dropped i = AtCheck then tx_dropped d0 False
          else case check_session (check_lost i) (session h) of
                 Some e \<Rightarrow> tx_failed conv (CommitFailed e) d0 False
               | None \<Rightarrow> commit_phase conv i d0 v (session h))"

definition transaction ::
  "(tx_error \<Rightarrow> 'e) \<Rightarrow> tx_options \<Rightarrow> tx_inputs \<Rightarrow> 'd \<Rightarrow> ('d, 'a, 't, 'e) work \<Rightarrow> ('t, 'e, 'd) tx_end" where
  "transaction conv opts i d0 f =
     (if dropped i = AtAcquire then tx_dropped d0 False
      else case acquired_conn i of
        Inl e \<Rightarrow> tx_failed conv (TxAcquire e) d0 False
      | Inr _ \<Rightarrow>
          if dropped i = AtBegin then tx_dropped d0 True
          else case begun i of
            Inl e \<Rightarrow> tx_failed conv (TxBegin e) d0 True
          | Inr _ \<Rightarrow>
              if dropped i = AtWork then tx_dropped d0 False
              else end_phase conv opts i d0
                     (run_work f \<lparr>session = Active d0, not_aborted = True\<rparr>))"

subsection \<open>Acquisition\<close>

text \<open>
  \<open>acquire_until\<close>: one native wait after another. An event is a native wait with the time and
  the result of its end; \<^term>\<open>None\<close> means that the events are over while the caller still waits.
\<close>

fun acquire_until :: "instant \<Rightarrow> (instant \<times> (sqlx_error + 'c)) list \<Rightarrow> (sqlx_error + 'c) option" where
  "acquire_until deadline [] = None"
| "acquire_until deadline ((now, result) # waits) =
     (if deadline < now then Some (Inl PoolTimedOut)
      else case result of
             Inl PoolTimedOut \<Rightarrow>
               if now < deadline then acquire_until deadline waits else Some result
           | _ \<Rightarrow> Some result)"

subsection \<open>Cleanup passes\<close>

definition CLEANUP_ADMISSION_BUDGET :: "duration option" where "CLEANUP_ADMISSION_BUDGET = None"
definition CLEANUP_BATCH_BUDGET :: "duration option" where "CLEANUP_BATCH_BUDGET = None"
definition CLEANUP_BATCH_PAUSE :: duration where "CLEANUP_BATCH_PAUSE = 0"

record cleanup_budget =
  budget_started :: instant
  budget_first :: bool
  admission :: "duration option"
  batch_budget :: "duration option"
  pause :: duration

definition budget_start :: "instant \<Rightarrow> cleanup_budget" where
  "budget_start now =
     \<lparr>budget_started = now, budget_first = True, admission = CLEANUP_ADMISSION_BUDGET,
      batch_budget = CLEANUP_BATCH_BUDGET, pause = CLEANUP_BATCH_PAUSE\<rparr>"

definition exhausted :: "instant \<Rightarrow> cleanup_budget \<Rightarrow> bool" where
  "exhausted now b =
     (case admission b of None \<Rightarrow> False | Some d \<Rightarrow> d \<le> duration_since now (budget_started b))"

text \<open>\<open>admit\<close> at \<open>now\<close>; a pacing sleep ends at \<open>woken\<close>.\<close>

definition admit :: "instant \<Rightarrow> instant \<Rightarrow> cleanup_budget \<Rightarrow> bool \<times> cleanup_budget" where
  "admit now woken b =
     (if exhausted now b then (False, b)
      else let after = (if \<not> budget_first b \<and> pause b \<noteq> 0 then woken else now);
               b' = b\<lparr>budget_first := False\<rparr>
           in (\<not> exhausted after b', b'))"

text \<open>\<open>batch\<close>: the future's answer, unless a configured budget ends before the future does.\<close>

definition bounded_batch :: "cleanup_budget \<Rightarrow> duration \<Rightarrow> 'a \<Rightarrow> unit + 'a" where
  "bounded_batch b took x =
     (case batch_budget b of
        None \<Rightarrow> Inr x
      | Some d \<Rightarrow> if took \<le> d then Inr x else Inl ())"

text \<open>\<open>CleanupPass\<close>: the process counters of one cleanup and the pass's own account.\<close>

record cleanup_metrics =
  active_passes :: int
  batches_total :: nat
  removed_rows_total :: nat
  passes_total :: "string \<Rightarrow> nat"

record cleanup_pass =
  pass_outcome :: string
  committed_batches :: nat
  removed_rows :: nat

definition pass_start :: "cleanup_metrics \<Rightarrow> cleanup_pass \<times> cleanup_metrics" where
  "pass_start m =
     (\<lparr>pass_outcome = ''cancelled'', committed_batches = 0, removed_rows = 0\<rparr>,
      m\<lparr>active_passes := active_passes m + 1\<rparr>)"

definition pass_committed :: "nat \<Rightarrow> cleanup_pass \<times> cleanup_metrics \<Rightarrow> cleanup_pass \<times> cleanup_metrics" where
  "pass_committed n pm =
     (let (p, m) = pm
      in (p\<lparr>committed_batches := min (committed_batches p + 1) u64_max,
            removed_rows := min (removed_rows p + n) u64_max\<rparr>,
          m\<lparr>batches_total := batches_total m + 1, removed_rows_total := removed_rows_total m + n\<rparr>))"

definition pass_completed :: "cleanup_pass \<Rightarrow> cleanup_pass" where
  "pass_completed p = p\<lparr>pass_outcome := ''completed''\<rparr>"

definition pass_budget_exhausted :: "cleanup_pass \<Rightarrow> cleanup_pass" where
  "pass_budget_exhausted p = p\<lparr>pass_outcome := ''budget_exhausted''\<rparr>"

definition pass_failed :: "cleanup_pass \<Rightarrow> cleanup_pass" where
  "pass_failed p = p\<lparr>pass_outcome := ''failed''\<rparr>"

definition pass_drop :: "cleanup_pass \<times> cleanup_metrics \<Rightarrow> cleanup_metrics" where
  "pass_drop pm =
     (let (p, m) = pm
      in m\<lparr>active_passes := active_passes m - 1,
           passes_total := (passes_total m)(pass_outcome p := passes_total m (pass_outcome p) + 1)\<rparr>)"

subsection \<open>The proof of life\<close>

text \<open>The handle holds its proof only while the session is active, whatever the work does.\<close>

definition proof_sound :: "'d tx_handle \<Rightarrow> bool" where
  "proof_sound h \<longleftrightarrow> (not_aborted h \<longrightarrow> (\<exists>d. session h = Active d))"

lemma poll_times_proof:
  "snd (poll_times n items (failed, na)) \<Longrightarrow> na \<or> (\<not> failed \<and> list_all is_ok items)"
proof (induction n arbitrary: items failed na)
  case (Suc n)
  show ?case
  proof (cases items)
    case Nil
    with Suc show ?thesis by (auto simp: split_beta)
  next
    case (Cons x items')
    with Suc show ?thesis by (cases x) (auto simp: split_beta)
  qed
qed simp

lemma respond_no_error: "respond st s = (rows, None, s') \<Longrightarrow> \<exists>d. s' = Active d"
  by (auto simp: respond_def split: session.splits prod.splits sum.splits)

lemma fetch_many_sound: "proof_sound (snd (fetch_many st n h))"
proof (cases "respond st (session h)")
  case (fields rows err s)
  then show ?thesis
    using respond_no_error[of st "session h" rows s]
      poll_times_proof[of n "map Inr rows @ (case err of None \<Rightarrow> [] | Some e \<Rightarrow> [Inl e])" False False]
    by (cases err) (auto simp: fetch_many_def proof_sound_def split_beta Let_def)
qed

lemma fetch_optional_sound: "proof_sound (snd (fetch_optional st h))"
  using respond_no_error
  by (fastforce simp: fetch_optional_def proof_sound_def split: prod.splits option.splits)

lemma run_work_sound: "proof_sound h \<Longrightarrow> proof_sound (snd (run_work f h))"
proof (induction f arbitrary: h)
  case (FetchMany st n k)
  then show ?case using fetch_many_sound[of st n h] by (auto simp: split_beta)
next
  case (FetchOptional st k)
  then show ?case using fetch_optional_sound[of st h] by (auto simp: split_beta)
qed (auto simp: split_beta prepare_with_def via_connection_def proof_sound_def)

subsection \<open>Atomicity\<close>

text \<open>
  The abstract transaction, over what the work returned and the session it left: the caller hears
  success exactly when the data of the work is kept; the work's own error and every definite
  failure keep the data before; only an unknown commit, or a caller that stopped listening,
  leaves both ends open.
\<close>

definition possible_ends :: "'d \<Rightarrow> ('e + 't) \<times> 'd session \<Rightarrow> 'd set" where
  "possible_ends d0 w = insert d0 {d. is_ok (fst w) \<and> snd w = Active d}"

inductive atomic ::
  "(tx_error \<Rightarrow> 'e) \<Rightarrow> 'd \<Rightarrow> ('e + 't) \<times> 'd session \<Rightarrow> ('e + 't) option \<Rightarrow> 'd \<Rightarrow> bool"
  for conv d0 w where
  atomic_committed: "w = (Inr v, Active d) \<Longrightarrow> atomic conv d0 w (Some (Inr v)) d"
| atomic_rolled_back: "fst w = Inl e \<Longrightarrow> atomic conv d0 w (Some (Inl e)) d0"
| atomic_refused: "(\<And>e. err \<noteq> CommitUnknown e) \<Longrightarrow> atomic conv d0 w (Some (Inl (conv err))) d0"
| atomic_unknown: "d \<in> possible_ends d0 w \<Longrightarrow> atomic conv d0 w (Some (Inl (conv (CommitUnknown e)))) d"
| atomic_dropped: "d \<in> possible_ends d0 w \<Longrightarrow> atomic conv d0 w None d"

text \<open>
  What PostgreSQL documents of the codes that \<open>classify_commit\<close> takes for a rejection: the server
  that answers \<open>COMMIT\<close> with one of them has rolled back.
\<close>

definition commit_codes_honest :: "commit_answer \<Rightarrow> bool" where
  "commit_codes_honest a = (case a of Unanswered e True \<Rightarrow> \<not> commit_rejected e | _ \<Rightarrow> True)"

lemma commit_session_kept:
  assumes "commit_codes_honest a" "commit_session a d0 s = (Some e, d)"
  shows "d \<in> possible_ends d0 (Inr v, s)" "commit_rejected e \<Longrightarrow> d = d0"
  using assms
  by (auto simp: commit_session_def commit_codes_honest_def possible_ends_def
      split: session.splits commit_answer.splits if_splits)

lemma commit_phase_atomic:
  fixes conv :: "tx_error \<Rightarrow> 'e" and v :: 't
  assumes honest: "commit_codes_honest (commit_answer i)" and live: "s \<noteq> Aborted"
  shows "atomic conv d0 (Inr v, s) (tx_answer (commit_phase conv i d0 v s))
    (tx_data (commit_phase conv i d0 v s))"
proof -
  obtain oe d where c: "commit_session (commit_answer i) d0 s = (oe, d)" by fastforce
  have ends: "d \<in> possible_ends d0 (Inr v :: 'e + 't, s)"
    using c live
    by (auto simp: commit_session_def possible_ends_def
        split: session.splits commit_answer.splits if_splits)
  have heard: "atomic conv d0 (Inr v, s) (Some (Inl (conv (classify_commit e)))) d" if "oe = Some e" for e
  proof (cases "commit_rejected e")
    case True
    then have "d = d0" using commit_session_kept(2)[OF honest, of d0 s e d] c that by simp
    with True show ?thesis by (simp add: classify_commit_def atomic_refused)
  next
    case False
    with ends show ?thesis by (simp add: classify_commit_def atomic_unknown)
  qed
  have "atomic conv d0 (Inr v, s) (Some (Inr v)) d" if "oe = None"
    using c live that
    by (auto simp: commit_session_def intro: atomic_committed split: session.splits commit_answer.splits)
  then show ?thesis using c ends heard
    by (cases oe; cases "dropped i")
      (auto simp: commit_phase_def tx_failed_def tx_dropped_def possible_ends_def
        intro: atomic_dropped split: if_splits)
qed

lemma check_session_live: "check_session lost s = None \<Longrightarrow> s \<noteq> Aborted"
  by (auto simp: check_session_def)

lemma end_phase_atomic:
  assumes "\<not> read_only opts" "commit_codes_honest (commit_answer i)" "proof_sound h"
  shows "atomic conv d0 (r, session h) (tx_answer (end_phase conv opts i d0 (r, h)))
    (tx_data (end_phase conv opts i d0 (r, h)))"
proof (cases r)
  case (Inl e)
  then show ?thesis by (auto simp: end_phase_def intro: atomic_rolled_back)
next
  case (Inr v)
  have "session h \<noteq> Aborted" if "not_aborted h" using assms(3) that by (auto simp: proof_sound_def)
  then show ?thesis
    using Inr assms(1,2) check_session_live[of "check_lost i" "session h"]
      commit_phase_atomic[of i "session h" conv d0 v]
    by (auto simp: end_phase_def tx_failed_def tx_dropped_def possible_ends_def
        intro: atomic_refused atomic_dropped split: option.splits)
qed

lemma transaction_refines:
  assumes "\<not> read_only opts" "commit_codes_honest (commit_answer i)"
    and "run_work f \<lparr>session = Active d0, not_aborted = True\<rparr> = (r, h)"
  shows "atomic conv d0 (r, session h) (tx_answer (transaction conv opts i d0 f))
    (tx_data (transaction conv opts i d0 f))"
proof -
  have "proof_sound h"
    using run_work_sound[of "\<lparr>session = Active d0, not_aborted = True\<rparr>" f] assms(3)
    by (simp add: proof_sound_def)
  note ended = end_phase_atomic[OF assms(1,2) this, of conv d0 r]
  have "atomic conv d0 (r, session h) None d0"
    by (auto simp: possible_ends_def intro: atomic_dropped)
  moreover have "atomic conv d0 (r, session h) (Some (Inl (conv err))) d0"
    if "err = TxAcquire e \<or> err = TxBegin e" for err e
    using that by (auto intro: atomic_refused)
  ultimately show ?thesis
    using ended assms(3)
    by (auto simp: transaction_def tx_failed_def tx_dropped_def split: sum.splits)
qed

text \<open>
  C4. The transaction boundary refines the atomic transaction: for a writing transaction, whatever
  statements the work runs, whatever it swallows and wherever the caller stops waiting, the answer
  and the data kept are those of the specification. In particular a work that swallowed a failed
  statement is never reported committed.
\<close>

theorem transaction_atomic:
  assumes "\<not> read_only opts" "commit_codes_honest (commit_answer i)"
    and "run_work f \<lparr>session = Active d0, not_aborted = True\<rparr> = (r, h)"
  shows "atomic conv d0 (r, session h) (tx_answer (transaction conv opts i d0 f))
    (tx_data (transaction conv opts i d0 f))"
  using assms by (rule transaction_refines)

subsection \<open>The boundary as its callers use it\<close>

text \<open>
  The contract of the boundary towards its callers (the idempotency store and the webhook seams):
  the answer and the data kept of a work, of which only the refinement of the atomic transaction is
  promised, and what the callers read off it.
\<close>

locale tx_boundary =
  fixes answer :: "(tx_error \<Rightarrow> 'e) \<Rightarrow> tx_inputs \<Rightarrow> 'd \<Rightarrow> ('d, 'a, 't, 'e) work \<Rightarrow> ('e + 't) option"
    and kept :: "(tx_error \<Rightarrow> 'e) \<Rightarrow> tx_inputs \<Rightarrow> 'd \<Rightarrow> ('d, 'a, 't, 'e) work \<Rightarrow> 'd"
  assumes refines: "commit_codes_honest (commit_answer i) \<Longrightarrow>
      run_work f \<lparr>session = Active d, not_aborted = True\<rparr> = (r, h) \<Longrightarrow>
      atomic conv d (r, session h) (answer conv i d f) (kept conv i d f)"
begin

lemma success:
  assumes "commit_codes_honest (commit_answer i)" "answer conv i d f = Some (Inr v)"
    and "run_work f \<lparr>session = Active d, not_aborted = True\<rparr> = (r, h)"
  shows "r = Inr v \<and> session h = Active (kept conv i d f)"
  using refines[OF assms(1,3), of conv] unfolding assms(2) by (cases rule: atomic.cases) auto

lemma error:
  assumes "commit_codes_honest (commit_answer i)" "answer conv i d f = Some (Inl e)"
    and "run_work f \<lparr>session = Active d, not_aborted = True\<rparr> = (r, h)"
  obtains (rolled_back) "r = Inl e" "kept conv i d f = d"
    | (refused) err where "e = conv err" "kept conv i d f = d"
    | (unknown) x where "e = conv (CommitUnknown x)" "kept conv i d f \<in> possible_ends d (r, session h)"
  using refines[OF assms(1,3), of conv] unfolding assms(2) by (cases rule: atomic.cases) auto

lemma ends:
  assumes "commit_codes_honest (commit_answer i)"
    and "run_work f \<lparr>session = Active d, not_aborted = True\<rparr> = (r, h)"
  shows "kept conv i d f \<in> possible_ends d (r, session h)"
  using refines[OF assms, of conv] by (cases rule: atomic.cases) (auto simp: possible_ends_def)

end

interpretation writing_tx: tx_boundary
  "\<lambda>conv i d f. tx_answer (transaction conv \<lparr>isolation = iso, read_only = False\<rparr> i d f)"
  "\<lambda>conv i d f. tx_data (transaction conv \<lparr>isolation = iso, read_only = False\<rparr> i d f)"
  for iso
  by unfold_locales (rule transaction_refines, simp_all)

text \<open>A caller with a deadline is answered once a native wait ends at or after it.\<close>

lemma acquire_until_answers:
  assumes "(now, r) \<in> set waits" "deadline \<le> now"
  shows "acquire_until deadline waits \<noteq> None"
  using assms
  by (induction deadline waits rule: acquire_until.induct) (auto split: sum.splits sqlx_error.splits)

text \<open>With the constants of the build every batch is admitted and none is cut off.\<close>

lemma admission_unbounded:
  assumes "admission b = None" "batch_budget b = None"
  shows "fst (admit now woken b)" "bounded_batch b took x = Inr x"
    "admission (snd (admit now woken b)) = None" "batch_budget (snd (admit now woken b)) = None"
  using assms by (simp_all add: admit_def exhausted_def bounded_batch_def Let_def)

text \<open>The work of the demonstration: a write, then a failing statement whose error it ignores.\<close>

definition demo_work :: "(nat, unit, string, tx_error) work" where
  "demo_work = FetchMany (\<lambda>d. ([], Inr (d + 1))) 1 (\<lambda>_.
     FetchOptional (\<lambda>d. ([], Inl (Database (Some ''23505''), Aborted))) (\<lambda>_. Return (Inr ''ok'')))"

definition demo_inputs :: tx_inputs where
  "demo_inputs = \<lparr>acquired_conn = Inr (), begun = Inr (), check_lost = None,
     commit_answer = Acknowledged, dropped = NotDropped\<rparr>"

definition demo_options :: tx_options where
  "demo_options = \<lparr>isolation = ReadCommitted, read_only = False\<rparr>"

theorem transaction_atomic_witness:
  "atomic (\<lambda>e. e) (5 :: nat) (Inr ''ok'', Aborted) (Some (Inl (CommitFailed in_failed_tx))) 5"
proof -
  let ?tx = "transaction (\<lambda>e. e) demo_options demo_inputs 5 demo_work"
  have run: "run_work demo_work \<lparr>session = Active 5, not_aborted = True\<rparr>
      = (Inr ''ok'', \<lparr>session = Aborted, not_aborted = False\<rparr>)"
    by (simp add: demo_work_def fetch_many_def fetch_optional_def respond_def)
  have tx: "tx_answer ?tx = Some (Inl (CommitFailed in_failed_tx))" "tx_data ?tx = 5"
    by (simp_all add: transaction_def run end_phase_def check_session_def tx_failed_def
        demo_inputs_def demo_options_def)
  show ?thesis
    using transaction_atomic[of demo_options demo_inputs demo_work 5 "Inr ''ok''"
        "\<lparr>session = Aborted, not_aborted = False\<rparr>" "\<lambda>e. e"] run
    unfolding tx by (simp add: demo_options_def demo_inputs_def commit_codes_honest_def)
qed

end
