(* ===== verification/IdemStore.thy ===== *)
theory IdemStore
  imports Postgres
begin

text \<open>
  \<open>crates/infra-idempotency-store\<close>: arbitration of one scoped key, the transaction that commits
  the work together with its success record, and the cleanup of expired records.

  The attempts of all processes run concurrently against one database. A state holds the
  committed records, the holders of the advisory locks, the database clock and the phase of every
  transaction; a step is one statement of \<open>attempt.rs\<close>, and the first statement is two steps
  because PostgreSQL takes its snapshot before it tries the lock. What the code relies on and the
  steps state: under \<open>READ COMMITTED\<close> every statement reads the records committed when it takes its
  snapshot, and a commit becomes visible before the locks of its transaction are released.
\<close>

subsection \<open>Values\<close>

text \<open>\<open>ScopeKey\<close> and \<open>Digest\<close> are byte strings of length 32.\<close>

type_synonym digest = bytes
type_synonym scope_key = bytes

text \<open>\<open>i64::from_be_bytes\<close> of the first eight bytes.\<close>

definition be_value :: "bytes \<Rightarrow> nat" where
  "be_value bs = foldl (\<lambda>n b. 256 * n + unat b) 0 bs"

definition lock_key :: "scope_key \<Rightarrow> int" where
  "lock_key k = (let n = be_value (take 8 k) in if n < 2 ^ 63 then int n else int n - 2 ^ 64)"

datatype caller_kind = Subject | Client

definition caller_kind_text :: "caller_kind \<Rightarrow> string" where
  "caller_kind_text k = (case k of Subject \<Rightarrow> ''subject'' | Client \<Rightarrow> ''client'')"

record caller_identity =
  issuer :: string
  caller_kind :: caller_kind
  caller_value :: string

record header_pair =
  hp_name :: string
  hp_value :: bytes

record idem_record =
  fingerprint :: digest
  status :: int
  headers :: "header_pair list"
  body :: bytes

record idem_row =
  row_record :: idem_record
  row_caller :: caller_identity
  expires_at :: micros

type_synonym records = "scope_key \<rightharpoonup> idem_row"

text \<open>\<open>whole_micros\<close>: the retention without its sub-microsecond part.\<close>

definition whole_micros :: "duration \<Rightarrow> duration" where
  "whole_micros d =
     (d div nanos_per_sec) * nanos_per_sec + ((d mod nanos_per_sec) div 1000) * 1000"

subsection \<open>Failures\<close>

datatype attempt_error = AttemptUnavailable | AttemptInternal | AttemptIntegrity

definition classify :: "sqlx_error \<Rightarrow> attempt_error" where
  "classify e = (if transient e then AttemptUnavailable else AttemptInternal)"

definition read_failed :: "sqlx_error \<Rightarrow> attempt_error" where
  "read_failed e =
     (case e of ColumnDecode \<Rightarrow> AttemptIntegrity | Decode \<Rightarrow> AttemptIntegrity | _ \<Rightarrow> classify e)"

definition classify_tx :: "tx_error \<Rightarrow> attempt_error" where
  "classify_tx e =
     (case e of
        TxAcquire err \<Rightarrow> classify err
      | TxBegin err \<Rightarrow> classify err
      | CommitFailed err \<Rightarrow> classify err
      | CommitUnknown err \<Rightarrow> AttemptUnavailable)"

subsection \<open>Arbitration\<close>

datatype ('c, 'r) attempted =
    Committed 'c | RolledBack 'r | Replay idem_record | Mismatch | InProgress

datatype live_answer = LiveSame idem_record | LiveDifferent

definition live_record ::
  "digest \<Rightarrow> int \<Rightarrow> header_pair list \<Rightarrow> bytes option \<Rightarrow> digest \<Rightarrow> sqlx_error + live_answer" where
  "live_record stored st hs bdy fp =
     (if stored \<noteq> fp then Inr LiveDifferent
      else case bdy of
             None \<Rightarrow> Inl Decode
           | Some b \<Rightarrow> Inr (LiveSame \<lparr>fingerprint = stored, status = st, headers = hs, body = b\<rparr>))"

text \<open>
  The row a read returns for the scope at a statement timestamp: the columns of the live record,
  the body only when the fingerprints are equal.
\<close>

type_synonym read_row = "digest \<times> int \<times> header_pair list \<times> bytes option"

definition is_live :: "micros \<Rightarrow> idem_row \<Rightarrow> bool" where
  "is_live now r = (now < expires_at r)"

definition read_live :: "micros \<Rightarrow> scope_key \<Rightarrow> digest \<Rightarrow> records \<Rightarrow> read_row option" where
  "read_live now scope fp t =
     (case t scope of
        None \<Rightarrow> None
      | Some r \<Rightarrow>
          if is_live now r
          then Some (fingerprint (row_record r), status (row_record r), headers (row_record r),
                     if fingerprint (row_record r) = fp then Some (body (row_record r)) else None)
          else None)"

definition answer_row :: "digest \<Rightarrow> read_row option \<Rightarrow> attempt_error + live_answer option" where
  "answer_row fp row =
     (case row of
        None \<Rightarrow> Inr None
      | Some (stored, st, hs, bdy) \<Rightarrow>
          (case live_record stored st hs bdy fp of
             Inl e \<Rightarrow> Inl (read_failed e)
           | Inr a \<Rightarrow> Inr (Some a)))"

definition decided :: "live_answer \<Rightarrow> ('c, 'r) attempted" where
  "decided a = (case a of LiveSame r \<Rightarrow> Replay r | LiveDifferent \<Rightarrow> Mismatch)"

text \<open>
  What step 1 decides: an error, a final answer, or (\<^term>\<open>Inr None\<close>) that step 2 has to read
  again; and what step 2 decides, with \<^term>\<open>Inr None\<close> when the work may run.
\<close>

definition after_first ::
  "digest \<Rightarrow> bool \<Rightarrow> bool \<Rightarrow> read_row option \<Rightarrow> attempt_error + ('c, 'r) attempted option" where
  "after_first fp writable acquired row =
     bind_result (answer_row fp row) (\<lambda>live.
       if \<not> writable then Inl AttemptUnavailable
       else case live of
              Some a \<Rightarrow> Inr (Some (decided a))
            | None \<Rightarrow> if \<not> acquired then Inr (Some InProgress) else Inr None)"

definition after_second ::
  "digest \<Rightarrow> read_row option \<Rightarrow> attempt_error + ('c, 'r) attempted option" where
  "after_second fp row = bind_result (answer_row fp row) (\<lambda>live. Inr (map_option decided live))"

text \<open>Step 3: the upsert replaces only an expired row; \<^term>\<open>None\<close> means that no row is affected.\<close>

definition write_row :: "micros \<Rightarrow> duration \<Rightarrow> caller_identity \<Rightarrow> idem_record \<Rightarrow> idem_row" where
  "write_row now retention caller rec =
     \<lparr>row_record = rec, row_caller = caller, expires_at = now + as_micros retention\<rparr>"

definition write_record ::
  "micros \<Rightarrow> duration \<Rightarrow> scope_key \<Rightarrow> caller_identity \<Rightarrow> idem_record \<Rightarrow> records
   \<Rightarrow> attempt_error + idem_row" where
  "write_record now retention scope caller rec t =
     (case t scope of
        None \<Rightarrow> Inr (write_row now retention caller rec)
      | Some r \<Rightarrow> if expires_at r \<le> now then Inr (write_row now retention caller rec)
                  else Inl AttemptInternal)"

subsection \<open>Cleanup\<close>

definition CLEANUP_BATCH_ROWS :: nat where "CLEANUP_BATCH_ROWS = 500"

definition record_expired :: "micros \<Rightarrow> records \<Rightarrow> scope_key \<Rightarrow> bool" where
  "record_expired now t k = (case t k of None \<Rightarrow> False | Some r \<Rightarrow> expires_at r \<le> now)"

text \<open>One batch: the scopes it takes, at most 500 expired unlocked ones, and the deletion.\<close>

definition cleanup_batch :: "micros \<Rightarrow> scope_key list \<Rightarrow> records \<Rightarrow> records" where
  "cleanup_batch now ks t = (\<lambda>k. if k \<in> set ks \<and> record_expired now t k then None else t k)"

subsection \<open>Concurrent attempts\<close>

text \<open>
  The phases of a transaction: begun; the snapshot of step 1 is read; the lock is held and step 2
  is due; the work runs, since the time of step 2; the record is written but not committed; the
  commit is visible but the locks are still held; ended.
\<close>

datatype phase =
    Begun
  | Snapped "read_row option"
  | Locked
  | Executing (work_since: micros)
  | Wrote (wrote_since: micros) (wrote_row: idem_row)
  | Visible
  | Ended

record attempt_tx =
  tx_scope :: scope_key
  tx_fingerprint :: digest
  tx_caller :: caller_identity
  tx_phase :: phase

text \<open>One committed execution: its scope, when its step 2 read, and when its record expires.\<close>

record execution =
  ex_scope :: scope_key
  ex_since :: micros
  ex_expires :: micros

record idem_state =
  recs :: records
  holder :: "int \<Rightarrow> nat option"
  clock :: micros
  txs :: "nat \<Rightarrow> attempt_tx option"
  executions :: "execution list"

definition set_phase :: "nat \<Rightarrow> attempt_tx \<Rightarrow> phase \<Rightarrow> idem_state \<Rightarrow> idem_state" where
  "set_phase i x ph s = s\<lparr>txs := (txs s)(i \<mapsto> x\<lparr>tx_phase := ph\<rparr>)\<rparr>"

definition release :: "nat \<Rightarrow> (int \<Rightarrow> nat option) \<Rightarrow> int \<Rightarrow> nat option" where
  "release i h = (\<lambda>k. if h k = Some i then None else h k)"

definition end_tx :: "nat \<Rightarrow> attempt_tx \<Rightarrow> idem_state \<Rightarrow> idem_state" where
  "end_tx i x s = set_phase i x Ended (s\<lparr>holder := release i (holder s)\<rparr>)"

text \<open>\<open>pg_try_advisory_xact_lock\<close>: granted when the key is free or already this transaction's.\<close>

definition lock_free :: "int \<Rightarrow> nat \<Rightarrow> idem_state \<Rightarrow> bool" where
  "lock_free k i s = (holder s k = None \<or> holder s k = Some i)"

text \<open>
  The answers of the pure decisions do not depend on what the work returns, so they are taken at
  the unit type here.
\<close>

type_synonym step_answer = "attempt_error + (unit, unit) attempted option"

inductive idem_step :: "duration \<Rightarrow> idem_state \<Rightarrow> idem_state \<Rightarrow> bool" for retention where
  tick_step: "idem_step retention s (s\<lparr>clock := clock s + d\<rparr>)"
| begin_step: "txs s i = None \<Longrightarrow>
     idem_step retention s
       (s\<lparr>txs := (txs s)(i \<mapsto> \<lparr>tx_scope = k, tx_fingerprint = fp, tx_caller = c, tx_phase = Begun\<rparr>)\<rparr>)"
| snapshot_step: "txs s i = Some x \<Longrightarrow> tx_phase x = Begun \<Longrightarrow>
     idem_step retention s
       (set_phase i x (Snapped (read_live (clock s) (tx_scope x) (tx_fingerprint x) (recs s))) s)"
| lock_step: "txs s i = Some x \<Longrightarrow> tx_phase x = Snapped row \<Longrightarrow>
     acquired = lock_free (lock_key (tx_scope x)) i s \<Longrightarrow>
     s1 = (if acquired then s\<lparr>holder := (holder s)(lock_key (tx_scope x) \<mapsto> i)\<rparr> else s) \<Longrightarrow>
     (after_first (tx_fingerprint x) writable acquired row :: step_answer) = answer \<Longrightarrow>
     idem_step retention s (if answer = Inr None then set_phase i x Locked s1 else end_tx i x s1)"
| second_step: "txs s i = Some x \<Longrightarrow> tx_phase x = Locked \<Longrightarrow>
     (after_second (tx_fingerprint x)
        (read_live (clock s) (tx_scope x) (tx_fingerprint x) (recs s)) :: step_answer) = answer \<Longrightarrow>
     idem_step retention s (if answer = Inr None then set_phase i x (Executing (clock s)) s else end_tx i x s)"
| write_step: "txs s i = Some x \<Longrightarrow> tx_phase x = Executing since \<Longrightarrow>
     write_record (clock s) retention (tx_scope x) (tx_caller x) rec (recs s) = answer \<Longrightarrow>
     idem_step retention s
       (case answer of Inl _ \<Rightarrow> end_tx i x s | Inr row \<Rightarrow> set_phase i x (Wrote since row) s)"
| commit_step: "txs s i = Some x \<Longrightarrow> tx_phase x = Wrote since row \<Longrightarrow>
     idem_step retention s (set_phase i x Visible
       (s\<lparr>recs := (recs s)(tx_scope x \<mapsto> row),
          executions := executions s @ [\<lparr>ex_scope = tx_scope x, ex_since = since, ex_expires = expires_at row\<rparr>]\<rparr>))"
| unlock_step: "txs s i = Some x \<Longrightarrow> tx_phase x = Visible \<Longrightarrow> idem_step retention s (end_tx i x s)"
| abort_step: "txs s i = Some x \<Longrightarrow> tx_phase x \<noteq> Visible \<Longrightarrow> idem_step retention s (end_tx i x s)"
| cleanup_step: "idem_step retention s (s\<lparr>recs := cleanup_batch (clock s) ks (recs s)\<rparr>)"

definition idem_start :: idem_state where
  "idem_start = \<lparr>recs = Map.empty, holder = (\<lambda>_. None), clock = 0, txs = (\<lambda>_. None), executions = []\<rparr>"

subsection \<open>The invariant\<close>

definition holds_lock :: "phase \<Rightarrow> bool" where
  "holds_lock p = (case p of Locked \<Rightarrow> True | Executing _ \<Rightarrow> True | Wrote _ _ \<Rightarrow> True | Visible \<Rightarrow> True
     | _ \<Rightarrow> False)"

definition started :: "phase \<Rightarrow> micros option" where
  "started p = (case p of Executing t \<Rightarrow> Some t | Wrote t _ \<Rightarrow> Some t | _ \<Rightarrow> None)"

text \<open>
  A transaction past arbitration holds the lock of its scope; while one runs its work, every
  earlier execution of the scope had expired when it started; an unexpired execution has its
  record in the table; and executions of one scope follow each other.
\<close>

definition locks_ok :: "idem_state \<Rightarrow> bool" where
  "locks_ok s \<longleftrightarrow> (\<forall>i x. txs s i = Some x \<and> holds_lock (tx_phase x) \<longrightarrow>
     holder s (lock_key (tx_scope x)) = Some i)"

definition running_ok :: "idem_state \<Rightarrow> bool" where
  "running_ok s \<longleftrightarrow> (\<forall>i x t. txs s i = Some x \<and> started (tx_phase x) = Some t \<longrightarrow> t \<le> clock s \<and>
     (\<forall>e \<in> set (executions s). ex_scope e = tx_scope x \<longrightarrow> ex_expires e \<le> t))"

definition records_ok :: "idem_state \<Rightarrow> bool" where
  "records_ok s \<longleftrightarrow> (\<forall>e \<in> set (executions s). ex_expires e \<le> clock s
     \<or> (\<exists>r. recs s (ex_scope e) = Some r \<and> ex_expires e \<le> expires_at r))"

definition order_ok :: "execution list \<Rightarrow> bool" where
  "order_ok es \<longleftrightarrow> sorted_wrt (\<lambda>e f. ex_scope e = ex_scope f \<longrightarrow> ex_expires e \<le> ex_since f) es"

definition idem_inv :: "idem_state \<Rightarrow> bool" where
  "idem_inv s \<longleftrightarrow> locks_ok s \<and> running_ok s \<and> records_ok s \<and> order_ok (executions s)"

lemma started_holds: "started p = Some t \<Longrightarrow> holds_lock p"
  by (cases p) (auto simp: started_def holds_lock_def)

lemma same_scope_same_tx:
  assumes "locks_ok s" "txs s i = Some x" "holds_lock (tx_phase x)"
    and "txs s j = Some y" "holds_lock (tx_phase y)" "tx_scope x = tx_scope y"
  shows "i = j"
  using assms unfolding locks_ok_def by (metis option.inject)

lemma set_phase_simps [simp]:
  "recs (set_phase i x p s) = recs s" "holder (set_phase i x p s) = holder s"
  "clock (set_phase i x p s) = clock s" "executions (set_phase i x p s) = executions s"
  "txs (set_phase i x p s) = (txs s)(i \<mapsto> x\<lparr>tx_phase := p\<rparr>)"
  by (simp_all add: set_phase_def)

text \<open>Changing the phase of one transaction, and ending one.\<close>

lemma set_phase_inv:
  assumes "idem_inv s"
    and "holds_lock p \<Longrightarrow> holder s (lock_key (tx_scope x)) = Some i"
    and "\<And>t. started p = Some t \<Longrightarrow> t \<le> clock s \<and>
      (\<forall>e \<in> set (executions s). ex_scope e = tx_scope x \<longrightarrow> ex_expires e \<le> t)"
  shows "idem_inv (set_phase i x p s)"
  using assms
  by (auto simp: idem_inv_def locks_ok_def running_ok_def records_ok_def)

lemma end_tx_inv:
  assumes "idem_inv s"
  shows "idem_inv (end_tx i x s)"
proof -
  have "locks_ok (end_tx i x s)"
    using assms by (auto simp: idem_inv_def locks_ok_def end_tx_def release_def holds_lock_def)
  moreover have "running_ok (end_tx i x s)"
    using assms by (auto simp: idem_inv_def running_ok_def end_tx_def started_def)
  ultimately show ?thesis using assms by (simp add: idem_inv_def records_ok_def end_tx_def)
qed

lemma acquire_inv:
  assumes "idem_inv s" "lock_free k i s"
    and "\<And>x. txs s i = Some x \<Longrightarrow> \<not> holds_lock (tx_phase x)"
  shows "idem_inv (s\<lparr>holder := (holder s)(k \<mapsto> i)\<rparr>)"
proof -
  have "locks_ok (s\<lparr>holder := (holder s)(k \<mapsto> i)\<rparr>)"
    using assms by (fastforce simp: idem_inv_def locks_ok_def lock_free_def)
  then show ?thesis using assms(1) by (simp add: idem_inv_def running_ok_def records_ok_def)
qed

lemma answer_row_None: "answer_row fp row = Inr None \<longleftrightarrow> row = None"
  by (auto simp: answer_row_def split: option.splits sum.splits)

lemma after_first_None: "after_first fp w acquired row = Inr None \<Longrightarrow> acquired \<and> row = None"
  by (auto simp: after_first_def bind_result_Inr answer_row_None split: if_splits option.splits)

lemma after_second_None: "after_second fp row = Inr None \<Longrightarrow> row = None"
  by (auto simp: after_second_def bind_result_Inr answer_row_None)

lemma no_live_read:
  assumes "records_ok s" "read_live (clock s) k fp (recs s) = None" "e \<in> set (executions s)" "ex_scope e = k"
  shows "ex_expires e \<le> clock s"
  using assms by (auto simp: records_ok_def read_live_def is_live_def split: option.splits if_splits)

lemma commit_inv:
  assumes inv: "idem_inv s" and x: "txs s i = Some x" "tx_phase x = Wrote since row"
  shows "idem_inv (set_phase i x Visible
       (s\<lparr>recs := (recs s)(tx_scope x \<mapsto> row),
          executions := executions s @ [\<lparr>ex_scope = tx_scope x, ex_since = since, ex_expires = expires_at row\<rparr>]\<rparr>))"
    (is "idem_inv ?s")
proof -
  have hold: "holds_lock (tx_phase x)" and st: "started (tx_phase x) = Some since"
    using x(2) by (simp_all add: holds_lock_def started_def)
  have old: "since \<le> clock s" "\<And>e. e \<in> set (executions s) \<Longrightarrow> ex_scope e = tx_scope x \<Longrightarrow> ex_expires e \<le> since"
    using inv x(1) st by (auto simp: idem_inv_def running_ok_def)
  have "locks_ok ?s" using inv x(1) hold by (auto simp: idem_inv_def locks_ok_def)
  moreover have "running_ok ?s"
    unfolding running_ok_def
  proof (intro allI impI)
    fix j y t assume y: "txs ?s j = Some y \<and> started (tx_phase y) = Some t"
    then have j: "j \<noteq> i" "txs s j = Some y" by (auto simp: started_def split: if_splits)
    have "tx_scope y \<noteq> tx_scope x"
      using same_scope_same_tx[of s j y i x] inv j x(1) y started_holds hold by (auto simp: idem_inv_def)
    then show "t \<le> clock ?s \<and> (\<forall>e \<in> set (executions ?s). ex_scope e = tx_scope y \<longrightarrow> ex_expires e \<le> t)"
      using inv j(2) y by (auto simp: idem_inv_def running_ok_def)
  qed
  moreover have "records_ok ?s"
    using inv old by (fastforce simp: idem_inv_def records_ok_def)
  moreover have "order_ok (executions ?s)"
    using inv old(2) by (auto simp: idem_inv_def order_ok_def sorted_wrt_append)
  ultimately show ?thesis by (simp add: idem_inv_def)
qed

lemma idem_step_inv: "idem_step retention s s' \<Longrightarrow> idem_inv s \<Longrightarrow> idem_inv s'"
proof (induction rule: idem_step.induct)
  case (tick_step s d)
  then show ?case by (fastforce simp: idem_inv_def locks_ok_def running_ok_def records_ok_def)
next
  case (begin_step s i k fp c)
  then show ?case
    by (auto simp: idem_inv_def locks_ok_def running_ok_def records_ok_def holds_lock_def started_def)
next
  case (snapshot_step s i x)
  then show ?case by (intro set_phase_inv) (simp_all add: holds_lock_def started_def)
next
  case (lock_step s i x row acquired s1 writable answer)
  have "idem_inv s1"
    using lock_step acquire_inv[of s "lock_key (tx_scope x)" i] by (auto simp: holds_lock_def)
  moreover have "holder s1 (lock_key (tx_scope x)) = Some i" if "answer = Inr None"
    using lock_step(3,4,5) that after_first_None by fastforce
  ultimately show ?case
    using end_tx_inv by (auto intro!: set_phase_inv simp: started_def)
next
  case (second_step s i x answer)
  have "holder s (lock_key (tx_scope x)) = Some i"
    using second_step by (auto simp: idem_inv_def locks_ok_def holds_lock_def)
  moreover have "ex_expires e \<le> clock s"
    if "answer = Inr None" "e \<in> set (executions s)" "ex_scope e = tx_scope x" for e
    using no_live_read[OF _ _ that(2,3)] second_step(3,4) that(1) after_second_None
    by (auto simp: idem_inv_def)
  ultimately show ?case
    using second_step(4) end_tx_inv by (auto intro!: set_phase_inv simp: started_def)
next
  case (write_step s i x since rec answer)
  then have "holder s (lock_key (tx_scope x)) = Some i"
    by (auto simp: idem_inv_def locks_ok_def holds_lock_def)
  moreover have "since \<le> clock s \<and> (\<forall>e \<in> set (executions s). ex_scope e = tx_scope x \<longrightarrow> ex_expires e \<le> since)"
  proof -
    have "started (tx_phase x) = Some since" using write_step(2) by (simp add: started_def)
    then show ?thesis using write_step(1,4) by (auto simp: idem_inv_def running_ok_def)
  qed
  ultimately show ?case
    using write_step(4) end_tx_inv by (auto intro!: set_phase_inv simp: started_def split: sum.split)
next
  case (commit_step s i x since row)
  then show ?case by (intro commit_inv)
next
  case (cleanup_step s ks)
  then have "records_ok (s\<lparr>recs := cleanup_batch (clock s) ks (recs s)\<rparr>)"
    by (fastforce simp: idem_inv_def records_ok_def cleanup_batch_def record_expired_def)
  with cleanup_step show ?case by (simp add: idem_inv_def locks_ok_def running_ok_def)
qed (simp_all add: end_tx_inv)

interpretation idem: step_invariant "idem_step retention" idem_inv for retention
  by unfold_locales (rule idem_step_inv)

subsection \<open>At most one execution\<close>

lemma idem_start_inv: "idem_inv idem_start"
  by (simp add: idem_inv_def idem_start_def locks_ok_def running_ok_def records_ok_def order_ok_def)

text \<open>An attempt that finds its scope free runs to the end and commits one execution.\<close>

lemma attempt_runs:
  assumes "txs s i = None" "holder s (lock_key k) = None" "read_live (clock s) k fp (recs s) = None"
    and "row = write_row (clock s) retention c rec"
  shows "(idem_step retention)\<^sup>*\<^sup>* s
    (end_tx i \<lparr>tx_scope = k, tx_fingerprint = fp, tx_caller = c, tx_phase = Visible\<rparr>
      (s\<lparr>holder := (holder s)(lock_key k \<mapsto> i), recs := (recs s)(k \<mapsto> row),
         executions := executions s @ [\<lparr>ex_scope = k, ex_since = clock s, ex_expires = expires_at row\<rparr>],
         txs := (txs s)(i \<mapsto> \<lparr>tx_scope = k, tx_fingerprint = fp, tx_caller = c, tx_phase = Visible\<rparr>)\<rparr>))"
    (is "?R\<^sup>*\<^sup>* s ?fin")
proof -
  let ?x = "\<lambda>p. \<lparr>tx_scope = k, tx_fingerprint = fp, tx_caller = c, tx_phase = p\<rparr>"
  let ?s1 = "s\<lparr>txs := (txs s)(i \<mapsto> ?x Begun)\<rparr>"
  let ?s2 = "s\<lparr>txs := (txs s)(i \<mapsto> ?x (Snapped None))\<rparr>"
  let ?h = "(holder s)(lock_key k \<mapsto> i)"
  let ?s3 = "s\<lparr>holder := ?h, txs := (txs s)(i \<mapsto> ?x Locked)\<rparr>"
  let ?s4 = "s\<lparr>holder := ?h, txs := (txs s)(i \<mapsto> ?x (Executing (clock s)))\<rparr>"
  let ?s5 = "s\<lparr>holder := ?h, txs := (txs s)(i \<mapsto> ?x (Wrote (clock s) row))\<rparr>"
  let ?s6 = "s\<lparr>holder := ?h, recs := (recs s)(k \<mapsto> row),
      executions := executions s @ [\<lparr>ex_scope = k, ex_since = clock s, ex_expires = expires_at row\<rparr>],
      txs := (txs s)(i \<mapsto> ?x Visible)\<rparr>"
  have r1: "?R s ?s1" by (rule begin_step[OF assms(1)])
  have r2: "?R ?s1 ?s2"
    using snapshot_step[of ?s1 i "?x Begun" retention] assms(3) by (simp add: set_phase_def)
  have first: "(after_first fp True True None :: step_answer) = Inr None"
    by (simp add: after_first_def answer_row_def)
  have r3: "?R ?s2 ?s3"
    using lock_step[of ?s2 i "?x (Snapped None)" None True _ True "Inr None" retention] assms(2) first
    by (simp add: set_phase_def lock_free_def)
  have second: "(after_second fp None :: step_answer) = Inr None"
    by (simp add: after_second_def answer_row_def)
  have r4: "?R ?s3 ?s4"
    using second_step[of ?s3 i "?x Locked" "Inr None" retention] assms(3) second
    by (simp add: set_phase_def)
  have wr: "write_record (clock s) retention k c rec (recs s) = Inr row"
    using assms(3,4) by (auto simp: write_record_def read_live_def is_live_def split: option.splits if_splits)
  have r5: "?R ?s4 ?s5"
    using write_step[of ?s4 i "?x (Executing (clock s))" "clock s" retention rec "Inr row"] wr
    by (simp add: set_phase_def)
  have r6: "?R ?s5 ?s6"
    using commit_step[of ?s5 i "?x (Wrote (clock s) row)" "clock s" row retention]
    by (simp add: set_phase_def)
  have r7: "?R ?s6 ?fin"
    using unlock_step[of ?s6 i "?x Visible" retention] by simp
  from r1 r2 r3 r4 r5 r6 r7 show ?thesis
    by (meson converse_rtranclp_into_rtranclp r_into_rtranclp)
qed

text \<open>
  C3. For one caller and key the work commits at most once per retention period. However the
  attempts of all processes interleave, between any statements, between the snapshot and the lock
  of the first statement and between a commit and the release of its locks, with aborts and
  cleanup at any time: of two committed executions of a scope, the later one started its work
  only after the record of the earlier one had expired, and two attempts never run the work of
  a scope at the same time.
\<close>

theorem at_most_one_execution:
  assumes "(idem_step retention)\<^sup>*\<^sup>* idem_start s"
  shows "sorted_wrt (\<lambda>e f. ex_scope e = ex_scope f \<longrightarrow> ex_expires e \<le> ex_since f) (executions s)
    \<and> (\<forall>i j x y. txs s i = Some x \<and> txs s j = Some y \<and> tx_scope x = tx_scope y
          \<and> started (tx_phase x) \<noteq> None \<and> started (tx_phase y) \<noteq> None \<longrightarrow> i = j)"
proof -
  have inv: "idem_inv s" by (rule idem.inv_run[OF assms idem_start_inv])
  then have "i = j" if "txs s i = Some x" "txs s j = Some y" "tx_scope x = tx_scope y"
    "started (tx_phase x) \<noteq> None" "started (tx_phase y) \<noteq> None" for i j x y
    using that same_scope_same_tx[of s i x j y] started_holds by (auto simp: idem_inv_def)
  with inv show ?thesis by (auto simp: idem_inv_def order_ok_def)
qed

theorem at_most_one_execution_witness:
  "\<exists>s. (idem_step 60000)\<^sup>*\<^sup>* idem_start s
     \<and> executions s = [\<lparr>ex_scope = [1], ex_since = 0, ex_expires = 60\<rparr>, \<lparr>ex_scope = [1], ex_since = 60, ex_expires = 120\<rparr>]
     \<and> sorted_wrt (\<lambda>e f. ex_scope e = ex_scope f \<longrightarrow> ex_expires e \<le> ex_since f) (executions s)"
proof -
  let ?c = "\<lparr>issuer = [], caller_kind = Subject, caller_value = []\<rparr>"
  let ?r = "\<lparr>fingerprint = [], status = 200, headers = [], body = []\<rparr>"
  obtain s1 where s1: "(idem_step 60000)\<^sup>*\<^sup>* idem_start s1" "clock s1 = 0"
    "executions s1 = [\<lparr>ex_scope = [1], ex_since = 0, ex_expires = 60\<rparr>]" "holder s1 = (\<lambda>_. None)"
    "txs s1 7 = None" "recs s1 [1] = Some (write_row 0 60000 ?c ?r)"
    using attempt_runs[of idem_start 1 "[1]" "[]" "write_row 0 60000 ?c ?r" 60000 ?c ?r]
    by (rule_tac that, auto simp: idem_start_def read_live_def end_tx_def set_phase_def release_def
        write_row_def as_micros_def fun_eq_iff)
  let ?s2 = "s1\<lparr>clock := clock s1 + 60\<rparr>"
  have step: "(idem_step 60000)\<^sup>*\<^sup>* idem_start ?s2"
    using s1(1) tick_step[of 60000 s1 60] by (rule rtranclp.rtrancl_into_rtrancl)
  have "read_live (clock ?s2) [1] [] (recs ?s2) = None"
    by (simp add: s1 read_live_def is_live_def write_row_def as_micros_def)
  from attempt_runs[OF _ _ this refl, of 7 60000 ?c ?r] s1 obtain s3 where
    s3: "(idem_step 60000)\<^sup>*\<^sup>* ?s2 s3"
    "executions s3 = [\<lparr>ex_scope = [1], ex_since = 0, ex_expires = 60\<rparr>, \<lparr>ex_scope = [1], ex_since = 60, ex_expires = 120\<rparr>]"
    by (force simp: end_tx_def set_phase_def write_row_def as_micros_def)
  have "(idem_step 60000)\<^sup>*\<^sup>* idem_start s3" using step s3(1) by simp
  from at_most_one_execution[OF this] this s3(2) show ?thesis by blast
qed

text \<open>
  A live record always decides, and decides correctly. When the scope has a live record at the
  statement's time, both reads of arbitration answer without running the work, whether or not the
  lock was granted: with exactly the stored record for the same fingerprint and with a mismatch
  for another one; and they never report an integrity failure for it.
\<close>

lemma live_record_decides:
  assumes "t scope = Some r" "now < expires_at r"
  shows "(after_first fp True acquired (read_live now scope fp t) :: attempt_error + ('c, 'r) attempted option)
      = Inr (Some (if fingerprint (row_record r) = fp then Replay (row_record r) else Mismatch))
    \<and> (after_second fp (read_live now scope fp t) :: attempt_error + ('c, 'r) attempted option)
      = Inr (Some (if fingerprint (row_record r) = fp then Replay (row_record r) else Mismatch))
    \<and> write_record now retention scope caller rec t = Inl AttemptInternal"
  using assms
  by (simp add: after_first_def after_second_def read_live_def is_live_def answer_row_def live_record_def
      decided_def write_record_def)

theorem live_record_decides_witness:
  "(after_first [9] True False (read_live 5 [1] [9] [[1] \<mapsto> \<lparr>row_record = \<lparr>fingerprint = [8], status = 200,
      headers = [], body = []\<rparr>, row_caller = \<lparr>issuer = [], caller_kind = Subject, caller_value = []\<rparr>,
      expires_at = 6\<rparr>]) :: step_answer) = Inr (Some Mismatch)"
  using live_record_decides[where 'c = unit and 'r = unit and scope = "[1]" and now = 5 and fp = "[9]"
      and acquired = False and t = "[[1] \<mapsto> \<lparr>row_record = \<lparr>fingerprint = [8], status = 200,
      headers = [], body = []\<rparr>, row_caller = \<lparr>issuer = [], caller_kind = Subject, caller_value = []\<rparr>,
      expires_at = 6\<rparr>]"]
  by simp

lemma whole_micros_spec: "whole_micros d = as_micros d * 1000" "d < whole_micros d + 1000"
proof -
  let ?q = "d div nanos_per_sec" and ?r = "d mod nanos_per_sec"
  have "d = 1000 * (?q * 1000000) + ?r" by (simp add: nanos_per_sec_def)
  then have "d div 1000 = (1000 * (?q * 1000000) + ?r) div 1000" by simp
  also have "\<dots> = ?q * 1000000 + ?r div 1000" by simp
  finally show w: "whole_micros d = as_micros d * 1000"
    by (simp add: whole_micros_def as_micros_def nanos_per_sec_def)
  have "d = d div 1000 * 1000 + d mod 1000" and "d mod 1000 < 1000" by simp_all
  then show "d < whole_micros d + 1000" unfolding w as_micros_def by linarith
qed

end
