(* ===== verification/IdemAttempt.thy ===== *)
theory IdemAttempt
  imports IdemStore
begin

text \<open>
  \<open>crates/infra-idempotency-store\<close>, one attempt from its caller's side and the maintenance of the
  table: \<open>Store::attempt\<close> as work on the transaction boundary of \<open>Postgres\<close>, the startup check, the
  cleanup pass and the cleanup loop.

  The data of a transaction is the application's own data together with the records; the caller's
  work is any tree of statements over both.
\<close>

subsection \<open>The attempt\<close>

datatype 'u idem_answer =
    ArbitrationRow bool bool "read_row option"
  | LiveRow read_row
  | Affected nat
  | UserAnswer 'u

text \<open>\<open>Stop\<close>: why the transaction ends without a commit.\<close>

datatype ('c, 'r) stop = Decided "('c, 'r) attempted" | Failed attempt_error

definition READ_COMMITTED :: tx_options where
  "READ_COMMITTED = \<lparr>isolation = ReadCommitted, read_only = False\<rparr>"

text \<open>
  What the database contributes to the statements of one attempt: the statement timestamps, the
  fault of a statement that fails, whether the session is writable and the lock is granted.
\<close>

type_synonym 'd fault = "(sqlx_error \<times> 'd session) option"

record 'd attempt_env =
  first_now :: micros
  first_fault :: "'d fault"
  env_writable :: bool
  env_acquired :: bool
  second_now :: micros
  second_fault :: "'d fault"
  write_now :: micros
  write_fault :: "'d fault"

definition faulty :: "'d fault \<Rightarrow> ('d, 'a) statement \<Rightarrow> ('d, 'a) statement" where
  "faulty fault st = (case fault of None \<Rightarrow> st | Some x \<Rightarrow> (\<lambda>d. ([], Inl x)))"

definition first_statement ::
  "('u \<times> records) attempt_env \<Rightarrow> scope_key \<Rightarrow> digest \<Rightarrow> ('u \<times> records, 'x idem_answer) statement" where
  "first_statement env scope fp = faulty (first_fault env) (\<lambda>d.
     ([ArbitrationRow (env_writable env) (env_acquired env)
         (read_live (first_now env) scope fp (snd d))], Inr d))"

definition second_statement ::
  "('u \<times> records) attempt_env \<Rightarrow> scope_key \<Rightarrow> digest \<Rightarrow> ('u \<times> records, 'x idem_answer) statement" where
  "second_statement env scope fp = faulty (second_fault env) (\<lambda>d.
     (case read_live (second_now env) scope fp (snd d) of None \<Rightarrow> [] | Some row \<Rightarrow> [LiveRow row], Inr d))"

definition write_statement ::
  "('u \<times> records) attempt_env \<Rightarrow> duration \<Rightarrow> scope_key \<Rightarrow> caller_identity \<Rightarrow> idem_record
   \<Rightarrow> ('u \<times> records, 'x idem_answer) statement" where
  "write_statement env retention scope caller rec = faulty (write_fault env) (\<lambda>d.
     (case write_record (write_now env) retention scope caller rec (snd d) of
        Inl _ \<Rightarrow> ([Affected 0], Inr d)
      | Inr row \<Rightarrow> ([Affected 1], Inr (fst d, (snd d)(scope \<mapsto> row)))))"

text \<open>\<open>fetch_one\<close> answers a missing row with a driver error.\<close>

definition fetch_one :: "sqlx_error + 'a option \<Rightarrow> sqlx_error + 'a" where
  "fetch_one r = (case r of Inl e \<Rightarrow> Inl e | Inr None \<Rightarrow> Inl OtherDriver | Inr (Some x) \<Rightarrow> Inr x)"

text \<open>\<open>arbitrate\<close>: steps 1 and 2, then the rest of the attempt with their decision.\<close>

definition second_answer ::
  "digest \<Rightarrow> sqlx_error + 'x idem_answer option \<Rightarrow> attempt_error + ('c, 'r) attempted option" where
  "second_answer fp r =
     (case r of
        Inl e \<Rightarrow> Inl (read_failed e)
      | Inr None \<Rightarrow> after_second fp None
      | Inr (Some (LiveRow row)) \<Rightarrow> after_second fp (Some row)
      | Inr (Some _) \<Rightarrow> Inl (read_failed ColumnDecode))"

definition arbitrate ::
  "('u \<times> records) attempt_env \<Rightarrow> scope_key \<Rightarrow> digest
   \<Rightarrow> (attempt_error + ('c, 'r) attempted option \<Rightarrow> ('u \<times> records, 'x idem_answer, 't, 'e) work)
   \<Rightarrow> ('u \<times> records, 'x idem_answer, 't, 'e) work" where
  "arbitrate env scope fp rest =
     FetchOptional (first_statement env scope fp) (\<lambda>r.
       case fetch_one r of
         Inl e \<Rightarrow> rest (Inl (read_failed e))
       | Inr (ArbitrationRow writable acquired row) \<Rightarrow>
           (case after_first fp writable acquired row of
              Inr None \<Rightarrow> FetchOptional (second_statement env scope fp) (\<lambda>r2. rest (second_answer fp r2))
            | decision \<Rightarrow> rest decision)
       | Inr _ \<Rightarrow> rest (Inl (read_failed ColumnDecode)))"

text \<open>\<open>write\<close>: the upsert is executed to its end and has to affect one row.\<close>

fun affected_rows :: "(sqlx_error + 'x idem_answer) option list \<Rightarrow> sqlx_error + nat" where
  "affected_rows [] = Inr 0"
| "affected_rows (None # xs) = Inr 0"
| "affected_rows (Some (Inl e) # xs) = Inl e"
| "affected_rows (Some (Inr x) # xs) =
     (case affected_rows xs of
        Inl e \<Rightarrow> Inl e
      | Inr n \<Rightarrow> Inr ((case x of Affected k \<Rightarrow> k | _ \<Rightarrow> 0) + n))"

definition write_answer :: "(sqlx_error + 'x idem_answer) option list \<Rightarrow> attempt_error + unit" where
  "write_answer xs =
     (case affected_rows xs of
        Inl e \<Rightarrow> Inl (classify e)
      | Inr n \<Rightarrow> if n = 1 then Inr () else Inl AttemptInternal)"

definition attempt_work ::
  "('u \<times> records) attempt_env \<Rightarrow> duration \<Rightarrow> scope_key \<Rightarrow> caller_identity \<Rightarrow> digest
   \<Rightarrow> ('u \<times> records, 'x idem_answer, idem_record \<times> 'c, 'r) work
   \<Rightarrow> ('u \<times> records, 'x idem_answer, 'c, ('c, 'r) stop) work" where
  "attempt_work env retention scope caller fp job =
     arbitrate env scope fp (\<lambda>decision.
       case decision of
         Inl e \<Rightarrow> Return (Inl (Failed e))
       | Inr (Some a) \<Rightarrow> Return (Inl (Decided a))
       | Inr None \<Rightarrow> bind_work job (\<lambda>r.
           case r of
             Inl back \<Rightarrow> Return (Inl (Decided (RolledBack back)))
           | Inr (rec, v) \<Rightarrow>
               FetchMany (write_statement env retention scope caller rec) 2 (\<lambda>xs.
                 case write_answer xs of
                   Inl e \<Rightarrow> Return (Inl (Failed e))
                 | Inr _ \<Rightarrow> Return (Inr v))))"

definition stop_of_tx :: "tx_error \<Rightarrow> ('c, 'r) stop" where
  "stop_of_tx e = Failed (classify_tx e)"

definition attempt_answer ::
  "('c, 'r) stop + 'c \<Rightarrow> attempt_error + ('c, 'r) attempted" where
  "attempt_answer r =
     (case r of
        Inr v \<Rightarrow> Inr (Committed v)
      | Inl (Decided a) \<Rightarrow> Inr a
      | Inl (Failed e) \<Rightarrow> Inl e)"

text \<open>\<open>Store::arbitrated\<close>: the answer, \<^term>\<open>None\<close> when the caller dropped it, and the data kept.\<close>

definition arbitrated ::
  "('u \<times> records) attempt_env \<Rightarrow> tx_inputs \<Rightarrow> duration \<Rightarrow> scope_key \<Rightarrow> caller_identity \<Rightarrow> digest
   \<Rightarrow> ('u \<times> records, 'x idem_answer, idem_record \<times> 'c, 'r) work \<Rightarrow> 'u \<times> records
   \<Rightarrow> (attempt_error + ('c, 'r) attempted) option \<times> 'u \<times> records" where
  "arbitrated env i retention scope caller fp job d =
     (let e = transaction stop_of_tx READ_COMMITTED i d (attempt_work env retention scope caller fp job)
      in (map_option attempt_answer (tx_answer e), tx_data e))"

subsection \<open>Startup\<close>

datatype idem_startup_error = StoreNotWritable | StoreUnavailable

text \<open>The session query within its five seconds, its error, or the end of the budget.\<close>

definition STARTUP_CHECK_BUDGET :: duration where "STARTUP_CHECK_BUDGET = from_secs 5"

definition check_writable :: "(duration \<times> (sqlx_error + bool)) \<Rightarrow> idem_startup_error + unit" where
  "check_writable answer =
     (case answer of (took, r) \<Rightarrow>
        if STARTUP_CHECK_BUDGET < took then Inl StoreUnavailable
        else case r of
               Inl e \<Rightarrow> Inl StoreUnavailable
             | Inr writable \<Rightarrow> if writable then Inr () else Inl StoreNotWritable)"

subsection \<open>Cleanup\<close>

datatype cleanup_error = CleanAcquire | CleanBegin | CleanStatement | CleanCommit | CleanTimedOut

definition cleanup_error_of_tx :: "tx_error \<Rightarrow> cleanup_error" where
  "cleanup_error_of_tx e =
     (case e of
        TxAcquire _ \<Rightarrow> CleanAcquire
      | TxBegin _ \<Rightarrow> CleanBegin
      | CommitFailed _ \<Rightarrow> CleanCommit
      | CommitUnknown _ \<Rightarrow> CleanCommit)"

text \<open>
  The batch transaction: the statement timeout, then the deletion of the scopes \<open>ks\<close>, which the
  server chose, at most 500 of the expired and unlocked ones.
\<close>

definition expired_of :: "micros \<Rightarrow> scope_key list \<Rightarrow> records \<Rightarrow> scope_key list" where
  "expired_of now ks t = filter (record_expired now t) (remdups (take CLEANUP_BATCH_ROWS ks))"

record clean_env =
  clean_now :: micros
  clean_scopes :: "scope_key list"
  timeout_fault :: "records fault"
  delete_fault :: "records fault"

definition clean_work :: "clean_env \<Rightarrow> (records, nat, nat, cleanup_error) work" where
  "clean_work env =
     FetchOptional (faulty (timeout_fault env) (\<lambda>t. ([0], Inr t))) (\<lambda>r.
       case fetch_one r of
         Inl _ \<Rightarrow> Return (Inl CleanStatement)
       | Inr _ \<Rightarrow>
           FetchMany (faulty (delete_fault env) (\<lambda>t.
             let ks = expired_of (clean_now env) (clean_scopes env) t
             in ([length ks], Inr (cleanup_batch (clean_now env) ks t)))) 2 (\<lambda>xs.
               case collect_results (map the (filter (\<lambda>x. x \<noteq> None) xs)) of
                 Inl _ \<Rightarrow> Return (Inl CleanStatement)
               | Inr ns \<Rightarrow> Return (Inr (sum_list ns))))"

definition clean_tx :: "clean_env \<Rightarrow> tx_inputs \<Rightarrow> records \<Rightarrow> (nat, cleanup_error, records) tx_end" where
  "clean_tx env i t = transaction cleanup_error_of_tx READ_COMMITTED i t (clean_work env)"

text \<open>
  One turn of the pass: the cancellation before and after admission, the clock of the admission, the
  database's part in the batch and how long the batch took.
\<close>

record clean_turn =
  turn_cancelled_before :: bool
  turn_now :: instant
  turn_woken :: instant
  turn_cancelled_after :: bool
  turn_env :: clean_env
  turn_inputs :: tx_inputs
  turn_took :: duration

text \<open>What the pass answers: the removed rows with its outcome, or the class of a failure.\<close>

type_synonym pass_answer = "cleanup_error + nat \<times> string"

record pass_state =
  ps_records :: records
  ps_budget :: cleanup_budget
  ps_pass :: "cleanup_pass \<times> cleanup_metrics"
  ps_removed :: nat

definition pass_end ::
  "(cleanup_pass \<Rightarrow> cleanup_pass) \<Rightarrow> pass_state \<Rightarrow> pass_answer \<Rightarrow> records \<times> cleanup_metrics \<times> pass_answer option" where
  "pass_end mark st a =
     (ps_records st, pass_drop (mark (fst (ps_pass st)), snd (ps_pass st)), Some a)"

definition batch_result :: "cleanup_budget \<Rightarrow> duration \<Rightarrow> (nat, cleanup_error, records) tx_end \<Rightarrow> cleanup_error + nat" where
  "batch_result b took e =
     (case tx_answer e of
        None \<Rightarrow> Inl CleanTimedOut
      | Some r \<Rightarrow> (case bounded_batch b took r of Inl _ \<Rightarrow> Inl CleanTimedOut | Inr r' \<Rightarrow> r'))"

text \<open>\<^term>\<open>None\<close> as the answer: the turns are over while the pass runs; it is dropped there.\<close>

fun cleanup_turns :: "clean_turn list \<Rightarrow> pass_state \<Rightarrow> records \<times> cleanup_metrics \<times> pass_answer option" where
  "cleanup_turns [] st = (ps_records st, pass_drop (ps_pass st), None)"
| "cleanup_turns (e # es) st =
     (if turn_cancelled_before e then pass_end id st (Inr (ps_removed st, ''cancelled''))
      else let (admitted, b) = admit (turn_now e) (turn_woken e) (ps_budget st); st1 = st\<lparr>ps_budget := b\<rparr> in
      if turn_cancelled_after e then pass_end id st1 (Inr (ps_removed st1, ''cancelled''))
      else if \<not> admitted then pass_end pass_budget_exhausted st1 (Inr (ps_removed st1, ''budget_exhausted''))
      else let tx = clean_tx (turn_env e) (turn_inputs e) (ps_records st1);
               st2 = st1\<lparr>ps_records := tx_data tx\<rparr> in
      case batch_result b (turn_took e) tx of
        Inl err \<Rightarrow> pass_end pass_failed st2 (Inl err)
      | Inr n \<Rightarrow>
          let st3 = st2\<lparr>ps_pass := pass_committed n (ps_pass st2), ps_removed := ps_removed st2 + n\<rparr>
          in if n < CLEANUP_BATCH_ROWS then pass_end pass_completed st3 (Inr (ps_removed st3, ''completed''))
             else cleanup_turns es st3)"

definition clean_pass ::
  "clean_turn list \<Rightarrow> instant \<Rightarrow> records \<Rightarrow> cleanup_metrics \<Rightarrow> records \<times> cleanup_metrics \<times> pass_answer option" where
  "clean_pass turns now t m =
     cleanup_turns turns \<lparr>ps_records = t, ps_budget = budget_start now, ps_pass = pass_start m, ps_removed = 0\<rparr>"

text \<open>\<open>cleanup_loop\<close>: the label a finished pass is counted under; \<^term>\<open>None\<close> when the loop returns.\<close>

definition run_label :: "pass_answer \<Rightarrow> string option" where
  "run_label a =
     (case a of
        Inr (_, out) \<Rightarrow> if out = ''cancelled'' then None else Some out
      | Inl _ \<Rightarrow> Some ''failed'')"

subsection \<open>What an attempt does\<close>

lemma faulty_simps [simp]: "faulty None st = st" "faulty (Some x) st = (\<lambda>d. ([], Inl x))"
  by (simp_all add: faulty_def)

lemma fetch_one_simps [simp]:
  "fetch_one (Inl e) = Inl e" "fetch_one (Inr None) = Inl OtherDriver" "fetch_one (Inr (Some x)) = Inr x"
  by (simp_all add: fetch_one_def)

text \<open>Arbitration itself never claims that the work ran.\<close>

definition is_verdict :: "('c, 'r) attempted \<Rightarrow> bool" where
  "is_verdict a = (case a of Committed _ \<Rightarrow> False | RolledBack _ \<Rightarrow> False | _ \<Rightarrow> True)"

lemma verdict_cases: "is_verdict a \<Longrightarrow> (\<exists>rec. a = Replay rec) \<or> a = Mismatch \<or> a = InProgress"
  by (cases a) (simp_all add: is_verdict_def)

lemma decided_verdict: "is_verdict (decided a)"
  by (simp add: decided_def is_verdict_def split: live_answer.splits)

lemma after_first_verdict: "after_first fp w acq row = Inr (Some a) \<Longrightarrow> is_verdict a"
  using decided_verdict
  by (auto simp: after_first_def bind_result_Inr is_verdict_def split: if_splits option.splits)

lemma second_answer_verdict: "second_answer fp r = Inr (Some a) \<Longrightarrow> is_verdict a"
  using decided_verdict
  by (auto simp: second_answer_def after_second_def bind_result_Inr
      split: sum.splits option.splits idem_answer.splits)

lemma second_answer_None: "second_answer fp r = Inr None \<Longrightarrow> r = Inr None"
  by (auto simp: second_answer_def after_second_def bind_result_Inr answer_row_def
      split: sum.splits option.splits idem_answer.splits prod.splits)

text \<open>Where the work may run: the session is as it was, and both reads found no live record.\<close>

definition unclaimed :: "('u \<times> records) attempt_env \<Rightarrow> scope_key \<Rightarrow> digest \<Rightarrow> 'u \<times> records \<Rightarrow> bool" where
  "unclaimed env scope fp d \<longleftrightarrow>
     env_writable env \<and> env_acquired env \<and> first_fault env = None \<and> second_fault env = None \<and>
     read_live (first_now env) scope fp (snd d) = None \<and>
     read_live (second_now env) scope fp (snd d) = None"

lemma arbitrate_runs:
  assumes "unclaimed env scope fp d"
  shows "run_work (arbitrate env scope fp rest) \<lparr>session = Active d, not_aborted = True\<rparr> =
    run_work (rest (Inr None)) \<lparr>session = Active d, not_aborted = True\<rparr>"
  using assms
  by (simp add: unclaimed_def arbitrate_def first_statement_def second_statement_def after_first_def
      answer_row_def second_answer_def after_second_def)

lemma second_cases:
  fixes rest :: "attempt_error + ('c, 'r) attempted option \<Rightarrow> ('u \<times> records, 'x idem_answer, 't, 'e) work"
  assumes run: "run_work (FetchOptional (second_statement env scope fp) (\<lambda>r2. rest (second_answer fp r2)))
    \<lparr>session = Active d, not_aborted = True\<rparr> = (r, h)"
  obtains "second_fault env = None" "read_live (second_now env) scope fp (snd d) = None"
      "run_work (rest (Inr None)) \<lparr>session = Active d, not_aborted = True\<rparr> = (r, h)"
    | h' a where "run_work (rest (Inr (Some a))) h' = (r, h)" "is_verdict a"
    | h' e where "run_work (rest (Inl e)) h' = (r, h)"
proof -
  obtain r2 :: "sqlx_error + 'x idem_answer option" and h2
    where f: "fetch_optional (second_statement env scope fp)
      \<lparr>session = Active d, not_aborted = True\<rparr> = (r2, h2)" by fastforce
  with run have rest: "run_work (rest (second_answer fp r2)) h2 = (r, h)"
    by (simp del: fetch_optional_active)
  consider e where "second_answer fp r2 = (Inl e :: attempt_error + ('c, 'r) attempted option)"
    | a where "second_answer fp r2 = (Inr (Some a) :: attempt_error + ('c, 'r) attempted option)"
    | "second_answer fp r2 = (Inr None :: attempt_error + ('c, 'r) attempted option)"
    by (metis obj_sumE not_Some_eq)
  then show thesis
  proof cases
    case 3
    then have "r2 = Inr None" by (rule second_answer_None)
    with f have "second_fault env = None" "read_live (second_now env) scope fp (snd d) = None"
      "h2 = \<lparr>session = Active d, not_aborted = True\<rparr>"
      by (auto simp: second_statement_def faulty_def split: option.splits prod.splits)
    with rest 3 that(1) show thesis by simp
  qed (use rest that(2,3) second_answer_verdict in fastforce)+
qed

lemma arbitrate_cases:
  fixes rest :: "attempt_error + ('c, 'r) attempted option \<Rightarrow> ('u \<times> records, 'x idem_answer, 't, 'e) work"
  assumes "run_work (arbitrate env scope fp rest) \<lparr>session = Active d, not_aborted = True\<rparr> = (r, h)"
  obtains "unclaimed env scope fp d"
      "run_work (rest (Inr None)) \<lparr>session = Active d, not_aborted = True\<rparr> = (r, h)"
    | h' a where "run_work (rest (Inr (Some a))) h' = (r, h)" "is_verdict a"
    | h' e where "run_work (rest (Inl e)) h' = (r, h)"
proof (cases "first_fault env")
  case (Some x)
  with assms that(3) show thesis by (cases x) (auto simp: arbitrate_def first_statement_def)
next
  case None
  let ?row = "read_live (first_now env) scope fp (snd d)"
  let ?dec = "after_first fp (env_writable env) (env_acquired env) ?row :: attempt_error + ('c, 'r) attempted option"
  note unfold = arbitrate_def first_statement_def None
  consider e where "?dec = Inl e" | a where "?dec = Inr (Some a)" | "?dec = Inr None"
    by (metis obj_sumE not_Some_eq)
  then show thesis
  proof cases
    case 1
    with assms that(3) show thesis by (auto simp: unfold)
  next
    case 2
    then have "is_verdict a" by (rule after_first_verdict)
    with 2 assms that(2) show thesis by (auto simp: unfold)
  next
    case 3
    then have "env_writable env" "env_acquired env" "?row = None"
      by (auto simp: after_first_def bind_result_Inr answer_row_def
          split: if_splits option.splits prod.splits sum.splits)
    moreover from 3 assms have "run_work (FetchOptional (second_statement env scope fp)
        (\<lambda>r2. rest (second_answer fp r2))) \<lparr>session = Active d, not_aborted = True\<rparr> = (r, h)"
      by (simp add: unfold)
    ultimately show thesis
      using None that by (elim second_cases) (auto simp: unclaimed_def)
  qed
qed

text \<open>The last statement: it commits the work to a written record, or fails the attempt.\<close>

definition write_work ::
  "('u \<times> records) attempt_env \<Rightarrow> duration \<Rightarrow> scope_key \<Rightarrow> caller_identity \<Rightarrow> idem_record \<Rightarrow> 'c
   \<Rightarrow> ('u \<times> records, 'x idem_answer, 'c, ('c, 'r) stop) work" where
  "write_work env retention scope caller rec v =
     FetchMany (write_statement env retention scope caller rec) 2 (\<lambda>xs.
       case write_answer xs of Inl e \<Rightarrow> Return (Inl (Failed e)) | Inr _ \<Rightarrow> Return (Inr v))"

lemma write_work_run:
  assumes "run_work (write_work env retention scope caller rec v
      :: ('u \<times> records, 'x idem_answer, 'c, ('c, 'r) stop) work) h = (r, h')"
  shows "(\<exists>e. r = Inl (Failed e)) \<or>
    (r = Inr v \<and> (\<exists>d row. session h = Active d \<and>
       write_record (write_now env) retention scope caller rec (snd d) = Inr row \<and>
       session h' = Active (fst d, (snd d)(scope \<mapsto> row))))"
proof (cases "session h")
  case (Active d)
  note unfold = write_work_def fetch_many_def respond_def write_statement_def write_answer_def
    numeral_2_eq_2 Active
  show ?thesis
  proof (cases "write_fault env")
    case (Some x)
    with assms show ?thesis by (cases x) (auto simp: unfold)
  next
    case None
    with assms show ?thesis
      by (cases "write_record (write_now env) retention scope caller rec (snd d)")
        (auto simp: unfold Active)
  qed
qed (use assms in \<open>auto simp: write_work_def fetch_many_def respond_def write_answer_def numeral_2_eq_2\<close>)

lemma write_work_ok:
  assumes "session h = Active d" "write_fault env = None"
    and "write_record (write_now env) retention scope caller rec (snd d) = Inr row"
  shows "run_work (write_work env retention scope caller rec v
      :: ('u \<times> records, 'x idem_answer, 'c, ('c, 'r) stop) work) h =
    (Inr v, \<lparr>session = Active (fst d, (snd d)(scope \<mapsto> row)), not_aborted = True\<rparr>)"
  using assms
  by (simp add: write_work_def fetch_many_def respond_def write_statement_def write_answer_def
      numeral_2_eq_2)

definition start_handle :: "'d \<Rightarrow> 'd tx_handle" where
  "start_handle d = \<lparr>session = Active d, not_aborted = True\<rparr>"

text \<open>An attempt whose work tree succeeds has run the caller's work on the data it started from.\<close>

lemma attempt_work_run:
  fixes job :: "('u \<times> records, 'x idem_answer, idem_record \<times> 'c, 'r) work"
  assumes "run_work (attempt_work env retention scope caller fp job) (start_handle d) = (r, h)"
  shows "(\<exists>e. r = Inl (Failed e)) \<or> (\<exists>a. r = Inl (Decided a) \<and> (is_verdict a \<or> (\<exists>b. a = RolledBack b))) \<or>
    (\<exists>v rec d1 row. r = Inr v \<and> unclaimed env scope fp d \<and>
       fst (run_work job (start_handle d)) = Inr (rec, v) \<and>
       session (snd (run_work job (start_handle d))) = Active d1 \<and>
       write_record (write_now env) retention scope caller rec (snd d1) = Inr row \<and>
       session h = Active (fst d1, (snd d1)(scope \<mapsto> row)))"
proof (rule arbitrate_cases[OF assms[unfolded attempt_work_def start_handle_def]], goal_cases)
  case 1
  obtain jr h1 where job: "run_work job (start_handle d) = (jr, h1)" by fastforce
  show ?thesis
  proof (cases jr)
    case (Inl rb)
    with 1(2) job show ?thesis by (auto simp: start_handle_def)
  next
    case (Inr rv)
    then obtain rec v where jr: "jr = Inr (rec, v)" by (cases rv) auto
    with 1(2) job have "run_work (write_work env retention scope caller rec v
        :: ('u \<times> records, 'x idem_answer, 'c, ('c, 'r) stop) work) h1 = (r, h)"
      by (simp add: start_handle_def write_work_def)
    from write_work_run[OF this] jr job 1(1) show ?thesis
      by (auto simp: start_handle_def)
  qed
qed auto

text \<open>
  What one attempt leaves behind. An attempt that answers \<open>Committed\<close> found no live record twice
  under the lock, ran the caller's work once on the data it started from, and keeps the data of that
  work together with the success record of its scope, which replaced none or an expired one. Every
  other answer keeps the data as it was, except \<open>Unavailable\<close>, which is also the answer to a commit
  whose outcome is unknown.
\<close>

lemma attempt_effects:
  fixes job :: "('u \<times> records, 'x idem_answer, idem_record \<times> 'c, 'r) work"
  assumes "commit_codes_honest (commit_answer i)"
    and "arbitrated env i retention scope caller fp job d = (Some answer, d')"
  shows "case answer of
      Inr (Committed v) \<Rightarrow> unclaimed env scope fp d \<and>
        (\<exists>rec u1 t1. fst (run_work job (start_handle d)) = Inr (rec, v) \<and>
           session (snd (run_work job (start_handle d))) = Active (u1, t1) \<and>
           \<not> (\<exists>row. t1 scope = Some row \<and> is_live (write_now env) row) \<and>
           d' = (u1, t1(scope \<mapsto> write_row (write_now env) retention caller rec)))
    | Inr _ \<Rightarrow> d' = d
    | Inl AttemptUnavailable \<Rightarrow> True
    | Inl _ \<Rightarrow> d' = d"
proof -
  obtain r h where run: "run_work (attempt_work env retention scope caller fp job) (start_handle d) = (r, h)"
    by fastforce
  let ?tx = "transaction stop_of_tx READ_COMMITTED i d (attempt_work env retention scope caller fp job)"
  obtain ans where ans: "tx_answer ?tx = Some ans" "answer = attempt_answer ans" and d': "tx_data ?tx = d'"
    using assms(2) by (auto simp: arbitrated_def Let_def)
  note boundary = assms(1) ans(1)[unfolded READ_COMMITTED_def] run[unfolded start_handle_def]
  show ?thesis
  proof (cases ans)
    case (Inr v)
    from writing_tx.success[OF boundary[unfolded Inr]] have "r = Inr v" "session h = Active d'"
      using d' by (simp_all add: READ_COMMITTED_def)
    then show ?thesis
      using attempt_work_run[OF run] Inr ans(2)
      by (fastforce simp: attempt_answer_def write_record_def write_row_def is_live_def
          split: option.splits if_splits)
  next
    case (Inl st)
    from boundary[unfolded Inl] show ?thesis
    proof (cases rule: writing_tx.error)
      case rolled_back
      then show ?thesis using attempt_work_run[OF run] Inl ans(2) d'
        by (auto simp: READ_COMMITTED_def attempt_answer_def dest!: verdict_cases split: attempt_error.splits)
    qed (use Inl ans(2) d'[unfolded READ_COMMITTED_def] in \<open>auto simp: attempt_answer_def stop_of_tx_def classify_tx_def
        split: attempt_error.splits\<close>)
  qed
qed

text \<open>The pool, \<open>BEGIN\<close> and \<open>COMMIT\<close> answer, and the caller waits for the end.\<close>

definition healthy :: "tx_inputs \<Rightarrow> bool" where
  "healthy i \<longleftrightarrow> acquired_conn i = Inr () \<and> begun i = Inr () \<and> commit_answer i = Acknowledged \<and>
     dropped i = NotDropped"

lemma attempt_work_commits:
  fixes job :: "('u \<times> records, 'x idem_answer, idem_record \<times> 'c, 'r) work"
  assumes "unclaimed env scope fp d" "write_fault env = None"
    and "run_work job (start_handle d) = (Inr (rec, v), h1)" "session h1 = Active d1"
    and "write_record (write_now env) retention scope caller rec (snd d1) = Inr row"
  shows "run_work (attempt_work env retention scope caller fp job) (start_handle d) =
    (Inr v, start_handle (fst d1, (snd d1)(scope \<mapsto> row)))"
proof -
  have "run_work (attempt_work env retention scope caller fp job) (start_handle d) =
      run_work (write_work env retention scope caller rec v
        :: ('u \<times> records, 'x idem_answer, 'c, ('c, 'r) stop) work) h1"
    using assms(3) unfolding attempt_work_def start_handle_def arbitrate_runs[OF assms(1)]
    by (simp add: write_work_def)
  then show ?thesis using write_work_ok[OF assms(4,2,5)] by (simp add: start_handle_def)
qed

lemma arbitrated_committed:
  assumes "run_work (attempt_work env retention scope caller fp job) (start_handle d) =
    (Inr v, start_handle d1)" "healthy i"
  shows "arbitrated env i retention scope caller fp job d = (Some (Inr (Committed v)), d1)"
  using assms
  by (simp add: arbitrated_def transaction_def healthy_def end_phase_def start_handle_def
      commit_phase_def commit_session_def attempt_answer_def)

text \<open>An attempt that finds a live record at its first statement.\<close>

lemma arbitrated_live:
  fixes job :: "('u \<times> records, 'x idem_answer, idem_record \<times> 'c, 'r) work"
  assumes "snd d scope = Some row" "is_live (first_now env) row" "env_writable env"
    "first_fault env = None" "healthy i"
  shows "arbitrated env i retention scope caller fp job d =
    (Some (Inr (if fingerprint (row_record row) = fp then Replay (row_record row) else Mismatch)), d)"
proof -
  have "run_work (attempt_work env retention scope caller fp job) \<lparr>session = Active d, not_aborted = True\<rparr> =
      (Inl (Decided (if fingerprint (row_record row) = fp then Replay (row_record row) else Mismatch)),
       \<lparr>session = Active d, not_aborted = True\<rparr>)"
    using assms(1-4)
    by (simp add: attempt_work_def arbitrate_def first_statement_def read_live_def after_first_def
        answer_row_def live_record_def decided_def)
  then show ?thesis using assms(5)
    by (simp add: arbitrated_def transaction_def healthy_def end_phase_def attempt_answer_def)
qed

lemma write_after_second:
  assumes "read_live (second_now env) scope fp t = None" "second_now env \<le> write_now env"
  shows "write_record (write_now env) retention scope caller rec t =
    Inr (write_row (write_now env) retention caller rec)"
  using assms
  by (auto simp: read_live_def write_record_def is_live_def split: option.splits if_splits)

text \<open>The data of the demonstrations: a counter next to an empty table of records.\<close>

definition demo_env :: "(nat \<times> records) attempt_env" where
  "demo_env = \<lparr>first_now = 10, first_fault = None, env_writable = True, env_acquired = True,
     second_now = 10, second_fault = None, write_now = 11, write_fault = None\<rparr>"

definition demo_caller :: caller_identity where
  "demo_caller = \<lparr>issuer = ''iss'', caller_kind = Subject, caller_value = ''sub''\<rparr>"

definition demo_record :: idem_record where
  "demo_record = \<lparr>fingerprint = [7], status = 201, headers = [], body = [1, 2]\<rparr>"

definition demo_job :: "(nat \<times> records, unit idem_answer, idem_record \<times> string, unit) work" where
  "demo_job = FetchOptional (\<lambda>d. ([UserAnswer ()], Inr (fst d + 1, snd d)))
     (\<lambda>_. Return (Inr (demo_record, ''created'')))"

definition demo_kept :: "nat \<times> records" where
  "demo_kept = (6, [[1] \<mapsto> write_row 11 1000000 demo_caller demo_record])"

lemma demo_job_run:
  "run_work demo_job (start_handle (n, t)) = (Inr (demo_record, ''created''), start_handle (n + 1, t))"
  by (simp add: demo_job_def start_handle_def)

theorem attempt_effects_witness:
  "unclaimed demo_env [1] [7] (5, Map.empty) \<and>
   (\<exists>rec u1 t1. fst (run_work demo_job (start_handle (5, Map.empty))) = Inr (rec, ''created'') \<and>
      session (snd (run_work demo_job (start_handle (5, Map.empty)))) = Active (u1, t1) \<and>
      \<not> (\<exists>row. t1 [1] = Some row \<and> is_live (write_now demo_env) row) \<and>
      demo_kept = (u1, t1([1] \<mapsto> write_row (write_now demo_env) 1000000 demo_caller rec)))"
proof -
  have un: "unclaimed demo_env [1] [7] (5, Map.empty)"
    by (simp add: unclaimed_def demo_env_def read_live_def)
  have w: "run_work (attempt_work demo_env 1000000 [1] demo_caller [7] demo_job) (start_handle (5, Map.empty))
      = (Inr ''created'', start_handle demo_kept)"
    using attempt_work_commits[OF un _ demo_job_run]
    by (simp add: start_handle_def demo_env_def write_record_def demo_kept_def)
  have "arbitrated demo_env demo_inputs 1000000 [1] demo_caller [7] demo_job (5, Map.empty)
      = (Some (Inr (Committed ''created'')), demo_kept)"
    using arbitrated_committed[OF w] by (simp add: healthy_def demo_inputs_def)
  from attempt_effects[OF _ this] show ?thesis
    by (simp add: demo_inputs_def commit_codes_honest_def)
qed

text \<open>
  Progress and replay. An attempt on a writable session that gets the lock and finds no live record
  commits when its statements and its work succeed: the caller gets the work's value and the record
  is stored. From then until the record expires, every attempt with the same request replays exactly
  that record and every attempt with another request is a mismatch, whether or not it gets the
  lock, without running its work or changing anything.
\<close>

lemma attempt_commits_then_replays:
  fixes job :: "('u \<times> records, 'x idem_answer, idem_record \<times> 'c, 'r) work"
  assumes "unclaimed env scope fp d" "write_fault env = None" "second_now env \<le> write_now env"
    and "run_work job (start_handle d) = (Inr (rec, v), h1)" "session h1 = Active (u1, snd d)"
    and "fingerprint rec = fp" "healthy i"
  shows "\<exists>d'. arbitrated env i retention scope caller fp job d = (Some (Inr (Committed v)), d') \<and> fst d' = u1 \<and>
    (\<forall>env2 i2 caller2 fp2 (job2 :: ('u \<times> records, 'x idem_answer, idem_record \<times> 'c, 'r) work).
       env_writable env2 \<and> first_fault env2 = None \<and> healthy i2 \<and>
       first_now env2 < write_now env + as_micros retention \<longrightarrow>
       arbitrated env2 i2 retention scope caller2 fp2 job2 d' =
         (Some (Inr (if fp2 = fp then Replay rec else Mismatch)), d'))"
proof (intro exI conjI allI impI)
  let ?row = "write_row (write_now env) retention caller rec"
  let ?d = "(u1, (snd d)(scope \<mapsto> ?row))"
  have "write_record (write_now env) retention scope caller rec (snd (u1, snd d)) = Inr ?row"
    using assms(1,3) by (auto simp: unclaimed_def intro: write_after_second)
  from attempt_work_commits[OF assms(1,2,4,5) this]
  show "arbitrated env i retention scope caller fp job d = (Some (Inr (Committed v)), ?d)"
    using arbitrated_committed assms(7) by fastforce
  show "fst ?d = u1" by simp
  fix env2 :: "('u \<times> records) attempt_env" and i2 caller2 fp2
    and job2 :: "('u \<times> records, 'x idem_answer, idem_record \<times> 'c, 'r) work"
  assume "env_writable env2 \<and> first_fault env2 = None \<and> healthy i2 \<and>
    first_now env2 < write_now env + as_micros retention"
  then show "arbitrated env2 i2 retention scope caller2 fp2 job2 ?d =
      (Some (Inr (if fp2 = fp then Replay rec else Mismatch)), ?d)"
    using arbitrated_live[of ?d scope ?row env2 i2 retention caller2 fp2 job2] assms(6)
    by (auto simp: is_live_def write_row_def)
qed

theorem attempt_commits_then_replays_witness:
  "\<exists>d'. arbitrated demo_env demo_inputs 1000000 [1] demo_caller [7] demo_job (5, Map.empty)
      = (Some (Inr (Committed ''created'')), d') \<and> fst d' = 6 \<and>
     arbitrated (demo_env\<lparr>first_now := 12, env_acquired := False\<rparr>) demo_inputs 1000000 [1] demo_caller [8]
       demo_job d' = (Some (Inr Mismatch), d')"
proof -
  have "unclaimed demo_env [1] [7] (5, Map.empty)"
    by (simp add: unclaimed_def demo_env_def read_live_def)
  from attempt_commits_then_replays[OF this _ _ demo_job_run, of 6 demo_inputs 1000000 demo_caller]
  obtain d' where d': "arbitrated demo_env demo_inputs 1000000 [1] demo_caller [7] demo_job (5, Map.empty)
      = (Some (Inr (Committed ''created'')), d')" "fst d' = 6"
    and later: "\<And>env2 i2 caller2 fp2 (job2 :: (nat \<times> records, unit idem_answer, idem_record \<times> string, unit) work).
       env_writable env2 \<Longrightarrow> first_fault env2 = None \<Longrightarrow> healthy i2 \<Longrightarrow> first_now env2 < 11 + as_micros 1000000 \<Longrightarrow>
       arbitrated env2 i2 1000000 [1] caller2 fp2 job2 d' =
         (Some (Inr (if fp2 = [7] then Replay demo_record else Mismatch)), d')"
    by (auto simp: demo_env_def start_handle_def demo_record_def healthy_def demo_inputs_def)
  have "arbitrated (demo_env\<lparr>first_now := 12, env_acquired := False\<rparr>) demo_inputs 1000000 [1] demo_caller [8]
       demo_job d' = (Some (Inr Mismatch), d')"
    by (subst later) (simp_all add: demo_env_def healthy_def demo_inputs_def as_micros_def)
  with d' show ?thesis by blast
qed

subsection \<open>What a cleanup pass does\<close>

text \<open>The table lost only records that had expired at one of the clocks; and which scopes it lost.\<close>

definition pruned :: "micros set \<Rightarrow> records \<Rightarrow> records \<Rightarrow> bool" where
  "pruned clocks t t' \<longleftrightarrow>
     (\<forall>k. t' k = t k \<or> (t' k = None \<and> (\<exists>now \<in> clocks. record_expired now t k)))"

definition deleted :: "records \<Rightarrow> records \<Rightarrow> scope_key set" where
  "deleted t t' = {k. t k \<noteq> None \<and> t' k = None}"

lemma pruned_refl [simp]: "pruned clocks t t"
  by (simp add: pruned_def)

lemma pruned_trans: "pruned c1 t u \<Longrightarrow> pruned c2 u v \<Longrightarrow> pruned (c1 \<union> c2) t v"
proof (unfold pruned_def, intro allI)
  fix k
  assume "\<forall>k. u k = t k \<or> (u k = None \<and> (\<exists>now \<in> c1. record_expired now t k))"
    "\<forall>k. v k = u k \<or> (v k = None \<and> (\<exists>now \<in> c2. record_expired now u k))"
  then have "u k = t k \<or> (u k = None \<and> (\<exists>now \<in> c1. record_expired now t k))"
    "v k = u k \<or> (v k = None \<and> (\<exists>now \<in> c2. record_expired now u k))" by blast+
  then show "v k = t k \<or> (v k = None \<and> (\<exists>now \<in> c1 \<union> c2. record_expired now t k))"
    by (auto simp: record_expired_def)
qed

lemma deleted_refl [simp]: "deleted t t = {}"
  by (auto simp: deleted_def)

lemma card_deleted_trans:
  assumes "pruned c1 t u" "pruned c2 u v" "finite (deleted t u)" "finite (deleted u v)"
  shows "card (deleted t v) = card (deleted t u) + card (deleted u v)"
    "finite (deleted t v)"
proof -
  have u: "u k = t k \<or> u k = None" for k using assms(1) unfolding pruned_def by metis
  have v: "v k = u k \<or> v k = None" for k using assms(2) unfolding pruned_def by metis
  have "k \<in> deleted t v \<longleftrightarrow> k \<in> deleted t u \<union> deleted u v" "k \<notin> deleted t u \<inter> deleted u v" for k
    using u[of k] v[of k] by (cases "t k"; cases "u k"; simp add: deleted_def)+
  then have "deleted t v = deleted t u \<union> deleted u v" "deleted t u \<inter> deleted u v = {}" by blast+
  then show "card (deleted t v) = card (deleted t u) + card (deleted u v)" "finite (deleted t v)"
    using assms(3,4) by (simp_all add: card_Un_disjoint)
qed

lemma cleanup_batch_effect:
  assumes "ks = expired_of now scopes t"
  shows "pruned {now} t (cleanup_batch now ks t)" "deleted t (cleanup_batch now ks t) = set ks"
    "card (set ks) = length ks" "length ks \<le> CLEANUP_BATCH_ROWS"
proof -
  have exp: "record_expired now t k \<Longrightarrow> t k \<noteq> None" for k
    by (auto simp: record_expired_def split: option.splits)
  show "pruned {now} t (cleanup_batch now ks t)" by (auto simp: pruned_def cleanup_batch_def)
  show "deleted t (cleanup_batch now ks t) = set ks"
    using exp by (auto simp: deleted_def cleanup_batch_def assms expired_of_def)
  have "distinct ks" by (simp add: assms expired_of_def)
  then show "card (set ks) = length ks" by (rule distinct_card)
  show "length ks \<le> CLEANUP_BATCH_ROWS" unfolding assms expired_of_def
    using le_trans[OF length_filter_le length_remdups_leq] by (rule le_trans) simp
qed

lemma clean_work_run:
  assumes "run_work (clean_work env) \<lparr>session = Active t, not_aborted = True\<rparr> = (Inr n, h)"
  shows "n = length (expired_of (clean_now env) (clean_scopes env) t) \<and>
    session h = Active (cleanup_batch (clean_now env) (expired_of (clean_now env) (clean_scopes env) t) t)"
proof (cases "timeout_fault env")
  case (Some x)
  with assms show ?thesis by (cases x) (simp add: clean_work_def)
next
  case None
  note unfold = clean_work_def fetch_many_def respond_def numeral_2_eq_2 Let_def None
  show ?thesis
  proof (cases "delete_fault env")
    case (Some x)
    with assms show ?thesis by (cases x) (simp add: unfold)
  next
    case None
    with assms show ?thesis by (auto simp: unfold)
  qed
qed

lemma clean_tx_effect:
  assumes "commit_codes_honest (commit_answer i)"
  shows "pruned {clean_now env} t (tx_data (clean_tx env i t))"
    and "finite (deleted t (tx_data (clean_tx env i t)))"
    and "tx_answer (clean_tx env i t) = Some (Inr n) \<Longrightarrow>
      n = card (deleted t (tx_data (clean_tx env i t)))"
proof -
  let ?ks = "expired_of (clean_now env) (clean_scopes env) t"
  let ?kept = "cleanup_batch (clean_now env) ?ks t"
  note batch = cleanup_batch_effect[of ?ks "clean_now env" "clean_scopes env" t, OF refl]
  obtain r h where run: "run_work (clean_work env) \<lparr>session = Active t, not_aborted = True\<rparr> = (r, h)"
    by fastforce
  let ?ends = "possible_ends t (r, session h)"
  note clean = clean_tx_def READ_COMMITTED_def
  have ends: "?ends \<subseteq> {t, ?kept}"
    using clean_work_run[of env t _ h] run by (cases r) (auto simp: possible_ends_def)
  have "tx_data (clean_tx env i t) \<in> ?ends"
    unfolding clean using assms run by (rule writing_tx.ends)
  with ends have two: "tx_data (clean_tx env i t) = t \<or> tx_data (clean_tx env i t) = ?kept" by blast
  then show "pruned {clean_now env} t (tx_data (clean_tx env i t))"
    "finite (deleted t (tx_data (clean_tx env i t)))"
    using batch(1,2) by auto
  assume "tx_answer (clean_tx env i t) = Some (Inr n)"
  from writing_tx.success[OF assms this[unfolded clean] run]
  have "(r, session h) = (Inr n, Active (tx_data (clean_tx env i t)))" by (simp add: clean)
  with clean_work_run[of env t n h] run batch(2,3)
  show "n = card (deleted t (tx_data (clean_tx env i t)))" by auto
qed

definition turn_clocks :: "clean_turn list \<Rightarrow> micros set" where
  "turn_clocks es = (\<lambda>e. clean_now (turn_env e)) ` set es"

definition honest_turns :: "clean_turn list \<Rightarrow> bool" where
  "honest_turns es = list_all (\<lambda>e. commit_codes_honest (commit_answer (turn_inputs e))) es"

definition budget_free :: "cleanup_budget \<Rightarrow> bool" where
  "budget_free b \<longleftrightarrow> admission b = None \<and> batch_budget b = None"

lemma budget_free_admit:
  "budget_free b \<Longrightarrow> fst (admit now woken b) \<and> budget_free (snd (admit now woken b))"
  using admission_unbounded by (simp add: budget_free_def)

lemma budget_free_batch: "budget_free b \<Longrightarrow> batch_result b took e = Inr n \<Longrightarrow> tx_answer e = Some (Inr n)"
  by (auto simp: budget_free_def batch_result_def bounded_batch_def split: option.splits)

text \<open>
  The account of a pass that started from a table and a removed count: the table lost only expired
  records, the pass is no longer active, and an answer counts what was deleted.
\<close>

definition pass_account ::
  "micros set \<Rightarrow> records \<Rightarrow> nat \<Rightarrow> cleanup_metrics \<Rightarrow> records \<times> cleanup_metrics \<times> pass_answer option \<Rightarrow> bool" where
  "pass_account clocks t removed m res =
     (case res of (t', m', ans) \<Rightarrow>
        pruned clocks t t' \<and> finite (deleted t t') \<and> active_passes m' = active_passes m - 1 \<and>
        removed_rows_total m' \<le> removed_rows_total m + card (deleted t t') \<and>
        (\<forall>n out. ans = Some (Inr (n, out)) \<longrightarrow>
           out \<noteq> ''budget_exhausted'' \<and> n = removed + card (deleted t t') \<and>
           removed_rows_total m' = removed_rows_total m + card (deleted t t')))"

lemma pass_end_simps:
  "pass_end mark st a = (ps_records st, pass_drop (mark (fst (ps_pass st)), snd (ps_pass st)), Some a)"
  "active_passes (pass_drop pm) = active_passes (snd pm) - 1"
  "removed_rows_total (pass_drop pm) = removed_rows_total (snd pm)"
  "active_passes (snd (pass_committed n pm)) = active_passes (snd pm)"
  "removed_rows_total (snd (pass_committed n pm)) = removed_rows_total (snd pm) + n"
  by (simp_all add: pass_end_def pass_drop_def pass_committed_def split_beta)

text \<open>A pass that goes on from a committed batch.\<close>

lemma pass_account_after:
  assumes "pass_account c2 u (removed + card (deleted t u)) (snd (pass_committed (card (deleted t u)) pm)) res"
    and "pruned c1 t u" "finite (deleted t u)" "c1 \<union> c2 \<subseteq> c"
  shows "pass_account c t removed (snd pm) res"
proof -
  obtain v m' ans where res: "res = (v, m', ans)" by (metis prod_cases3)
  have pr: "pruned c2 u v" "finite (deleted u v)" using assms(1) by (simp_all add: res pass_account_def)
  have "pruned c t v" using pruned_trans[OF assms(2) pr(1)] assms(4) unfolding pruned_def by blast
  then show ?thesis
    using assms(1) card_deleted_trans[OF assms(2) pr(1) assms(3) pr(2)]
    by (auto simp: res pass_account_def pass_end_simps)
qed

lemma cleanup_turns_account:
  assumes "honest_turns es" "budget_free (ps_budget st)"
  shows "pass_account (turn_clocks es) (ps_records st) (ps_removed st) (snd (ps_pass st)) (cleanup_turns es st)"
  using assms
proof (induction es arbitrary: st)
  case Nil
  then show ?case by (simp add: pass_account_def pass_end_simps)
next
  case (Cons e es)
  obtain b where adm: "admit (turn_now e) (turn_woken e) (ps_budget st) = (True, b)" "budget_free b"
    using budget_free_admit[OF Cons.prems(2), of "turn_now e" "turn_woken e"]
    by (cases "admit (turn_now e) (turn_woken e) (ps_budget st)") auto
  let ?tx = "clean_tx (turn_env e) (turn_inputs e) (ps_records st)"
  have honest: "commit_codes_honest (commit_answer (turn_inputs e))" "honest_turns es"
    using Cons.prems(1) by (simp_all add: honest_turns_def)
  note tx = clean_tx_effect[OF honest(1), where env = "turn_env e" and t = "ps_records st"]
  have clk: "pruned (turn_clocks (e # es)) (ps_records st) (tx_data ?tx)"
    using tx(1) by (auto simp: pruned_def turn_clocks_def)
  consider "turn_cancelled_before e \<or> turn_cancelled_after e"
    | err where "\<not> (turn_cancelled_before e \<or> turn_cancelled_after e)" "batch_result b (turn_took e) ?tx = Inl err"
    | n where "\<not> (turn_cancelled_before e \<or> turn_cancelled_after e)" "batch_result b (turn_took e) ?tx = Inr n"
    by (metis obj_sumE)
  then show ?case
  proof cases
    case 1
    then show ?thesis by (auto simp: adm pass_account_def pass_end_simps Let_def)
  next
    case 2
    then show ?thesis using clk tx(2) by (simp add: adm pass_account_def pass_end_simps Let_def)
  next
    case (3 n)
    let ?st = "st\<lparr>ps_budget := b, ps_records := tx_data ?tx, ps_pass := pass_committed n (ps_pass st),
      ps_removed := ps_removed st + n\<rparr>"
    have n: "n = card (deleted (ps_records st) (tx_data ?tx))"
      using tx(3) budget_free_batch[OF adm(2) 3(2)] by blast
    have rest: "pass_account (turn_clocks es) (tx_data ?tx) (ps_removed st + n)
        (snd (pass_committed n (ps_pass st))) (cleanup_turns es ?st)"
      using Cons.IH[of ?st] honest(2) adm(2) by simp
    show ?thesis
    proof (cases "n < CLEANUP_BATCH_ROWS")
      case True
      then show ?thesis using 3 clk tx(2) n
        by (simp add: adm pass_account_def pass_end_simps Let_def)
    next
      case False
      have "{clean_now (turn_env e)} \<union> turn_clocks es \<subseteq> turn_clocks (e # es)"
        by (auto simp: turn_clocks_def)
      from pass_account_after[OF _ tx(1,2) this] rest False 3
      show ?thesis by (simp add: adm n Let_def)
    qed
  qed
qed

text \<open>
  C38. A cleanup pass is safe and keeps its books. However its batches fail or lose their commit answer,
  the table loses only records that had expired at the clock of one of the batches, so no live
  record. A pass that answers reports exactly the number of records the table lost, the removed
  counter grows by it (by at most what was lost when the pass fails), the pass is active no more,
  and with the constants of the build it never ends for its budget.
\<close>

theorem cleanup_pass_safe:
  assumes "honest_turns turns" "clean_pass turns now t m = (t', m', ans)"
  shows "pruned (turn_clocks turns) t t' \<and> active_passes m' = active_passes m \<and>
    removed_rows_total m' \<le> removed_rows_total m + card (deleted t t') \<and>
    (\<forall>n out. ans = Some (Inr (n, out)) \<longrightarrow>
       out \<noteq> ''budget_exhausted'' \<and> n = card (deleted t t') \<and>
       removed_rows_total m' = removed_rows_total m + n)"
proof -
  let ?st = "\<lparr>ps_records = t, ps_budget = budget_start now, ps_pass = pass_start m, ps_removed = 0\<rparr>"
  have "budget_free (ps_budget ?st)"
    by (simp add: budget_free_def budget_start_def CLEANUP_ADMISSION_BUDGET_def CLEANUP_BATCH_BUDGET_def)
  from cleanup_turns_account[OF assms(1) this] assms(2) show ?thesis
    by (simp add: clean_pass_def pass_account_def pass_start_def)
qed

definition demo_turn :: clean_turn where
  "demo_turn = \<lparr>turn_cancelled_before = False, turn_now = 0, turn_woken = 0, turn_cancelled_after = False,
     turn_env = \<lparr>clean_now = 20000, clean_scopes = [[1], [2]], timeout_fault = None, delete_fault = None\<rparr>,
     turn_inputs = demo_inputs, turn_took = 0\<rparr>"

definition demo_metrics :: cleanup_metrics where
  "demo_metrics = \<lparr>active_passes = 0, batches_total = 0, removed_rows_total = 3, passes_total = (\<lambda>_. 0)\<rparr>"

theorem cleanup_pass_safe_witness:
  "card (deleted (snd demo_kept) Map.empty) = 1 \<and>
   snd (snd (clean_pass [demo_turn] 0 (snd demo_kept) demo_metrics)) = Some (Inr (1, ''completed''))"
proof -
  have ex: "expired_of 20000 [[1], [2]] (snd demo_kept) = [[1]]"
    by (simp add: expired_of_def CLEANUP_BATCH_ROWS_def record_expired_def demo_kept_def write_row_def
        as_micros_def)
  have cb: "cleanup_batch 20000 [[1]] (snd demo_kept) = Map.empty"
    by (rule ext) (simp add: cleanup_batch_def record_expired_def demo_kept_def write_row_def as_micros_def)
  have tx: "clean_tx (turn_env demo_turn) demo_inputs (snd demo_kept) =
      \<lparr>tx_answer = Some (Inr 1), tx_data = Map.empty, tx_label = OutCommitted, tx_discard = False\<rparr>"
    by (simp add: clean_tx_def transaction_def demo_inputs_def clean_work_def demo_turn_def fetch_many_def
        respond_def numeral_2_eq_2 end_phase_def commit_phase_def commit_session_def ex cb Let_def)
  have adm: "admit 0 0 (budget_start 0) = (True, (budget_start 0)\<lparr>budget_first := False\<rparr>)"
    by (simp add: admit_def exhausted_def budget_start_def CLEANUP_ADMISSION_BUDGET_def)
  have bb: "batch_result ((budget_start 0)\<lparr>budget_first := False\<rparr>) 0
      \<lparr>tx_answer = Some (Inr 1), tx_data = Map.empty, tx_label = OutCommitted, tx_discard = False\<rparr> = Inr 1"
    by (simp add: batch_result_def bounded_batch_def budget_start_def CLEANUP_BATCH_BUDGET_def)
  obtain m' where run: "clean_pass [demo_turn] 0 (snd demo_kept) demo_metrics =
      (Map.empty, m', Some (Inr (1, ''completed'')))"
    using tx adm bb
    by (simp add: clean_pass_def demo_turn_def pass_end_def Let_def CLEANUP_BATCH_ROWS_def)
  moreover have "honest_turns [demo_turn]"
    by (simp add: honest_turns_def demo_turn_def demo_inputs_def commit_codes_honest_def)
  ultimately show ?thesis using cleanup_pass_safe[OF _ run] by simp
qed

end
