(* ===== verification/IdemIdentity.thy ===== *)
theory IdemIdentity
  imports IdemStore
begin

text \<open>
  \<open>crates/infra-http/src/idempotency/identity.rs\<close>: which caller owns a key, how the key header is
  decoded, and the framing of the scope and of the request fingerprint. SHA-256 and the parser of
  structured fields are parameters; the framing is what this crate adds, and it is shown to be
  injective, so two scopes or two fingerprints coincide only for a collision of the hash.
\<close>

subsection \<open>Caller and key\<close>

definition MAX_KEY_BYTES :: nat where "MAX_KEY_BYTES = 255"

definition caller_identity_of :: "string \<Rightarrow> string option \<Rightarrow> string option \<Rightarrow> caller_identity option" where
  "caller_identity_of iss subject client_id =
     (case (subject, client_id) of
        (Some s, _) \<Rightarrow> Some \<lparr>issuer = iss, caller_kind = Subject, caller_value = s\<rparr>
      | (None, Some c) \<Rightarrow> Some \<lparr>issuer = iss, caller_kind = Client, caller_value = c\<rparr>
      | (None, None) \<Rightarrow> None)"

definition ows :: "8 word \<Rightarrow> bool" where "ows b = (b = 0x20 \<or> b = 0x09)"

text \<open>\<open>trim_ows\<close> by the positions of the first and the last other byte, as the code has it.\<close>

fun first_position :: "('a \<Rightarrow> bool) \<Rightarrow> 'a list \<Rightarrow> nat option" where
  "first_position p [] = None"
| "first_position p (x # xs) = (if p x then Some 0 else map_option Suc (first_position p xs))"

definition last_position :: "('a \<Rightarrow> bool) \<Rightarrow> 'a list \<Rightarrow> nat option" where
  "last_position p xs = map_option (\<lambda>i. length xs - 1 - i) (first_position p (rev xs))"

definition trim_ows :: "bytes \<Rightarrow> bytes" where
  "trim_ows v =
     (let start = (case first_position (\<lambda>b. \<not> ows b) v of None \<Rightarrow> length v | Some i \<Rightarrow> i);
          fin = (case last_position (\<lambda>b. \<not> ows b) v of None \<Rightarrow> start | Some i \<Rightarrow> i + 1)
      in take (fin - start) (drop start v))"

text \<open>The parts of a parsed structured field item that the code reads.\<close>

record sfv_item =
  bare_string :: "bytes option"
  params_empty :: bool

definition visible :: "8 word \<Rightarrow> bool" where "visible b = (0x21 \<le> b \<and> b \<le> 0x7E)"

definition decode_key :: "(bytes \<Rightarrow> sfv_item option) \<Rightarrow> bytes \<Rightarrow> bytes option" where
  "decode_key parse v =
     (if v \<noteq> [] \<and> hd v = 0x22 then
        (case parse v of
           None \<Rightarrow> None
         | Some item \<Rightarrow>
             (case bare_string item of
                None \<Rightarrow> None
              | Some s \<Rightarrow> if params_empty item then Some s else None))
      else if list_all visible v then Some v
      else None)"

definition valid_key :: "(bytes \<Rightarrow> sfv_item option) \<Rightarrow> bytes list \<Rightarrow> bytes option" where
  "valid_key parse vals =
     (case vals of
        [] \<Rightarrow> None
      | v # rest \<Rightarrow>
          if rest \<noteq> [] then None
          else case decode_key parse (trim_ows v) of
                 None \<Rightarrow> None
               | Some k \<Rightarrow> if 1 \<le> length k \<and> length k \<le> MAX_KEY_BYTES then Some k else None)"

subsection \<open>Framing\<close>

text \<open>\<open>u64::to_be_bytes\<close>.\<close>

fun be_digits :: "nat \<Rightarrow> nat \<Rightarrow> bytes" where
  "be_digits 0 n = []"
| "be_digits (Suc k) n = be_digits k (n div 256) @ [of_nat (n mod 256)]"

definition to_be_bytes :: "nat \<Rightarrow> bytes" where "to_be_bytes n = be_digits 8 n"

text \<open>What \<open>frame\<close> feeds the hasher: the length as a 64-bit number, then the bytes.\<close>

definition frame :: "bytes \<Rightarrow> bytes option" where
  "frame bs = (if length bs \<le> u64_max then Some (to_be_bytes (length bs) @ bs) else None)"

fun concat_all :: "'a list option list \<Rightarrow> 'a list option" where
  "concat_all [] = Some []"
| "concat_all (None # xs) = None"
| "concat_all (Some x # xs) = map_option (\<lambda>ys. x @ ys) (concat_all xs)"

definition SCOPE_DOMAIN :: string where "SCOPE_DOMAIN = ''http-idempotency/scope/v2''"
definition REQUEST_DOMAIN :: string where "REQUEST_DOMAIN = ''http-idempotency/request/v1''"

definition caller_tag :: "caller_kind \<Rightarrow> 8 word" where
  "caller_tag k = (case k of Subject \<Rightarrow> 1 | Client \<Rightarrow> 2)"

definition scope_input :: "caller_identity \<Rightarrow> bytes \<Rightarrow> bytes option" where
  "scope_input c key =
     concat_all
       [Some (bytes_of SCOPE_DOMAIN), Some [0], frame (bytes_of (issuer c)),
        Some [caller_tag (caller_kind c)], frame (bytes_of (caller_value c)), frame key]"

definition scope_key_of :: "(bytes \<Rightarrow> digest) \<Rightarrow> caller_identity \<Rightarrow> bytes \<Rightarrow> scope_key option" where
  "scope_key_of sha c key = map_option sha (scope_input c key)"

record http_request =
  rq_method :: string
  rq_path :: string
  rq_query :: "string option"
  rq_content_types :: "bytes list"
  rq_body :: bytes

definition query_input :: "string option \<Rightarrow> bytes option" where
  "query_input q =
     (case q of
        Some s \<Rightarrow> concat_all [Some [1], frame (bytes_of s)]
      | None \<Rightarrow> Some [0])"

definition types_input :: "bytes list \<Rightarrow> bytes option" where
  "types_input ts =
     (if length ts \<le> u64_max then concat_all (Some (to_be_bytes (length ts)) # map frame ts) else None)"

definition request_input :: "http_request \<Rightarrow> bytes option" where
  "request_input r =
     concat_all
       [Some (bytes_of REQUEST_DOMAIN), Some [0], frame (bytes_of (rq_method r)),
        frame (bytes_of (rq_path r)), query_input (rq_query r), types_input (rq_content_types r),
        frame (rq_body r)]"

definition request_digest :: "(bytes \<Rightarrow> digest) \<Rightarrow> http_request \<Rightarrow> digest option" where
  "request_digest sha r = map_option sha (request_input r)"

subsection \<open>Trimming\<close>

text \<open>The positions give what a reader expects of trimming: both ends without blanks.\<close>

lemma first_position_None: "first_position p xs = None \<longleftrightarrow> (\<forall>x \<in> set xs. \<not> p x)"
  by (induction xs) auto

lemma first_position_drop:
  "first_position p xs = Some i \<Longrightarrow> i < length xs \<and> drop i xs = dropWhile (\<lambda>x. \<not> p x) xs"
  by (induction xs arbitrary: i) (auto split: if_splits)

lemma first_position_append:
  "\<exists>x \<in> set xs. p x \<Longrightarrow> first_position p (xs @ ys) = first_position p xs"
proof (induction xs)
  case (Cons x xs)
  then show ?case by (cases "p x") auto
qed simp

lemma trim_ows_strips: "trim_ows v = rev (dropWhile ows (rev (dropWhile ows v)))"
proof (cases "first_position (\<lambda>b. \<not> ows b) v")
  case None
  then have "\<forall>b \<in> set v. ows b" by (simp add: first_position_None)
  moreover from None have "first_position (\<lambda>b. \<not> ows b) (rev v) = None"
    by (simp add: first_position_None)
  ultimately show ?thesis using None
    by (simp add: trim_ows_def last_position_def dropWhile_eq_Nil_conv[THEN iffD2])
next
  case (Some i)
  define w where "w = drop i v"
  from first_position_drop[OF Some] have w: "w = dropWhile ows v" and i: "i < length v"
    by (simp_all add: w_def)
  have "w \<noteq> []" using i by (simp add: w_def)
  then have "\<not> ows (hd w)" using hd_dropWhile[of ows v] w by simp
  then have some: "\<exists>b \<in> set (rev w). \<not> ows b" using \<open>w \<noteq> []\<close> by (metis hd_in_set set_rev)
  then obtain k where k: "first_position (\<lambda>b. \<not> ows b) (rev w) = Some k"
    by (cases "first_position (\<lambda>b. \<not> ows b) (rev w)") (auto simp: first_position_None)
  have "rev v = rev w @ rev (take i v)" by (metis append_take_drop_id rev_append w_def)
  then have "first_position (\<lambda>b. \<not> ows b) (rev v) = Some k"
    using first_position_append[OF some, of "rev (take i v)"] k by simp
  then have last: "last_position (\<lambda>b. \<not> ows b) v = Some (length v - 1 - k)"
    by (simp add: last_position_def)
  have kw: "k < length w" "drop k (rev w) = dropWhile ows (rev w)"
    using first_position_drop[OF k] by simp_all
  have "length v - 1 - k + 1 - i = length w - k" using kw(1) i by (simp add: w_def)
  then have "trim_ows v = take (length w - k) w" by (simp add: trim_ows_def Some last w_def)
  also have "\<dots> = rev (drop k (rev w))" by (simp add: rev_drop)
  finally show ?thesis using kw(2) w by metis
qed

subsection \<open>Injectivity of the framing\<close>

lemma length_be_digits [simp]: "length (be_digits k n) = k"
  by (induction k arbitrary: n) simp_all

lemma length_to_be_bytes [simp]: "length (to_be_bytes n) = 8"
  by (simp add: to_be_bytes_def)

lemma be_digits_inj: "n < 256 ^ k \<Longrightarrow> m < 256 ^ k \<Longrightarrow> be_digits k n = be_digits k m \<Longrightarrow> n = m"
proof (induction k arbitrary: n m)
  case (Suc k)
  then have "be_digits k (n div 256) = be_digits k (m div 256)"
    and lo: "(of_nat (n mod 256) :: 8 word) = of_nat (m mod 256)" by simp_all
  moreover have "n div 256 < 256 ^ k" "m div 256 < 256 ^ k"
    using Suc.prems by (simp_all add: less_mult_imp_div_less mult.commute)
  ultimately have hi: "n div 256 = m div 256" using Suc.IH by blast
  have "n mod 256 = m mod 256"
    using arg_cong[OF lo, of unat] by (simp add: unat_of_nat)
  with hi show ?case by (metis div_mult_mod_eq)
qed simp

lemma to_be_bytes_inj: "n \<le> u64_max \<Longrightarrow> m \<le> u64_max \<Longrightarrow> to_be_bytes n = to_be_bytes m \<Longrightarrow> n = m"
  unfolding to_be_bytes_def by (rule be_digits_inj[of _ 8]) (simp_all add: u64_max_def)

lemma frame_cancel:
  assumes "frame a = Some fa" "frame b = Some fb" "fa @ x = fb @ y"
  shows "a = b \<and> x = y"
proof -
  have f: "fa = to_be_bytes (length a) @ a" "fb = to_be_bytes (length b) @ b"
    "length a \<le> u64_max" "length b \<le> u64_max"
    using assms(1,2) by (auto simp: frame_def split: if_splits)
  with assms(3) have "to_be_bytes (length a) = to_be_bytes (length b)" "a @ x = b @ y" by auto
  with f(3,4) have "length a = length b" using to_be_bytes_inj by blast
  with \<open>a @ x = b @ y\<close> show ?thesis by simp
qed

lemma concat_all_Cons:
  "concat_all (o1 # xs) = Some z \<longleftrightarrow> (\<exists>x ys. o1 = Some x \<and> concat_all xs = Some ys \<and> z = x @ ys)"
  by (cases o1) auto

lemma frames_cancel:
  assumes "concat_all (map frame as) = Some fa" "concat_all (map frame bs) = Some fb"
    "length as = length bs" "fa @ x = fb @ y"
  shows "as = bs \<and> x = y"
  using assms
proof (induction as bs arbitrary: fa fb rule: list_induct2')
  case (4 a as b bs)
  obtain f fs g gs where p: "frame a = Some f" "concat_all (map frame as) = Some fs" "fa = f @ fs"
    "frame b = Some g" "concat_all (map frame bs) = Some gs" "fb = g @ gs"
    using "4.prems"(1,2) by (auto simp: concat_all_Cons)
  with "4.prems"(4) have "f @ (fs @ x) = g @ (gs @ y)" by simp
  from frame_cancel[OF p(1,4) this] have "a = b" "fs @ x = gs @ y" by simp_all
  with "4.IH"[OF p(2,5)] "4.prems"(3) show ?case by simp
qed simp_all

lemma types_cancel:
  assumes "types_input as = Some fa" "types_input bs = Some fb" "fa @ x = fb @ y"
  shows "as = bs \<and> x = y"
proof -
  obtain fs gs where p: "fa = to_be_bytes (length as) @ fs" "concat_all (map frame as) = Some fs"
    "fb = to_be_bytes (length bs) @ gs" "concat_all (map frame bs) = Some gs"
    "length as \<le> u64_max" "length bs \<le> u64_max"
    using assms(1,2) by (auto simp: types_input_def split: if_splits)
  with assms(3) have "to_be_bytes (length as) = to_be_bytes (length bs)" "fs @ x = gs @ y" by auto
  with p(5,6) have "length as = length bs" using to_be_bytes_inj by blast
  from frames_cancel[OF p(2,4) this \<open>fs @ x = gs @ y\<close>] show ?thesis .
qed

lemma query_cancel:
  assumes "query_input q = Some fa" "query_input r = Some fb" "fa @ x = fb @ y"
  shows "q = r \<and> x = y"
proof (cases q)
  case None
  with assms show ?thesis by (cases r) (auto simp: query_input_def concat_all_Cons)
next
  case (Some s)
  with assms obtain t where r: "r = Some t" by (cases r) (auto simp: query_input_def concat_all_Cons)
  obtain f g where "frame (bytes_of s) = Some f" "frame (bytes_of t) = Some g" "f @ x = g @ y"
    using assms Some r by (auto simp: query_input_def concat_all_Cons)
  from frame_cancel[OF this] Some r show ?thesis by (simp add: bytes_of_inj)
qed

lemma scope_input_inj:
  assumes "scope_input c k = Some z" "scope_input c' k' = Some z"
  shows "c = c' \<and> k = k'"
proof -
  obtain i v f i' v' f' where p: "frame (bytes_of (issuer c)) = Some i" "frame (bytes_of (caller_value c)) = Some v"
    "frame k = Some f" "frame (bytes_of (issuer c')) = Some i'" "frame (bytes_of (caller_value c')) = Some v'"
    "frame k' = Some f'"
    "i @ caller_tag (caller_kind c) # v @ f @ [] = i' @ caller_tag (caller_kind c') # v' @ f' @ []"
    using assms by (auto simp: scope_input_def concat_all_Cons)
  from frame_cancel[OF p(1,4,7)]
  have 1: "issuer c = issuer c'" "caller_tag (caller_kind c) = caller_tag (caller_kind c')"
    "v @ f @ [] = v' @ f' @ []" by (simp_all add: bytes_of_inj)
  from frame_cancel[OF p(2,5) 1(3)] have 2: "caller_value c = caller_value c'" "f @ [] = f' @ []"
    by (simp_all add: bytes_of_inj)
  from frame_cancel[OF p(3,6) 2(2)] have "k = k'" by simp
  moreover have "caller_kind c = caller_kind c'"
    using 1(2) by (simp add: caller_tag_def split: caller_kind.splits)
  ultimately show ?thesis using 1(1) 2(1) by simp
qed

lemma request_input_inj:
  assumes "request_input r = Some z" "request_input r' = Some z"
  shows "r = r'"
proof -
  obtain a b q t d a' b' q' t' d' where p:
    "frame (bytes_of (rq_method r)) = Some a" "frame (bytes_of (rq_path r)) = Some b"
    "query_input (rq_query r) = Some q" "types_input (rq_content_types r) = Some t" "frame (rq_body r) = Some d"
    "frame (bytes_of (rq_method r')) = Some a'" "frame (bytes_of (rq_path r')) = Some b'"
    "query_input (rq_query r') = Some q'" "types_input (rq_content_types r') = Some t'"
    "frame (rq_body r') = Some d'"
    "a @ b @ q @ t @ d @ [] = a' @ b' @ q' @ t' @ d' @ []"
    using assms by (auto simp: request_input_def concat_all_Cons)
  from frame_cancel[OF p(1,6,11)] have 1: "rq_method r = rq_method r'"
    "b @ q @ t @ d @ [] = b' @ q' @ t' @ d' @ []" by (simp_all add: bytes_of_inj)
  from frame_cancel[OF p(2,7) 1(2)] have 2: "rq_path r = rq_path r'"
    "q @ t @ d @ [] = q' @ t' @ d' @ []" by (simp_all add: bytes_of_inj)
  from query_cancel[OF p(3,8) 2(2)] have 3: "rq_query r = rq_query r'"
    "t @ d @ [] = t' @ d' @ []" by simp_all
  from types_cancel[OF p(4,9) 3(2)] have 4: "rq_content_types r = rq_content_types r'"
    "d @ [] = d' @ []" by simp_all
  from frame_cancel[OF p(5,10) 4(2)] have "rq_body r = rq_body r'" by simp
  with 1(1) 2(1) 3(1) 4(1) show ?thesis by simp
qed

text \<open>Lengths a 64-bit machine can hold; the framing refuses others.\<close>

definition scope_fits :: "caller_identity \<Rightarrow> bytes \<Rightarrow> bool" where
  "scope_fits c k \<longleftrightarrow> length (issuer c) \<le> u64_max \<and> length (caller_value c) \<le> u64_max \<and> length k \<le> u64_max"

definition request_fits :: "http_request \<Rightarrow> bool" where
  "request_fits r \<longleftrightarrow> length (rq_method r) \<le> u64_max \<and> length (rq_path r) \<le> u64_max \<and>
     (case rq_query r of None \<Rightarrow> True | Some q \<Rightarrow> length q \<le> u64_max) \<and>
     length (rq_content_types r) \<le> u64_max \<and> list_all (\<lambda>t. length t \<le> u64_max) (rq_content_types r) \<and>
     length (rq_body r) \<le> u64_max"

lemma frame_fits: "length b \<le> u64_max \<Longrightarrow> \<exists>f. frame b = Some f"
  by (simp add: frame_def)

lemma frames_fit: "list_all (\<lambda>t. length t \<le> u64_max) ts \<Longrightarrow> \<exists>f. concat_all (map frame ts) = Some f"
  by (induction ts) (auto simp: frame_def)

lemma scope_input_total: "scope_fits c k \<Longrightarrow> \<exists>z. scope_input c k = Some z"
  by (simp add: scope_fits_def scope_input_def frame_def)

lemma request_input_total:
  assumes "request_fits r"
  shows "\<exists>z. request_input r = Some z"
proof -
  obtain f where "concat_all (map frame (rq_content_types r)) = Some f"
    using assms frames_fit by (auto simp: request_fits_def)
  then have "\<exists>t. types_input (rq_content_types r) = Some t"
    using assms by (simp add: request_fits_def types_input_def)
  moreover have "\<exists>q. query_input (rq_query r) = Some q"
    using assms by (auto simp: request_fits_def query_input_def frame_def split: option.splits)
  ultimately show ?thesis
    using assms by (auto simp: request_fits_def request_input_def frame_def)
qed

lemma domains_differ: "scope_input c k = Some z \<Longrightarrow> request_input r \<noteq> Some z"
  by (auto simp: scope_input_def request_input_def concat_all_Cons SCOPE_DOMAIN_def REQUEST_DOMAIN_def
      bytes_of_def)

text \<open>
  The framing identifies what it frames. For vals of any length a 64-bit machine can hold, the
  bytes hashed into a scope are equal exactly for the same issuer, kind and value of the caller and
  the same key, and the bytes hashed into a fingerprint exactly for the same method, path, query
  (an empty query differs from none), content type values in order, and body; and no scope input is
  a fingerprint input. So two requests share a scope or a fingerprint only by a collision of SHA-256.
\<close>

lemma framing_identifies:
  assumes "scope_fits c k" "request_fits r"
  shows "(scope_input c k = scope_input c' k' \<longleftrightarrow> c = c' \<and> k = k') \<and>
    (request_input r = request_input r' \<longleftrightarrow> r = r') \<and> scope_input c k \<noteq> request_input r'"
proof -
  obtain z w where z: "scope_input c k = Some z" and w: "request_input r = Some w"
    using scope_input_total[OF assms(1)] request_input_total[OF assms(2)] by blast
  have "scope_input c k = scope_input c' k' \<longleftrightarrow> c = c' \<and> k = k'"
    using scope_input_inj[OF z, of c' k'] z by auto
  moreover have "request_input r = request_input r' \<longleftrightarrow> r = r'"
    using request_input_inj[OF w, of r'] w by auto
  moreover have "scope_input c k \<noteq> request_input r'"
    using domains_differ[OF z, of r'] z by simp
  ultimately show ?thesis by blast
qed

theorem framing_identifies_witness:
  "scope_input \<lparr>issuer = ''i'', caller_kind = Subject, caller_value = ''s''\<rparr> [1] \<noteq>
     scope_input \<lparr>issuer = ''i'', caller_kind = Client, caller_value = ''s''\<rparr> [1] \<and>
   request_input \<lparr>rq_method = ''POST'', rq_path = ''/w'', rq_query = None, rq_content_types = [], rq_body = [7]\<rparr> \<noteq>
     request_input \<lparr>rq_method = ''POST'', rq_path = ''/w'', rq_query = Some [], rq_content_types = [], rq_body = [7]\<rparr>"
  using framing_identifies[of "\<lparr>issuer = ''i'', caller_kind = Subject, caller_value = ''s''\<rparr>" "[1]"
      "\<lparr>rq_method = ''POST'', rq_path = ''/w'', rq_query = None, rq_content_types = [], rq_body = [7]\<rparr>"
      "\<lparr>issuer = ''i'', caller_kind = Client, caller_value = ''s''\<rparr>" "[1]"
      "\<lparr>rq_method = ''POST'', rq_path = ''/w'', rq_query = Some [], rq_content_types = [], rq_body = [7]\<rparr>"]
  by (simp add: scope_fits_def request_fits_def u64_max_def)

text \<open>Which key headers are accepted, and for which key.\<close>

lemma valid_key_exact:
  "valid_key parse vals = Some k \<longleftrightarrow>
     (\<exists>v. vals = [v] \<and> 1 \<le> length k \<and> length k \<le> 255 \<and>
        (if trim_ows v \<noteq> [] \<and> hd (trim_ows v) = 0x22
         then parse (trim_ows v) = Some \<lparr>bare_string = Some k, params_empty = True\<rparr>
         else k = trim_ows v \<and> list_all visible k))"
  by (cases vals rule: list.exhaust)
    (auto simp: valid_key_def decode_key_def MAX_KEY_BYTES_def split: option.splits if_splits)

end
