(* ===== verification/Problem.thy ===== *)
theory Problem
  imports Prelude
begin

text \<open>
  \<open>crates/service-failure\<close> and \<open>crates/infra-http/src/problem.rs\<close>: the closed catalog of failure codes
  and its projection into HTTP problems. The JSON serializer is a parameter of the components
  that answer with a problem; this theory holds the problem values themselves.
\<close>

subsection \<open>The catalog\<close>

datatype code =
    BadRequest | Unauthorized
  | AuthenticationRequired | AuthenticationMalformed | AuthenticationInvalid | AuthenticationUnavailable
  | IdempotencyRequestInProgress | IdempotencyKeyMismatch | IdempotencyUnavailable
  | WebhookRejected
  | Forbidden | NotFound | MethodNotAllowed | Conflict | AlreadyExists | RequestEntityTooLarge
  | UnsupportedMediaType | UnprocessableContent | TooManyRequests | InternalServerError
  | ServiceUnavailable | GatewayTimeout

definition code_all :: "code list" where
  "code_all = [BadRequest, Unauthorized, AuthenticationRequired, AuthenticationMalformed,
     AuthenticationInvalid, AuthenticationUnavailable, IdempotencyRequestInProgress,
     IdempotencyKeyMismatch, IdempotencyUnavailable, WebhookRejected, Forbidden, NotFound,
     MethodNotAllowed, Conflict, AlreadyExists, RequestEntityTooLarge, UnsupportedMediaType,
     UnprocessableContent, TooManyRequests, InternalServerError, ServiceUnavailable, GatewayTimeout]"

fun code_str :: "code \<Rightarrow> string" where
  "code_str BadRequest = ''bad_request''"
| "code_str Unauthorized = ''unauthorized''"
| "code_str AuthenticationRequired = ''authentication_required''"
| "code_str AuthenticationMalformed = ''authentication_malformed''"
| "code_str AuthenticationInvalid = ''authentication_invalid''"
| "code_str AuthenticationUnavailable = ''authentication_unavailable''"
| "code_str IdempotencyRequestInProgress = ''idempotency_request_in_progress''"
| "code_str IdempotencyKeyMismatch = ''idempotency_key_mismatch''"
| "code_str IdempotencyUnavailable = ''idempotency_unavailable''"
| "code_str WebhookRejected = ''webhook_rejected''"
| "code_str Forbidden = ''forbidden''"
| "code_str NotFound = ''not_found''"
| "code_str MethodNotAllowed = ''method_not_allowed''"
| "code_str Conflict = ''conflict''"
| "code_str AlreadyExists = ''already_exists''"
| "code_str RequestEntityTooLarge = ''request_entity_too_large''"
| "code_str UnsupportedMediaType = ''unsupported_media_type''"
| "code_str UnprocessableContent = ''unprocessable_content''"
| "code_str TooManyRequests = ''too_many_requests''"
| "code_str InternalServerError = ''internal_error''"
| "code_str ServiceUnavailable = ''service_unavailable''"
| "code_str GatewayTimeout = ''gateway_timeout''"

definition SANITIZED_DETAIL :: string where "SANITIZED_DETAIL = ''request failed''"
definition AT_CAPACITY_DETAIL :: string where "AT_CAPACITY_DETAIL = ''server is at capacity''"

subsection \<open>Problems\<close>

fun http_status :: "code \<Rightarrow> nat" where
  "http_status BadRequest = 400"
| "http_status Unauthorized = 401"
| "http_status AuthenticationRequired = 401"
| "http_status AuthenticationInvalid = 401"
| "http_status AuthenticationMalformed = 400"
| "http_status AuthenticationUnavailable = 503"
| "http_status IdempotencyRequestInProgress = 409"
| "http_status IdempotencyKeyMismatch = 422"
| "http_status IdempotencyUnavailable = 503"
| "http_status WebhookRejected = 400"
| "http_status Forbidden = 403"
| "http_status NotFound = 404"
| "http_status MethodNotAllowed = 405"
| "http_status Conflict = 409"
| "http_status AlreadyExists = 409"
| "http_status RequestEntityTooLarge = 413"
| "http_status UnsupportedMediaType = 415"
| "http_status UnprocessableContent = 422"
| "http_status TooManyRequests = 429"
| "http_status InternalServerError = 500"
| "http_status ServiceUnavailable = 503"
| "http_status GatewayTimeout = 504"

text \<open>The phrases of RFC 9110, which \<open>StatusCode::canonical_reason\<close> gives for the statuses above.\<close>

definition http_title :: "code \<Rightarrow> string" where
  "http_title c =
     (let s = http_status c in
      if s = 413 then ''Content Too Large''
      else if s = 422 then ''Unprocessable Content''
      else if s = 400 then ''Bad Request''
      else if s = 401 then ''Unauthorized''
      else if s = 403 then ''Forbidden''
      else if s = 404 then ''Not Found''
      else if s = 405 then ''Method Not Allowed''
      else if s = 409 then ''Conflict''
      else if s = 415 then ''Unsupported Media Type''
      else if s = 429 then ''Too Many Requests''
      else if s = 500 then ''Internal Server Error''
      else if s = 503 then ''Service Unavailable''
      else if s = 504 then ''Gateway Timeout''
      else [])"

record invalid_param =
  ip_name :: string
  ip_reason :: string

record problem =
  p_code :: code
  p_type :: string
  p_title :: string
  p_status :: nat
  p_detail :: "string option"
  p_instance :: "string option"
  p_request_id :: "string option"
  p_invalid_params :: "invalid_param list"
  p_retry_after :: "duration option"

definition problem_new :: "code \<Rightarrow> problem" where
  "problem_new c =
     \<lparr>p_code = c, p_type = ''about:blank'', p_title = http_title c, p_status = http_status c,
      p_detail = None, p_instance = None, p_request_id = None, p_invalid_params = [],
      p_retry_after = None\<rparr>"

definition with_detail :: "string \<Rightarrow> problem \<Rightarrow> problem" where
  "with_detail d p = p\<lparr>p_detail := Some d\<rparr>"

definition with_instance :: "string \<Rightarrow> problem \<Rightarrow> problem" where
  "with_instance i p = p\<lparr>p_instance := Some i\<rparr>"

definition with_request_id :: "string \<Rightarrow> problem \<Rightarrow> problem" where
  "with_request_id i p = p\<lparr>p_request_id := Some i\<rparr>"

definition with_invalid_param :: "string \<Rightarrow> string \<Rightarrow> problem \<Rightarrow> problem" where
  "with_invalid_param n r p = p\<lparr>p_invalid_params := p_invalid_params p @ [\<lparr>ip_name = n, ip_reason = r\<rparr>]\<rparr>"

definition with_retry_after :: "duration \<Rightarrow> problem \<Rightarrow> problem" where
  "with_retry_after d p = p\<lparr>p_retry_after := Some d\<rparr>"

text \<open>
  The value of the \<open>Retry-After\<close> header: the checked sum overflows only for the exact ceiling, which
  is written as a literal.
\<close>

definition retry_after_seconds :: "duration \<Rightarrow> nat" where
  "retry_after_seconds after =
     (let whole = after div nanos_per_sec;
          part = (if after mod nanos_per_sec \<noteq> 0 then 1 else 0)
      in if whole + part \<le> u64_max then max (whole + part) 1 else 18446744073709551616)"

definition sanitized_problem :: problem where
  "sanitized_problem = with_detail SANITIZED_DETAIL (problem_new InternalServerError)"

subsection \<open>Properties of the catalog\<close>

lemma code_all_complete: "set code_all = UNIV" "distinct code_all"
proof -
  have "c \<in> set code_all" for c by (cases c) (simp_all add: code_all_def)
  then show "set code_all = UNIV" by blast
  show "distinct code_all" by (simp add: code_all_def)
qed

definition snake_char :: "char \<Rightarrow> bool" where
  "snake_char c = (let n = of_char c :: nat in (97 \<le> n \<and> n \<le> 122) \<or> (48 \<le> n \<and> n \<le> 57) \<or> n = 95)"

definition lower_char :: "char \<Rightarrow> bool" where
  "lower_char c = (let n = of_char c :: nat in 97 \<le> n \<and> n \<le> 122)"

lemma wire_forms:
  "distinct (map code_str code_all) \<and>
   list_all (\<lambda>c. 3 \<le> length (code_str c) \<and> length (code_str c) \<le> 63 \<and> lower_char (hd (code_str c)) \<and>
     last (code_str c) \<noteq> CHR ''_'' \<and> list_all snake_char (code_str c)) code_all"
  by code_simp

text \<open>
  The catalog is a faithful wire vocabulary. Different codes have different wire spellings, so a
  client can match on them; each is lowercase snake case that starts with a letter, does not end in
  an underscore and has 3 to 63 bytes; and each code answers with an error status whose phrase is
  the title of its problem, never with a success or an empty title.
\<close>

lemma catalog_well_formed:
  "(code_str c = code_str c' \<longleftrightarrow> c = c') \<and> 3 \<le> length (code_str c) \<and> length (code_str c) \<le> 63 \<and>
   lower_char (hd (code_str c)) \<and> last (code_str c) \<noteq> CHR ''_'' \<and> list_all snake_char (code_str c) \<and>
   400 \<le> p_status (problem_new c) \<and> p_status (problem_new c) < 600 \<and> p_title (problem_new c) \<noteq> []"
proof -
  have mem: "c \<in> set code_all" "c' \<in> set code_all" using code_all_complete(1) by simp_all
  have "inj_on code_str (set code_all)" using wire_forms by (simp add: distinct_map)
  then have "code_str c = code_str c' \<longleftrightarrow> c = c'" using mem by (auto simp: inj_on_def)
  moreover have "400 \<le> http_status c \<and> http_status c < 600 \<and> http_title c \<noteq> []"
    by (cases c) (simp_all add: http_title_def)
  ultimately show ?thesis using wire_forms mem by (simp add: list_all_iff problem_new_def)
qed

lemma retry_after_covers:
  assumes "after \<le> duration_max"
  shows "after \<le> retry_after_seconds after * nanos_per_sec" "1 \<le> retry_after_seconds after"
proof -
  let ?w = "after div nanos_per_sec" and ?part = "if after mod nanos_per_sec \<noteq> 0 then 1 else 0 :: nat"
  have up: "after \<le> (?w + ?part) * nanos_per_sec"
  proof (cases "after mod nanos_per_sec = 0")
    case True
    then have "after = ?w * nanos_per_sec" by (metis dvd_div_mult_self mod_eq_0_iff_dvd)
    then show ?thesis by simp
  next
    case False
    then show ?thesis using dividend_less_times_div[of nanos_per_sec after]
      by (simp add: nanos_per_sec_def algebra_simps)
  qed
  have "?w < 2 ^ 64"
    using assms by (simp add: duration_max_def nanos_per_sec_def less_mult_imp_div_less)
  then have "?w + ?part \<le> 18446744073709551616" by simp
  then have "?w + ?part \<le> retry_after_seconds after"
    by (auto simp: retry_after_seconds_def Let_def)
  with up show "after \<le> retry_after_seconds after * nanos_per_sec"
    using mult_le_mono1 order_trans by blast
  show "1 \<le> retry_after_seconds after" by (simp add: retry_after_seconds_def Let_def)
qed

end
