(* ===== verification/IdemHttp.thy ===== *)
theory IdemHttp
  imports IdemAttempt IdemIdentity Problem
begin

text \<open>
  \<open>crates/infra-http/src/idempotency\<close>: the capture and the replay of a stored success (\<open>stored.rs\<close>),
  the handler seam with its outcome mapping (\<open>execute.rs\<close>) and the key layer of a composed route
  (\<open>compose.rs\<close>).

  The HTTP types come from other crates. What the code calls of them is collected in \<open>http_lib\<close>;
  the laws it relies on are in \<open>http_lib_ok\<close>. Header names are in their lowercase form, and a header
  map is the list of its pairs in insertion order.
\<close>

subsection \<open>Responses\<close>

datatype provenance = ProvExecuted | ProvReplayed

record 'b response =
  rs_status :: nat
  rs_headers :: "(string \<times> bytes) list"
  rs_body :: 'b
  rs_provenance :: "provenance option"
  rs_problem :: "problem option"

text \<open>
  \<open>Limited::collect\<close> with its length limit (\<^term>\<open>Inl True\<close> for a \<open>LengthLimitError\<close>), \<open>Body::from\<close>,
  the JSON serializer, \<open>HeaderName::from_bytes\<close> and \<open>HeaderValue::from_bytes\<close>.
\<close>

record 'b http_lib =
  collect_body :: "nat \<Rightarrow> 'b \<Rightarrow> bool + bytes"
  body_from :: "bytes \<Rightarrow> 'b"
  problem_json :: "problem \<Rightarrow> bytes"
  header_name :: "string \<Rightarrow> string option"
  header_value :: "bytes \<Rightarrow> bytes option"

definition is_success :: "nat \<Rightarrow> bool" where "is_success s = (200 \<le> s \<and> s < 300)"

text \<open>\<open>Problem::into_response\<close>.\<close>

definition problem_response :: "'b http_lib \<Rightarrow> problem \<Rightarrow> 'b response" where
  "problem_response lib p =
     \<lparr>rs_status = http_status (p_code p),
      rs_headers = (''content-type'', bytes_of ''application/problem+json'') #
        (case p_retry_after p of
           None \<Rightarrow> []
         | Some d \<Rightarrow> [(''retry-after'', bytes_of (decimal (retry_after_seconds d)))]),
      rs_body = body_from lib (problem_json lib p),
      rs_provenance = None,
      rs_problem = Some p\<rparr>"

definition sanitized_internal_error :: "'b http_lib \<Rightarrow> 'b response" where
  "sanitized_internal_error lib = problem_response lib sanitized_problem"

subsection \<open>Stored successes\<close>

definition REPLAYED_HEADER :: string where "REPLAYED_HEADER = ''idempotent-replayed''"
definition MAX_STORED_BODY_BYTES :: nat where "MAX_STORED_BODY_BYTES = 1048576"
definition MAX_STORED_HEADER_BYTES :: nat where "MAX_STORED_HEADER_BYTES = 8192"

definition REPLAYABLE :: "string list" where
  "REPLAYABLE = [''content-type'', ''content-encoding'', ''content-language'', ''content-disposition'',
     ''location'', ''etag'', ''last-modified'']"

record stored =
  st_status :: nat
  st_headers :: "(string \<times> bytes) list"
  st_body :: bytes

datatype unstorable = UnStatus | UnBodyStream | UnBodyLimit | UnHeaderLimit

definition unstorable_class :: "unstorable \<Rightarrow> string" where
  "unstorable_class u =
     (case u of
        UnStatus \<Rightarrow> ''status''
      | UnBodyStream \<Rightarrow> ''body_stream''
      | UnBodyLimit \<Rightarrow> ''body_limit''
      | UnHeaderLimit \<Rightarrow> ''header_limit'')"

definition usize_add :: "nat \<Rightarrow> nat \<Rightarrow> nat option" where
  "usize_add a b = (if a + b \<le> u64_max then Some (a + b) else None)"

fun header_bytes_from :: "nat \<Rightarrow> (string \<times> bytes) list \<Rightarrow> nat option" where
  "header_bytes_from tot [] = Some tot"
| "header_bytes_from tot ((n, v) # hs) =
     (case usize_add tot (length n) of
        None \<Rightarrow> None
      | Some t \<Rightarrow> (case usize_add t (length v) of None \<Rightarrow> None | Some t' \<Rightarrow> header_bytes_from t' hs))"

definition header_bytes :: "(string \<times> bytes) list \<Rightarrow> nat option" where
  "header_bytes hs = header_bytes_from 0 hs"

definition headers_too_large :: "(string \<times> bytes) list \<Rightarrow> bool" where
  "headers_too_large hs =
     (case header_bytes hs of None \<Rightarrow> True | Some tot \<Rightarrow> MAX_STORED_HEADER_BYTES < tot)"

definition replayable_headers :: "(string \<times> bytes) list \<Rightarrow> (string \<times> bytes) list" where
  "replayable_headers hs = concat (map (\<lambda>n. map (\<lambda>v. (n, v)) (get_all n hs)) REPLAYABLE)"

definition capture :: "'b http_lib \<Rightarrow> 'b response \<Rightarrow> unstorable + stored" where
  "capture lib resp =
     (let hs = remove_header REPLAYED_HEADER (rs_headers resp) in
      if \<not> is_success (rs_status resp) then Inl UnStatus
      else case collect_body lib MAX_STORED_BODY_BYTES (rs_body resp) of
        Inl limit \<Rightarrow> Inl (if limit then UnBodyLimit else UnBodyStream)
      | Inr bs \<Rightarrow>
          let kept = replayable_headers hs in
          if headers_too_large kept then Inl UnHeaderLimit
          else Inr \<lparr>st_status = rs_status resp, st_headers = kept, st_body = bs\<rparr>)"

definition stored_record :: "stored \<Rightarrow> digest \<Rightarrow> unstorable + idem_record" where
  "stored_record st fp =
     (if st_status st \<le> i16_max
      then Inr \<lparr>fingerprint = fp, status = int (st_status st),
                headers = map (\<lambda>(n, v). \<lparr>hp_name = n, hp_value = v\<rparr>) (st_headers st),
                body = st_body st\<rparr>
      else Inl UnStatus)"

definition into_response :: "'b http_lib \<Rightarrow> stored \<Rightarrow> 'b response" where
  "into_response lib st =
     \<lparr>rs_status = st_status st, rs_headers = st_headers st, rs_body = body_from lib (st_body st),
      rs_provenance = None, rs_problem = None\<rparr>"

definition ascii_lower :: "char \<Rightarrow> char" where
  "ascii_lower c =
     (let n = of_char c :: nat in if 65 \<le> n \<and> n \<le> 90 then char_of (n + 32) else c)"

definition is_replayable_header_name :: "string \<Rightarrow> bool" where
  "is_replayable_header_name n = list_ex (\<lambda>c. map ascii_lower c = map ascii_lower n) REPLAYABLE"

definition decode_pair :: "'b http_lib \<Rightarrow> header_pair \<Rightarrow> unit + string \<times> bytes" where
  "decode_pair lib pair =
     (case header_name lib (hp_name pair) of
        None \<Rightarrow> Inl ()
      | Some n \<Rightarrow>
          if n \<noteq> hp_name pair \<or> \<not> is_replayable_header_name n then Inl ()
          else case header_value lib (hp_value pair) of None \<Rightarrow> Inl () | Some v \<Rightarrow> Inr (n, v))"

definition decode_status :: "int \<Rightarrow> nat option" where
  "decode_status s =
     (if 0 \<le> s \<and> 100 \<le> nat s \<and> nat s \<le> 999 \<and> is_success (nat s) then Some (nat s) else None)"

definition decode :: "'b http_lib \<Rightarrow> idem_record \<Rightarrow> unit + stored" where
  "decode lib rec =
     (if MAX_STORED_BODY_BYTES < length (body rec) then Inl ()
      else case decode_status (status rec) of
        None \<Rightarrow> Inl ()
      | Some s \<Rightarrow>
          (case collect_results (map (decode_pair lib) (headers rec)) of
             Inl e \<Rightarrow> Inl e
           | Inr hs \<Rightarrow>
               if headers_too_large hs then Inl ()
               else Inr \<lparr>st_status = s, st_headers = hs, st_body = body rec\<rparr>))"

subsection \<open>The handler seam\<close>

datatype idem_outcome =
    InvalidKey | OutUnavailable | OutInProgress | OutKeyMismatch | OutReplayed | OutIntegrity
  | OutInternal | OutExecuted | OutUnstorable | OutNotStored | OutAbandoned

definition idem_outcome_label :: "idem_outcome \<Rightarrow> string" where
  "idem_outcome_label out =
     (case out of
        InvalidKey \<Rightarrow> ''invalid_key''
      | OutUnavailable \<Rightarrow> ''unavailable''
      | OutInProgress \<Rightarrow> ''in_progress''
      | OutKeyMismatch \<Rightarrow> ''key_mismatch''
      | OutReplayed \<Rightarrow> ''replayed''
      | OutIntegrity \<Rightarrow> ''integrity''
      | OutInternal \<Rightarrow> ''internal''
      | OutExecuted \<Rightarrow> ''executed''
      | OutUnstorable \<Rightarrow> ''unstorable''
      | OutNotStored \<Rightarrow> ''not_stored''
      | OutAbandoned \<Rightarrow> ''abandoned'')"

datatype 'b rollback = RbResponse "'b response" | RbUnstorable

record 'b answer =
  an_response :: "'b response"
  an_outcome :: idem_outcome
  an_yields :: bool

definition boundary_problem :: "'b response \<Rightarrow> idem_outcome \<Rightarrow> 'b answer" where
  "boundary_problem r out = \<lparr>an_response = r, an_outcome = out, an_yields = True\<rparr>"

definition operation_response :: "'b response \<Rightarrow> idem_outcome \<Rightarrow> 'b answer" where
  "operation_response r out = \<lparr>an_response = r, an_outcome = out, an_yields = False\<rparr>"

definition idem_unavailable :: "'b http_lib \<Rightarrow> 'b response" where
  "idem_unavailable lib = problem_response lib
     (with_retry_after (from_secs 1) (with_detail ''idempotent request processing is unavailable''
        (problem_new IdempotencyUnavailable)))"

definition key_mismatch :: "'b http_lib \<Rightarrow> 'b response" where
  "key_mismatch lib = problem_response lib
     (with_detail ''Idempotency-Key is bound to a different request'' (problem_new IdempotencyKeyMismatch))"

definition in_progress :: "'b http_lib \<Rightarrow> 'b response" where
  "in_progress lib = problem_response lib
     (with_retry_after (from_secs 1) (with_detail ''a request with this Idempotency-Key is in progress''
        (problem_new IdempotencyRequestInProgress)))"

definition mark_provenance :: "provenance \<Rightarrow> 'b response \<Rightarrow> 'b response" where
  "mark_provenance p r = r\<lparr>rs_provenance := Some p\<rparr>"

definition integrity_failure :: "'b http_lib \<Rightarrow> 'b answer" where
  "integrity_failure lib = boundary_problem (sanitized_internal_error lib) OutIntegrity"

definition map_attempted ::
  "'b http_lib \<Rightarrow> attempt_error + (stored, 'b rollback) attempted \<Rightarrow> 'b answer" where
  "map_attempted lib a =
     (case a of
        Inl AttemptUnavailable \<Rightarrow> boundary_problem (idem_unavailable lib) OutUnavailable
      | Inl AttemptInternal \<Rightarrow> boundary_problem (sanitized_internal_error lib) OutInternal
      | Inl AttemptIntegrity \<Rightarrow> integrity_failure lib
      | Inr (RolledBack RbUnstorable) \<Rightarrow> boundary_problem (sanitized_internal_error lib) OutUnstorable
      | Inr Mismatch \<Rightarrow> boundary_problem (key_mismatch lib) OutKeyMismatch
      | Inr (Replay rec) \<Rightarrow>
          (case decode lib rec of
             Inr st \<Rightarrow> operation_response (mark_provenance ProvReplayed (into_response lib st)) OutReplayed
           | Inl _ \<Rightarrow> integrity_failure lib)
      | Inr InProgress \<Rightarrow> boundary_problem (in_progress lib) OutInProgress
      | Inr (RolledBack (RbResponse r)) \<Rightarrow> operation_response r OutNotStored
      | Inr (Committed st) \<Rightarrow>
          operation_response (mark_provenance ProvExecuted (into_response lib st)) OutExecuted)"

text \<open>
  \<open>Answer::send\<close> with the guard: the response, or \<^term>\<open>None\<close> for the wait that only the outer timeout
  ends, and the one outcome that is recorded.
\<close>

definition send :: "instant \<Rightarrow> instant \<Rightarrow> 'b answer \<Rightarrow> 'b response option \<times> idem_outcome" where
  "send now deadline a =
     (if an_yields a \<and> deadline \<le> now then (None, OutAbandoned)
      else (Some (an_response a), an_outcome a))"

definition postgres_attempt_end :: "instant \<Rightarrow> instant \<Rightarrow> instant option" where
  "postgres_attempt_end now deadline =
     (case instant_checked_sub deadline (from_millis 100) of
        None \<Rightarrow> None
      | Some fin \<Rightarrow> if now < fin then Some fin else None)"

record idem_attempt =
  at_scope :: scope_key
  at_caller :: caller_identity
  at_fingerprint :: digest
  at_deadline :: instant

text \<open>The closure around the handler's work.\<close>

definition captured_job ::
  "'b http_lib \<Rightarrow> digest \<Rightarrow> ('u \<times> records, 'x idem_answer, 'b response, 'b response) work
   \<Rightarrow> ('u \<times> records, 'x idem_answer, idem_record \<times> stored, 'b rollback) work" where
  "captured_job lib fp user =
     bind_work user (\<lambda>r.
       let resp = (case r of Inl x \<Rightarrow> x | Inr x \<Rightarrow> x) in
       Return
         (if \<not> is_success (rs_status resp) then Inl (RbResponse resp)
          else case bind_result (capture lib resp) (\<lambda>st.
                 bind_result (stored_record st fp) (\<lambda>rec. Inr (rec, st))) of
                 Inl _ \<Rightarrow> Inl RbUnstorable
               | Inr done_pair \<Rightarrow> Inr done_pair))"

text \<open>
  \<open>Idempotency::execute\<close>: it starts at \<open>now\<close> and answers at \<open>later\<close>. An attempt that is dropped at
  its end counts as unavailable.
\<close>

definition execute_idem ::
  "'b http_lib \<Rightarrow> ('u \<times> records) attempt_env \<Rightarrow> tx_inputs \<Rightarrow> duration \<Rightarrow> instant \<Rightarrow> instant \<Rightarrow> idem_attempt
   \<Rightarrow> ('u \<times> records, 'x idem_answer, 'b response, 'b response) work \<Rightarrow> 'u \<times> records
   \<Rightarrow> ('b response option \<times> idem_outcome) \<times> 'u \<times> records" where
  "execute_idem lib env i retention now later att user d =
     (case postgres_attempt_end now (at_deadline att) of
        None \<Rightarrow> (send later (at_deadline att) (map_attempted lib (Inl AttemptUnavailable)), d)
      | Some _ \<Rightarrow>
          (let (r, d') = arbitrated env i retention (at_scope att) (at_caller att) (at_fingerprint att)
                           (captured_job lib (at_fingerprint att) user) d;
               attempted = (case r of None \<Rightarrow> Inl AttemptUnavailable | Some x \<Rightarrow> x)
           in (send later (at_deadline att) (map_attempted lib attempted), d')))"

subsection \<open>The key layer\<close>

definition wiring_failure :: "'b http_lib \<Rightarrow> 'b response" where
  "wiring_failure lib = sanitized_internal_error lib"

definition invalid_key_response :: "'b http_lib \<Rightarrow> 'b response" where
  "invalid_key_response lib = problem_response lib
     (with_invalid_param ''header.Idempotency-Key''
        ''must be one Idempotency-Key field of 1 to 255 decoded visible-ASCII bytes''
        (with_detail ''Idempotency-Key is missing or invalid'' (problem_new BadRequest)))"

definition payload_too_large :: "'b http_lib \<Rightarrow> 'b response" where
  "payload_too_large lib = problem_response lib
     (with_detail ''request body exceeds the configured limit'' (problem_new RequestEntityTooLarge))"

definition unreadable_body :: "'b http_lib \<Rightarrow> 'b response" where
  "unreadable_body lib = problem_response lib
     (with_detail ''request body could not be read'' (problem_new BadRequest))"

text \<open>The error and its sources, each with whether it is a \<open>LengthLimitError\<close>.\<close>

fun caused_by_length_limit :: "bool list \<Rightarrow> bool" where
  "caused_by_length_limit [] = False"
| "caused_by_length_limit (is_limit # sources) = (is_limit \<or> caused_by_length_limit sources)"

definition normalize_response :: "'b http_lib \<Rightarrow> 'b response \<Rightarrow> 'b response" where
  "normalize_response lib resp =
     (let r = resp\<lparr>rs_provenance := None, rs_headers := remove_header REPLAYED_HEADER (rs_headers resp)\<rparr> in
      if \<not> is_success (rs_status r) then r
      else case rs_provenance resp of
             Some ProvExecuted \<Rightarrow> r
           | Some ProvReplayed \<Rightarrow>
               r\<lparr>rs_headers := insert_header REPLAYED_HEADER (bytes_of ''true'') (rs_headers r)\<rparr>
           | None \<Rightarrow> wiring_failure lib)"

record key_request =
  kr_deadline :: "instant option"
  kr_principal :: "(string \<times> string option \<times> string option) option"
  kr_keys :: "bytes list"
  kr_method :: string
  kr_original_uri :: "(string \<times> string option) option"
  kr_uri :: "string \<times> string option"
  kr_content_types :: "bytes list"
  kr_body :: "bool list + bytes"

definition effective_uri :: "key_request \<Rightarrow> string \<times> string option" where
  "effective_uri req = (case kr_original_uri req of None \<Rightarrow> kr_uri req | Some u \<Rightarrow> u)"

text \<open>
  \<open>handle_key\<close>: the response with the outcome the layer itself records. The handler is the function
  from the sealed attempt to its response.
\<close>

definition handle_key ::
  "'b http_lib \<Rightarrow> (bytes \<Rightarrow> digest) \<Rightarrow> (bytes \<Rightarrow> sfv_item option) \<Rightarrow> bool \<Rightarrow> key_request
   \<Rightarrow> (idem_attempt \<Rightarrow> 'b response) \<Rightarrow> 'b response \<times> idem_outcome option" where
  "handle_key lib sha parse has_store req next =
     (if \<not> has_store then (wiring_failure lib, None)
      else case kr_deadline req of None \<Rightarrow> (wiring_failure lib, None)
      | Some deadline \<Rightarrow>
      case kr_principal req of None \<Rightarrow> (wiring_failure lib, None)
      | Some (iss, subject, client_id) \<Rightarrow>
      case caller_identity_of iss subject client_id of None \<Rightarrow> (wiring_failure lib, None)
      | Some caller \<Rightarrow>
      case valid_key parse (kr_keys req) of None \<Rightarrow> (invalid_key_response lib, Some InvalidKey)
      | Some key \<Rightarrow>
      case scope_key_of sha caller key of None \<Rightarrow> (wiring_failure lib, None)
      | Some scope \<Rightarrow>
      case kr_body req of
        Inl chain \<Rightarrow>
          (if caused_by_length_limit chain then payload_too_large lib else unreadable_body lib,
           Some OutNotStored)
      | Inr bdy \<Rightarrow>
      case request_digest sha
             \<lparr>rq_method = kr_method req, rq_path = fst (effective_uri req), rq_query = snd (effective_uri req),
              rq_content_types = kr_content_types req, rq_body = bdy\<rparr> of
        None \<Rightarrow> (wiring_failure lib, None)
      | Some fp \<Rightarrow>
          (normalize_response lib
             (next \<lparr>at_scope = scope, at_caller = caller, at_fingerprint = fp, at_deadline = deadline\<rparr>),
           None))"

text \<open>\<open>Composer::finish\<close>: active with the number of composed operations, if there is one.\<close>

definition activation :: "nat \<Rightarrow> nat option" where
  "activation operations = (if operations = 0 then None else Some operations)"

subsection \<open>Storing and replaying\<close>

text \<open>
  What the code relies on of the HTTP crates: a limited body never yields more than its limit, the
  replayable names are header names in normal form, and the bytes of a header value are accepted as
  that header value.
\<close>

definition http_lib_ok :: "'b http_lib \<Rightarrow> bool" where
  "http_lib_ok lib \<longleftrightarrow>
     (\<forall>n b bs. collect_body lib n b = Inr bs \<longrightarrow> length bs \<le> n) \<and>
     list_all (\<lambda>n. header_name lib n = Some n) REPLAYABLE"

definition header_values_ok :: "'b http_lib \<Rightarrow> 'b response \<Rightarrow> bool" where
  "header_values_ok lib resp \<longleftrightarrow> list_all (\<lambda>h. header_value lib (snd h) = Some (snd h)) (rs_headers resp)"

lemma get_all_concat:
  "distinct ns \<Longrightarrow> get_all n (concat (map (\<lambda>m. map (\<lambda>v. (m, v)) (f m)) ns)) = (if n \<in> set ns then f n else [])"
  by (induction ns) auto

lemma get_all_replayable:
  "get_all n (replayable_headers hs) = (if n \<in> set REPLAYABLE then get_all n hs else [])"
proof -
  have "distinct REPLAYABLE" by (simp add: REPLAYABLE_def)
  then show ?thesis unfolding replayable_headers_def by (rule get_all_concat)
qed

lemma replayable_mem:
  "(n, v) \<in> set (replayable_headers hs) \<Longrightarrow> n \<in> set REPLAYABLE \<and> (n, v) \<in> set hs"
  by (auto simp: replayable_headers_def get_all_def)

lemma replayable_names: "n \<in> set REPLAYABLE \<Longrightarrow> is_replayable_header_name n"
  by (auto simp: is_replayable_header_name_def list_ex_iff)

lemma decode_pair_stored:
  assumes "http_lib_ok lib" "n \<in> set REPLAYABLE" "header_value lib v = Some v"
  shows "decode_pair lib \<lparr>hp_name = n, hp_value = v\<rparr> = Inr (n, v)"
  using assms replayable_names[OF assms(2)]
  by (simp add: decode_pair_def http_lib_ok_def list_all_iff)

lemma capture_cases:
  assumes "capture lib resp = Inr st"
  shows "is_success (rs_status resp)" "st_status st = rs_status resp"
    "collect_body lib MAX_STORED_BODY_BYTES (rs_body resp) = Inr (st_body st)"
    "st_headers st = replayable_headers (remove_header REPLAYED_HEADER (rs_headers resp))"
    "\<not> headers_too_large (st_headers st)"
  using assms by (auto simp: capture_def Let_def split: if_splits sum.splits)

text \<open>A captured success is stored and decoded to itself.\<close>

lemma stored_decodes:
  assumes lib: "http_lib_ok lib" and vals: "header_values_ok lib resp" and cap: "capture lib resp = Inr st"
  obtains rec where "stored_record st fp = Inr rec" "fingerprint rec = fp" "decode lib rec = Inr st"
proof -
  note c = capture_cases[OF cap]
  let ?pairs = "map (\<lambda>(n, v). \<lparr>hp_name = n, hp_value = v\<rparr>) (st_headers st)"
  let ?rec = "\<lparr>fingerprint = fp, status = int (st_status st), headers = ?pairs, body = st_body st\<rparr>"
  have ok: "decode_pair lib \<lparr>hp_name = n, hp_value = v\<rparr> = Inr (n, v)" if "(n, v) \<in> set (st_headers st)" for n v
  proof -
    from that have "n \<in> set REPLAYABLE" and mem: "(n, v) \<in> set (rs_headers resp)"
      using replayable_mem unfolding c(4) remove_header_def by fastforce+
    moreover have "header_value lib v = Some v"
      using vals mem by (force simp: header_values_ok_def list_all_iff)
    ultimately show ?thesis using decode_pair_stored[OF lib] by blast
  qed
  have "map (decode_pair lib) ?pairs = map Inr (st_headers st)"
    using ok by (auto simp: o_def split_beta intro!: map_cong)
  then have hs: "collect_results (map (decode_pair lib) ?pairs) = Inr (st_headers st)"
    by (simp add: collect_results_Inr)
  have "length (st_body st) \<le> MAX_STORED_BODY_BYTES"
    using lib c(3) unfolding http_lib_ok_def by blast
  moreover have "200 \<le> st_status st" "st_status st < 300" using c(1,2) by (simp_all add: is_success_def)
  ultimately have "decode lib ?rec = Inr st"
    using hs c(5) by (simp add: decode_def decode_status_def is_success_def)
  moreover have "stored_record st fp = Inr ?rec"
    using \<open>st_status st < 300\<close> by (simp add: stored_record_def i16_max_def)
  ultimately show thesis using that by simp
qed

text \<open>
  A stored success replays as it was. When a response is captured, its record exists and decodes to
  the captured success, whose status and body are those of the response; of its headers exactly the
  seven replayable ones are kept, every value of them and in order, so no other header (no cookie,
  no request identifier, no forged replay marker) is ever stored.
\<close>

lemma stored_roundtrip:
  assumes "http_lib_ok lib" "header_values_ok lib resp" "capture lib resp = Inr st"
  shows "\<exists>rec. stored_record st fp = Inr rec \<and> decode lib rec = Inr st \<and>
    is_success (st_status st) \<and> st_status st = rs_status resp \<and>
    collect_body lib MAX_STORED_BODY_BYTES (rs_body resp) = Inr (st_body st) \<and>
    (\<forall>n. get_all n (st_headers st) = (if n \<in> set REPLAYABLE then get_all n (rs_headers resp) else []))"
proof -
  note c = capture_cases[OF assms(3)]
  have "REPLAYED_HEADER \<notin> set REPLAYABLE" by (simp add: REPLAYED_HEADER_def REPLAYABLE_def)
  then have "get_all n (st_headers st) = (if n \<in> set REPLAYABLE then get_all n (rs_headers resp) else [])" for n
    using get_all_removed[of n REPLAYED_HEADER "rs_headers resp"] unfolding c(4) get_all_replayable by auto
  then show ?thesis using stored_decodes[OF assms, of fp] c(1,2,3) by metis
qed

text \<open>A concrete HTTP library: the body is its bytes, every name and value is accepted.\<close>

definition demo_lib :: "bytes http_lib" where
  "demo_lib = \<lparr>collect_body = (\<lambda>n b. if length b \<le> n then Inr b else Inl True), body_from = (\<lambda>b. b),
     problem_json = (\<lambda>p. bytes_of (code_str (p_code p))), header_name = Some, header_value = Some\<rparr>"

definition demo_response :: "bytes response" where
  "demo_response = \<lparr>rs_status = 201, rs_headers = [(''set-cookie'', [9]), (''location'', [1, 2])],
     rs_body = [5, 6], rs_provenance = None, rs_problem = None\<rparr>"

definition demo_stored :: stored where
  "demo_stored = \<lparr>st_status = 201, st_headers = [(''location'', [1, 2])], st_body = [5, 6]\<rparr>"

lemma demo_lib_ok: "http_lib_ok demo_lib" "header_values_ok demo_lib demo_response"
  by (auto simp: http_lib_ok_def demo_lib_def header_values_ok_def list_all_iff)

lemma demo_capture: "capture demo_lib demo_response = Inr demo_stored"
  by (simp add: capture_def demo_response_def demo_lib_def demo_stored_def is_success_def Let_def
      MAX_STORED_BODY_BYTES_def remove_header_def REPLAYED_HEADER_def replayable_headers_def
      REPLAYABLE_def get_all_def headers_too_large_def header_bytes_def usize_add_def u64_max_def
      MAX_STORED_HEADER_BYTES_def)

theorem stored_roundtrip_witness:
  "\<exists>rec. stored_record demo_stored [7] = Inr rec \<and> decode demo_lib rec = Inr demo_stored"
  using stored_roundtrip[OF demo_lib_ok demo_capture, of "[7]"] by blast

subsection \<open>A request and its retries\<close>

lemma captured_job_run:
  assumes "run_work user h = (r, h1)" "resp = (case r of Inl x \<Rightarrow> x | Inr x \<Rightarrow> x)"
    "capture lib resp = Inr st" "stored_record st fp = Inr rec"
  shows "run_work (captured_job lib fp user) h = (Inr (rec, st), h1)"
  using assms capture_cases(1)[OF assms(3)] by (simp add: captured_job_def Let_def)

lemma execute_idem_attempted:
  assumes "postgres_attempt_end now (at_deadline att) \<noteq> None"
    "arbitrated env i retention (at_scope att) (at_caller att) (at_fingerprint att)
       (captured_job lib (at_fingerprint att) user) d = (Some x, d')"
  shows "execute_idem lib env i retention now later att user d =
    (send later (at_deadline att) (map_attempted lib x), d')"
  using assms by (auto simp: execute_idem_def)

lemma normalize_replayed:
  assumes "is_success (rs_status r)"
  shows "normalize_response lib (mark_provenance ProvReplayed r) =
    (normalize_response lib (mark_provenance ProvExecuted r))
      \<lparr>rs_headers := insert_header REPLAYED_HEADER (bytes_of ''true'')
         (rs_headers (normalize_response lib (mark_provenance ProvExecuted r)))\<rparr>"
  using assms by (simp add: normalize_response_def mark_provenance_def)

text \<open>A retry of a scope, before the record of the first attempt expires.\<close>

definition retry_in_time ::
  "('u \<times> records) attempt_env \<Rightarrow> duration \<Rightarrow> ('u \<times> records) attempt_env \<Rightarrow> tx_inputs \<Rightarrow> instant \<Rightarrow> idem_attempt \<Rightarrow> bool" where
  "retry_in_time env retention env2 i2 now2 att2 \<longleftrightarrow>
     healthy i2 \<and> env_writable env2 \<and> first_fault env2 = None \<and>
     first_now env2 < write_now env + as_micros retention \<and>
     postgres_attempt_end now2 (at_deadline att2) \<noteq> None"

text \<open>
  C9. A client that retries gets its answer again, and the work is done once. Through the whole stack
  (handler seam, capture, attempt, transaction): when a request on an unclaimed key succeeds with a
  storable response, the response is sent as executed and the data of the work is kept. Until the
  record expires, every retry with the same key and request gets the same response, marked as
  replayed by exactly one header, and every request that reuses the key for something else gets
  the key mismatch problem; neither runs its work or changes the data, whatever its handler would do.
\<close>

theorem retry_gets_same_response:
  fixes user :: "('u \<times> records, 'x idem_answer, 'b response, 'b response) work"
  assumes lib: "http_lib_ok lib" "header_values_ok lib resp" "capture lib resp = Inr st"
    and free: "unclaimed env (at_scope att) (at_fingerprint att) d" "write_fault env = None"
      "second_now env \<le> write_now env" "healthy i" "postgres_attempt_end now (at_deadline att) \<noteq> None"
    and work: "run_work user (start_handle d) = (r, h1)" "session h1 = Active (u1, snd d)"
      "resp = (case r of Inl x \<Rightarrow> x | Inr x \<Rightarrow> x)"
  shows "\<exists>sent d'.
    execute_idem lib env i retention now later att user d = ((Some sent, OutExecuted), d') \<and> fst d' = u1 \<and>
    rs_status sent = rs_status resp \<and>
    (\<forall>env2 i2 now2 later2 att2 (user2 :: ('u \<times> records, 'x idem_answer, 'b response, 'b response) work).
       at_scope att2 = at_scope att \<and> retry_in_time env retention env2 i2 now2 att2 \<longrightarrow>
       (if at_fingerprint att2 = at_fingerprint att
        then \<exists>again. execute_idem lib env2 i2 retention now2 later2 att2 user2 d' = ((Some again, OutReplayed), d') \<and>
          normalize_response lib again = (normalize_response lib sent)
            \<lparr>rs_headers := insert_header REPLAYED_HEADER (bytes_of ''true'') (rs_headers (normalize_response lib sent))\<rparr>
        else execute_idem lib env2 i2 retention now2 later2 att2 user2 d' =
          (send later2 (at_deadline att2) (boundary_problem (key_mismatch lib) OutKeyMismatch), d')))"
proof -
  obtain rec where rec: "stored_record st (at_fingerprint att) = Inr rec"
    "fingerprint rec = at_fingerprint att" "decode lib rec = Inr st"
    using stored_decodes[OF lib] by blast
  let ?sent = "mark_provenance ProvExecuted (into_response lib st)"
  let ?again = "mark_provenance ProvReplayed (into_response lib st)"
  note job = captured_job_run[OF work(1,3) lib(3) rec(1)]
  obtain d' where first: "arbitrated env i retention (at_scope att) (at_caller att) (at_fingerprint att)
      (captured_job lib (at_fingerprint att) user) d = (Some (Inr (Committed st)), d')" "fst d' = u1"
    and later: "\<And>env2 i2 caller2 fp2 (job2 :: ('u \<times> records, 'x idem_answer, idem_record \<times> stored, 'b rollback) work).
       env_writable env2 \<Longrightarrow> first_fault env2 = None \<Longrightarrow> healthy i2 \<Longrightarrow>
       first_now env2 < write_now env + as_micros retention \<Longrightarrow>
       arbitrated env2 i2 retention (at_scope att) caller2 fp2 job2 d' =
         (Some (Inr (if fp2 = at_fingerprint att then Replay rec else Mismatch)), d')"
    using attempt_commits_then_replays[OF free(1-3) job work(2) rec(2) free(4), of retention "at_caller att"]
    by blast
  have "execute_idem lib env i retention now later att user d = ((Some ?sent, OutExecuted), d')"
    using execute_idem_attempted[OF free(5) first(1)]
    by (simp add: map_attempted_def operation_response_def send_def)
  moreover have "rs_status ?sent = rs_status resp"
    using capture_cases(2)[OF lib(3)] by (simp add: mark_provenance_def into_response_def)
  moreover have "if at_fingerprint att2 = at_fingerprint att
      then \<exists>again. execute_idem lib env2 i2 retention now2 later2 att2 user2 d' = ((Some again, OutReplayed), d') \<and>
        normalize_response lib again = (normalize_response lib ?sent)
          \<lparr>rs_headers := insert_header REPLAYED_HEADER (bytes_of ''true'') (rs_headers (normalize_response lib ?sent))\<rparr>
      else execute_idem lib env2 i2 retention now2 later2 att2 user2 d' =
        (send later2 (at_deadline att2) (boundary_problem (key_mismatch lib) OutKeyMismatch), d')"
    if "at_scope att2 = at_scope att" "retry_in_time env retention env2 i2 now2 att2"
    for env2 i2 now2 later2 att2 and user2 :: "('u \<times> records, 'x idem_answer, 'b response, 'b response) work"
  proof -
    have run: "execute_idem lib env2 i2 retention now2 later2 att2 user2 d' =
        (send later2 (at_deadline att2) (map_attempted lib
          (Inr (if at_fingerprint att2 = at_fingerprint att then Replay rec else Mismatch))), d')"
      using that later by (intro execute_idem_attempted) (auto simp: retry_in_time_def)
    have "is_success (rs_status (into_response lib st))"
      using capture_cases(1,2)[OF lib(3)] by (simp add: into_response_def)
    from normalize_replayed[OF this, of lib] run rec(3) show ?thesis
      by (auto simp: map_attempted_def operation_response_def send_def)
  qed
  ultimately show ?thesis using first(2) by blast
qed

definition demo_attempt :: idem_attempt where
  "demo_attempt = \<lparr>at_scope = [1], at_caller = demo_caller, at_fingerprint = [7], at_deadline = from_secs 5\<rparr>"

definition demo_handler :: "(nat \<times> records, unit idem_answer, bytes response, bytes response) work" where
  "demo_handler = FetchOptional (\<lambda>d. ([UserAnswer ()], Inr (fst d + 1, snd d))) (\<lambda>_. Return (Inr demo_response))"

theorem retry_gets_same_response_witness:
  "\<exists>sent d' again.
     execute_idem demo_lib demo_env demo_inputs 1000000 0 0 demo_attempt demo_handler (5, Map.empty)
       = ((Some sent, OutExecuted), d') \<and>
     execute_idem demo_lib (demo_env\<lparr>first_now := 12, env_acquired := False\<rparr>) demo_inputs 1000000 0 0 demo_attempt
       demo_handler d' = ((Some again, OutReplayed), d')"
proof -
  have end_ok: "postgres_attempt_end 0 (at_deadline demo_attempt) \<noteq> None"
    by (simp add: postgres_attempt_end_def demo_attempt_def instant_checked_sub_def time_units)
  have un: "unclaimed demo_env (at_scope demo_attempt) (at_fingerprint demo_attempt) (5, Map.empty)"
    by (simp add: unclaimed_def demo_env_def read_live_def)
  have run: "run_work demo_handler (start_handle (5, Map.empty)) = (Inr demo_response, start_handle (6, Map.empty))"
    by (simp add: demo_handler_def start_handle_def)
  have "write_fault demo_env = None" "second_now demo_env \<le> write_now demo_env" "healthy demo_inputs"
    by (simp_all add: demo_env_def healthy_def demo_inputs_def)
  from retry_gets_same_response[OF demo_lib_ok demo_capture un this end_ok run, of 6 1000000 0]
  obtain sent d' where first: "execute_idem demo_lib demo_env demo_inputs 1000000 0 0 demo_attempt demo_handler (5, Map.empty)
      = ((Some sent, OutExecuted), d')"
    and later: "\<And>env2. retry_in_time demo_env 1000000 env2 demo_inputs 0 demo_attempt \<Longrightarrow>
      \<exists>again. execute_idem demo_lib env2 demo_inputs 1000000 0 0 demo_attempt demo_handler d'
        = ((Some again, OutReplayed), d')"
    by (simp add: start_handle_def) metis
  have "retry_in_time demo_env 1000000 (demo_env\<lparr>first_now := 12, env_acquired := False\<rparr>) demo_inputs 0 demo_attempt"
    using end_ok by (simp add: retry_in_time_def demo_env_def healthy_def demo_inputs_def as_micros_def)
  with first later show ?thesis by blast
qed

lemma captured_job_verdict:
  assumes "fst (run_work (captured_job lib fp user) h) = Inr (rec, st)"
  obtains resp where "case fst (run_work user h) of Inl x \<Rightarrow> resp = x | Inr x \<Rightarrow> resp = x"
    "capture lib resp = Inr st" "stored_record st fp = Inr rec"
  using assms that
  by (cases "run_work user h") (auto simp: captured_job_def Let_def bind_result_Inr split: if_splits sum.splits)

text \<open>
  C10. The outcome tells what happened to the data. A request that records \<open>executed\<close> sent the captured
  response of its own handler, and the data kept is that of the handler's work with the record of
  exactly this response under its scope. For every other outcome but \<open>unavailable\<close> and \<open>abandoned\<close>
  the data is unchanged, in particular when the handler answered no success, when its success cannot
  be stored, and on a replay.
\<close>

theorem execute_effects:
  fixes user :: "('u \<times> records, 'x idem_answer, 'b response, 'b response) work"
  assumes "commit_codes_honest (commit_answer i)"
    and "execute_idem lib env i retention now later att user d = ((sent, out), d')"
  shows "(out \<notin> {OutExecuted, OutUnavailable, OutAbandoned} \<longrightarrow> d' = d) \<and>
    (out = OutExecuted \<longrightarrow> (\<exists>resp st rec u1 t1.
       (case fst (run_work user (start_handle d)) of Inl x \<Rightarrow> resp = x | Inr x \<Rightarrow> resp = x) \<and>
       capture lib resp = Inr st \<and> stored_record st (at_fingerprint att) = Inr rec \<and>
       sent = Some (mark_provenance ProvExecuted (into_response lib st)) \<and>
       session (snd (run_work (captured_job lib (at_fingerprint att) user) (start_handle d))) = Active (u1, t1) \<and>
       d' = (u1, t1(at_scope att \<mapsto> write_row (write_now env) retention (at_caller att) rec))))"
proof (cases "postgres_attempt_end now (at_deadline att)")
  case None
  with assms(2) show ?thesis
    by (auto simp: execute_idem_def send_def map_attempted_def boundary_problem_def split: if_splits)
next
  case (Some fin)
  let ?job = "captured_job lib (at_fingerprint att) user"
  obtain r where arb: "arbitrated env i retention (at_scope att) (at_caller att) (at_fingerprint att) ?job d = (r, d')"
    and snt: "send later (at_deadline att) (map_attempted lib (case r of None \<Rightarrow> Inl AttemptUnavailable | Some x \<Rightarrow> x))
      = (sent, out)"
    using assms(2) Some by (auto simp: execute_idem_def split: prod.splits)
  show ?thesis
  proof (cases r)
    case None
    with snt show ?thesis by (auto simp: send_def map_attempted_def boundary_problem_def split: if_splits)
  next
    case r: (Some a)
    note eff = attempt_effects[OF assms(1) arb[unfolded r]]
    show ?thesis
    proof (cases "\<exists>st. a = Inr (Committed st)")
      case True
      then obtain st where a: "a = Inr (Committed st)" by blast
      with eff obtain rec u1 t1 where c: "fst (run_work ?job (start_handle d)) = Inr (rec, st)"
        "session (snd (run_work ?job (start_handle d))) = Active (u1, t1)"
        "d' = (u1, t1(at_scope att \<mapsto> write_row (write_now env) retention (at_caller att) rec))" by auto
      from c(1) obtain resp where "case fst (run_work user (start_handle d)) of Inl x \<Rightarrow> resp = x | Inr x \<Rightarrow> resp = x"
        "capture lib resp = Inr st" "stored_record st (at_fingerprint att) = Inr rec"
        by (rule captured_job_verdict)
      moreover have "sent = Some (mark_provenance ProvExecuted (into_response lib st))" "out = OutExecuted"
        using snt r a by (simp_all add: send_def map_attempted_def operation_response_def)
      ultimately show ?thesis using c(2,3) by blast
    next
      case False
      then show ?thesis using eff snt r
        by (cases a)
          (auto simp: send_def map_attempted_def boundary_problem_def operation_response_def integrity_failure_def
            split: if_splits attempted.splits attempt_error.splits rollback.splits sum.splits)
    qed
  qed
qed

theorem execute_effects_witness:
  "snd (execute_idem demo_lib demo_env demo_inputs 1000000 0 0 demo_attempt
     (Return (Inr (demo_response\<lparr>rs_status := 404\<rparr>))
        :: (nat \<times> records, unit idem_answer, bytes response, bytes response) work) (5, Map.empty)) = (5, Map.empty)"
proof -
  let ?user = "Return (Inr (demo_response\<lparr>rs_status := 404\<rparr>))
    :: (nat \<times> records, unit idem_answer, bytes response, bytes response) work"
  have un: "unclaimed demo_env [1] [7] (5, Map.empty)"
    by (simp add: unclaimed_def demo_env_def read_live_def)
  have w: "run_work (attempt_work demo_env 1000000 [1] demo_caller [7] (captured_job demo_lib [7] ?user))
      \<lparr>session = Active (5, Map.empty), not_aborted = True\<rparr> =
      (Inl (Decided (RolledBack (RbResponse (demo_response\<lparr>rs_status := 404\<rparr>)))), start_handle (5, Map.empty))"
    unfolding attempt_work_def arbitrate_runs[OF un]
    by (simp add: captured_job_def is_success_def demo_response_def start_handle_def)
  have run: "execute_idem demo_lib demo_env demo_inputs 1000000 0 0 demo_attempt ?user (5, Map.empty) =
      ((Some (demo_response\<lparr>rs_status := 404\<rparr>), OutNotStored), (5, Map.empty))"
    by (simp add: execute_idem_def postgres_attempt_end_def demo_attempt_def instant_checked_sub_def time_units
        arbitrated_def transaction_def w demo_inputs_def end_phase_def attempt_answer_def map_attempted_def
        operation_response_def send_def)
  have "commit_codes_honest (commit_answer demo_inputs)" by (simp add: demo_inputs_def commit_codes_honest_def)
  from execute_effects[OF this run] show ?thesis unfolding run by simp
qed

text \<open>
  Only the seam vouches for a success. After the key layer a success is one that the seam executed or
  replayed, and a success a handler built around the seam becomes the sanitized failure; the replay
  marker is on exactly the replayed successes, once, and any marker a handler set is gone.
\<close>

lemma sealed_successes:
  "(is_success (rs_status (normalize_response lib resp)) \<longleftrightarrow>
      is_success (rs_status resp) \<and> rs_provenance resp \<noteq> None) \<and>
   get_all REPLAYED_HEADER (rs_headers (normalize_response lib resp)) =
     (if is_success (rs_status resp) \<and> rs_provenance resp = Some ProvReplayed then [bytes_of ''true''] else [])"
proof -
  have gone: "get_all REPLAYED_HEADER (remove_header REPLAYED_HEADER hs) = []" for hs
    by (simp add: get_all_def remove_header_def)
  have fail: "\<not> is_success (rs_status (wiring_failure lib))"
    "get_all REPLAYED_HEADER (rs_headers (wiring_failure lib)) = []"
    by (simp_all add: wiring_failure_def sanitized_internal_error_def problem_response_def sanitized_problem_def
        problem_new_def with_detail_def is_success_def get_all_def REPLAYED_HEADER_def)
  show ?thesis
    using gone fail
    by (cases "rs_provenance resp" rule: option.exhaust; cases "the (rs_provenance resp)")
      (auto simp: normalize_response_def Let_def insert_header_def get_all_def remove_header_def)
qed

end
