(* ===== verification/WebhookProtocol.thy ===== *)
theory WebhookProtocol
  imports Prelude
begin

text \<open>
  \<open>crates/infra-webhooks/src/protocol.rs\<close>: Standard Webhooks v1 framing, signing and verification.
  HMAC-SHA256 (a function of key and message) and the base64 codec are parameters; the laws of the
  codec are in \<open>codec_ok\<close>. A point of system time is its distance from the epoch in nanoseconds.
\<close>

definition MAX_BODY_BYTES :: nat where "MAX_BODY_BYTES = 128 * 1024"
definition TIMESTAMP_TOLERANCE_SECONDS :: int where "TIMESTAMP_TOLERANCE_SECONDS = 300"
definition SIGNATURE_PREFIX :: bytes where "SIGNATURE_PREFIX = bytes_of ''v1,''"
definition MIN_SIGNING_KEY_BYTES :: nat where "MIN_SIGNING_KEY_BYTES = 24"
definition MAX_SIGNING_KEY_BYTES :: nat where "MAX_SIGNING_KEY_BYTES = 64"
definition MAX_MESSAGE_ID_BYTES :: nat where "MAX_MESSAGE_ID_BYTES = 255"

record b64_codec =
  b64_encode :: "bytes \<Rightarrow> bytes"
  b64_decode :: "bytes \<Rightarrow> bytes option"

datatype protocol_error =
    InvalidKey | BodyTooLarge | MissingHeader | ConflictingHeader | InvalidMessageId
  | InvalidTimestamp | TimestampOutOfWindow | InvalidSignature

definition protocol_reason :: "protocol_error \<Rightarrow> string" where
  "protocol_reason e =
     (case e of
        InvalidKey \<Rightarrow> ''invalid_key''
      | BodyTooLarge \<Rightarrow> ''body_too_large''
      | MissingHeader \<Rightarrow> ''missing_header''
      | ConflictingHeader \<Rightarrow> ''conflicting_header''
      | InvalidMessageId \<Rightarrow> ''invalid_message_id''
      | InvalidTimestamp \<Rightarrow> ''invalid_timestamp''
      | TimestampOutOfWindow \<Rightarrow> ''timestamp_out_of_window''
      | InvalidSignature \<Rightarrow> ''invalid_signature'')"

subsection \<open>Keys\<close>

type_synonym signing_key = bytes

record key_ring =
  active_key :: signing_key
  previous_key :: "signing_key option"

definition signing_key_from_encoded :: "b64_codec \<Rightarrow> bytes \<Rightarrow> protocol_error + signing_key" where
  "signing_key_from_encoded codec encoded =
     (let enc = (case strip_prefix (bytes_of ''whsec_'') encoded of None \<Rightarrow> encoded | Some rest \<Rightarrow> rest) in
      case b64_decode codec enc of
        None \<Rightarrow> Inl InvalidKey
      | Some key \<Rightarrow>
          if MIN_SIGNING_KEY_BYTES \<le> length key \<and> length key \<le> MAX_SIGNING_KEY_BYTES then Inr key
          else Inl InvalidKey)"

definition key_ring_from_encoded ::
  "b64_codec \<Rightarrow> bytes \<Rightarrow> bytes option \<Rightarrow> protocol_error + key_ring" where
  "key_ring_from_encoded codec active previous =
     bind_result (signing_key_from_encoded codec active) (\<lambda>a.
       bind_result
         (case previous of
            None \<Rightarrow> Inr None
          | Some p \<Rightarrow> bind_result (signing_key_from_encoded codec p) (\<lambda>k. Inr (Some k)))
         (\<lambda>p. Inr \<lparr>active_key = a, previous_key = p\<rparr>))"

subsection \<open>Framing\<close>

text \<open>\<open>i64::to_string\<close> and \<open>str::parse::<i64>\<close>.\<close>

definition show_int :: "int \<Rightarrow> bytes" where
  "show_int t = (if t < 0 then 45 # bytes_of (decimal (nat (- t))) else bytes_of (decimal (nat t)))"

definition i64_range :: "int \<Rightarrow> bool" where "i64_range t \<longleftrightarrow> - (2 ^ 63) \<le> t \<and> t < 2 ^ 63"

definition sign_split :: "bytes \<Rightarrow> bool \<times> bytes" where
  "sign_split bs =
     (case bs of
        [] \<Rightarrow> (False, [])
      | b # rest \<Rightarrow> if b = 45 then (True, rest) else if b = 43 then (False, rest) else (False, bs))"

definition i64_checked :: "int \<Rightarrow> int option" where
  "i64_checked v = (if i64_range v then Some v else None)"

definition parse_int :: "bytes \<Rightarrow> int option" where
  "parse_int bs =
     (let (neg, ds) = sign_split bs in
      if ds = [] then None
      else case digits_value 0 ds of
             None \<Rightarrow> None
           | Some n \<Rightarrow> i64_checked (if neg then - int n else int n))"

definition ensure_body_size :: "bytes \<Rightarrow> protocol_error + unit" where
  "ensure_body_size bdy = (if length bdy \<le> MAX_BODY_BYTES then Inr () else Inl BodyTooLarge)"

definition unambiguous_header :: "(string \<times> bytes) list \<Rightarrow> string \<Rightarrow> protocol_error + bytes" where
  "unambiguous_header hs n =
     (case get_all n hs of
        [] \<Rightarrow> Inl MissingHeader
      | v # vs \<Rightarrow> if list_ex (\<lambda>w. w \<noteq> v) vs then Inl ConflictingHeader else Inr v)"

definition ensure_message_id :: "bytes \<Rightarrow> protocol_error + unit" where
  "ensure_message_id mid =
     (if mid \<noteq> [] \<and> length mid \<le> MAX_MESSAGE_ID_BYTES \<and> 46 \<notin> set mid then Inr () else Inl InvalidMessageId)"

definition parse_timestamp :: "bytes \<Rightarrow> protocol_error + int" where
  "parse_timestamp v = (case parse_int v of None \<Rightarrow> Inl InvalidTimestamp | Some t \<Rightarrow> Inr t)"

text \<open>Whole seconds since the epoch; before the epoch the distance is rounded down and negated.\<close>

definition system_seconds :: "int \<Rightarrow> int" where
  "system_seconds now =
     (if 0 \<le> now then now div 1000000000 else - ((- now) div 1000000000))"

definition ensure_timestamp_window :: "int \<Rightarrow> int \<Rightarrow> protocol_error + unit" where
  "ensure_timestamp_window timestamp now =
     (if \<bar>timestamp - system_seconds now\<bar> \<le> TIMESTAMP_TOLERANCE_SECONDS then Inr ()
      else Inl TimestampOutOfWindow)"

definition signed_bytes :: "bytes \<Rightarrow> int \<Rightarrow> bytes \<Rightarrow> bytes" where
  "signed_bytes mid timestamp bdy = mid @ [46] @ show_int timestamp @ [46] @ bdy"

definition tag :: "(signing_key \<Rightarrow> bytes \<Rightarrow> bytes) \<Rightarrow> signing_key \<Rightarrow> bytes \<Rightarrow> int \<Rightarrow> bytes \<Rightarrow> bytes" where
  "tag mac key mid timestamp bdy = mac key (signed_bytes mid timestamp bdy)"

definition is_ascii_whitespace :: "8 word \<Rightarrow> bool" where
  "is_ascii_whitespace b = (b = 0x20 \<or> b = 0x09 \<or> b = 0x0A \<or> b = 0x0C \<or> b = 0x0D)"

definition v1_candidate :: "b64_codec \<Rightarrow> bytes \<Rightarrow> bytes option" where
  "v1_candidate codec piece =
     (case strip_prefix SIGNATURE_PREFIX piece of None \<Rightarrow> None | Some enc \<Rightarrow> b64_decode codec enc)"

definition v1_candidates :: "b64_codec \<Rightarrow> bytes \<Rightarrow> bytes list" where
  "v1_candidates codec v = List.map_filter (v1_candidate codec) (split_on is_ascii_whitespace v)"

subsection \<open>Signing and verification\<close>

definition signatures ::
  "b64_codec \<Rightarrow> (signing_key \<Rightarrow> bytes \<Rightarrow> bytes) \<Rightarrow> key_ring \<Rightarrow> bytes \<Rightarrow> int \<Rightarrow> bytes \<Rightarrow> protocol_error + bytes" where
  "signatures codec mac ring mid timestamp bdy =
     bind_result (ensure_body_size bdy) (\<lambda>_.
     bind_result (ensure_message_id mid) (\<lambda>_.
       let first = SIGNATURE_PREFIX @ b64_encode codec (tag mac (active_key ring) mid timestamp bdy) in
       Inr (case previous_key ring of
              None \<Rightarrow> first
            | Some prev \<Rightarrow>
                first @ [0x20] @ SIGNATURE_PREFIX @ b64_encode codec (tag mac prev mid timestamp bdy))))"

record verified_message =
  vm_message_id :: bytes
  vm_timestamp :: int

definition key_matches ::
  "(signing_key \<Rightarrow> bytes \<Rightarrow> bytes) \<Rightarrow> bytes list \<Rightarrow> bytes \<Rightarrow> int \<Rightarrow> bytes \<Rightarrow> signing_key \<Rightarrow> bool" where
  "key_matches mac candidates mid timestamp bdy key =
     list_ex (\<lambda>c. c = tag mac key mid timestamp bdy) candidates"

definition verify ::
  "b64_codec \<Rightarrow> (signing_key \<Rightarrow> bytes \<Rightarrow> bytes) \<Rightarrow> key_ring \<Rightarrow> (string \<times> bytes) list \<Rightarrow> bytes \<Rightarrow> int
   \<Rightarrow> protocol_error + verified_message" where
  "verify codec mac ring hs bdy now =
     bind_result (ensure_body_size bdy) (\<lambda>_.
     bind_result (unambiguous_header hs ''webhook-id'') (\<lambda>mid.
     bind_result (ensure_message_id mid) (\<lambda>_.
     bind_result (bind_result (unambiguous_header hs ''webhook-timestamp'') parse_timestamp) (\<lambda>timestamp.
     bind_result (ensure_timestamp_window timestamp now) (\<lambda>_.
       if get_all ''webhook-signature'' hs = [] then Inl MissingHeader
       else let candidates = concat (map (v1_candidates codec) (get_all ''webhook-signature'' hs)) in
            if key_matches mac candidates mid timestamp bdy (active_key ring) \<or>
               (case previous_key ring of
                  None \<Rightarrow> False
                | Some prev \<Rightarrow> key_matches mac candidates mid timestamp bdy prev)
            then Inr \<lparr>vm_message_id = mid, vm_timestamp = timestamp\<rparr>
            else Inl InvalidSignature)))))"

subsection \<open>Numbers and pieces\<close>

lemma parse_show_int:
  assumes "i64_range t"
  shows "parse_int (show_int t) = Some t"
proof (cases "t < 0")
  case True
  then show ?thesis using assms digits_value_decimal[of "nat (- t)"]
    by (simp add: show_int_def parse_int_def sign_split_def i64_checked_def bytes_of_def)
next
  case False
  obtain b rest where d: "bytes_of (decimal (nat t)) = b # rest"
    by (cases "bytes_of (decimal (nat t))") (simp_all add: bytes_of_def)
  have "48 \<le> b" using decimal_digits[of b "nat t"] d by simp
  then have "b \<noteq> 45" "b \<noteq> 43" by auto
  then have "sign_split (b # rest) = (False, b # rest)" by (simp add: sign_split_def)
  then show ?thesis using False assms d digits_value_decimal[of "nat t"]
    by (simp add: show_int_def parse_int_def i64_checked_def)
qed

lemma show_int_no_dot: "46 \<notin> set (show_int t)"
  using decimal_digits[of 46] by (auto simp: show_int_def)

lemma map_filter_Some: "f x = Some y \<Longrightarrow> x \<in> set xs \<Longrightarrow> y \<in> set (List.map_filter f xs)"
  by (force simp: map_filter_def)

lemma parse_int_range: "parse_int bs = Some t \<Longrightarrow> i64_range t"
  by (cases "sign_split bs")
    (auto simp: parse_int_def i64_checked_def split: if_split_asm option.split_asm)

lemma signed_bytes_inj:
  assumes "signed_bytes mid t bdy = signed_bytes mid' t' bdy'" "46 \<notin> set mid" "46 \<notin> set mid'"
    "i64_range t" "i64_range t'"
  shows "mid = mid' \<and> t = t' \<and> bdy = bdy'"
proof -
  from split_unique[OF assms(1)[unfolded signed_bytes_def, simplified] assms(2,3)]
  have 1: "mid = mid'" "show_int t @ 46 # bdy = show_int t' @ 46 # bdy'" by simp_all
  from split_unique[OF 1(2) show_int_no_dot show_int_no_dot]
  have 2: "show_int t = show_int t'" "bdy = bdy'" by simp_all
  have "t = t'" using 2(1) parse_show_int[OF assms(4)] parse_show_int[OF assms(5)] by (metis option.inject)
  with 1(1) 2(2) show ?thesis by simp
qed

definition ring_keys :: "key_ring \<Rightarrow> signing_key set" where
  "ring_keys ring = insert (active_key ring) (set_option (previous_key ring))"

text \<open>The evidence a verified delivery carries.\<close>

definition evidence ::
  "b64_codec \<Rightarrow> (signing_key \<Rightarrow> bytes \<Rightarrow> bytes) \<Rightarrow> key_ring \<Rightarrow> (string \<times> bytes) list \<Rightarrow> bytes \<Rightarrow> int
   \<Rightarrow> verified_message \<Rightarrow> bool" where
  "evidence codec mac ring hs bdy now m \<longleftrightarrow>
     length bdy \<le> MAX_BODY_BYTES \<and>
     set (get_all ''webhook-id'' hs) = {vm_message_id m} \<and>
     vm_message_id m \<noteq> [] \<and> length (vm_message_id m) \<le> MAX_MESSAGE_ID_BYTES \<and> 46 \<notin> set (vm_message_id m) \<and>
     (\<exists>v. set (get_all ''webhook-timestamp'' hs) = {v} \<and> parse_int v = Some (vm_timestamp m)) \<and>
     \<bar>vm_timestamp m - system_seconds now\<bar> \<le> 300 \<and>
     (\<exists>key \<in> ring_keys ring. \<exists>v \<in> set (get_all ''webhook-signature'' hs).
        tag mac key (vm_message_id m) (vm_timestamp m) bdy \<in> set (v1_candidates codec v))"

lemma unambiguous_header_Inr: "unambiguous_header hs n = Inr v \<longleftrightarrow> set (get_all n hs) = {v}"
  by (cases "get_all n hs") (auto simp: unambiguous_header_def list_ex_iff)

lemma ensure_simps:
  "ensure_body_size bdy = Inr u \<longleftrightarrow> length bdy \<le> MAX_BODY_BYTES"
  "ensure_message_id mid = Inr u \<longleftrightarrow> mid \<noteq> [] \<and> length mid \<le> MAX_MESSAGE_ID_BYTES \<and> 46 \<notin> set mid"
  "parse_timestamp v = Inr t \<longleftrightarrow> parse_int v = Some t"
  "ensure_timestamp_window t now = Inr u \<longleftrightarrow> \<bar>t - system_seconds now\<bar> \<le> 300"
  by (auto simp: ensure_body_size_def ensure_message_id_def parse_timestamp_def ensure_timestamp_window_def
      TIMESTAMP_TOLERANCE_SECONDS_def split: option.splits)

lemma verify_evidence: "verify codec mac ring hs bdy now = Inr m \<longleftrightarrow> evidence codec mac ring hs bdy now m"
proof -
  have keys: "(key_matches mac cs mid t bdy (active_key ring) \<or>
      (case previous_key ring of None \<Rightarrow> False | Some prev \<Rightarrow> key_matches mac cs mid t bdy prev)) \<longleftrightarrow>
      (\<exists>key \<in> ring_keys ring. tag mac key mid t bdy \<in> set cs)" for cs mid t
    by (auto simp: key_matches_def ring_keys_def list_ex_iff split: option.splits)
  have "verify codec mac ring hs bdy now = Inr m \<longleftrightarrow>
      length bdy \<le> MAX_BODY_BYTES \<and> (\<exists>mid. set (get_all ''webhook-id'' hs) = {mid} \<and>
        mid \<noteq> [] \<and> length mid \<le> MAX_MESSAGE_ID_BYTES \<and> 46 \<notin> set mid \<and>
        (\<exists>t. (\<exists>v. set (get_all ''webhook-timestamp'' hs) = {v} \<and> parse_int v = Some t) \<and>
          \<bar>t - system_seconds now\<bar> \<le> 300 \<and> get_all ''webhook-signature'' hs \<noteq> [] \<and>
          (\<exists>key \<in> ring_keys ring. tag mac key mid t bdy \<in>
             set (concat (map (v1_candidates codec) (get_all ''webhook-signature'' hs)))) \<and>
          m = \<lparr>vm_message_id = mid, vm_timestamp = t\<rparr>))"
    unfolding verify_def bind_result_Inr unambiguous_header_Inr ensure_simps Let_def keys
    by (auto split: if_splits)
  also have "\<dots> \<longleftrightarrow> evidence codec mac ring hs bdy now m"
    unfolding evidence_def by (cases m) auto
  finally show ?thesis .
qed

text \<open>
  C29. A delivery is accepted exactly for valid evidence, and the evidence binds the whole message.
  Verification succeeds if and only if the body is within its limit, the identity and timestamp
  headers are present and unambiguous, the timestamp lies within 300 seconds of the receiver's
  clock on either side, and some v1 candidate is the MAC of exactly these bytes under the active or
  the previous key. No other identity, timestamp or body has the same signed bytes, so a valid
  candidate cannot be moved to another message.
\<close>

theorem verify_exact:
  "(verify codec mac ring hs bdy now = Inr m \<longleftrightarrow> evidence codec mac ring hs bdy now m) \<and>
   (verify codec mac ring hs bdy now = Inr m \<longrightarrow>
      (\<forall>mid t bdy'. 46 \<notin> set mid \<and> i64_range t \<and>
         signed_bytes mid t bdy' = signed_bytes (vm_message_id m) (vm_timestamp m) bdy \<longrightarrow>
         mid = vm_message_id m \<and> t = vm_timestamp m \<and> bdy' = bdy))"
proof (intro conjI impI allI)
  show "verify codec mac ring hs bdy now = Inr m \<longleftrightarrow> evidence codec mac ring hs bdy now m"
    by (rule verify_evidence)
next
  fix mid t bdy'
  assume "verify codec mac ring hs bdy now = Inr m"
    and other: "46 \<notin> set mid \<and> i64_range t \<and>
      signed_bytes mid t bdy' = signed_bytes (vm_message_id m) (vm_timestamp m) bdy"
  then have "46 \<notin> set (vm_message_id m)" "i64_range (vm_timestamp m)"
    by (auto simp: verify_evidence evidence_def dest: parse_int_range)
  with other have "mid = vm_message_id m \<and> t = vm_timestamp m \<and> bdy' = bdy"
    using signed_bytes_inj by blast
  then show "mid = vm_message_id m" "t = vm_timestamp m" "bdy' = bdy" by simp_all
qed

subsection \<open>Senders and receivers\<close>

text \<open>What the code relies on of base64: decoding undoes encoding, and the text has no whitespace.\<close>

definition codec_ok :: "b64_codec \<Rightarrow> bool" where
  "codec_ok codec \<longleftrightarrow>
     (\<forall>x. b64_decode codec (b64_encode codec x) = Some x \<and>
          list_all (\<lambda>b. \<not> is_ascii_whitespace b) (b64_encode codec x))"

definition delivery_headers :: "bytes \<Rightarrow> int \<Rightarrow> bytes \<Rightarrow> (string \<times> bytes) list" where
  "delivery_headers mid timestamp sig =
     [(''webhook-id'', mid), (''webhook-timestamp'', show_int timestamp), (''webhook-signature'', sig)]"

lemma candidate_of_piece:
  assumes "codec_ok codec"
  shows "v1_candidate codec (SIGNATURE_PREFIX @ b64_encode codec x) = Some x"
  using assms by (simp add: v1_candidate_def codec_ok_def)

lemma piece_no_space:
  assumes "codec_ok codec"
  shows "\<forall>b \<in> set (SIGNATURE_PREFIX @ b64_encode codec x). \<not> is_ascii_whitespace b"
proof -
  have "\<forall>b \<in> set SIGNATURE_PREFIX. \<not> is_ascii_whitespace b"
    by (auto simp: SIGNATURE_PREFIX_def bytes_of_def is_ascii_whitespace_def)
  then show ?thesis using assms by (auto simp: codec_ok_def list_all_iff)
qed

lemma signatures_candidates:
  assumes codec: "codec_ok codec" and sig: "signatures codec mac ring mid t bdy = Inr sig" and key: "key \<in> ring_keys ring"
  shows "tag mac key mid t bdy \<in> set (v1_candidates codec sig)"
proof -
  let ?piece = "\<lambda>k. SIGNATURE_PREFIX @ b64_encode codec (tag mac k mid t bdy)"
  have "?piece key \<in> set (split_on is_ascii_whitespace sig)"
  proof (cases "previous_key ring")
    case None
    then show ?thesis using sig key split_on_single[OF piece_no_space[OF codec]]
      by (auto simp: signatures_def bind_result_Inr ring_keys_def Let_def)
  next
    case (Some prev)
    have "sig = ?piece (active_key ring) @ 0x20 # ?piece prev"
      using sig Some by (auto simp: signatures_def bind_result_Inr Let_def)
    moreover have "is_ascii_whitespace 0x20" by (simp add: is_ascii_whitespace_def)
    ultimately have "split_on is_ascii_whitespace sig = [?piece (active_key ring), ?piece prev]"
      using split_on_append[OF piece_no_space[OF codec]]
        split_on_single[OF piece_no_space[OF codec]] by metis
    then show ?thesis using key Some by (auto simp: ring_keys_def)
  qed
  then show ?thesis unfolding v1_candidates_def
    using candidate_of_piece[OF codec] map_filter_Some by fast
qed

text \<open>
  Headers that carry one signed delivery verify at every receiver that shares a key, whatever other
  headers the request has.
\<close>

lemma signed_headers_verify:
  assumes "codec_ok codec" "signatures codec mac sender mid t bdy = Inr sig"
    and "key \<in> ring_keys sender" "key \<in> ring_keys receiver"
    and "i64_range t" "\<bar>t - system_seconds now\<bar> \<le> 300"
    and hs: "get_all ''webhook-id'' hs = [mid]" "get_all ''webhook-timestamp'' hs = [show_int t]"
      "get_all ''webhook-signature'' hs = [sig]"
  shows "verify codec mac receiver hs bdy now = Inr \<lparr>vm_message_id = mid, vm_timestamp = t\<rparr>"
proof -
  have "length bdy \<le> MAX_BODY_BYTES" "mid \<noteq> []" "length mid \<le> MAX_MESSAGE_ID_BYTES" "46 \<notin> set mid"
    using assms(2) by (auto simp: signatures_def bind_result_Inr ensure_simps)
  moreover have "parse_int (show_int t) = Some t"
    using assms(5) by (rule parse_show_int)
  ultimately show ?thesis
    using signatures_candidates[OF assms(1,2,3)] assms(4,6) hs
    unfolding verify_evidence evidence_def by auto
qed

text \<open>
  What a sender signs, a receiver accepts, also across key rotations. When the two sides share at
  least one key (the active or the previous one of each), a message that the sender could sign is
  verified with its own identity and timestamp, for any receiver clock within 300 seconds.
\<close>

lemma signed_delivery_verifies:
  assumes "codec_ok codec" "signatures codec mac sender mid t bdy = Inr sig"
    and "key \<in> ring_keys sender" "key \<in> ring_keys receiver"
    and "i64_range t" "\<bar>t - system_seconds now\<bar> \<le> 300"
  shows "verify codec mac receiver (delivery_headers mid t sig) bdy now =
    Inr \<lparr>vm_message_id = mid, vm_timestamp = t\<rparr>"
  using assms by (rule signed_headers_verify) (simp_all add: delivery_headers_def get_all_def)

text \<open>A concrete codec, two letters per byte, and a MAC that appends the key to the message.\<close>

definition demo_pair :: "8 word \<Rightarrow> bytes" where
  "demo_pair b = [of_nat (65 + unat b div 16), of_nat (65 + unat b mod 16)]"

fun demo_unpair :: "bytes \<Rightarrow> bytes option" where
  "demo_unpair [] = Some []"
| "demo_unpair (h # l # rest) =
     map_option (\<lambda>bs. of_nat ((unat h - 65) * 16 + (unat l - 65)) # bs) (demo_unpair rest)"
| "demo_unpair [x] = None"

definition demo_codec :: b64_codec where
  "demo_codec = \<lparr>b64_encode = (\<lambda>bs. concat (map demo_pair bs)), b64_decode = demo_unpair\<rparr>"

lemma demo_codec_ok: "codec_ok demo_codec"
proof -
  have nib: "unat (of_nat (65 + n) :: 8 word) = 65 + n" if "n < 16" for n
    using that by (simp only: unat_of_nat) simp
  have small: "unat b div 16 < 16" "unat b mod 16 < 16" for b :: "8 word"
    using unsigned_less[of b, where 'a = nat] by (simp_all add: less_mult_imp_div_less)
  have "demo_unpair (concat (map demo_pair bs)) = Some bs" for bs
    by (induction bs) (simp_all add: demo_pair_def nib small del: of_nat_add)
  moreover have "\<not> is_ascii_whitespace b" if "b \<in> set (demo_pair x)" for b x
  proof -
    have "unat b \<ge> 65" using that nib[OF small(1)] nib[OF small(2)] by (auto simp: demo_pair_def simp del: of_nat_add)
    then show ?thesis by (auto simp: is_ascii_whitespace_def)
  qed
  ultimately show ?thesis by (auto simp: codec_ok_def demo_codec_def list_all_iff)
qed

definition demo_ring :: "bytes \<Rightarrow> bytes option \<Rightarrow> key_ring" where
  "demo_ring a p = \<lparr>active_key = a, previous_key = p\<rparr>"

theorem signed_delivery_verifies_witness:
  "\<exists>sig. signatures demo_codec (\<lambda>k m. m @ k) (demo_ring [1] (Some [2])) [65] 1000 [7] = Inr sig \<and>
     verify demo_codec (\<lambda>k m. m @ k) (demo_ring [2] None) (delivery_headers [65] 1000 sig) [7] (1200 * 1000000000)
       = Inr \<lparr>vm_message_id = [65], vm_timestamp = 1000\<rparr>"
proof -
  obtain sig where sig: "signatures demo_codec (\<lambda>k m. m @ k) (demo_ring [1] (Some [2])) [65] 1000 [7] = Inr sig"
    by (simp add: signatures_def ensure_body_size_def ensure_message_id_def MAX_BODY_BYTES_def
        MAX_MESSAGE_ID_BYTES_def Let_def)
  have "verify demo_codec (\<lambda>k m. m @ k) (demo_ring [2] None) (delivery_headers [65] 1000 sig) [7] (1200 * 1000000000)
      = Inr \<lparr>vm_message_id = [65], vm_timestamp = 1000\<rparr>"
    by (rule signed_delivery_verifies[OF demo_codec_ok sig, of "[2]"])
      (simp_all add: ring_keys_def demo_ring_def i64_range_def system_seconds_def)
  with sig show ?thesis by blast
qed

text \<open>
  The exactness theorem at a concrete delivery: it is refused a second too late, whatever its
  signature says.
\<close>

theorem verify_exact_witness:
  "verify demo_codec (\<lambda>k m. m @ k) (demo_ring [2] None) (delivery_headers [65] 1000 [1]) [7] (1301 * 1000000000) \<noteq>
     Inr \<lparr>vm_message_id = [65], vm_timestamp = 1000\<rparr>"
  using verify_exact[of demo_codec "\<lambda>k m. m @ k" "demo_ring [2] None" "delivery_headers [65] 1000 [1]" "[7]"
      "1301 * 1000000000" "\<lparr>vm_message_id = [65], vm_timestamp = 1000\<rparr>"]
  by (simp add: evidence_def system_seconds_def)

end
