(* ===== verification/WebhookInbound.thy ===== *)
theory WebhookInbound
  imports WebhookProtocol Postgres JobAttempt
begin

text \<open>
  \<open>crates/infra-webhooks/src/inbound.rs\<close>: admission of verified deliveries and their processing. One
  transaction retains the receipt and enqueues the processing job; another one runs the consumer and
  completes the job under its claim. Both run on the transaction boundary of \<open>Postgres\<close>; the data is
  the application's own data, the receipts and the job queue of \<open>JobTable\<close>.

  The verifier of an endpoint, the JSON encoding of the retained payload and the consumer are
  parameters: the consumer is any tree of statements.
\<close>

subsection \<open>Data and statements\<close>

type_synonym receipts = "string \<times> bytes \<rightharpoonup> micros"
type_synonym 'u hook_data = "'u \<times> receipts \<times> queue"

datatype 'x hook_row = ReturnedRow | AffectedRows nat | ComparedRow bool | UserRow 'x

type_synonym 'd stmt_fault = "(sqlx_error \<times> 'd session) option"

definition with_fault :: "'d stmt_fault \<Rightarrow> ('d, 'a) statement \<Rightarrow> ('d, 'a) statement" where
  "with_fault fault st = (case fault of None \<Rightarrow> st | Some x \<Rightarrow> (\<lambda>d. ([], Inl x)))"

text \<open>A constraint the server refuses aborts the transaction.\<close>

definition constraint_error :: "db_error \<Rightarrow> sqlx_error" where
  "constraint_error e =
     Database (Some (case e of CheckViolation \<Rightarrow> ''23514'' | LiveKeyViolation \<Rightarrow> ''23505'' | PrimaryKeyViolation \<Rightarrow> ''23505''))"

definition insert_receipt :: "micros \<Rightarrow> string \<Rightarrow> bytes \<Rightarrow> ('u hook_data, 'x hook_row) statement" where
  "insert_receipt now ep mid = (\<lambda>(u, rc, q).
     if rc (ep, mid) \<noteq> None then ([], Inr (u, rc, q))
     else ([ReturnedRow], Inr (u, rc((ep, mid) \<mapsto> now), q)))"

definition insert_job_statement :: "job_row \<Rightarrow> ('u hook_data, 'x hook_row) statement" where
  "insert_job_statement r = (\<lambda>(u, rc, q).
     case insert_job r q of
       Inl e \<Rightarrow> ([], Inl (constraint_error e, Aborted))
     | Inr (q', Duplicate) \<Rightarrow> ([], Inr (u, rc, q'))
     | Inr (q', Created _) \<Rightarrow> ([ReturnedRow], Inr (u, rc, q')))"

definition complete_statement :: "micros \<Rightarrow> job_id \<Rightarrow> nat \<Rightarrow> ('u hook_data, 'x hook_row) statement" where
  "complete_statement now jid gen = (\<lambda>(u, rc, q).
     case complete now jid gen q of
       Inl e \<Rightarrow> ([], Inl (constraint_error e, Aborted))
     | Inr (q', n) \<Rightarrow> ([AffectedRows n], Inr (u, rc, q')))"

subsection \<open>Enqueue on the caller's transaction\<close>

datatype enqueue_failure = EnqRefused enqueue_error | EnqDatabase sqlx_error

record 'd enqueue_env =
  ee_now :: micros
  ee_instant :: instant
  ee_job_id :: job_id
  ee_trace :: "string option \<times> string option"
  ee_wake_log :: wake_log
  ee_insert_fault :: "'d stmt_fault"
  ee_notify_fault :: "'d stmt_fault"

text \<open>\<open>fetch_optional\<close> and \<open>execute\<close> of the two statements of \<open>enqueue\<close>, then the rest of the work.\<close>

definition enqueue_work ::
  "(string \<Rightarrow> bool) \<Rightarrow> (string \<Rightarrow> string) \<Rightarrow> 'u hook_data enqueue_env \<Rightarrow> string \<Rightarrow> serialization \<Rightarrow> enqueue_options
   \<Rightarrow> (enqueue_failure + enqueued \<Rightarrow> ('u hook_data, 'x hook_row, 't, 'e) work)
   \<Rightarrow> ('u hook_data, 'x hook_row, 't, 'e) work" where
  "enqueue_work is_utf8 jsonb env kind ser opts rest =
     (case prepare is_utf8 kind ser opts of
        Inl e \<Rightarrow> rest (Inl (EnqRefused e))
      | Inr p \<Rightarrow>
          FetchOptional
            (with_fault (ee_insert_fault env) (insert_job_statement
               (new_row jsonb (ee_now env) (ee_job_id env) kind p (fst (ee_trace env)) (snd (ee_trace env)))))
            (\<lambda>r. case r of
               Inl e \<Rightarrow> rest (Inl (EnqDatabase e))
             | Inr None \<Rightarrow> rest (Inr Duplicate)
             | Inr (Some _) \<Rightarrow>
                 if prep_delay_micros p = 0 \<and> fst (wake_due (ee_wake_log env) kind (ee_instant env))
                 then FetchMany (with_fault (ee_notify_fault env) (\<lambda>d. ([AffectedRows 1], Inr d))) 2 (\<lambda>xs.
                        case collect_results (map the (filter (\<lambda>x. x \<noteq> None) xs)) of
                          Inl e \<Rightarrow> rest (Inl (EnqDatabase e))
                        | Inr _ \<Rightarrow> rest (Inr (Created (ee_job_id env))))
                 else rest (Inr (Created (ee_job_id env)))))"

subsection \<open>Admission\<close>

definition HOOK_READ_COMMITTED :: tx_options where
  "HOOK_READ_COMMITTED = \<lparr>isolation = ReadCommitted, read_only = False\<rparr>"

datatype receipt_outcome = Accepted | DuplicateReceipt

datatype receive_error = UnknownEndpoint | RejectedDelivery string | ReceiptUnavailable

datatype receipt_failure = RfQuery sqlx_error | RfEnqueue enqueue_failure | RfTransaction tx_error | RfIntegrity

definition receipt_driver :: "receipt_failure \<Rightarrow> sqlx_error option" where
  "receipt_driver f =
     (case f of
        RfQuery e \<Rightarrow> Some e
      | RfEnqueue (EnqDatabase e) \<Rightarrow> Some e
      | RfEnqueue (EnqRefused _) \<Rightarrow> None
      | RfTransaction (TxAcquire e) \<Rightarrow> Some e
      | RfTransaction (TxBegin e) \<Rightarrow> Some e
      | RfTransaction (CommitFailed e) \<Rightarrow> Some e
      | RfTransaction (CommitUnknown e) \<Rightarrow> Some e
      | RfIntegrity \<Rightarrow> None)"

record incoming =
  in_version :: nat
  in_endpoint :: string
  in_message_id :: bytes
  in_content_type :: "bytes option"
  in_body :: bytes

definition incoming_version :: nat where "incoming_version = 1"
definition INCOMING_KIND :: string where "INCOMING_KIND = ''webhooks.process''"

definition incoming_new :: "string \<Rightarrow> bytes \<Rightarrow> bytes option \<Rightarrow> bytes \<Rightarrow> incoming" where
  "incoming_new ep mid ct bdy =
     \<lparr>in_version = incoming_version, in_endpoint = ep, in_message_id = mid, in_content_type = ct, in_body = bdy\<rparr>"

record 'd receive_env =
  re_now :: micros
  re_fault :: "'d stmt_fault"
  re_enqueue :: "'d enqueue_env"

record hook_lib =
  hook_is_utf8 :: "string \<Rightarrow> bool"
  hook_jsonb :: "string \<Rightarrow> string"
  hook_serialize :: "incoming \<Rightarrow> serialization"

definition default_options :: enqueue_options where
  "default_options = \<lparr>opt_delay = 0, opt_unique_key = None\<rparr>"

definition receive_work ::
  "hook_lib \<Rightarrow> 'u hook_data receive_env \<Rightarrow> incoming
   \<Rightarrow> ('u hook_data, 'x hook_row, receipt_outcome, receipt_failure) work" where
  "receive_work lib env inc =
     FetchOptional (with_fault (re_fault env) (insert_receipt (re_now env) (in_endpoint inc) (in_message_id inc)))
       (\<lambda>r. case r of
          Inl e \<Rightarrow> Return (Inl (RfQuery e))
        | Inr None \<Rightarrow> Return (Inr DuplicateReceipt)
        | Inr (Some _) \<Rightarrow>
            enqueue_work (hook_is_utf8 lib) (hook_jsonb lib) (re_enqueue env) INCOMING_KIND
              (hook_serialize lib inc) default_options
              (\<lambda>res. case res of
                 Inl e \<Rightarrow> Return (Inl (RfEnqueue e))
               | Inr Duplicate \<Rightarrow> Return (Inl RfIntegrity)
               | Inr (Created _) \<Rightarrow> Return (Inr Accepted)))"

text \<open>An endpoint's verifier with the headers, the body and the time: an identity or a rejection label.\<close>

type_synonym verifier = "(string \<times> bytes) list \<Rightarrow> bytes \<Rightarrow> int \<Rightarrow> string + bytes"

definition key_ring_verifier ::
  "b64_codec \<Rightarrow> (signing_key \<Rightarrow> bytes \<Rightarrow> bytes) \<Rightarrow> key_ring \<Rightarrow> verifier" where
  "key_ring_verifier codec mac ring hs bdy now =
     (case verify codec mac ring hs bdy now of
        Inl e \<Rightarrow> Inl (protocol_reason e)
      | Inr m \<Rightarrow> Inr (vm_message_id m))"

definition admitted_id :: "verifier \<Rightarrow> (string \<times> bytes) list \<Rightarrow> bytes \<Rightarrow> int \<Rightarrow> string + bytes" where
  "admitted_id v hs bdy now =
     bind_result (v hs bdy now) (\<lambda>mid.
       if mid = [] \<or> MAX_MESSAGE_ID_BYTES < length mid then Inl (protocol_reason InvalidMessageId) else Inr mid)"

definition receive ::
  "hook_lib \<Rightarrow> (string \<rightharpoonup> verifier) \<Rightarrow> 'u hook_data receive_env \<Rightarrow> tx_inputs \<Rightarrow> string
   \<Rightarrow> (string \<times> bytes) list \<Rightarrow> bytes \<Rightarrow> int \<Rightarrow> 'u hook_data
   \<Rightarrow> (receive_error + receipt_outcome) option \<times> 'u hook_data" where
  "receive lib endpoints env i ep hs bdy now d =
     (case endpoints ep of
        None \<Rightarrow> (Some (Inl UnknownEndpoint), d)
      | Some v \<Rightarrow>
          (case admitted_id v hs bdy now of
             Inl reason \<Rightarrow> (Some (Inl (RejectedDelivery reason)), d)
           | Inr mid \<Rightarrow>
               (let ct = (case get_all ''content-type'' hs of [] \<Rightarrow> None | x # _ \<Rightarrow> Some x);
                    e = transaction RfTransaction HOOK_READ_COMMITTED i d
                          (receive_work lib env (incoming_new ep mid ct bdy)
                             :: ('u hook_data, unit hook_row, receipt_outcome, receipt_failure) work)
                in (map_option (\<lambda>r. case r of Inl _ \<Rightarrow> Inl ReceiptUnavailable | Inr out \<Rightarrow> Inr out) (tx_answer e),
                    tx_data e))))"

subsection \<open>Consumers and processing\<close>

definition consumers_insert ::
  "string \<Rightarrow> 'c \<Rightarrow> (string \<rightharpoonup> 'c) \<Rightarrow> (string + unit) \<times> (string \<rightharpoonup> 'c)" where
  "consumers_insert ep c cs =
     (case cs ep of Some _ \<Rightarrow> (Inl ep, cs) | None \<Rightarrow> (Inr (), cs(ep \<mapsto> c)))"

fun consumers_require :: "(string \<rightharpoonup> 'c) \<Rightarrow> string list \<Rightarrow> string + unit" where
  "consumers_require cs [] = Inr ()"
| "consumers_require cs (ep # eps) = (if cs ep = None then Inl ep else consumers_require cs eps)"

datatype process_failure = PfConsumer job_error | PfCompletion | PfTransaction tx_error

record 'd process_env =
  pe_now :: micros
  pe_fault :: "'d stmt_fault"

text \<open>\<open>Job::complete_in_tx\<close> on the boundary: executed to its end, it has to affect one row.\<close>

definition completed_rows :: "(sqlx_error + 'x hook_row) option list \<Rightarrow> bool" where
  "completed_rows xs =
     (case collect_results (map the (filter (\<lambda>x. x \<noteq> None) xs)) of
        Inl _ \<Rightarrow> False
      | Inr rs \<Rightarrow> sum_list (map (\<lambda>r. case r of AffectedRows n \<Rightarrow> n | _ \<Rightarrow> 0) rs) = 1)"

definition process_work ::
  "'u hook_data process_env \<Rightarrow> job_id \<Rightarrow> nat \<Rightarrow> ('u hook_data, 'x hook_row, unit, job_error) work
   \<Rightarrow> ('u hook_data, 'x hook_row, unit, process_failure) work" where
  "process_work env jid gen consumer =
     bind_work consumer (\<lambda>r.
       case r of
         Inl e \<Rightarrow> Return (Inl (PfConsumer e))
       | Inr _ \<Rightarrow>
           FetchMany (with_fault (pe_fault env) (complete_statement (pe_now env) jid gen)) 2 (\<lambda>xs.
             Return (if completed_rows xs then Inr () else Inl PfCompletion)))"

definition process_failure_text :: "process_failure \<Rightarrow> ustr" where
  "process_failure_text f =
     (case f of
        PfConsumer _ \<Rightarrow> ascii ''inbound webhook consumer failed''
      | PfCompletion \<Rightarrow> ascii ''inbound webhook completion failed''
      | PfTransaction _ \<Rightarrow> ascii ''inbound webhook processing is unavailable'')"

definition process_answer :: "process_failure + unit \<Rightarrow> job_error + unit" where
  "process_answer r =
     (case r of
        Inr _ \<Rightarrow> Inr ()
      | Inl (PfConsumer err) \<Rightarrow> Inl err
      | Inl other \<Rightarrow> Inl (retryable (process_failure_text other)))"

text \<open>
  \<open>Processor::run\<close> for a claimed job: the handler's answer, \<^term>\<open>None\<close> when the worker dropped it, and
  the data kept. Errors other than the consumer's are retried.
\<close>

definition process ::
  "(string \<rightharpoonup> ('u hook_data, 'x hook_row, unit, job_error) work) \<Rightarrow> 'u hook_data process_env \<Rightarrow> tx_inputs
   \<Rightarrow> string \<Rightarrow> job_id \<Rightarrow> nat \<Rightarrow> 'u hook_data \<Rightarrow> (job_error + unit) option \<times> 'u hook_data" where
  "process consumers env i ep jid gen d =
     (case consumers ep of
        None \<Rightarrow> (Some (Inl (retryable (ascii ''inbound webhook consumer is unavailable''))), d)
      | Some consumer \<Rightarrow>
          (let e = transaction PfTransaction \<lparr>isolation = ServerDefault, read_only = False\<rparr> i d
                     (process_work env jid gen consumer)
           in (map_option process_answer (tx_answer e), tx_data e)))"

subsection \<open>What admission does\<close>

lemma with_fault_simps [simp]:
  "with_fault None st = st" "with_fault (Some x) st = (\<lambda>d. ([], Inl x))"
  by (simp_all add: with_fault_def)

text \<open>The row the admission of a delivery inserts.\<close>

definition receipt_job :: "hook_lib \<Rightarrow> 'd enqueue_env \<Rightarrow> incoming \<Rightarrow> job_row \<Rightarrow> bool" where
  "receipt_job lib env inc r \<longleftrightarrow>
     (\<exists>p. prepare (hook_is_utf8 lib) INCOMING_KIND (hook_serialize lib inc) default_options = Inr p \<and>
        r = new_row (hook_jsonb lib) (ee_now env) (ee_job_id env) INCOMING_KIND p
              (fst (ee_trace env)) (snd (ee_trace env)))"

lemma insert_job_Created:
  "insert_job r q = Inr (q', Created j) \<Longrightarrow> q' = q\<lparr>rows := rows q @ [r]\<rparr> \<and> j = j_id r"
  by (auto simp: insert_job_def bind_result_Inr install_Inr split: if_splits)

lemma enqueue_work_cases:
  assumes "run_work (enqueue_work is_utf8 jsonb env kind ser opts rest) \<lparr>session = Active (u, rc, q), not_aborted = True\<rparr> = (r, h)"
  obtains (failed) e h' where "run_work (rest (Inl e)) h' = (r, h)"
    | (present) p where "prepare is_utf8 kind ser opts = Inr p" "list_ex (live_holder kind (prep_unique_key p)) (rows q)"
        "run_work (rest (Inr Duplicate)) \<lparr>session = Active (u, rc, q), not_aborted = True\<rparr> = (r, h)"
    | (created) p where "prepare is_utf8 kind ser opts = Inr p"
        "run_work (rest (Inr (Created (ee_job_id env)))) \<lparr>session = Active (u, rc, q\<lparr>rows := rows q @
           [new_row jsonb (ee_now env) (ee_job_id env) kind p (fst (ee_trace env)) (snd (ee_trace env))]\<rparr>),
           not_aborted = True\<rparr> = (r, h)"
proof (cases "prepare is_utf8 kind ser opts")
  case (Inl e)
  with assms failed show thesis by (auto simp: enqueue_work_def)
next
  case (Inr p)
  let ?row = "new_row jsonb (ee_now env) (ee_job_id env) kind p (fst (ee_trace env)) (snd (ee_trace env))"
  note run = assms[unfolded enqueue_work_def Inr, simplified]
  show thesis
  proof (cases "ee_insert_fault env")
    case (Some x)
    with run failed show thesis by (cases x) auto
  next
    case ins: None
    show thesis
    proof (cases "insert_job ?row q")
      case (Inl e)
      with run ins failed show thesis by (auto simp: insert_job_statement_def)
    next
      case ok: (Inr qa)
      obtain q' a where qa: "qa = (q', a)" by fastforce
      show thesis
      proof (cases a)
        case Duplicate
        have "q' = q" "list_ex (live_holder kind (prep_unique_key p)) (rows q)"
          using ok qa Duplicate by (auto simp: insert_job_def bind_result_Inr new_row_def split: if_splits)
        with run ins ok qa Duplicate Inr present show thesis by (auto simp: insert_job_statement_def)
      next
        case (Created j)
        with ok qa have q': "q' = q\<lparr>rows := rows q @ [?row]\<rparr>" using insert_job_Created by blast
        show thesis
        proof (cases "prep_delay_micros p = 0 \<and> fst (wake_due (ee_wake_log env) kind (ee_instant env))")
          case False
          with run ins ok qa Created q' Inr created show thesis
            by (auto simp: insert_job_statement_def)
        next
          case True
          show thesis
          proof (cases "ee_notify_fault env")
            case None
            with True run ins ok qa Created q' Inr created show thesis
              by (auto simp: insert_job_statement_def fetch_many_def respond_def numeral_2_eq_2)
          next
            case (Some x)
            with True run ins ok qa Created failed show thesis
              by (cases x) (auto simp: insert_job_statement_def fetch_many_def respond_def numeral_2_eq_2)
          qed
        qed
      qed
    qed
  qed
qed

lemma receive_work_run:
  assumes "run_work (receive_work lib env inc :: ('u hook_data, 'x hook_row, receipt_outcome, receipt_failure) work)
      \<lparr>session = Active (u, rc, q), not_aborted = True\<rparr> = (r, h)"
  shows "(\<exists>e. r = Inl e) \<or>
    (r = Inr DuplicateReceipt \<and> rc (in_endpoint inc, in_message_id inc) \<noteq> None \<and> session h = Active (u, rc, q)) \<or>
    (r = Inr Accepted \<and> rc (in_endpoint inc, in_message_id inc) = None \<and>
       (\<exists>row. receipt_job lib (re_enqueue env) inc row \<and>
          session h = Active (u, rc((in_endpoint inc, in_message_id inc) \<mapsto> re_now env), q\<lparr>rows := rows q @ [row]\<rparr>)))"
proof (cases "re_fault env")
  case (Some x)
  with assms show ?thesis by (cases x) (auto simp: receive_work_def)
next
  case None
  show ?thesis
  proof (cases "rc (in_endpoint inc, in_message_id inc)")
    case (Some t)
    with assms None show ?thesis by (auto simp: receive_work_def insert_receipt_def)
  next
    case free: None
    let ?rest = "\<lambda>res. case res of Inl e \<Rightarrow> Return (Inl (RfEnqueue e)) | Inr Duplicate \<Rightarrow> Return (Inl RfIntegrity)
      | Inr (Created _) \<Rightarrow> (Return (Inr Accepted) :: ('u hook_data, 'x hook_row, receipt_outcome, receipt_failure) work)"
    have "run_work (enqueue_work (hook_is_utf8 lib) (hook_jsonb lib) (re_enqueue env) INCOMING_KIND
        (hook_serialize lib inc) default_options ?rest)
        \<lparr>session = Active (u, rc((in_endpoint inc, in_message_id inc) \<mapsto> re_now env), q), not_aborted = True\<rparr> = (r, h)"
      using assms None free by (simp add: receive_work_def insert_receipt_def)
    then show ?thesis
      by (cases rule: enqueue_work_cases) (use free in \<open>auto simp: receipt_job_def\<close>)
  qed
qed

text \<open>
  C11. A receipt and its job stand or fall together. \<open>Accepted\<close> means that the verifier admitted the
  delivery, that its identity was not retained before, and that the database keeps both the
  receipt and exactly one new pending processing job with the delivery's payload. \<open>Duplicate\<close> means
  that the identity was retained and nothing changed. A refusal changes nothing, and even when the
  commit's outcome is unknown the database keeps either both or neither; the sender, who is told
  that storage is unavailable, retries and meets the receipt.
\<close>

theorem receipt_with_job:
  assumes honest: "commit_codes_honest (commit_answer i)"
    and recv: "receive lib endpoints env i ep hs bdy now (u, rc, q) = (answer, d')"
  shows "(d' = (u, rc, q) \<or>
      (\<exists>v mid ct row. endpoints ep = Some v \<and> admitted_id v hs bdy now = Inr mid \<and> rc (ep, mid) = None \<and>
         receipt_job lib (re_enqueue env) (incoming_new ep mid ct bdy) row \<and>
         d' = (u, rc((ep, mid) \<mapsto> re_now env), q\<lparr>rows := rows q @ [row]\<rparr>))) \<and>
    (answer = Some (Inr Accepted) \<longrightarrow> d' \<noteq> (u, rc, q)) \<and>
    (answer = Some (Inr DuplicateReceipt) \<longrightarrow> d' = (u, rc, q) \<and>
      (\<exists>v mid. endpoints ep = Some v \<and> admitted_id v hs bdy now = Inr mid \<and> rc (ep, mid) \<noteq> None))"
proof (cases "\<exists>v mid. endpoints ep = Some v \<and> admitted_id v hs bdy now = Inr mid")
  case False
  with recv show ?thesis by (auto simp: receive_def split: option.splits sum.splits)
next
  case True
  then obtain v mid where v: "endpoints ep = Some v" "admitted_id v hs bdy now = Inr mid" by blast
  define ct where "ct = (case get_all ''content-type'' hs of [] \<Rightarrow> None | x # _ \<Rightarrow> Some x)"
  let ?w = "receive_work lib env (incoming_new ep mid ct bdy)
    :: ('a hook_data, unit hook_row, receipt_outcome, receipt_failure) work"
  let ?tx = "transaction RfTransaction HOOK_READ_COMMITTED i (u, rc, q) ?w"
  have ans: "answer = map_option (\<lambda>r. case r of Inl _ \<Rightarrow> Inl ReceiptUnavailable | Inr out \<Rightarrow> Inr out) (tx_answer ?tx)"
    and d': "d' = tx_data ?tx"
    using recv v by (auto simp: receive_def Let_def ct_def)
  obtain r h where run: "run_work ?w \<lparr>session = Active (u, rc, q), not_aborted = True\<rparr> = (r, h)" by fastforce
  have keep: "incoming_new ep mid ct bdy = inc \<Longrightarrow> in_endpoint inc = ep \<and> in_message_id inc = mid" for inc
    by (auto simp: incoming_new_def)
  note work = receive_work_run[OF run, unfolded keep[OF refl, THEN conjunct1] keep[OF refl, THEN conjunct2]]
  have ok: "r = Inr out \<and> session h = Active d'" if "answer = Some (Inr out)" for out
  proof -
    from that ans obtain x where x: "tx_answer ?tx = Some x"
      "(case x of Inl _ \<Rightarrow> Inl ReceiptUnavailable | Inr out \<Rightarrow> Inr out) = Inr out" by auto
    then have "tx_answer ?tx = Some (Inr out)" by (cases x) simp_all
    from writing_tx.success[OF honest this[unfolded HOOK_READ_COMMITTED_def] run] d' show ?thesis
      by (simp add: HOOK_READ_COMMITTED_def)
  qed
  have "d' \<in> possible_ends (u, rc, q) (r, session h)"
    unfolding d' HOOK_READ_COMMITTED_def using honest run by (rule writing_tx.ends)
  then have "d' = (u, rc, q) \<or> (is_ok r \<and> session h = Active d')" by (auto simp: possible_ends_def)
  moreover have "(u, rc((ep, mid) \<mapsto> t), q') \<noteq> (u, rc, q)" if "rc (ep, mid) = None" for t q'
    using that by (metis fun_upd_same option.distinct(1) prod.inject)
  ultimately show ?thesis using work ok v by fastforce
qed

text \<open>A concrete endpoint whose verifier accepts the identity 1, on an empty database.\<close>

definition demo_hook_lib :: hook_lib where
  "demo_hook_lib = \<lparr>hook_is_utf8 = (\<lambda>_. True), hook_jsonb = id,
     hook_serialize = (\<lambda>_. \<lparr>chunks = [''7''], serialize_fails = False\<rparr>)\<rparr>"

definition demo_receive_env :: "nat hook_data receive_env" where
  "demo_receive_env = \<lparr>re_now = 100, re_fault = None, re_enqueue = \<lparr>ee_now = 100, ee_instant = 5,
     ee_job_id = JobId 1, ee_trace = (None, None), ee_wake_log = [(INCOMING_KIND, 5)], ee_insert_fault = None,
     ee_notify_fault = None\<rparr>\<rparr>"

definition demo_hook_inputs :: tx_inputs where
  "demo_hook_inputs = \<lparr>acquired_conn = Inr (), begun = Inr (), check_lost = None,
     commit_answer = Acknowledged, dropped = NotDropped\<rparr>"

definition demo_prepared_hook :: prepared where
  "demo_prepared_hook = \<lparr>prep_payload = ''7'', prep_unique_key = None, prep_delay_micros = 0\<rparr>"

lemma demo_hook_prepare:
  "prepare (\<lambda>_. True) INCOMING_KIND \<lparr>chunks = [''7''], serialize_fails = False\<rparr> default_options
     = Inr demo_prepared_hook"
proof -
  have "is_valid_kind_name INCOMING_KIND" by code_simp
  then show ?thesis
    by (simp add: prepare_def default_options_def checked_delay_micros_def MAX_DELAY_def time_units i64_max_def
        as_micros_def to_writer_def writer_default_def writer_write_def usize_max_def MAX_PAYLOAD_BYTES_def
        demo_prepared_hook_def u64_max_def Let_def)
qed

theorem receipt_with_job_witness:
  "fst (receive demo_hook_lib [''ep'' \<mapsto> (\<lambda>_ _ _. Inr [1])] demo_receive_env demo_hook_inputs ''ep'' [] [9] 0
      (3, Map.empty, empty_queue)) = Some (Inr Accepted) \<and>
   snd (receive demo_hook_lib [''ep'' \<mapsto> (\<lambda>_ _ _. Inr [1])] demo_receive_env demo_hook_inputs ''ep'' [] [9] 0
      (3, Map.empty, empty_queue)) \<noteq> (3, Map.empty, empty_queue)"
proof -
  let ?r = "receive demo_hook_lib [''ep'' \<mapsto> (\<lambda>_ _ _. Inr [1])] demo_receive_env demo_hook_inputs ''ep'' [] [9] 0
      (3, Map.empty, empty_queue)"
  let ?row = "new_row id 100 (JobId 1) INCOMING_KIND demo_prepared_hook None None"
  have ins: "insert_job ?row empty_queue = Inr (empty_queue\<lparr>rows := [?row]\<rparr>, Created (JobId 1))"
    by (simp add: insert_job_def empty_queue_def install_def row_ok_def new_row_def live_keys_def
        demo_prepared_hook_def)
  have not_due: "fst (wake_due [(INCOMING_KIND, 5)] INCOMING_KIND 5) = False"
    by (simp add: duration_since_def WAKE_INTERVAL_def time_units)
  have "run_work (receive_work demo_hook_lib demo_receive_env (incoming_new ''ep'' [1] None [9])
        :: (nat hook_data, unit hook_row, receipt_outcome, receipt_failure) work)
        \<lparr>session = Active (3, Map.empty, empty_queue), not_aborted = True\<rparr> =
      (Inr Accepted, \<lparr>session = Active (3, [(''ep'', [1]) \<mapsto> 100], empty_queue\<lparr>rows := [?row]\<rparr>), not_aborted = True\<rparr>)"
    using ins not_due
    by (simp add: receive_work_def demo_receive_env_def insert_receipt_def incoming_new_def enqueue_work_def
        demo_hook_lib_def demo_hook_prepare insert_job_statement_def)
  then have acc: "fst ?r = Some (Inr Accepted)"
    by (simp add: receive_def admitted_id_def MAX_MESSAGE_ID_BYTES_def transaction_def demo_hook_inputs_def
        end_phase_def commit_phase_def commit_session_def get_all_def)
  have h: "commit_codes_honest (commit_answer demo_hook_inputs)"
    by (simp add: demo_hook_inputs_def commit_codes_honest_def)
  note all = receipt_with_job[OF h surjective_pairing[of ?r]]
  from all[THEN conjunct2, THEN conjunct1] acc show ?thesis by (intro conjI) blast+
qed

subsection \<open>What processing does\<close>

lemma completed_rows_run:
  assumes "fetch_many (with_fault fault (complete_statement now jid gen)) 2 h = (xs, h')" "completed_rows xs"
  shows "\<exists>u rc q q'. session h = Active (u, rc, q) \<and> complete now jid gen q = Inr (q', 1) \<and>
    session h' = Active (u, rc, q')"
proof (cases "session h")
  case (Active d)
  obtain u rc q where d: "d = (u, rc, q)" by (metis prod_cases3)
  note unfold = fetch_many_def respond_def numeral_2_eq_2 completed_rows_def Active d
  show ?thesis
  proof (cases fault)
    case (Some x)
    with assms show ?thesis by (cases x) (auto simp: unfold)
  next
    case None
    with assms show ?thesis
      by (cases "complete now jid gen q") (auto simp: unfold complete_statement_def split: prod.splits)
  qed
qed (use assms in \<open>auto simp: fetch_many_def respond_def numeral_2_eq_2 completed_rows_def\<close>)

lemma process_work_run:
  fixes consumer :: "('u hook_data, 'x hook_row, unit, job_error) work"
  assumes "run_work consumer h0 = (cr, ch)" "run_work (process_work env jid gen consumer) h0 = (r, h)"
  shows "(\<exists>e. r = Inl (PfConsumer e) \<and> cr = Inl e) \<or> r = Inl PfCompletion \<or>
    (r = Inr () \<and> cr = Inr () \<and> (\<exists>u rc q q'. session ch = Active (u, rc, q) \<and>
       complete (pe_now env) jid gen q = Inr (q', 1) \<and> session h = Active (u, rc, q')))"
proof (cases cr)
  case (Inl e)
  with assms show ?thesis by (simp add: process_work_def)
next
  case (Inr x)
  obtain xs :: "(sqlx_error + 'x hook_row) option list" and h'
    where f: "fetch_many (with_fault (pe_fault env) (complete_statement (pe_now env) jid gen)) 2 ch = (xs, h')"
    by fastforce
  with assms Inr have r: "r = (if completed_rows xs then Inr () else Inl PfCompletion)" "h = h'"
    by (simp_all add: process_work_def)
  show ?thesis
  proof (cases "completed_rows xs")
    case True
    from completed_rows_run[OF f True] r True Inr show ?thesis by simp
  next
    case False
    with r show ?thesis by simp
  qed
qed

text \<open>
  C12. A consumer's effects and the completion of its job are one. Whatever the consumer does in its
  transaction, the database keeps either nothing of it, or its data together with the completion of
  exactly this claim of the job; the handler answers success only in the second case. So a redelivered
  or stale attempt whose claim is gone leaves no effect, and a failed one is retried on the old
  data. Only a transaction failure may hide a completed attempt.
\<close>

theorem processing_with_completion:
  fixes consumer :: "('u hook_data, 'x hook_row, unit, job_error) work"
  assumes honest: "commit_codes_honest (commit_answer i)"
    and consumer: "consumers ep = Some consumer" "run_work consumer \<lparr>session = Active d, not_aborted = True\<rparr> = (cr, ch)"
    and proc: "process consumers env i ep jid gen d = (answer, d')"
  shows "(d' = d \<or> (cr = Inr () \<and> (\<exists>u rc q q'. session ch = Active (u, rc, q) \<and>
        complete (pe_now env) jid gen q = Inr (q', 1) \<and> d' = (u, rc, q')))) \<and>
    (answer = Some (Inr ()) \<longrightarrow> cr = Inr () \<and> (\<exists>u rc q q'. session ch = Active (u, rc, q) \<and>
        complete (pe_now env) jid gen q = Inr (q', 1) \<and> d' = (u, rc, q'))) \<and>
    (\<forall>err. answer = Some (Inl err) \<longrightarrow> d' = d \<or> err = retryable (ascii ''inbound webhook processing is unavailable''))"
proof -
  let ?w = "process_work env jid gen consumer"
  let ?tx = "transaction PfTransaction \<lparr>isolation = ServerDefault, read_only = False\<rparr> i d ?w"
  have ans: "answer = map_option process_answer (tx_answer ?tx)" and d': "d' = tx_data ?tx"
    using proc consumer(1) by (simp_all add: process_def Let_def)
  obtain r h where run: "run_work ?w \<lparr>session = Active d, not_aborted = True\<rparr> = (r, h)" by fastforce
  note work = process_work_run[OF consumer(2) run]
  have done_ok: "r = Inr () \<and> session h = Active d'" if "answer = Some (Inr ())"
  proof -
    from that ans obtain x where x: "tx_answer ?tx = Some x" "process_answer x = Inr ()" by auto
    then have "tx_answer ?tx = Some (Inr ())" by (cases x) (auto simp: process_answer_def split: process_failure.splits)
    from writing_tx.success[OF honest this run] show ?thesis by (simp add: d')
  qed
  have failed: "d' = d \<or> err = retryable (ascii ''inbound webhook processing is unavailable'')"
    if "answer = Some (Inl err)" for err
  proof -
    from that ans obtain x where x: "tx_answer ?tx = Some x" "process_answer x = Inl err" by auto
    then obtain f where f: "tx_answer ?tx = Some (Inl f)" "x = Inl f"
      by (cases x) (auto simp: process_answer_def)
    from honest f(1) run show ?thesis
      by (cases rule: writing_tx.error) (use x(2) f(2) d' in \<open>auto simp: process_answer_def process_failure_text_def\<close>)
  qed
  have "d' \<in> possible_ends d (r, session h)"
    unfolding d' using honest run by (rule writing_tx.ends)
  then have "d' = d \<or> (is_ok r \<and> session h = Active d')" by (auto simp: possible_ends_def)
  then show ?thesis using work done_ok failed by fastforce
qed

text \<open>A consumer that adds one to the data, for a job whose claim is gone.\<close>

definition demo_consumer :: "(nat hook_data, unit hook_row, unit, job_error) work" where
  "demo_consumer = FetchOptional (\<lambda>(u, rc, q). ([UserRow ()], Inr (u + 1, rc, q))) (\<lambda>_. Return (Inr ()))"

theorem processing_with_completion_witness:
  "snd (process [''ep'' \<mapsto> demo_consumer] \<lparr>pe_now = 9, pe_fault = None\<rparr> demo_hook_inputs ''ep'' (JobId 1) 4
     (3, Map.empty, empty_queue)) = (3, Map.empty, empty_queue)"
proof -
  let ?p = "process [''ep'' \<mapsto> demo_consumer] \<lparr>pe_now = 9, pe_fault = None\<rparr> demo_hook_inputs ''ep'' (JobId 1) 4
     (3, Map.empty, empty_queue)"
  have h: "commit_codes_honest (commit_answer demo_hook_inputs)"
    by (simp add: demo_hook_inputs_def commit_codes_honest_def)
  have run: "run_work demo_consumer \<lparr>session = Active (3, Map.empty, empty_queue), not_aborted = True\<rparr> =
      (Inr (), \<lparr>session = Active (4, Map.empty, empty_queue), not_aborted = True\<rparr>)"
    by (simp add: demo_consumer_def)
  have stale: "complete 9 (JobId 1) 4 empty_queue \<noteq> Inr (q', 1)" for q'
    by (simp add: complete_def update_where_def empty_queue_def install_def live_keys_def)
  from processing_with_completion[OF h, of "[''ep'' \<mapsto> demo_consumer]" "''ep''" demo_consumer, OF _ run,
      of "\<lparr>pe_now = 9, pe_fault = None\<rparr>" "JobId 1" 4 "fst ?p" "snd ?p"] stale
  show ?thesis by auto
qed

end
