(* ===== verification/OutboundHttp.thy ===== *)
theory OutboundHttp
  imports OperationScope
begin

text \<open>
  The crate \<open>infra-outbound-http\<close>: a client bound to one HTTPS origin with finite exchange limits.
  \<open>policy.rs\<close> admits the limits, the origin and every request; \<open>lib.rs\<close> runs one buffered exchange
  within two operation scopes; \<open>observe.rs\<close> reports each attempt once.

  A parsed URL, a request URI and a response body are values of other packages: the model has what
  their accessors return. The transport is the environment: what each of its waits yields, with the
  clock reading and the cancellation state that the checks around the wait see.
\<close>

subsection \<open>Limits and origin\<close>

definition MAX_HEADER_COUNT :: nat where "MAX_HEADER_COUNT = 32768"
definition CONNECT_TIMEOUT_CAP :: duration where "CONNECT_TIMEOUT_CAP = from_secs 10"

record limits =
  operation_timeout :: duration
  response_header_count :: nat
  response_body_bytes :: nat

datatype build_error = InvalidConfiguration | TlsError

datatype 's http_error = InvalidTarget | TimedOut | ResponseBodyTooLarge | Transport 's

definition validate_limits :: "limits \<Rightarrow> build_error + unit" where
  "validate_limits l =
     (if operation_timeout l = 0 \<or> response_header_count l = 0 \<or>
         MAX_HEADER_COUNT < response_header_count l \<or> response_body_bytes l = 0
      then Inl InvalidConfiguration else Inr ())"

text \<open>What \<open>build_transport\<close> derives from the limits.\<close>

definition connect_timeout :: "limits \<Rightarrow> duration" where
  "connect_timeout l = min (operation_timeout l div 2) CONNECT_TIMEOUT_CAP"

record url =
  url_scheme :: string
  url_username :: string
  url_password :: "string option"
  url_host :: "string option"
  url_port :: "nat option"
  url_fragment :: "string option"

datatype scheme = HTTPS | HTTP | OtherScheme string

record target =
  t_scheme :: scheme
  t_host :: string
  t_port :: nat
  t_host_header :: bytes

text \<open>\<open>value_ok\<close> is \<open>HeaderValue::from_str\<close> accepting a text; \<open>url_port\<close> is \<open>port_or_known_default\<close>.\<close>

definition target_try_new :: "(bytes \<Rightarrow> bool) \<Rightarrow> url \<Rightarrow> build_error + target" where
  "target_try_new value_ok u =
     bind_result
       (if url_scheme u = ''https'' then Inr (HTTPS, 443)
        else if url_scheme u = ''http'' then Inr (HTTP, 80)
        else Inl InvalidConfiguration)
       (\<lambda>(sch, default_port).
          case (url_host u, url_port u) of
            (Some host, Some port) \<Rightarrow>
              (let v = bytes_of (if port = default_port then host else host @ '':'' @ decimal port)
               in if value_ok v
                  then Inr \<lparr>t_scheme = sch, t_host = host, t_port = port, t_host_header = v\<rparr>
                  else Inl InvalidConfiguration)
          | _ \<Rightarrow> Inl InvalidConfiguration)"

definition has_userinfo :: "url \<Rightarrow> bool" where
  "has_userinfo u \<longleftrightarrow> url_username u \<noteq> [] \<or> url_password u \<noteq> None"

definition admit_origin :: "(bytes \<Rightarrow> bool) \<Rightarrow> url \<Rightarrow> build_error + target" where
  "admit_origin value_ok u =
     (if url_scheme u \<noteq> ''https'' \<or> has_userinfo u then Inl InvalidConfiguration
      else target_try_new value_ok u)"

record client =
  cl_target :: target
  cl_limits :: limits
  propagate_trace_context :: bool

text \<open>\<open>Client::try_new\<close>; \<open>tls\<close> is whether the process-wide TLS configuration could be built.\<close>

definition client_try_new :: "(bytes \<Rightarrow> bool) \<Rightarrow> bool \<Rightarrow> url \<Rightarrow> limits \<Rightarrow> build_error + client" where
  "client_try_new value_ok tls u l =
     bind_result (validate_limits l) (\<lambda>_.
     bind_result (admit_origin value_ok u) (\<lambda>t.
       if tls then Inr \<lparr>cl_target = t, cl_limits = l, propagate_trace_context = False\<rparr> else Inl TlsError))"

subsection \<open>Requests\<close>

datatype http_version = HTTP_10 | HTTP_11 | HTTP_2

record authority =
  auth_text :: string
  auth_host :: string
  auth_port :: "nat option"

record request =
  rq_method :: string
  rq_scheme :: "scheme option"
  rq_authority :: "authority option"
  rq_version :: http_version
  rq_headers :: "(string \<times> bytes) list"
  rq_body :: bytes

definition ascii_lower :: "char \<Rightarrow> char" where
  "ascii_lower c = (let n = of_char c :: nat in if 65 \<le> n \<and> n \<le> 90 then char_of (n + 32) else c)"

definition eq_ignore_ascii_case :: "string \<Rightarrow> string \<Rightarrow> bool" where
  "eq_ignore_ascii_case a b \<longleftrightarrow> map ascii_lower a = map ascii_lower b"

definition default_port_of :: "scheme \<Rightarrow> nat" where
  "default_port_of s = (if s = HTTPS then 443 else 80)"

definition on_origin :: "target \<Rightarrow> request \<Rightarrow> bool" where
  "on_origin t r \<longleftrightarrow>
     get_all ''host'' (rq_headers r) = [] \<and> rq_scheme r = Some (t_scheme t) \<and>
     (case rq_authority r of
        None \<Rightarrow> False
      | Some a \<Rightarrow> CHR ''@'' \<notin> set (auth_text a) \<and> eq_ignore_ascii_case (auth_host a) (t_host t) \<and>
          (case auth_port a of None \<Rightarrow> default_port_of (t_scheme t) | Some p \<Rightarrow> p) = t_port t)"

definition frame_body :: "request \<Rightarrow> request" where
  "frame_body r =
     (let n = length (rq_body r);
          hs = remove_header ''transfer-encoding'' (rq_headers r)
      in r\<lparr>rq_headers :=
             (if 0 < n \<or> rq_method r \<in> {''POST'', ''PUT'', ''PATCH''}
              then insert_header ''content-length'' (bytes_of (decimal n)) hs
              else remove_header ''content-length'' hs)\<rparr>)"

definition or_insert_header :: "string \<Rightarrow> bytes \<Rightarrow> (string \<times> bytes) list \<Rightarrow> (string \<times> bytes) list" where
  "or_insert_header n v hs = (if get_all n hs = [] then hs @ [(n, v)] else hs)"

definition admit_request :: "target \<Rightarrow> request \<Rightarrow> 's http_error + request" where
  "admit_request t r =
     (if \<not> on_origin t r then Inl InvalidTarget
      else (let r' = frame_body (r\<lparr>rq_version := HTTP_11\<rparr>)
            in Inr (r'\<lparr>rq_headers := or_insert_header ''accept'' (bytes_of ''*/*'')
                        (insert_header ''host'' (t_host_header t) (rq_headers r'))\<rparr>)))"

subsection \<open>One exchange\<close>

text \<open>
  A reading is what a check sees: the clock and the cancelled tokens. Each wait ends with the select
  seeing a stopped scope first, or with what the transport yields.
\<close>

record 't reading =
  rd_now :: instant
  rd_cancelled :: "'t \<Rightarrow> bool"

definition check_contexts ::
  "'t operation_context \<Rightarrow> 't operation_context \<Rightarrow> 't reading \<Rightarrow> 's http_error + unit" where
  "check_contexts c rc rd =
     (case context_check (rd_cancelled rd) c (rd_now rd) of
        Inl _ \<Rightarrow> Inl TimedOut
      | Inr _ \<Rightarrow> (case context_check (rd_cancelled rd) rc (rd_now rd) of Inl _ \<Rightarrow> Inl TimedOut | Inr _ \<Rightarrow> Inr ()))"

datatype 's frame = DataFrame bytes | OtherFrame | LimitError | BodyError 's | EndOfBody

datatype 'a wait_end = ScopeStopped | Yielded 'a

record 'h head =
  hd_status :: nat
  hd_headers :: 'h
  hd_exact_size :: "nat option"

record 'h http_response =
  hr_status :: nat
  hr_headers :: 'h
  hr_body :: bytes

definition map_body_error :: "'s frame \<Rightarrow> 's http_error" where
  "map_body_error f = (case f of BodyError s \<Rightarrow> Transport s | _ \<Rightarrow> ResponseBodyTooLarge)"

record buffer =
  collected :: bytes
  capacity :: nat

text \<open>The growth policy of the collected body; \<open>reserve_exact\<close> asks for this capacity.\<close>

definition collect :: "nat \<Rightarrow> buffer \<Rightarrow> bytes \<Rightarrow> buffer" where
  "collect body_limit b data =
     (let required = length (collected b) + length data
      in \<lparr>collected = collected b @ data,
          capacity = (if required > capacity b then max required (min (capacity b * 2) body_limit) else capacity b)\<rparr>)"

text \<open>
  The frames with the reading of the check before each wait; \<^term>\<open>None\<close> when the events are over while
  the exchange still waits. The last component of an answer is the buffer.
\<close>

fun collect_body ::
  "'t operation_context \<Rightarrow> 't operation_context \<Rightarrow> nat \<Rightarrow> buffer
   \<Rightarrow> ('t reading \<times> 's frame wait_end) list \<Rightarrow> 't reading \<Rightarrow> ('s http_error + buffer) option" where
  "collect_body c rc body_limit b [] after_body = None"
| "collect_body c rc body_limit b ((rd, w) # es) after_body =
     (case check_contexts c rc rd of
        Inl e \<Rightarrow> Some (Inl e)
      | Inr _ \<Rightarrow>
          (case w of
             ScopeStopped \<Rightarrow> Some (Inl TimedOut)
           | Yielded EndOfBody \<Rightarrow>
               Some (case check_contexts c rc after_body of Inl e \<Rightarrow> Inl e | Inr _ \<Rightarrow> Inr b)
           | Yielded (DataFrame data) \<Rightarrow> collect_body c rc body_limit (collect body_limit b data) es after_body
           | Yielded OtherFrame \<Rightarrow> collect_body c rc body_limit b es after_body
           | Yielded f \<Rightarrow> Some (Inl (map_body_error f))))"

record ('t, 'h, 's) exchange_env =
  stopped_first :: bool
  before_send :: "'t reading"
  sent :: "('s + 'h head) wait_end"
  after_head :: "'t reading"
  frames :: "('t reading \<times> 's frame wait_end) list"
  after_body :: "'t reading"
  at_return :: "'t reading"

text \<open>\<open>stopped_first\<close>: the first poll of the select finds a stopped scope, and the exchange never runs.\<close>

definition dispatches ::
  "'t operation_context \<Rightarrow> 't operation_context \<Rightarrow> ('t, 'h, 's) exchange_env \<Rightarrow> bool" where
  "dispatches c rc env \<longleftrightarrow>
     \<not> stopped_first env \<and> check_contexts c rc (before_send env) = (Inr () :: unit http_error + unit)"

definition exchange ::
  "'t operation_context \<Rightarrow> 't operation_context \<Rightarrow> nat \<Rightarrow> ('t, 'h, 's) exchange_env
   \<Rightarrow> nat option \<times> ('s http_error + 'h http_response) option" where
  "exchange c rc body_limit env =
     (if stopped_first env then (None, Some (Inl TimedOut))
      else case check_contexts c rc (before_send env) of
        Inl e \<Rightarrow> (None, Some (Inl e))
      | Inr _ \<Rightarrow>
          (case sent env of
             ScopeStopped \<Rightarrow> (None, Some (Inl TimedOut))
           | Yielded (Inl s) \<Rightarrow> (None, Some (Inl (Transport s)))
           | Yielded (Inr h) \<Rightarrow>
               (Some (hd_status h),
                case check_contexts c rc (after_head env) of
                  Inl e \<Rightarrow> Some (Inl e)
                | Inr _ \<Rightarrow>
                    if (case hd_exact_size h of None \<Rightarrow> False | Some n \<Rightarrow> body_limit < n)
                    then Some (Inl ResponseBodyTooLarge)
                    else map_option
                           (\<lambda>r. case r of
                              Inl e \<Rightarrow> Inl e
                            | Inr b \<Rightarrow> Inr \<lparr>hr_status = hd_status h, hr_headers = hd_headers h, hr_body = collected b\<rparr>)
                           (collect_body c rc body_limit \<lparr>collected = [], capacity = 0\<rparr> (frames env) (after_body env)))))"

subsection \<open>Observation of an attempt\<close>

definition bounded_method :: "string \<Rightarrow> string" where
  "bounded_method meth =
     (if meth \<in> {''GET'', ''HEAD'', ''POST'', ''PUT'', ''DELETE'', ''CONNECT'', ''OPTIONS'', ''TRACE'', ''PATCH'', ''QUERY''}
      then meth else ''_OTHER'')"

definition span_name :: "string \<Rightarrow> string option \<Rightarrow> string" where
  "span_name meth template =
     (if meth = ''_OTHER'' then ''HTTP'' else meth) @
     (case template of None \<Rightarrow> [] | Some t \<Rightarrow> '' '' @ t)"

definition http_error_type :: "nat \<Rightarrow> string option" where
  "http_error_type status =
     (if 400 \<le> status \<and> status < 500 \<or> 500 \<le> status \<and> status < 600 \<or> 600 \<le> status
      then Some (decimal status) else None)"

record cause =
  is_tls :: bool
  is_connect :: bool
  is_parse :: bool

fun transport_error_class :: "string \<Rightarrow> cause list \<Rightarrow> string" where
  "transport_error_class class [] = class"
| "transport_error_class class (x # xs) =
     (if is_tls x then ''tls''
      else (let class1 = (if is_connect x then ''connect'' else class)
            in transport_error_class (if is_parse x then ''protocol'' else class1) xs))"

definition transport_error_type :: "cause list \<Rightarrow> string" where
  "transport_error_type causes = transport_error_class ''transport'' causes"

definition http_error_label :: "cause list http_error \<Rightarrow> string" where
  "http_error_label e =
     (case e of
        InvalidTarget \<Rightarrow> ''invalid_target''
      | TimedOut \<Rightarrow> ''timeout''
      | ResponseBodyTooLarge \<Rightarrow> ''response_body_too_large''
      | Transport s \<Rightarrow> transport_error_type s)"

record http_attempt =
  at_method :: string
  at_template :: "string option"
  at_server :: "string \<times> nat"
  at_status :: "nat option"
  at_finalized :: bool

definition attempt_start :: "string \<Rightarrow> string option \<Rightarrow> target \<Rightarrow> http_attempt" where
  "attempt_start meth template t =
     \<lparr>at_method = bounded_method meth, at_template = template, at_server = (t_host t, t_port t),
      at_status = None, at_finalized = False\<rparr>"

text \<open>The labels of the one histogram record of an attempt.\<close>

definition emit :: "http_attempt \<Rightarrow> string \<Rightarrow> string option \<Rightarrow> (string \<times> string) list" where
  "emit a outcome error_type =
     [(''http.request.method'', at_method a), (''server.address'', fst (at_server a)),
      (''server.port'', decimal (snd (at_server a))), (''outbound.outcome'', outcome)] @
     (case at_template a of None \<Rightarrow> [] | Some t \<Rightarrow> [(''url.template'', t)]) @
     (case (at_status a, outcome = ''response'', error_type) of
        (Some _, True, Some e) \<Rightarrow> [(''http.response.status_code'', e), (''error.type'', e)]
      | (Some s, _, e) \<Rightarrow> (''http.response.status_code'', decimal s) #
          (case e of None \<Rightarrow> [] | Some x \<Rightarrow> [(''error.type'', x)])
      | (None, _, e) \<Rightarrow> (case e of None \<Rightarrow> [] | Some x \<Rightarrow> [(''error.type'', x)]))"

definition attempt_finish ::
  "cause list http_error + 'r \<Rightarrow> http_attempt \<Rightarrow> http_attempt \<times> (string \<times> string) list list" where
  "attempt_finish r a =
     (if at_finalized a then (a, [])
      else (a\<lparr>at_finalized := True\<rparr>,
            [case r of
               Inr _ \<Rightarrow> emit a ''response'' (Option.bind (at_status a) http_error_type)
             | Inl e \<Rightarrow> emit a ''error'' (Some (http_error_label e))]))"

definition attempt_drop :: "http_attempt \<Rightarrow> (string \<times> string) list list" where
  "attempt_drop a = (if at_finalized a then [] else [emit a ''cancelled'' None])"

subsection \<open>The whole operation\<close>

text \<open>
  \<open>execute_with_context\<close>: \<open>caller\<close> is the scope passed in, \<open>extension\<close> the scope carried by the
  request, \<open>inject\<close> the text-map propagator. The answer has the result, \<^term>\<open>None\<close> when the caller
  dropped the exchange, the request handed to the transport, if one was, and the records emitted.
\<close>

record 'a executed =
  ex_result :: 'a
  ex_dispatched :: "request option"
  ex_emitted :: "(string \<times> string) list list"

definition execute_with_context ::
  "('t \<Rightarrow> 't) \<Rightarrow> 't \<Rightarrow> ((string \<times> bytes) list \<Rightarrow> (string \<times> bytes) list) \<Rightarrow> client
   \<Rightarrow> 't operation_context \<Rightarrow> 't operation_context option \<Rightarrow> string option \<Rightarrow> 't reading
   \<Rightarrow> ('t, 'h, cause list) exchange_env \<Rightarrow> request
   \<Rightarrow> (cause list http_error + 'h http_response) option executed" where
  "execute_with_context child_token fresh inject cl caller extension template entry env r =
     (let c = child child_token (rd_now entry) caller (operation_timeout (cl_limits cl));
          rc = (case extension of None \<Rightarrow> unbounded fresh | Some x \<Rightarrow> x)
      in case bind_result (check_contexts c rc entry) (\<lambda>_. admit_request (cl_target cl) r) of
           Inl e \<Rightarrow> \<lparr>ex_result = Some (Inl e), ex_dispatched = None, ex_emitted = []\<rparr>
         | Inr admitted \<Rightarrow>
             (let a = attempt_start (rq_method admitted) template (cl_target cl);
                  out = (if propagate_trace_context cl
                         then admitted\<lparr>rq_headers := inject (rq_headers admitted)\<rparr> else admitted);
                  (status, res) = exchange c rc (response_body_bytes (cl_limits cl)) env;
                  a = a\<lparr>at_status := status\<rparr>;
                  went = (if dispatches c rc env then Some out else None)
              in case res of
                   None \<Rightarrow> \<lparr>ex_result = None, ex_dispatched = went, ex_emitted = attempt_drop a\<rparr>
                 | Some rs \<Rightarrow>
                     (let final = (case rs of
                                     Inl e \<Rightarrow> Inl e
                                   | Inr x \<Rightarrow> (case check_contexts c rc (at_return env) of
                                                Inl e \<Rightarrow> Inl e | Inr _ \<Rightarrow> Inr x));
                          (a', recorded) = attempt_finish final a
                      in \<lparr>ex_result = Some final, ex_dispatched = went,
                          ex_emitted = recorded @ attempt_drop a'\<rparr>)))"

subsection \<open>Admitted requests\<close>

lemma get_all_insert_header [simp]:
  "get_all n (insert_header m v hs) = (if n = m then [v] else get_all n hs)"
  by (auto simp: insert_header_def get_all_removed) (auto simp: get_all_def remove_header_def)

lemma get_all_remove_header [simp]:
  "get_all n (remove_header m hs) = (if n = m then [] else get_all n hs)"
  by (auto simp: get_all_removed) (auto simp: get_all_def remove_header_def)

lemma get_all_or_insert [simp]:
  "get_all n (or_insert_header m v hs) = (if n = m \<and> get_all n hs = [] then [v] else get_all n hs)"
  by (auto simp: or_insert_header_def get_all_def)

text \<open>What the transport may rely on of a request.\<close>

definition framed :: "target \<Rightarrow> request \<Rightarrow> bool" where
  "framed t r \<longleftrightarrow>
     get_all ''host'' (rq_headers r) = [t_host_header t] \<and> rq_version r = HTTP_11 \<and>
     get_all ''transfer-encoding'' (rq_headers r) = [] \<and>
     get_all ''content-length'' (rq_headers r) =
       (if rq_body r \<noteq> [] \<or> rq_method r \<in> {''POST'', ''PUT'', ''PATCH''}
        then [bytes_of (decimal (length (rq_body r)))] else []) \<and>
     get_all ''accept'' (rq_headers r) \<noteq> []"

lemma admit_request_keeps:
  assumes "admit_request t r = (Inr r' :: 's http_error + request)"
  shows "rq_body r' = rq_body r"
    and "n \<notin> {''host'', ''transfer-encoding'', ''content-length'', ''accept''} \<Longrightarrow>
      get_all n (rq_headers r') = get_all n (rq_headers r)"
  using assms by (auto simp: admit_request_def Let_def frame_body_def split: if_splits)

lemma admit_request_framed:
  "admit_request t r = (Inr r' :: 's http_error + request) \<Longrightarrow> on_origin t r \<and> framed t r'"
  by (auto simp: admit_request_def Let_def framed_def frame_body_def split: if_splits)

text \<open>
  Only requests on the configured origin are admitted, and what is admitted is framed by the
  client: exactly one \<open>Host\<close>, the origin's own; no \<open>Transfer-Encoding\<close>; a \<open>Content-Length\<close> that is the
  length of the body whatever the caller wrote, present exactly for a body or a method that expects
  one; HTTP/1.1. Nothing else of the request changes.
\<close>

lemma admitted_request_framed:
  assumes "admit_request t r = (Inr r' :: 's http_error + request)"
  shows "on_origin t r \<and> framed t r' \<and>
    rq_method r' = rq_method r \<and> rq_scheme r' = rq_scheme r \<and> rq_authority r' = rq_authority r \<and>
    rq_body r' = rq_body r \<and>
    (\<forall>n. n \<notin> {''host'', ''transfer-encoding'', ''content-length'', ''accept''} \<longrightarrow>
      get_all n (rq_headers r') = get_all n (rq_headers r)) \<and>
    (get_all ''accept'' (rq_headers r) \<noteq> [] \<longrightarrow>
      get_all ''accept'' (rq_headers r') = get_all ''accept'' (rq_headers r))"
proof -
  have on: "on_origin t r" and r': "r' = (let r1 = frame_body (r\<lparr>rq_version := HTTP_11\<rparr>)
      in r1\<lparr>rq_headers := or_insert_header ''accept'' (bytes_of ''*/*'')
                        (insert_header ''host'' (t_host_header t) (rq_headers r1))\<rparr>)"
    using assms by (auto simp: admit_request_def Let_def split: if_splits)
  show ?thesis using admit_request_framed[OF assms] unfolding r' by (simp add: frame_body_def Let_def)
qed

subsection \<open>Bounded exchanges\<close>

text \<open>What \<open>Limited\<close> documents: the data it yields stays within its limit.\<close>

definition frame_data :: "'s frame wait_end \<Rightarrow> bytes" where
  "frame_data w = (case w of Yielded (DataFrame d) \<Rightarrow> d | _ \<Rightarrow> [])"

definition limited_ok :: "nat \<Rightarrow> ('t reading \<times> 's frame wait_end) list \<Rightarrow> bool" where
  "limited_ok n es \<longleftrightarrow> sum_list (map (\<lambda>e. length (frame_data (snd e))) es) \<le> n"

text \<open>The data of the frames before the end of the body.\<close>

fun body_until_end :: "('t reading \<times> 's frame wait_end) list \<Rightarrow> bytes" where
  "body_until_end [] = []"
| "body_until_end ((rd, w) # es) = (if w = Yielded EndOfBody then [] else frame_data w @ body_until_end es)"

definition buffer_ok :: "nat \<Rightarrow> buffer \<Rightarrow> bool" where
  "buffer_ok n b \<longleftrightarrow> length (collected b) \<le> capacity b \<and> capacity b \<le> n"

lemma collect_ok:
  assumes "buffer_ok n b" "length (collected b) + length d \<le> n"
  shows "buffer_ok n (collect n b d)"
  using assms by (auto simp: buffer_ok_def collect_def Let_def)

lemma collect_body_ok:
  fixes es :: "('t reading \<times> 's frame wait_end) list"
  assumes "collect_body c rc n b es fin = Some (Inr b')" "buffer_ok n b"
    and "length (collected b) + sum_list (map (\<lambda>e. length (frame_data (snd e))) es) \<le> n"
  shows "collected b' = collected b @ body_until_end es \<and> buffer_ok n b' \<and>
    check_contexts c rc fin = (Inr () :: 's http_error + unit)"
  using assms
proof (induction c rc n b es fin rule: collect_body.induct)
  case (2 c rc n b rd w es fin)
  have step: "buffer_ok n (collect n b d)" if "w = Yielded (DataFrame d)" for d
    using 2(4,5) that by (intro collect_ok) (auto simp: frame_data_def)
  have go: "check_contexts c rc rd = (Inr () :: 's http_error + unit)"
    using 2(3) by (auto split: sum.splits)
  show ?case
  proof (cases "w = Yielded EndOfBody")
    case True
    with 2(3,4) go show ?thesis
      by (cases "check_contexts c rc fin :: 's http_error + unit") (auto simp: frame_data_def)
  next
    case False
    with 2 go step show ?thesis
      by (auto simp: frame_data_def collect_def Let_def split: wait_end.splits frame.splits)
  qed
qed simp

lemma check_contexts_ok:
  "check_contexts c rc rd = (Inr () :: 's http_error + unit) \<longleftrightarrow>
     stopped (rd_cancelled rd) c (rd_now rd) = None \<and> stopped (rd_cancelled rd) rc (rd_now rd) = None"
  by (auto simp: check_contexts_def context_check_def split: option.splits)

text \<open>
  Why a result is an error: a stopped scope, a refused request, a body over the limit, or what the
  transport reported.
\<close>

definition in_scope :: "'t operation_context \<Rightarrow> 't operation_context \<Rightarrow> 't reading \<Rightarrow> bool" where
  "in_scope c rc rd \<longleftrightarrow>
     stopped (rd_cancelled rd) c (rd_now rd) = None \<and> stopped (rd_cancelled rd) rc (rd_now rd) = None"

lemma check_contexts_in_scope:
  "check_contexts c rc rd = (if in_scope c rc rd then Inr () else Inl TimedOut)"
  by (auto simp: check_contexts_def context_check_def in_scope_def split: option.splits)

lemma map_result_Inr: "(case r of Inl e \<Rightarrow> Inl e | Inr b \<Rightarrow> Inr (f b)) = Inr y \<longleftrightarrow> (\<exists>b. r = Inr b \<and> y = f b)"
  by (cases r) auto

lemma exchange_ok:
  assumes "exchange c rc n env = (status, Some (Inr resp))" "limited_ok n (frames env)"
  shows "dispatches c rc env \<and> status = Some (hr_status resp) \<and> hr_body resp = body_until_end (frames env) \<and>
    length (hr_body resp) \<le> n \<and> in_scope c rc (after_body env)"
proof -
  obtain h b where h: "sent env = Yielded (Inr h)" "\<not> stopped_first env" "in_scope c rc (before_send env)"
    "collect_body c rc n \<lparr>collected = [], capacity = 0\<rparr> (frames env) (after_body env) = Some (Inr b)"
    "resp = \<lparr>hr_status = hd_status h, hr_headers = hd_headers h, hr_body = collected b\<rparr>" "status = Some (hd_status h)"
    using assms(1)
    by (auto simp: exchange_def check_contexts_in_scope map_result_Inr
        split: if_split_asm sum.split_asm wait_end.split_asm)
  have "buffer_ok n \<lparr>collected = [], capacity = 0\<rparr>" by (simp add: buffer_ok_def)
  from collect_body_ok[OF h(4) this] assms(2) h show ?thesis
    by (auto simp: limited_ok_def buffer_ok_def dispatches_def check_contexts_in_scope split: if_splits)
qed

lemma one_record: "length (snd (attempt_finish r a) @ attempt_drop (fst (attempt_finish r a))) = 1"
  if "\<not> at_finalized a"
  using that by (simp add: attempt_finish_def attempt_drop_def)

text \<open>The text-map propagator writes the two headers of the trace context and nothing else.\<close>

definition inject_ok :: "((string \<times> bytes) list \<Rightarrow> (string \<times> bytes) list) \<Rightarrow> bool" where
  "inject_ok inject \<longleftrightarrow>
     (\<forall>hs n. n \<noteq> ''traceparent'' \<longrightarrow> n \<noteq> ''tracestate'' \<longrightarrow> get_all n (inject hs) = get_all n hs)"

lemma inject_framed:
  "inject_ok inject \<Longrightarrow> framed t (r\<lparr>rq_headers := inject (rq_headers r)\<rparr>) = framed t r"
  by (simp add: inject_ok_def framed_def)

text \<open>What the transport gets, against the caller's request.\<close>

lemma dispatched_request:
  assumes "inject_ok inject"
    and "ex_dispatched (execute_with_context child_token fresh inject cl caller extension template entry env r) = Some rq"
  shows "on_origin (cl_target cl) r" "framed (cl_target cl) rq" "rq_body rq = rq_body r"
    and "n \<notin> {''host'', ''transfer-encoding'', ''content-length'', ''accept'', ''traceparent'', ''tracestate''} \<Longrightarrow>
      get_all n (rq_headers rq) = get_all n (rq_headers r)"
proof -
  obtain adm where adm: "admit_request (cl_target cl) r = (Inr adm :: cause list http_error + request)"
    and rq: "rq = (if propagate_trace_context cl then adm\<lparr>rq_headers := inject (rq_headers adm)\<rparr> else adm)"
    using assms(2)
    by (auto simp: execute_with_context_def Let_def check_contexts_in_scope bind_result_def case_prod_beta
        split: sum.splits if_splits option.splits)
  show "on_origin (cl_target cl) r" "framed (cl_target cl) rq" "rq_body rq = rq_body r"
    using admit_request_framed[OF adm] inject_framed[OF assms(1), of "cl_target cl" adm] admit_request_keeps(1)[OF adm] rq
    by auto
  show "get_all n (rq_headers rq) = get_all n (rq_headers r)"
    if "n \<notin> {''host'', ''transfer-encoding'', ''content-length'', ''accept'', ''traceparent'', ''tracestate''}"
    using that assms(1) rq admit_request_keeps(2)[OF adm, of n] by (auto simp: inject_ok_def)
qed

lemma in_scope_child:
  assumes "\<forall>d. ctx_deadline caller = Some d \<longrightarrow> origin d \<le> now" "now \<le> rd_now rd"
    and "in_scope (child child_token now caller ceiling) rc rd"
  shows "rd_now rd < now + ceiling \<and> remaining caller (rd_now rd) \<noteq> Some 0"
proof -
  let ?c = "child child_token now caller ceiling"
  have "remaining ?c (rd_now rd) \<noteq> Some 0"
    using assms(3) by (auto simp: in_scope_def stopped_def remaining_def expired_def split: option.splits if_splits)
  then show ?thesis unfolding child_remaining[OF assms(1,2)] using assms(2) by (auto split: option.splits)
qed

text \<open>
  A bounded exchange. Whatever the transport does, a successful operation answers with the
  whole body it yielded, of at most the configured number of bytes, decided while neither scope was
  cancelled or over: within the operation timeout counted from entry and within the caller's
  deadlines. Only an admitted request of the configured origin is ever handed to the transport, and
  an attempt leaves exactly one record, also when the caller drops it.
\<close>

lemma execute_bounded:
  assumes lib: "inject_ok inject" "limited_ok (response_body_bytes (cl_limits cl)) (frames env)"
    and run: "execute_with_context child_token fresh inject cl caller extension template entry env r = out"
    and scopes: "c = child child_token (rd_now entry) caller (operation_timeout (cl_limits cl))"
      "rc = (case extension of None \<Rightarrow> unbounded fresh | Some x \<Rightarrow> x)"
    and clock: "\<forall>d. ctx_deadline caller = Some d \<longrightarrow> origin d \<le> rd_now entry" "rd_now entry \<le> rd_now (at_return env)"
  shows "(\<forall>resp. ex_result out = Some (Inr resp) \<longrightarrow>
      hr_body resp = body_until_end (frames env) \<and> length (hr_body resp) \<le> response_body_bytes (cl_limits cl) \<and>
      in_scope c rc (at_return env) \<and> remaining caller (rd_now (at_return env)) \<noteq> Some 0 \<and>
      rd_now (at_return env) < rd_now entry + operation_timeout (cl_limits cl)) \<and>
    (\<forall>sent. ex_dispatched out = Some sent \<longrightarrow> on_origin (cl_target cl) r \<and> framed (cl_target cl) sent \<and>
      in_scope c rc entry \<and> in_scope c rc (before_send env)) \<and>
    length (ex_emitted out) = (if in_scope c rc entry \<and> on_origin (cl_target cl) r then 1 else 0)"
proof (cases "in_scope c rc entry \<and> on_origin (cl_target cl) r")
  case False
  then have "bind_result (check_contexts c rc entry) (\<lambda>_. admit_request (cl_target cl) r)
      = (Inl (if in_scope c rc entry then InvalidTarget else TimedOut) :: cause list http_error + request)"
    by (simp add: check_contexts_in_scope admit_request_def)
  with run have "out = \<lparr>ex_result = Some (Inl (if in_scope c rc entry then InvalidTarget else TimedOut)),
      ex_dispatched = None, ex_emitted = []\<rparr>"
    by (simp add: execute_with_context_def Let_def scopes[symmetric])
  with False show ?thesis by auto
next
  case True
  then obtain adm where adm: "admit_request (cl_target cl) r = (Inr adm :: cause list http_error + request)"
    by (auto simp: admit_request_def Let_def)
  let ?sent = "if propagate_trace_context cl then adm\<lparr>rq_headers := inject (rq_headers adm)\<rparr> else adm"
  have fr: "on_origin (cl_target cl) r" "framed (cl_target cl) ?sent"
    using admit_request_framed[OF adm] inject_framed[OF lib(1), of "cl_target cl" adm] by auto
  obtain status res where ex: "exchange c rc (response_body_bytes (cl_limits cl)) env = (status, res)" by fastforce
  let ?a = "(attempt_start (rq_method adm) template (cl_target cl))\<lparr>at_status := status\<rparr>"
  have a: "\<not> at_finalized ?a" by (simp add: attempt_start_def)
  let ?went = "if dispatches c rc env then Some ?sent else None"
  have went: "in_scope c rc (before_send env)" if "dispatches c rc env"
    using that by (auto simp: dispatches_def check_contexts_in_scope split: if_splits)
  note unfolds = execute_with_context_def Let_def scopes[symmetric] check_contexts_in_scope adm ex
  show ?thesis
  proof (cases res)
    case None
    with run True have "out = \<lparr>ex_result = None, ex_dispatched = ?went, ex_emitted = attempt_drop ?a\<rparr>"
      by (simp add: unfolds)
    then show ?thesis using fr went True a by (auto simp: attempt_drop_def)
  next
    case (Some rs)
    let ?final = "case rs of Inl e \<Rightarrow> Inl e | Inr x \<Rightarrow> if in_scope c rc (at_return env) then Inr x else Inl TimedOut"
    from Some run True have out: "out = \<lparr>ex_result = Some ?final, ex_dispatched = ?went,
        ex_emitted = snd (attempt_finish ?final ?a) @ attempt_drop (fst (attempt_finish ?final ?a))\<rparr>"
      by (auto simp: unfolds case_prod_beta split: sum.splits)
    have "hr_body resp = body_until_end (frames env) \<and> length (hr_body resp) \<le> response_body_bytes (cl_limits cl) \<and>
        in_scope c rc (at_return env) \<and> remaining caller (rd_now (at_return env)) \<noteq> Some 0 \<and>
        rd_now (at_return env) < rd_now entry + operation_timeout (cl_limits cl)" if "?final = Inr resp" for resp
    proof -
      from that have "rs = Inr resp" "in_scope c rc (at_return env)" by (auto split: sum.splits if_splits)
      with exchange_ok[OF _ lib(2)] in_scope_child[OF clock] ex Some scopes(1) show ?thesis by blast
    qed
    moreover have "length (ex_emitted out) = 1" using one_record[OF a] out by simp
    ultimately show ?thesis using fr went True out by auto
  qed
qed

text \<open>A client of one origin with a second and four bytes per response.\<close>

definition demo_target :: target where
  "demo_target = \<lparr>t_scheme = HTTPS, t_host = ''provider.example'', t_port = 443,
     t_host_header = bytes_of ''provider.example''\<rparr>"

definition demo_client :: client where
  "demo_client = \<lparr>cl_target = demo_target, cl_limits = \<lparr>operation_timeout = from_secs 1,
     response_header_count = 64, response_body_bytes = 4\<rparr>, propagate_trace_context = False\<rparr>"

definition demo_request :: request where
  "demo_request = \<lparr>rq_method = ''POST'', rq_scheme = Some HTTPS,
     rq_authority = Some \<lparr>auth_text = ''Provider.example'', auth_host = ''Provider.example'', auth_port = None\<rparr>,
     rq_version = HTTP_2, rq_headers = [(''content-length'', bytes_of ''9''), (''x-id'', [7])], rq_body = [1, 2]\<rparr>"

lemma demo_on_origin: "on_origin demo_target demo_request"
proof -
  have "eq_ignore_ascii_case ''Provider.example'' ''provider.example''" by code_simp
  then show ?thesis
    by (simp add: on_origin_def demo_target_def demo_request_def get_all_def default_port_of_def)
qed

theorem admitted_request_framed_witness:
  "\<exists>r'. admit_request demo_target demo_request = (Inr r' :: unit http_error + request) \<and>
     get_all ''content-length'' (rq_headers r') = [bytes_of (decimal 2)] \<and> rq_body r' = [1, 2]"
proof -
  obtain r' where r': "admit_request demo_target demo_request = (Inr r' :: unit http_error + request)"
    using demo_on_origin by (simp add: admit_request_def Let_def)
  from admitted_request_framed[OF this] have "framed demo_target r'" "rq_body r' = [1, 2]"
    by (auto simp: demo_request_def)
  with r' show ?thesis by (auto simp: framed_def numeral_2_eq_2)
qed

definition demo_reading :: "instant \<Rightarrow> unit reading" where
  "demo_reading t = \<lparr>rd_now = t, rd_cancelled = (\<lambda>_. False)\<rparr>"

definition demo_exchange :: "(unit, unit, cause list) exchange_env" where
  "demo_exchange = \<lparr>stopped_first = False, before_send = demo_reading 1,
     sent = Yielded (Inr \<lparr>hd_status = 200, hd_headers = (), hd_exact_size = None\<rparr>), after_head = demo_reading 2,
     frames = [(demo_reading 3, Yielded (DataFrame [5, 6])), (demo_reading 4, Yielded EndOfBody)],
     after_body = demo_reading 5, at_return = demo_reading 6\<rparr>"

theorem execute_bounded_witness:
  "length (ex_emitted (execute_with_context id () id demo_client (unbounded ()) None None (demo_reading 0)
     demo_exchange demo_request)) = 1"
proof -
  let ?c = "child id (rd_now (demo_reading 0)) (unbounded ()) (operation_timeout (cl_limits demo_client))"
  have "in_scope ?c (unbounded ()) (demo_reading 0)"
    by (simp add: in_scope_def stopped_def child_def unbounded_def context_new_def Let_def demo_reading_def expired_def
        remaining_at_def deadline_new_def duration_since_def demo_client_def time_units)
  moreover have "inject_ok id" "limited_ok (response_body_bytes (cl_limits demo_client)) (frames demo_exchange)"
    by (simp_all add: inject_ok_def limited_ok_def demo_client_def demo_exchange_def frame_data_def)
  moreover have "rd_now (demo_reading 0) \<le> rd_now (at_return demo_exchange)"
    by (simp add: demo_reading_def demo_exchange_def)
  moreover have "on_origin (cl_target demo_client) demo_request"
    using demo_on_origin by (simp add: demo_client_def)
  ultimately show ?thesis
    using execute_bounded[OF _ _ refl refl refl, of id demo_client demo_exchange "unbounded ()" "demo_reading 0" id "()" None]
    by (simp add: unbounded_def context_new_def)
qed

end
