(* ===== verification/Fragments.thy ===== *)
theory Fragments
  imports Prelude
begin

text \<open>
  Reading a text in fragments that end at characters, as the cooperative size checks of
  \<open>infra-webhooks/src/outbound.rs\<close> and \<open>infra-messaging/src/outbox.rs\<close> do: \<open>str::is_char_boundary\<close>, the loop
  that steps back to a boundary, and why each fragment makes progress. A Rust \<open>str\<close> is the list of its
  UTF-8 bytes, of which every character has at most four.
\<close>

definition is_char_boundary :: "bytes \<Rightarrow> nat \<Rightarrow> bool" where
  "is_char_boundary s i \<longleftrightarrow>
     i = 0 \<or> i = length s \<or> (i < length s \<and> \<not> (0x80 \<le> s ! i \<and> s ! i < 0xC0))"

function char_floor :: "bytes \<Rightarrow> nat \<Rightarrow> nat" where
  "char_floor s i = (if is_char_boundary s i then i else char_floor s (i - 1))"
  by pat_completeness auto
termination
  by (relation "measure snd") (auto simp: is_char_boundary_def)

declare char_floor.simps [simp del]

lemma char_floor_le: "char_floor s i \<le> i"
  by (induction s i rule: char_floor.induct) (subst char_floor.simps, auto)

definition is_str :: "bytes \<Rightarrow> bool" where
  "is_str s \<longleftrightarrow> (\<forall>i < length s. is_char_boundary s i \<longrightarrow> (\<exists>k \<in> {1..4}. is_char_boundary s (i + k)))"

lemma char_boundary_le: "is_char_boundary s i \<Longrightarrow> i \<le> length s"
  by (auto simp: is_char_boundary_def)

lemma char_floor_spec:
  "is_char_boundary s j \<Longrightarrow> j \<le> i \<Longrightarrow> j \<le> char_floor s i \<and> is_char_boundary s (char_floor s i)"
proof (induction s i rule: char_floor.induct)
  case (1 s i)
  show ?case
  proof (cases "is_char_boundary s i")
    case True
    then show ?thesis using 1(3) by (subst (1 2) char_floor.simps) simp
  next
    case False
    then have "j \<noteq> i" using 1(2) by auto
    then show ?thesis using 1 False by (subst (1 2) char_floor.simps) simp
  qed
qed

text \<open>The next fragment ends at a character, and is not empty when four bytes may be read.\<close>

lemma fragment_end:
  assumes "is_str s" "is_char_boundary s off" "fin = char_floor s (min (length s) (off + b))"
  shows "off \<le> fin \<and> fin \<le> length s \<and> is_char_boundary s fin \<and> (off < length s \<and> 4 \<le> b \<longrightarrow> off < fin)"
proof -
  have off: "off \<le> length s" using assms(2) by (rule char_boundary_le)
  have "off \<le> fin \<and> is_char_boundary s fin"
    using char_floor_spec[OF assms(2), of "min (length s) (off + b)"] off assms(3) by simp
  moreover have "off < fin" if "off < length s" "4 \<le> b"
  proof -
    obtain k where k: "1 \<le> k" "k \<le> 4" "is_char_boundary s (off + k)"
      using assms(1,2) \<open>off < length s\<close> unfolding is_str_def by (meson atLeastAtMost_iff)
    then have "off + k \<le> length s" by (auto dest: char_boundary_le)
    with k that(2) char_floor_spec[OF k(3), of "min (length s) (off + b)"] assms(3) show ?thesis by simp
  qed
  ultimately show ?thesis using char_boundary_le by blast
qed

definition esc_size :: "(8 word \<Rightarrow> bytes) \<Rightarrow> bytes \<Rightarrow> nat" where
  "esc_size esc s = length (concat (map esc s))"

lemma esc_size_simps [simp]: "esc_size esc [] = 0" "esc_size esc (s @ t) = esc_size esc s + esc_size esc t"
  by (simp_all add: esc_size_def)

lemma take_fragment: "off \<le> fin \<Longrightarrow> take off s @ take (fin - off) (drop off s) = take fin s"
  by (metis le_add_diff_inverse take_add)

end
