(* ===== verification/WebhookOutbound.thy ===== *)
theory WebhookOutbound
  imports WebhookInbound OutboundHttp Fragments
begin

text \<open>
  \<open>crates/infra-webhooks/src/outbound.rs\<close>: producers enqueue signed deliveries on their own
  transaction, and workers send each one through the bounded client. The preflight that a producer
  runs reads its texts in fragments of at most 4096 bytes per poll; its reference is the size of the
  JSON text that the job will hold. A Rust \<open>str\<close> is here the list of its UTF-8 bytes.

  Parameters: the JSON escaping of a text, header values, URI parsing, the text of a job's UUID, HTTP
  dates, base64 and the MAC.
\<close>

subsection \<open>Constants and data\<close>

definition DELIVERY_KIND :: string where "DELIVERY_KIND = ''webhooks.deliver''"
definition RETRY_AFTER_CAP :: duration where "RETRY_AFTER_CAP = from_hours 24"
definition DEFAULT_CONTENT_TYPE :: bytes where "DEFAULT_CONTENT_TYPE = bytes_of ''application/json''"
definition PREFLIGHT_SOURCE_BYTES :: nat where "PREFLIGHT_SOURCE_BYTES = 4096"

definition DELIVERY_POLICY :: policy where
  "DELIVERY_POLICY = \<lparr>max_attempts = 20, timeout = from_secs 30, max_running = None\<rparr>"

definition LIMITS :: limits where
  "LIMITS = \<lparr>operation_timeout = timeout DELIVERY_POLICY, response_header_count = 64,
     response_body_bytes = 64 * 1024\<rparr>"

definition delivery_version :: nat where "delivery_version = 2"

record delivery =
  dl_version :: nat
  dl_endpoint :: bytes
  dl_content_type :: bytes
  dl_body :: bytes

datatype outbound_error =
    UnknownDestination
  | DeliveryTooLarge
  | InvalidContentType
  | DeliveryEnqueue enqueue_failure
  | UnexpectedDuplicate

subsection \<open>Preflight\<close>

record preflight_lib =
  pf_value_ok :: "bytes \<Rightarrow> bool"
  pf_json :: "bytes \<Rightarrow> bytes option"

record preflight_state =
  pf_field :: nat
  pf_offset :: nat
  pf_bytes :: nat

datatype polled = PollPending preflight_state | PollReady "outbound_error + unit" | PollPanic

text \<open>The fragment up to \<open>fin\<close> has been counted.\<close>

definition pf_advance :: "bytes \<Rightarrow> preflight_state \<Rightarrow> nat \<Rightarrow> nat \<Rightarrow> preflight_state" where
  "pf_advance source st fin n =
     (if fin = length source
      then \<lparr>pf_field = pf_field st + 1, pf_offset = 0, pf_bytes = pf_bytes st + n\<rparr>
      else \<lparr>pf_field = pf_field st, pf_offset = fin, pf_bytes = pf_bytes st + n\<rparr>)"

text \<open>
  One poll: the loop over the fields while the budget of the poll lasts. Slicing at an offset beyond
  the end of a fragment panics.
\<close>

function preflight_poll ::
  "preflight_lib \<Rightarrow> bytes list \<Rightarrow> preflight_state \<Rightarrow> nat \<Rightarrow> polled" where
  "preflight_poll lib srcs st budget_left =
     (if pf_field st < length srcs then
        (let source = srcs ! pf_field st;
             fin = char_floor source (min (length source) (pf_offset st + budget_left))
         in if fin = pf_offset st \<and> pf_offset st < length source then PollPending st
            else if fin < pf_offset st then PollPanic
            else (let fragment = take (fin - pf_offset st) (drop (pf_offset st) source)
                  in if pf_field st = 0 \<and> \<not> pf_value_ok lib fragment then PollReady (Inl InvalidContentType)
                     else case pf_json lib fragment of
                            None \<Rightarrow> PollReady (Inl (DeliveryEnqueue (EnqRefused SerializeError)))
                          | Some escaped \<Rightarrow>
                              preflight_poll lib srcs (pf_advance source st fin (length escaped - 2))
                                (budget_left - (fin - pf_offset st))))
      else PollReady (if pf_bytes st > MAX_PAYLOAD_BYTES
                      then Inl (DeliveryEnqueue (EnqRefused (PayloadTooLarge (pf_bytes st)))) else Inr ()))"
  by pat_completeness auto

termination
proof (relation "inv_image (less_than <*lex*> less_than)
    (\<lambda>(lib, srcs, st, b). (length srcs - pf_field st, length (srcs ! pf_field st) - pf_offset st))", goal_cases)
  case (2 lib srcs st b source fin fragment escaped)
  have "fin \<le> length source" using char_floor_le[of source "min (length source) (pf_offset st + b)"] 2(3) by simp
  then show ?case using 2 by (auto simp: pf_advance_def)
qed (simp add: wf_lex_prod)

declare preflight_poll.simps [simp del]

text \<open>The future, polled a number of times: \<^term>\<open>None\<close> while it is pending.\<close>

fun preflight_polls ::
  "preflight_lib \<Rightarrow> bytes list \<Rightarrow> preflight_state \<Rightarrow> nat \<Rightarrow> (outbound_error + unit) option option" where
  "preflight_polls lib srcs st 0 = None"
| "preflight_polls lib srcs st (Suc n) =
     (case preflight_poll lib srcs st PREFLIGHT_SOURCE_BYTES of
        PollPending st' \<Rightarrow> preflight_polls lib srcs st' n
      | PollReady r \<Rightarrow> Some (Some r)
      | PollPanic \<Rightarrow> Some None)"

definition ENVELOPE :: bytes where
  "ENVELOPE = bytes_of ''{\"version\":,\"endpoint_id\":\"\",\"content_type\":\"\",\"body\":\"\"}''"

definition envelope_bytes :: "nat \<Rightarrow> nat" where
  "envelope_bytes body_bytes =
     length ENVELOPE + length (decimal delivery_version) + (body_bytes + 2) div 3 * 4"

definition preflight ::
  "preflight_lib \<Rightarrow> bytes set \<Rightarrow> bytes \<Rightarrow> nat \<Rightarrow> bytes \<Rightarrow> nat \<Rightarrow> (outbound_error + unit) option option" where
  "preflight lib endpoint_ids ep body_bytes ct polls =
     (if body_bytes > MAX_BODY_BYTES then Some (Some (Inl DeliveryTooLarge))
      else if ep \<notin> endpoint_ids then Some (Some (Inl UnknownDestination))
      else preflight_polls lib [ct, ep] \<lparr>pf_field = 0, pf_offset = 0, pf_bytes = envelope_bytes body_bytes\<rparr> polls)"

subsection \<open>Enqueue\<close>

record outbound_lib =
  ol_preflight :: preflight_lib
  ol_is_utf8 :: "string \<Rightarrow> bool"
  ol_jsonb :: "string \<Rightarrow> string"
  ol_serialize :: "delivery \<Rightarrow> serialization"

text \<open>
  \<open>Outbound::enqueue\<close> on the caller's transaction: the answer goes to the rest of the caller's work.
  \<^term>\<open>None\<close> while the preflight is pending after the given number of polls.
\<close>

definition outbound_enqueue ::
  "outbound_lib \<Rightarrow> bytes set \<Rightarrow> 'u hook_data enqueue_env \<Rightarrow> bytes \<Rightarrow> bytes \<Rightarrow> bytes option \<Rightarrow> nat
   \<Rightarrow> (outbound_error + job_id \<Rightarrow> ('u hook_data, 'x hook_row, 't, 'e) work)
   \<Rightarrow> ('u hook_data, 'x hook_row, 't, 'e) work option" where
  "outbound_enqueue lib endpoint_ids env ep bdy content_type polls rest =
     (let ct = (case content_type of None \<Rightarrow> DEFAULT_CONTENT_TYPE | Some x \<Rightarrow> x)
      in case preflight (ol_preflight lib) endpoint_ids ep (length bdy) ct polls of
           Some (Some (Inl e)) \<Rightarrow> Some (rest (Inl e))
         | Some (Some (Inr _)) \<Rightarrow>
             (let d = \<lparr>dl_version = delivery_version, dl_endpoint = ep, dl_content_type = ct, dl_body = bdy\<rparr>
              in Some (enqueue_work (ol_is_utf8 lib) (ol_jsonb lib) env DELIVERY_KIND (ol_serialize lib d) default_options
                   (\<lambda>res. case res of
                      Inl e \<Rightarrow> rest (Inl (DeliveryEnqueue e))
                    | Inr (Created jid) \<Rightarrow> rest (Inr jid)
                    | Inr Duplicate \<Rightarrow> rest (Inl UnexpectedDuplicate))))
         | _ \<Rightarrow> None)"

subsection \<open>Endpoints\<close>

datatype endpoint_error = InvalidDestination | ClientError build_error

definition parse_destination :: "(string \<Rightarrow> url option) \<Rightarrow> string \<Rightarrow> endpoint_error + url" where
  "parse_destination parse_url raw =
     (case parse_url raw of
        None \<Rightarrow> Inl InvalidDestination
      | Some u \<Rightarrow>
          if url_scheme u \<noteq> ''https'' \<or> url_host u = None \<or> url_username u \<noteq> [] \<or> url_password u \<noteq> None \<or>
             url_fragment u \<noteq> None
          then Inl InvalidDestination else Inr u)"

record endpoint =
  ep_destination :: url
  ep_client :: client
  ep_keys :: key_ring

definition endpoint_try_new ::
  "(string \<Rightarrow> url option) \<Rightarrow> (bytes \<Rightarrow> bool) \<Rightarrow> bool \<Rightarrow> string \<Rightarrow> key_ring \<Rightarrow> endpoint_error + endpoint" where
  "endpoint_try_new parse_url value_ok tls raw keys =
     bind_result (parse_destination parse_url raw) (\<lambda>u.
       case client_try_new value_ok tls u LIMITS of
         Inl e \<Rightarrow> Inl (ClientError e)
       | Inr cl \<Rightarrow> Inr \<lparr>ep_destination = u, ep_client = cl, ep_keys = keys\<rparr>)"

subsection \<open>Delivery\<close>

datatype delivery_outcome =
    InvalidPayload | MissingEndpoint | ClockUnavailable | StatusOutcome nat | EndpointGone | TransportOutcome string

definition outcome_text :: "delivery_outcome \<Rightarrow> ustr" where
  "outcome_text out = ascii
     (case out of
        InvalidPayload \<Rightarrow> ''invalid_payload''
      | MissingEndpoint \<Rightarrow> ''missing_endpoint''
      | ClockUnavailable \<Rightarrow> ''clock_unavailable''
      | StatusOutcome status \<Rightarrow> ''response_status_'' @ decimal status
      | EndpointGone \<Rightarrow> ''endpoint_gone''
      | TransportOutcome reason \<Rightarrow> reason)"

definition transport_reason :: "'s http_error \<Rightarrow> string" where
  "transport_reason e =
     (case e of
        TimedOut \<Rightarrow> ''timeout''
      | ResponseBodyTooLarge \<Rightarrow> ''response_too_large''
      | Transport _ \<Rightarrow> ''transport''
      | InvalidTarget \<Rightarrow> ''client'')"

record retry_lib =
  rl_to_str :: "bytes \<Rightarrow> bytes option"
  rl_http_date :: "bytes \<Rightarrow> int option"

text \<open>The system clock and HTTP dates are nanoseconds relative to the epoch.\<close>

definition delay_until :: "int \<Rightarrow> int \<Rightarrow> duration option" where
  "delay_until date now = (if now \<le> date then Some (nat (date - now)) else None)"

definition parse_u64 :: "bytes \<Rightarrow> nat option" where
  "parse_u64 v = (case digits_value 0 v of None \<Rightarrow> None | Some n \<Rightarrow> if n \<le> u64_max then Some n else None)"

definition retry_after :: "retry_lib \<Rightarrow> (string \<times> bytes) list \<Rightarrow> int \<Rightarrow> duration option" where
  "retry_after lib hs now =
     Option.bind (case get_all ''retry-after'' hs of [] \<Rightarrow> None | v # _ \<Rightarrow> rl_to_str lib v) (\<lambda>v.
     Option.bind
       (if v \<noteq> [] \<and> list_all (\<lambda>b. 48 \<le> b \<and> b \<le> 57) v
        then Some (from_secs (case parse_u64 v of None \<Rightarrow> u64_max | Some n \<Rightarrow> n))
        else Option.bind (rl_http_date lib v) (\<lambda>date. delay_until date now))
       (\<lambda>delay. if delay = 0 then None else Some (min delay RETRY_AFTER_CAP)))"

definition invalid_delay :: error_chain where
  "invalid_delay = (\<lparr>display = ascii ''delay exceeds the maximum of 36500 days'', is_pool_timed_out = False\<rparr>, [])"

text \<open>The answer to the jobs engine, and the labels of the one counted outcome.\<close>

definition count_failure :: "bytes \<Rightarrow> string \<Rightarrow> string \<Rightarrow> (string \<times> bytes) list" where
  "count_failure ep outcome reason =
     [(''endpoint'', ep), (''outcome'', bytes_of outcome), (''reason'', bytes_of reason)]"

definition classify_response ::
  "retry_lib \<Rightarrow> bytes \<Rightarrow> 's http_error + (string \<times> bytes) list http_response \<Rightarrow> int
   \<Rightarrow> (job_error + unit) \<times> (string \<times> bytes) list" where
  "classify_response lib ep response now =
     (case response of
        Inr r \<Rightarrow>
          if 200 \<le> hr_status r \<and> hr_status r < 300
          then (Inr (), [(''endpoint'', ep), (''outcome'', bytes_of ''delivered'')])
          else if hr_status r = 410
          then (Inl (permanent (outcome_text EndpointGone)), count_failure ep ''permanent'' ''endpoint_gone'')
          else (let out = outcome_text (StatusOutcome (hr_status r))
                in (Inl (case retry_after lib (hr_headers r) now of
                           Some delay \<Rightarrow>
                             (case retry_after_at_least out delay of
                                Inl _ \<Rightarrow> job_error_from invalid_delay
                              | Inr err \<Rightarrow> err)
                         | None \<Rightarrow> retryable out),
                    count_failure ep ''retryable'' ''response_status''))
      | Inl e \<Rightarrow>
          (Inl (retryable (outcome_text (TransportOutcome (transport_reason e)))),
           count_failure ep ''retryable'' (transport_reason e)))"

definition unix_timestamp :: "int \<Rightarrow> int option" where
  "unix_timestamp now = (if now < 0 then None else i64_checked (now div 1000000000))"

record dispatch_lib =
  dp_codec :: b64_codec
  dp_mac :: "signing_key \<Rightarrow> bytes \<Rightarrow> bytes"
  dp_job_text :: "job_id \<Rightarrow> bytes"
  dp_value_ok :: "bytes \<Rightarrow> bool"
  dp_request_uri :: "url \<Rightarrow> (scheme \<times> authority) option"
  dp_retry :: retry_lib

text \<open>\<open>Request::builder\<close> refuses an unusable URI or header value.\<close>

definition delivery_request ::
  "dispatch_lib \<Rightarrow> delivery \<Rightarrow> url \<Rightarrow> bytes \<Rightarrow> int \<Rightarrow> bytes \<Rightarrow> request option" where
  "delivery_request lib d destination mid timestamp sig =
     (case dp_request_uri lib destination of
        None \<Rightarrow> None
      | Some (sch, auth) \<Rightarrow>
          (let hs = (''content-type'', dl_content_type d) # delivery_headers mid timestamp sig
           in if list_all (\<lambda>h. dp_value_ok lib (snd h)) hs
              then Some \<lparr>rq_method = ''POST'', rq_scheme = Some sch, rq_authority = Some auth, rq_version = HTTP_11,
                     rq_headers = hs, rq_body = dl_body d\<rparr>
              else None))"

text \<open>What one delivery attempt meets: the clocks, the scope of the attempt and the transport.\<close>

record 't dispatch_env =
  de_now :: int
  de_response_time :: int
  de_child_token :: "'t \<Rightarrow> 't"
  de_fresh :: 't
  de_inject :: "(string \<times> bytes) list \<Rightarrow> (string \<times> bytes) list"
  de_context :: "'t operation_context"
  de_entry :: "'t reading"
  de_exchange :: "('t, (string \<times> bytes) list, cause list) exchange_env"

record dispatched =
  dx_answer :: "(job_error + unit) option"
  dx_counted :: "(string \<times> bytes) list option"
  dx_sent :: "request option"
  dx_response :: "(cause list http_error + (string \<times> bytes) list http_response) option"

definition dispatch ::
  "dispatch_lib \<Rightarrow> (bytes \<rightharpoonup> endpoint) \<Rightarrow> 't dispatch_env \<Rightarrow> job_id \<Rightarrow> delivery \<Rightarrow> dispatched" where
  "dispatch lib endpoints env jid d =
     (case endpoints (dl_endpoint d) of
        None \<Rightarrow>
          \<lparr>dx_answer = Some (Inl (retryable (outcome_text MissingEndpoint))),
           dx_counted = Some [(''outcome'', bytes_of ''retryable''), (''reason'', bytes_of ''missing_endpoint'')],
           dx_sent = None, dx_response = None\<rparr>
      | Some e \<Rightarrow>
          (case unix_timestamp (de_now env) of
             None \<Rightarrow>
               \<lparr>dx_answer = Some (Inl (retryable (outcome_text ClockUnavailable))),
                dx_counted = Some (count_failure (dl_endpoint d) ''retryable'' ''clock_unavailable''),
                dx_sent = None, dx_response = None\<rparr>
           | Some timestamp \<Rightarrow>
               (let mid = dp_job_text lib jid;
                    req = (case signatures (dp_codec lib) (dp_mac lib) (ep_keys e) mid timestamp (dl_body d) of
                             Inl _ \<Rightarrow> None
                           | Inr sig \<Rightarrow> delivery_request lib d (ep_destination e) mid timestamp sig)
                in case req of
                     None \<Rightarrow>
                       \<lparr>dx_answer = Some (Inl (permanent (outcome_text InvalidPayload))),
                        dx_counted = Some (count_failure (dl_endpoint d) ''permanent'' ''invalid_payload''),
                        dx_sent = None, dx_response = None\<rparr>
                   | Some r \<Rightarrow>
                       (let x = execute_with_context (de_child_token env) (de_fresh env) (de_inject env) (ep_client e)
                                  (de_context env) None None (de_entry env) (de_exchange env) r
                        in case ex_result x of
                             None \<Rightarrow> \<lparr>dx_answer = None, dx_counted = None, dx_sent = ex_dispatched x, dx_response = None\<rparr>
                           | Some res \<Rightarrow>
                               (let (ans, labels) = classify_response (dp_retry lib) (dl_endpoint d) res (de_response_time env)
                                in \<lparr>dx_answer = Some ans, dx_counted = Some labels, dx_sent = ex_dispatched x,
                                    dx_response = Some res\<rparr>)))))"

subsection \<open>The preflight against its reference\<close>

text \<open>
  What the libraries document: JSON text escapes a string byte by byte between quotes, and a header
  value is admitted byte by byte.
\<close>

definition preflight_lib_ok :: "preflight_lib \<Rightarrow> (8 word \<Rightarrow> bytes) \<Rightarrow> (8 word \<Rightarrow> bool) \<Rightarrow> bool" where
  "preflight_lib_ok lib esc ok \<longleftrightarrow>
     (\<forall>s. pf_json lib s = Some (0x22 # concat (map esc s) @ [0x22])) \<and> (\<forall>s. pf_value_ok lib s = list_all ok s)"

text \<open>What the loop has read: the escaped size and the header check so far, and how much is left.\<close>

definition preflight_inv ::
  "(8 word \<Rightarrow> bytes) \<Rightarrow> (8 word \<Rightarrow> bool) \<Rightarrow> bytes \<Rightarrow> bytes \<Rightarrow> nat \<Rightarrow> preflight_state \<Rightarrow> bool" where
  "preflight_inv esc ok ct ep base st \<longleftrightarrow>
     (pf_field st = 0 \<and> is_char_boundary ct (pf_offset st) \<and> list_all ok (take (pf_offset st) ct) \<and>
        pf_bytes st = base + esc_size esc (take (pf_offset st) ct)) \<or>
     (pf_field st = 1 \<and> is_char_boundary ep (pf_offset st) \<and> list_all ok ct \<and>
        pf_bytes st = base + esc_size esc ct + esc_size esc (take (pf_offset st) ep)) \<or>
     (pf_field st = 2 \<and> list_all ok ct \<and> pf_bytes st = base + esc_size esc ct + esc_size esc ep)"

definition todo :: "bytes \<Rightarrow> bytes \<Rightarrow> preflight_state \<Rightarrow> nat" where
  "todo ct ep st =
     (if pf_field st = 0 then length ct - pf_offset st + length ep + 2
      else if pf_field st = 1 then length ep - pf_offset st + 1 else 0)"

definition preflight_verdict ::
  "(8 word \<Rightarrow> bytes) \<Rightarrow> (8 word \<Rightarrow> bool) \<Rightarrow> bytes \<Rightarrow> bytes \<Rightarrow> nat \<Rightarrow> outbound_error + unit" where
  "preflight_verdict esc ok ct ep base =
     (if \<not> list_all ok ct then Inl InvalidContentType
      else let size = base + esc_size esc ct + esc_size esc ep
           in if size > MAX_PAYLOAD_BYTES then Inl (DeliveryEnqueue (EnqRefused (PayloadTooLarge size))) else Inr ())"

text \<open>Counting one more piece of the current field keeps the invariant and leaves less to do.\<close>

lemma pf_advance_inv:
  assumes inv: "preflight_inv esc ok ct ep base st"
    and cur: "pf_field st = 0 \<and> src = ct \<and> list_all ok piece \<or> pf_field st = 1 \<and> src = ep"
    and fin: "pf_offset st \<le> fin" "is_char_boundary src fin"
      "piece = take (fin - pf_offset st) (drop (pf_offset st) src)"
    and more: "fin \<noteq> pf_offset st \<or> \<not> pf_offset st < length src"
  shows "preflight_inv esc ok ct ep base (pf_advance src st fin (esc_size esc piece)) \<and>
    todo ct ep (pf_advance src st fin (esc_size esc piece)) < todo ct ep st"
proof -
  have pre: "take (pf_offset st) src @ piece = take fin src"
    unfolding fin(3) using fin(1) by (rule take_fragment)
  have sz: "esc_size esc (take (pf_offset st) src) + esc_size esc piece = esc_size esc (take fin src)"
    "list_all ok (take fin src) = (list_all ok (take (pf_offset st) src) \<and> list_all ok piece)"
    unfolding pre[symmetric] by simp_all
  have le: "fin \<le> length src" using fin(2) by (rule char_boundary_le)
  from cur show ?thesis
  proof
    assume "pf_field st = 0 \<and> src = ct \<and> list_all ok piece"
    then show ?thesis using inv sz fin(1,2) le more
      by (cases "fin = length src")
        (auto simp: preflight_inv_def pf_advance_def todo_def is_char_boundary_def[of ep 0])
  next
    assume "pf_field st = 1 \<and> src = ep"
    then show ?thesis using inv sz fin(1,2) le more
      by (cases "fin = length src") (auto simp: preflight_inv_def pf_advance_def todo_def)
  qed
qed

lemma preflight_poll_step:
  assumes lib: "preflight_lib_ok lib esc ok" and strs: "is_str ct" "is_str ep"
    and inv: "preflight_inv esc ok ct ep base st"
  shows "case preflight_poll lib [ct, ep] st b of
      PollPanic \<Rightarrow> False
    | PollReady r \<Rightarrow> r = preflight_verdict esc ok ct ep base
    | PollPending st' \<Rightarrow> preflight_inv esc ok ct ep base st' \<and>
        (if st' = st then b < 4 else todo ct ep st' < todo ct ep st)"
  using inv
proof (induction "todo ct ep st" arbitrary: st b rule: less_induct)
  case less
  let ?poll = "preflight_poll lib [ct, ep]"
  show ?case
  proof (cases "pf_field st < 2")
    case False
    then have "pf_field st = 2" using less(2) by (auto simp: preflight_inv_def)
    then show ?thesis using less(2)
      by (subst preflight_poll.simps) (auto simp: preflight_inv_def preflight_verdict_def Let_def)
  next
    case True
    define src where "src = [ct, ep] ! pf_field st"
    define fin where "fin = char_floor src (min (length src) (pf_offset st + b))"
    define piece where "piece = take (fin - pf_offset st) (drop (pf_offset st) src)"
    let ?st = "pf_advance src st fin (esc_size esc piece)"
    have cur: "pf_field st = 0 \<and> src = ct \<or> pf_field st = 1 \<and> src = ep"
      using True by (auto simp: src_def less_2_cases_iff)
    have "is_str src" "is_char_boundary src (pf_offset st)"
      using cur less(2) strs by (auto simp: preflight_inv_def)
    from fragment_end[OF this fin_def]
    have fin: "pf_offset st \<le> fin" "is_char_boundary src fin"
      "pf_offset st < length src \<Longrightarrow> 4 \<le> b \<Longrightarrow> pf_offset st < fin" by auto
    have poll: "?poll st b =
        (if fin = pf_offset st \<and> pf_offset st < length src then PollPending st
         else if pf_field st = 0 \<and> \<not> list_all ok piece then PollReady (Inl InvalidContentType)
         else ?poll ?st (b - (fin - pf_offset st)))"
      using True fin(1) lib
      by (subst preflight_poll.simps) (simp add: preflight_lib_ok_def Let_def esc_size_def
          src_def[symmetric] fin_def[symmetric] piece_def[symmetric])
    consider (wait) "fin = pf_offset st" "pf_offset st < length src"
      | (bad) "fin \<noteq> pf_offset st \<or> \<not> pf_offset st < length src" "pf_field st = 0" "\<not> list_all ok piece"
      | (go) "fin \<noteq> pf_offset st \<or> \<not> pf_offset st < length src" "pf_field st = 0 \<longrightarrow> list_all ok piece"
      by metis
    then show ?thesis
    proof cases
      case wait
      then show ?thesis using fin(3) less(2) poll by fastforce
    next
      case bad
      have "set piece \<subseteq> set ct"
        using bad(2) by (auto simp: piece_def src_def dest: in_set_takeD in_set_dropD)
      with bad(3) have "\<not> list_all ok ct" by (auto simp: list_all_iff)
      moreover have "?poll st b = PollReady (Inl InvalidContentType)" using bad poll by auto
      ultimately show ?thesis by (simp add: preflight_verdict_def)
    next
      case go
      have "preflight_inv esc ok ct ep base ?st \<and> todo ct ep ?st < todo ct ep st"
        by (rule pf_advance_inv[OF less(2) _ fin(1,2) piece_def go(1)]) (use cur go(2) in auto)
      with less(1)[of ?st "b - (fin - pf_offset st)"] go poll show ?thesis
        by (auto split: polled.splits if_splits)
    qed
  qed
qed

lemma preflight_polls_verdict:
  assumes "preflight_lib_ok lib esc ok" "is_str ct" "is_str ep"
    and "preflight_inv esc ok ct ep base st" "todo ct ep st < n"
  shows "preflight_polls lib [ct, ep] st n = Some (Some (preflight_verdict esc ok ct ep base))"
  using assms(4,5)
proof (induction n arbitrary: st)
  case (Suc n)
  from preflight_poll_step[OF assms(1-3) Suc.prems(1), of PREFLIGHT_SOURCE_BYTES] Suc show ?case
    by (auto simp: PREFLIGHT_SOURCE_BYTES_def split: polled.splits if_splits)
qed simp

text \<open>The JSON text of a delivery, as its field order and the attributes of its fields give it.\<close>

definition delivery_json :: "b64_codec \<Rightarrow> (8 word \<Rightarrow> bytes) \<Rightarrow> delivery \<Rightarrow> bytes" where
  "delivery_json codec esc d =
     bytes_of ''{\"version\":'' @ bytes_of (decimal (dl_version d)) @
     bytes_of '',\"endpoint_id\":\"'' @ concat (map esc (dl_endpoint d)) @
     bytes_of ''\",\"content_type\":\"'' @ concat (map esc (dl_content_type d)) @
     bytes_of ''\",\"body\":\"'' @ b64_encode codec (dl_body d) @ bytes_of ''\"}''"

definition b64_padded :: "b64_codec \<Rightarrow> bool" where
  "b64_padded codec \<longleftrightarrow> (\<forall>x. length (b64_encode codec x) = (length x + 2) div 3 * 4)"

definition new_delivery :: "bytes \<Rightarrow> bytes \<Rightarrow> bytes \<Rightarrow> delivery" where
  "new_delivery ep ct bdy = \<lparr>dl_version = delivery_version, dl_endpoint = ep, dl_content_type = ct, dl_body = bdy\<rparr>"

lemma delivery_json_length:
  assumes "b64_padded codec"
  shows "length (delivery_json codec esc (new_delivery ep ct bdy)) =
    envelope_bytes (length bdy) + esc_size esc ct + esc_size esc ep"
  using assms
  by (simp add: delivery_json_def new_delivery_def envelope_bytes_def ENVELOPE_def b64_padded_def esc_size_def)

text \<open>
  C31. The fragmented preflight computes its reference. It ends after a number of polls bounded by the
  lengths of the texts, never slices inside a character, and answers what one pass over the whole
  delivery would: the body limit first, then the endpoint, then the content type as one header
  value, also when the size is already over the limit, and last the exact length of the JSON text
  against the payload limit of the jobs.
\<close>

theorem preflight_exact:
  assumes lib: "preflight_lib_ok lib esc ok" "is_str ct" "is_str ep" "b64_padded codec"
    and polls: "length ct + length ep + 2 < polls"
  shows "preflight lib ids ep (length bdy) ct polls = Some (Some
    (if length bdy > MAX_BODY_BYTES then Inl DeliveryTooLarge
     else if ep \<notin> ids then Inl UnknownDestination
     else if \<not> pf_value_ok lib ct then Inl InvalidContentType
     else let size = length (delivery_json codec esc (new_delivery ep ct bdy))
          in if size > MAX_PAYLOAD_BYTES then Inl (DeliveryEnqueue (EnqRefused (PayloadTooLarge size))) else Inr ()))"
proof -
  let ?st = "\<lparr>pf_field = 0, pf_offset = 0, pf_bytes = envelope_bytes (length bdy)\<rparr>"
  have "preflight_inv esc ok ct ep (envelope_bytes (length bdy)) ?st"
    by (simp add: preflight_inv_def is_char_boundary_def)
  moreover have "todo ct ep ?st < polls" using polls by (simp add: todo_def)
  ultimately have "preflight_polls lib [ct, ep] ?st polls =
      Some (Some (preflight_verdict esc ok ct ep (envelope_bytes (length bdy))))"
    using lib(1-3) by (intro preflight_polls_verdict)
  moreover have "pf_value_ok lib ct = list_all ok ct" using lib(1) by (simp add: preflight_lib_ok_def)
  ultimately show ?thesis
    by (simp add: preflight_def preflight_verdict_def delivery_json_length[OF lib(4)] Let_def)
qed

subsection \<open>What one delivery attempt decides\<close>

lemma retry_after_bounds: "retry_after lib hs now = Some delay \<Longrightarrow> 0 < delay \<and> delay \<le> RETRY_AFTER_CAP"
  by (auto simp: retry_after_def RETRY_AFTER_CAP_def time_units split: bind_splits if_splits)

lemma retry_cap_seconds: "RETRY_AFTER_CAP = from_secs (24 * 3600)"
  by (simp add: RETRY_AFTER_CAP_def time_units)

lemma retry_after_admitted:
  assumes "delay \<le> RETRY_AFTER_CAP"
  shows "retry_after_at_least out delay =
    Inr \<lparr>disposition = RetryAfterAtLeast (delay div 1000), summary_text = out\<rparr>"
  using assms
  by (auto simp: retry_after_at_least_def checked_delay_micros_def RETRY_AFTER_CAP_def MAX_DELAY_def time_units
      as_micros_def i64_max_def)

definition delivered :: "'s http_error + 'h http_response \<Rightarrow> bool" where
  "delivered r = (case r of Inr x \<Rightarrow> 200 \<le> hr_status x \<and> hr_status x < 300 | Inl _ \<Rightarrow> False)"

definition gone :: "'s http_error + 'h http_response \<Rightarrow> bool" where
  "gone r = (case r of Inr x \<Rightarrow> hr_status x = 410 | Inl _ \<Rightarrow> False)"

text \<open>
  The advice of a \<open>Retry-After\<close> field: a positive number of seconds, or a date in the future. Everything else is no advice.
\<close>

definition advises :: "retry_lib \<Rightarrow> (string \<times> bytes) list \<Rightarrow> int \<Rightarrow> duration \<Rightarrow> bool" where
  "advises lib hs now delay \<longleftrightarrow> 0 < delay \<and>
     (\<exists>v rest str. get_all ''retry-after'' hs = v # rest \<and> rl_to_str lib v = Some str \<and>
        (if str \<noteq> [] \<and> list_all (\<lambda>b. 48 \<le> b \<and> b \<le> 57) str
         then \<exists>n. digits_value 0 str = Some n \<and> delay = from_secs (min n u64_max)
         else \<exists>date. rl_http_date lib str = Some date \<and> int delay = date - now))"

lemma digits_have_value: "list_all (\<lambda>b. 48 \<le> b \<and> b \<le> 57) str \<Longrightarrow> \<exists>n. digits_value k str = Some n"
  by (induction str arbitrary: k) (auto simp: digit_value_def)

lemma retry_after_advises:
  "retry_after lib hs now = Some d \<longleftrightarrow> (\<exists>delay. advises lib hs now delay \<and> d = min delay RETRY_AFTER_CAP)"
proof (cases "case get_all ''retry-after'' hs of [] \<Rightarrow> None | v # _ \<Rightarrow> rl_to_str lib v")
  case None
  then show ?thesis by (auto simp: retry_after_def advises_def split: list.splits)
next
  case (Some str)
  then obtain v rest where v: "get_all ''retry-after'' hs = v # rest" "rl_to_str lib v = Some str" by (auto split: list.splits)
  show ?thesis
  proof (cases "str \<noteq> [] \<and> list_all (\<lambda>b. 48 \<le> b \<and> b \<le> 57) str")
    case True
    then obtain n where "digits_value 0 str = Some n" using digits_have_value by blast
    then have "from_secs (case parse_u64 str of None \<Rightarrow> u64_max | Some n \<Rightarrow> n) = from_secs (min n u64_max)"
      by (simp add: parse_u64_def min_def)
    with True v \<open>digits_value 0 str = Some n\<close> show ?thesis by (auto simp: retry_after_def advises_def)
  next
    case False
    have adv: "advises lib hs now delay \<longleftrightarrow> 0 < delay \<and> (\<exists>date. rl_http_date lib str = Some date \<and> int delay = date - now)" for delay
      using v False by (auto simp: advises_def)
    have ret: "retry_after lib hs now = Option.bind (Option.bind (rl_http_date lib str) (\<lambda>date. delay_until date now))
        (\<lambda>delay. if delay = 0 then None else Some (min delay RETRY_AFTER_CAP))"
      using v False by (auto simp: retry_after_def)
    show ?thesis
    proof (cases "rl_http_date lib str")
      case (Some date)
      have "0 < delay \<and> int delay = date - now \<longleftrightarrow> now < date \<and> delay = nat (date - now)" for delay by auto
      with Some show ?thesis unfolding adv ret by (auto simp: delay_until_def)
    qed (simp add: adv ret)
  qed
qed

lemma classify_cases:
  "case fst (classify_response lib ep r now) of
     Inr _ \<Rightarrow> delivered r
   | Inl err \<Rightarrow> \<not> delivered r \<and> (is_permanent err \<longleftrightarrow> gone r) \<and>
       (\<forall>m. disposition err \<noteq> Snooze m) \<and>
       (\<forall>m. disposition err = RetryAfterAtLeast m \<longleftrightarrow>
          (\<exists>x delay. r = Inr x \<and> \<not> gone r \<and> advises lib (hr_headers x) now delay \<and> m = min delay RETRY_AFTER_CAP div 1000))"
proof (cases r)
  case (Inl e)
  then show ?thesis
    by (simp add: classify_response_def delivered_def gone_def is_permanent_def retryable_def)
next
  case (Inr x)
  show ?thesis
  proof (cases "retry_after lib (hr_headers x) now")
    case None
    then have "\<not> advises lib (hr_headers x) now delay" for delay using retry_after_advises[of lib "hr_headers x" now] by auto
    with Inr None show ?thesis
      by (auto simp: classify_response_def delivered_def gone_def is_permanent_def retryable_def permanent_def Let_def)
  next
    case (Some d)
    have "(\<exists>delay. advises lib (hr_headers x) now delay \<and> m = min delay RETRY_AFTER_CAP div 1000) \<longleftrightarrow> m = d div 1000" for m
      using Some retry_after_advises[of lib "hr_headers x" now] by (metis option.inject)
    then show ?thesis using Inr Some retry_after_bounds[OF Some]
      by (auto simp: classify_response_def delivered_def gone_def is_permanent_def retryable_def permanent_def Let_def
          retry_after_admitted)
  qed
qed

text \<open>An attempt is refused before anything is sent, dropped by the worker, or classified.\<close>

lemma dispatch_cases:
  fixes env :: "'t dispatch_env"
  assumes "dispatch lib endpoints env jid d = out"
  obtains (unsent) err where "dx_answer out = Some (Inl err)" "dx_sent out = None" "dx_response out = None"
      "disposition err = (if endpoints (dl_endpoint d) \<noteq> None \<and> unix_timestamp (de_now env) \<noteq> None then Permanent else Retry)"
    | (sent) e t sig r x where "endpoints (dl_endpoint d) = Some e" "unix_timestamp (de_now env) = Some t"
      "signatures (dp_codec lib) (dp_mac lib) (ep_keys e) (dp_job_text lib jid) t (dl_body d) = Inr sig"
      "delivery_request lib d (ep_destination e) (dp_job_text lib jid) t sig = Some r"
      "x = execute_with_context (de_child_token env) (de_fresh env) (de_inject env) (ep_client e)
          (de_context env) None None (de_entry env) (de_exchange env) r"
      "dx_sent out = ex_dispatched x" "dx_response out = ex_result x"
      "dx_answer out = map_option
         (\<lambda>res. fst (classify_response (dp_retry lib) (dl_endpoint d) res (de_response_time env))) (ex_result x)"
proof (cases "\<exists>e t sig r. endpoints (dl_endpoint d) = Some e \<and> unix_timestamp (de_now env) = Some t \<and>
    signatures (dp_codec lib) (dp_mac lib) (ep_keys e) (dp_job_text lib jid) t (dl_body d) = Inr sig \<and>
    delivery_request lib d (ep_destination e) (dp_job_text lib jid) t sig = Some r")
  case True
  then obtain e t sig r where r: "endpoints (dl_endpoint d) = Some e" "unix_timestamp (de_now env) = Some t"
    "signatures (dp_codec lib) (dp_mac lib) (ep_keys e) (dp_job_text lib jid) t (dl_body d) = Inr sig"
    "delivery_request lib d (ep_destination e) (dp_job_text lib jid) t sig = Some r" by blast
  show thesis
    by (rule sent[OF r refl]) (use assms r in \<open>auto simp: dispatch_def Let_def case_prod_beta split: option.splits\<close>)
next
  case False
  have "\<exists>err. dx_answer out = Some (Inl err) \<and> dx_sent out = None \<and> dx_response out = None \<and>
      disposition err = (if endpoints (dl_endpoint d) \<noteq> None \<and> unix_timestamp (de_now env) \<noteq> None then Permanent else Retry)"
  proof (cases "endpoints (dl_endpoint d) = None \<or> unix_timestamp (de_now env) = None")
    case True
    then show ?thesis using assms by (auto simp: dispatch_def retryable_def split: option.splits)
  next
    case ready: False
    then obtain e t where "endpoints (dl_endpoint d) = Some e" "unix_timestamp (de_now env) = Some t" by auto
    then show ?thesis using assms False
      by (cases "signatures (dp_codec lib) (dp_mac lib) (ep_keys e) (dp_job_text lib jid) t (dl_body d)")
        (auto simp: dispatch_def permanent_def Let_def)
  qed
  then show thesis using unsent by blast
qed

text \<open>
  C34. What the jobs engine is told about a delivery. An attempt is complete exactly when the receiver
  answered with a success status. It fails for good exactly when the receiver answered that it is gone or
  when no request can be built from the payload; a missing endpoint, an unusable clock, every
  other status and every transport failure are retryable. The engine gets a delay floor exactly when such a
  status came with a \<open>Retry-After\<close> of a positive number of seconds or a future date, and the floor is that delay, cut to
  24 hours; without one the retry is left to the ordinary backoff of the jobs, and it is never a snooze.
\<close>

theorem dispatch_disposition:
  fixes env :: "'t dispatch_env"
  assumes "dispatch lib endpoints env jid d = out"
  shows "(dx_answer out = Some (Inr ()) \<longleftrightarrow> (\<exists>r. dx_response out = Some r \<and> delivered r)) \<and>
    (\<forall>err. dx_answer out = Some (Inl err) \<longrightarrow>
      (is_permanent err \<longleftrightarrow>
        (\<exists>r. dx_response out = Some r \<and> gone r) \<or>
        (dx_response out = None \<and> endpoints (dl_endpoint d) \<noteq> None \<and> unix_timestamp (de_now env) \<noteq> None)) \<and>
      (\<forall>m. disposition err \<noteq> Snooze m) \<and>
      (\<forall>m. disposition err = RetryAfterAtLeast m \<longleftrightarrow>
        (\<exists>x delay. dx_response out = Some (Inr x) \<and> hr_status x \<noteq> 410 \<and>
           advises (dp_retry lib) (hr_headers x) (de_response_time env) delay \<and> m = min delay (from_secs (24 * 3600)) div 1000))) \<and>
    (dx_sent out \<noteq> None \<and> dx_answer out \<noteq> None \<longrightarrow> dx_response out \<noteq> None)"
  using assms
proof (cases rule: dispatch_cases)
  case unsent
  then show ?thesis by (simp add: is_permanent_def)
next
  case (sent e t sig r x)
  show ?thesis
  proof (cases "ex_result x")
    case None
    with sent show ?thesis by simp
  next
    case (Some res)
    with sent show ?thesis
      using classify_cases[where lib = "dp_retry lib" and ep = "dl_endpoint d" and r = res and now = "de_response_time env", unfolded retry_cap_seconds]
      by (auto simp: gone_def split: sum.splits)
  qed
qed

text \<open>
  C30. What leaves the service verifies. Every request that an attempt hands to the transport goes to
  the endpoint's own origin and carries the delivery unchanged, and every receiver that shares a key
  with the endpoint, the active or the previous one of either side, verifies it with the job's
  identity and the attempt's time while its clock is within 300 seconds.
\<close>

theorem dispatched_delivery_verifies:
  fixes env :: "'t dispatch_env"
  assumes lib: "codec_ok (dp_codec lib)" "inject_ok (de_inject env)"
    and out: "dispatch lib endpoints env jid d = out" "dx_sent out = Some request"
    and e: "endpoints (dl_endpoint d) = Some e" "unix_timestamp (de_now env) = Some t"
    and receiver: "key \<in> ring_keys (ep_keys e)" "key \<in> ring_keys receiver" "\<bar>t - system_seconds now\<bar> \<le> 300"
  shows "rq_body request = dl_body d \<and> framed (cl_target (ep_client e)) request \<and>
    get_all ''content-type'' (rq_headers request) = [dl_content_type d] \<and>
    verify (dp_codec lib) (dp_mac lib) receiver (rq_headers request) (rq_body request) now =
      Inr \<lparr>vm_message_id = dp_job_text lib jid, vm_timestamp = t\<rparr>"
  using out(1)
proof (cases rule: dispatch_cases)
  case unsent
  with out(2) show ?thesis by simp
next
  case (sent e' t' sig r x)
  with e have same: "e' = e" "t' = t" by simp_all
  have disp: "ex_dispatched (execute_with_context (de_child_token env) (de_fresh env) (de_inject env) (ep_client e)
      (de_context env) None None (de_entry env) (de_exchange env) r) = Some request"
    using sent(5,6) out(2) same by simp
  note kept = dispatched_request[OF lib(2) disp]
  have r: "rq_headers r = (''content-type'', dl_content_type d) # delivery_headers (dp_job_text lib jid) t sig"
    "rq_body r = dl_body d"
    using sent(4) same by (auto simp: delivery_request_def Let_def split: option.splits if_splits)
  have "i64_range t" using e(2) by (auto simp: unix_timestamp_def i64_checked_def split: if_splits)
  from signed_headers_verify[OF lib(1) sent(3)[unfolded same] receiver(1,2) this receiver(3), of "rq_headers request"]
  show ?thesis using kept(2,3) kept(4) r by (simp add: delivery_headers_def get_all_def)
qed

subsection \<open>Concrete deliveries\<close>

definition demo_preflight :: preflight_lib where
  "demo_preflight = \<lparr>pf_value_ok = list_all (\<lambda>b. 32 \<le> b), pf_json = (\<lambda>s. Some (0x22 # concat (map (\<lambda>b. [b]) s) @ [0x22]))\<rparr>"

theorem preflight_exact_witness:
  "preflight demo_preflight {[98]} [98] 1 [97, 10] 9 = Some (Some (Inl InvalidContentType))"
proof -
  let ?codec = "\<lparr>b64_encode = (\<lambda>x. replicate ((length x + 2) div 3 * 4) 65), b64_decode = (\<lambda>_. None)\<rparr>"
  have "preflight_lib_ok demo_preflight (\<lambda>b. [b]) (\<lambda>b. 32 \<le> b)" "b64_padded ?codec"
    by (simp_all add: preflight_lib_ok_def demo_preflight_def b64_padded_def)
  moreover have "is_str [97, 10]" "is_str [98]"
    by (auto simp: is_str_def is_char_boundary_def less_Suc_eq intro!: bexI[of _ 1])
  ultimately show ?thesis
    using preflight_exact[of demo_preflight "\<lambda>b. [b]" "\<lambda>b. 32 \<le> b" "[97, 10]" "[98]" ?codec 9 "{[98]}" "[0]"]
    by (simp add: MAX_BODY_BYTES_def demo_preflight_def)
qed

definition demo_delivery :: delivery where
  "demo_delivery = new_delivery [98] [97] [7]"

definition demo_dispatch_lib :: dispatch_lib where
  "demo_dispatch_lib = \<lparr>dp_codec = demo_codec, dp_mac = (\<lambda>k m. m @ k), dp_job_text = (\<lambda>_. [65]),
     dp_value_ok = (\<lambda>_. True), dp_request_uri = (\<lambda>_. map_option (\<lambda>a. (HTTPS, a)) (rq_authority demo_request)),
     dp_retry = \<lparr>rl_to_str = Some, rl_http_date = (\<lambda>_. None)\<rparr>\<rparr>"

definition demo_dispatch_env :: "unit dispatch_env" where
  "demo_dispatch_env = \<lparr>de_now = 1000 * 1000000000, de_response_time = 1000 * 1000000000, de_child_token = id,
     de_fresh = (), de_inject = id, de_context = unbounded (), de_entry = demo_reading 0,
     de_exchange = \<lparr>stopped_first = False, before_send = demo_reading 1, sent = ScopeStopped,
       after_head = demo_reading 2, frames = [], after_body = demo_reading 3, at_return = demo_reading 4\<rparr>\<rparr>"

definition demo_endpoint :: endpoint where
  "demo_endpoint = \<lparr>ep_destination = \<lparr>url_scheme = ''https'', url_username = [], url_password = None,
     url_host = Some ''provider.example'', url_port = Some 443, url_fragment = None\<rparr>,
     ep_client = demo_client, ep_keys = demo_ring [1] (Some [2])\<rparr>"

theorem dispatch_disposition_witness:
  "\<exists>err. dx_answer (dispatch demo_dispatch_lib Map.empty demo_dispatch_env (JobId 1) demo_delivery) = Some (Inl err) \<and>
     \<not> is_permanent err"
proof -
  let ?out = "dispatch demo_dispatch_lib Map.empty demo_dispatch_env (JobId 1) demo_delivery"
  obtain err where "dx_answer ?out = Some (Inl err)" "dx_response ?out = None" by (simp add: dispatch_def)
  with dispatch_disposition[OF refl, of demo_dispatch_lib Map.empty demo_dispatch_env "JobId 1" demo_delivery]
  show ?thesis by auto
qed

theorem dispatched_delivery_verifies_witness:
  "\<exists>request. dx_sent (dispatch demo_dispatch_lib [[98] \<mapsto> demo_endpoint] demo_dispatch_env (JobId 1) demo_delivery) = Some request \<and>
     verify demo_codec (\<lambda>k m. m @ k) (demo_ring [2] None) (rq_headers request) (rq_body request) (1200 * 1000000000)
       = Inr \<lparr>vm_message_id = [65], vm_timestamp = 1000\<rparr>"
proof -
  let ?out = "dispatch demo_dispatch_lib [[98] \<mapsto> demo_endpoint] demo_dispatch_env (JobId 1) demo_delivery"
  have t: "unix_timestamp (de_now demo_dispatch_env) = Some 1000"
    by (simp add: unix_timestamp_def demo_dispatch_env_def i64_checked_def i64_range_def)
  obtain sig where sig: "signatures demo_codec (\<lambda>k m. m @ k) (demo_ring [1] (Some [2])) [65] 1000 [7] = Inr sig"
    by (simp add: signatures_def ensure_body_size_def ensure_message_id_def MAX_BODY_BYTES_def
        MAX_MESSAGE_ID_BYTES_def Let_def)
  let ?r = "\<lparr>rq_method = ''POST'', rq_scheme = Some HTTPS, rq_authority = rq_authority demo_request, rq_version = HTTP_11,
    rq_headers = (''content-type'', [97]) # delivery_headers [65] 1000 sig, rq_body = [7]\<rparr>"
  have req: "delivery_request demo_dispatch_lib demo_delivery (ep_destination demo_endpoint) [65] 1000 sig = Some ?r"
    by (simp add: delivery_request_def demo_dispatch_lib_def demo_request_def demo_delivery_def new_delivery_def Let_def
        delivery_headers_def)
  have on: "on_origin demo_target ?r"
    using demo_on_origin
    by (auto simp: on_origin_def demo_request_def get_all_def delivery_headers_def)
  have scope: "in_scope (child id 0 (unbounded ()) (from_secs 1)) (unbounded ()) (demo_reading t)" if "t < 2" for t
    using that by (simp add: in_scope_def stopped_def child_def unbounded_def context_new_def Let_def demo_reading_def
        expired_def remaining_at_def deadline_new_def duration_since_def time_units)
  obtain request where request: "dx_sent ?out = Some request"
    using scope[of 0] scope[of 1] on t sig req
    by (auto simp: dispatch_def demo_delivery_def new_delivery_def demo_endpoint_def demo_dispatch_lib_def
        execute_with_context_def admit_request_def demo_dispatch_env_def check_contexts_in_scope dispatches_def
        demo_client_def demo_reading_def exchange_def Let_def case_prod_beta)
  have "codec_ok (dp_codec demo_dispatch_lib)" "inject_ok (de_inject demo_dispatch_env)"
    using demo_codec_ok by (simp_all add: demo_dispatch_lib_def inject_ok_def demo_dispatch_env_def)
  from dispatched_delivery_verifies[OF this refl request _ t, of demo_endpoint "[2]" "demo_ring [2] None" "1200 * 1000000000"]
  have "verify demo_codec (\<lambda>k m. m @ k) (demo_ring [2] None) (rq_headers request) (rq_body request) (1200 * 1000000000)
       = Inr \<lparr>vm_message_id = [65], vm_timestamp = 1000\<rparr>"
    by (auto simp: demo_delivery_def new_delivery_def demo_endpoint_def ring_keys_def demo_ring_def system_seconds_def
        demo_dispatch_lib_def)
  with request show ?thesis by blast
qed

end
