(* ===== verification/MessageWire.thy ===== *)
theory MessageWire
  imports Prelude
begin

text \<open>
  \<open>crates/infra-messaging/src/wire.rs\<close>, \<open>prepared.rs\<close> and \<open>error.rs\<close>: the envelope of a domain event on
  the broker, its bounded preparation, and the identities of dead letters and redrives.

  Text is the list of its UTF-8 bytes. A header map is the list of its names with their values, each name
  once. A point in time, its RFC 3339 form and SHA-256 belong to other packages and are parameters.
\<close>

unbundle bit_operations_syntax

subsection \<open>Vocabulary\<close>

definition HEADER_LIMIT_BYTES :: nat where "HEADER_LIMIT_BYTES = 8 * 1024"
definition NATIVE_HEADER_LIMIT_BYTES :: nat where "NATIVE_HEADER_LIMIT_BYTES = 65535"
definition MESSAGE_ID :: string where "MESSAGE_ID = ''Message-Id''"
definition EVENT_TYPE :: string where "EVENT_TYPE = ''Event-Type''"
definition EVENT_SCHEMA :: string where "EVENT_SCHEMA = ''Event-Schema''"
definition CREATED_AT :: string where "CREATED_AT = ''Created-At''"
definition NATS_MSG_ID :: string where "NATS_MSG_ID = ''Nats-Msg-Id''"
definition ORIGINAL_SUBJECT :: string where "ORIGINAL_SUBJECT = ''Original-Subject''"
definition DEAD_LETTER_REASON :: string where "DEAD_LETTER_REASON = ''Dead-Letter-Reason''"
definition DEAD_LETTER_ID_PREFIX :: string where "DEAD_LETTER_ID_PREFIX = ''dlq-''"

lemmas header_names = MESSAGE_ID_def EVENT_TYPE_def EVENT_SCHEMA_def CREATED_AT_def NATS_MSG_ID_def
  ORIGINAL_SUBJECT_def DEAD_LETTER_REASON_def

datatype messaging_error =
    Configuration string | ConnectionFailed | Authentication | Topology | BrokerTimedOut duration
  | BrokerCancelled | Draining | Envelope string | Bounds

datatype dead_letter_reason = Malformed | PermanentReason | ExhaustedReason

definition dead_letter_reason_text :: "dead_letter_reason \<Rightarrow> string" where
  "dead_letter_reason_text r =
     (case r of Malformed \<Rightarrow> ''malformed'' | PermanentReason \<Rightarrow> ''permanent'' | ExhaustedReason \<Rightarrow> ''exhausted'')"

record 't time_lib =
  tl_format :: "'t \<Rightarrow> bytes option"
  tl_parse :: "bytes \<Rightarrow> 't option"
  tl_zero :: "'t \<Rightarrow> bool"

subsection \<open>Header maps of the broker\<close>

type_synonym nats_headers = "(string \<times> bytes list) list"

definition nats_insert :: "string \<Rightarrow> bytes \<Rightarrow> nats_headers \<Rightarrow> nats_headers" where
  "nats_insert n v hs = filter (\<lambda>h. fst h \<noteq> n) hs @ [(n, [v])]"

definition nats_get :: "nats_headers \<Rightarrow> string \<Rightarrow> bytes option" where
  "nats_get hs n = (case map_of hs n of Some (v # _) \<Rightarrow> Some v | _ \<Rightarrow> None)"

definition header_value :: "nats_headers \<Rightarrow> string \<Rightarrow> bytes" where
  "header_value hs n = (case nats_get hs n of None \<Rightarrow> [] | Some v \<Rightarrow> v)"

definition NATS_PREAMBLE :: nat where "NATS_PREAMBLE = length ''NATS/1.0'' + 4"

definition values_bytes :: "string \<Rightarrow> bytes list \<Rightarrow> nat" where
  "values_bytes n vs = sum_list (map (\<lambda>v. length n + 2 + length v + 2) vs)"

definition encoded_header_bytes :: "nats_headers \<Rightarrow> nat" where
  "encoded_header_bytes hs =
     (if hs = [] then 0 else sum_list (map (\<lambda>(n, vs). values_bytes n vs) hs) + NATS_PREAMBLE)"

definition validate_header_bytes :: "nats_headers \<Rightarrow> messaging_error + unit" where
  "validate_header_bytes hs =
     (if encoded_header_bytes hs > HEADER_LIMIT_BYTES then Inl (Envelope ''encoded headers exceed 8 KiB'') else Inr ())"

subsection \<open>Text, subjects, schemas and times\<close>

text \<open>The scan of \<open>valid_text\<close>; \<^term>\<open>None\<close> is the index out of bounds that panics.\<close>

fun text_scan :: "bytes \<Rightarrow> bool option" where
  "text_scan [] = Some True"
| "text_scan (b # bs) =
     (if b < 0x20 \<or> b = 0x7F then Some False
      else if b = 0xC2 then
        (case bs of [] \<Rightarrow> None | c # _ \<Rightarrow> if c < 0xA0 then Some False else text_scan bs)
      else text_scan bs)"

definition valid_text :: "bytes \<Rightarrow> bool" where
  "valid_text v \<longleftrightarrow> v \<noteq> [] \<and> length v \<le> 256 \<and> text_scan v = Some True"

definition validate_text :: "bytes \<Rightarrow> messaging_error + unit" where
  "validate_text v = (if valid_text v then Inr () else Inl (Envelope ''header identity is invalid''))"

fun subject_scan :: "bool \<Rightarrow> bytes \<Rightarrow> bool" where
  "subject_scan previous_dot [] = (\<not> previous_dot)"
| "subject_scan previous_dot (b # bs) =
     (if b \<in> {0x20, 0x09, 0x0D, 0x0A, 0x2A, 0x3E} then False
      else if b = 0x2E \<and> previous_dot then False
      else subject_scan (b = 0x2E) bs)"

definition valid_subject :: "bytes \<Rightarrow> bool" where
  "valid_subject s = subject_scan True s"

fun tokens_match :: "bytes list \<Rightarrow> bytes list \<Rightarrow> bool" where
  "tokens_match [] [] = True"
| "tokens_match (f # fs) (s # ss) =
     (if f = [0x3E] then True else if f = [0x2A] then tokens_match fs ss else f = s \<and> tokens_match fs ss)"
| "tokens_match _ _ = False"

definition subject_matches :: "bytes \<Rightarrow> bytes \<Rightarrow> bool" where
  "subject_matches flt subject \<longleftrightarrow>
     valid_subject subject \<and> tokens_match (split_on (\<lambda>b. b = 0x2E) flt) (split_on (\<lambda>b. b = 0x2E) subject)"

text \<open>\<open>str::parse::<u16>\<close> admits a leading plus sign, which the digit check refuses afterwards.\<close>

definition parse_u16 :: "bytes \<Rightarrow> nat option" where
  "parse_u16 v =
     (let ds = (case v of b # rest \<Rightarrow> if b = 0x2B then rest else v | [] \<Rightarrow> [])
      in if ds = [] then None
         else case digits_value 0 ds of Some n \<Rightarrow> if n \<le> u16_max then Some n else None | None \<Rightarrow> None)"

definition all_digits :: "bytes \<Rightarrow> bool" where
  "all_digits = list_all (\<lambda>b. 48 \<le> b \<and> b \<le> 57)"

definition parse_schema :: "bytes \<Rightarrow> messaging_error + nat" where
  "parse_schema v =
     (case strip_prefix (bytes_of ''v'') v of
        None \<Rightarrow> Inl (Envelope ''event schema is invalid'')
      | Some raw \<Rightarrow>
          (case parse_u16 raw of
             None \<Rightarrow> Inl (Envelope ''event schema is invalid'')
           | Some n \<Rightarrow>
               if n = 0 \<or> take 1 raw = [48] \<or> \<not> all_digits raw then Inl (Envelope ''event schema is invalid'')
               else Inr n))"

definition format_timestamp :: "'t time_lib \<Rightarrow> 't \<Rightarrow> messaging_error + bytes" where
  "format_timestamp lib t =
     (case tl_format lib t of None \<Rightarrow> Inl (Envelope ''creation time is out of range'') | Some s \<Rightarrow> Inr s)"

definition parse_created_at :: "'t time_lib \<Rightarrow> bytes \<Rightarrow> messaging_error + 't" where
  "parse_created_at lib v =
     (case tl_parse lib v of None \<Rightarrow> Inl (Envelope ''creation time is invalid'') | Some t \<Rightarrow> Inr t)"

definition required_value :: "bytes option \<Rightarrow> messaging_error + bytes" where
  "required_value v =
     (case v of
        None \<Rightarrow> Inl (Envelope ''required header is missing'')
      | Some x \<Rightarrow> bind_result (validate_text x) (\<lambda>_. Inr x))"

definition required_header :: "nats_headers \<Rightarrow> string \<Rightarrow> messaging_error + bytes" where
  "required_header hs n = required_value (nats_get hs n)"

subsection \<open>Prepared events\<close>

record 't prepared_event =
  ev_subject :: bytes
  ev_message_id :: bytes
  ev_publication_id :: bytes
  ev_event_type :: bytes
  ev_schema_version :: nat
  ev_occurred_at :: 't
  ev_created_at :: bytes
  ev_payload :: bytes

definition event_schema :: "'t prepared_event \<Rightarrow> bytes" where
  "event_schema e = bytes_of (''v'' @ decimal (ev_schema_version e))"

record event_writer =
  ew_bytes :: bytes
  ew_total :: nat

definition event_write :: "nat \<Rightarrow> event_writer \<Rightarrow> bytes \<Rightarrow> unit + event_writer" where
  "event_write limit w buf =
     (if ew_total w + length buf > u64_max then Inl ()
      else Inr \<lparr>ew_bytes = ew_bytes w @ take (min (length buf) (limit - length (ew_bytes w))) buf,
                ew_total = ew_total w + length buf\<rparr>)"

fun event_writes :: "nat \<Rightarrow> event_writer \<Rightarrow> bytes list \<Rightarrow> unit + event_writer" where
  "event_writes limit w [] = Inr w"
| "event_writes limit w (b # bs) = bind_result (event_write limit w b) (\<lambda>w'. event_writes limit w' bs)"

text \<open>
  One typed occurrence: its identity and time, the constants of its payload type, and what the
  payload's serializer writes before it ends or fails.
\<close>

record 't event =
  oc_id :: bytes
  oc_time :: 't
  oc_type :: bytes
  oc_version :: nat
  oc_chunks :: "bytes list"
  oc_fails :: bool

definition prepare_event :: "'t time_lib \<Rightarrow> bytes \<Rightarrow> 't event \<Rightarrow> nat \<Rightarrow> messaging_error + 't prepared_event" where
  "prepare_event lib subject e max_payload =
     (if \<not> valid_subject subject then Inl (Envelope ''subject is invalid'')
      else bind_result
        (case event_writes max_payload \<lparr>ew_bytes = [], ew_total = 0\<rparr> (oc_chunks e) of
           Inl _ \<Rightarrow> Inl (Envelope ''event payload cannot be serialized'')
         | Inr w \<Rightarrow> if oc_fails e then Inl (Envelope ''event payload cannot be serialized'') else Inr w)
        (\<lambda>w. if ew_total w > max_payload then Inl (Envelope ''payload exceeds configured maximum'')
              else bind_result (validate_text (oc_id e)) (\<lambda>_.
                if tl_zero lib (oc_time e) then Inl (Envelope ''event identity is invalid'')
                else bind_result (format_timestamp lib (oc_time e)) (\<lambda>created.
                  Inr \<lparr>ev_subject = subject, ev_message_id = oc_id e, ev_publication_id = oc_id e,
                       ev_event_type = oc_type e, ev_schema_version = oc_version e, ev_occurred_at = oc_time e,
                       ev_created_at = created, ev_payload = ew_bytes w\<rparr>))))"

definition validate_prepared :: "'t time_lib \<Rightarrow> 't prepared_event \<Rightarrow> messaging_error + bytes" where
  "validate_prepared lib e =
     bind_result (validate_text (ev_message_id e)) (\<lambda>_.
     bind_result (validate_text (ev_publication_id e)) (\<lambda>_.
     bind_result (validate_text (ev_event_type e)) (\<lambda>_.
       if ev_schema_version e = 0 \<or> tl_zero lib (ev_occurred_at e)
       then Inl (Envelope ''event identity is invalid'')
       else format_timestamp lib (ev_occurred_at e))))"

definition encode_prepared :: "'t prepared_event \<Rightarrow> messaging_error + nats_headers" where
  "encode_prepared e =
     (let hs = nats_insert NATS_MSG_ID (ev_publication_id e)
           (nats_insert CREATED_AT (ev_created_at e)
           (nats_insert EVENT_SCHEMA (event_schema e)
           (nats_insert EVENT_TYPE (ev_event_type e)
           (nats_insert MESSAGE_ID (ev_message_id e) []))))
      in bind_result (validate_header_bytes hs) (\<lambda>_. Inr hs))"

subsection \<open>Decoding\<close>

record 't inbound_envelope =
  ie_message_id :: bytes
  ie_event_type :: bytes
  ie_schema_version :: nat
  ie_occurred_at :: 't
  ie_payload :: bytes

definition header_slot :: "string \<Rightarrow> nat option" where
  "header_slot n =
     (if n = MESSAGE_ID then Some 0 else if n = EVENT_TYPE then Some 1 else if n = EVENT_SCHEMA then Some 2
      else if n = CREATED_AT then Some 3 else if n = NATS_MSG_ID then Some 4 else None)"

text \<open>The one pass of \<open>decode_envelope\<close>: the encoded size and the five slots.\<close>

fun scan_headers :: "nats_headers \<Rightarrow> nat \<times> bytes option list \<Rightarrow> nat \<times> bytes option list" where
  "scan_headers [] acc = acc"
| "scan_headers ((n, vs) # hs) (encoded, found) =
     scan_headers hs
       (encoded + values_bytes n vs,
        case header_slot n of
          None \<Rightarrow> found
        | Some i \<Rightarrow> found[i := (case vs of [] \<Rightarrow> None | v # _ \<Rightarrow> Some v)])"

definition decode_envelope ::
  "'t time_lib \<Rightarrow> bytes \<Rightarrow> nats_headers \<Rightarrow> bytes \<Rightarrow> messaging_error + 't inbound_envelope" where
  "decode_envelope lib subject hs payload =
     (if \<not> valid_subject subject then Inl (Envelope ''subject is invalid'')
      else let (encoded, found) = scan_headers hs (NATS_PREAMBLE, replicate 5 None)
           in if encoded > HEADER_LIMIT_BYTES then Inl (Envelope ''encoded headers exceed 8 KiB'')
              else bind_result (required_value (found ! 0)) (\<lambda>mid.
                   bind_result (required_value (found ! 1)) (\<lambda>typ.
                   bind_result (required_value (found ! 2)) (\<lambda>schema.
                   bind_result (required_value (found ! 4)) (\<lambda>_.
                   bind_result (parse_schema schema) (\<lambda>version.
                   bind_result (parse_created_at lib (case found ! 3 of None \<Rightarrow> [] | Some v \<Rightarrow> v)) (\<lambda>t.
                     if tl_zero lib t then Inl (Envelope ''creation time is required'')
                     else Inr \<lparr>ie_message_id = mid, ie_event_type = typ, ie_schema_version = version,
                               ie_occurred_at = t, ie_payload = payload\<rparr>)))))))"

subsection \<open>Dead letters\<close>

definition hex_digit :: "nat \<Rightarrow> 8 word" where
  "hex_digit n = bytes_of ''0123456789abcdef'' ! n"

definition prefixed_digest_hex :: "string \<Rightarrow> bytes \<Rightarrow> bytes" where
  "prefixed_digest_hex prefix digest =
     bytes_of prefix @ concat (map (\<lambda>b. [hex_digit (unat (drop_bit 4 b)), hex_digit (unat (b AND 15))]) digest)"

definition record_input :: "bytes \<Rightarrow> nat \<Rightarrow> bytes \<Rightarrow> bytes \<Rightarrow> bytes" where
  "record_input stream seqno stored publication_id =
     stream @ [0] @ bytes_of (decimal seqno) @ [0] @ stored @ [0] @ publication_id"

definition record_id ::
  "'t time_lib \<Rightarrow> (bytes \<Rightarrow> bytes) \<Rightarrow> string \<Rightarrow> bytes \<Rightarrow> nat \<Rightarrow> 't \<Rightarrow> bytes \<Rightarrow> messaging_error + bytes" where
  "record_id lib sha prefix stream seqno stored_at publication_id =
     bind_result (format_timestamp lib stored_at) (\<lambda>stored.
       Inr (prefixed_digest_hex prefix (sha (record_input stream seqno stored publication_id))))"

definition dead_letter_id ::
  "'t time_lib \<Rightarrow> (bytes \<Rightarrow> bytes) \<Rightarrow> bytes \<Rightarrow> nat \<Rightarrow> 't \<Rightarrow> bytes \<Rightarrow> messaging_error + bytes" where
  "dead_letter_id lib sha = record_id lib sha DEAD_LETTER_ID_PREFIX"

fun copy_headers :: "nats_headers \<Rightarrow> string list \<Rightarrow> nats_headers \<Rightarrow> nats_headers" where
  "copy_headers original [] hs = hs"
| "copy_headers original (n # ns) hs =
     copy_headers original ns (let v = header_value original n in if v \<noteq> [] then nats_insert n v hs else hs)"

definition dead_letter_headers ::
  "nats_headers \<Rightarrow> bytes \<Rightarrow> bytes \<Rightarrow> bytes \<Rightarrow> dead_letter_reason \<Rightarrow> nats_headers" where
  "dead_letter_headers original subject stream transfer_id reason =
     (let hs = copy_headers original
                 [MESSAGE_ID, EVENT_TYPE, EVENT_SCHEMA, CREATED_AT, ''traceparent'', ''tracestate''] [];
          hs = (if header_value hs MESSAGE_ID = [] then nats_insert MESSAGE_ID transfer_id hs else hs)
      in nats_insert ''Nats-Expected-Stream'' stream
         (nats_insert DEAD_LETTER_REASON (bytes_of (dead_letter_reason_text reason))
         (nats_insert ORIGINAL_SUBJECT subject
         (nats_insert NATS_MSG_ID transfer_id hs))))"

record dead_letter_bounds_result =
  dlb_total :: nat
  dlb_headers :: nat

definition checked_sum :: "nat \<Rightarrow> nat list \<Rightarrow> nat option" where
  "checked_sum start ns = fold (\<lambda>n acc. Option.bind acc (\<lambda>a. if a + n \<le> u64_max then Some (a + n) else None)) ns (Some start)"

definition pull_delivery_bytes :: "nat \<Rightarrow> nat \<Rightarrow> nat \<Rightarrow> nat \<Rightarrow> nat \<Rightarrow> nat option" where
  "pull_delivery_bytes payload_bytes subject_bytes stream_bytes consumer_bytes domain_bytes =
     checked_sum payload_bytes
       [HEADER_LIMIT_BYTES, subject_bytes, stream_bytes, consumer_bytes, max domain_bytes 1,
        length ''$JS.ACK.'' + 8 + 3 + 5 * 21]"

definition dead_letter_bounds :: "nat \<Rightarrow> nat \<Rightarrow> nat \<Rightarrow> dead_letter_bounds_result option" where
  "dead_letter_bounds source_bytes subject_bytes stream_bytes =
     Option.bind
       (checked_sum 0
         [length NATS_MSG_ID, 4, length DEAD_LETTER_ID_PREFIX + 64,
          length ORIGINAL_SUBJECT, 4, subject_bytes,
          length DEAD_LETTER_REASON, 4,
          Max (set (map (\<lambda>r. length (dead_letter_reason_text r)) [Malformed, PermanentReason, ExhaustedReason])),
          length ''Nats-Expected-Stream'', 4, stream_bytes])
       (\<lambda>additions.
          Option.bind (checked_sum source_bytes [additions]) (\<lambda>tot.
          map_option (\<lambda>h. \<lparr>dlb_total = tot, dlb_headers = h\<rparr>)
            (checked_sum (min source_bytes HEADER_LIMIT_BYTES) [additions])))"

record 't dead_letter_record =
  dr_headers :: nats_headers
  dr_payload :: bytes
  dr_stream :: bytes
  dr_sequence :: nat
  dr_stored_at :: 't

definition restore_dead_letter ::
  "'t time_lib \<Rightarrow> (bytes \<Rightarrow> bytes) \<Rightarrow> 't dead_letter_record \<Rightarrow> messaging_error + 't prepared_event" where
  "restore_dead_letter lib sha r =
     (let subject = header_value (dr_headers r) ORIGINAL_SUBJECT
      in if \<not> valid_subject subject then Inl (Envelope ''dead-letter original subject is invalid'')
         else bind_result (required_header (dr_headers r) MESSAGE_ID) (\<lambda>mid.
              bind_result (required_header (dr_headers r) EVENT_TYPE) (\<lambda>typ.
              bind_result (bind_result (required_header (dr_headers r) EVENT_SCHEMA) parse_schema) (\<lambda>version.
              bind_result (parse_created_at lib (header_value (dr_headers r) CREATED_AT)) (\<lambda>t.
                if tl_zero lib t then Inl (Envelope ''dead-letter creation time is required'')
                else bind_result
                  (record_id lib sha ''redrive-'' (dr_stream r) (dr_sequence r) (dr_stored_at r)
                     (header_value (dr_headers r) NATS_MSG_ID)) (\<lambda>pub.
                  bind_result (format_timestamp lib t) (\<lambda>created.
                    Inr \<lparr>ev_subject = subject, ev_message_id = mid, ev_publication_id = pub, ev_event_type = typ,
                         ev_schema_version = version, ev_occurred_at = t, ev_created_at = created,
                         ev_payload = dr_payload r\<rparr>)))))))"

subsection \<open>The byte scan of a text against its characters\<close>

text \<open>UTF-8, and the reference: no control character.\<close>

definition utf8_char :: "nat \<Rightarrow> nat list" where
  "utf8_char c =
     (if c < 0x80 then [c]
      else if c < 0x800 then [0xC0 + c div 64, 0x80 + c mod 64]
      else if c < 0x10000 then [0xE0 + c div 4096, 0x80 + c div 64 mod 64, 0x80 + c mod 64]
      else [0xF0 + c div 262144, 0x80 + c div 4096 mod 64, 0x80 + c div 64 mod 64, 0x80 + c mod 64])"

definition utf8 :: "ustr \<Rightarrow> bytes" where
  "utf8 s = map of_nat (concat (map utf8_char s))"

definition scalar :: "nat \<Rightarrow> bool" where
  "scalar c \<longleftrightarrow> c < 0xD800 \<or> 0xE000 \<le> c \<and> c < 0x110000"

lemma byte_cmp:
  assumes "n < 256"
  shows "(of_nat n :: 8 word) < 0x20 \<longleftrightarrow> n < 32" "(of_nat n :: 8 word) = 0x7F \<longleftrightarrow> n = 127"
    "(of_nat n :: 8 word) = 0xC2 \<longleftrightarrow> n = 194" "(of_nat n :: 8 word) < 0xA0 \<longleftrightarrow> n < 160"
  using assms by (simp_all add: word_less_nat_alt unat_of_nat word_unat_eq_iff)

lemma text_scan_high:
  "128 \<le> n \<Longrightarrow> n < 256 \<Longrightarrow> n \<noteq> 194 \<Longrightarrow> text_scan (of_nat n # bs) = text_scan bs"
  by (simp add: byte_cmp)

lemma text_scan_highs:
  "list_all (\<lambda>n. 128 \<le> n \<and> n < 256 \<and> n \<noteq> 194) ns \<Longrightarrow> text_scan (map of_nat ns @ bs) = text_scan bs"
proof (induction ns)
  case (Cons n ns)
  then show ?case using text_scan_high[of n] by (simp del: text_scan.simps)
qed simp

lemma low_bits: "(n :: nat) mod 64 < 128" "n mod 64 \<noteq> 66"
  using mod_less_divisor[of 64 n] by linarith+

lemma text_scan_char:
  assumes "scalar c"
  shows "text_scan (map of_nat (utf8_char c) @ bs) = (if is_control c then Some False else text_scan bs)"
proof -
  consider "c < 0x80" | "0x80 \<le> c" "c < 0x800" | "0x800 \<le> c" "c < 0x10000" | "0x10000 \<le> c" "c < 0x110000"
    using assms by (fastforce simp: scalar_def)
  then show ?thesis
  proof cases
    case 1
    then show ?thesis by (auto simp: utf8_char_def byte_cmp is_control_def)
  next
    case 2
    have range: "2 \<le> c div 64" "c div 64 < 32" "c mod 64 < 64" using 2 by auto
    have c: "c = c div 64 * 64 + c mod 64" by simp
    show ?thesis
    proof (cases "c div 64 = 2")
      case True
      define d where "d = 0x80 + c mod 64"
      have d: "128 \<le> d" "d < 192" "utf8_char c = [194, d]" using 2 True range(3) by (simp_all add: d_def utf8_char_def)
      have "c = d" using c True by (simp add: d_def)
      then have "is_control c \<longleftrightarrow> d < 160" using d(1) by (simp add: is_control_def)
      moreover have "text_scan (of_nat d # bs) = text_scan bs" if "\<not> d < 160"
        using that d by (intro text_scan_high) auto
      ultimately show ?thesis using d byte_cmp(4)[of d] by simp
    next
      case False
      then have "\<not> is_control c" using range c 2 unfolding is_control_def by auto
      moreover have "list_all (\<lambda>n. 128 \<le> n \<and> n < 256 \<and> n \<noteq> 194) (utf8_char c)"
        using 2 False range low_bits by (simp add: utf8_char_def)
      ultimately show ?thesis by (simp add: text_scan_highs)
    qed
  next
    case 3
    have "c div 4096 < 16" "c div 64 mod 64 < 64" "c mod 64 < 64" using 3 by auto
    then have "list_all (\<lambda>n. 128 \<le> n \<and> n < 256 \<and> n \<noteq> 194) (utf8_char c)"
      using 3 low_bits by (simp add: utf8_char_def)
    then show ?thesis using 3 by (simp add: text_scan_highs is_control_def)
  next
    case 4
    have "c div 262144 < 5" "c div 4096 mod 64 < 64" "c div 64 mod 64 < 64" "c mod 64 < 64" using 4 by auto
    then have "list_all (\<lambda>n. 128 \<le> n \<and> n < 256 \<and> n \<noteq> 194) (utf8_char c)"
      using 4 low_bits by (simp add: utf8_char_def)
    then show ?thesis using 4 by (simp add: text_scan_highs is_control_def)
  qed
qed

text \<open>
  The byte scan of a text is exact on every \<open>str\<close>: without decoding a character it never reads
  past the end, and it accepts exactly the texts of 1 to 256 bytes in which no Unicode control
  character (C0, delete or C1) occurs.
\<close>

lemma valid_text_exact:
  assumes "list_all scalar s"
  shows "text_scan (utf8 s) = Some (\<not> list_ex is_control s) \<and>
    (valid_text (utf8 s) \<longleftrightarrow> s \<noteq> [] \<and> length (utf8 s) \<le> 256 \<and> \<not> list_ex is_control s)"
proof -
  have scan: "text_scan (utf8 s) = Some (\<not> list_ex is_control s)"
    using assms
  proof (induction s)
    case (Cons c s)
    then show ?case using text_scan_char[of c "utf8 s"] by (simp add: utf8_def)
  qed (simp add: utf8_def)
  have "utf8 s = [] \<longleftrightarrow> s = []" by (cases s) (auto simp: utf8_def utf8_char_def)
  with scan show ?thesis by (simp add: valid_text_def)
qed

theorem valid_text_exact_witness: "\<not> valid_text (utf8 [0x41, 0x85]) \<and> valid_text (utf8 [0x41, 0xE9])"
  using valid_text_exact[of "[0x41, 0x85]"] valid_text_exact[of "[0x41, 0xE9]"]
  by (simp add: scalar_def is_control_def utf8_def utf8_char_def)

subsection \<open>Header maps\<close>

lemma nats_get_insert [simp]: "nats_get (nats_insert n v hs) m = (if m = n then Some v else nats_get hs m)"
proof -
  have "map_of (filter (\<lambda>h. fst h \<noteq> n) hs @ [(n, [v])]) m = (if m = n then Some [v] else map_of hs m)"
    by (induction hs) auto
  then show ?thesis by (simp add: nats_get_def nats_insert_def)
qed

lemma nats_get_Nil [simp]: "nats_get [] n = None"
  by (simp add: nats_get_def)

lemma header_value_insert [simp]:
  "header_value (nats_insert n v hs) m = (if m = n then v else header_value hs m)"
  by (simp add: header_value_def)

lemma header_slot_inj: "header_slot n = Some i \<Longrightarrow> header_slot m = Some i \<Longrightarrow> n = m"
  by (auto simp: header_slot_def split: if_splits)

lemma header_slot_less: "header_slot n = Some i \<Longrightarrow> i < 5"
  by (auto simp: header_slot_def split: if_splits)

lemma scan_headers_size:
  "fst (scan_headers hs (enc, found)) = enc + sum_list (map (\<lambda>(n, vs). values_bytes n vs) hs)"
  by (induction hs "(enc, found)" arbitrary: enc found rule: scan_headers.induct) auto

lemma scan_headers_slots:
  assumes "header_slot n = Some i"
  shows "length found = 5 \<Longrightarrow> distinct (map fst hs) \<Longrightarrow>
    snd (scan_headers hs (enc, found)) ! i = (if n \<in> fst ` set hs then nats_get hs n else found ! i)"
proof (induction hs arbitrary: enc found)
  case (Cons h hs)
  obtain n' vs where h: "h = (n', vs)" by fastforce
  let ?found = "case header_slot n' of None \<Rightarrow> found | Some i \<Rightarrow> found[i := (case vs of [] \<Rightarrow> None | v # _ \<Rightarrow> Some v)]"
  have len: "length ?found = 5" using Cons.prems(1) by (simp split: option.splits)
  have step: "snd (scan_headers (h # hs) (enc, found)) ! i =
      (if n \<in> fst ` set hs then nats_get hs n else ?found ! i)"
    using Cons.IH[OF len] Cons.prems(2) h by simp
  show ?case
  proof (cases "n = n'")
    case True
    then have "?found ! i = nats_get (h # hs) n"
      using assms header_slot_less[OF assms] Cons.prems(1) h by (simp add: nats_get_def split: list.splits)
    then show ?thesis using step Cons.prems(2) True h by auto
  next
    case False
    have "header_slot n' \<noteq> Some i" using False header_slot_inj[OF assms] by blast
    then have "?found ! i = found ! i" by (cases "header_slot n'") auto
    then show ?thesis using step False h by (simp add: nats_get_def)
  qed
qed simp

lemma decode_slots:
  assumes "distinct (map fst hs)" "header_slot n = Some i"
  shows "snd (scan_headers hs (enc, replicate 5 None)) ! i = nats_get hs n"
proof -
  have "nats_get hs n = None" if "n \<notin> fst ` set hs"
    using that by (simp add: nats_get_def map_of_eq_None_iff[THEN iffD2])
  then show ?thesis
    using scan_headers_slots[OF assms(2) _ assms(1), of "replicate 5 None" enc] header_slot_less[OF assms(2)] by simp
qed

subsection \<open>Schemas and texts of an encoded event\<close>

lemma decimal_first: "0 < n \<Longrightarrow> take 1 (bytes_of (decimal n)) \<noteq> [48]"
proof (induction n rule: decimal.induct)
  case (1 n)
  show ?case
  proof (cases "n < 10")
    case True
    then show ?thesis using 1(2) digit_byte[of n]
      by (subst decimal.simps) (auto simp: word_unat_eq_iff)
  next
    case False
    then have "take 1 (bytes_of (decimal (n div 10))) \<noteq> [48]" using 1(1) by simp
    then show ?thesis using False
      by (subst decimal.simps) (cases "decimal (n div 10)", simp_all)
  qed
qed

lemma decimal_length: "n < 10 ^ Suc k \<Longrightarrow> length (decimal n) \<le> Suc k"
proof (induction k arbitrary: n)
  case 0
  then show ?case by (subst decimal.simps) simp
next
  case (Suc k)
  then have "n div 10 < 10 ^ Suc k" by (simp add: less_mult_imp_div_less)
  with Suc.IH show ?case by (subst decimal.simps) simp
qed

lemma text_scan_printable: "list_all (\<lambda>b. 0x20 \<le> b \<and> b < 0x7F) bs \<Longrightarrow> text_scan bs = Some True"
  by (induction bs) (auto simp: word_less_nat_alt word_le_nat_alt)

lemma event_schema_ok:
  assumes "0 < ev_schema_version e" "ev_schema_version e \<le> u16_max"
  shows "valid_text (event_schema e)" "parse_schema (event_schema e) = Inr (ev_schema_version e)"
proof -
  let ?ds = "bytes_of (decimal (ev_schema_version e))"
  have ds: "\<forall>b \<in> set ?ds. 48 \<le> b \<and> b \<le> 57" using decimal_digits by blast
  have "list_all (\<lambda>b. 0x20 \<le> b \<and> b < 0x7F) (event_schema e)"
    using ds by (auto simp: event_schema_def list_all_iff word_le_nat_alt word_less_nat_alt)
  moreover have "length (event_schema e) \<le> 6"
    using decimal_length[of "ev_schema_version e" 4] assms(2) by (simp add: event_schema_def u16_max_def)
  ultimately show "valid_text (event_schema e)"
    by (simp add: valid_text_def text_scan_printable) (simp add: event_schema_def)
  have "parse_u16 ?ds = Some (ev_schema_version e)"
    using ds assms(2) digits_value_decimal[of "ev_schema_version e"] bytes_of_inj[of "decimal (ev_schema_version e)" "[]"]
    by (cases ?ds) (auto simp: parse_u16_def word_le_nat_alt)
  moreover have "all_digits ?ds" using ds by (simp add: all_digits_def list_all_iff)
  moreover have "strip_prefix (bytes_of ''v'') (event_schema e) = Some ?ds"
    by (simp add: strip_prefix_Some event_schema_def)
  ultimately show "parse_schema (event_schema e) = Inr (ev_schema_version e)"
    using assms(1) decimal_first[OF assms(1)] by (simp add: parse_schema_def)
qed

subsection \<open>Round trips\<close>

text \<open>What the time library documents: RFC 3339 text is not empty, and parsing it undoes formatting.\<close>

definition time_lib_ok :: "'t time_lib \<Rightarrow> bool" where
  "time_lib_ok lib \<longleftrightarrow> (\<forall>t v. tl_format lib t = Some v \<longrightarrow> v \<noteq> [] \<and> tl_parse lib v = Some t)"

definition event_ok :: "'t time_lib \<Rightarrow> 't prepared_event \<Rightarrow> bool" where
  "event_ok lib e \<longleftrightarrow>
     valid_subject (ev_subject e) \<and> valid_text (ev_message_id e) \<and> valid_text (ev_publication_id e) \<and>
     valid_text (ev_event_type e) \<and> 0 < ev_schema_version e \<and> ev_schema_version e \<le> u16_max \<and>
     \<not> tl_zero lib (ev_occurred_at e) \<and> tl_format lib (ev_occurred_at e) = Some (ev_created_at e)"

lemma encode_prepared_get:
  assumes "encode_prepared e = Inr hs"
  shows "nats_get hs MESSAGE_ID = Some (ev_message_id e)" "nats_get hs EVENT_TYPE = Some (ev_event_type e)"
    "nats_get hs EVENT_SCHEMA = Some (event_schema e)" "nats_get hs CREATED_AT = Some (ev_created_at e)"
    "nats_get hs NATS_MSG_ID = Some (ev_publication_id e)"
  using assms by (auto simp: encode_prepared_def Let_def bind_result_Inr header_names)

text \<open>Headers a publication adds to the identity of its event: trace context and expected stream.\<close>

definition extends_headers :: "nats_headers \<Rightarrow> nats_headers \<Rightarrow> bool" where
  "extends_headers hs hs' \<longleftrightarrow> distinct (map fst hs') \<and> encoded_header_bytes hs' \<le> HEADER_LIMIT_BYTES \<and>
     (\<forall>n. header_slot n \<noteq> None \<longrightarrow> nats_get hs' n = nats_get hs n)"

lemma envelope_decodes:
  assumes lib: "time_lib_ok lib" and e: "event_ok lib e" "encode_prepared e = Inr hs" "extends_headers hs hs'"
  shows "decode_envelope lib (ev_subject e) hs' (ev_payload e) =
    Inr \<lparr>ie_message_id = ev_message_id e, ie_event_type = ev_event_type e, ie_schema_version = ev_schema_version e,
         ie_occurred_at = ev_occurred_at e, ie_payload = ev_payload e\<rparr>"
proof -
  have dist: "distinct (map fst hs')" and get: "\<And>n. header_slot n \<noteq> None \<Longrightarrow> nats_get hs' n = nats_get hs n"
    using e(3) by (auto simp: extends_headers_def)
  define scan where "scan = scan_headers hs' (NATS_PREAMBLE, replicate 5 None)"
  have slots: "header_slot MESSAGE_ID = Some 0" "header_slot EVENT_TYPE = Some 1" "header_slot EVENT_SCHEMA = Some 2"
    "header_slot CREATED_AT = Some 3" "header_slot NATS_MSG_ID = Some 4"
    by (simp_all add: header_slot_def header_names)
  note found = slots[THEN decode_slots[OF dist, of _ _ NATS_PREAMBLE, folded scan_def]]
  have "hs' \<noteq> []" using get[of MESSAGE_ID] slots(1) encode_prepared_get(1)[OF e(2)] by auto
  then have size: "fst scan \<le> HEADER_LIMIT_BYTES"
    using e(3) by (simp add: scan_def scan_headers_size extends_headers_def encoded_header_bytes_def)
  have "tl_parse lib (ev_created_at e) = Some (ev_occurred_at e)"
    using lib e(1) by (auto simp: time_lib_ok_def event_ok_def)
  then show ?thesis
    using e(1) size found slots event_schema_ok[of e] get encode_prepared_get[OF e(2)]
    by (simp add: decode_envelope_def scan_def[symmetric] case_prod_beta required_value_def validate_text_def
        event_ok_def parse_created_at_def)
qed

text \<open>The writer keeps a bounded prefix and counts everything.\<close>

lemma event_writes_spec:
  assumes "event_writes limit w bs = Inr w'" "ew_bytes w = take limit written" "ew_total w = length written"
  shows "ew_bytes w' = take limit (written @ concat bs) \<and> ew_total w' = length (written @ concat bs)"
  using assms
proof (induction limit w bs arbitrary: written rule: event_writes.induct)
  case (2 limit w b bs)
  then obtain w1 where w1: "event_write limit w b = Inr w1" "event_writes limit w1 bs = Inr w'"
    by (auto simp: bind_result_Inr)
  then have "ew_bytes w1 = take limit (written @ b)" "ew_total w1 = length (written @ b)"
    using 2(3,4) by (auto simp: event_write_def min_def split: if_splits)
  from 2(1)[OF w1(2) this] show ?case by simp
qed simp

lemma prepare_event_ok:
  assumes "prepare_event lib subject ev max_payload = Inr e"
    and "valid_text (oc_type ev)" "0 < oc_version ev" "oc_version ev \<le> u16_max"
  shows "event_ok lib e \<and> ev_message_id e = oc_id ev \<and> ev_publication_id e = oc_id ev \<and>
    ev_event_type e = oc_type ev \<and> ev_schema_version e = oc_version ev \<and> ev_occurred_at e = oc_time ev \<and>
    ev_subject e = subject \<and> ev_payload e = concat (oc_chunks ev) \<and> length (ev_payload e) \<le> max_payload \<and>
    \<not> oc_fails ev"
proof -
  obtain w where w: "event_writes max_payload \<lparr>ew_bytes = [], ew_total = 0\<rparr> (oc_chunks ev) = Inr w"
    "ew_total w \<le> max_payload" "\<not> oc_fails ev" "ev_payload e = ew_bytes w"
    using assms(1)
    by (auto simp: prepare_event_def bind_result_Inr split: if_splits sum.splits)
  have "ew_bytes w = concat (oc_chunks ev)"
    using event_writes_spec[OF w(1), of "[]"] w(2) by simp
  then show ?thesis using assms w(2,3,4) event_writes_spec[OF w(1), of "[]"]
    by (auto simp: prepare_event_def bind_result_Inr event_ok_def validate_text_def format_timestamp_def
        split: if_splits sum.splits option.splits)
qed

text \<open>
  What is prepared and published is what is received. A prepared event holds the whole output of
  its serializer, within the bound, and its envelope, with whatever else the publication adds within
  the header limit, decodes at the consumer to the same identity, type, version, time and payload.
\<close>

lemma envelope_roundtrip:
  assumes lib: "time_lib_ok lib" and kind: "valid_text (oc_type ev)" "0 < oc_version ev" "oc_version ev \<le> u16_max"
    and e: "prepare_event lib subject ev max_payload = Inr e" "encode_prepared e = Inr hs" "extends_headers hs hs'"
  shows "decode_envelope lib subject hs' (ev_payload e) =
    Inr \<lparr>ie_message_id = oc_id ev, ie_event_type = oc_type ev, ie_schema_version = oc_version ev,
         ie_occurred_at = oc_time ev, ie_payload = concat (oc_chunks ev)\<rparr> \<and>
    length (ev_payload e) \<le> max_payload"
  using envelope_decodes[OF lib _ e(2,3)] prepare_event_ok[OF e(1) kind] by auto

definition demo_time :: "nat time_lib" where
  "demo_time = \<lparr>tl_format = (\<lambda>t. Some (bytes_of (decimal t))), tl_parse = digits_value 0, tl_zero = (\<lambda>t. t = 0)\<rparr>"

lemma demo_time_ok: "time_lib_ok demo_time"
  using bytes_of_inj[of _ "[]"] by (auto simp: time_lib_ok_def demo_time_def digits_value_decimal)

definition demo_event :: "nat event" where
  "demo_event = \<lparr>oc_id = bytes_of ''e1'', oc_time = 7, oc_type = bytes_of ''order'', oc_version = 2,
     oc_chunks = [bytes_of ''{'', bytes_of ''}''], oc_fails = False\<rparr>"

definition demo_prepared_event :: "nat prepared_event" where
  "demo_prepared_event = \<lparr>ev_subject = bytes_of ''a.b'', ev_message_id = bytes_of ''e1'', ev_publication_id = bytes_of ''e1'',
     ev_event_type = bytes_of ''order'', ev_schema_version = 2, ev_occurred_at = 7, ev_created_at = bytes_of (decimal 7),
     ev_payload = bytes_of ''{}''\<rparr>"

lemma demo_prepare_event:
  "prepare_event demo_time (bytes_of ''a.b'') demo_event 10 = Inr demo_prepared_event"
  "valid_text (oc_type demo_event)" "0 < oc_version demo_event" "oc_version demo_event \<le> u16_max"
  by (simp_all add: prepare_event_def valid_subject_def event_write_def u64_max_def demo_event_def demo_prepared_event_def
      validate_text_def valid_text_def demo_time_def format_timestamp_def u16_max_def)

lemma demo_encode:
  obtains hs where "encode_prepared demo_prepared_event = Inr hs" "extends_headers hs hs"
proof -
  have "length (decimal 7) = 1" "length (decimal 2) = 1" by (simp_all add: decimal.simps)
  then show thesis using that
    by (simp add: encode_prepared_def Let_def validate_header_bytes_def encoded_header_bytes_def nats_insert_def header_names
        values_bytes_def NATS_PREAMBLE_def HEADER_LIMIT_BYTES_def demo_prepared_event_def event_schema_def extends_headers_def)
qed

theorem envelope_roundtrip_witness:
  "\<exists>hs. encode_prepared demo_prepared_event = Inr hs \<and>
     decode_envelope demo_time (bytes_of ''a.b'') hs (bytes_of ''{}'') =
       Inr \<lparr>ie_message_id = bytes_of ''e1'', ie_event_type = bytes_of ''order'', ie_schema_version = 2, ie_occurred_at = 7,
            ie_payload = bytes_of ''{}''\<rparr>"
proof -
  obtain hs where hs: "encode_prepared demo_prepared_event = Inr hs" "extends_headers hs hs" by (rule demo_encode)
  from envelope_roundtrip[OF demo_time_ok demo_prepare_event(2,3,4,1) hs] hs(1) show ?thesis
    by (simp add: demo_event_def demo_prepared_event_def)
qed

subsection \<open>Dead letters and redrives\<close>

lemma header_value_get: "nats_get hs n = Some v \<Longrightarrow> header_value hs n = v"
  by (simp add: header_value_def)

lemma nats_get_copied:
  "nats_get (copy_headers original ns hs) n =
     (if n \<in> set ns \<and> header_value original n \<noteq> [] then Some (header_value original n) else nats_get hs n)"
  by (induction original ns hs rule: copy_headers.induct) (auto simp: Let_def)

declare copy_headers.simps [simp del]

lemma dead_letter_identity_headers:
  assumes "n \<in> {MESSAGE_ID, EVENT_TYPE, EVENT_SCHEMA, CREATED_AT}" "nats_get original n = Some v" "v \<noteq> []"
  shows "nats_get (dead_letter_headers original subject stream transfer_id reason) n = Some v"
proof -
  note v = header_value_get[OF assms(2)]
  have names: "n \<noteq> ''Nats-Expected-Stream'' \<and> n \<noteq> DEAD_LETTER_REASON \<and> n \<noteq> ORIGINAL_SUBJECT \<and> n \<noteq> NATS_MSG_ID"
    using assms(1) by (auto simp: header_names)
  let ?copy = "copy_headers original [MESSAGE_ID, EVENT_TYPE, EVENT_SCHEMA, CREATED_AT, ''traceparent'', ''tracestate''] []"
  have copy: "nats_get ?copy n = Some v" using assms(1,3) v by (auto simp: nats_get_copied)
  have "nats_get (if header_value ?copy MESSAGE_ID = [] then nats_insert MESSAGE_ID transfer_id ?copy else ?copy) n = Some v"
    using copy assms(3) header_value_get[OF copy] by (cases "n = MESSAGE_ID") auto
  then show ?thesis using names by (simp add: dead_letter_headers_def Let_def)
qed

lemma dead_letter_transfer_headers:
  "nats_get (dead_letter_headers original subject stream transfer_id reason) ORIGINAL_SUBJECT = Some subject"
  "nats_get (dead_letter_headers original subject stream transfer_id reason) NATS_MSG_ID = Some transfer_id"
  by (simp_all add: dead_letter_headers_def Let_def header_names)

lemma redrive_restored:
  assumes lib: "time_lib_ok lib" and e: "event_ok lib e" "encode_prepared e = Inr hs" "extends_headers hs hs'"
    and r: "dr_headers r = dead_letter_headers hs' (ev_subject e) stream transfer_id reason" "dr_payload r = ev_payload e"
    and pub: "record_id lib sha ''redrive-'' (dr_stream r) (dr_sequence r) (dr_stored_at r) transfer_id = Inr pub"
  shows "restore_dead_letter lib sha r = Inr (e\<lparr>ev_publication_id := pub\<rparr>)"
proof -
  have get: "nats_get hs' n = nats_get hs n" if "header_slot n \<noteq> None" for n
    using e(3) that by (simp add: extends_headers_def)
  have created: "tl_parse lib (ev_created_at e) = Some (ev_occurred_at e)" "ev_schema_version e \<noteq> 0" "ev_created_at e \<noteq> []"
    using lib e(1) by (auto simp: time_lib_ok_def event_ok_def)
  have schema: "event_schema e \<noteq> []" by (simp add: event_schema_def)
  have ids: "ev_message_id e \<noteq> []" "ev_event_type e \<noteq> []" using e(1) by (auto simp: event_ok_def valid_text_def)
  have keep: "nats_get (dr_headers r) n = nats_get hs n"
    if "n \<in> {MESSAGE_ID, EVENT_TYPE, EVENT_SCHEMA, CREATED_AT}" "nats_get hs n = Some v" "v \<noteq> []" for n v
  proof -
    have "header_slot n \<noteq> None" using that(1) by (auto simp: header_slot_def)
    then show ?thesis using dead_letter_identity_headers[OF that(1) _ that(3)] get[of n] that(2) r(1) by simp
  qed
  have rest: "nats_get (dr_headers r) MESSAGE_ID = Some (ev_message_id e)"
    "nats_get (dr_headers r) EVENT_TYPE = Some (ev_event_type e)"
    "nats_get (dr_headers r) EVENT_SCHEMA = Some (event_schema e)" "nats_get (dr_headers r) CREATED_AT = Some (ev_created_at e)"
    using keep encode_prepared_get[OF e(2)] ids schema created(3) by simp_all
  have transfer: "header_value (dr_headers r) ORIGINAL_SUBJECT = ev_subject e" "header_value (dr_headers r) NATS_MSG_ID = transfer_id"
    unfolding r(1) header_value_def by (simp_all add: dead_letter_transfer_headers)
  show ?thesis
    using e(1) event_schema_ok[of e] created pub r(2)
    by (simp add: restore_dead_letter_def Let_def transfer required_header_def rest required_value_def validate_text_def
        header_value_get[OF rest(4)] parse_created_at_def event_ok_def format_timestamp_def)
qed

text \<open>The bytes hashed into a transfer identity determine the record: none of the first three parts has a zero.\<close>

lemma record_input_inj:
  assumes "record_input s n t p = record_input s' n' t' p'"
    and "0 \<notin> set s" "0 \<notin> set s'" "0 \<notin> set t" "0 \<notin> set t'"
  shows "s = s' \<and> n = n' \<and> t = t' \<and> p = p'"
proof -
  have digits: "0 \<notin> set (bytes_of (decimal k))" for k
    using decimal_digits[of 0 k] by auto
  from assms have 1: "s = s'" "bytes_of (decimal n) @ 0 # t @ 0 # p = bytes_of (decimal n') @ 0 # t' @ 0 # p'"
    unfolding record_input_def using split_unique[of s 0 _ s'] by auto
  from split_unique[OF 1(2) digits digits] have 2: "bytes_of (decimal n) = bytes_of (decimal n')" "t @ 0 # p = t' @ 0 # p'"
    by simp_all
  have "n = n'" using 2(1) digits_value_decimal[of n] digits_value_decimal[of n'] by (metis option.inject)
  moreover have "t = t' \<and> p = p'" using split_unique[OF 2(2)] assms(4,5) by simp
  ultimately show ?thesis using 1(1) by simp
qed

text \<open>
  A redrive restores the event. The headers a dead letter copies from a delivery of an event,
  with its payload, are enough to reconstruct that event for publication: subject, identity, type, version,
  time and payload are those of the original, and only the publication identity is new, a function
  of the dead letter's place in its stream, so that redriving one record twice is one publication.
\<close>

lemma redrive_restores:
  assumes lib: "time_lib_ok lib" and e: "event_ok lib e" "encode_prepared e = Inr hs" "extends_headers hs hs'"
    and r: "dr_headers r = dead_letter_headers hs' (ev_subject e) stream transfer_id reason" "dr_payload r = ev_payload e"
    and pub: "record_id lib sha ''redrive-'' (dr_stream r) (dr_sequence r) (dr_stored_at r) transfer_id = Inr pub"
  shows "restore_dead_letter lib sha r = Inr (e\<lparr>ev_publication_id := pub\<rparr>)"
  by (rule redrive_restored[OF assms])

theorem redrive_restores_witness:
  "\<exists>hs pub. encode_prepared demo_prepared_event = Inr hs \<and>
     restore_dead_letter demo_time (\<lambda>_. [171])
       \<lparr>dr_headers = dead_letter_headers hs (bytes_of ''a.b'') (bytes_of ''DLQ'') (bytes_of ''dlq-1'') ExhaustedReason,
        dr_payload = bytes_of ''{}'', dr_stream = bytes_of ''DLQ'', dr_sequence = 4, dr_stored_at = 9\<rparr>
       = Inr (demo_prepared_event\<lparr>ev_publication_id := pub\<rparr>)"
proof -
  obtain hs where hs: "encode_prepared demo_prepared_event = Inr hs" "extends_headers hs hs" by (rule demo_encode)
  let ?r = "\<lparr>dr_headers = dead_letter_headers hs (bytes_of ''a.b'') (bytes_of ''DLQ'') (bytes_of ''dlq-1'') ExhaustedReason,
    dr_payload = bytes_of ''{}'', dr_stream = bytes_of ''DLQ'', dr_sequence = 4, dr_stored_at = (9 :: nat)\<rparr>"
  have ok: "event_ok demo_time demo_prepared_event" using prepare_event_ok[OF demo_prepare_event] by simp
  obtain pub where pub: "record_id demo_time (\<lambda>_. [171]) ''redrive-'' (dr_stream ?r) (dr_sequence ?r) (dr_stored_at ?r)
      (bytes_of ''dlq-1'') = Inr pub"
    by (simp add: record_id_def format_timestamp_def demo_time_def)
  have "restore_dead_letter demo_time (\<lambda>_. [171]) ?r = Inr (demo_prepared_event\<lparr>ev_publication_id := pub\<rparr>)"
    by (rule redrive_restores[OF demo_time_ok ok hs _ _ pub, of "bytes_of ''DLQ''" ExhaustedReason])
      (simp_all add: demo_prepared_event_def)
  with hs(1) show ?thesis by blast
qed

end
