(* ===== verification/MessageProducer.thy ===== *)
theory MessageProducer
  imports MessageWire OperationScope
begin

text \<open>
  \<open>crates/infra-messaging/src/registry.rs\<close>, \<open>trace.rs\<close> and \<open>producer.rs\<close>: the routes and handlers of typed
  events, the trace headers of a publication, and the publication with its conclusive or uncertain
  answer.

  A future is the function of what its successive polls answer. The broker is met only through the polls of
  one exchange.
\<close>

subsection \<open>The registry\<close>

type_synonym route_key = "bytes \<times> nat"

datatype registry_error =
    InvalidRoute string
  | DuplicateRoute bytes nat
  | MissingRoute bytes nat
  | DuplicateHandler bytes nat
  | EmptyRegistry

datatype handler_error = HandlerRetryable | HandlerPermanent

datatype dispatch_error = Unhandled | Undecodable | HandlerFailed handler_error

record 's route =
  rt_key :: route_key
  rt_subject :: bytes
  rt_schema :: "'s option"

record ('t, 'p) handled_event =
  he_id :: bytes
  he_occurred_at :: 't
  he_payload :: 'p

datatype handler_poll = HandlerPending | HandlerReady "handler_error + unit" | HandlerPanics

type_synonym handler_future = "nat \<Rightarrow> handler_poll"
type_synonym ('t, 'c) erased_handler = "'t inbound_envelope \<Rightarrow> 'c \<Rightarrow> handler_future option"

record ('s, 't, 'c) event_registry =
  rg_routes :: "route_key \<rightharpoonup> bytes"
  rg_schemas :: "route_key \<rightharpoonup> 's"
  rg_handlers :: "route_key \<rightharpoonup> ('t, 'c) erased_handler"

fun add_routes ::
  "'s route list \<Rightarrow> ('s, 't, 'c) event_registry \<Rightarrow> registry_error + ('s, 't, 'c) event_registry" where
  "add_routes [] reg = Inr reg"
| "add_routes (r # rs) reg =
     (if \<not> is_ok (validate_text (fst (rt_key r))) then Inl (InvalidRoute ''event type is invalid'')
      else if \<not> valid_subject (rt_subject r) then Inl (InvalidRoute ''subject is invalid'')
      else if rg_routes reg (rt_key r) \<noteq> None then Inl (DuplicateRoute (fst (rt_key r)) (snd (rt_key r)))
      else add_routes rs
        (reg\<lparr>rg_routes := (rg_routes reg)(rt_key r \<mapsto> rt_subject r),
             rg_schemas := (case rt_schema r of None \<Rightarrow> rg_schemas reg | Some s \<Rightarrow> (rg_schemas reg)(rt_key r \<mapsto> s))\<rparr>))"

definition registry_try_new :: "'s route list \<Rightarrow> registry_error + ('s, 't, 'c) event_registry" where
  "registry_try_new rs = add_routes rs \<lparr>rg_routes = Map.empty, rg_schemas = Map.empty, rg_handlers = Map.empty\<rparr>"

text \<open>The closure that \<open>register\<close> stores: the payload is decoded before the handler is called.\<close>

definition erase ::
  "(bytes \<Rightarrow> 'p option) \<Rightarrow> (('t, 'p) handled_event \<Rightarrow> 'c \<Rightarrow> handler_future) \<Rightarrow> ('t, 'c) erased_handler" where
  "erase decode handler = (\<lambda>envelope context.
     map_option (\<lambda>p. handler \<lparr>he_id = ie_message_id envelope, he_occurred_at = ie_occurred_at envelope, he_payload = p\<rparr> context)
       (decode (ie_payload envelope)))"

definition register_handler ::
  "route_key \<Rightarrow> (bytes \<Rightarrow> 'p option) \<Rightarrow> (('t, 'p) handled_event \<Rightarrow> 'c \<Rightarrow> handler_future)
   \<Rightarrow> ('s, 't, 'c) event_registry \<Rightarrow> registry_error + ('s, 't, 'c) event_registry" where
  "register_handler key decode handler reg =
     (if rg_routes reg key = None then Inl (MissingRoute (fst key) (snd key))
      else if rg_handlers reg key \<noteq> None then Inl (DuplicateHandler (fst key) (snd key))
      else Inr (reg\<lparr>rg_handlers := (rg_handlers reg)(key \<mapsto> erase decode handler)\<rparr>))"

definition registry_prepare ::
  "'t time_lib \<Rightarrow> ('s, 't, 'c) event_registry \<Rightarrow> 't event \<Rightarrow> nat \<Rightarrow> messaging_error + 't prepared_event" where
  "registry_prepare lib reg e max_payload =
     (case rg_routes reg (oc_type e, oc_version e) of
        None \<Rightarrow> Inl (Envelope ''event route is not registered'')
      | Some subject \<Rightarrow> prepare_event lib subject e max_payload)"

definition validate_consumer :: "('s, 't, 'c) event_registry \<Rightarrow> registry_error + unit" where
  "validate_consumer reg = (if rg_handlers reg \<noteq> Map.empty then Inr () else Inl EmptyRegistry)"

definition handled :: "('s, 't, 'c) event_registry \<Rightarrow> route_key \<rightharpoonup> bytes" where
  "handled reg = (\<lambda>key. if rg_handlers reg key = None then None else rg_routes reg key)"

text \<open>The part of \<open>dispatch\<close> before the handler's future is awaited.\<close>

definition registry_dispatch ::
  "('s, 't, 'c) event_registry \<Rightarrow> bytes \<Rightarrow> 't inbound_envelope \<Rightarrow> 'c \<Rightarrow> dispatch_error + handler_future" where
  "registry_dispatch reg subject envelope context =
     (let key = (ie_event_type envelope, ie_schema_version envelope)
      in if rg_routes reg key \<noteq> Some subject then Inl Unhandled
         else case rg_handlers reg key of
                None \<Rightarrow> Inl Unhandled
              | Some handler \<Rightarrow>
                  (case handler (envelope\<lparr>ie_event_type := []\<rparr>) context of None \<Rightarrow> Inl Undecodable | Some run \<Rightarrow> Inr run))"

subsection \<open>Trace headers\<close>

definition TRACEPARENT_MAX_BYTES :: nat where "TRACEPARENT_MAX_BYTES = 256"
definition TRACESTATE_MAX_BYTES :: nat where "TRACESTATE_MAX_BYTES = 512"

definition trace_limit :: "string \<Rightarrow> nat option" where
  "trace_limit key =
     (if key = ''traceparent'' then Some TRACEPARENT_MAX_BYTES
      else if key = ''tracestate'' then Some TRACESTATE_MAX_BYTES else None)"

definition publication_set :: "string \<Rightarrow> bytes \<Rightarrow> nats_headers \<Rightarrow> nats_headers" where
  "publication_set key v hs =
     (case trace_limit key of
        None \<Rightarrow> hs
      | Some limit \<Rightarrow>
          if v \<noteq> [] \<and> length v \<le> limit \<and> list_all (\<lambda>b. b < 0x80 \<and> \<not> (b < 0x20 \<or> b = 0x7F)) v
          then nats_insert key v hs else hs)"

text \<open>The propagator of the telemetry package calls \<open>set\<close> with keys and values of its choice.\<close>

definition trace_inject :: "(string \<times> bytes) list \<Rightarrow> nats_headers \<Rightarrow> nats_headers" where
  "trace_inject sets hs = fold (\<lambda>(k, v). publication_set k v) sets hs"

subsection \<open>Publication\<close>

definition BROKER_OPERATION_BUDGET :: duration where "BROKER_OPERATION_BUDGET = from_secs 5"

datatype publish_failure = Rejected | Ambiguous

datatype js_error_code =
    BAD_REQUEST | ACCOUNT_RESOURCES_EXCEEDED | INSUFFICIENT_RESOURCES | STORAGE_RESOURCES_EXCEEDED
  | JETSTREAM_NOT_ENABLED | JETSTREAM_NOT_ENABLED_FOR_ACCOUNT | STREAM_MESSAGE_EXCEEDS_MAXIMUM
  | STREAM_HEADER_EXCEEDS_MAXIMUM | STREAM_NOT_MATCH | STREAM_MISMATCH | STREAM_LIMITS | STREAM_STORE_FAILED
  | STREAM_SEALED | STREAM_WRONG_LAST_MESSAGE_ID | STREAM_WRONG_LAST_SEQUENCE | OtherErrorCode nat

datatype publish_error_kind =
    StreamNotFound | WrongLastMessageId | WrongLastSequence | MaxPayloadExceeded | MaxAckPending
  | OtherPublishError "js_error_code option" | PublishTimedOut | BrokenPipe

definition refusal_codes :: "js_error_code list" where
  "refusal_codes =
     [BAD_REQUEST, ACCOUNT_RESOURCES_EXCEEDED, INSUFFICIENT_RESOURCES, STORAGE_RESOURCES_EXCEEDED,
      JETSTREAM_NOT_ENABLED, JETSTREAM_NOT_ENABLED_FOR_ACCOUNT, STREAM_MESSAGE_EXCEEDS_MAXIMUM,
      STREAM_HEADER_EXCEEDS_MAXIMUM, STREAM_NOT_MATCH, STREAM_MISMATCH, STREAM_LIMITS, STREAM_STORE_FAILED,
      STREAM_SEALED, STREAM_WRONG_LAST_MESSAGE_ID, STREAM_WRONG_LAST_SEQUENCE]"

text \<open>The classification, and whether it counts as an admission refusal.\<close>

definition classify_publish :: "publish_error_kind \<Rightarrow> publish_failure \<times> bool" where
  "classify_publish kind =
     (case kind of
        StreamNotFound \<Rightarrow> (Rejected, False)
      | WrongLastMessageId \<Rightarrow> (Rejected, False)
      | WrongLastSequence \<Rightarrow> (Rejected, False)
      | MaxPayloadExceeded \<Rightarrow> (Rejected, False)
      | MaxAckPending \<Rightarrow> (Rejected, True)
      | OtherPublishError code \<Rightarrow>
          (if (case code of None \<Rightarrow> False | Some c \<Rightarrow> c \<in> set refusal_codes) then (Rejected, False) else (Ambiguous, False))
      | PublishTimedOut \<Rightarrow> (Ambiguous, False)
      | BrokenPipe \<Rightarrow> (Ambiguous, False))"

record publish_ack =
  ak_stream :: bytes
  ak_sequence :: nat
  ak_duplicate :: bool

text \<open>
  One publication meets: two clock readings and the token before it is was_dispatched, then the polls of the
  race of the token, the deadline's timer and the exchange with the broker. The last field says whether the
  broker holds the message in the end; the code never sees it.
\<close>

record publish_poll =
  pp_cancelled :: bool
  pp_deadline :: bool
  pp_answer :: "(publish_error_kind + publish_ack) option"

record publish_env =
  pe_entry :: instant
  pe_check :: instant
  pe_cancelled :: bool
  pe_polls :: "publish_poll list"
  pe_stored :: bool

fun publish_race :: "publish_poll list \<Rightarrow> (publish_failure + publish_ack) option" where
  "publish_race [] = None"
| "publish_race (p # ps) =
     (if pp_cancelled p then Some (Inl Ambiguous)
      else if pp_deadline p then Some (Inl Ambiguous)
      else case pp_answer p of
             None \<Rightarrow> publish_race ps
           | Some (Inl kind) \<Rightarrow> Some (Inl (fst (classify_publish kind)))
           | Some (Inr ack) \<Rightarrow> Some (Inr ack))"

definition publish_refused :: "publish_env \<Rightarrow> instant \<Rightarrow> bool" where
  "publish_refused env deadline \<longleftrightarrow>
     pe_cancelled env \<or> min deadline (pe_entry env + BROKER_OPERATION_BUDGET) \<le> pe_check env"

text \<open>\<^term>\<open>None\<close> while the publication is pending, and for ever when its future is dropped.\<close>

definition publish :: "publish_env \<Rightarrow> instant \<Rightarrow> (publish_failure + publish_ack) option" where
  "publish env deadline =
     (if publish_refused env deadline then Some (Inl Rejected) else publish_race (pe_polls env))"

text \<open>The exchange has been polled, so that the message may have left the process.\<close>

definition was_dispatched :: "publish_env \<Rightarrow> instant \<Rightarrow> bool" where
  "was_dispatched env deadline \<longleftrightarrow> \<not> publish_refused env deadline \<and>
     (case pe_polls env of [] \<Rightarrow> False | p # _ \<Rightarrow> \<not> pp_cancelled p \<and> \<not> pp_deadline p)"

subsection \<open>The producer\<close>

record shared =
  sh_source_stream :: bytes
  sh_max_payload :: nat
  sh_draining :: bool
  sh_failed :: bool

definition source_message ::
  "'t prepared_event \<Rightarrow> (string \<times> bytes) list \<Rightarrow> bytes \<Rightarrow> nat \<Rightarrow> publish_failure + nats_headers \<times> bytes" where
  "source_message e sets expected_stream max_payload =
     (if length (ev_payload e) > max_payload then Inl Rejected
      else case encode_prepared e of
             Inl _ \<Rightarrow> Inl Rejected
           | Inr hs \<Rightarrow>
               (let hs' = nats_insert ''Nats-Expected-Stream'' expected_stream (trace_inject sets hs)
                in if encoded_header_bytes hs' > HEADER_LIMIT_BYTES then Inl Rejected else Inr (hs', ev_payload e)))"

definition PUBLISH_RESULTS :: "string list" where
  "PUBLISH_RESULTS = [''acknowledged'', ''rejected'', ''ambiguous'']"

definition publish_result_label :: "publish_failure + publish_ack \<Rightarrow> string" where
  "publish_result_label r =
     PUBLISH_RESULTS ! (case r of Inr _ \<Rightarrow> 0 | Inl Rejected \<Rightarrow> 1 | Inl Ambiguous \<Rightarrow> 2)"

record published =
  pb_result :: "(publish_failure + publish_ack) option"
  pb_recorded :: "string option"
  pb_sent :: "(bytes \<times> nats_headers \<times> bytes) option"

definition producer_publish ::
  "shared \<Rightarrow> (string \<times> bytes) list \<Rightarrow> publish_env \<Rightarrow> 't prepared_event \<Rightarrow> instant \<Rightarrow> published" where
  "producer_publish sh sets env e deadline =
     (let (result, message) =
        (if sh_draining sh \<or> sh_failed sh then (Some (Inl Rejected), None)
         else case source_message e sets (sh_source_stream sh) (sh_max_payload sh) of
                Inl err \<Rightarrow> (Some (Inl err), None)
              | Inr (hs, payload) \<Rightarrow>
                  (publish env deadline,
                   if was_dispatched env deadline then Some (ev_subject e, hs, payload) else None))
      in \<lparr>pb_result = result, pb_recorded = map_option publish_result_label result, pb_sent = message\<rparr>)"

subsection \<open>Registered routes\<close>

definition registry_ok :: "('s, 't, 'c) event_registry \<Rightarrow> bool" where
  "registry_ok reg \<longleftrightarrow>
     (\<forall>key subject. rg_routes reg key = Some subject \<longrightarrow> valid_text (fst key) \<and> valid_subject subject) \<and>
     (\<forall>key. rg_routes reg key = None \<longrightarrow> rg_handlers reg key = None \<and> rg_schemas reg key = None)"

definition add_route :: "'s route \<Rightarrow> ('s, 't, 'c) event_registry \<Rightarrow> ('s, 't, 'c) event_registry" where
  "add_route r reg =
     reg\<lparr>rg_routes := (rg_routes reg)(rt_key r \<mapsto> rt_subject r),
         rg_schemas := (case rt_schema r of None \<Rightarrow> rg_schemas reg | Some s \<Rightarrow> (rg_schemas reg)(rt_key r \<mapsto> s))\<rparr>"

lemma add_routes_Cons:
  assumes "add_routes (r # rs) reg = Inr reg'"
  shows "valid_text (fst (rt_key r))" "valid_subject (rt_subject r)" "rg_routes reg (rt_key r) = None"
    "add_routes rs (add_route r reg) = Inr reg'"
  using assms by (auto simp: validate_text_def add_route_def split: if_splits)

lemma add_routes_ok: "add_routes rs reg = Inr reg' \<Longrightarrow> registry_ok reg \<Longrightarrow> registry_ok reg'"
proof (induction rs arbitrary: reg)
  case (Cons r rs)
  note r = add_routes_Cons[OF Cons.prems(1)]
  have "registry_ok (add_route r reg)"
    using Cons.prems(2) r(1,2,3) by (cases "rt_key r") (auto simp: registry_ok_def add_route_def split: option.splits)
  then show ?case by (rule Cons.IH[OF r(4)])
qed simp

lemma registry_try_new_ok: "registry_try_new rs = Inr reg \<Longrightarrow> registry_ok reg"
  unfolding registry_try_new_def by (erule add_routes_ok) (simp add: registry_ok_def)

lemma register_handler_ok:
  "register_handler key decode handler reg = Inr reg' \<Longrightarrow> registry_ok reg \<Longrightarrow> registry_ok reg'"
  by (auto simp: register_handler_def registry_ok_def split: if_splits)

lemma add_routes_exact:
  "add_routes rs reg = Inr reg' \<Longrightarrow>
     rg_routes reg' = rg_routes reg ++ map_of (map (\<lambda>r. (rt_key r, rt_subject r)) rs) \<and>
     distinct (map rt_key rs) \<and> (\<forall>r \<in> set rs. rg_routes reg (rt_key r) = None)"
proof (induction rs arbitrary: reg)
  case (Cons r rs)
  note r = add_routes_Cons[OF Cons.prems]
  have rs: "rg_routes reg' = (rg_routes reg)(rt_key r \<mapsto> rt_subject r) ++ map_of (map (\<lambda>r. (rt_key r, rt_subject r)) rs)"
    "distinct (map rt_key rs)" "\<forall>q \<in> set rs. ((rg_routes reg)(rt_key r \<mapsto> rt_subject r)) (rt_key q) = None"
    using Cons.IH[OF r(4)] unfolding add_route_def by (simp_all del: fun_upd_apply)
  have fresh: "\<forall>q \<in> set rs. rt_key q \<noteq> rt_key r \<and> rg_routes reg (rt_key q) = None"
    using rs(3) by (auto split: if_splits)
  then have "rt_key r \<notin> dom (map_of (map (\<lambda>r. (rt_key r, rt_subject r)) rs))"
    by (auto simp: dom_map_of_conv_image_fst)
  then show ?case using rs(1,2) r(3) fresh
    by (auto simp: map_add_upd_left fun_eq_iff map_add_def split: option.splits)
qed simp

subsection \<open>What a publication means\<close>

text \<open>
  The broker's documented behaviour: it holds nothing that was not sent, it acknowledges what it holds, and
  its refusals and those of the client's own admission are of messages it does not hold.
\<close>

definition refusal :: "publish_error_kind \<Rightarrow> bool" where
  "refusal kind \<longleftrightarrow>
     kind \<in> {StreamNotFound, WrongLastMessageId, WrongLastSequence, MaxPayloadExceeded, MaxAckPending} \<or>
     (\<exists>c \<in> set refusal_codes. kind = OtherPublishError (Some c))"

definition broker_honest :: "publish_env \<Rightarrow> instant \<Rightarrow> bool" where
  "broker_honest env deadline \<longleftrightarrow>
     (pe_stored env \<longrightarrow> was_dispatched env deadline) \<and>
     (\<forall>p \<in> set (pe_polls env).
        case pp_answer p of
          None \<Rightarrow> True
        | Some (Inr _) \<Rightarrow> pe_stored env
        | Some (Inl kind) \<Rightarrow> refusal kind \<longrightarrow> \<not> pe_stored env)"

lemma classify_rejected: "fst (classify_publish kind) = Rejected \<longleftrightarrow> refusal kind"
  by (cases kind) (auto simp: classify_publish_def refusal_def split: option.splits)

lemma publish_race_answer:
  "publish_race ps = Some r \<Longrightarrow>
     (\<exists>p \<in> set ps. (pp_cancelled p \<or> pp_deadline p) \<and> r = Inl Ambiguous) \<or>
     (\<exists>p \<in> set ps. \<exists>a. pp_answer p = Some a \<and> r = (case a of Inl k \<Rightarrow> Inl (fst (classify_publish k)) | Inr ack \<Rightarrow> Inr ack))"
proof (induction ps)
  case (Cons p ps)
  then show ?case by (auto split: if_splits option.splits sum.splits)
qed simp

lemma publish_meaning:
  assumes "broker_honest env deadline" "publish env deadline = Some r"
  shows "r = Inl Rejected \<Longrightarrow> \<not> pe_stored env" "r = Inr ack \<Longrightarrow> pe_stored env"
proof -
  have polled: "(r = Inl Rejected \<longrightarrow> \<not> pe_stored env) \<and> (\<forall>ack. r = Inr ack \<longrightarrow> pe_stored env)" if "\<not> publish_refused env deadline"
  proof -
    from that assms(2) have "publish_race (pe_polls env) = Some r" by (simp add: publish_def)
    with publish_race_answer[OF this] assms(1) show ?thesis
      by (fastforce simp: broker_honest_def classify_rejected split: sum.splits)
  qed
  have "\<not> pe_stored env \<and> r = Inl Rejected" if "publish_refused env deadline"
    using assms that by (auto simp: publish_def broker_honest_def was_dispatched_def)
  with polled show "r = Inl Rejected \<Longrightarrow> \<not> pe_stored env" "r = Inr ack \<Longrightarrow> pe_stored env" by blast+
qed

subsection \<open>The headers of a publication\<close>

lemma nats_insert_distinct: "distinct (map fst hs) \<Longrightarrow> distinct (map fst (nats_insert n v hs))"
  by (auto simp: nats_insert_def distinct_map_filter)

lemma publication_set_keeps:
  "distinct (map fst hs) \<Longrightarrow> distinct (map fst (publication_set k v hs))"
  "header_slot n \<noteq> None \<Longrightarrow> nats_get (publication_set k v hs) n = nats_get hs n"
  by (auto simp: publication_set_def trace_limit_def nats_insert_distinct header_slot_def header_names split: if_splits)

lemma trace_inject_keeps:
  "distinct (map fst hs) \<Longrightarrow> distinct (map fst (trace_inject sets hs))"
  "header_slot n \<noteq> None \<Longrightarrow> nats_get (trace_inject sets hs) n = nats_get hs n"
  unfolding trace_inject_def
  by (induction sets arbitrary: hs) (auto simp: publication_set_keeps)

lemma encode_prepared_distinct: "encode_prepared e = Inr hs \<Longrightarrow> distinct (map fst hs)"
  by (auto simp: encode_prepared_def Let_def bind_result_Inr intro!: nats_insert_distinct)

lemma source_message_extends:
  assumes "source_message e sets stream max_payload = Inr (hs', payload)"
  obtains hs where "encode_prepared e = Inr hs" "extends_headers hs hs'" "payload = ev_payload e"
    "length payload \<le> max_payload"
proof -
  obtain hs where hs: "encode_prepared e = Inr hs" "payload = ev_payload e" "length payload \<le> max_payload"
    "hs' = nats_insert ''Nats-Expected-Stream'' stream (trace_inject sets hs)" "encoded_header_bytes hs' \<le> HEADER_LIMIT_BYTES"
    using assms by (auto simp: source_message_def Let_def split: if_splits sum.splits)
  have "header_slot ''Nats-Expected-Stream'' = None" by (simp add: header_slot_def header_names)
  then have "extends_headers hs hs'"
    using hs(5) encode_prepared_distinct[OF hs(1)] unfolding hs(4) extends_headers_def
    by (auto simp: nats_insert_distinct trace_inject_keeps)
  with that hs(1,2,3) show thesis by blast
qed

lemma publish_truth:
  assumes broker: "broker_honest env deadline"
    and pub: "producer_publish sh sets env e deadline = out"
    and lib: "time_lib_ok lib" "event_ok lib e"
  shows "(pb_result out = Some (Inr ack) \<longrightarrow> pe_stored env \<and> pb_sent out \<noteq> None) \<and>
    (pb_result out = Some (Inl Rejected) \<longrightarrow> pb_sent out = None \<or> \<not> pe_stored env) \<and>
    (\<forall>subject hs payload. pb_sent out = Some (subject, hs, payload) \<longrightarrow>
       length payload \<le> sh_max_payload sh \<and> encoded_header_bytes hs \<le> HEADER_LIMIT_BYTES \<and>
       decode_envelope lib subject hs payload =
         Inr \<lparr>ie_message_id = ev_message_id e, ie_event_type = ev_event_type e, ie_schema_version = ev_schema_version e,
              ie_occurred_at = ev_occurred_at e, ie_payload = ev_payload e\<rparr>) \<and>
    pb_recorded out = map_option publish_result_label (pb_result out)"
proof -
  have sent: "\<exists>hs payload. source_message e sets (sh_source_stream sh) (sh_max_payload sh) = Inr (hs, payload) \<and>
      pb_sent out = Some (ev_subject e, hs, payload) \<and> pb_result out = publish env deadline" if "pb_sent out \<noteq> None"
    using that pub by (auto simp: producer_publish_def split: if_splits sum.splits)
  have "pe_stored env \<and> pb_sent out \<noteq> None" if ack: "pb_result out = Some (Inr ack)"
  proof -
    from ack pub have p: "publish env deadline = Some (Inr ack)" "pb_sent out = None \<longrightarrow> \<not> was_dispatched env deadline"
      by (auto simp: producer_publish_def split: if_splits sum.splits)
    then have "pe_stored env" using publish_meaning(2)[OF broker p(1)] by simp
    with p(2) broker show ?thesis by (auto simp: broker_honest_def)
  qed
  moreover have "pb_sent out = None \<or> \<not> pe_stored env" if "pb_result out = Some (Inl Rejected)"
    using sent publish_meaning(1)[OF broker] that by auto
  moreover have "length payload \<le> sh_max_payload sh \<and> encoded_header_bytes hs \<le> HEADER_LIMIT_BYTES \<and>
       decode_envelope lib subject hs payload =
         Inr \<lparr>ie_message_id = ev_message_id e, ie_event_type = ev_event_type e, ie_schema_version = ev_schema_version e,
              ie_occurred_at = ev_occurred_at e, ie_payload = ev_payload e\<rparr>"
    if s: "pb_sent out = Some (subject, hs, payload)" for subject hs payload
  proof -
    from sent s have m: "source_message e sets (sh_source_stream sh) (sh_max_payload sh) = Inr (hs, payload)"
      "subject = ev_subject e" by auto
    obtain hs0 where hs0: "encode_prepared e = Inr hs0" "extends_headers hs0 hs" "payload = ev_payload e"
      "length payload \<le> sh_max_payload sh" using source_message_extends[OF m(1)] by blast
    then show ?thesis using envelope_decodes[OF lib hs0(1,2)] m(2) by (simp add: extends_headers_def)
  qed
  moreover have "pb_recorded out = map_option publish_result_label (pb_result out)"
    using pub by (auto simp: producer_publish_def split: if_splits sum.splits)
  ultimately show ?thesis by blast
qed

text \<open>
  C14. The answer of a publication is the truth about the broker. Acknowledged means that the broker holds
  the message, rejected that it does not; a message that was sent and not answered conclusively is
  ambiguous. Every ended publication is recorded with the label of its answer, and what is sent is the
  event: within the payload and header bounds, with headers that decode to its identity and payload.
\<close>

theorem publish_conclusive:
  assumes broker: "broker_honest env deadline"
    and pub: "producer_publish sh sets env e deadline = out"
    and lib: "time_lib_ok lib" "event_ok lib e"
  shows "(pb_result out = Some (Inr ack) \<longrightarrow> pe_stored env \<and> pb_sent out \<noteq> None) \<and>
    (pb_result out = Some (Inl Rejected) \<longrightarrow> pb_sent out = None \<or> \<not> pe_stored env) \<and>
    (\<forall>subject hs payload. pb_sent out = Some (subject, hs, payload) \<longrightarrow>
       length payload \<le> sh_max_payload sh \<and> encoded_header_bytes hs \<le> HEADER_LIMIT_BYTES \<and>
       decode_envelope lib subject hs payload =
         Inr \<lparr>ie_message_id = ev_message_id e, ie_event_type = ev_event_type e, ie_schema_version = ev_schema_version e,
              ie_occurred_at = ev_occurred_at e, ie_payload = ev_payload e\<rparr>) \<and>
    pb_recorded out = map_option publish_result_label (pb_result out)"
  by (rule publish_truth[OF assms])

definition demo_shared :: shared where
  "demo_shared = \<lparr>sh_source_stream = bytes_of ''S'', sh_max_payload = 10, sh_draining = False, sh_failed = False\<rparr>"

definition demo_publication :: publish_env where
  "demo_publication = \<lparr>pe_entry = 0, pe_check = 1, pe_cancelled = False,
     pe_polls = [\<lparr>pp_cancelled = False, pp_deadline = False, pp_answer = None\<rparr>,
                 \<lparr>pp_cancelled = False, pp_deadline = False,
                  pp_answer = Some (Inr \<lparr>ak_stream = bytes_of ''S'', ak_sequence = 4, ak_duplicate = False\<rparr>)\<rparr>],
     pe_stored = True\<rparr>"

lemma demo_prepared_ok: "event_ok demo_time demo_prepared_event"
  using prepare_event_ok[OF demo_prepare_event] by simp

definition demo_sets :: "(string \<times> bytes) list" where
  "demo_sets = [(''traceparent'', bytes_of ''00'')]"

lemma demo_source_message:
  "is_ok (source_message demo_prepared_event demo_sets (bytes_of ''S'') 10)"
proof -
  have "length (decimal 7) = 1" "length (decimal 2) = 1" by (simp_all add: decimal.simps)
  then show ?thesis
    by (simp add: source_message_def encode_prepared_def Let_def validate_header_bytes_def encoded_header_bytes_def
        nats_insert_def header_names values_bytes_def NATS_PREAMBLE_def HEADER_LIMIT_BYTES_def demo_prepared_event_def
        event_schema_def demo_sets_def trace_inject_def publication_set_def trace_limit_def TRACEPARENT_MAX_BYTES_def bytes_of_def)
qed

lemma demo_honest: "broker_honest demo_publication 9"
  by (simp add: broker_honest_def demo_publication_def was_dispatched_def publish_refused_def BROKER_OPERATION_BUDGET_def time_units)

lemma demo_sent:
  obtains hs where "source_message demo_prepared_event demo_sets (bytes_of ''S'') 10 = Inr (hs, bytes_of ''{}'')"
proof -
  obtain hs payload where
    m: "source_message demo_prepared_event demo_sets (bytes_of ''S'') 10 = Inr (hs, payload)"
    using demo_source_message by (cases "source_message demo_prepared_event demo_sets (bytes_of ''S'') 10") auto
  from source_message_extends[OF m] have "payload = bytes_of ''{}''" by (auto simp: demo_prepared_event_def)
  with m that show thesis by blast
qed

lemma demo_publish:
  "pb_result (producer_publish demo_shared demo_sets demo_publication demo_prepared_event 9) =
     Some (Inr \<lparr>ak_stream = bytes_of ''S'', ak_sequence = 4, ak_duplicate = False\<rparr>)"
proof -
  obtain hs where "source_message demo_prepared_event demo_sets (bytes_of ''S'') 10 = Inr (hs, bytes_of ''{}'')"
    by (rule demo_sent)
  then show ?thesis
    by (simp add: producer_publish_def demo_shared_def publish_def publish_refused_def demo_publication_def
        BROKER_OPERATION_BUDGET_def time_units)
qed

theorem publish_conclusive_witness:
  "\<exists>out subject hs payload. producer_publish demo_shared demo_sets demo_publication demo_prepared_event 9 = out \<and>
     pb_recorded out = Some ''acknowledged'' \<and> pb_sent out = Some (subject, hs, payload) \<and>
     is_ok (decode_envelope demo_time subject hs payload)"
proof -
  let ?out = "producer_publish demo_shared demo_sets demo_publication demo_prepared_event 9"
  note all = publish_conclusive[OF demo_honest refl demo_time_ok demo_prepared_ok, of demo_shared demo_sets]
  from all demo_publish obtain m where m: "pb_sent ?out = Some m" by blast
  then obtain subject hs payload where sent: "pb_sent ?out = Some (subject, hs, payload)" by (cases m) auto
  from all have "pb_recorded ?out = map_option publish_result_label (pb_result ?out)" by blast
  then have "pb_recorded ?out = Some ''acknowledged''"
    unfolding demo_publish by (simp add: publish_result_label_def PUBLISH_RESULTS_def)
  moreover have "is_ok (decode_envelope demo_time subject hs payload)" using all sent by simp
  ultimately show ?thesis using sent by blast
qed

text \<open>
  C15. From the producer's type to the consumer's handler. An event that is prepared on a registered
  route and published reaches the handler registered for its type and version: its envelope, as sent with
  trace and stream headers, decodes, the route of its subject is found, and the handler is called with the
  identity, the time and the payload decoded from exactly the bytes that were serialized.
\<close>

theorem event_reaches_handler:
  assumes lib: "time_lib_ok lib"
    and reg: "registry_try_new routes = Inr reg0"
      "register_handler (oc_type ev, oc_version ev) decode handler reg0 = Inr reg"
    and ev: "0 < oc_version ev" "oc_version ev \<le> u16_max" "decode (concat (oc_chunks ev)) = Some p"
    and pub: "registry_prepare lib reg ev max_payload = Inr e"
      "source_message e sets stream max_wire = Inr (hs, payload)"
  shows "\<exists>envelope. decode_envelope lib (ev_subject e) hs payload = Inr envelope \<and>
    registry_dispatch reg (ev_subject e) envelope context =
      Inr (handler \<lparr>he_id = oc_id ev, he_occurred_at = oc_time ev, he_payload = p\<rparr> context)"
proof -
  obtain subject where route: "rg_routes reg (oc_type ev, oc_version ev) = Some subject"
    "prepare_event lib subject ev max_payload = Inr e"
    using pub(1) by (auto simp: registry_prepare_def split: option.splits)
  have "registry_ok reg" using register_handler_ok[OF reg(2) registry_try_new_ok[OF reg(1)]] .
  then have "valid_text (oc_type ev)" using route(1) by (fastforce simp: registry_ok_def)
  note e = prepare_event_ok[OF route(2) this ev(1,2)]
  obtain hs0 where hs0: "encode_prepared e = Inr hs0" "extends_headers hs0 hs" "payload = ev_payload e"
    using source_message_extends[OF pub(2)] by blast
  have "rg_handlers reg (oc_type ev, oc_version ev) = Some (erase decode handler)"
    using reg(2) by (auto simp: register_handler_def split: if_splits)
  then show ?thesis
    using envelope_decodes[OF lib _ hs0(1,2)] e hs0(3) route(1) ev(3)
    by (simp add: registry_dispatch_def erase_def)
qed

definition demo_routes :: "unit route list" where
  "demo_routes = [\<lparr>rt_key = (bytes_of ''order'', 2), rt_subject = bytes_of ''a.b'', rt_schema = None\<rparr>]"

definition demo_handler :: "(nat, bytes) handled_event \<Rightarrow> unit \<Rightarrow> handler_future" where
  "demo_handler e c = (\<lambda>k. if k = 0 then HandlerPending else HandlerReady (Inr ()))"

definition demo_registry :: "(unit, nat, unit) event_registry" where
  "demo_registry = \<lparr>rg_routes = [(bytes_of ''order'', 2) \<mapsto> bytes_of ''a.b''], rg_schemas = Map.empty,
     rg_handlers = [(bytes_of ''order'', 2) \<mapsto> erase Some demo_handler]\<rparr>"

lemma demo_register:
  "registry_try_new demo_routes = Inr (demo_registry\<lparr>rg_handlers := Map.empty\<rparr>)"
  "register_handler (bytes_of ''order'', 2) Some demo_handler (demo_registry\<lparr>rg_handlers := Map.empty\<rparr>) = Inr demo_registry"
  by (simp_all add: registry_try_new_def demo_routes_def demo_registry_def validate_text_def valid_text_def valid_subject_def
      register_handler_def bytes_of_def)

theorem event_reaches_handler_witness:
  "\<exists>hs envelope. decode_envelope demo_time (bytes_of ''a.b'') hs (bytes_of ''{}'') = Inr envelope \<and>
     registry_dispatch demo_registry (bytes_of ''a.b'') envelope () =
       Inr (demo_handler \<lparr>he_id = bytes_of ''e1'', he_occurred_at = 7, he_payload = bytes_of ''{}''\<rparr> ())"
proof -
  obtain hs where m: "source_message demo_prepared_event demo_sets (bytes_of ''S'') 10 = Inr (hs, bytes_of ''{}'')"
    by (rule demo_sent)
  have key: "register_handler (oc_type demo_event, oc_version demo_event) Some demo_handler
      (demo_registry\<lparr>rg_handlers := Map.empty\<rparr>) = Inr demo_registry"
    using demo_register(2) by (simp add: demo_event_def)
  have prep: "registry_prepare demo_time demo_registry demo_event 10 = Inr demo_prepared_event"
    using demo_prepare_event(1) by (simp add: registry_prepare_def demo_registry_def demo_event_def)
  have dec: "Some (concat (oc_chunks demo_event)) = Some (bytes_of ''{}'')" by (simp add: demo_event_def bytes_of_def)
  from event_reaches_handler[OF demo_time_ok demo_register(1) key demo_prepare_event(3,4) dec prep m, of "()"]
  show ?thesis by (auto simp: demo_event_def demo_prepared_event_def)
qed

end
