(* ===== verification/MessageConsumer.thy ===== *)
theory MessageConsumer
  imports MessageProducer
begin

text \<open>
  \<open>crates/infra-messaging/src/consumer.rs\<close>: one delivery from its decoding to its settlement, the pull loop
  with its slots, and both as steps of a broker with a source stream and a dead-letter stream.

  A delivery is the list of its effects in their order, as far as it gets: a task that is aborted has carried
  out a prefix of them.
\<close>

subsection \<open>Constants\<close>

definition HANDLER_TIMEOUT :: duration where "HANDLER_TIMEOUT = from_secs 30"
definition RETRY_DELAYS :: "duration list" where
  "RETRY_DELAYS = [from_secs 1, from_secs 5, from_secs 30, from_secs 120]"
definition MAX_DELIVERIES :: nat where "MAX_DELIVERIES = length RETRY_DELAYS + 1"
definition SETTLEMENT_RETRY_DELAY :: duration where "SETTLEMENT_RETRY_DELAY = from_secs 30"
definition RELEASE_DELAY :: duration where "RELEASE_DELAY = from_secs 1"
definition ACK_WAIT :: duration where
  "ACK_WAIT = HANDLER_TIMEOUT + BROKER_OPERATION_BUDGET + BROKER_OPERATION_BUDGET + from_secs 1"

subsection \<open>One run of a handler\<close>

datatype outcome =
    OutSuccess | OutPermanent | OutRetryable | OutTimedOut | OutPanicked | OutUnhandled | OutUndecodable

definition stopped_outcome :: "stopped_reason \<Rightarrow> outcome" where
  "stopped_outcome r = (case r of DeadlineStop \<Rightarrow> OutTimedOut | CancelledStop \<Rightarrow> OutRetryable)"

text \<open>
  A turn of the race: whether the deadline's wait and the token are ready when it is polled, and the clock
  and the token after the handler's own poll.
\<close>

record handler_turn =
  ht_deadline :: bool
  ht_cancelled :: bool
  ht_now :: instant
  ht_cancelled_after :: bool

definition handler_context :: "instant \<Rightarrow> unit operation_context" where
  "handler_context started = context_new (Some (deadline_new started HANDLER_TIMEOUT)) ()"

definition ready_outcome :: "unit operation_context \<Rightarrow> handler_turn \<Rightarrow> handler_error + unit \<Rightarrow> outcome" where
  "ready_outcome ctx t r =
     (case r of
        Inl HandlerPermanent \<Rightarrow> OutPermanent
      | Inl HandlerRetryable \<Rightarrow> OutRetryable
      | Inr _ \<Rightarrow>
          (case stopped (\<lambda>_. ht_cancelled_after t) ctx (ht_now t) of
             None \<Rightarrow> OutSuccess
           | Some reason \<Rightarrow> stopped_outcome reason))"

fun handler_race ::
  "unit operation_context \<Rightarrow> dispatch_error + handler_future \<Rightarrow> nat \<Rightarrow> handler_turn list \<Rightarrow> outcome option" where
  "handler_race ctx d k [] = None"
| "handler_race ctx d k (t # ts) =
     (case wait_stopped_poll (ht_deadline t) (ht_cancelled t) of
        Some reason \<Rightarrow> Some (stopped_outcome reason)
      | None \<Rightarrow>
          (case d of
             Inl Unhandled \<Rightarrow> Some OutUnhandled
           | Inl Undecodable \<Rightarrow> Some OutUndecodable
           | Inl (HandlerFailed e) \<Rightarrow> Some (ready_outcome ctx t (Inl e))
           | Inr run \<Rightarrow>
               (case run k of
                  HandlerPending \<Rightarrow> handler_race ctx d (Suc k) ts
                | HandlerReady r \<Rightarrow> Some (ready_outcome ctx t r)
                | HandlerPanics \<Rightarrow> Some OutPanicked)))"

definition run_handler ::
  "('s, 't, unit operation_context) event_registry \<Rightarrow> bytes \<Rightarrow> 't inbound_envelope \<Rightarrow> instant \<Rightarrow> handler_turn list \<Rightarrow> outcome option" where
  "run_handler reg subject envelope started turns =
     handler_race (handler_context started) (registry_dispatch reg subject envelope (handler_context started)) 0 turns"

subsection \<open>Settlement\<close>

record 't delivery_info =
  di_stream :: bytes
  di_sequence :: nat
  di_published :: 't
  di_delivered :: int

record 't message =
  mg_subject :: bytes
  mg_headers :: "nats_headers option"
  mg_payload :: bytes
  mg_info :: "'t delivery_info option"
  mg_reply :: bool

definition message_headers :: "'t message \<Rightarrow> nats_headers" where
  "message_headers m = (case mg_headers m of None \<Rightarrow> [] | Some hs \<Rightarrow> hs)"

record ('s, 't) delivery_owner =
  dw_shared :: shared
  dw_registry :: "('s, 't, unit operation_context) event_registry"
  dw_dlq_stream :: bytes

datatype effect =
    HandlerEnded outcome
  | TransferSent nats_headers bytes
  | TransferEnded nats_headers "publish_failure + publish_ack"
  | AckRequested
  | RedeliverRequested duration
  | SettlementFailure string

record delivery_env =
  dn_started :: instant
  dn_turns :: "handler_turn list"
  dn_transfer_now :: instant
  dn_transfer :: publish_env
  dn_confirmed :: bool
  dn_requested :: bool

definition acknowledge :: "delivery_env \<Rightarrow> 't message \<Rightarrow> effect list" where
  "acknowledge env source =
     (if mg_reply source
      then AckRequested # (if dn_confirmed env then [] else [SettlementFailure ''ack''])
      else [SettlementFailure ''ack''])"

definition redeliver_after :: "delivery_env \<Rightarrow> 't message \<Rightarrow> duration \<Rightarrow> effect list" where
  "redeliver_after env source delay =
     (if mg_reply source
      then RedeliverRequested delay # (if dn_requested env then [] else [SettlementFailure ''nak''])
      else [SettlementFailure ''nak''])"

definition transfer_id :: "'t time_lib \<Rightarrow> (bytes \<Rightarrow> bytes) \<Rightarrow> 't message \<Rightarrow> bytes option" where
  "transfer_id lib sha source =
     (case mg_info source of
        None \<Rightarrow> None
      | Some info \<Rightarrow>
          (case dead_letter_id lib sha (di_stream info) (di_sequence info) (di_published info)
                  (header_value (message_headers source) NATS_MSG_ID) of
             Inl _ \<Rightarrow> None
           | Inr tid \<Rightarrow> Some tid))"

definition dead_letter ::
  "'t time_lib \<Rightarrow> (bytes \<Rightarrow> bytes) \<Rightarrow> ('s, 't) delivery_owner \<Rightarrow> delivery_env \<Rightarrow> 't message \<Rightarrow> dead_letter_reason \<Rightarrow> effect list" where
  "dead_letter lib sha own env source reason =
     (case transfer_id lib sha source of
        None \<Rightarrow> redeliver_after env source SETTLEMENT_RETRY_DELAY
      | Some tid \<Rightarrow>
          (let hs = dead_letter_headers (message_headers source) (mg_subject source) (dw_dlq_stream own) tid reason;
               deadline = dn_transfer_now env + BROKER_OPERATION_BUDGET
           in (if was_dispatched (dn_transfer env) deadline then [TransferSent hs (mg_payload source)] else []) @
              (case publish (dn_transfer env) deadline of
                 None \<Rightarrow> []
               | Some (Inr ack) \<Rightarrow> TransferEnded hs (Inr ack) # acknowledge env source
               | Some (Inl e) \<Rightarrow> TransferEnded hs (Inl e) # redeliver_after env source SETTLEMENT_RETRY_DELAY)))"

definition retry_delay_after :: "nat \<Rightarrow> duration" where
  "retry_delay_after delivered =
     (if delivered - 1 < length RETRY_DELAYS then RETRY_DELAYS ! (delivered - 1) else SETTLEMENT_RETRY_DELAY)"

definition settle ::
  "'t time_lib \<Rightarrow> (bytes \<Rightarrow> bytes) \<Rightarrow> ('s, 't) delivery_owner \<Rightarrow> delivery_env \<Rightarrow> 't message \<Rightarrow> nat \<Rightarrow> outcome \<Rightarrow> effect list" where
  "settle lib sha own env m delivered out =
     (if out = OutSuccess then acknowledge env m
      else if out \<in> {OutPermanent, OutUnhandled, OutUndecodable} then dead_letter lib sha own env m PermanentReason
      else if delivered \<ge> MAX_DELIVERIES then dead_letter lib sha own env m ExhaustedReason
      else redeliver_after env m (retry_delay_after delivered))"

definition process_delivery ::
  "'t time_lib \<Rightarrow> (bytes \<Rightarrow> bytes) \<Rightarrow> ('s, 't) delivery_owner \<Rightarrow> delivery_env \<Rightarrow> 't message \<Rightarrow> 't inbound_envelope \<Rightarrow> nat \<Rightarrow> effect list" where
  "process_delivery lib sha own env m envelope delivered =
     (case run_handler (dw_registry own) (mg_subject m) envelope (dn_started env) (dn_turns env) of
        None \<Rightarrow> []
      | Some out \<Rightarrow> HandlerEnded out # settle lib sha own env m delivered out)"

text \<open>\<open>usize::try_from\<close> refuses a negative delivery count.\<close>

definition delivered_times :: "'t message \<Rightarrow> nat option" where
  "delivered_times m =
     (case mg_info m of None \<Rightarrow> None | Some info \<Rightarrow> if di_delivered info < 0 then None else Some (nat (di_delivered info)))"

definition delivery_envelope :: "'t time_lib \<Rightarrow> ('s, 't) delivery_owner \<Rightarrow> 't message \<Rightarrow> messaging_error + 't inbound_envelope" where
  "delivery_envelope lib own m =
     (if length (mg_payload m) > sh_max_payload (dw_shared own) then Inl Bounds
      else decode_envelope lib (mg_subject m) (message_headers m) (mg_payload m))"

definition handle ::
  "'t time_lib \<Rightarrow> (bytes \<Rightarrow> bytes) \<Rightarrow> ('s, 't) delivery_owner \<Rightarrow> delivery_env \<Rightarrow> 't message \<Rightarrow> effect list" where
  "handle lib sha own env m =
     (case delivered_times m of
        None \<Rightarrow> []
      | Some delivered \<Rightarrow>
          (case delivery_envelope lib own m of
             Inl _ \<Rightarrow> dead_letter lib sha own env m Malformed
           | Inr envelope \<Rightarrow>
               if delivered > MAX_DELIVERIES then dead_letter lib sha own env m ExhaustedReason
               else process_delivery lib sha own env m envelope delivered))"

subsection \<open>The order of the effects\<close>

text \<open>
  An acknowledgement is requested only after the handler's success or the acknowledged transfer; the flag
  says that one of the two has already been seen.
\<close>

fun acks_justified :: "bool \<Rightarrow> effect list \<Rightarrow> bool" where
  "acks_justified ok [] = True"
| "acks_justified ok (e # es) =
     (case e of
        AckRequested \<Rightarrow> ok \<and> acks_justified ok es
      | HandlerEnded out \<Rightarrow> acks_justified (ok \<or> out = OutSuccess) es
      | TransferEnded hs r \<Rightarrow> acks_justified (ok \<or> is_ok r) es
      | _ \<Rightarrow> acks_justified ok es)"

lemma acks_justified_mono: "acks_justified ok es \<Longrightarrow> ok \<longrightarrow> ok' \<Longrightarrow> acks_justified ok' es"
proof (induction es arbitrary: ok ok')
  case (Cons e es)
  then show ?case by (cases e) fastforce+
qed simp

text \<open>What a delivery of this message may send: copies of it under its transfer identity.\<close>

definition copy_of :: "'t time_lib \<Rightarrow> (bytes \<Rightarrow> bytes) \<Rightarrow> bytes \<Rightarrow> 't message \<Rightarrow> nats_headers \<Rightarrow> bool" where
  "copy_of lib sha dlq m hs \<longleftrightarrow>
     (\<exists>tid reason. transfer_id lib sha m = Some tid \<and>
        hs = dead_letter_headers (message_headers m) (mg_subject m) dlq tid reason)"

definition effect_ok :: "'t time_lib \<Rightarrow> (bytes \<Rightarrow> bytes) \<Rightarrow> bytes \<Rightarrow> 't message \<Rightarrow> effect \<Rightarrow> bool" where
  "effect_ok lib sha dlq m e =
     (case e of
        TransferSent hs payload \<Rightarrow> copy_of lib sha dlq m hs \<and> payload = mg_payload m
      | TransferEnded hs r \<Rightarrow> copy_of lib sha dlq m hs
      | _ \<Rightarrow> True)"

lemma settlement_effects:
  "acks_justified True (acknowledge env m)" "acks_justified ok (redeliver_after env m d)"
  "list_all (effect_ok lib sha dlq m) (acknowledge env m)" "list_all (effect_ok lib sha dlq m) (redeliver_after env m d)"
  by (simp_all add: acknowledge_def redeliver_after_def effect_ok_def)

lemma dead_letter_effects:
  "acks_justified ok (dead_letter lib sha own env m reason)"
  "list_all (effect_ok lib sha (dw_dlq_stream own) m) (dead_letter lib sha own env m reason)"
proof -
  have "acks_justified ok (dead_letter lib sha own env m reason) \<and>
      list_all (effect_ok lib sha (dw_dlq_stream own) m) (dead_letter lib sha own env m reason)"
  proof (cases "transfer_id lib sha m")
    case None
    then show ?thesis by (simp add: dead_letter_def settlement_effects)
  next
    case (Some tid)
    have "copy_of lib sha (dw_dlq_stream own) m
        (dead_letter_headers (message_headers m) (mg_subject m) (dw_dlq_stream own) tid reason)"
      using Some by (auto simp: copy_of_def)
    then show ?thesis using Some
      by (auto simp: dead_letter_def Let_def settlement_effects effect_ok_def split: option.splits sum.splits)
  qed
  then show "acks_justified ok (dead_letter lib sha own env m reason)"
    "list_all (effect_ok lib sha (dw_dlq_stream own) m) (dead_letter lib sha own env m reason)" by simp_all
qed

lemma settle_effects:
  "acks_justified (out = OutSuccess) (settle lib sha own env m n out)"
  "list_all (effect_ok lib sha (dw_dlq_stream own) m) (settle lib sha own env m n out)"
  by (auto simp: settle_def settlement_effects dead_letter_effects)

lemma handle_effects:
  "acks_justified False (handle lib sha own env m)"
  "list_all (effect_ok lib sha (dw_dlq_stream own) m) (handle lib sha own env m)"
  by (auto simp: handle_def process_delivery_def dead_letter_effects settle_effects effect_ok_def
      split: option.splits sum.splits)

subsection \<open>The settlement of one delivery\<close>

definition settlements :: "effect list \<Rightarrow> effect list" where
  "settlements es = filter (\<lambda>e. case e of AckRequested \<Rightarrow> True | RedeliverRequested _ \<Rightarrow> True | _ \<Rightarrow> False) es"

text \<open>The handler of a delivery returned success, within its time and before it was cancelled.\<close>

definition handler_succeeded :: "('s, 't) delivery_owner \<Rightarrow> delivery_env \<Rightarrow> 't message \<Rightarrow> 't inbound_envelope \<Rightarrow> bool" where
  "handler_succeeded own env m envelope \<longleftrightarrow>
     (\<exists>run k. \<exists>t \<in> set (dn_turns env).
        registry_dispatch (dw_registry own) (mg_subject m) envelope (handler_context (dn_started env)) = Inr run \<and>
        run k = HandlerReady (Inr ()) \<and> ht_now t < dn_started env + HANDLER_TIMEOUT \<and> \<not> ht_cancelled_after t)"

lemma handler_race_success:
  "handler_race (handler_context started) d k ts = Some OutSuccess \<Longrightarrow>
     \<exists>run j. \<exists>t \<in> set ts. d = Inr run \<and> run j = HandlerReady (Inr ()) \<and>
       ht_now t < started + HANDLER_TIMEOUT \<and> \<not> ht_cancelled_after t"
proof (induction ts arbitrary: k)
  case (Cons t ts)
  have fresh: "ht_now t < started + HANDLER_TIMEOUT \<and> \<not> ht_cancelled_after t \<and> r = Inr ()"
    if "ready_outcome (handler_context started) t r = OutSuccess" for r
    using that by (auto simp: ready_outcome_def stopped_def handler_context_def context_new_def deadline_new_def expired_def
        remaining_at_def duration_since_def stopped_outcome_def split: sum.splits handler_error.splits if_splits)
  show ?case
  proof (cases "wait_stopped_poll (ht_deadline t) (ht_cancelled t)")
    case None
    with Cons.prems obtain run where run: "d = Inr run"
      by (cases d) (auto simp: ready_outcome_def split: dispatch_error.splits handler_error.splits)
    show ?thesis
    proof (cases "run k")
      case HandlerPending
      with Cons.prems None run have "handler_race (handler_context started) d (Suc k) ts = Some OutSuccess" by simp
      from Cons.IH[OF this] show ?thesis by auto
    next
      case (HandlerReady r)
      with Cons.prems None run have "ready_outcome (handler_context started) t r = OutSuccess" by simp
      from fresh[OF this] HandlerReady run show ?thesis by auto
    next
      case HandlerPanics
      with Cons.prems None run show ?thesis by simp
    qed
  next
    case (Some reason)
    with Cons.prems show ?thesis by (cases reason) (simp_all add: stopped_outcome_def)
  qed
qed simp

lemma run_handler_success:
  assumes "run_handler (dw_registry own) (mg_subject m) envelope (dn_started env) (dn_turns env) = Some OutSuccess"
  shows "handler_succeeded own env m envelope"
  using handler_race_success[OF assms[unfolded run_handler_def]] by (auto simp: handler_succeeded_def)

lemmas settlement_defs = settlements_def acknowledge_def redeliver_after_def

lemma settlements_simps [simp]:
  "mg_reply m \<Longrightarrow> settlements (acknowledge env m) = [AckRequested]"
  "mg_reply m \<Longrightarrow> settlements (redeliver_after env m d) = [RedeliverRequested d]"
  "settlements (HandlerEnded out # es) = settlements es"
  by (auto simp: settlement_defs)

lemma dead_letter_settlements:
  assumes "mg_reply m" "publish (dn_transfer env) (dn_transfer_now env + BROKER_OPERATION_BUDGET) = Some r"
  shows "settlements (dead_letter lib sha own env m reason) =
    (if is_ok r \<and> transfer_id lib sha m \<noteq> None then [AckRequested] else [RedeliverRequested SETTLEMENT_RETRY_DELAY])"
proof (cases "transfer_id lib sha m")
  case (Some tid)
  then show ?thesis using assms by (cases r) (auto simp: dead_letter_def Let_def settlement_defs)
qed (use assms(1) in \<open>simp add: dead_letter_def\<close>)

lemma retry_delay_after_bounds: "0 < retry_delay_after n" "retry_delay_after n \<le> from_secs 120"
proof -
  have "n - 1 \<in> {0, 1, 2, 3} \<or> 4 \<le> n - 1" by auto
  then show "0 < retry_delay_after n" "retry_delay_after n \<le> from_secs 120"
    by (auto simp: retry_delay_after_def RETRY_DELAYS_def SETTLEMENT_RETRY_DELAY_def time_units numeral_2_eq_2 numeral_3_eq_3)
qed

lemma settle_settlements:
  assumes "mg_reply m" "publish (dn_transfer env) (dn_transfer_now env + BROKER_OPERATION_BUDGET) = Some r"
  shows "settlements (settle lib sha own env m n out) =
    (if out = OutSuccess then [AckRequested]
     else if out \<in> {OutPermanent, OutUnhandled, OutUndecodable} \<or> MAX_DELIVERIES \<le> n
     then (if is_ok r \<and> transfer_id lib sha m \<noteq> None then [AckRequested] else [RedeliverRequested SETTLEMENT_RETRY_DELAY])
     else [RedeliverRequested (retry_delay_after n)])"
  using assms by (auto simp: settle_def dead_letter_settlements)

text \<open>
  C13. A delivery that runs to its end is settled exactly once. It is acknowledged only after its handler
  returned success within 30 seconds and uncancelled, on one of the first five deliveries, or after the
  broker acknowledged its copy on the dead-letter stream. Otherwise it is redelivered, within two minutes,
  and from the fifth delivery on only because the copy failed.
\<close>

theorem delivery_settled_once:
  assumes m: "mg_info m = Some info" "di_delivered info = int n" "mg_reply m"
    and transfer: "publish (dn_transfer env) (dn_transfer_now env + BROKER_OPERATION_BUDGET) = Some r"
    and handler: "\<And>envelope. delivery_envelope lib own m = Inr envelope \<Longrightarrow>
      run_handler (dw_registry own) (mg_subject m) envelope (dn_started env) (dn_turns env) \<noteq> None"
  shows "\<exists>e. settlements (handle lib sha own env m) = [e] \<and>
    (e = AckRequested \<longrightarrow>
       (\<exists>envelope. delivery_envelope lib own m = Inr envelope \<and> n \<le> 5 \<and> handler_succeeded own env m envelope) \<or>
       (is_ok r \<and> transfer_id lib sha m \<noteq> None)) \<and>
    (e \<noteq> AckRequested \<longrightarrow> (\<exists>delay. e = RedeliverRequested delay \<and> 0 < delay \<and> delay \<le> from_secs 120 \<and>
       (5 \<le> n \<longrightarrow> \<not> is_ok r \<or> transfer_id lib sha m = None)))"
proof -
  have n: "delivered_times m = Some n" using m(1,2) by (simp add: delivered_times_def)
  have bounds: "0 < SETTLEMENT_RETRY_DELAY" "SETTLEMENT_RETRY_DELAY \<le> from_secs 120" "MAX_DELIVERIES = 5"
    by (simp_all add: SETTLEMENT_RETRY_DELAY_def MAX_DELIVERIES_def RETRY_DELAYS_def time_units)
  show ?thesis
  proof (cases "delivery_envelope lib own m")
    case (Inl e)
    then show ?thesis using n bounds by (simp add: handle_def dead_letter_settlements[OF m(3) transfer])
  next
    case (Inr envelope)
    show ?thesis
    proof (cases "n > MAX_DELIVERIES")
      case True
      then show ?thesis using n Inr bounds by (simp add: handle_def dead_letter_settlements[OF m(3) transfer])
    next
      case False
      from handler[OF Inr] obtain out where
        out: "run_handler (dw_registry own) (mg_subject m) envelope (dn_started env) (dn_turns env) = Some out" by blast
      have "settlements (handle lib sha own env m) = settlements (settle lib sha own env m n out)"
        using n Inr False out by (simp add: handle_def process_delivery_def)
      moreover have "out = OutSuccess \<longrightarrow> handler_succeeded own env m envelope" using run_handler_success out by blast
      ultimately show ?thesis using False bounds retry_delay_after_bounds[of n] Inr
        by (simp add: settle_settlements[OF m(3) transfer])
    qed
  qed
qed

definition demo_owner :: "(unit, nat) delivery_owner" where
  "demo_owner = \<lparr>dw_shared = demo_shared,
     dw_registry = \<lparr>rg_routes = [(bytes_of ''order'', 2) \<mapsto> bytes_of ''a.b''], rg_schemas = Map.empty,
       rg_handlers = [(bytes_of ''order'', 2) \<mapsto> erase Some (\<lambda>e c k. HandlerReady (Inr ()))]\<rparr>,
     dw_dlq_stream = bytes_of ''DLQ''\<rparr>"

definition demo_delivery :: delivery_env where
  "demo_delivery = \<lparr>dn_started = 0, dn_turns = [\<lparr>ht_deadline = False, ht_cancelled = False, ht_now = 3, ht_cancelled_after = False\<rparr>],
     dn_transfer_now = 5, dn_transfer = demo_publication, dn_confirmed = True, dn_requested = True\<rparr>"

text \<open>A payload over the bound is malformed, and its copy is acknowledged.\<close>

definition demo_large :: "nat message" where
  "demo_large = \<lparr>mg_subject = bytes_of ''a.b'', mg_headers = None, mg_payload = replicate 11 0,
     mg_info = Some \<lparr>di_stream = bytes_of ''S'', di_sequence = 1, di_published = 4, di_delivered = int 1\<rparr>, mg_reply = True\<rparr>"

theorem delivery_settled_once_witness:
  "\<exists>e. settlements (handle demo_time (\<lambda>_. [171]) demo_owner demo_delivery demo_large) = [e] \<and>
     (e \<noteq> AckRequested \<longrightarrow> (\<exists>delay. e = RedeliverRequested delay \<and> delay \<le> from_secs 120))"
proof -
  have pub: "publish (dn_transfer demo_delivery) (dn_transfer_now demo_delivery + BROKER_OPERATION_BUDGET) =
      Some (Inr \<lparr>ak_stream = bytes_of ''S'', ak_sequence = 4, ak_duplicate = False\<rparr>)"
    by (simp add: demo_delivery_def demo_publication_def publish_def publish_refused_def BROKER_OPERATION_BUDGET_def time_units)
  have large: "delivery_envelope demo_time demo_owner demo_large \<noteq> Inr envelope" for envelope
    by (simp add: delivery_envelope_def demo_owner_def demo_shared_def demo_large_def)
  have "mg_info demo_large = Some \<lparr>di_stream = bytes_of ''S'', di_sequence = 1, di_published = 4, di_delivered = int 1\<rparr>"
    "mg_reply demo_large" by (simp_all add: demo_large_def)
  from delivery_settled_once[OF this(1) _ this(2) pub, of 1 demo_time demo_owner "\<lambda>_. [171]"] large show ?thesis by auto
qed

end
