(* ===== verification/MessageBroker.thy ===== *)
theory MessageBroker
  imports MessageConsumer
begin

text \<open>
  The deliveries of \<open>crates/infra-messaging/src/consumer.rs\<close> against a broker: all replicas' tasks, the
  messages on the wire, the source stream and the dead-letter stream, as one step relation. The broker
  stores what is published, delivers what is not settled, and answers a transfer positively only when it holds
  a record with that \<open>Nats-Msg-Id\<close>. It recognizes a repeated identity only inside the stream's duplicate window:
  once it has forgotten an identity, a late or repeated transfer stores another copy. A task may be aborted
  between any two effects, and a request may arrive late, several times or never. Retention and the removal of
  records by operators are not modelled.
\<close>

subsection \<open>The broker and the tasks\<close>

record 't stored_message =
  sm_subject :: bytes
  sm_headers :: "nats_headers option"
  sm_payload :: bytes
  sm_published :: 't

record 't broker =
  bk_source :: "nat \<rightharpoonup> 't stored_message"
  bk_dead :: "(nats_headers \<times> bytes) list"
  bk_window :: "bytes list"
  bk_tasks :: "(nat \<times> effect list) list"
  bk_wire :: "(nats_headers \<times> bytes) list"
  bk_acks :: "nat list"
  bk_settled :: "nat list"
  bk_handled :: "nat list"

definition as_delivered :: "bytes \<Rightarrow> nat \<Rightarrow> nat \<Rightarrow> 't stored_message \<Rightarrow> 't message" where
  "as_delivered stream seqno n m =
     \<lparr>mg_subject = sm_subject m, mg_headers = sm_headers m, mg_payload = sm_payload m,
      mg_info = Some \<lparr>di_stream = stream, di_sequence = seqno, di_published = sm_published m, di_delivered = int n\<rparr>,
      mg_reply = True\<rparr>"

definition dead_id :: "nats_headers \<times> bytes \<Rightarrow> bytes" where
  "dead_id r = header_value (fst r) NATS_MSG_ID"

definition dead_ids :: "'t broker \<Rightarrow> bytes set" where
  "dead_ids s = dead_id ` set (bk_dead s)"

text \<open>The next effect of a task; \<^term>\<open>None\<close> for an answer this broker does not give.\<close>

fun carry_out :: "nat \<Rightarrow> effect \<Rightarrow> 't broker \<Rightarrow> 't broker option" where
  "carry_out seqno (HandlerEnded out) s =
     Some (if out = OutSuccess then s\<lparr>bk_handled := seqno # bk_handled s\<rparr> else s)"
| "carry_out seqno (TransferSent hs payload) s = Some (s\<lparr>bk_wire := (hs, payload) # bk_wire s\<rparr>)"
| "carry_out seqno (TransferEnded hs r) s =
     (if is_ok r \<and> header_value hs NATS_MSG_ID \<notin> dead_ids s then None else Some s)"
| "carry_out seqno AckRequested s = Some (s\<lparr>bk_acks := seqno # bk_acks s\<rparr>)"
| "carry_out seqno (RedeliverRequested delay) s = Some s"
| "carry_out seqno (SettlementFailure what) s = Some s"

text \<open>
  The arrival of a transfer: an identity inside the duplicate window is not stored again. The window loses
  its identities one by one, at any time.
\<close>

definition store_dead :: "nats_headers \<times> bytes \<Rightarrow> 't broker \<Rightarrow> 't broker" where
  "store_dead w s =
     (if dead_id w \<in> set (bk_window s) then s
      else s\<lparr>bk_dead := w # bk_dead s, bk_window := dead_id w # bk_window s\<rparr>)"

inductive broker_step ::
  "'t time_lib \<Rightarrow> (bytes \<Rightarrow> bytes) \<Rightarrow> ('s, 't) delivery_owner \<Rightarrow> 't broker \<Rightarrow> 't broker \<Rightarrow> bool"
  for lib sha own where
  publishes: "bk_source s seqno = None \<Longrightarrow> broker_step lib sha own s (s\<lparr>bk_source := (bk_source s)(seqno \<mapsto> m)\<rparr>)"
| delivers: "bk_source s seqno = Some m \<Longrightarrow> seqno \<notin> set (bk_settled s) \<Longrightarrow>
    broker_step lib sha own s
      (s\<lparr>bk_tasks := (seqno, handle lib sha own env (as_delivered (sh_source_stream (dw_shared own)) seqno n m)) # bk_tasks s\<rparr>)"
| acts: "i < length (bk_tasks s) \<Longrightarrow> bk_tasks s ! i = (seqno, e # es) \<Longrightarrow> carry_out seqno e s = Some s' \<Longrightarrow>
    broker_step lib sha own s (s'\<lparr>bk_tasks := (bk_tasks s)[i := (seqno, es)]\<rparr>)"
| aborts: "broker_step lib sha own s (s\<lparr>bk_tasks := take i (bk_tasks s) @ drop (Suc i) (bk_tasks s)\<rparr>)"
| stores: "w \<in> set (bk_wire s) \<Longrightarrow> broker_step lib sha own s (store_dead w s)"
| forgets: "broker_step lib sha own s (s\<lparr>bk_window := removeAll tid (bk_window s)\<rparr>)"
| settles: "seqno \<in> set (bk_acks s) \<Longrightarrow> broker_step lib sha own s (s\<lparr>bk_settled := seqno # bk_settled s\<rparr>)"

definition broker_init :: "'t broker" where
  "broker_init = \<lparr>bk_source = Map.empty, bk_dead = [], bk_window = [], bk_tasks = [], bk_wire = [], bk_acks = [], bk_settled = [], bk_handled = []\<rparr>"

subsection \<open>The invariant\<close>

definition source_id :: "'t time_lib \<Rightarrow> (bytes \<Rightarrow> bytes) \<Rightarrow> bytes \<Rightarrow> nat \<Rightarrow> 't stored_message \<Rightarrow> bytes option" where
  "source_id lib sha stream seqno m = transfer_id lib sha (as_delivered stream seqno 0 m)"

lemma mg_payload_delivered [simp]: "mg_payload (as_delivered stream seqno n m) = sm_payload m"
  by (simp add: as_delivered_def)

lemma transfer_id_delivered: "transfer_id lib sha (as_delivered stream seqno n m) = source_id lib sha stream seqno m"
  by (simp add: source_id_def transfer_id_def as_delivered_def message_headers_def)

text \<open>A record of the dead-letter stream, or one on its way there, is a copy of a source message.\<close>

definition source_copy ::
  "'t time_lib \<Rightarrow> (bytes \<Rightarrow> bytes) \<Rightarrow> ('s, 't) delivery_owner \<Rightarrow> nat \<Rightarrow> 't stored_message \<Rightarrow> nats_headers \<Rightarrow> bool" where
  "source_copy lib sha own seqno m hs \<longleftrightarrow>
     copy_of lib sha (dw_dlq_stream own) (as_delivered (sh_source_stream (dw_shared own)) seqno 0 m) hs"

lemma copy_of_delivered:
  "copy_of lib sha (dw_dlq_stream own) (as_delivered (sh_source_stream (dw_shared own)) seqno n m) hs \<longleftrightarrow>
     source_copy lib sha own seqno m hs"
  by (simp add: source_copy_def copy_of_def transfer_id_delivered) (simp add: as_delivered_def message_headers_def)

lemma source_copy_id:
  "source_copy lib sha own seqno m hs \<Longrightarrow>
     source_id lib sha (sh_source_stream (dw_shared own)) seqno m = Some (header_value hs NATS_MSG_ID)"
  by (auto simp: source_copy_def copy_of_def transfer_id_delivered header_value_def dead_letter_transfer_headers)

definition dealt_with :: "'t time_lib \<Rightarrow> (bytes \<Rightarrow> bytes) \<Rightarrow> ('s, 't) delivery_owner \<Rightarrow> 't broker \<Rightarrow> nat \<Rightarrow> bool" where
  "dealt_with lib sha own s seqno \<longleftrightarrow>
     seqno \<in> set (bk_handled s) \<or>
     (\<exists>m tid. bk_source s seqno = Some m \<and> source_id lib sha (sh_source_stream (dw_shared own)) seqno m = Some tid \<and> tid \<in> dead_ids s)"

definition carried :: "'t time_lib \<Rightarrow> (bytes \<Rightarrow> bytes) \<Rightarrow> ('s, 't) delivery_owner \<Rightarrow> 't broker \<Rightarrow> nats_headers \<times> bytes \<Rightarrow> bool" where
  "carried lib sha own s w \<longleftrightarrow>
     (\<exists>seqno m. bk_source s seqno = Some m \<and> source_copy lib sha own seqno m (fst w) \<and> snd w = sm_payload m)"

definition task_ok :: "'t time_lib \<Rightarrow> (bytes \<Rightarrow> bytes) \<Rightarrow> ('s, 't) delivery_owner \<Rightarrow> 't broker \<Rightarrow> nat \<times> effect list \<Rightarrow> bool" where
  "task_ok lib sha own s t \<longleftrightarrow>
     (\<exists>m. bk_source s (fst t) = Some m \<and>
        list_all (effect_ok lib sha (dw_dlq_stream own) (as_delivered (sh_source_stream (dw_shared own)) (fst t) 0 m)) (snd t)) \<and>
     acks_justified (dealt_with lib sha own s (fst t)) (snd t)"

definition broker_inv :: "'t time_lib \<Rightarrow> (bytes \<Rightarrow> bytes) \<Rightarrow> ('s, 't) delivery_owner \<Rightarrow> 't broker \<Rightarrow> bool" where
  "broker_inv lib sha own s \<longleftrightarrow>
     (\<forall>t \<in> set (bk_tasks s). task_ok lib sha own s t) \<and>
     (\<forall>w \<in> set (bk_wire s) \<union> set (bk_dead s). carried lib sha own s w) \<and>
     (\<forall>seqno \<in> set (bk_acks s) \<union> set (bk_settled s). dealt_with lib sha own s seqno)"

text \<open>The streams and the handled messages only grow, and then everything established stays.\<close>

definition grows :: "'t broker \<Rightarrow> 't broker \<Rightarrow> bool" where
  "grows s s' \<longleftrightarrow> bk_source s \<subseteq>\<^sub>m bk_source s' \<and> dead_ids s \<subseteq> dead_ids s' \<and> set (bk_handled s) \<subseteq> set (bk_handled s')"

lemma grows_source: "grows s s' \<Longrightarrow> bk_source s k = Some m \<Longrightarrow> bk_source s' k = Some m"
  unfolding grows_def map_le_def by force

lemma dealt_with_grows: "dealt_with lib sha own s k \<Longrightarrow> grows s s' \<Longrightarrow> dealt_with lib sha own s' k"
  unfolding dealt_with_def using grows_source[of s s'] by (auto simp: grows_def)

lemma carried_grows: "carried lib sha own s w \<Longrightarrow> grows s s' \<Longrightarrow> carried lib sha own s' w"
  unfolding carried_def using grows_source[of s s'] by blast

lemma task_ok_grows: "task_ok lib sha own s t \<Longrightarrow> grows s s' \<Longrightarrow> task_ok lib sha own s' t"
  unfolding task_ok_def using grows_source[of s s'] dealt_with_grows acks_justified_mono by blast

lemma broker_inv_grows:
  assumes "broker_inv lib sha own s" "grows s s'"
    and "\<forall>t \<in> set (bk_tasks s'). t \<in> set (bk_tasks s) \<or> task_ok lib sha own s' t"
    and "\<forall>w \<in> set (bk_wire s') \<union> set (bk_dead s'). w \<in> set (bk_wire s) \<union> set (bk_dead s) \<or> carried lib sha own s' w"
    and "\<forall>k \<in> set (bk_acks s') \<union> set (bk_settled s'). k \<in> set (bk_acks s) \<union> set (bk_settled s) \<or> dealt_with lib sha own s' k"
  shows "broker_inv lib sha own s'"
  using assms task_ok_grows[OF _ assms(2)] carried_grows[OF _ assms(2)] dealt_with_grows[OF _ assms(2)]
  unfolding broker_inv_def by blast

lemma task_ok_handle:
  assumes "bk_source s seqno = Some m"
  shows "task_ok lib sha own s (seqno, handle lib sha own env (as_delivered (sh_source_stream (dw_shared own)) seqno n m))"
proof -
  let ?m = "\<lambda>n. as_delivered (sh_source_stream (dw_shared own)) seqno n m"
  have "effect_ok lib sha (dw_dlq_stream own) (?m n) = effect_ok lib sha (dw_dlq_stream own) (?m 0)"
    by (rule ext) (simp add: effect_ok_def copy_of_delivered split: effect.splits)
  with handle_effects[where lib = lib and sha = sha and own = own and env = env and m = "?m n"] assms show ?thesis
    by (auto simp: task_ok_def intro: acks_justified_mono)
qed

lemma carry_out_grows:
  assumes "carry_out k e s = Some s'"
  shows "grows s s'" "bk_source s' = bk_source s" "bk_dead s' = bk_dead s" "bk_tasks s' = bk_tasks s" "bk_settled s' = bk_settled s"
  using assms by (cases e; auto simp: grows_def dead_ids_def split: if_splits)+

lemma carry_out_task:
  assumes task: "task_ok lib sha own s (k, e # es)" and step: "carry_out k e s = Some s'"
  shows "task_ok lib sha own s' (k, es)"
proof -
  let ?ok = "effect_ok lib sha (dw_dlq_stream own)"
  from task obtain m where m: "bk_source s k = Some m" "list_all (?ok (as_delivered (sh_source_stream (dw_shared own)) k 0 m)) (e # es)"
    "acks_justified (dealt_with lib sha own s k) (e # es)" by (auto simp: task_ok_def)
  note grow = carry_out_grows[OF step]
  have "acks_justified (dealt_with lib sha own s' k) es"
  proof (cases e)
    case (HandlerEnded out)
    then have "out = OutSuccess \<longrightarrow> dealt_with lib sha own s' k" using step by (auto simp: dealt_with_def)
    then show ?thesis using m(3) HandlerEnded dealt_with_grows[OF _ grow(1)] by (auto elim!: acks_justified_mono)
  next
    case (TransferEnded hs r)
    have "source_copy lib sha own k m hs" using m(2) TransferEnded by (simp add: effect_ok_def copy_of_delivered)
    note tid = source_copy_id[OF this]
    have "is_ok r \<longrightarrow> dealt_with lib sha own s' k" using step TransferEnded m(1) tid by (auto simp: dealt_with_def split: if_splits)
    then show ?thesis using m(3) TransferEnded dealt_with_grows[OF _ grow(1)] by (auto elim!: acks_justified_mono)
  qed (use m(3) dealt_with_grows[OF _ grow(1)] in \<open>auto elim!: acks_justified_mono\<close>)
  with m grow(2) show ?thesis by (simp add: task_ok_def)
qed

lemma carry_out_sent:
  assumes task: "task_ok lib sha own s (k, e # es)" and step: "carry_out k e s = Some s'"
  shows "w \<in> set (bk_wire s') \<Longrightarrow> w \<in> set (bk_wire s) \<or> carried lib sha own s' w"
    "j \<in> set (bk_acks s') \<Longrightarrow> j \<in> set (bk_acks s) \<or> dealt_with lib sha own s' j"
proof -
  note grow = carry_out_grows[OF step]
  from task obtain m where m: "bk_source s k = Some m"
    "effect_ok lib sha (dw_dlq_stream own) (as_delivered (sh_source_stream (dw_shared own)) k 0 m) e"
    "acks_justified (dealt_with lib sha own s k) (e # es)" by (auto simp: task_ok_def)
  show "w \<in> set (bk_wire s) \<or> carried lib sha own s' w" if w: "w \<in> set (bk_wire s')"
  proof (cases e)
    case (TransferSent hs payload)
    have "carried lib sha own s' (hs, payload)"
      using m(1,2) TransferSent grow(2) by (auto simp: effect_ok_def copy_of_delivered carried_def)
    with w step TransferSent show ?thesis by auto
  qed (use w step in \<open>auto split: if_splits\<close>)
  show "j \<in> set (bk_acks s) \<or> dealt_with lib sha own s' j" if j: "j \<in> set (bk_acks s')"
  proof (cases e)
    case AckRequested
    have "dealt_with lib sha own s' k" using m(3) AckRequested dealt_with_grows[OF _ grow(1)] by auto
    with j step AckRequested show ?thesis by auto
  qed (use j step in \<open>auto split: if_splits\<close>)
qed

lemma broker_inv_acts:
  assumes inv: "broker_inv lib sha own s"
    and step: "i < length (bk_tasks s)" "bk_tasks s ! i = (k, e # es)" "carry_out k e s = Some s'"
  shows "broker_inv lib sha own (s'\<lparr>bk_tasks := (bk_tasks s)[i := (k, es)]\<rparr>)"
proof -
  have task: "task_ok lib sha own s (k, e # es)" using inv step(1,2) by (metis broker_inv_def nth_mem)
  let ?new = "s'\<lparr>bk_tasks := (bk_tasks s)[i := (k, es)]\<rparr>"
  note grow = carry_out_grows[OF step(3)] and sent = carry_out_sent[OF task step(3)]
  have same: "task_ok lib sha own ?new = task_ok lib sha own s'" "carried lib sha own ?new = carried lib sha own s'"
    "dealt_with lib sha own ?new = dealt_with lib sha own s'" "grows s ?new = grows s s'"
    by (auto simp: fun_eq_iff task_ok_def carried_def dealt_with_def dead_ids_def grows_def)
  show ?thesis
  proof (rule broker_inv_grows[OF inv])
    show "\<forall>t \<in> set (bk_tasks ?new). t \<in> set (bk_tasks s) \<or> task_ok lib sha own ?new t"
      unfolding same using carry_out_task[OF task step(3)] set_update_subset_insert[of "bk_tasks s" i] by auto
    show "\<forall>w \<in> set (bk_wire ?new) \<union> set (bk_dead ?new). w \<in> set (bk_wire s) \<union> set (bk_dead s) \<or> carried lib sha own ?new w"
      unfolding same using sent(1) grow(3) by auto
    show "\<forall>j \<in> set (bk_acks ?new) \<union> set (bk_settled ?new). j \<in> set (bk_acks s) \<union> set (bk_settled s) \<or> dealt_with lib sha own ?new j"
      unfolding same using sent(2) grow(5) by auto
  qed (use same(4) grow(1) in simp)
qed

lemma broker_inv_step:
  assumes inv: "broker_inv lib sha own s" and step: "broker_step lib sha own s s'"
  shows "broker_inv lib sha own s'"
proof -
  have wire: "\<And>w. w \<in> set (bk_wire s) \<Longrightarrow> carried lib sha own s w"
    and acks: "\<And>k. k \<in> set (bk_acks s) \<Longrightarrow> dealt_with lib sha own s k"
    using inv by (auto simp: broker_inv_def)
  from step show ?thesis
  proof (cases rule: broker_step.cases)
    case (publishes k m)
    then have "grows s s'" by (auto simp: grows_def map_le_def dead_ids_def)
    then show ?thesis by (rule broker_inv_grows[OF inv]) (use publishes in auto)
  next
    case (delivers k m env n)
    then have "grows s s'" by (simp add: grows_def dead_ids_def)
    moreover have "task_ok lib sha own s' (k, handle lib sha own env (as_delivered (sh_source_stream (dw_shared own)) k n m))"
      using delivers by (intro task_ok_handle) simp
    ultimately show ?thesis by (intro broker_inv_grows[OF inv]) (use delivers in auto)
  next
    case (acts i k e es t)
    then show ?thesis using broker_inv_acts[OF inv] by blast
  next
    case (aborts i)
    then have "grows s s'" by (simp add: grows_def dead_ids_def)
    then show ?thesis by (rule broker_inv_grows[OF inv]) (use aborts in \<open>auto dest: in_set_takeD in_set_dropD\<close>)
  next
    case (stores w)
    then have grow: "grows s s'" by (auto simp: grows_def store_dead_def dead_ids_def)
    show ?thesis
      by (rule broker_inv_grows[OF inv grow]) (use stores wire carried_grows[OF _ grow] in \<open>auto simp: store_dead_def split: if_splits\<close>)
  next
    case (forgets tid)
    then have "grows s s'" by (simp add: grows_def dead_ids_def)
    then show ?thesis by (rule broker_inv_grows[OF inv]) (use forgets in auto)
  next
    case (settles k)
    then have grow: "grows s s'" by (simp add: grows_def dead_ids_def)
    show ?thesis by (rule broker_inv_grows[OF inv grow]) (use settles acks in auto)
  qed
qed

interpretation br: step_invariant "broker_step lib sha own" "broker_inv lib sha own"
  by unfold_locales (rule broker_inv_step)

lemma broker_inv_init: "broker_inv lib sha own broker_init"
  by (simp add: broker_inv_def broker_init_def)

lemmas broker_reachable = br.inv_run[OF _ broker_inv_init]

lemma settled_dealt_with:
  assumes inv: "broker_inv lib sha own s" and k: "k \<in> set (bk_settled s)" "bk_source s k = Some m"
    and apart: "\<forall>j n. bk_source s j = Some n \<longrightarrow>
      source_id lib sha (sh_source_stream (dw_shared own)) j n = source_id lib sha (sh_source_stream (dw_shared own)) k m \<longrightarrow> j = k"
  shows "k \<in> set (bk_handled s) \<or> (\<exists>r \<in> set (bk_dead s). source_copy lib sha own k m (fst r) \<and> snd r = sm_payload m)"
proof -
  have "dealt_with lib sha own s k" using inv k(1) by (simp add: broker_inv_def)
  then consider "k \<in> set (bk_handled s)" | r where "r \<in> set (bk_dead s)"
    "source_id lib sha (sh_source_stream (dw_shared own)) k m = Some (dead_id r)"
    using k(2) by (auto simp: dealt_with_def dead_ids_def)
  then show ?thesis
  proof cases
    case 2
    with inv obtain j n where j: "bk_source s j = Some n" "source_copy lib sha own j n (fst r)" "snd r = sm_payload n"
      unfolding broker_inv_def carried_def by blast
    then have "j = k" using apart source_copy_id[OF j(2)] 2(2) by (simp add: dead_id_def)
    then show ?thesis using j k(2) 2(1) by auto
  qed simp
qed

text \<open>
  C5. No event is lost, whatever the handlers, the processes and the network do. A source message that
  the broker has settled was handled with success, or the dead-letter stream holds a record from which a
  redrive restores the event: its subject, identity, type, version, time and payload. Every record of the
  dead-letter stream is the copy of a source message, and it may be stored more than once, since the broker
  forgets identities. The transfer identities of the stored messages are assumed to differ.
\<close>

theorem no_event_lost:
  assumes lib: "time_lib_ok lib" and run: "(broker_step lib sha own)\<^sup>*\<^sup>* broker_init s"
    and k: "k \<in> set (bk_settled s)" "bk_source s k = Some m"
    and apart: "\<forall>j n. bk_source s j = Some n \<longrightarrow>
      source_id lib sha (sh_source_stream (dw_shared own)) j n = source_id lib sha (sh_source_stream (dw_shared own)) k m \<longrightarrow> j = k"
    and ev: "event_ok lib e" "encode_prepared e = Inr hs" "extends_headers hs hs'"
      "m = \<lparr>sm_subject = ev_subject e, sm_headers = Some hs', sm_payload = ev_payload e, sm_published = published\<rparr>"
  shows "(\<forall>r \<in> set (bk_dead s). \<exists>j n. bk_source s j = Some n \<and> snd r = sm_payload n \<and>
      source_id lib sha (sh_source_stream (dw_shared own)) j n = Some (dead_id r)) \<and>
    (k \<in> set (bk_handled s) \<or>
     (\<exists>r \<in> set (bk_dead s). \<forall>stream n stored pub.
        record_id lib sha ''redrive-'' stream n stored (dead_id r) = Inr pub \<longrightarrow>
        restore_dead_letter lib sha
          \<lparr>dr_headers = fst r, dr_payload = snd r, dr_stream = stream, dr_sequence = n, dr_stored_at = stored\<rparr>
        = Inr (e\<lparr>ev_publication_id := pub\<rparr>)))"
proof -
  note inv = broker_reachable[OF run]
  have copies: "\<forall>r \<in> set (bk_dead s). \<exists>j n. bk_source s j = Some n \<and> snd r = sm_payload n \<and>
      source_id lib sha (sh_source_stream (dw_shared own)) j n = Some (dead_id r)"
    using inv source_copy_id[of lib sha own] unfolding broker_inv_def carried_def dead_id_def by blast
  have restores: "restore_dead_letter lib sha
      \<lparr>dr_headers = fst r, dr_payload = snd r, dr_stream = stream, dr_sequence = n, dr_stored_at = stored\<rparr>
      = Inr (e\<lparr>ev_publication_id := pub\<rparr>)"
    if r: "source_copy lib sha own k m (fst r)" "snd r = sm_payload m"
      and pub: "record_id lib sha ''redrive-'' stream n stored (dead_id r) = Inr pub"
    for r stream n stored pub
  proof -
    from r(1) obtain tid reason where
      copy: "fst r = dead_letter_headers hs' (ev_subject e) (dw_dlq_stream own) tid reason"
      by (auto simp: source_copy_def copy_of_def as_delivered_def message_headers_def ev(4))
    have "dead_id r = tid" by (simp add: dead_id_def copy header_value_def dead_letter_transfer_headers)
    with pub r(2) show ?thesis
      by (intro redrive_restored[OF lib ev(1,2,3), where transfer_id = tid]) (simp_all add: copy ev(4))
  qed
  from settled_dealt_with[OF inv k apart] copies restores show ?thesis by blast
qed

definition demo_stored :: "nats_headers \<Rightarrow> nat stored_message" where
  "demo_stored hs = \<lparr>sm_subject = ev_subject demo_prepared_event, sm_headers = Some hs, sm_payload = ev_payload demo_prepared_event,
     sm_published = 9\<rparr>"

lemma demo_handled:
  assumes "encode_prepared demo_prepared_event = Inr hs" "extends_headers hs hs"
  shows "handle demo_time (\<lambda>_. [171]) demo_owner demo_delivery (as_delivered (bytes_of ''S'') 1 1 (demo_stored hs)) =
    [HandlerEnded OutSuccess, AckRequested]"
proof -
  define m where "m = as_delivered (bytes_of ''S'') 1 1 (demo_stored hs)"
  define envelope where "envelope = \<lparr>ie_message_id = bytes_of ''e1'', ie_event_type = bytes_of ''order'', ie_schema_version = 2,
    ie_occurred_at = (7 :: nat), ie_payload = bytes_of ''{}''\<rparr>"
  have decoded: "delivery_envelope demo_time demo_owner m = Inr envelope"
    using envelope_decodes[OF demo_time_ok demo_prepared_ok assms]
    by (simp add: delivery_envelope_def m_def envelope_def as_delivered_def demo_stored_def message_headers_def demo_owner_def demo_shared_def
        demo_prepared_event_def)
  have "run_handler (dw_registry demo_owner) (mg_subject m) envelope 0 (dn_turns demo_delivery) = Some OutSuccess"
    by (simp add: m_def envelope_def run_handler_def registry_dispatch_def demo_owner_def as_delivered_def demo_stored_def demo_prepared_event_def
        erase_def demo_delivery_def wait_stopped_poll_def ready_outcome_def stopped_def handler_context_def context_new_def
        deadline_new_def expired_def remaining_at_def duration_since_def HANDLER_TIMEOUT_def time_units)
  then have run: "run_handler (dw_registry demo_owner) (mg_subject m) envelope (dn_started demo_delivery) (dn_turns demo_delivery) =
      Some OutSuccess" by (simp add: demo_delivery_def)
  have "delivered_times m = Some 1" "mg_reply m" "dn_confirmed demo_delivery" "\<not> 1 > MAX_DELIVERIES"
    by (simp_all add: m_def delivered_times_def as_delivered_def demo_delivery_def MAX_DELIVERIES_def)
  then show ?thesis unfolding handle_def m_def[symmetric]
    by (simp del: One_nat_def add: decoded process_delivery_def run settle_def acknowledge_def)
qed

lemma demo_broker_run:
  assumes "encode_prepared demo_prepared_event = Inr hs" "extends_headers hs hs"
  shows "(broker_step demo_time (\<lambda>_. [171]) demo_owner)\<^sup>*\<^sup>* broker_init
    (broker_init\<lparr>bk_source := [1 \<mapsto> demo_stored hs], bk_tasks := [(1, [])], bk_acks := [1], bk_settled := [1], bk_handled := [1]\<rparr>)"
proof -
  let ?step = "broker_step demo_time (\<lambda>_. [171]) demo_owner" and ?m = "demo_stored hs"
  have stream: "sh_source_stream (dw_shared demo_owner) = bytes_of ''S''" by (simp add: demo_owner_def demo_shared_def)
  let ?s1 = "broker_init\<lparr>bk_source := [1 \<mapsto> ?m]\<rparr>"
  let ?s2 = "?s1\<lparr>bk_tasks := [(1, [HandlerEnded OutSuccess, AckRequested])]\<rparr>"
  let ?s3 = "?s1\<lparr>bk_tasks := [(1, [AckRequested])], bk_handled := [1]\<rparr>"
  let ?s4 = "?s1\<lparr>bk_tasks := [(1, [])], bk_acks := [1], bk_handled := [1]\<rparr>"
  have "?step broker_init ?s1" using broker_step.publishes[of broker_init 1] by (simp add: broker_init_def)
  moreover have "?step ?s1 ?s2"
    using broker_step.delivers[of ?s1 1 ?m demo_time "\<lambda>_. [171]" demo_owner demo_delivery 1] demo_handled[OF assms]
    by (simp add: stream broker_init_def)
  moreover have "?step ?s2 ?s3" using broker_step.acts[of 0 ?s2 1 "HandlerEnded OutSuccess" "[AckRequested]" "?s2\<lparr>bk_handled := [1]\<rparr>"] by (simp add: broker_init_def)
  moreover have "?step ?s3 ?s4" using broker_step.acts[of 0 ?s3 1 AckRequested "[]" "?s3\<lparr>bk_acks := [1]\<rparr>"] by (simp add: broker_init_def)
  moreover have "?step ?s4 (?s4\<lparr>bk_settled := [1]\<rparr>)" using broker_step.settles[of 1 ?s4] by (simp add: broker_init_def)
  ultimately show ?thesis by (auto simp: broker_init_def intro: converse_rtranclp_into_rtranclp)
qed

theorem no_event_lost_witness:
  "\<exists>s. (broker_step demo_time (\<lambda>_. [171]) demo_owner)\<^sup>*\<^sup>* broker_init s \<and> 1 \<in> set (bk_settled s) \<and>
     (1 \<in> set (bk_handled s) \<or> bk_dead s \<noteq> [])"
proof -
  obtain hs where hs: "encode_prepared demo_prepared_event = Inr hs" "extends_headers hs hs" by (rule demo_encode)
  let ?s = "broker_init\<lparr>bk_source := [1 \<mapsto> demo_stored hs], bk_tasks := [(1, [])], bk_acks := [1], bk_settled := [1], bk_handled := [1]\<rparr>"
  have src: "1 \<in> set (bk_settled ?s)" "bk_source ?s 1 = Some (demo_stored hs)" "bk_source ?s j = Some n \<longrightarrow> j = 1" for j n
    by (simp_all add: broker_init_def split: if_splits)
  then have apart: "\<forall>j n. bk_source ?s j = Some n \<longrightarrow>
      source_id demo_time (\<lambda>_. [171]) (sh_source_stream (dw_shared demo_owner)) j n =
      source_id demo_time (\<lambda>_. [171]) (sh_source_stream (dw_shared demo_owner)) 1 (demo_stored hs) \<longrightarrow> j = 1" by blast
  have "1 \<in> set (bk_handled ?s) \<or> bk_dead ?s \<noteq> []"
    using no_event_lost[OF demo_time_ok demo_broker_run[OF hs] src(1,2) apart demo_prepared_ok hs demo_stored_def, THEN conjunct2]
    by (elim disjE bexE) auto
  then show ?thesis using demo_broker_run[OF hs] src(1) by (intro exI[of _ ?s]) simp
qed

end
