(* ===== verification/MessageAdmission.thy ===== *)
theory MessageAdmission
  imports MessageConsumer
begin

text \<open>
  \<open>crates/infra-messaging/src/messaging.rs\<close> and the admission of \<open>consumer.rs\<close>: the bounds a process settles
  before it accepts work (publication permits, the streams it may use, the size of a dead-letter transfer,
  the bytes of one pull), the spread of reconnect attempts, the readiness probe and the closing of the client.

  What the broker answers to a request, the clock and the token are arguments.
\<close>

subsection \<open>Options and refusals\<close>

definition PUBLICATION_WINDOW_BYTES :: nat where "PUBLICATION_WINDOW_BYTES = 64 * 1024 * 1024"

record consumer_options =
  co_durable_name :: bytes
  co_filter_subject :: bytes
  co_dlq_subject :: bytes
  co_concurrency :: nat

record messaging_options =
  mo_source_stream :: bytes
  mo_dlq_stream :: "bytes option"
  mo_max_payload :: nat
  mo_consumer :: "consumer_options option"

datatype refusal_reason =
    ServerVersion | JetStreamDisabled | HeadersUnsupported | ServerMaxPayload | StreamMessageSizeUnset | StreamMessageSize
  | DeadLetterIsSource | StreamMemoryStorage | StreamAsyncPersistence | StreamNoAck | TransferBounds | TransferHeaderSize

definition refusal_failure :: "refusal_reason \<Rightarrow> messaging_error" where
  "refusal_failure r =
     (if r \<in> {ServerMaxPayload, StreamMessageSizeUnset, StreamMessageSize, TransferBounds, TransferHeaderSize} then Bounds
      else Topology)"

definition refusal_error_type :: "refusal_reason \<Rightarrow> string" where
  "refusal_error_type r =
     (case r of
        ServerVersion \<Rightarrow> ''server_version''
      | JetStreamDisabled \<Rightarrow> ''jetstream_disabled''
      | HeadersUnsupported \<Rightarrow> ''headers_unsupported''
      | ServerMaxPayload \<Rightarrow> ''server_max_payload''
      | StreamMessageSizeUnset \<Rightarrow> ''stream_max_message_size_unset''
      | StreamMessageSize \<Rightarrow> ''stream_max_message_size''
      | DeadLetterIsSource \<Rightarrow> ''dead_letter_stream_is_source''
      | StreamMemoryStorage \<Rightarrow> ''stream_memory_storage''
      | StreamAsyncPersistence \<Rightarrow> ''stream_async_persistence''
      | StreamNoAck \<Rightarrow> ''stream_no_ack''
      | TransferBounds \<Rightarrow> ''dead_letter_bounds_unavailable''
      | TransferHeaderSize \<Rightarrow> ''dead_letter_header_bytes'')"

text \<open>\<open>Messaging::prepare\<close> up to the permits of publication.\<close>

definition prepare_messaging :: "messaging_options \<Rightarrow> messaging_error + nat" where
  "prepare_messaging opts =
     (if (case mo_consumer opts of None \<Rightarrow> False | Some c \<Rightarrow> co_concurrency c = 0) then Inl Bounds
      else if mo_max_payload opts + HEADER_LIMIT_BYTES > u64_max \<or> mo_max_payload opts = 0 then Inl Bounds
      else let limit = PUBLICATION_WINDOW_BYTES div (mo_max_payload opts + HEADER_LIMIT_BYTES)
           in if limit = 0 then Inl Bounds else Inr limit)"

subsection \<open>Servers and streams\<close>

record server_info =
  si_compatible :: bool
  si_jetstream :: bool
  si_headers :: bool
  si_max_payload :: nat
  si_domain :: "bytes option"

definition validate_server :: "server_info \<Rightarrow> nat \<Rightarrow> refusal_reason + unit" where
  "validate_server info envelope_limit =
     (if \<not> si_compatible info then Inl ServerVersion
      else if \<not> si_jetstream info then Inl JetStreamDisabled
      else if \<not> si_headers info then Inl HeadersUnsupported
      else if si_max_payload info < envelope_limit then Inl ServerMaxPayload
      else Inr ())"

datatype storage_type = FileStorage | MemoryStorage

datatype persistence_mode = DefaultPersistence | AsyncPersistence

record stream_config =
  sc_no_ack :: bool
  sc_storage :: storage_type
  sc_persist_mode :: "persistence_mode option"
  sc_max_message_size :: int

definition validate_stream_publication :: "stream_config \<Rightarrow> refusal_reason + unit" where
  "validate_stream_publication c =
     (if sc_no_ack c then Inl StreamNoAck
      else if sc_storage c \<noteq> FileStorage then Inl StreamMemoryStorage
      else if sc_persist_mode c = Some AsyncPersistence then Inl StreamAsyncPersistence
      else Inr ())"

definition limit_failure :: "refusal_reason + 'a \<Rightarrow> messaging_error + 'a" where
  "limit_failure r = (case r of Inl refused \<Rightarrow> Inl (refusal_failure refused) | Inr x \<Rightarrow> Inr x)"

record dead_letter_topology =
  dt_stream :: bytes
  dt_source_limit :: nat
  dt_message_limit :: int

definition source_size_refusal :: "int \<Rightarrow> nat \<Rightarrow> refusal_reason option" where
  "source_size_refusal source_limit envelope_limit =
     (if source_limit < 1 then Some StreamMessageSizeUnset
      else if nat source_limit > envelope_limit then Some StreamMessageSize
      else None)"

text \<open>What the broker answers: the source stream, the name of the dead-letter stream, that stream.\<close>

record topology_answers =
  ta_server :: server_info
  ta_source :: "messaging_error + stream_config"
  ta_dlq_name :: "messaging_error + bytes"
  ta_dlq :: "bytes \<Rightarrow> messaging_error + stream_config"

definition admit_topology :: "messaging_options \<Rightarrow> topology_answers \<Rightarrow> messaging_error + dead_letter_topology option" where
  "admit_topology opts ta =
     (let envelope_limit = mo_max_payload opts + HEADER_LIMIT_BYTES
      in bind_result (limit_failure (validate_server (ta_server ta) envelope_limit)) (\<lambda>_.
         bind_result (ta_source ta) (\<lambda>source.
         bind_result (limit_failure (validate_stream_publication source)) (\<lambda>_.
           case mo_consumer opts of
             None \<Rightarrow> Inr None
           | Some _ \<Rightarrow>
               (case source_size_refusal (sc_max_message_size source) envelope_limit of
                  Some refused \<Rightarrow> Inl (refusal_failure refused)
                | None \<Rightarrow>
                    bind_result (case mo_dlq_stream opts of Some n \<Rightarrow> Inr n | None \<Rightarrow> ta_dlq_name ta) (\<lambda>dlq_name.
                      if dlq_name = mo_source_stream opts then Inl (refusal_failure DeadLetterIsSource)
                      else bind_result (ta_dlq ta dlq_name) (\<lambda>dlq.
                           bind_result (limit_failure (validate_stream_publication dlq)) (\<lambda>_.
                             Inr (Some \<lparr>dt_stream = dlq_name, dt_source_limit = nat (sc_max_message_size source),
                                        dt_message_limit = sc_max_message_size dlq\<rparr>))))))))) "

subsection \<open>Admission of a consumer\<close>

text \<open>
  The routes of the registry as a list, in any order; the longest matching subject bounds the transfer.
\<close>

definition topology_admit :: "dead_letter_topology \<Rightarrow> bytes list \<Rightarrow> bytes \<Rightarrow> nat \<Rightarrow> messaging_error + nat" where
  "topology_admit topo subjects flt server_limit =
     (case map length (filter (subject_matches flt) subjects) of
        [] \<Rightarrow> Inl (refusal_failure TransferBounds)
      | n # ns \<Rightarrow>
          (let subject_bytes = fold max ns n
           in case dead_letter_bounds (dt_source_limit topo) subject_bytes (length (dt_stream topo)) of
                None \<Rightarrow> Inl (refusal_failure TransferBounds)
              | Some b \<Rightarrow>
                  if dlb_headers b > NATIVE_HEADER_LIMIT_BYTES then Inl (refusal_failure TransferHeaderSize)
                  else if dlb_total b > server_limit then Inl (refusal_failure ServerMaxPayload)
                  else if dt_message_limit topo > 0 \<and> nat (dt_message_limit topo) < dlb_total b
                  then Inl (refusal_failure StreamMessageSize)
                  else Inr subject_bytes))"

text \<open>\<open>Consumer::admit\<close> before its requests to the broker: the bytes reserved for one delivery of a pull.\<close>

definition consumer_admit ::
  "dead_letter_topology option \<Rightarrow> bytes \<Rightarrow> nat \<Rightarrow> server_info \<Rightarrow> consumer_options \<Rightarrow> bytes list \<Rightarrow> bytes list \<Rightarrow> messaging_error + nat" where
  "consumer_admit topo source_stream max_payload server opts handled_subjects routed_subjects =
     (if list_ex (\<lambda>s. \<not> subject_matches (co_filter_subject opts) s) handled_subjects
      then Inl (Configuration ''handled subject is outside the consumer filter'')
      else case topo of
             None \<Rightarrow> Inl Topology
           | Some t \<Rightarrow>
               bind_result (topology_admit t routed_subjects (co_filter_subject opts) (si_max_payload server)) (\<lambda>subject_bytes.
                 case pull_delivery_bytes max_payload subject_bytes (length source_stream) (length (co_durable_name opts))
                        (case si_domain server of None \<Rightarrow> 0 | Some d \<Rightarrow> length d) of
                   None \<Rightarrow> Inl Bounds
                 | Some b \<Rightarrow> if b * co_concurrency opts > i64_max then Inl Bounds else Inr b))"

subsection \<open>Reconnect delays\<close>

definition spread_reconnect_delay :: "nat \<Rightarrow> nat option \<Rightarrow> duration" where
  "spread_reconnect_delay base_millis sample =
     (let base_nanos = base_millis * 1000000;
          spread = (base_nanos div 10) * (case sample of None \<Rightarrow> 0 | Some x \<Rightarrow> x) div u16_max
      in base_nanos - spread)"

definition reconnect_delay :: "nat \<Rightarrow> nat option \<Rightarrow> duration" where
  "reconnect_delay attempts sample =
     (if attempts \<le> 1 then 0
      else spread_reconnect_delay (if attempts \<ge> 13 then 4000 else 2 ^ (attempts - 1)) sample)"

subsection \<open>Readiness and closing\<close>

record probe_state =
  ps_draining :: bool
  ps_failed :: bool
  ps_closed :: bool
  ps_connected :: bool
  ps_server :: server_info

definition check_local_state :: "nat \<Rightarrow> probe_state \<Rightarrow> string + unit" where
  "check_local_state max_payload st =
     (if ps_draining st then Inl ''messaging is draining''
      else if ps_failed st then Inl ''messaging consumer failed''
      else if ps_closed st \<or> \<not> ps_connected st then Inl ''messaging connection is unavailable''
      else if is_ok (validate_server (ps_server st) (max_payload + HEADER_LIMIT_BYTES)) then Inr ()
      else Inl ''messaging server admission is unavailable'')"

text \<open>The state is read before and after the request for the source stream.\<close>

definition probe_check :: "nat \<Rightarrow> probe_state \<Rightarrow> bool \<Rightarrow> probe_state \<Rightarrow> string + unit" where
  "probe_check max_payload before stream_found after =
     bind_result (check_local_state max_payload before) (\<lambda>_.
       if stream_found then check_local_state max_payload after
       else Inl ''messaging source stream is unavailable'')"

datatype close_outcome = CloseComplete | CloseTimedOut | UnobservedClose

record close_env =
  ce_closed_now :: bool
  ce_event_now :: bool
  ce_stopped :: bool
  ce_stopped_while :: bool
  ce_closed_before_drain :: bool
  ce_drain_ok :: bool
  ce_closed_after_drain :: bool
  ce_closed :: bool
  ce_event :: bool

definition drain_client :: "close_env \<Rightarrow> close_outcome" where
  "drain_client env =
     (if \<not> ce_closed_before_drain env \<and> \<not> ce_drain_ok env \<and> \<not> ce_closed_after_drain env then UnobservedClose
      else if \<not> ce_closed env then UnobservedClose
      else if ce_event env then CloseComplete else UnobservedClose)"

text \<open>The outcome, and whether the client was closed by force.\<close>

definition close_client :: "close_env \<Rightarrow> close_outcome \<times> bool" where
  "close_client env =
     (if ce_closed_now env \<and> ce_event_now env then (CloseComplete, False)
      else let out = (if ce_stopped env then CloseTimedOut
                      else if ce_stopped_while env then CloseTimedOut else drain_client env)
           in (out, out \<noteq> CloseComplete))"

subsection \<open>The size of a dead letter\<close>

definition headers_sum :: "nats_headers \<Rightarrow> nat" where
  "headers_sum hs = sum_list (map (\<lambda>(n, vs). values_bytes n vs) hs)"

lemma encoded_header_bytes_sum: "hs \<noteq> [] \<Longrightarrow> encoded_header_bytes hs = headers_sum hs + NATS_PREAMBLE"
  by (simp add: encoded_header_bytes_def headers_sum_def)

lemma headers_sum_insert: "headers_sum (nats_insert n v hs) \<le> headers_sum hs + (length n + 4 + length v)"
proof -
  have "headers_sum (filter (\<lambda>h. fst h \<noteq> n) hs) \<le> headers_sum hs"
    by (induction hs) (auto simp: headers_sum_def)
  then show ?thesis by (simp add: nats_insert_def headers_sum_def values_bytes_def)
qed

definition first_cost :: "nats_headers \<Rightarrow> string \<Rightarrow> nat" where
  "first_cost hs n = (case map_of hs n of None \<Rightarrow> 0 | Some vs \<Rightarrow> values_bytes n vs)"

lemma header_value_cost: "header_value hs n \<noteq> [] \<Longrightarrow> length n + 4 + length (header_value hs n) \<le> first_cost hs n"
  by (auto simp: header_value_def nats_get_def first_cost_def values_bytes_def split: option.splits list.splits)

lemma headers_sum_copied: "headers_sum (copy_headers original ns hs) \<le> headers_sum hs + sum_list (map (first_cost original) ns)"
proof (induction ns arbitrary: hs)
  case (Cons n ns)
  show ?case
  proof (cases "header_value original n = []")
    case False
    let ?hs = "nats_insert n (header_value original n) hs"
    have "headers_sum (copy_headers original ns ?hs) \<le> headers_sum ?hs + sum_list (map (first_cost original) ns)" by (rule Cons.IH)
    moreover have "headers_sum ?hs \<le> headers_sum hs + first_cost original n"
      using headers_sum_insert[of n "header_value original n" hs] header_value_cost[OF False] by simp
    ultimately show ?thesis using False by (simp add: copy_headers.simps)
  qed (use Cons.IH[of hs] in \<open>simp add: copy_headers.simps\<close>)
qed (simp add: copy_headers.simps)

lemma first_cost_sum:
  assumes "distinct (map fst hs)" "distinct ns"
  shows "sum_list (map (first_cost hs) ns) \<le> headers_sum hs"
proof -
  have "headers_sum hs = sum_list (map (first_cost hs) (map fst hs))"
    using assms(1) by (auto simp: headers_sum_def first_cost_def intro!: arg_cong[where f = sum_list])
  also have "\<dots> = sum (first_cost hs) (fst ` set hs)"
    using assms(1) by (simp add: sum_list_distinct_conv_sum_set del: map_map)
  finally have all: "headers_sum hs = sum (first_cost hs) (fst ` set hs)" .
  have "sum_list (map (first_cost hs) ns) = sum (first_cost hs) (set ns)"
    using assms(2) by (rule sum_list_distinct_conv_sum_set)
  also have "\<dots> = sum (first_cost hs) (set ns \<inter> fst ` set hs)"
    by (rule sum.mono_neutral_right) (auto simp: first_cost_def split: option.splits dest!: map_of_SomeD intro: rev_image_eqI)
  also have "\<dots> \<le> sum (first_cost hs) (fst ` set hs)" by (rule sum_mono2) auto
  finally show ?thesis using all by simp
qed

lemma checked_sum_Some: "checked_sum start ns = Some t \<Longrightarrow> t = start + sum_list ns"
proof -
  have none: "fold (\<lambda>n acc. Option.bind acc (\<lambda>a. if a + n \<le> u64_max then Some (a + n) else None)) ns None = None" for ns
    by (induction ns) auto
  show "checked_sum start ns = Some t \<Longrightarrow> t = start + sum_list ns"
    unfolding checked_sum_def by (induction ns arbitrary: start) (fastforce simp: none split: if_splits)+
qed

definition transfer_additions :: "nat \<Rightarrow> nat \<Rightarrow> nat" where
  "transfer_additions subject_bytes stream_bytes =
     (length NATS_MSG_ID + 4 + 68) + (length ORIGINAL_SUBJECT + 4 + subject_bytes) + (length DEAD_LETTER_REASON + 4 + 9) +
     (length ''Nats-Expected-Stream'' + 4 + stream_bytes)"

lemma dead_letter_bounds_Some:
  assumes "dead_letter_bounds source_bytes subject_bytes stream_bytes = Some b"
  shows "dlb_total b = source_bytes + transfer_additions subject_bytes stream_bytes"
    "dlb_headers b = min source_bytes HEADER_LIMIT_BYTES + transfer_additions subject_bytes stream_bytes"
proof -
  have "Max {length (dead_letter_reason_text Malformed), length (dead_letter_reason_text PermanentReason),
      length (dead_letter_reason_text ExhaustedReason)} = 9"
    by (simp add: dead_letter_reason_text_def)
  then show "dlb_total b = source_bytes + transfer_additions subject_bytes stream_bytes"
    "dlb_headers b = min source_bytes HEADER_LIMIT_BYTES + transfer_additions subject_bytes stream_bytes"
    using assms
    by (auto simp: dead_letter_bounds_def transfer_additions_def DEAD_LETTER_ID_PREFIX_def bind_eq_Some_conv
        dest!: checked_sum_Some)
qed

lemma dead_letter_headers_sum:
  assumes "distinct (map fst hs)" "header_value hs MESSAGE_ID \<noteq> []" "length tid = 68" "length subject \<le> subject_bytes"
  shows "headers_sum (dead_letter_headers hs subject stream tid reason) \<le>
    headers_sum hs + transfer_additions subject_bytes (length stream)"
proof -
  let ?names = "[MESSAGE_ID, EVENT_TYPE, EVENT_SCHEMA, CREATED_AT, ''traceparent'', ''tracestate'']"
  let ?copy = "copy_headers hs ?names []"
  have "header_value ?copy MESSAGE_ID \<noteq> []"
    using assms(2) by (simp add: header_value_def[of ?copy] nats_get_copied)
  then have dl: "dead_letter_headers hs subject stream tid reason = nats_insert ''Nats-Expected-Stream'' stream
      (nats_insert DEAD_LETTER_REASON (bytes_of (dead_letter_reason_text reason))
      (nats_insert ORIGINAL_SUBJECT subject (nats_insert NATS_MSG_ID tid ?copy)))"
    by (simp add: dead_letter_headers_def Let_def)
  have "distinct ?names" by (simp add: header_names)
  from headers_sum_copied[of hs ?names "[]"] first_cost_sum[OF assms(1) this]
  have copy: "headers_sum ?copy \<le> headers_sum hs" by (simp add: headers_sum_def)
  have reason: "length (dead_letter_reason_text reason) \<le> 9" by (cases reason) (simp_all add: dead_letter_reason_text_def)
  let ?h1 = "nats_insert NATS_MSG_ID tid ?copy"
  let ?h2 = "nats_insert ORIGINAL_SUBJECT subject ?h1"
  let ?h3 = "nats_insert DEAD_LETTER_REASON (bytes_of (dead_letter_reason_text reason)) ?h2"
  show ?thesis unfolding dl transfer_additions_def
    using headers_sum_insert[of NATS_MSG_ID tid ?copy] headers_sum_insert[of ORIGINAL_SUBJECT subject ?h1]
      headers_sum_insert[of DEAD_LETTER_REASON "bytes_of (dead_letter_reason_text reason)" ?h2]
      headers_sum_insert[of "''Nats-Expected-Stream''" stream ?h3] copy reason assms(3,4) by simp
qed

lemma fold_max_ge: "n \<le> fold max ns (n :: nat)" "x \<in> set ns \<Longrightarrow> x \<le> fold max ns n"
  by (induction ns arbitrary: n) (auto intro: order_trans[OF max.cobounded1] order_trans[OF max.cobounded2])

lemma topology_admit_Inr:
  assumes "topology_admit topo subjects flt server_limit = Inr subject_bytes"
  obtains b where "dead_letter_bounds (dt_source_limit topo) subject_bytes (length (dt_stream topo)) = Some b"
    "dlb_headers b \<le> NATIVE_HEADER_LIMIT_BYTES" "dlb_total b \<le> server_limit"
    "0 < dt_message_limit topo \<longrightarrow> dlb_total b \<le> nat (dt_message_limit topo)"
    "\<And>s. s \<in> set subjects \<Longrightarrow> subject_matches flt s \<Longrightarrow> length s \<le> subject_bytes"
proof -
  from assms obtain n ns where lens: "map length (filter (subject_matches flt) subjects) = n # ns" "subject_bytes = fold max ns n"
    by (auto simp: topology_admit_def Let_def split: list.splits option.splits if_splits)
  have "length s \<le> subject_bytes" if "s \<in> set subjects" "subject_matches flt s" for s
  proof -
    have "length s \<in> set (n # ns)" using that unfolding lens(1)[symmetric] by simp
    then show ?thesis using fold_max_ge[where n = n and ns = ns] lens(2) by auto
  qed
  with assms lens that show thesis
    by (fastforce simp: topology_admit_def Let_def split: option.splits if_splits)
qed

text \<open>
  An admitted consumer can always move a delivery to the dead-letter stream. When the topology is
  admitted for the routes of the registry, the copy of every source message on a route, with its message
  identity and within the source stream's message size, fits the server's payload limit and the dead-letter
  stream's message size, and its headers fit the native limit when the original's fit the adapter's.
\<close>

lemma dead_letter_fits:
  assumes admitted: "topology_admit topo subjects flt server_limit = Inr subject_bytes"
    and route: "subject \<in> set subjects" "subject_matches flt subject"
    and source: "distinct (map fst hs)" "header_value hs MESSAGE_ID \<noteq> []"
      "encoded_header_bytes hs + length payload \<le> dt_source_limit topo"
    and tid: "dead_letter_id lib sha stream seqno published pub = Inr tid" "\<forall>x. length (sha x) = 32"
  shows "encoded_header_bytes (dead_letter_headers hs subject (dt_stream topo) tid reason) + length payload \<le> server_limit \<and>
    (0 < dt_message_limit topo \<longrightarrow>
       int (encoded_header_bytes (dead_letter_headers hs subject (dt_stream topo) tid reason) + length payload) \<le> dt_message_limit topo) \<and>
    (encoded_header_bytes hs \<le> HEADER_LIMIT_BYTES \<longrightarrow>
       encoded_header_bytes (dead_letter_headers hs subject (dt_stream topo) tid reason) \<le> NATIVE_HEADER_LIMIT_BYTES)"
proof -
  obtain b where b: "dead_letter_bounds (dt_source_limit topo) subject_bytes (length (dt_stream topo)) = Some b"
    "dlb_headers b \<le> NATIVE_HEADER_LIMIT_BYTES" "dlb_total b \<le> server_limit"
    "0 < dt_message_limit topo \<longrightarrow> dlb_total b \<le> nat (dt_message_limit topo)" "length subject \<le> subject_bytes"
    using topology_admit_Inr[OF admitted] route by metis
  have "length (concat (map (\<lambda>b. [hex_digit (f b), hex_digit (g b)]) xs)) = 2 * length xs" for f g and xs :: bytes
    by (induction xs) auto
  then have len: "length tid = 68"
    using tid by (auto simp: dead_letter_id_def record_id_def bind_result_Inr prefixed_digest_hex_def DEAD_LETTER_ID_PREFIX_def)
  let ?dl = "dead_letter_headers hs subject (dt_stream topo) tid reason"
  have ne: "hs \<noteq> []" "?dl \<noteq> []"
    using source(2) by (auto simp: header_value_def dead_letter_headers_def Let_def nats_insert_def)
  have size: "encoded_header_bytes ?dl \<le> encoded_header_bytes hs + transfer_additions subject_bytes (length (dt_stream topo))"
    using dead_letter_headers_sum[OF source(1,2) len b(5)] ne by (simp add: encoded_header_bytes_sum)
  note bounds = dead_letter_bounds_Some[OF b(1)]
  have tot: "encoded_header_bytes ?dl + length payload \<le> dlb_total b" using size source(3) bounds(1) by simp
  have "encoded_header_bytes ?dl \<le> dlb_headers b" if "encoded_header_bytes hs \<le> HEADER_LIMIT_BYTES"
    using size that source(3) bounds(2) by simp
  with tot b(2,3,4) show ?thesis by auto
qed

definition demo_topology :: dead_letter_topology where
  "demo_topology = \<lparr>dt_stream = bytes_of ''DLQ'', dt_source_limit = 200, dt_message_limit = 600\<rparr>"

lemma demo_topology_admitted: "topology_admit demo_topology [bytes_of ''a.b''] (bytes_of ''a.*'') 1000 = Inr 3"
  by (simp add: topology_admit_def demo_topology_def subject_matches_def valid_subject_def bytes_of_def dead_letter_bounds_def
      checked_sum_def header_names DEAD_LETTER_ID_PREFIX_def dead_letter_reason_text_def u64_max_def HEADER_LIMIT_BYTES_def
      NATIVE_HEADER_LIMIT_BYTES_def)

theorem dead_letter_fits_witness:
  "\<exists>tid. dead_letter_id demo_time (\<lambda>_. replicate 32 0) (bytes_of ''S'') 4 9 [] = Inr tid \<and>
     encoded_header_bytes (dead_letter_headers [(MESSAGE_ID, [bytes_of ''e1''])] (bytes_of ''a.b'') (bytes_of ''DLQ'') tid Malformed) + 150
       \<le> 1000"
proof -
  obtain tid where tid: "dead_letter_id demo_time (\<lambda>_. replicate 32 0) (bytes_of ''S'') 4 9 [] = Inr tid"
    by (simp add: dead_letter_id_def record_id_def format_timestamp_def demo_time_def)
  have "subject_matches (bytes_of ''a.*'') (bytes_of ''a.b'')"
    by (simp add: subject_matches_def valid_subject_def bytes_of_def)
  from dead_letter_fits[OF demo_topology_admitted _ this _ _ _ tid, of "[(MESSAGE_ID, [bytes_of ''e1''])]" "replicate 150 0" Malformed]
  show ?thesis using tid
    by (simp add: header_value_def nats_get_def encoded_header_bytes_def values_bytes_def NATS_PREAMBLE_def header_names
        demo_topology_def)
qed

text \<open>
  The budget does not count a substitute message identity: the copy of a message that fits the source
  stream but has no headers can exceed the admitted bound.
\<close>

lemma headerless_exceeds_bound:
  "\<exists>b. dead_letter_bounds 200 3 3 = Some b \<and>
     dlb_total b < encoded_header_bytes (dead_letter_headers [] (bytes_of ''a.b'') (bytes_of ''DLQ'') (replicate 68 0) Malformed) + 200"
  by (simp add: dead_letter_bounds_def checked_sum_def header_names DEAD_LETTER_ID_PREFIX_def dead_letter_reason_text_def
      u64_max_def HEADER_LIMIT_BYTES_def dead_letter_headers_def copy_headers.simps header_value_def nats_insert_def
      encoded_header_bytes_def values_bytes_def NATS_PREAMBLE_def)

subsection \<open>Memory, reconnects and readiness\<close>

lemma permits_within_window:
  assumes "prepare_messaging opts = Inr limit"
  shows "0 < limit \<and> limit * (mo_max_payload opts + HEADER_LIMIT_BYTES) \<le> PUBLICATION_WINDOW_BYTES"
  using assms div_times_less_eq_dividend[of PUBLICATION_WINDOW_BYTES "mo_max_payload opts + HEADER_LIMIT_BYTES"]
  by (auto simp: prepare_messaging_def Let_def split: if_splits)

lemma consumer_admit_Inr:
  assumes "consumer_admit topo source_stream max_payload server opts handled_subjects routed_subjects = Inr b"
  shows "b * co_concurrency opts \<le> i64_max" "max_payload + HEADER_LIMIT_BYTES < b"
    "list_all (subject_matches (co_filter_subject opts)) handled_subjects"
  using assms
  by (auto simp: consumer_admit_def bind_result_Inr pull_delivery_bytes_def list_all_iff list_ex_iff
      split: if_splits option.splits dest!: checked_sum_Some)

lemma spread_bounds:
  assumes "\<forall>x. sample = Some x \<longrightarrow> x \<le> u16_max"
  shows "base * 900000 \<le> spread_reconnect_delay base sample \<and> spread_reconnect_delay base sample \<le> base * 1000000"
proof -
  let ?x = "case sample of None \<Rightarrow> 0 | Some x \<Rightarrow> x"
  have "?x \<le> u16_max" using assms by (auto split: option.splits)
  define window where "window = base * 1000000 div 10"
  have "window * ?x div u16_max \<le> window * u16_max div u16_max"
    using \<open>?x \<le> u16_max\<close> by (intro div_le_mono mult_le_mono2)
  also have "\<dots> = window" by (simp add: u16_max_def)
  finally have spread: "window * ?x div u16_max \<le> window" .
  have "window = base * 100000" by (simp add: window_def)
  then show ?thesis using spread unfolding spread_reconnect_delay_def Let_def window_def[symmetric] by auto
qed

lemma reconnect_delay_bounds:
  assumes "\<forall>x. sample = Some x \<longrightarrow> x \<le> u16_max"
  shows "reconnect_delay attempts sample \<le> from_secs 4"
    "13 \<le> attempts \<Longrightarrow> from_millis 3600 \<le> reconnect_delay attempts sample"
proof -
  have "(2 :: nat) ^ (attempts - 1) \<le> 2 ^ 11" if "attempts < 13" using that by (intro power_increasing) auto
  then show "reconnect_delay attempts sample \<le> from_secs 4" "13 \<le> attempts \<Longrightarrow> from_millis 3600 \<le> reconnect_delay attempts sample"
    using spread_bounds[OF assms, of 4000] spread_bounds[OF assms, of "2 ^ (attempts - 1)"]
    by (auto simp: reconnect_delay_def time_units not_le)
qed

lemma probe_check_ready:
  assumes "probe_check max_payload before found after = Inr ()"
  shows "found \<and> (\<forall>st \<in> {before, after}. \<not> ps_draining st \<and> \<not> ps_failed st \<and> ps_connected st \<and>
    max_payload + HEADER_LIMIT_BYTES \<le> si_max_payload (ps_server st))"
  using assms
  by (auto simp: probe_check_def bind_result_Inr check_local_state_def validate_server_def split: if_splits)

lemma close_complete:
  assumes "close_client env = (CloseComplete, forced)"
  shows "\<not> forced \<and> (ce_closed_now env \<and> ce_event_now env \<or> ce_closed env \<and> ce_event env)"
  using assms by (auto simp: close_client_def drain_client_def Let_def split: if_splits)

end
