(* ===== verification/MessagePull.thy ===== *)
theory MessagePull
  imports MessageAdmission
begin

text \<open>
  The pull loop of \<open>crates/infra-messaging/src/consumer.rs\<close>: \<open>consume\<close> under \<open>run\<close>, and the handle that drains and
  joins it. Every \<open>select!\<close> of the loop is one turn, which answers which of its futures are ready; the first
  ready one in the order of the source is taken.
\<close>

subsection \<open>The loop\<close>

datatype consumer_error = StartError | ConsumerLost | DrainTimedOut | CloseError

datatype info_error_kind =
    InvalidName | Offline | NotFound | StreamNotFoundInfo | RequestError | JetStreamError | InfoTimedOut | NoResponders

record consumer_info =
  cf_created :: nat
  cf_deliver_subject :: "bytes option"

text \<open>The answer of the lookup, and of the check against the creation that was admitted.\<close>

definition durable_is_gone :: "nat \<Rightarrow> info_error_kind + consumer_info \<Rightarrow> info_error_kind + bool" where
  "durable_is_gone created answer =
     (case answer of
        Inr info \<Rightarrow> Inr (cf_created info \<noteq> created \<or> cf_deliver_subject info \<noteq> None)
      | Inl kind \<Rightarrow> if kind \<in> {NotFound, StreamNotFoundInfo} then Inr True else Inl kind)"

datatype batch_next = NextMessage | NextEnd | NextError | NextTimeout

datatype phase =
    Reserving
  | Identifying
  | Requesting nat
  | Receiving nat
  | Joining
  | Ended "consumer_error + unit"

record pull_state =
  pl_phase :: phase
  pl_deliveries :: nat
  pl_admitted :: nat
  pl_joined :: nat
  pl_released :: nat
  pl_failures :: nat

text \<open>
  One turn: the two tokens, a joined delivery (whether its task ended normally), the broker's answers to
  the lookup, to the pull request and to the next message, and how many messages the client has buffered.
\<close>

record turn =
  tn_force :: bool
  tn_stop :: bool
  tn_joined :: "bool option"
  tn_info :: "(info_error_kind + consumer_info) option"
  tn_request :: "bool option"
  tn_next :: "batch_next option"
  tn_buffered :: nat

definition join_one :: "bool \<Rightarrow> pull_state \<Rightarrow> pull_state" where
  "join_one normal st =
     (if normal then st\<lparr>pl_deliveries := pl_deliveries st - 1, pl_joined := pl_joined st + 1\<rparr>
      else st\<lparr>pl_phase := Ended (Inl CloseError)\<rparr>)"

definition gone_now :: "nat \<Rightarrow> turn \<Rightarrow> bool" where
  "gone_now created t \<longleftrightarrow>
     (case tn_info t of None \<Rightarrow> False | Some a \<Rightarrow> (case durable_is_gone created a of Inr g \<Rightarrow> g | Inl _ \<Rightarrow> False))"

definition release_buffered :: "turn \<Rightarrow> pull_state \<Rightarrow> pull_state" where
  "release_buffered t st = st\<lparr>pl_released := pl_released st + tn_buffered t\<rparr>"

text \<open>After a batch that ended before all its slots were used.\<close>

definition end_batch :: "nat \<Rightarrow> turn \<Rightarrow> bool \<Rightarrow> pull_state \<Rightarrow> pull_state" where
  "end_batch created t failed st =
     (let st = release_buffered t st
      in if gone_now created t then st\<lparr>pl_phase := Ended (Inl ConsumerLost)\<rparr>
         else st\<lparr>pl_phase := Reserving, pl_failures := pl_failures st + (if failed then 1 else 0)\<rparr>)"

definition admit_one :: "nat \<Rightarrow> pull_state \<Rightarrow> pull_state" where
  "admit_one left st =
     st\<lparr>pl_phase := (if left = 1 then Reserving else Receiving (left - 1)), pl_deliveries := pl_deliveries st + 1,
        pl_admitted := pl_admitted st + 1\<rparr>"

definition consume :: "nat \<Rightarrow> nat \<Rightarrow> turn \<Rightarrow> pull_state \<Rightarrow> pull_state" where
  "consume concurrency created t st =
     (case pl_phase st of
        Reserving \<Rightarrow>
          if pl_deliveries st = concurrency then
            if tn_stop t then st\<lparr>pl_phase := Joining\<rparr>
            else (case tn_joined t of None \<Rightarrow> st | Some normal \<Rightarrow> join_one normal st)
          else if tn_stop t then st\<lparr>pl_phase := Joining\<rparr>
          else st\<lparr>pl_phase := Identifying\<rparr>
      | Identifying \<Rightarrow>
          (case tn_info t of
             None \<Rightarrow> st
           | Some answer \<Rightarrow>
               (case durable_is_gone created answer of
                  Inr False \<Rightarrow> st\<lparr>pl_phase := Requesting (concurrency - pl_deliveries st)\<rparr>
                | Inr True \<Rightarrow> st\<lparr>pl_phase := Ended (Inl ConsumerLost)\<rparr>
                | Inl _ \<Rightarrow> st\<lparr>pl_phase := Reserving, pl_failures := pl_failures st + 1\<rparr>))
      | Requesting slots \<Rightarrow>
          if tn_stop t then st\<lparr>pl_phase := Joining\<rparr>
          else if tn_joined t \<noteq> None \<and> pl_deliveries st > 0 then join_one (the (tn_joined t)) st
          else (case tn_request t of
                  None \<Rightarrow> st
                | Some True \<Rightarrow> st\<lparr>pl_phase := Receiving slots\<rparr>
                | Some False \<Rightarrow>
                    (let st = st\<lparr>pl_failures := pl_failures st + 1\<rparr>
                     in if gone_now created t then st\<lparr>pl_phase := Ended (Inl ConsumerLost)\<rparr> else st\<lparr>pl_phase := Reserving\<rparr>))
      | Receiving left \<Rightarrow>
          if tn_stop t then (release_buffered t st)\<lparr>pl_phase := Joining\<rparr>
          else if tn_joined t \<noteq> None \<and> pl_deliveries st > 0 then join_one (the (tn_joined t)) st
          else (case tn_next t of
                  None \<Rightarrow> st
                | Some NextMessage \<Rightarrow> admit_one left st
                | Some NextEnd \<Rightarrow> end_batch created t False st
                | Some NextError \<Rightarrow> end_batch created t True st
                | Some NextTimeout \<Rightarrow> end_batch created t True st)
      | Joining \<Rightarrow>
          if pl_deliveries st = 0 then st\<lparr>pl_phase := Ended (Inr ())\<rparr>
          else (case tn_joined t of None \<Rightarrow> st | Some normal \<Rightarrow> join_one normal st)
      | Ended r \<Rightarrow> st)"

definition consumer_run :: "nat \<Rightarrow> nat \<Rightarrow> turn \<Rightarrow> pull_state \<Rightarrow> pull_state" where
  "consumer_run concurrency created t st =
     (case pl_phase st of
        Ended _ \<Rightarrow> st
      | _ \<Rightarrow> if tn_force t then st\<lparr>pl_phase := Ended (Inl DrainTimedOut)\<rparr> else consume concurrency created t st)"

definition pull_init :: pull_state where
  "pull_init = \<lparr>pl_phase = Reserving, pl_deliveries = 0, pl_admitted = 0, pl_joined = 0, pl_released = 0, pl_failures = 0\<rparr>"

definition consumer_turns :: "nat \<Rightarrow> nat \<Rightarrow> turn list \<Rightarrow> pull_state" where
  "consumer_turns concurrency created ts = fold (consumer_run concurrency created) ts pull_init"

subsection \<open>The handle\<close>

record consumer_handle =
  hd_stop :: bool
  hd_force :: bool
  hd_task :: bool
  hd_completed :: "(consumer_error + unit) option"

definition handle_abort :: "consumer_handle \<Rightarrow> consumer_handle" where
  "handle_abort h = h\<lparr>hd_stop := True, hd_force := True\<rparr>"

text \<open>
  The join answers what the task returned, \<^term>\<open>None\<close> inside for a panic or cancellation, and nothing before
  the deadline.
\<close>

definition handle_finish ::
  "(consumer_error + unit) option option \<Rightarrow> consumer_handle \<Rightarrow> (consumer_error + unit) \<times> consumer_handle" where
  "handle_finish joined h =
     (let h = h\<lparr>hd_stop := True\<rparr>
      in case hd_completed h of
           Some r \<Rightarrow> (r, h)
         | None \<Rightarrow>
             if \<not> hd_task h then (Inl CloseError, h)
             else (case joined of
                     None \<Rightarrow> (Inl DrainTimedOut, h)
                   | Some r \<Rightarrow>
                       (let r = (case r of None \<Rightarrow> Inl CloseError | Some x \<Rightarrow> x)
                        in (r, h\<lparr>hd_task := False, hd_completed := Some r\<rparr>))))"

lemma handle_finish_stable:
  "hd_completed h = Some r \<Longrightarrow> fst (handle_finish joined h) = r \<and> hd_completed (snd (handle_finish joined h)) = Some r"
  by (simp add: handle_finish_def)

subsection \<open>The slots\<close>

definition reserved :: "phase \<Rightarrow> nat" where
  "reserved p = (case p of Requesting n \<Rightarrow> n | Receiving n \<Rightarrow> n | _ \<Rightarrow> 0)"

definition pull_inv :: "nat \<Rightarrow> pull_state \<Rightarrow> bool" where
  "pull_inv concurrency st \<longleftrightarrow>
     pl_deliveries st + reserved (pl_phase st) \<le> concurrency \<and>
     pl_admitted st = pl_joined st + pl_deliveries st \<and>
     (pl_phase st = Ended (Inr ()) \<longrightarrow> pl_deliveries st = 0) \<and>
     (case pl_phase st of Receiving n \<Rightarrow> 0 < n | Requesting n \<Rightarrow> 0 < n | Identifying \<Rightarrow> pl_deliveries st < concurrency | _ \<Rightarrow> True)"

lemma join_one_inv:
  assumes "pull_inv concurrency st" "0 < pl_deliveries st" "pl_phase st \<noteq> Ended (Inr ())"
  shows "pull_inv concurrency (join_one normal st)"
  using assms by (auto simp: pull_inv_def join_one_def reserved_def split: phase.splits)

lemma admit_one_inv:
  assumes "pull_inv concurrency st" "pl_phase st = Receiving left"
  shows "pull_inv concurrency (admit_one left st)"
  using assms by (auto simp: pull_inv_def admit_one_def reserved_def)

lemma end_batch_inv:
  assumes "pull_inv concurrency st" "pl_phase st = Receiving left"
  shows "pull_inv concurrency (end_batch created t failed st)"
  using assms by (auto simp: pull_inv_def end_batch_def release_buffered_def Let_def reserved_def)

lemma release_inv:
  "pull_inv concurrency st \<Longrightarrow> pull_inv concurrency (release_buffered t st\<lparr>pl_phase := Joining\<rparr>)"
  by (auto simp: pull_inv_def release_buffered_def reserved_def)

lemma consume_inv:
  assumes inv: "pull_inv concurrency st" and pos: "0 < concurrency"
  shows "pull_inv concurrency (consume concurrency created t st)"
proof (cases "pl_phase st")
  case Reserving
  then show ?thesis using inv pos join_one_inv[OF inv]
    by (auto simp: consume_def pull_inv_def reserved_def split: option.splits)
next
  case Identifying
  then show ?thesis using inv
    by (auto simp: consume_def pull_inv_def reserved_def split: option.splits sum.splits bool.splits)
next
  case (Requesting slots)
  then show ?thesis using inv join_one_inv[OF inv]
    by (auto simp: consume_def pull_inv_def reserved_def Let_def split: option.splits bool.splits)
next
  case (Receiving left)
  then show ?thesis using inv release_inv[OF inv] join_one_inv[OF inv] admit_one_inv[OF inv] end_batch_inv[OF inv]
    by (auto simp: consume_def split: option.splits batch_next.splits)
next
  case Joining
  then show ?thesis using inv join_one_inv[OF inv]
    by (auto simp: consume_def pull_inv_def reserved_def split: option.splits)
next
  case (Ended r)
  then show ?thesis using inv by (simp add: consume_def)
qed

lemma consumer_run_inv:
  assumes "pull_inv concurrency st" "0 < concurrency"
  shows "pull_inv concurrency (consumer_run concurrency created t st)"
proof -
  have "pull_inv concurrency (st\<lparr>pl_phase := Ended (Inl DrainTimedOut)\<rparr>)"
    using assms(1) by (simp add: pull_inv_def reserved_def)
  then show ?thesis using assms(1) consume_inv[OF assms] by (simp add: consumer_run_def split: phase.splits)
qed

interpretation pull: step_invariant "\<lambda>st st'. 0 < concurrency \<and> (\<exists>t. st' = consumer_run concurrency created t st)" "pull_inv concurrency"
  by unfold_locales (use consumer_run_inv in blast)

lemma consumer_turns_reachable:
  assumes "0 < concurrency"
  shows "(\<lambda>st st'. 0 < concurrency \<and> (\<exists>t. st' = consumer_run concurrency created t st))\<^sup>*\<^sup>* st
    (fold (consumer_run concurrency created) ts st)"
  using assms
  by (induction ts arbitrary: st) (auto intro: converse_rtranclp_into_rtranclp)

lemma consumer_turns_inv: "0 < concurrency \<Longrightarrow> pull_inv concurrency (consumer_turns concurrency created ts)"
  unfolding consumer_turns_def
  by (rule pull.inv_run[OF consumer_turns_reachable]) (simp_all add: pull_inv_def pull_init_def reserved_def)

subsection \<open>Draining\<close>

lemma stopped_admits_none:
  assumes "tn_stop t"
  shows "pl_admitted (consumer_run concurrency created t st) = pl_admitted st"
  using assms
  by (auto simp: consumer_run_def consume_def join_one_def release_buffered_def split: phase.splits option.splits sum.splits bool.splits)

lemma stopped_admits_none_run:
  "list_all tn_stop ts \<Longrightarrow> pl_admitted (fold (consumer_run concurrency created) ts st) = pl_admitted st"
  by (induction ts arbitrary: st) (auto simp: stopped_admits_none)

text \<open>A turn of a drain: stop has been requested, an ended delivery is joined, a lookup is answered.\<close>

definition drain_turn :: "turn \<Rightarrow> bool" where
  "drain_turn t \<longleftrightarrow> tn_stop t \<and> \<not> tn_force t \<and> tn_joined t = Some True \<and> tn_info t \<noteq> None"

definition drain_left :: "pull_state \<Rightarrow> nat" where
  "drain_left st =
     (case pl_phase st of Ended _ \<Rightarrow> 0 | Joining \<Rightarrow> pl_deliveries st + 1 | Identifying \<Rightarrow> pl_deliveries st + 3 | _ \<Rightarrow> pl_deliveries st + 2)"

lemma drain_turn_progress:
  assumes "drain_turn t"
  shows "drain_left (consumer_run concurrency created t st) \<le> drain_left st - 1"
  using assms
  by (auto simp: drain_turn_def drain_left_def consumer_run_def consume_def join_one_def release_buffered_def
      split: phase.splits option.splits sum.splits bool.splits)

lemma drain_run: "list_all drain_turn ts \<Longrightarrow> drain_left (fold (consumer_run concurrency created) ts st) \<le> drain_left st - length ts"
proof (induction ts arbitrary: st)
  case (Cons t ts)
  then have "drain_left (fold (consumer_run concurrency created) ts (consumer_run concurrency created t st)) \<le>
      drain_left (consumer_run concurrency created t st) - length ts" by simp
  then show ?case using drain_turn_progress[of t concurrency created st] Cons.prems by simp
qed simp

text \<open>
  C33. The pull loop keeps to its slots and drains. At every moment the deliveries in flight and the
  slots of an open pull together are at most the configured concurrency, and a pull asks for at least one
  and no more than the free slots. Once stop is requested no delivery is admitted, and when its deliveries end the
  loop ends within their number and three turns; it returns success only when all admitted deliveries
  have been joined.
\<close>

theorem pull_loop_bounded:
  assumes "0 < concurrency" "consumer_turns concurrency created ts = st"
    "list_all drain_turn drains" "consumer_turns concurrency created (ts @ drains) = st'"
  shows "pl_deliveries st + reserved (pl_phase st) \<le> concurrency \<and>
    (\<forall>n. pl_phase st = Requesting n \<longrightarrow> 0 < n \<and> n + pl_deliveries st \<le> concurrency) \<and>
    (pl_phase st = Ended (Inr ()) \<longrightarrow> pl_deliveries st = 0 \<and> pl_joined st = pl_admitted st) \<and>
    pl_admitted st' = pl_admitted st \<and>
    (pl_deliveries st + 3 \<le> length drains \<longrightarrow> (\<exists>r. pl_phase st' = Ended r))"
proof -
  have inv: "pull_inv concurrency st" using consumer_turns_inv[OF assms(1)] assms(2) by blast
  have st': "st' = fold (consumer_run concurrency created) drains st"
    using assms(2,4) by (simp add: consumer_turns_def)
  have "list_all tn_stop drains" using assms(3) by (auto simp: list_all_iff drain_turn_def)
  then have admitted: "pl_admitted st' = pl_admitted st" unfolding st' by (rule stopped_admits_none_run)
  have "\<exists>r. pl_phase st' = Ended r" if "pl_deliveries st + 3 \<le> length drains"
  proof -
    have "drain_left st \<le> pl_deliveries st + 3" by (simp add: drain_left_def split: phase.splits)
    with drain_run[OF assms(3), of concurrency created st] that st' have "drain_left st' = 0" by simp
    then show ?thesis by (auto simp: drain_left_def split: phase.splits)
  qed
  then show ?thesis using inv admitted by (auto simp: pull_inv_def reserved_def)
qed

definition idle_turn :: turn where
  "idle_turn = \<lparr>tn_force = False, tn_stop = False, tn_joined = None, tn_info = Some (Inr \<lparr>cf_created = 7, cf_deliver_subject = None\<rparr>),
     tn_request = Some True, tn_next = Some NextMessage, tn_buffered = 0\<rparr>"

theorem pull_loop_bounded_witness:
  "pl_deliveries (consumer_turns 2 7 (replicate 5 idle_turn)) = 2 \<and>
   (\<exists>r. pl_phase (consumer_turns 2 7 (replicate 5 idle_turn @ replicate 5 (idle_turn\<lparr>tn_stop := True, tn_joined := Some True\<rparr>))) = Ended r)"
proof -
  let ?drains = "replicate 5 (idle_turn\<lparr>tn_stop := True, tn_joined := Some True\<rparr>)"
  have two: "pl_deliveries (consumer_turns 2 7 (replicate 5 idle_turn)) = 2"
    by (simp add: consumer_turns_def idle_turn_def eval_nat_numeral consumer_run_def consume_def pull_init_def durable_is_gone_def
        admit_one_def)
  have drains: "list_all drain_turn ?drains" by (simp add: list_all_iff drain_turn_def idle_turn_def)
  from pull_loop_bounded[of 2 7 "replicate 5 idle_turn", OF _ refl drains refl] two show ?thesis by simp
qed

end
