(* ===== verification/MessageOutbox.thy ===== *)
theory MessageOutbox
  imports WebhookInbound MessageProducer Fragments
begin

text \<open>
  \<open>crates/infra-messaging/src/outbox.rs\<close>: an event as an immutable job of the caller's transaction, its size
  check in cooperative polls, and its publication from the stored intent.

  JSON, base64 and the calendar are parameters. A job runs on the transaction boundary of \<open>Postgres\<close> with the
  statements of \<open>infra-jobs\<close>.
\<close>

subsection \<open>The intent\<close>

definition OUTBOX_KIND :: string where "OUTBOX_KIND = ''publish_domain_event''"
definition FORMAT_VERSION :: nat where "FORMAT_VERSION = 1"
definition PREFLIGHT_BYTES_PER_POLL :: nat where "PREFLIGHT_BYTES_PER_POLL = 4096"

definition OUTBOX_POLICY :: policy where
  "OUTBOX_POLICY = \<lparr>max_attempts = 25, timeout = from_secs 30, max_running = None\<rparr>"

record publish_domain_event =
  pd_version :: nat
  pd_subject :: bytes
  pd_message_id :: bytes
  pd_publication_id :: bytes
  pd_event_type :: bytes
  pd_schema_version :: nat
  pd_unix_seconds :: int
  pd_nanosecond :: nat
  pd_payload_base64 :: bytes

record 't outbox_lib =
  xl_codec :: b64_codec
  xl_json :: "publish_domain_event \<Rightarrow> bytes option"
  xl_json_str :: "bytes \<Rightarrow> bytes option"
  xl_unix_seconds :: "'t \<Rightarrow> int"
  xl_nanosecond :: "'t \<Rightarrow> nat"
  xl_from_unix :: "int \<Rightarrow> nat \<Rightarrow> 't option"
  xl_is_json :: "bytes \<Rightarrow> bool"

definition empty_metadata :: "'t outbox_lib \<Rightarrow> 't prepared_event \<Rightarrow> publish_domain_event" where
  "empty_metadata lib e =
     \<lparr>pd_version = FORMAT_VERSION, pd_subject = [], pd_message_id = [], pd_publication_id = [], pd_event_type = [],
      pd_schema_version = ev_schema_version e, pd_unix_seconds = xl_unix_seconds lib (ev_occurred_at e),
      pd_nanosecond = xl_nanosecond lib (ev_occurred_at e), pd_payload_base64 = []\<rparr>"

definition metadata :: "'t outbox_lib \<Rightarrow> 't prepared_event \<Rightarrow> publish_domain_event" where
  "metadata lib e =
     (empty_metadata lib e)\<lparr>pd_subject := ev_subject e, pd_message_id := ev_message_id e,
        pd_publication_id := ev_publication_id e, pd_event_type := ev_event_type e\<rparr>"

definition intent_of :: "'t outbox_lib \<Rightarrow> 't prepared_event \<Rightarrow> publish_domain_event" where
  "intent_of lib e = (metadata lib e)\<lparr>pd_payload_base64 := b64_encode (xl_codec lib) (ev_payload e)\<rparr>"

definition stored_prepared :: "'t outbox_lib \<Rightarrow> 't time_lib \<Rightarrow> publish_domain_event \<Rightarrow> 't prepared_event option" where
  "stored_prepared lib tlib i =
     (if pd_version i \<noteq> FORMAT_VERSION \<or> \<not> valid_subject (pd_subject i) then None
      else Option.bind (xl_from_unix lib (pd_unix_seconds i) (pd_nanosecond i)) (\<lambda>t.
           Option.bind (b64_decode (xl_codec lib) (pd_payload_base64 i)) (\<lambda>payload.
             if \<not> xl_is_json lib payload then None
             else let e = \<lparr>ev_subject = pd_subject i, ev_message_id = pd_message_id i,
                           ev_publication_id = pd_publication_id i, ev_event_type = pd_event_type i,
                           ev_schema_version = pd_schema_version i, ev_occurred_at = t, ev_created_at = [],
                           ev_payload = payload\<rparr>
                  in case validate_prepared tlib e of Inl _ \<Rightarrow> None | Inr created \<Rightarrow> Some (e\<lparr>ev_created_at := created\<rparr>))))"

definition event_key :: "(bytes \<Rightarrow> bytes) \<Rightarrow> bytes \<Rightarrow> ustr" where
  "event_key sha mid = map unat (prefixed_digest_hex ''event-'' (sha mid))"

subsection \<open>The size of the metadata\<close>

datatype outbox_error =
    OutboxPayloadTooLarge nat nat
  | EventIdConflict
  | LiveIdentityChanged
  | OutboxJobs enqueue_failure

record meta_state =
  mt_field :: nat
  mt_offset :: nat
  mt_total :: nat

datatype meta_polled = MetaPending meta_state | MetaReady "enqueue_error + nat" | MetaPanic

text \<open>One poll of \<open>outbox_metadata_bytes\<close>.\<close>

function meta_poll :: "'t outbox_lib \<Rightarrow> bytes list \<Rightarrow> meta_state \<Rightarrow> nat \<Rightarrow> meta_polled" where
  "meta_poll lib srcs st budget_left =
     (if mt_field st < length srcs then
        (let source = srcs ! mt_field st
         in if mt_offset st = length source
            then meta_poll lib srcs (st\<lparr>mt_field := mt_field st + 1, mt_offset := 0\<rparr>) budget_left
            else (let fin = char_floor source (min (length source) (mt_offset st + budget_left))
                  in if fin = mt_offset st then MetaPending st
                     else if fin < mt_offset st then MetaPanic
                     else case xl_json_str lib (take (fin - mt_offset st) (drop (mt_offset st) source)) of
                            None \<Rightarrow> MetaReady (Inl SerializeError)
                          | Some encoded \<Rightarrow>
                              meta_poll lib srcs (st\<lparr>mt_offset := fin, mt_total := mt_total st + (length encoded - 2)\<rparr>)
                                (budget_left - (fin - mt_offset st))))
      else MetaReady (Inr (mt_total st)))"
  by pat_completeness auto
termination
proof (relation "measures [\<lambda>(lib, srcs, st, b). length srcs - mt_field st,
    \<lambda>(lib, srcs, st, b). length (srcs ! mt_field st) - mt_offset st]", goal_cases)
  case (3 lib srcs st b source fin)
  have "fin \<le> length source" using char_floor_le[of source "min (length source) (mt_offset st + b)"] 3(4) by simp
  with 3 show ?case by auto
qed auto

declare meta_poll.simps [simp del]

fun meta_polls :: "'t outbox_lib \<Rightarrow> bytes list \<Rightarrow> meta_state \<Rightarrow> nat \<Rightarrow> (enqueue_error + nat) option option" where
  "meta_polls lib srcs st 0 = None"
| "meta_polls lib srcs st (Suc n) =
     (case meta_poll lib srcs st PREFLIGHT_BYTES_PER_POLL of
        MetaPending st' \<Rightarrow> meta_polls lib srcs st' n
      | MetaReady r \<Rightarrow> Some (Some r)
      | MetaPanic \<Rightarrow> Some None)"

definition metadata_fields :: "'t prepared_event \<Rightarrow> bytes list" where
  "metadata_fields e = [ev_subject e, ev_message_id e, ev_publication_id e, ev_event_type e]"

text \<open>\<^term>\<open>None\<close> while it is pending after the given polls, \<^term>\<open>Some None\<close> for a panic.\<close>

definition outbox_metadata_bytes :: "'t outbox_lib \<Rightarrow> 't prepared_event \<Rightarrow> nat \<Rightarrow> (enqueue_error + nat) option option" where
  "outbox_metadata_bytes lib e polls =
     (case xl_json lib (empty_metadata lib e) of
        None \<Rightarrow> Some (Some (Inl SerializeError))
      | Some js \<Rightarrow> meta_polls lib (metadata_fields e) \<lparr>mt_field = 0, mt_offset = 0, mt_total = length js\<rparr> polls)"

definition max_outbox_payload :: "nat \<Rightarrow> nat" where
  "max_outbox_payload overhead = (MAX_PAYLOAD_BYTES - overhead) div 4 * 3"

definition prepare_outbox_intent ::
  "'t outbox_lib \<Rightarrow> 't prepared_event \<Rightarrow> nat \<Rightarrow> (outbox_error + publish_domain_event) option option" where
  "prepare_outbox_intent lib e polls =
     (if length (ev_subject e) > MAX_PAYLOAD_BYTES \<and> ev_payload e \<noteq> []
      then Some (Some (Inl (OutboxPayloadTooLarge (length (ev_payload e)) 0)))
      else map_option (map_option (\<lambda>r. bind_result (case r of Inl x \<Rightarrow> Inl (OutboxJobs (EnqRefused x)) | Inr n \<Rightarrow> Inr n) (\<lambda>overhead.
             if length (ev_payload e) > max_outbox_payload overhead
             then Inl (OutboxPayloadTooLarge (length (ev_payload e)) (max_outbox_payload overhead))
             else if overhead > MAX_PAYLOAD_BYTES then Inl (OutboxJobs (EnqRefused (PayloadTooLarge overhead)))
             else Inr (intent_of lib e)))) (outbox_metadata_bytes lib e polls))"

definition outbox_payload_limit :: "'t outbox_lib \<Rightarrow> 't prepared_event \<Rightarrow> enqueue_error + nat" where
  "outbox_payload_limit lib e =
     (if length (ev_subject e) > MAX_PAYLOAD_BYTES then Inr 0
      else case xl_json lib (metadata lib e) of
             None \<Rightarrow> Inl SerializeError
           | Some js \<Rightarrow> Inr (max_outbox_payload (length js - length (pd_payload_base64 (metadata lib e)))))"

subsection \<open>Enqueue on the caller's transaction\<close>

record 'd outbox_env =
  xe_enqueue :: "'d enqueue_env"
  xe_seen :: "queue \<Rightarrow> queue"
  xe_compare_fault :: "'d stmt_fault"

text \<open>
  The locking statement of \<open>compare_live_payload\<close>: it reads the rows that are committed when it takes the lock,
  which is what \<open>xe_seen\<close> makes of the rows at the start.
\<close>

definition compare_statement ::
  "(string \<Rightarrow> string \<Rightarrow> bool) \<Rightarrow> (queue \<Rightarrow> queue) \<Rightarrow> string \<Rightarrow> prepared \<Rightarrow> ('u hook_data, 'x hook_row) statement" where
  "compare_statement jsonb_eq seen kind p = (\<lambda>(u, rc, q).
     (case find (live_holder kind (prep_unique_key p)) (rows (seen q)) of
        None \<Rightarrow> []
      | Some r \<Rightarrow> [ComparedRow (jsonb_eq (j_payload r) (prep_payload p))], Inr (u, rc, q)))"

record 't outbox_ctx =
  xc_lib :: "'t outbox_lib"
  xc_sha :: "bytes \<Rightarrow> bytes"
  xc_is_utf8 :: "string \<Rightarrow> bool"
  xc_jsonb :: "string \<Rightarrow> string"
  xc_jsonb_eq :: "string \<Rightarrow> string \<Rightarrow> bool"
  xc_serialize :: "publish_domain_event \<Rightarrow> serialization"

definition outbox_options :: "'t outbox_ctx \<Rightarrow> 't prepared_event \<Rightarrow> enqueue_options" where
  "outbox_options ctx e = \<lparr>opt_delay = 0, opt_unique_key = Some (event_key (xc_sha ctx) (ev_message_id e))\<rparr>"

datatype outbox_enqueued = OutboxCreated | OutboxDuplicate

definition compare_work ::
  "'t outbox_ctx \<Rightarrow> 'u hook_data outbox_env \<Rightarrow> 't prepared_event
   \<Rightarrow> (outbox_error + outbox_enqueued \<Rightarrow> ('u hook_data, 'x hook_row, 'r, 'e) work)
   \<Rightarrow> ('u hook_data, 'x hook_row, 'r, 'e) work" where
  "compare_work ctx env e rest =
     (case prepare (xc_is_utf8 ctx) OUTBOX_KIND (xc_serialize ctx (intent_of (xc_lib ctx) e)) (outbox_options ctx e) of
        Inl err \<Rightarrow> rest (Inl (OutboxJobs (EnqRefused err)))
      | Inr p \<Rightarrow>
          FetchOptional
            (with_fault (xe_compare_fault env) (compare_statement (xc_jsonb_eq ctx) (xe_seen env) OUTBOX_KIND p))
            (\<lambda>r. case r of
               Inl err \<Rightarrow> rest (Inl (OutboxJobs (EnqDatabase err)))
             | Inr (Some (ComparedRow True)) \<Rightarrow> rest (Inr OutboxDuplicate)
             | Inr (Some _) \<Rightarrow> rest (Inl EventIdConflict)
             | Inr None \<Rightarrow> rest (Inl LiveIdentityChanged)))"

definition outbox_enqueue ::
  "'t outbox_ctx \<Rightarrow> 'u hook_data outbox_env \<Rightarrow> 't prepared_event \<Rightarrow> nat
   \<Rightarrow> (outbox_error + outbox_enqueued \<Rightarrow> ('u hook_data, 'x hook_row, 'r, 'e) work)
   \<Rightarrow> ('u hook_data, 'x hook_row, 'r, 'e) work option" where
  "outbox_enqueue ctx env e polls rest =
     (case prepare_outbox_intent (xc_lib ctx) e polls of
        Some (Some (Inl err)) \<Rightarrow> Some (rest (Inl err))
      | Some (Some (Inr intent)) \<Rightarrow>
          Some (enqueue_work (xc_is_utf8 ctx) (xc_jsonb ctx) (xe_enqueue env) OUTBOX_KIND (xc_serialize ctx intent)
            (outbox_options ctx e)
            (\<lambda>res. case res of
               Inl err \<Rightarrow> rest (Inl (OutboxJobs err))
             | Inr (Created _) \<Rightarrow> rest (Inr OutboxCreated)
             | Inr Duplicate \<Rightarrow> compare_work ctx env e rest))
      | _ \<Rightarrow> None)"

subsection \<open>Publication from the stored intent\<close>

definition publish_failure_text :: "publish_failure \<Rightarrow> ustr" where
  "publish_failure_text f = ascii
     (case f of Rejected \<Rightarrow> ''messaging publication was rejected''
              | Ambiguous \<Rightarrow> ''messaging publication acknowledgement is ambiguous'')"

record outbox_published =
  op_answer :: "(job_error + unit) option"
  op_sent :: "(bytes \<times> nats_headers \<times> bytes) option"

definition publisher_publish ::
  "'t outbox_lib \<Rightarrow> 't time_lib \<Rightarrow> shared \<Rightarrow> (string \<times> bytes) list \<Rightarrow> publish_env \<Rightarrow> instant \<Rightarrow> publish_domain_event \<Rightarrow> outbox_published" where
  "publisher_publish lib tlib sh sets env deadline i =
     (case stored_prepared lib tlib i of
        None \<Rightarrow> \<lparr>op_answer = Some (Inl (permanent (ascii ''outbox immutable intent is invalid''))), op_sent = None\<rparr>
      | Some e \<Rightarrow>
          (let out = producer_publish sh sets env e deadline
           in \<lparr>op_answer = map_option (\<lambda>r. case r of Inl f \<Rightarrow> Inl (retryable (publish_failure_text f)) | Inr _ \<Rightarrow> Inr ()) (pb_result out),
               op_sent = pb_sent out\<rparr>))"

subsection \<open>The size check against the whole intent\<close>

definition signed_decimal :: "int \<Rightarrow> string" where
  "signed_decimal i = (if i < 0 then CHR 0x2D # decimal (nat (- i)) else decimal (nat i))"

definition intent_json :: "(8 word \<Rightarrow> bytes) \<Rightarrow> publish_domain_event \<Rightarrow> bytes" where
  "intent_json esc i =
     bytes_of ''{\"version\":'' @ bytes_of (decimal (pd_version i)) @
     bytes_of '',\"subject\":\"'' @ concat (map esc (pd_subject i)) @
     bytes_of ''\",\"message_id\":\"'' @ concat (map esc (pd_message_id i)) @
     bytes_of ''\",\"publication_id\":\"'' @ concat (map esc (pd_publication_id i)) @
     bytes_of ''\",\"event_type\":\"'' @ concat (map esc (pd_event_type i)) @
     bytes_of ''\",\"schema_version\":'' @ bytes_of (decimal (pd_schema_version i)) @
     bytes_of '',\"occurred_at_unix_seconds\":'' @ bytes_of (signed_decimal (pd_unix_seconds i)) @
     bytes_of '',\"occurred_at_nanosecond\":'' @ bytes_of (decimal (pd_nanosecond i)) @
     bytes_of '',\"payload_base64\":\"'' @ concat (map esc (pd_payload_base64 i)) @ bytes_of ''\"}''"

text \<open>
  What is relied on of the JSON and base64 packages: a string is its bytes escaped one by one between
  quotes, an intent is the object of its fields, and padded base64 needs no escape.
\<close>

definition outbox_lib_ok :: "'t outbox_lib \<Rightarrow> (8 word \<Rightarrow> bytes) \<Rightarrow> bool" where
  "outbox_lib_ok lib esc \<longleftrightarrow>
     (\<forall>i. xl_json lib i = Some (intent_json esc i)) \<and>
     (\<forall>s. xl_json_str lib s = Some (0x22 # concat (map esc s) @ [0x22])) \<and>
     (\<forall>b. esc b \<noteq> []) \<and>
     (\<forall>x. esc_size esc (b64_encode (xl_codec lib) x) = (length x + 2) div 3 * 4)"

lemma intent_json_length:
  "length (intent_json esc (intent_of lib e)) =
     length (intent_json esc (empty_metadata lib e)) + esc_size esc (concat (metadata_fields e)) +
     esc_size esc (b64_encode (xl_codec lib) (ev_payload e))"
  by (simp add: intent_json_def intent_of_def metadata_def empty_metadata_def metadata_fields_def esc_size_def)

lemma base64_fits:
  assumes "overhead \<le> MAX_PAYLOAD_BYTES"
  shows "n \<le> max_outbox_payload overhead \<longleftrightarrow> overhead + (n + 2) div 3 * 4 \<le> MAX_PAYLOAD_BYTES"
proof -
  have "n \<le> max_outbox_payload overhead \<longleftrightarrow> (n + 2) div 3 \<le> (MAX_PAYLOAD_BYTES - overhead) div 4"
    unfolding max_outbox_payload_def by arith
  also have "\<dots> \<longleftrightarrow> (n + 2) div 3 * 4 \<le> MAX_PAYLOAD_BYTES - overhead" by arith
  finally show ?thesis using assms by arith
qed

lemma esc_size_ge: "\<forall>b. esc b \<noteq> [] \<Longrightarrow> length s \<le> esc_size esc s"
proof (induction s)
  case (Cons b s)
  then have "1 \<le> length (esc b)" by (cases "esc b") auto
  with Cons show ?case by (simp add: esc_size_def)
qed (simp add: esc_size_def)

definition counted :: "bytes list \<Rightarrow> meta_state \<Rightarrow> bytes" where
  "counted srcs st =
     concat (take (mt_field st) srcs) @ (if mt_field st < length srcs then take (mt_offset st) (srcs ! mt_field st) else [])"

definition meta_inv :: "(8 word \<Rightarrow> bytes) \<Rightarrow> bytes list \<Rightarrow> nat \<Rightarrow> meta_state \<Rightarrow> bool" where
  "meta_inv esc srcs base st \<longleftrightarrow>
     mt_field st \<le> length srcs \<and>
     (mt_field st < length srcs \<longrightarrow> is_char_boundary (srcs ! mt_field st) (mt_offset st)) \<and>
     mt_total st = base + esc_size esc (counted srcs st)"

definition poll_spec :: "(8 word \<Rightarrow> bytes) \<Rightarrow> bytes list \<Rightarrow> nat \<Rightarrow> meta_state \<Rightarrow> nat \<Rightarrow> meta_polled \<Rightarrow> bool" where
  "poll_spec esc srcs base st b p =
     (case p of
        MetaReady r \<Rightarrow> r = Inr (base + esc_size esc (concat srcs))
      | MetaPending st' \<Rightarrow>
          meta_inv esc srcs base st' \<and> length (counted srcs st) \<le> length (counted srcs st') \<and>
          (4 \<le> b \<longrightarrow> length (counted srcs st) < length (counted srcs st')) \<and> length (counted srcs st') \<le> length (concat srcs)
      | MetaPanic \<Rightarrow> False)"

lemma counted_le: "length (counted srcs st) \<le> length (concat srcs)"
proof (cases "mt_field st < length srcs")
  case True
  have "concat srcs = concat (take (mt_field st) srcs) @ srcs ! mt_field st @ concat (drop (Suc (mt_field st)) srcs)"
    using True by (metis concat.simps(2) concat_append id_take_nth_drop)
  then show ?thesis using True by (simp add: counted_def)
next
  case False
  then show ?thesis by (simp add: counted_def)
qed

lemma counted_next_field:
  assumes "mt_field st < length srcs" "mt_offset st = length (srcs ! mt_field st)"
  shows "counted srcs (st\<lparr>mt_field := mt_field st + 1, mt_offset := 0\<rparr>) = counted srcs st"
  using assms by (simp add: counted_def take_Suc_conv_app_nth)

lemma counted_fragment:
  assumes "mt_field st < length srcs" "mt_offset st \<le> fin"
  shows "counted srcs (st\<lparr>mt_offset := fin, mt_total := n\<rparr>) =
    counted srcs st @ take (fin - mt_offset st) (drop (mt_offset st) (srcs ! mt_field st))"
  using assms take_fragment[OF assms(2), of "srcs ! mt_field st"] by (simp add: counted_def)

lemma meta_poll_spec:
  "outbox_lib_ok lib esc \<Longrightarrow> \<forall>s \<in> set srcs. is_str s \<Longrightarrow> meta_inv esc srcs base st \<Longrightarrow>
     poll_spec esc srcs base st b (meta_poll lib srcs st b)"
proof (induction lib srcs st b rule: meta_poll.induct)
  case (1 lib srcs st b)
  note lib = 1(3) and strs = 1(4) and inv = 1(5)
  show ?case
  proof (cases "mt_field st < length srcs")
    case False
    then have "counted srcs st = concat srcs" by (simp add: counted_def)
    then show ?thesis using False inv by (subst meta_poll.simps) (simp add: poll_spec_def meta_inv_def)
  next
    case field: True
    let ?src = "srcs ! mt_field st"
    have src: "is_str ?src" "is_char_boundary ?src (mt_offset st)"
      using strs field inv by (auto simp: meta_inv_def)
    show ?thesis
    proof (cases "mt_offset st = length ?src")
      case True
      let ?st = "st\<lparr>mt_field := mt_field st + 1, mt_offset := 0\<rparr>"
      note same = counted_next_field[OF field True]
      have "meta_inv esc srcs base ?st"
        using inv field same by (auto simp: meta_inv_def is_char_boundary_def)
      from 1(1)[OF field refl True lib strs this] show ?thesis
        using field True same by (subst meta_poll.simps) (simp add: poll_spec_def split: meta_polled.splits)
    next
      case False
      define fin where "fin = char_floor ?src (min (length ?src) (mt_offset st + b))"
      note bound = fragment_end[OF src fin_def]
      have off: "mt_offset st < length ?src" using False char_boundary_le[OF src(2)] by simp
      show ?thesis
      proof (cases "fin = mt_offset st")
        case True
        then have "\<not> 4 \<le> b" using bound off by simp
        then show ?thesis using field False True inv counted_le[of srcs st]
          by (subst meta_poll.simps) (simp add: Let_def fin_def[symmetric] poll_spec_def)
      next
        case more: False
        let ?piece = "take (fin - mt_offset st) (drop (mt_offset st) ?src)"
        let ?st = "st\<lparr>mt_offset := fin, mt_total := mt_total st + (length (0x22 # concat (map esc ?piece) @ [0x22]) - 2)\<rparr>"
        have le: "mt_offset st < fin" using more bound by simp
        have json: "xl_json_str lib ?piece = Some (0x22 # concat (map esc ?piece) @ [0x22])"
          using lib by (simp add: outbox_lib_ok_def)
        note next_counted = counted_fragment[OF field less_imp_le[OF le]]
        have "meta_inv esc srcs base ?st"
          using inv field bound by (simp add: meta_inv_def next_counted) (simp add: esc_size_def)
        note rec = 1(2)[OF field refl False fin_def more _ json lib strs this]
        have "length (counted srcs st) < length (counted srcs ?st)"
          using le bound by (simp add: next_counted)
        then have "poll_spec esc srcs base st b (meta_poll lib srcs ?st (b - (fin - mt_offset st)))"
          using rec le by (simp add: poll_spec_def split: meta_polled.splits)
        then show ?thesis using field False more le json
          by (subst meta_poll.simps) (simp add: Let_def fin_def[symmetric])
      qed
    qed
  qed
qed

lemma meta_polls_result:
  assumes "outbox_lib_ok lib esc" "\<forall>s \<in> set srcs. is_str s"
  shows "meta_inv esc srcs base st \<Longrightarrow> length (concat srcs) - length (counted srcs st) < n \<Longrightarrow>
    meta_polls lib srcs st n = Some (Some (Inr (base + esc_size esc (concat srcs))))"
proof (induction n arbitrary: st)
  case (Suc n)
  have spec: "poll_spec esc srcs base st PREFLIGHT_BYTES_PER_POLL (meta_poll lib srcs st PREFLIGHT_BYTES_PER_POLL)"
    by (rule meta_poll_spec[OF assms Suc.prems(1)])
  show ?case
  proof (cases "meta_poll lib srcs st PREFLIGHT_BYTES_PER_POLL")
    case (MetaPending st')
    with spec have "meta_inv esc srcs base st'" "length (counted srcs st) < length (counted srcs st')"
      by (simp_all add: poll_spec_def PREFLIGHT_BYTES_PER_POLL_def)
    moreover from this(2) Suc.prems(2) counted_le[of srcs st'] have "length (concat srcs) - length (counted srcs st') < n" by linarith
    ultimately show ?thesis using MetaPending by (simp add: Suc.IH)
  qed (use spec in \<open>simp_all add: poll_spec_def\<close>)
qed simp

lemma intent_exact:
  assumes lib: "outbox_lib_ok lib esc" and strs: "\<forall>s \<in> set (metadata_fields e). is_str s"
    and polls: "length (concat (metadata_fields e)) < polls"
  shows "\<exists>r. prepare_outbox_intent lib e polls = Some (Some r) \<and>
    (r = Inr (intent_of lib e) \<longleftrightarrow> length (intent_json esc (intent_of lib e)) \<le> MAX_PAYLOAD_BYTES) \<and>
    (is_ok r \<longrightarrow> r = Inr (intent_of lib e))"
proof -
  let ?base = "length (intent_json esc (empty_metadata lib e))" and ?srcs = "metadata_fields e"
  define overhead where "overhead = ?base + esc_size esc (concat ?srcs)"
  have esc: "\<forall>b. esc b \<noteq> []" using lib by (simp add: outbox_lib_ok_def)
  have size: "length (intent_json esc (intent_of lib e)) = overhead + (length (ev_payload e) + 2) div 3 * 4"
    using lib by (simp add: intent_json_length overhead_def outbox_lib_ok_def)
  have "meta_inv esc ?srcs ?base \<lparr>mt_field = 0, mt_offset = 0, mt_total = ?base\<rparr>"
    by (simp add: meta_inv_def counted_def is_char_boundary_def)
  from meta_polls_result[OF lib strs this, of polls] polls
  have meta: "outbox_metadata_bytes lib e polls = Some (Some (Inr overhead))"
    using lib by (simp add: outbox_metadata_bytes_def outbox_lib_ok_def overhead_def counted_def)
  show ?thesis
  proof (cases "length (ev_subject e) > MAX_PAYLOAD_BYTES \<and> ev_payload e \<noteq> []")
    case True
    have "length (ev_subject e) \<le> esc_size esc (concat ?srcs)"
      using esc_size_ge[OF esc, of "concat ?srcs"] by (simp add: metadata_fields_def)
    then show ?thesis using True size by (simp add: prepare_outbox_intent_def overhead_def)
  next
    case False
    show ?thesis
    proof (cases "overhead \<le> MAX_PAYLOAD_BYTES")
      case True
      then show ?thesis using False meta size base64_fits[OF True, of "length (ev_payload e)"]
        by (auto simp: prepare_outbox_intent_def)
    next
      case big: False
      then show ?thesis using False meta size by (auto simp: prepare_outbox_intent_def)
    qed
  qed
qed

text \<open>
  C32. The cooperative size check admits exactly the intents that fit. Whatever the text of the fields, it
  ends within as many polls as they have bytes, and one more, without a panic, and answers the immutable intent
  exactly when its whole JSON text, with escapes and base64, is within the limit of the jobs table.
\<close>

theorem outbox_intent_exact:
  assumes lib: "outbox_lib_ok lib esc" and strs: "\<forall>s \<in> set (metadata_fields e). is_str s"
    and polls: "length (concat (metadata_fields e)) < polls"
  shows "\<exists>r. prepare_outbox_intent lib e polls = Some (Some r) \<and>
    (r = Inr (intent_of lib e) \<longleftrightarrow> length (intent_json esc (intent_of lib e)) \<le> MAX_PAYLOAD_BYTES) \<and>
    (is_ok r \<longrightarrow> r = Inr (intent_of lib e))"
  by (rule intent_exact[OF assms])

definition demo_codec :: b64_codec where
  "demo_codec = \<lparr>b64_encode = (\<lambda>x. replicate ((length x + 2) div 3 * 4) 65), b64_decode = Some\<rparr>"

definition demo_outbox :: "nat outbox_lib" where
  "demo_outbox = \<lparr>xl_codec = demo_codec, xl_json = (\<lambda>i. Some (intent_json (\<lambda>b. [b]) i)), xl_json_str = (\<lambda>s. Some (0x22 # s @ [0x22])),
     xl_unix_seconds = int, xl_nanosecond = (\<lambda>_. 0), xl_from_unix = (\<lambda>s n. Some (nat s)), xl_is_json = (\<lambda>_. True)\<rparr>"

lemma demo_outbox_ok: "outbox_lib_ok demo_outbox (\<lambda>b. [b])"
  by (simp add: outbox_lib_ok_def demo_outbox_def demo_codec_def esc_size_def)

lemma ascii_is_str: "list_all (\<lambda>b. b < 0x80) s \<Longrightarrow> is_str s"
proof -
  assume s: "list_all (\<lambda>b. b < 0x80) s"
  have "is_char_boundary s (i + 1)" if "i < length s" for i
  proof (cases "i + 1 = length s")
    case False
    then have "s ! (i + 1) < 0x80" using s that by (simp add: list_all_length)
    then show ?thesis using False that by (auto simp: is_char_boundary_def)
  qed (simp add: is_char_boundary_def)
  then show "is_str s" unfolding is_str_def by (meson atLeastAtMost_iff le_numeral_extra(4) one_le_numeral)
qed

theorem outbox_intent_exact_witness:
  "\<exists>r. prepare_outbox_intent demo_outbox demo_prepared_event 100 = Some (Some r)"
proof -
  have "\<forall>s \<in> set (metadata_fields demo_prepared_event). is_str s"
    by (auto simp: metadata_fields_def demo_prepared_event_def bytes_of_def intro!: ascii_is_str)
  from outbox_intent_exact[OF demo_outbox_ok this, of 100] show ?thesis
    by (auto simp: metadata_fields_def demo_prepared_event_def)
qed

subsection \<open>From the intent to the broker\<close>

definition intent_codec_ok :: "'t outbox_lib \<Rightarrow> bool" where
  "intent_codec_ok lib \<longleftrightarrow>
     (\<forall>x. b64_decode (xl_codec lib) (b64_encode (xl_codec lib) x) = Some x) \<and>
     (\<forall>t. xl_from_unix lib (xl_unix_seconds lib t) (xl_nanosecond lib t) = Some t)"

lemma intent_roundtrip:
  assumes "intent_codec_ok lib" "event_ok tlib e" "xl_is_json lib (ev_payload e)"
  shows "stored_prepared lib tlib (intent_of lib e) = Some e"
  using assms
  by (simp add: stored_prepared_def intent_of_def metadata_def empty_metadata_def intent_codec_ok_def event_ok_def
      validate_prepared_def validate_text_def format_timestamp_def Let_def)

text \<open>
  C16. A stored intent publishes its event. A job completes only when the broker holds the message, and the
  message decodes to the identity, type, version, time and payload of the event that was enqueued. Every
  other end of an attempt is retryable, so that no attempt gives the event up.
\<close>

theorem outbox_publishes_event:
  assumes codec: "intent_codec_ok lib" and lib: "time_lib_ok tlib" "event_ok tlib e" "xl_is_json lib (ev_payload e)"
    and broker: "broker_honest env deadline"
    and out: "publisher_publish lib tlib sh sets env deadline (intent_of lib e) = out"
  shows "(op_answer out = Some (Inr ()) \<longrightarrow> pe_stored env \<and>
      (\<exists>subject hs payload. op_sent out = Some (subject, hs, payload) \<and>
         decode_envelope tlib subject hs payload =
           Inr \<lparr>ie_message_id = ev_message_id e, ie_event_type = ev_event_type e, ie_schema_version = ev_schema_version e,
                ie_occurred_at = ev_occurred_at e, ie_payload = ev_payload e\<rparr>)) \<and>
    (\<forall>err. op_answer out = Some (Inl err) \<longrightarrow> \<not> is_permanent err)"
proof -
  let ?pub = "producer_publish sh sets env e deadline"
  note truth = publish_truth[OF broker refl lib(1,2), of sh sets]
  have out': "op_answer out = map_option (\<lambda>r. case r of Inl f \<Rightarrow> Inl (retryable (publish_failure_text f)) | Inr _ \<Rightarrow> Inr ()) (pb_result ?pub)"
    "op_sent out = pb_sent ?pub"
    using out by (auto simp: publisher_publish_def intent_roundtrip[OF codec lib(2,3)] Let_def)
  have "\<exists>ack. pb_result ?pub = Some (Inr ack)" if "op_answer out = Some (Inr ())"
    using that unfolding out' by (cases "pb_result ?pub") (auto simp: map_option_case split: sum.splits option.splits)
  moreover have "\<not> is_permanent err" if "op_answer out = Some (Inl err)" for err
    using that unfolding out' by (auto simp: is_permanent_def retryable_def map_option_case split: sum.splits option.splits)
  ultimately show ?thesis using truth unfolding out'(2) by fastforce
qed

definition demo_roundtrip_outbox :: "nat outbox_lib" where
  "demo_roundtrip_outbox = demo_outbox\<lparr>xl_codec := \<lparr>b64_encode = (\<lambda>x. x), b64_decode = Some\<rparr>\<rparr>"

theorem outbox_publishes_event_witness:
  "\<exists>subject hs payload.
     publisher_publish demo_roundtrip_outbox demo_time demo_shared demo_sets demo_publication 9
       (intent_of demo_roundtrip_outbox demo_prepared_event) = \<lparr>op_answer = Some (Inr ()), op_sent = Some (subject, hs, payload)\<rparr> \<and>
     is_ok (decode_envelope demo_time subject hs payload)"
proof -
  have codec: "intent_codec_ok demo_roundtrip_outbox" "xl_is_json demo_roundtrip_outbox (ev_payload demo_prepared_event)"
    by (simp_all add: intent_codec_ok_def demo_roundtrip_outbox_def demo_outbox_def)
  let ?out = "publisher_publish demo_roundtrip_outbox demo_time demo_shared demo_sets demo_publication 9
      (intent_of demo_roundtrip_outbox demo_prepared_event)"
  have "op_answer ?out = Some (Inr ())"
    by (simp add: publisher_publish_def intent_roundtrip[OF codec(1) demo_prepared_ok codec(2)] demo_publish Let_def)
  with outbox_publishes_event[OF codec(1) demo_time_ok demo_prepared_ok codec(2) demo_honest refl, of demo_shared "demo_sets"]
  show ?thesis by (cases ?out) auto
qed

subsection \<open>The event with the caller's data\<close>

text \<open>The row of an event's job, and a live row that already holds the same intent.\<close>

definition event_row :: "'t outbox_ctx \<Rightarrow> 'd outbox_env \<Rightarrow> 't prepared_event \<Rightarrow> job_row \<Rightarrow> bool" where
  "event_row ctx env e row \<longleftrightarrow>
     (\<exists>p. prepare (xc_is_utf8 ctx) OUTBOX_KIND (xc_serialize ctx (intent_of (xc_lib ctx) e)) (outbox_options ctx e) = Inr p \<and>
        row = new_row (xc_jsonb ctx) (ee_now (xe_enqueue env)) (ee_job_id (xe_enqueue env)) OUTBOX_KIND p
                (fst (ee_trace (xe_enqueue env))) (snd (ee_trace (xe_enqueue env))))"

definition holds_intent :: "'t outbox_ctx \<Rightarrow> 't prepared_event \<Rightarrow> job_row \<Rightarrow> bool" where
  "holds_intent ctx e r \<longleftrightarrow>
     (\<exists>p. prepare (xc_is_utf8 ctx) OUTBOX_KIND (xc_serialize ctx (intent_of (xc_lib ctx) e)) (outbox_options ctx e) = Inr p \<and>
        live_holder OUTBOX_KIND (prep_unique_key p) r \<and> xc_jsonb_eq ctx (j_payload r) (prep_payload p))"

definition answered :: "outbox_error + outbox_enqueued \<Rightarrow> ('d, 'x, outbox_enqueued, outbox_error + tx_error) work" where
  "answered res = Return (case res of Inl err \<Rightarrow> Inl (Inl err) | Inr x \<Rightarrow> Inr x)"

lemma prepare_intent_Inr:
  "prepare_outbox_intent lib e polls = Some (Some (Inr intent)) \<Longrightarrow> intent = intent_of lib e"
  by (auto simp: prepare_outbox_intent_def bind_result_Inr split: if_splits sum.splits)

lemma compare_work_run:
  assumes "run_work (compare_work ctx env e answered :: ('u hook_data, 'x hook_row, outbox_enqueued, outbox_error + tx_error) work)
      \<lparr>session = Active (u, rc, q), not_aborted = True\<rparr> = (r, h)"
  shows "(\<exists>err. r = Inl err) \<or>
    (r = Inr OutboxDuplicate \<and> session h = Active (u, rc, q) \<and> (\<exists>row \<in> set (rows (xe_seen env q)). holds_intent ctx e row))"
proof (cases "prepare (xc_is_utf8 ctx) OUTBOX_KIND (xc_serialize ctx (intent_of (xc_lib ctx) e)) (outbox_options ctx e)")
  case (Inl err)
  with assms show ?thesis by (auto simp: compare_work_def answered_def)
next
  case (Inr p)
  note run = assms[unfolded compare_work_def Inr, simplified]
  show ?thesis
  proof (cases "xe_compare_fault env")
    case (Some x)
    with run show ?thesis by (cases x) (auto simp: answered_def)
  next
    case None
    show ?thesis
    proof (cases "find (live_holder OUTBOX_KIND (prep_unique_key p)) (rows (xe_seen env q))")
      case None': None
      with run None show ?thesis by (auto simp: answered_def compare_statement_def)
    next
      case (Some row)
      then have row: "row \<in> set (rows (xe_seen env q))" "live_holder OUTBOX_KIND (prep_unique_key p) row"
        by (auto simp: find_Some_iff)
      then have "xc_jsonb_eq ctx (j_payload row) (prep_payload p) \<Longrightarrow> holds_intent ctx e row"
        using Inr by (auto simp: holds_intent_def)
      with run None Some row(1) show ?thesis
        by (cases "xc_jsonb_eq ctx (j_payload row) (prep_payload p)") (auto simp: answered_def compare_statement_def)
    qed
  qed
qed

lemma outbox_enqueue_run:
  assumes w: "outbox_enqueue ctx env e polls answered =
      Some (w :: ('u hook_data, 'x hook_row, outbox_enqueued, outbox_error + tx_error) work)"
    and run: "run_work w \<lparr>session = Active (u, rc, q), not_aborted = True\<rparr> = (r, h)"
  shows "(\<exists>err. r = Inl err) \<or>
    (r = Inr OutboxCreated \<and> (\<exists>row. event_row ctx env e row \<and> session h = Active (u, rc, q\<lparr>rows := rows q @ [row]\<rparr>))) \<or>
    (r = Inr OutboxDuplicate \<and> session h = Active (u, rc, q) \<and> (\<exists>row \<in> set (rows (xe_seen env q)). holds_intent ctx e row))"
proof -
  let ?rest = "\<lambda>res. case res of Inl err \<Rightarrow> answered (Inl (OutboxJobs err)) | Inr (Created _) \<Rightarrow> answered (Inr OutboxCreated)
    | Inr Duplicate \<Rightarrow> (compare_work ctx env e answered :: ('u hook_data, 'x hook_row, outbox_enqueued, outbox_error + tx_error) work)"
  consider err where "w = answered (Inl err)"
    | "w = enqueue_work (xc_is_utf8 ctx) (xc_jsonb ctx) (xe_enqueue env) OUTBOX_KIND
        (xc_serialize ctx (intent_of (xc_lib ctx) e)) (outbox_options ctx e) ?rest"
    using w by (auto simp: outbox_enqueue_def split: option.splits sum.splits dest!: prepare_intent_Inr)
  then show ?thesis
  proof cases
    case 1
    with run show ?thesis by (auto simp: answered_def)
  next
    case 2
    note run = run[unfolded 2]
    from run show ?thesis
    proof (cases rule: enqueue_work_cases)
      case (failed err h')
      then show ?thesis by (auto simp: answered_def)
    next
      case (present p)
      then show ?thesis using compare_work_run[of ctx env e u rc q r h] by auto
    next
      case (created p)
      then show ?thesis by (auto simp: answered_def event_row_def)
    qed
  qed
qed

text \<open>The caller changes its own data and enqueues the event in one work.\<close>

definition change_with_event ::
  "('u \<Rightarrow> 'u) \<Rightarrow> ('u hook_data, 'x hook_row, 'r, 'e) work \<Rightarrow> ('u hook_data, 'x hook_row, 'r, 'e) work" where
  "change_with_event g w = FetchMany (\<lambda>(u, rc, q). ([], Inr (g u, rc, q))) 1 (\<lambda>_. w)"

lemma change_with_event_run:
  "run_work (change_with_event g w) \<lparr>session = Active (u, rc, q), not_aborted = True\<rparr> =
     run_work w \<lparr>session = Active (g u, rc, q), not_aborted = True\<rparr>"
  by (simp add: change_with_event_def fetch_many_def respond_def)

text \<open>
  C6. The transactional outbox. However the caller's transaction ends, its change is kept only together
  with the event: with a new job that holds exactly the event's intent, or, for a repeated identity, with a live
  job that holds an equal one. \<open>Created\<close> and \<open>Duplicate\<close> are answered only when that is what the database
  keeps; a different event under a live identity, or a live job that is gone when it is compared, keeps
  nothing.
\<close>

theorem outbox_with_change:
  fixes w :: "('u hook_data, 'x hook_row, outbox_enqueued, outbox_error + tx_error) work"
  assumes honest: "commit_codes_honest (commit_answer i)" and w: "outbox_enqueue ctx env e polls answered = Some w"
    and tx: "transaction Inr \<lparr>isolation = level, read_only = False\<rparr> i (u, rc, q) (change_with_event g w) = out"
  shows "(tx_data out = (u, rc, q) \<or>
      (\<exists>row. event_row ctx env e row \<and> tx_data out = (g u, rc, q\<lparr>rows := rows q @ [row]\<rparr>)) \<or>
      (tx_data out = (g u, rc, q) \<and> (\<exists>row \<in> set (rows (xe_seen env q)). holds_intent ctx e row))) \<and>
    (tx_answer out = Some (Inr OutboxCreated) \<longrightarrow>
      (\<exists>row. event_row ctx env e row \<and> tx_data out = (g u, rc, q\<lparr>rows := rows q @ [row]\<rparr>))) \<and>
    (tx_answer out = Some (Inr OutboxDuplicate) \<longrightarrow>
      tx_data out = (g u, rc, q) \<and> (\<exists>row \<in> set (rows (xe_seen env q)). holds_intent ctx e row))"
proof -
  obtain r h where rh: "run_work w \<lparr>session = Active (g u, rc, q), not_aborted = True\<rparr> = (r, h)" by fastforce
  note run = trans[OF change_with_event_run[of g w u rc q] rh]
  note work = outbox_enqueue_run[OF w rh]
  have "tx_data out \<in> possible_ends (u, rc, q) (r, session h)"
    unfolding tx[symmetric] using honest run by (rule writing_tx.ends)
  then have "tx_data out = (u, rc, q) \<or> (is_ok r \<and> session h = Active (tx_data out))" by (auto simp: possible_ends_def)
  moreover have "r = Inr v \<and> session h = Active (tx_data out)" if "tx_answer out = Some (Inr v)" for v
    using writing_tx.success[OF honest that[unfolded tx[symmetric]] run] tx by simp
  ultimately show ?thesis using work by fastforce
qed

definition demo_outbox_ctx :: "nat outbox_ctx" where
  "demo_outbox_ctx = \<lparr>xc_lib = demo_outbox, xc_sha = (\<lambda>_. [171]), xc_is_utf8 = (\<lambda>_. True), xc_jsonb = id, xc_jsonb_eq = (=),
     xc_serialize = (\<lambda>_. \<lparr>chunks = [''7''], serialize_fails = False\<rparr>)\<rparr>"

definition demo_outbox_env :: "nat hook_data outbox_env" where
  "demo_outbox_env = \<lparr>xe_enqueue = \<lparr>ee_now = 100, ee_instant = 5, ee_job_id = JobId 1, ee_trace = (None, None),
     ee_wake_log = [(OUTBOX_KIND, 5)], ee_insert_fault = None, ee_notify_fault = None\<rparr>, xe_seen = id, xe_compare_fault = None\<rparr>"

definition demo_event_prepared :: prepared where
  "demo_event_prepared = \<lparr>prep_payload = ''7'', prep_unique_key = Some (ascii ''event-ab''), prep_delay_micros = 0\<rparr>"

lemma demo_event_key: "event_key (\<lambda>_. [171]) m = ascii ''event-ab''"
  by (simp add: event_key_def prefixed_digest_hex_def hex_digit_def bytes_of_def ascii_def)

lemma demo_event_prepare:
  "prepare (xc_is_utf8 demo_outbox_ctx) OUTBOX_KIND (xc_serialize demo_outbox_ctx i) (outbox_options demo_outbox_ctx e) = Inr demo_event_prepared"
proof -
  have "is_valid_kind_name OUTBOX_KIND" "valid_unique_key (ascii ''event-ab'')" by code_simp+
  then show ?thesis
    by (simp add: demo_outbox_ctx_def outbox_options_def demo_event_key prepare_def checked_delay_micros_def MAX_DELAY_def
        time_units i64_max_def as_micros_def to_writer_def writer_default_def writer_write_def usize_max_def
        MAX_PAYLOAD_BYTES_def demo_event_prepared_def u64_max_def Let_def)
qed

lemma demo_intent: "prepare_outbox_intent demo_outbox demo_prepared_event 100 = Some (Some (Inr (intent_of demo_outbox demo_prepared_event)))"
proof -
  have strs: "\<forall>s \<in> set (metadata_fields demo_prepared_event). is_str s"
    by (auto simp: metadata_fields_def demo_prepared_event_def bytes_of_def intro!: ascii_is_str)
  have "length (decimal 7) = 1" "length (decimal 2) = 1" "length (decimal 0) = 1" "length (decimal 1) = 1"
    by (simp_all add: decimal.simps)
  then have "length (intent_json (\<lambda>b. [b]) (intent_of demo_outbox demo_prepared_event)) \<le> MAX_PAYLOAD_BYTES"
    by (simp add: intent_json_def intent_of_def metadata_def empty_metadata_def demo_outbox_def demo_codec_def demo_prepared_event_def
        signed_decimal_def FORMAT_VERSION_def MAX_PAYLOAD_BYTES_def)
  with intent_exact[OF demo_outbox_ok strs, of 100] show ?thesis
    by (auto simp: metadata_fields_def demo_prepared_event_def)
qed

theorem outbox_with_change_witness:
  "\<exists>(w :: (nat hook_data, unit hook_row, outbox_enqueued, outbox_error + tx_error) work) row.
     outbox_enqueue demo_outbox_ctx demo_outbox_env demo_prepared_event 100 answered = Some w \<and>
     tx_data (transaction Inr \<lparr>isolation = ReadCommitted, read_only = False\<rparr> demo_hook_inputs (3, Map.empty, empty_queue)
       (change_with_event Suc w)) = (4, Map.empty, empty_queue\<lparr>rows := [row]\<rparr>)"
proof -
  let ?row = "new_row id 100 (JobId 1) OUTBOX_KIND demo_event_prepared None None"
  obtain w :: "(nat hook_data, unit hook_row, outbox_enqueued, outbox_error + tx_error) work" where
    w: "outbox_enqueue demo_outbox_ctx demo_outbox_env demo_prepared_event 100 answered = Some w"
    using demo_intent by (simp add: outbox_enqueue_def demo_outbox_ctx_def)
  have ins: "insert_job ?row empty_queue = Inr (empty_queue\<lparr>rows := [?row]\<rparr>, Created (JobId 1))"
    by (simp add: insert_job_def empty_queue_def install_def row_ok_def new_row_def live_keys_def demo_event_prepared_def)
  have not_due: "fst (wake_due [(OUTBOX_KIND, 5)] OUTBOX_KIND 5) = False"
    by (simp add: duration_since_def WAKE_INTERVAL_def time_units)
  have lib: "xc_lib demo_outbox_ctx = demo_outbox" "xc_jsonb demo_outbox_ctx = id" by (simp_all add: demo_outbox_ctx_def)
  have run: "run_work w \<lparr>session = Active (4, Map.empty, empty_queue), not_aborted = True\<rparr> =
      (Inr OutboxCreated, \<lparr>session = Active (4, Map.empty, empty_queue\<lparr>rows := [?row]\<rparr>), not_aborted = True\<rparr>)"
    using w ins not_due
    by (auto simp: outbox_enqueue_def lib demo_intent enqueue_work_def demo_event_prepare demo_outbox_env_def insert_job_statement_def
        answered_def)
  let ?tx = "transaction Inr \<lparr>isolation = ReadCommitted, read_only = False\<rparr> demo_hook_inputs (3, Map.empty, empty_queue) (change_with_event Suc w)"
  have created: "tx_answer ?tx = Some (Inr OutboxCreated)"
    using run change_with_event_run[of Suc w 3 Map.empty empty_queue]
    by (simp add: transaction_def demo_hook_inputs_def end_phase_def commit_phase_def commit_session_def)
  have h: "commit_codes_honest (commit_answer demo_hook_inputs)" by (simp add: demo_hook_inputs_def commit_codes_honest_def)
  from outbox_with_change[OF h w refl, of ReadCommitted 3 Map.empty empty_queue Suc] created
  obtain row where "tx_data ?tx = (Suc 3, Map.empty, empty_queue\<lparr>rows := rows empty_queue @ [row]\<rparr>)" by blast
  with w show ?thesis by (auto simp: empty_queue_def)
qed

end
