(* ===== verification/Bearer.thy ===== *)
theory Bearer
  imports Prelude
begin

text \<open>
  \<open>crates/infra-bearerauthn/src/bearer.rs\<close>: the bearer envelope of one request. Header values are
  byte lists, in the order the transport has them; a token is the list of its ASCII bytes.
\<close>

datatype authn_failure = Missing | Malformed | Invalid | Unavailable

text \<open>\<open>u8::is_ascii_alphanumeric\<close> and \<open>eq_ignore_ascii_case\<close> of byte slices.\<close>

definition ascii_alphanumeric :: "8 word \<Rightarrow> bool" where
  "ascii_alphanumeric b = ((0x30 \<le> b \<and> b \<le> 0x39) \<or> (0x41 \<le> b \<and> b \<le> 0x5A) \<or> (0x61 \<le> b \<and> b \<le> 0x7A))"

definition lower_byte :: "8 word \<Rightarrow> 8 word" where
  "lower_byte b = (if 0x41 \<le> b \<and> b \<le> 0x5A then b + 0x20 else b)"

definition same_ignoring_case :: "bytes \<Rightarrow> bytes \<Rightarrow> bool" where
  "same_ignoring_case a b = (map lower_byte a = map lower_byte b)"

text \<open>\<open>char::is_whitespace\<close>; \<open>trim\<close> leaves nothing of a text exactly when all its characters are.\<close>

definition is_whitespace :: "nat \<Rightarrow> bool" where
  "is_whitespace c =
     ((9 \<le> c \<and> c \<le> 13) \<or> c = 32 \<or> c = 0x85 \<or> c = 0xA0 \<or> c = 0x1680 \<or> (0x2000 \<le> c \<and> c \<le> 0x200A) \<or>
      c = 0x2028 \<or> c = 0x2029 \<or> c = 0x202F \<or> c = 0x205F \<or> c = 0x3000)"

definition is_tchar :: "8 word \<Rightarrow> bool" where
  "is_tchar b = (ascii_alphanumeric b \<or>
     b \<in> set [0x21, 0x23, 0x24, 0x25, 0x26, 0x27, 0x2A, 0x2B, 0x2D, 0x2E, 0x5E, 0x5F, 0x60, 0x7C, 0x7E])"

definition b64_byte :: "8 word \<Rightarrow> bool" where
  "b64_byte b = (ascii_alphanumeric b \<or> b \<in> set [0x2D, 0x2E, 0x5F, 0x7E, 0x2B, 0x2F])"

definition valid_token :: "bytes \<Rightarrow> bool" where
  "valid_token token =
     (let padding = length (takeWhile (\<lambda>b. b = 0x3D) (rev token));
          val = take (length token - padding) token
      in val \<noteq> [] \<and> fold (\<lambda>b valid. valid \<and> b64_byte b) val True)"

definition BEARER :: bytes where "BEARER = bytes_of ''Bearer''"

text \<open>
  The slices before and from the first space, and the credentials after the run of spaces. The
  conversion of the credentials to a \<open>str\<close> cannot fail, the token alphabet being ASCII.
\<close>

definition parse_bearer :: "bytes list \<Rightarrow> authn_failure + bytes" where
  "parse_bearer headers =
     (case headers of
        [] \<Rightarrow> Inl Missing
      | header # more \<Rightarrow>
          if more \<noteq> [] then Inl Malformed
          else
            let scheme = takeWhile (\<lambda>b. b \<noteq> 0x20) header;
                rest = drop (length scheme) header
            in if scheme = [] \<or> \<not> list_all is_tchar scheme then Inl Malformed
               else if \<not> same_ignoring_case scheme BEARER then Inl Missing
               else
                 let credentials = dropWhile (\<lambda>b. b = 0x20) rest
                 in if \<not> valid_token credentials then Inl Malformed
                    else Inr credentials)"

subsection \<open>The grammar\<close>

text \<open>RFC 6750: \<open>b64token\<close> and \<open>credentials\<close>, as the shape of the whole text.\<close>

definition b64token :: "bytes \<Rightarrow> bool" where
  "b64token t = (\<exists>v n. t = v @ replicate n 0x3D \<and> v \<noteq> [] \<and> (\<forall>b \<in> set v. b64_byte b))"

definition auth_scheme :: "bytes \<Rightarrow> bool" where
  "auth_scheme s = (s \<noteq> [] \<and> (\<forall>b \<in> set s. is_tchar b))"

definition bearer_scheme :: "bytes \<Rightarrow> bool" where
  "bearer_scheme s = (map lower_byte s = bytes_of ''bearer'')"

lemma fold_all: "fold (\<lambda>b valid. valid \<and> p b) xs acc = (acc \<and> list_all p xs)"
  by (induction xs arbitrary: acc) auto

lemma takeWhile_replicate_stop:
  "takeWhile (\<lambda>x. x = a) (replicate n a @ xs) = replicate n a @ takeWhile (\<lambda>x. x = a) xs"
  by (induction n) simp_all

lemma b64_byte_range: "\<not> b64_byte 0x3D" "\<not> b64_byte 0x20" "\<not> is_tchar 0x20"
  by (simp_all add: b64_byte_def is_tchar_def ascii_alphanumeric_def)

lemma takeWhile_same: "takeWhile (\<lambda>b. b = a) xs = replicate (length (takeWhile (\<lambda>b. b = a) xs)) a"
  by (rule replicate_length_same[symmetric]) (auto dest: set_takeWhileD)

lemma rev_padding:
  assumes n_def: "n = length (takeWhile (\<lambda>b. b = a) (rev t))"
  shows "t = take (length t - n) t @ replicate n a"
proof -
  let ?p = "takeWhile (\<lambda>b. b = a) (rev t)"
  have "rev t = ?p @ dropWhile (\<lambda>b. b = a) (rev t)" by simp
  then have t: "t = rev (dropWhile (\<lambda>b. b = a) (rev t)) @ rev ?p" by (metis rev_append rev_rev_ident)
  have r: "rev ?p = replicate n a" unfolding n_def by (metis rev_replicate takeWhile_same)
  from t have "length t = length (rev (dropWhile (\<lambda>b. b = a) (rev t))) + n" unfolding n_def by (metis length_append length_rev)
  with t r show ?thesis by (metis add_diff_cancel_right' append_eq_conv_conj)
qed

lemma valid_token_iff: "valid_token t \<longleftrightarrow> b64token t"
proof
  assume "valid_token t"
  then show "b64token t" using rev_padding[where t = t and a = "0x3D", OF refl]
    by (auto simp: valid_token_def b64token_def Let_def fold_all list_all_iff)
next
  assume "b64token t"
  then obtain v n where t: "t = v @ replicate n 0x3D" "v \<noteq> []" "\<forall>b \<in> set v. b64_byte b"
    by (auto simp: b64token_def)
  then have "b64_byte (last v)" by simp
  then have "last v \<noteq> 0x3D" using b64_byte_range(1) by metis
  then have "takeWhile (\<lambda>b. b = 0x3D) (rev v) = []" using t(2) by (cases v rule: rev_cases) auto
  then have "takeWhile (\<lambda>b. b = 0x3D) (rev t) = replicate n 0x3D"
    by (simp add: t(1) takeWhile_replicate_stop)
  with t show "valid_token t" by (simp add: valid_token_def fold_all list_all_iff)
qed

lemma b64token_head: "b64token t \<Longrightarrow> t \<noteq> [] \<and> hd t \<noteq> 0x20"
  by (auto simp: b64token_def hd_append b64_byte_range dest: hd_in_set) (metis b64_byte_range(2) hd_in_set)

lemma scheme_no_space: "auth_scheme s \<Longrightarrow> b \<in> set s \<Longrightarrow> b \<noteq> 0x20"
  using b64_byte_range(3) by (auto simp: auth_scheme_def)

lemma takeWhile_scheme:
  assumes "auth_scheme s" "rest = [] \<or> hd rest = 0x20"
  shows "takeWhile (\<lambda>b. b \<noteq> 0x20) (s @ rest) = s"
  using assms scheme_no_space[OF assms(1)] by (cases rest) (auto simp: takeWhile_append)

lemma bearer_lower: "same_ignoring_case s BEARER \<longleftrightarrow> bearer_scheme s"
  by (simp add: same_ignoring_case_def bearer_scheme_def lower_byte_def BEARER_def)

lemma parse_bearer_one:
  "parse_bearer [h] =
     (let s = takeWhile (\<lambda>b. b \<noteq> 0x20) h; c = dropWhile (\<lambda>b. b = 0x20) (dropWhile (\<lambda>b. b \<noteq> 0x20) h)
      in if \<not> auth_scheme s then Inl Malformed else if \<not> bearer_scheme s then Inl Missing
         else if \<not> b64token c then Inl Malformed else Inr c)"
  by (auto simp: parse_bearer_def Let_def bearer_lower valid_token_iff auth_scheme_def list_all_iff dropWhile_eq_drop)

lemma header_split:
  "h = takeWhile (\<lambda>b. b \<noteq> 0x20) h @ dropWhile (\<lambda>b. b \<noteq> 0x20) h"
  "dropWhile (\<lambda>b. b \<noteq> 0x20) h = [] \<or> hd (dropWhile (\<lambda>b. b \<noteq> (0x20 :: 8 word)) h) = 0x20"
  using hd_dropWhile[of "\<lambda>b. b \<noteq> 0x20" h] by auto

lemma parse_bearer_shape:
  assumes "parse_bearer [h] = Inr t"
  obtains s n where "h = s @ replicate (Suc n) 0x20 @ t" "auth_scheme s" "bearer_scheme s" "b64token t"
proof -
  let ?s = "takeWhile (\<lambda>b. b \<noteq> 0x20) h" and ?r = "dropWhile (\<lambda>b. b \<noteq> 0x20) h"
  from assms have c: "auth_scheme ?s" "bearer_scheme ?s" "t = dropWhile (\<lambda>b. b = 0x20) ?r" "b64token t"
    by (auto simp: parse_bearer_one Let_def split: if_splits)
  have sp: "?r = replicate (length (takeWhile (\<lambda>b. b = 0x20) ?r)) 0x20 @ t"
    using c(3) by (metis takeWhile_same takeWhile_dropWhile_id)
  from b64token_head[OF c(4)] c(3) header_split(2)[of h] have "takeWhile (\<lambda>b. b = 0x20) ?r \<noteq> []"
    by (cases ?r) auto
  then obtain n where "length (takeWhile (\<lambda>b. b = 0x20) ?r) = Suc n"
    by (cases "length (takeWhile (\<lambda>b. b = 0x20) ?r)") auto
  with sp header_split(1)[of h] have "h = ?s @ replicate (Suc n) 0x20 @ t" by metis
  with c that show ?thesis by blast
qed

lemma parse_bearer_spelled:
  assumes "auth_scheme s" "bearer_scheme s" "b64token t"
  shows "parse_bearer [s @ replicate (Suc n) 0x20 @ t] = Inr t"
proof -
  have tw: "takeWhile (\<lambda>b. b \<noteq> 0x20) (s @ replicate (Suc n) 0x20 @ t) = s"
    by (rule takeWhile_scheme[OF assms(1)]) simp
  then have dw: "dropWhile (\<lambda>b. b \<noteq> 0x20) (s @ replicate (Suc n) 0x20 @ t) = replicate (Suc n) 0x20 @ t"
    by (simp add: dropWhile_eq_drop)
  have "dropWhile (\<lambda>b. b = 0x20) (replicate (Suc n) 0x20 @ t) = t"
    using b64token_head[OF assms(3)] by (cases t) (simp_all add: dropWhile_append)
  with assms tw dw show ?thesis by (simp add: parse_bearer_one Let_def del: replicate_Suc)
qed

lemma parse_bearer_foreign:
  "parse_bearer [h] = Inl Missing \<longleftrightarrow>
     (\<exists>s rest. h = s @ rest \<and> auth_scheme s \<and> \<not> bearer_scheme s \<and> (rest = [] \<or> hd rest = 0x20))"
proof -
  let ?s = "takeWhile (\<lambda>b. b \<noteq> 0x20) h"
  have "parse_bearer [h] = Inl Missing \<longleftrightarrow> auth_scheme ?s \<and> \<not> bearer_scheme ?s"
    by (simp add: parse_bearer_one Let_def)
  also have "\<dots> \<longleftrightarrow> (\<exists>s rest. h = s @ rest \<and> auth_scheme s \<and> \<not> bearer_scheme s \<and> (rest = [] \<or> hd rest = 0x20))"
    using header_split[of h] takeWhile_scheme by metis
  finally show ?thesis .
qed

lemma parse_bearer_token:
  "parse_bearer hs = Inr t \<longleftrightarrow>
     (\<exists>s n. hs = [s @ replicate (Suc n) 0x20 @ t] \<and> auth_scheme s \<and> bearer_scheme s \<and> b64token t)"
proof (cases "\<exists>h. hs = [h]")
  case True
  then show ?thesis using parse_bearer_shape[of _ t] parse_bearer_spelled[of _ t] by blast
next
  case False
  then have "parse_bearer hs \<noteq> Inr t" by (auto simp: parse_bearer_def split: list.splits)
  with False show ?thesis by blast
qed

text \<open>
  C22. The spelling of an \<open>Authorization\<close> field decides its parse. A token is returned exactly for one header value that
  is the scheme \<open>Bearer\<close> in any case, at least one space and the token, the token of the \<open>b64token\<close>
  grammar; no other text around them is admitted and the token is returned unchanged. Bearer
  evidence counts as missing exactly for no header value at all or for one value of another well-formed
  scheme, whatever its credentials; every other input is malformed.
\<close>

theorem parse_bearer_exact:
  "(parse_bearer hs = Inr t \<longleftrightarrow>
     (\<exists>s n. hs = [s @ replicate (Suc n) 0x20 @ t] \<and> auth_scheme s \<and> bearer_scheme s \<and> b64token t)) \<and>
   (parse_bearer hs = Inl Missing \<longleftrightarrow>
     hs = [] \<or> (\<exists>s rest. hs = [s @ rest] \<and> auth_scheme s \<and> \<not> bearer_scheme s \<and> (rest = [] \<or> hd rest = 0x20))) \<and>
   parse_bearer hs \<noteq> Inl Invalid \<and> parse_bearer hs \<noteq> Inl Unavailable"
proof (cases "\<exists>h. hs = [h]")
  case False
  then have "hs = [] \<or> (\<exists>a b r. hs = a # b # r)" by (metis neq_Nil_conv)
  then show ?thesis unfolding parse_bearer_token by (auto simp: parse_bearer_def)
next
  case True
  then obtain h where h: "hs = [h]" by blast
  have "parse_bearer hs \<noteq> Inl Invalid \<and> parse_bearer hs \<noteq> Inl Unavailable"
    using h by (simp add: parse_bearer_one Let_def)
  moreover have "parse_bearer hs = Inl Missing \<longleftrightarrow>
     hs = [] \<or> (\<exists>s rest. hs = [s @ rest] \<and> auth_scheme s \<and> \<not> bearer_scheme s \<and> (rest = [] \<or> hd rest = 0x20))"
    using h parse_bearer_foreign[of h] by simp
  ultimately show ?thesis using parse_bearer_token by blast
qed

end
