(* ===== verification/BearerClaims.thy ===== *)
theory BearerClaims
  imports Bearer Complex_Main "HOL-Library.List_Lexorder" "HOL-Library.Monad_Syntax"
begin

text \<open>
  \<open>crates/infra-bearerauthn/src/claims.rs\<close> and the types of \<open>lib.rs\<close> that it fills: typed claim decoding, the
  checks of registered claims, the token profile, scopes and the actor.

  \<open>serde_json\<close> is met as a parameter from a text to the tree of values it hands to the visitors; the visitors, which are
  this crate's, are defined on the tree. A finite float is the rational it denotes.
  Unix seconds are \<^typ>\<open>nat\<close> with the saturating addition of \<open>u64\<close>.
\<close>

subsection \<open>Errors and identities\<close>

datatype provider_failure =
    ProviderTimeout | ProviderConnect | ProviderStatus nat | ProviderMediaType | ProviderTooLarge | ProviderTransfer

datatype verification_reason =
    MissingClaim | MalformedClaims | IssuerReason | AudienceReason | ExpiredReason | NotYetValid | ScopeReason
  | ClockReason | HeaderReason | AlgorithmReason | ProfileReason | SignatureReason | UnknownKey | RefreshReason
  | ProviderReason provider_failure | Inactive | CapacityReason

record verification_error =
  ve_failure :: authn_failure
  ve_reason :: verification_reason

definition invalid :: "verification_reason \<Rightarrow> verification_error" where
  "invalid r = \<lparr>ve_failure = Invalid, ve_reason = r\<rparr>"

definition unavailable_trust :: "verification_reason \<Rightarrow> verification_error" where
  "unavailable_trust r = \<lparr>ve_failure = Unavailable, ve_reason = r\<rparr>"

record actor =
  ac_subject :: bytes
  ac_client_id :: "bytes option"

record identity =
  id_issuer :: bytes
  id_subject :: "bytes option"
  id_client_id :: "bytes option"
  id_scopes :: "bytes list"
  id_payload :: bytes
  id_access_token :: bytes
  id_actor :: "actor option"

record principal =
  pr_identity :: identity
  expiry_epoch_seconds :: nat

subsection \<open>Values of a JSON text\<close>

datatype json =
    JNull | JBool bool | JUInt "64 word" | JNeg int | JFloat rat | JStr bytes | JArr "json list" | JObj "(bytes \<times> json) list"

datatype claim_values = One bytes | Many "bytes list"

fun as_str :: "json \<Rightarrow> bytes option" where
  "as_str (JStr s) = Some s"
| "as_str _ = None"

fun as_u64 :: "json \<Rightarrow> nat option" where
  "as_u64 (JUInt n) = Some (unat n)"
| "as_u64 _ = None"

fun as_bool :: "json \<Rightarrow> bool option" where
  "as_bool (JBool b) = Some b"
| "as_bool _ = None"

text \<open>\<open>Values\<close>: a string, or an array whose elements are all strings.\<close>

fun as_strs :: "json list \<Rightarrow> bytes list option" where
  "as_strs [] = Some []"
| "as_strs (v # vs) = do { s \<leftarrow> as_str v; ss \<leftarrow> as_strs vs; Some (s # ss) }"

fun as_values :: "json \<Rightarrow> claim_values option" where
  "as_values (JStr s) = Some (One s)"
| "as_values (JArr vs) = map_option Many (as_strs vs)"
| "as_values _ = None"

text \<open>\<open>NumericDate\<close>: \<open>f64::round\<close> rounds halves away from zero and the cast to \<open>u64\<close> saturates.\<close>

fun numeric_date :: "json \<Rightarrow> nat option" where
  "numeric_date (JUInt n) = Some (unat n)"
| "numeric_date (JFloat r) = (if 0 \<le> r \<and> r < 2 ^ 64 then Some (min u64_max (nat \<lfloor>r + 1 / 2\<rfloor>)) else None)"
| "numeric_date _ = None"

text \<open>
  The derived decoding of a struct: from an object, where a repeated member is an error and an unknown
  one is ignored, or from an array with exactly one element per field, in their order.
\<close>

datatype member = NoMember | BadMember | Member json

definition struct_member :: "string list \<Rightarrow> json \<Rightarrow> string \<Rightarrow> member" where
  "struct_member names j n =
     (case j of
        JObj ms \<Rightarrow>
          (case map snd (filter (\<lambda>m. fst m = bytes_of n) ms) of [] \<Rightarrow> NoMember | [v] \<Rightarrow> Member v | _ \<Rightarrow> BadMember)
      | JArr vs \<Rightarrow>
          if length vs = length names
          then (case map_of (zip names vs) n of None \<Rightarrow> BadMember | Some v \<Rightarrow> Member v) else BadMember
      | _ \<Rightarrow> BadMember)"

text \<open>A required field, an \<open>Option\<close> field (null is absent), and one with a default and a decoder of its own.\<close>

definition required_field :: "(json \<Rightarrow> 'a option) \<Rightarrow> member \<Rightarrow> 'a option" where
  "required_field decode m = (case m of Member v \<Rightarrow> decode v | _ \<Rightarrow> None)"

definition optional_field :: "(json \<Rightarrow> 'a option) \<Rightarrow> member \<Rightarrow> 'a option option" where
  "optional_field decode m =
     (case m of
        NoMember \<Rightarrow> Some None
      | BadMember \<Rightarrow> None
      | Member v \<Rightarrow> if v = JNull then Some None else map_option Some (decode v))"

definition present_field :: "(json \<Rightarrow> 'a option) \<Rightarrow> member \<Rightarrow> 'a option option" where
  "present_field decode m =
     (case m of NoMember \<Rightarrow> Some None | BadMember \<Rightarrow> None | Member v \<Rightarrow> map_option Some (decode v))"

record raw_act =
  ra_sub :: bytes
  ra_client_id :: "bytes option"

definition as_raw_act :: "json \<Rightarrow> raw_act option" where
  "as_raw_act j =
     (let f = struct_member [''sub'', ''client_id''] j
      in do { s \<leftarrow> required_field as_str (f ''sub'');
              c \<leftarrow> optional_field as_str (f ''client_id'');
              Some \<lparr>ra_sub = s, ra_client_id = c\<rparr> })"

definition into_actor :: "raw_act \<Rightarrow> unit + actor" where
  "into_actor a =
     (if ra_sub a = [] then Inl ()
      else Inr \<lparr>ac_subject = ra_sub a, ac_client_id = ra_client_id a\<rparr>)"

record jwt_claims =
  jc_iss :: "claim_values option"
  jc_aud :: "claim_values option"
  jc_exp :: "nat option"
  jc_nbf :: "nat option"
  jc_sub :: "bytes option"
  jc_client_id :: "bytes option"
  jc_azp :: "bytes option"
  jc_appid :: "bytes option"
  jc_cid :: "bytes option"
  jc_scope :: "claim_values option"
  jc_scp :: "claim_values option"
  jc_jti :: "bytes option"
  jc_iat :: "nat option"
  jc_act :: "raw_act option"

definition as_jwt_claims :: "json \<Rightarrow> jwt_claims option" where
  "as_jwt_claims j =
     (let f = struct_member [''iss'', ''aud'', ''exp'', ''nbf'', ''sub'', ''client_id'', ''azp'', ''appid'', ''cid'',
                ''scope'', ''scp'', ''jti'', ''iat'', ''act''] j
      in do { iss \<leftarrow> optional_field as_values (f ''iss'');
              aud \<leftarrow> optional_field as_values (f ''aud'');
              exp \<leftarrow> optional_field numeric_date (f ''exp'');
              nbf \<leftarrow> present_field numeric_date (f ''nbf'');
              sub \<leftarrow> optional_field as_str (f ''sub'');
              client_id \<leftarrow> optional_field as_str (f ''client_id'');
              azp \<leftarrow> optional_field as_str (f ''azp'');
              appid \<leftarrow> optional_field as_str (f ''appid'');
              cid \<leftarrow> optional_field as_str (f ''cid'');
              scope \<leftarrow> optional_field as_values (f ''scope'');
              scp \<leftarrow> optional_field as_values (f ''scp'');
              jti \<leftarrow> optional_field as_str (f ''jti'');
              iat \<leftarrow> optional_field numeric_date (f ''iat'');
              act \<leftarrow> optional_field as_raw_act (f ''act'');
              Some \<lparr>jc_iss = iss, jc_aud = aud, jc_exp = exp, jc_nbf = nbf, jc_sub = sub, jc_client_id = client_id,
                    jc_azp = azp, jc_appid = appid, jc_cid = cid, jc_scope = scope, jc_scp = scp, jc_jti = jti,
                    jc_iat = iat, jc_act = act\<rparr> })"

definition as_envelope :: "json \<Rightarrow> bool option" where
  "as_envelope j = required_field as_bool (struct_member [''active''] j ''active'')"

record active_claims =
  cl_iss :: "bytes option"
  cl_aud :: "claim_values option"
  cl_exp :: "nat option"
  cl_nbf :: "nat option"
  cl_sub :: "bytes option"
  cl_client_id :: "bytes option"
  cl_scope :: "claim_values option"
  cl_scp :: "claim_values option"
  cl_act :: "raw_act option"

definition as_active_claims :: "json \<Rightarrow> active_claims option" where
  "as_active_claims j =
     (let f = struct_member [''iss'', ''aud'', ''exp'', ''nbf'', ''sub'', ''client_id'', ''scope'', ''scp'', ''act''] j
      in do { iss \<leftarrow> optional_field as_str (f ''iss'');
              aud \<leftarrow> optional_field as_values (f ''aud'');
              exp \<leftarrow> optional_field as_u64 (f ''exp'');
              nbf \<leftarrow> optional_field as_u64 (f ''nbf'');
              sub \<leftarrow> optional_field as_str (f ''sub'');
              client_id \<leftarrow> optional_field as_str (f ''client_id'');
              scope \<leftarrow> optional_field as_values (f ''scope'');
              scp \<leftarrow> optional_field as_values (f ''scp'');
              act \<leftarrow> optional_field as_raw_act (f ''act'');
              Some \<lparr>cl_iss = iss, cl_aud = aud, cl_exp = exp, cl_nbf = nbf, cl_sub = sub, cl_client_id = client_id,
                    cl_scope = scope, cl_scp = scp, cl_act = act\<rparr> })"

subsection \<open>Checks\<close>

definition LEEWAY_SECONDS :: nat where "LEEWAY_SECONDS = 30"

definition sat_add :: "nat \<Rightarrow> nat \<Rightarrow> nat" where "sat_add a b = min (a + b) u64_max"

record claim_policy =
  cp_issuer :: bytes
  cp_audiences :: "bytes list"

text \<open>\<open>ClaimPolicy::try_new\<close>; the error of every refusal is the phase \<open>Options\<close> with the reason \<open>Parse\<close>.\<close>

definition claim_policy_new :: "bytes \<Rightarrow> bytes list \<Rightarrow> unit + claim_policy" where
  "claim_policy_new issuer audiences =
     (if audiences = [] \<or> list_ex (\<lambda>a. a = []) audiences then Inl ()
      else Inr \<lparr>cp_issuer = issuer, cp_audiences = audiences\<rparr>)"

fun contains_any :: "claim_values \<Rightarrow> bytes list \<Rightarrow> bool" where
  "contains_any (One v) accepted = list_ex (\<lambda>a. a = v) accepted"
| "contains_any (Many vs) accepted = list_ex (\<lambda>v. list_ex (\<lambda>a. a = v) accepted) vs"

definition check_lifetime :: "nat \<Rightarrow> nat option \<Rightarrow> nat \<Rightarrow> verification_error + unit" where
  "check_lifetime expiry not_before now =
     (if now > sat_add expiry LEEWAY_SECONDS then Inl (invalid ExpiredReason)
      else if (case not_before of None \<Rightarrow> False | Some nb \<Rightarrow> nb > sat_add now LEEWAY_SECONDS)
      then Inl (invalid NotYetValid)
      else Inr ())"

definition check_registered_claims ::
  "claim_values \<Rightarrow> claim_values \<Rightarrow> nat \<Rightarrow> nat option \<Rightarrow> claim_policy \<Rightarrow> nat \<Rightarrow> verification_error + unit" where
  "check_registered_claims issuer audience expiry not_before policy now =
     bind_result (check_lifetime expiry not_before now) (\<lambda>_.
     bind_result (ensured (contains_any issuer [cp_issuer policy]) (invalid IssuerReason)) (\<lambda>_.
     ensured (contains_any audience (cp_audiences policy)) (invalid AudienceReason)))"

definition non_empty :: "bytes option \<Rightarrow> bytes option" where
  "non_empty v = (case v of None \<Rightarrow> None | Some s \<Rightarrow> if s = [] then None else Some s)"

definition is_scope_token :: "bytes \<Rightarrow> bool" where
  "is_scope_token v = (v \<noteq> [] \<and> list_all (\<lambda>b. b = 0x21 \<or> (0x23 \<le> b \<and> b \<le> 0x5B) \<or> (0x5D \<le> b \<and> b \<le> 0x7E)) v)"

definition scope_pieces :: "claim_values option \<Rightarrow> bytes list" where
  "scope_pieces scope =
     (case scope of
        None \<Rightarrow> []
      | Some (One v) \<Rightarrow> if v = [] then [] else split_on (\<lambda>b. b = 0x20) v
      | Some (Many vs) \<Rightarrow> vs)"

definition normalize_scopes :: "claim_values option \<Rightarrow> authn_failure \<Rightarrow> verification_error + bytes list" where
  "normalize_scopes scope malformed =
     (if \<not> list_all is_scope_token (scope_pieces scope) then Inl \<lparr>ve_failure = malformed, ve_reason = ScopeReason\<rparr>
      else Inr (remdups_adj (sort (scope_pieces scope))))"

definition or_else :: "'a option \<Rightarrow> 'a option \<Rightarrow> 'a option" where
  "or_else a b = (case a of None \<Rightarrow> b | Some x \<Rightarrow> Some x)"

fun find_some :: "'a option list \<Rightarrow> 'a option" where
  "find_some [] = None"
| "find_some (None # xs) = find_some xs"
| "find_some (Some x # xs) = Some x"

text \<open>\<open>str::from_utf8\<close>: the well-formed sequences of the Unicode standard.\<close>

definition continuation :: "8 word \<Rightarrow> bool" where "continuation b = (0x80 \<le> b \<and> b \<le> 0xBF)"

fun valid_utf8 :: "bytes \<Rightarrow> bool" where
  "valid_utf8 [] = True"
| "valid_utf8 (a # bs) =
     (if a < 0x80 then valid_utf8 bs
      else case bs of
        b # cs \<Rightarrow>
          if 0xC2 \<le> a \<and> a \<le> 0xDF then continuation b \<and> valid_utf8 cs
          else (case cs of
            c # ds \<Rightarrow>
              if 0xE0 \<le> a \<and> a \<le> 0xEF
              then continuation b \<and> (a = 0xE0 \<longrightarrow> 0xA0 \<le> b) \<and> (a = 0xED \<longrightarrow> b \<le> 0x9F) \<and> continuation c \<and> valid_utf8 ds
              else (case ds of
                d # es \<Rightarrow>
                  0xF0 \<le> a \<and> a \<le> 0xF4 \<and> continuation b \<and> (a = 0xF0 \<longrightarrow> 0x90 \<le> b) \<and> (a = 0xF4 \<longrightarrow> b \<le> 0x8F) \<and>
                  continuation c \<and> continuation d \<and> valid_utf8 es
              | [] \<Rightarrow> False)
          | [] \<Rightarrow> False)
      | [] \<Rightarrow> False)"

datatype token_profile = ResourceServer | Rfc9068

definition check_profile :: "token_profile \<Rightarrow> jwt_claims \<Rightarrow> nat \<Rightarrow> verification_error + unit" where
  "check_profile profile c now =
     (if profile = Rfc9068 then
        (case (jc_iat c, non_empty (jc_sub c), non_empty (jc_client_id c), non_empty (jc_jti c)) of
           (Some iat, Some _, Some _, Some _) \<Rightarrow> ensured (\<not> iat > sat_add now LEEWAY_SECONDS) (invalid ProfileReason)
         | _ \<Rightarrow> Inl (invalid MissingClaim))
      else Inr ())"

text \<open>The actor of optional evidence: an empty subject is malformed.\<close>

definition actor_of :: "verification_error \<Rightarrow> raw_act option \<Rightarrow> verification_error + actor option" where
  "actor_of malformed act =
     (case act of
        None \<Rightarrow> Inr None
      | Some a \<Rightarrow> (case into_actor a of Inl _ \<Rightarrow> Inl malformed | Inr r \<Rightarrow> Inr (Some r)))"

definition validate_jwt_claims ::
  "(bytes \<Rightarrow> json option) \<Rightarrow> bytes \<Rightarrow> claim_policy \<Rightarrow> token_profile \<Rightarrow> nat \<Rightarrow> bytes \<Rightarrow> verification_error + principal" where
  "validate_jwt_claims from_str payload policy profile now access_token =
     bind_result (ensured (valid_utf8 payload) (invalid MalformedClaims)) (\<lambda>_.
     bind_result (okay_or (invalid MalformedClaims) (Option.bind (from_str payload) as_jwt_claims)) (\<lambda>c.
     case (jc_iss c, jc_aud c, jc_exp c) of
       (Some issuer, Some audience, Some expiry) \<Rightarrow>
         bind_result (check_registered_claims issuer audience expiry (jc_nbf c) policy now) (\<lambda>_.
         let subject = non_empty (jc_sub c);
             client_id = find_some (map non_empty [jc_client_id c, jc_azp c, jc_appid c, jc_cid c])
         in bind_result (ensured (\<not> (subject = None \<and> client_id = None)) (invalid MissingClaim)) (\<lambda>_.
            bind_result (check_profile profile c now) (\<lambda>_.
            bind_result (normalize_scopes (or_else (jc_scope c) (jc_scp c)) Invalid) (\<lambda>scopes.
            bind_result (actor_of (invalid MalformedClaims) (jc_act c)) (\<lambda>actor.
            Inr \<lparr>pr_identity = \<lparr>id_issuer = cp_issuer policy, id_subject = subject, id_client_id = client_id,
                    id_scopes = scopes, id_payload = payload, id_access_token = access_token, id_actor = actor\<rparr>,
                  expiry_epoch_seconds = expiry\<rparr>)))))
     | _ \<Rightarrow> Inl (invalid MissingClaim)))"

record verified_introspection =
  vi_principal :: principal
  vi_not_before :: "nat option"

definition reusable_at :: "verified_introspection \<Rightarrow> nat \<Rightarrow> bool" where
  "reusable_at v now =
     (now < expiry_epoch_seconds (vi_principal v) \<and>
      is_ok (check_lifetime (expiry_epoch_seconds (vi_principal v)) (vi_not_before v) now))"

definition deliver :: "verified_introspection \<Rightarrow> nat \<Rightarrow> verification_error + principal" where
  "deliver v now =
     bind_result (check_lifetime (expiry_epoch_seconds (vi_principal v)) (vi_not_before v) now) (\<lambda>_. Inr (vi_principal v))"

definition json_space :: "8 word \<Rightarrow> bool" where "json_space b = (b \<in> set [0x20, 0x09, 0x0D, 0x0A])"

definition trim_json :: "bytes \<Rightarrow> bytes" where
  "trim_json s = rev (dropWhile json_space (rev (dropWhile json_space s)))"

definition validate_introspection_claims ::
  "(bytes \<Rightarrow> json option) \<Rightarrow> bytes \<Rightarrow> claim_policy \<Rightarrow> nat \<Rightarrow> bytes \<Rightarrow> verification_error + verified_introspection" where
  "validate_introspection_claims from_str bs policy now access_token =
     (let malformed = unavailable_trust MalformedClaims
      in bind_result (ensured (valid_utf8 bs) malformed) (\<lambda>_.
     let payload = trim_json bs
      in bind_result (okay_or malformed (Option.bind (from_str payload) as_envelope)) (\<lambda>active.
     bind_result (ensured active (invalid Inactive)) (\<lambda>_.
     bind_result (okay_or malformed (Option.bind (from_str payload) as_active_claims)) (\<lambda>c.
     case (cl_iss c, cl_aud c, cl_exp c) of
       (Some issuer, Some audience, Some expiry) \<Rightarrow>
         bind_result (ensured (issuer = cp_issuer policy) (invalid IssuerReason)) (\<lambda>_.
         bind_result (ensured (contains_any audience (cp_audiences policy)) (invalid AudienceReason)) (\<lambda>_.
         bind_result (check_lifetime expiry (cl_nbf c) now) (\<lambda>_.
         let subject = non_empty (cl_sub c); client_id = non_empty (cl_client_id c)
         in bind_result (ensured (\<not> (subject = None \<and> client_id = None)) (invalid MissingClaim)) (\<lambda>_.
            bind_result (normalize_scopes (or_else (cl_scope c) (cl_scp c)) Unavailable) (\<lambda>scopes.
            bind_result (actor_of malformed (cl_act c)) (\<lambda>actor.
            Inr \<lparr>vi_principal =
                   \<lparr>pr_identity = \<lparr>id_issuer = cp_issuer policy, id_subject = subject, id_client_id = client_id,
                      id_scopes = scopes, id_payload = payload, id_access_token = access_token, id_actor = actor\<rparr>,
                    expiry_epoch_seconds = expiry\<rparr>,
                 vi_not_before = cl_nbf c\<rparr>))))))
     | _ \<Rightarrow> Inl (invalid MissingClaim))))))"

subsection \<open>What the checks admit\<close>

fun values_of :: "claim_values \<Rightarrow> bytes list" where
  "values_of (One v) = [v]"
| "values_of (Many vs) = vs"

lemma contains_any_iff: "contains_any v accepted \<longleftrightarrow> set (values_of v) \<inter> set accepted \<noteq> {}"
  by (cases v) (auto simp: list_ex_iff)

text \<open>In the range of \<open>u64\<close> the saturating additions compare as the exact ones.\<close>

definition in_lifetime :: "nat \<Rightarrow> nat option \<Rightarrow> nat \<Rightarrow> bool" where
  "in_lifetime expiry not_before now =
     (now \<le> expiry + 30 \<and> (case not_before of None \<Rightarrow> True | Some nb \<Rightarrow> nb \<le> now + 30))"

definition u64_option :: "nat option \<Rightarrow> bool" where
  "u64_option v = (case v of None \<Rightarrow> True | Some n \<Rightarrow> n \<le> u64_max)"

lemma check_lifetime_iff:
  assumes "now \<le> u64_max" "u64_option nb"
  shows "check_lifetime expiry nb now = Inr u \<longleftrightarrow> in_lifetime expiry nb now"
  using assms by (auto simp: check_lifetime_def in_lifetime_def sat_add_def LEEWAY_SECONDS_def u64_option_def split: option.splits)

lemma u64_decoded: "numeric_date j = Some n \<Longrightarrow> n \<le> u64_max" "as_u64 j = Some n \<Longrightarrow> n \<le> u64_max"
proof -
  have "unat (w :: 64 word) \<le> u64_max" for w
    using unsigned_less[of w, where ?'a = nat] by (simp add: u64_max_def)
  then show "numeric_date j = Some n \<Longrightarrow> n \<le> u64_max" "as_u64 j = Some n \<Longrightarrow> n \<le> u64_max"
    by (cases j; auto split: if_splits)+
qed

lemma optional_field_range: "optional_field decode m = Some (Some v) \<Longrightarrow> \<exists>j. decode j = Some v"
  by (auto simp: optional_field_def split: member.splits if_splits)

lemma present_field_range: "present_field decode m = Some (Some v) \<Longrightarrow> \<exists>j. decode j = Some v"
  by (auto simp: present_field_def split: member.splits)

lemma decoded_nbf:
  "as_jwt_claims j = Some c \<Longrightarrow> u64_option (jc_nbf c)"
  "as_active_claims j = Some a \<Longrightarrow> u64_option (cl_nbf a)"
  using u64_decoded
  by (auto simp: as_jwt_claims_def as_active_claims_def u64_option_def Let_def bind_eq_Some_conv split: option.splits
        dest!: present_field_range optional_field_range)

lemma normalize_scopes_iff:
  "normalize_scopes scope f = Inr ss \<longleftrightarrow>
     (\<forall>t \<in> set (scope_pieces scope). is_scope_token t) \<and> ss = sorted_list_of_set (set (scope_pieces scope))"
  by (auto simp: normalize_scopes_def sort_dedup list_all_iff)

lemma non_empty_Some [simp]: "s \<noteq> [] \<Longrightarrow> non_empty (Some s) = Some s"
  by (simp add: non_empty_def)

lemma non_empty_iff: "non_empty v = Some s \<longleftrightarrow> v = Some s \<and> s \<noteq> []"
  by (auto simp: non_empty_def split: option.splits)

lemma find_some_mem: "find_some xs = Some x \<Longrightarrow> Some x \<in> set xs"
  by (induction xs rule: find_some.induct) auto

text \<open>
  The identity of an admitted principal: it is attributed to the configured issuer, names a non-empty subject or
  client, lists its scopes once and in order, each of the scope grammar, keeps the evidence and
  the presented token, and an actor, if any, has a non-empty subject.
\<close>

definition principal_ok :: "claim_policy \<Rightarrow> bytes \<Rightarrow> bytes \<Rightarrow> principal \<Rightarrow> bool" where
  "principal_ok policy payload tok p =
     (let i = pr_identity p
      in id_issuer i = cp_issuer policy \<and> id_payload i = payload \<and> id_access_token i = tok \<and>
         (id_subject i \<noteq> None \<or> id_client_id i \<noteq> None) \<and> id_subject i \<noteq> Some [] \<and> id_client_id i \<noteq> Some [] \<and>
         sorted (id_scopes i) \<and> distinct (id_scopes i) \<and> (\<forall>t \<in> set (id_scopes i). is_scope_token t) \<and>
         (case id_actor i of None \<Rightarrow> True | Some a \<Rightarrow> ac_subject a \<noteq> []))"

lemma actor_of_ok: "actor_of e act = Inr a \<Longrightarrow> (case a of None \<Rightarrow> True | Some x \<Rightarrow> ac_subject x \<noteq> [])"
  by (auto simp: actor_of_def into_actor_def split: option.splits if_splits)

text \<open>A principal is produced only from claims of the policy, within the lifetime and of the profile.\<close>

lemma jwt_principal:
  assumes "validate_jwt_claims from_str payload policy profile now tok = Inr p" "now \<le> u64_max"
  shows "\<exists>c iss aud. valid_utf8 payload \<and> Option.bind (from_str payload) as_jwt_claims = Some c \<and>
     jc_iss c = Some iss \<and> cp_issuer policy \<in> set (values_of iss) \<and>
     jc_aud c = Some aud \<and> set (values_of aud) \<inter> set (cp_audiences policy) \<noteq> {} \<and>
     jc_exp c = Some (expiry_epoch_seconds p) \<and> in_lifetime (expiry_epoch_seconds p) (jc_nbf c) now \<and>
     principal_ok policy payload tok p \<and>
     (profile = Rfc9068 \<longrightarrow>
        (\<exists>iat. jc_iat c = Some iat \<and> iat \<le> sat_add now 30) \<and>
        id_subject (pr_identity p) \<noteq> None \<and> id_client_id (pr_identity p) = jc_client_id c \<and>
        (\<exists>jti. jc_jti c = Some jti \<and> jti \<noteq> []))"
proof -
  from assms(1) obtain c where c0: "valid_utf8 payload" "Option.bind (from_str payload) as_jwt_claims = Some c"
    unfolding validate_jwt_claims_def bind_result_Inr ensured_simps okay_or_simps by blast
  note val = assms(1)[unfolded validate_jwt_claims_def, simplified c0 ensured_def okay_or_def, simplified]
  from val obtain iss aud expiry where set: "jc_iss c = Some iss" "jc_aud c = Some aud" "jc_exp c = Some expiry"
    by (auto split: option.splits)
  from val set obtain scopes a where c:
      "valid_utf8 payload" "Option.bind (from_str payload) as_jwt_claims = Some c"
      "jc_iss c = Some iss" "jc_aud c = Some aud" "jc_exp c = Some expiry"
      "check_lifetime expiry (jc_nbf c) now = Inr ()" "contains_any iss [cp_issuer policy]"
      "contains_any aud (cp_audiences policy)"
      "check_profile profile c now = Inr ()"
      "normalize_scopes (or_else (jc_scope c) (jc_scp c)) Invalid = Inr scopes"
      "actor_of (invalid MalformedClaims) (jc_act c) = Inr a"
    and some: "non_empty (jc_sub c) \<noteq> None \<or>
        find_some (map non_empty [jc_client_id c, jc_azp c, jc_appid c, jc_cid c]) \<noteq> None"
    and p: "p = \<lparr>pr_identity = \<lparr>id_issuer = cp_issuer policy, id_subject = non_empty (jc_sub c),
          id_client_id = find_some (map non_empty [jc_client_id c, jc_azp c, jc_appid c, jc_cid c]),
          id_scopes = scopes, id_payload = payload, id_access_token = tok, id_actor = a\<rparr>,
        expiry_epoch_seconds = expiry\<rparr>"
    using c0 by (auto simp: bind_result_Inr check_registered_claims_def Let_def split: if_splits)
  have nbf: "u64_option (jc_nbf c)" using c(2) decoded_nbf(1) by (auto simp: bind_eq_Some_conv)
  have client: "find_some (map non_empty [jc_client_id c, jc_azp c, jc_appid c, jc_cid c]) \<noteq> Some []"
    using find_some_mem[of "map non_empty [jc_client_id c, jc_azp c, jc_appid c, jc_cid c]" "[]"]
    by (auto simp: non_empty_def split: option.splits if_splits)
  have "principal_ok policy payload tok p"
    using c(10,11) some client actor_of_ok[OF c(11)]
    by (auto simp: principal_ok_def p normalize_scopes_iff non_empty_def split: option.splits if_splits)
  moreover have "profile = Rfc9068 \<longrightarrow> (\<exists>iat. jc_iat c = Some iat \<and> iat \<le> sat_add now 30) \<and>
        id_subject (pr_identity p) \<noteq> None \<and> id_client_id (pr_identity p) = jc_client_id c \<and>
        (\<exists>jti. jc_jti c = Some jti \<and> jti \<noteq> [])"
    using c(9) by (auto simp: check_profile_def p LEEWAY_SECONDS_def non_empty_iff split: option.splits)
  ultimately show ?thesis
    using c check_lifetime_iff[OF assms(2) nbf] by (auto simp: p contains_any_iff)
qed

lemma introspected_principal:
  assumes "validate_introspection_claims from_str bs policy now tok = Inr v" "now \<le> u64_max"
  shows "\<exists>c aud. Option.bind (from_str (trim_json bs)) as_envelope = Some True \<and>
     Option.bind (from_str (trim_json bs)) as_active_claims = Some c \<and>
     cl_iss c = Some (cp_issuer policy) \<and>
     cl_aud c = Some aud \<and> set (values_of aud) \<inter> set (cp_audiences policy) \<noteq> {} \<and>
     cl_exp c = Some (expiry_epoch_seconds (vi_principal v)) \<and> vi_not_before v = cl_nbf c \<and> u64_option (cl_nbf c) \<and>
     in_lifetime (expiry_epoch_seconds (vi_principal v)) (cl_nbf c) now \<and>
     principal_ok policy (trim_json bs) tok (vi_principal v)"
proof -
  from assms(1) obtain active c where "active" "valid_utf8 bs" "Option.bind (from_str (trim_json bs)) as_envelope = Some active"
      "Option.bind (from_str (trim_json bs)) as_active_claims = Some c"
    unfolding validate_introspection_claims_def bind_result_Inr ensured_simps okay_or_simps Let_def by blast
  then have c0: "valid_utf8 bs" "Option.bind (from_str (trim_json bs)) as_envelope = Some True"
      "Option.bind (from_str (trim_json bs)) as_active_claims = Some c" by auto
  note val = assms(1)[unfolded validate_introspection_claims_def, simplified c0 ensured_def okay_or_def Let_def, simplified]
  from val obtain iss aud expiry where set: "cl_iss c = Some iss" "cl_aud c = Some aud" "cl_exp c = Some expiry"
    by (auto split: option.splits)
  from val set obtain scopes a where c:
      "Option.bind (from_str (trim_json bs)) as_envelope = Some True"
      "Option.bind (from_str (trim_json bs)) as_active_claims = Some c"
      "cl_iss c = Some (cp_issuer policy)" "cl_aud c = Some aud" "cl_exp c = Some expiry"
      "check_lifetime expiry (cl_nbf c) now = Inr ()" "contains_any aud (cp_audiences policy)"
      "normalize_scopes (or_else (cl_scope c) (cl_scp c)) Unavailable = Inr scopes"
      "actor_of (unavailable_trust MalformedClaims) (cl_act c) = Inr a"
    and some: "non_empty (cl_sub c) \<noteq> None \<or> non_empty (cl_client_id c) \<noteq> None"
    and v: "v = \<lparr>vi_principal = \<lparr>pr_identity = \<lparr>id_issuer = cp_issuer policy, id_subject = non_empty (cl_sub c),
          id_client_id = non_empty (cl_client_id c),
          id_scopes = scopes, id_payload = trim_json bs, id_access_token = tok, id_actor = a\<rparr>,
        expiry_epoch_seconds = expiry\<rparr>, vi_not_before = cl_nbf c\<rparr>"
    using c0 by (auto simp: bind_result_Inr ensured_def split: if_splits)
  have nbf: "u64_option (cl_nbf c)" using c(2) decoded_nbf(2) by (auto simp: bind_eq_Some_conv)
  have "principal_ok policy (trim_json bs) tok (vi_principal v)"
    using c(8) some actor_of_ok[OF c(9)]
    by (auto simp: principal_ok_def v normalize_scopes_iff non_empty_def split: option.splits if_splits)
  then show ?thesis
    using c nbf check_lifetime_iff[OF assms(2) nbf] by (auto simp: v contains_any_iff)
qed

end
