(* ===== verification/BearerKeys.thy ===== *)
theory BearerKeys
  imports BearerClaims
begin

text \<open>
  \<open>crates/infra-bearerauthn/src/jwt.rs\<close>: the admission of JSON web keys and the verification of a signed token.

  The JOSE types, base64 and the signatures of aws-lc are of other packages: the fields of a key and of a
  header that the code reads are records here, and the functions are the fields of \<open>jose_lib\<close>. A parsed public key is of any
  type \<open>'k\<close>.
\<close>

subsection \<open>Keys and algorithms\<close>

datatype jose_algorithm = RS256 | PS256 | ES256 | EdDSA | OtherAlgorithm

datatype jwt_algorithm = Rs256 | Es256 | Ps256 | EdDsa

datatype key_curve = CurveP256 | CurveEd25519 | OtherCurve

datatype algorithm_parameters =
    RsaKey bytes bytes
  | EllipticCurveKey key_curve bytes bytes
  | OctetPairKey key_curve bytes
  | OctetKey bytes

datatype public_key_use = SignatureUse | OtherUse

datatype key_operation = VerifyOperation | OtherOperation

record jwk =
  key_use :: "public_key_use option"
  key_operations :: "key_operation list option"
  key_algorithm :: "jose_algorithm option"
  key_id :: "bytes option"
  key_parameters :: algorithm_parameters

record jose_header =
  jh_alg :: jose_algorithm
  jh_typ :: "bytes option"
  jh_kid :: "bytes option"
  jh_crit :: "bytes list option"

datatype rsa_parameters = RSA_PKCS1_2048_8192_SHA256 | RSA_PSS_2048_8192_SHA256

datatype raw_verification = ECDSA_P256_SHA256_FIXED | ED25519

record 'k jose_lib =
  jl_from_str :: "bytes \<Rightarrow> json option"
  jl_jwk :: "json \<Rightarrow> jwk option"
  jl_header :: "bytes \<Rightarrow> jose_header option"
  jl_decode :: "bytes \<Rightarrow> bytes option"
  jl_decode_slice :: "nat \<Rightarrow> bytes \<Rightarrow> bytes option"
  jl_rsa :: "rsa_parameters \<Rightarrow> bytes \<Rightarrow> bytes \<Rightarrow> 'k option"
  jl_raw :: "raw_verification \<Rightarrow> bytes \<Rightarrow> 'k option"
  jl_verify_sig :: "'k \<Rightarrow> bytes \<Rightarrow> bytes \<Rightarrow> bool"

record 'k jwt_key =
  jk_kid :: "bytes option"
  jk_verifiers :: "(jwt_algorithm \<times> 'k) list"

type_synonym 'k key_set = "'k jwt_key list"

datatype key_set_error = KeySetParse | NoUsableKeys

datatype key_rejection = MalformedEntry | IncompatibleUsage | UnsupportedFamily | AlgorithmBinding | InvalidMaterial

datatype key_family = RsaFamily | P256Family | Ed25519Family

fun key_family_of :: "algorithm_parameters \<Rightarrow> key_family option" where
  "key_family_of (RsaKey n e) = Some RsaFamily"
| "key_family_of (EllipticCurveKey curve x y) = (if curve = CurveP256 then Some P256Family else None)"
| "key_family_of (OctetPairKey curve x) = (if curve = CurveEd25519 then Some Ed25519Family else None)"
| "key_family_of (OctetKey k) = None"

fun from_jose :: "jose_algorithm \<Rightarrow> jwt_algorithm option" where
  "from_jose RS256 = Some Rs256"
| "from_jose PS256 = Some Ps256"
| "from_jose ES256 = Some Es256"
| "from_jose EdDSA = Some EdDsa"
| "from_jose OtherAlgorithm = None"

fun alg_rsa_parameters :: "jwt_algorithm \<Rightarrow> rsa_parameters option" where
  "alg_rsa_parameters Rs256 = Some RSA_PKCS1_2048_8192_SHA256"
| "alg_rsa_parameters Ps256 = Some RSA_PSS_2048_8192_SHA256"
| "alg_rsa_parameters Es256 = None"
| "alg_rsa_parameters EdDsa = None"

definition alg_matches :: "jwt_algorithm \<Rightarrow> key_family \<Rightarrow> bool" where
  "alg_matches a f =
     ((a = Rs256 \<or> a = Ps256) \<and> f = RsaFamily \<or> a = Es256 \<and> f = P256Family \<or> a = EdDsa \<and> f = Ed25519Family)"

definition signature_usage :: "jwk \<Rightarrow> bool" where
  "signature_usage k =
     ((key_use k = None \<or> key_use k = Some SignatureUse) \<and>
      (case key_operations k of None \<Rightarrow> True | Some ops \<Rightarrow> ops \<noteq> [] \<and> list_all (\<lambda>x. x = VerifyOperation) ops))"

datatype key_material = RsaMaterial bytes bytes | RawMaterial bytes

fun material_parse :: "('k, 'z) jose_lib_scheme \<Rightarrow> key_material \<Rightarrow> jwt_algorithm \<Rightarrow> 'k option" where
  "material_parse lib (RsaMaterial n e) a =
     Option.bind (alg_rsa_parameters a) (\<lambda>params. jl_rsa lib params n e)"
| "material_parse lib (RawMaterial bs) a =
     (case a of
        Es256 \<Rightarrow> jl_raw lib ECDSA_P256_SHA256_FIXED bs
      | EdDsa \<Rightarrow> jl_raw lib ED25519 bs
      | _ \<Rightarrow> None)"

definition without_leading_zeros :: "bytes \<Rightarrow> bytes option" where
  "without_leading_zeros bs =
     (let r = dropWhile (\<lambda>b. b = 0) bs in if r = [] then None else Some r)"

definition leading_zeros :: "8 word \<Rightarrow> nat" where
  "leading_zeros b = length (takeWhile (\<lambda>i. \<not> bit b i) [7, 6, 5, 4, 3, 2, 1, 0])"

fun key_material_of :: "('k, 'z) jose_lib_scheme \<Rightarrow> algorithm_parameters \<Rightarrow> key_material option" where
  "key_material_of lib (RsaKey n e) =
     do { modulus \<leftarrow> Option.bind (jl_decode lib n) without_leading_zeros;
          exponent \<leftarrow> Option.bind (jl_decode lib e) without_leading_zeros;
          let bits = length modulus * 8 - leading_zeros (hd modulus);
          if 2048 \<le> bits \<and> bits \<le> 8192 then Some (RsaMaterial modulus exponent) else None }"
| "key_material_of lib (EllipticCurveKey curve x y) =
     do { x \<leftarrow> jl_decode lib x;
          y \<leftarrow> jl_decode lib y;
          if length x \<noteq> 32 \<or> length y \<noteq> 32 then None else Some (RawMaterial ([4] @ x @ y)) }"
| "key_material_of lib (OctetPairKey curve x) = map_option RawMaterial (jl_decode lib x)"
| "key_material_of lib (OctetKey k) = None"

definition key_algorithms :: "jwt_algorithm list \<Rightarrow> key_family \<Rightarrow> jose_algorithm option \<Rightarrow> key_rejection + jwt_algorithm list" where
  "key_algorithms configured family explicit =
     (case explicit of
        Some alg \<Rightarrow>
          (case from_jose alg of
             Some a \<Rightarrow> if a \<in> set configured \<and> alg_matches a family then Inr [a] else Inl AlgorithmBinding
           | None \<Rightarrow> Inl AlgorithmBinding)
      | None \<Rightarrow> Inr (filter (\<lambda>a. alg_matches a family) configured))"

fun parse_all :: "(jwt_algorithm \<Rightarrow> 'k option) \<Rightarrow> jwt_algorithm list \<Rightarrow> (jwt_algorithm \<times> 'k) list option" where
  "parse_all parse [] = Some []"
| "parse_all parse (a # as) = do { k \<leftarrow> parse a; rest \<leftarrow> parse_all parse as; Some ((a, k) # rest) }"

definition admit_key :: "('k, 'z) jose_lib_scheme \<Rightarrow> jwt_algorithm list \<Rightarrow> jwk \<Rightarrow> key_rejection + 'k jwt_key" where
  "admit_key lib configured k =
     bind_result (ensured (signature_usage k) IncompatibleUsage) (\<lambda>_.
     bind_result (okay_or UnsupportedFamily (key_family_of (key_parameters k))) (\<lambda>family.
     bind_result (key_algorithms configured family (key_algorithm k)) (\<lambda>algorithms.
     bind_result (ensured (algorithms \<noteq> []) AlgorithmBinding) (\<lambda>_.
     bind_result (okay_or InvalidMaterial (key_material_of lib (key_parameters k))) (\<lambda>material.
     bind_result (okay_or InvalidMaterial (parse_all (material_parse lib material) algorithms)) (\<lambda>verifiers.
     Inr \<lparr>jk_kid = key_id k, jk_verifiers = verifiers\<rparr>))))))"

definition admit_entry :: "('k, 'z) jose_lib_scheme \<Rightarrow> jwt_algorithm list \<Rightarrow> json \<Rightarrow> key_rejection + 'k jwt_key" where
  "admit_entry lib configured j = bind_result (okay_or MalformedEntry (jl_jwk lib j)) (admit_key lib configured)"

fun as_array :: "json \<Rightarrow> json list option" where
  "as_array (JArr vs) = Some vs"
| "as_array _ = None"

definition as_jwks :: "json \<Rightarrow> json list option" where
  "as_jwks j = required_field as_array (struct_member [''keys''] j ''keys'')"

text \<open>The loop over the entries keeps the admitted keys and counts a rejection per reason.\<close>

fun admit_entries ::
  "('k, 'z) jose_lib_scheme \<Rightarrow> jwt_algorithm list \<Rightarrow> json list \<Rightarrow> 'k key_set \<times> (key_rejection \<Rightarrow> nat) \<Rightarrow>
     'k key_set \<times> (key_rejection \<Rightarrow> nat)" where
  "admit_entries lib configured [] acc = acc"
| "admit_entries lib configured (j # js) (keys, rejected) =
     admit_entries lib configured js
       (case admit_entry lib configured j of
          Inr key \<Rightarrow> (keys @ [key], rejected)
        | Inl reason \<Rightarrow> (keys, rejected(reason := rejected reason + 1)))"

definition parse_key_set :: "('k, 'z) jose_lib_scheme \<Rightarrow> jwt_algorithm list \<Rightarrow> bytes \<Rightarrow> key_set_error + 'k key_set" where
  "parse_key_set lib configured bs =
     bind_result (okay_or KeySetParse (Option.bind (jl_from_str lib bs) as_jwks)) (\<lambda>entries.
     let (keys, rejected) = admit_entries lib configured entries ([], \<lambda>_. 0)
     in if keys = [] then Inl NoUsableKeys else Inr keys)"

subsection \<open>Verification\<close>

datatype signature_error = NoCandidate | BadSignature

definition jk_verifier :: "'k jwt_key \<Rightarrow> jwt_algorithm \<Rightarrow> 'k option" where
  "jk_verifier key a = map_of (jk_verifiers key) a"

definition key_candidates :: "'k key_set \<Rightarrow> bytes option \<Rightarrow> jwt_algorithm \<Rightarrow> 'k list" where
  "key_candidates keys kid a =
     List.map_filter (\<lambda>key. jk_verifier key a)
       (filter (\<lambda>key. case kid of None \<Rightarrow> True | Some k \<Rightarrow> jk_kid key = Some k) keys)"

fun verify_loop :: "('k \<Rightarrow> bool) \<Rightarrow> signature_error \<Rightarrow> 'k list \<Rightarrow> signature_error + unit" where
  "verify_loop ok miss [] = Inl miss"
| "verify_loop ok miss (k # ks) = (if ok k then Inr () else verify_loop ok BadSignature ks)"

definition key_set_verify ::
  "('k, 'z) jose_lib_scheme \<Rightarrow> 'k key_set \<Rightarrow> bytes \<Rightarrow> bytes \<Rightarrow> bytes option \<Rightarrow> jwt_algorithm \<Rightarrow> signature_error + unit" where
  "key_set_verify lib keys message signature kid a =
     verify_loop (\<lambda>k. jl_verify_sig lib k message signature) NoCandidate (key_candidates keys kid a)"

fun may_need_new_keys :: "signature_error \<Rightarrow> bytes option \<Rightarrow> bool" where
  "may_need_new_keys NoCandidate kid = True"
| "may_need_new_keys BadSignature kid = (kid = None)"

fun signature_error_of :: "signature_error \<Rightarrow> verification_error" where
  "signature_error_of NoCandidate = invalid UnknownKey"
| "signature_error_of BadSignature = invalid SignatureReason"

definition split_last_dot :: "bytes \<Rightarrow> (bytes \<times> bytes) option" where
  "split_last_dot bs =
     (let after = takeWhile (\<lambda>b. b \<noteq> 0x2E) (rev bs)
      in if length after = length bs then None
         else Some (take (length bs - length after - 1) bs, rev after))"

definition AT_JWT :: bytes where "AT_JWT = bytes_of ''at+jwt''"
definition APPLICATION_AT_JWT :: bytes where "APPLICATION_AT_JWT = bytes_of ''application/at+jwt''"
definition JWT_TYPE :: bytes where "JWT_TYPE = bytes_of ''JWT''"
definition APPLICATION_JWT :: bytes where "APPLICATION_JWT = bytes_of ''application/jwt''"

definition is_access_token_type :: "bytes \<Rightarrow> bool" where
  "is_access_token_type v = (same_ignoring_case v AT_JWT \<or> same_ignoring_case v APPLICATION_AT_JWT)"

definition is_generic_jwt_type :: "bytes \<Rightarrow> bool" where
  "is_generic_jwt_type v = (same_ignoring_case v JWT_TYPE \<or> same_ignoring_case v APPLICATION_JWT)"

definition admitted_type :: "token_profile \<Rightarrow> bytes option \<Rightarrow> bool" where
  "admitted_type profile typ =
     (case profile of
        Rfc9068 \<Rightarrow> (case typ of None \<Rightarrow> False | Some t \<Rightarrow> is_access_token_type t)
      | ResourceServer \<Rightarrow> (case typ of None \<Rightarrow> True | Some t \<Rightarrow> is_generic_jwt_type t \<or> is_access_token_type t))"

definition MAX_SIGNATURE_BYTES :: nat where "MAX_SIGNATURE_BYTES = 1024"

datatype 'a unknown_key_refresh = Refreshed 'a | StillUnknown | RefreshUnavailable

record jwt_verifier =
  jv_policy :: claim_policy
  jv_profile :: token_profile
  jv_algorithms :: "jwt_algorithm list"

text \<open>
  \<open>verify_signature_after_refresh\<close>; what the key store answers is an argument, and \<open>BearerRefresh\<close> supplies it.
\<close>

definition verify_signature_after_refresh ::
  "('k, 'z) jose_lib_scheme \<Rightarrow> 'k key_set unknown_key_refresh \<Rightarrow> bytes \<Rightarrow> bytes \<Rightarrow> bytes option \<Rightarrow> jwt_algorithm \<Rightarrow>
     signature_error \<Rightarrow> verification_error + unit" where
  "verify_signature_after_refresh lib answer message signature kid a miss =
     (case answer of
        Refreshed keys \<Rightarrow>
          (case key_set_verify lib keys message signature kid a of
             Inl e \<Rightarrow> Inl (signature_error_of e) | Inr _ \<Rightarrow> Inr ())
      | StillUnknown \<Rightarrow> Inl (signature_error_of miss)
      | RefreshUnavailable \<Rightarrow> Inl (unavailable_trust RefreshReason))"

definition check_signature ::
  "('k, 'z) jose_lib_scheme \<Rightarrow> 'k key_set \<Rightarrow> 'k key_set unknown_key_refresh \<Rightarrow> bytes \<Rightarrow> bytes \<Rightarrow> bytes option \<Rightarrow>
     jwt_algorithm \<Rightarrow> verification_error + unit" where
  "check_signature lib keys answer message signature kid a =
     (case key_set_verify lib keys message signature kid a of
        Inr _ \<Rightarrow> Inr ()
      | Inl miss \<Rightarrow>
          if may_need_new_keys miss kid
          then verify_signature_after_refresh lib answer message signature kid a miss
          else Inl (signature_error_of miss))"

text \<open>\<open>verify_with_now\<close>; \<open>now\<close> is the reading of the clock after the signature was checked.\<close>

definition verify_jwt ::
  "('k, 'z) jose_lib_scheme \<Rightarrow> jwt_verifier \<Rightarrow> 'k key_set \<Rightarrow> 'k key_set unknown_key_refresh \<Rightarrow>
     verification_error + nat \<Rightarrow> bytes \<Rightarrow> verification_error + principal" where
  "verify_jwt lib v keys answer now token =
     (let malformed = invalid HeaderReason
      in bind_result (okay_or malformed (split_last_dot token)) (\<lambda>(message, signature).
         bind_result (okay_or malformed (split_last_dot message)) (\<lambda>(header, payload).
         bind_result (okay_or malformed (jl_decode lib header)) (\<lambda>header.
         bind_result (okay_or malformed (jl_header lib header)) (\<lambda>header.
         bind_result (ensured (case jh_crit header of None \<Rightarrow> True | Some crit \<Rightarrow> crit = []) malformed) (\<lambda>_.
         bind_result (okay_or (invalid AlgorithmReason)
           (case from_jose (jh_alg header) of
              Some a \<Rightarrow> if a \<in> set (jv_algorithms v) then Some a else None | None \<Rightarrow> None)) (\<lambda>a.
         bind_result (ensured (admitted_type (jv_profile v) (jh_typ header)) (invalid ProfileReason)) (\<lambda>_.
         bind_result (okay_or (invalid SignatureReason) (jl_decode_slice lib MAX_SIGNATURE_BYTES signature)) (\<lambda>signature.
         bind_result (check_signature lib keys answer message signature (jh_kid header) a) (\<lambda>_.
         bind_result (okay_or (invalid MalformedClaims) (jl_decode lib payload)) (\<lambda>payload.
         bind_result now (\<lambda>now.
         validate_jwt_claims (jl_from_str lib) payload (jv_policy v) (jv_profile v) now token))))))))))))"

subsection \<open>Admitted keys\<close>

text \<open>
  A parsed key serves an algorithm on behalf of a key of the document: the key is for signatures, the
  algorithm is configured, of the key's family and not another than the key names, and the parsed key is the key's material
  parsed for that algorithm.
\<close>

definition serves :: "('k, 'z) jose_lib_scheme \<Rightarrow> jwt_algorithm list \<Rightarrow> jwk \<Rightarrow> jwt_algorithm \<Rightarrow> 'k \<Rightarrow> bool" where
  "serves lib configured k a parsed =
     (signature_usage k \<and> a \<in> set configured \<and>
      (\<exists>family. key_family_of (key_parameters k) = Some family \<and> alg_matches a family) \<and>
      (case key_algorithm k of None \<Rightarrow> True | Some alg \<Rightarrow> from_jose alg = Some a) \<and>
      (\<exists>material. key_material_of lib (key_parameters k) = Some material \<and> material_parse lib material a = Some parsed))"

lemma parse_all_iff: "parse_all parse as = Some vs \<longleftrightarrow> map fst vs = as \<and> (\<forall>(a, k) \<in> set vs. parse a = Some k)"
  by (induction as arbitrary: vs) (auto simp: bind_eq_Some_conv Cons_eq_map_conv map_eq_Cons_conv)

lemma key_algorithms_serve:
  assumes "key_algorithms configured family explicit = Inr algorithms" "a \<in> set algorithms"
  shows "a \<in> set configured \<and> alg_matches a family \<and> (case explicit of None \<Rightarrow> True | Some alg \<Rightarrow> from_jose alg = Some a)"
  using assms by (auto simp: key_algorithms_def split: option.splits if_splits)

lemma admit_key_serves:
  assumes "admit_key lib configured k = Inr key"
  shows "jk_kid key = key_id k" "jk_verifiers key \<noteq> []"
    "(a, parsed) \<in> set (jk_verifiers key) \<Longrightarrow> serves lib configured k a parsed"
proof -
  from assms obtain family algorithms material verifiers where k:
    "signature_usage k" "key_family_of (key_parameters k) = Some family"
    "key_algorithms configured family (key_algorithm k) = Inr algorithms" "algorithms \<noteq> []"
    "key_material_of lib (key_parameters k) = Some material"
    "parse_all (material_parse lib material) algorithms = Some verifiers"
    "key = \<lparr>jk_kid = key_id k, jk_verifiers = verifiers\<rparr>"
    unfolding admit_key_def bind_result_Inr ensured_simps okay_or_simps by (auto simp: bind_eq_Some_conv)
  then show "jk_kid key = key_id k" "jk_verifiers key \<noteq> []" by (auto simp: parse_all_iff)
  show "serves lib configured k a parsed" if "(a, parsed) \<in> set (jk_verifiers key)"
  proof -
    from that k(6,7) have "a \<in> set algorithms" "material_parse lib material a = Some parsed"
      by (force simp: parse_all_iff)+
    with key_algorithms_serve[OF k(3), of a] k show ?thesis by (auto simp: serves_def)
  qed
qed

lemma admit_entries_keys:
  "fst (admit_entries lib configured js (keys, rejected)) =
     keys @ List.map_filter (\<lambda>j. case admit_entry lib configured j of Inr key \<Rightarrow> Some key | Inl _ \<Rightarrow> None) js"
  by (induction js arbitrary: keys rejected) (auto simp: map_filter_simps split: sum.splits)

text \<open>Every key of a parsed set is admitted from an entry of the document.\<close>

definition document_keys :: "('k, 'z) jose_lib_scheme \<Rightarrow> bytes \<Rightarrow> jwk set" where
  "document_keys lib bs =
     (case Option.bind (jl_from_str lib bs) as_jwks of
        None \<Rightarrow> {} | Some entries \<Rightarrow> {k. \<exists>j \<in> set entries. jl_jwk lib j = Some k})"

lemma parse_key_set_admitted:
  assumes "parse_key_set lib configured bs = Inr keys" "key \<in> set keys"
  shows "\<exists>k \<in> document_keys lib bs. admit_key lib configured k = Inr key"
proof -
  from assms(1) obtain entries where e: "Option.bind (jl_from_str lib bs) as_jwks = Some entries"
    "keys = fst (admit_entries lib configured entries ([], \<lambda>_. 0))"
    unfolding parse_key_set_def bind_result_Inr okay_or_simps Let_def case_prod_beta by (metis Inl_Inr_False Inr_inject)
  with assms(2) obtain j where "j \<in> set entries" "admit_entry lib configured j = Inr key"
    by (auto simp: admit_entries_keys List.map_filter_def split: sum.splits)
  with e show ?thesis by (auto simp: admit_entry_def document_keys_def bind_result_Inr)
qed

lemma verify_loop_ok: "verify_loop ok miss ks = Inr u \<longleftrightarrow> (\<exists>k \<in> set ks. ok k)"
  by (induction ks arbitrary: miss) auto

lemma verify_loop_miss:
  "verify_loop ok miss ks = Inl e \<longleftrightarrow> (\<forall>k \<in> set ks. \<not> ok k) \<and> e = (if ks = [] then miss else BadSignature)"
  by (induction ks arbitrary: miss) auto

lemma candidates_serve:
  assumes "parse_key_set lib configured bs = Inr keys" "parsed \<in> set (key_candidates keys kid a)"
  shows "\<exists>k \<in> document_keys lib bs. serves lib configured k a parsed \<and> (kid = None \<or> key_id k = kid)"
proof -
  from assms(2) obtain key where key: "key \<in> set keys" "kid = None \<or> jk_kid key = kid" "(a, parsed) \<in> set (jk_verifiers key)"
    by (fastforce simp: key_candidates_def jk_verifier_def List.map_filter_def dest: map_of_SomeD split: option.splits)
  from parse_key_set_admitted[OF assms(1) key(1)] obtain k
    where "k \<in> document_keys lib bs" "admit_key lib configured k = Inr key" by blast
  with admit_key_serves[OF this(2)] key show ?thesis by auto
qed

lemma split_last_dot_Some:
  assumes "split_last_dot bs = Some (a, b)"
  shows "bs = a @ 0x2E # b \<and> 0x2E \<notin> set b"
proof -
  obtain r where r: "r = takeWhile (\<lambda>b. b \<noteq> 0x2E) (rev bs)" by blast
  from assms have b: "b = rev r" and ne: "length r \<noteq> length bs" and a: "a = take (length bs - length r - 1) bs"
    by (auto simp: split_last_dot_def Let_def r split: if_splits)
  have split: "rev bs = r @ dropWhile (\<lambda>b. b \<noteq> 0x2E) (rev bs)" by (simp add: r)
  with ne have "dropWhile (\<lambda>b. b \<noteq> 0x2E) (rev bs) \<noteq> []" by (metis append_Nil2 length_rev)
  then obtain rest where "dropWhile (\<lambda>b. b \<noteq> 0x2E) (rev bs) = 0x2E # rest"
    by (metis (mono_tags, lifting) hd_dropWhile list.collapse)
  with split have "rev bs = r @ 0x2E # rest" by simp
  then have bs: "bs = rev rest @ 0x2E # rev r" by (simp add: rev_eq_append_conv)
  then have "a = rev rest" by (simp add: a)
  with bs b r show ?thesis by (auto dest: set_takeWhileD)
qed

lemma check_signature_ok:
  assumes "check_signature lib keys answer message signature kid a = Inr u"
  shows "\<exists>ks. (ks = keys \<or> answer = Refreshed ks) \<and> (\<exists>k \<in> set (key_candidates ks kid a). jl_verify_sig lib k message signature)"
  using assms
  by (auto simp: check_signature_def verify_signature_after_refresh_def key_set_verify_def verify_loop_ok
      split: sum.splits if_splits unknown_key_refresh.splits)

subsection \<open>Tokens that yield a principal\<close>

text \<open>What stands behind a token that was accepted: a key of a trusted document and the claims of its payload.\<close>

definition jwt_evidence ::
  "('k, 'z) jose_lib_scheme \<Rightarrow> jwt_verifier \<Rightarrow> bytes set \<Rightarrow> nat \<Rightarrow> bytes \<Rightarrow> principal \<Rightarrow> bool" where
  "jwt_evidence lib v documents now token p =
     (\<exists>header payload signature h sig a body c iss aud.
        token = header @ 0x2E # payload @ 0x2E # signature \<and> 0x2E \<notin> set payload \<and> 0x2E \<notin> set signature \<and>
        Option.bind (jl_decode lib header) (jl_header lib) = Some h \<and>
        (jh_crit h = None \<or> jh_crit h = Some []) \<and> admitted_type (jv_profile v) (jh_typ h) \<and>
        from_jose (jh_alg h) = Some a \<and> jl_decode_slice lib MAX_SIGNATURE_BYTES signature = Some sig \<and>
        (\<exists>doc \<in> documents. \<exists>k \<in> document_keys lib doc. \<exists>parsed.
           serves lib (jv_algorithms v) k a parsed \<and> (jh_kid h = None \<or> key_id k = jh_kid h) \<and>
           jl_verify_sig lib parsed (header @ 0x2E # payload) sig) \<and>
        jl_decode lib payload = Some body \<and> Option.bind (jl_from_str lib body) as_jwt_claims = Some c \<and>
        jc_iss c = Some iss \<and> cp_issuer (jv_policy v) \<in> set (values_of iss) \<and>
        jc_aud c = Some aud \<and> set (values_of aud) \<inter> set (cp_audiences (jv_policy v)) \<noteq> {} \<and>
        jc_exp c = Some (expiry_epoch_seconds p) \<and> in_lifetime (expiry_epoch_seconds p) (jc_nbf c) now \<and>
        principal_ok (jv_policy v) body token p)"

lemma crit_admitted: "(case c of None \<Rightarrow> True | Some crit \<Rightarrow> crit = []) \<longleftrightarrow> c = None \<or> c = Some []"
  by (simp split: option.splits)

lemma verify_jwt_parts:
  assumes "verify_jwt lib v keys answer (Inr now) token = Inr p"
  obtains message signature header payload h0 h a sig body where
    "split_last_dot token = Some (message, signature)" "split_last_dot message = Some (header, payload)"
    "jl_decode lib header = Some h0" "jl_header lib h0 = Some h"
    "jh_crit h = None \<or> jh_crit h = Some []" "from_jose (jh_alg h) = Some a" "a \<in> set (jv_algorithms v)"
    "admitted_type (jv_profile v) (jh_typ h)" "jl_decode_slice lib MAX_SIGNATURE_BYTES signature = Some sig"
    "check_signature lib keys answer message sig (jh_kid h) a = Inr ()" "jl_decode lib payload = Some body"
    "validate_jwt_claims (jl_from_str lib) body (jv_policy v) (jv_profile v) now token = Inr p"
  using assms unfolding verify_jwt_def Let_def
  by (auto simp: bind_result_Inr crit_admitted split: option.splits if_splits)

lemma verify_jwt_evidence:
  assumes ok: "verify_jwt lib v keys answer (Inr now) token = Inr p" and now: "now \<le> u64_max"
    and keys: "\<And>ks. ks = keys \<or> answer = Refreshed ks \<Longrightarrow> \<exists>doc \<in> documents. parse_key_set lib (jv_algorithms v) doc = Inr ks"
  shows "jwt_evidence lib v documents now token p"
proof -
  from ok obtain message signature header payload h0 h a sig body where parts:
    "split_last_dot token = Some (message, signature)" "split_last_dot message = Some (header, payload)"
    "jl_decode lib header = Some h0" "jl_header lib h0 = Some h"
    "jh_crit h = None \<or> jh_crit h = Some []" "from_jose (jh_alg h) = Some a" "a \<in> set (jv_algorithms v)"
    "admitted_type (jv_profile v) (jh_typ h)" "jl_decode_slice lib MAX_SIGNATURE_BYTES signature = Some sig"
    and sg: "check_signature lib keys answer message sig (jh_kid h) a = Inr ()"
    and body: "jl_decode lib payload = Some body"
    and claims: "validate_jwt_claims (jl_from_str lib) body (jv_policy v) (jv_profile v) now token = Inr p"
    by (rule verify_jwt_parts)
  from check_signature_ok[OF sg] keys obtain ks doc parsed where doc: "doc \<in> documents"
    and "parse_key_set lib (jv_algorithms v) doc = Inr ks" "parsed \<in> set (key_candidates ks (jh_kid h) a)"
    and sig: "jl_verify_sig lib parsed message sig" by blast
  from candidates_serve[OF this(2,3)] obtain k where k: "k \<in> document_keys lib doc"
    "serves lib (jv_algorithms v) k a parsed" "jh_kid h = None \<or> key_id k = jh_kid h" by blast
  from split_last_dot_Some[OF parts(1)] split_last_dot_Some[OF parts(2)]
  have dots: "token = message @ 0x2E # signature" "message = header @ 0x2E # payload" "0x2E \<notin> set signature"
    "0x2E \<notin> set payload" by simp_all
  from parts(3,4) have h: "Option.bind (jl_decode lib header) (jl_header lib) = Some h" by simp
  from jwt_principal[OF claims now] show ?thesis
    unfolding jwt_evidence_def using parts(5,6,8,9) doc k sig dots h body
    by (metis append.assoc append_Cons)
qed

end
