(* ===== verification/BearerRefresh.thy ===== *)
theory BearerRefresh
  imports BearerKeys
begin

text \<open>
  \<open>crates/infra-bearerauthn/src/refresh.rs\<close>: the key store that every request shares and the one worker that fetches
  key documents, as a step relation, and the token verification on top of it.

  An \<open>Arc\<close> of a key set is its address and its content, so that \<open>Arc::ptr_eq\<close> compares addresses. The watch channel is the
  state it holds: each closure runs under its lock and is one step. \<open>Notify\<close> holds at most one permit. The counters of
  tickets are \<^typ>\<open>nat\<close>: at one fetch per request they cannot reach \<open>2 ^ 64\<close>.
\<close>

subsection \<open>The key store\<close>

record 'k arc =
  arc_address :: nat
  arc_keys :: "'k key_set"

record 'k key_store =
  ks_keys :: "'k arc"
  ks_requested :: nat
  ks_finished :: nat
  ks_last_started :: instant
  ks_last_succeeded :: bool
  ks_stopped :: bool

definition REFRESH_INTERVAL :: duration where "REFRESH_INTERVAL = from_secs 900"

definition REFRESH_COOLDOWN :: duration where "REFRESH_COOLDOWN = from_secs 30"

definition key_store_new :: "instant \<Rightarrow> 'k arc \<Rightarrow> 'k key_store" where
  "key_store_new now keys =
     \<lparr>ks_keys = keys, ks_requested = 0, ks_finished = 0, ks_last_started = now, ks_last_succeeded = True, ks_stopped = False\<rparr>"

text \<open>
  \<open>refresh_for_unknown_key\<close> up to the wait: it answers at once, joins the fetch in flight or starts one. The
  elapsed time is read at \<open>now\<close> and the start at \<open>now'\<close>.
\<close>

datatype 'k refresh_claim = Answered "'k arc unknown_key_refresh" | Joined nat | Started nat

definition claim_refresh ::
  "instant \<Rightarrow> instant \<Rightarrow> 'k arc \<Rightarrow> 'k key_store \<Rightarrow> 'k key_store \<times> 'k refresh_claim" where
  "claim_refresh now now' checked st =
     (if ks_stopped st then (st, Answered RefreshUnavailable)
      else if ks_requested st > ks_finished st then (st, Joined (ks_requested st))
      else if duration_since now (ks_last_started st) < REFRESH_COOLDOWN then
        (st, Answered
           (if ks_last_succeeded st then
              (if arc_address (ks_keys st) = arc_address checked then StillUnknown else Refreshed (ks_keys st))
            else RefreshUnavailable))
      else
        (st\<lparr>ks_requested := ks_requested st + 1, ks_last_started := now'\<rparr>, Started (ks_requested st + 1)))"

text \<open>One look of \<open>wait_for\<close> at the state: the answer once the ticket is served or the store stopped.\<close>

definition awaited :: "'k key_store \<Rightarrow> nat \<Rightarrow> 'k arc unknown_key_refresh option" where
  "awaited st ticket =
     (if ks_stopped st \<or> ks_finished st \<ge> ticket then
        Some (if \<not> ks_stopped st \<and> ks_last_succeeded st then Refreshed (ks_keys st) else RefreshUnavailable)
      else None)"

definition request_periodic :: "instant \<Rightarrow> 'k key_store \<Rightarrow> 'k key_store" where
  "request_periodic now st =
     (if ks_requested st > ks_finished st then st
      else st\<lparr>ks_requested := ks_requested st + 1, ks_last_started := now\<rparr>)"

definition pending :: "'k key_store \<Rightarrow> nat option" where
  "pending st = (if ks_requested st > ks_finished st then Some (ks_requested st) else None)"

datatype refresh_failure = FetchFailure provider_failure | ParseFailure | NoUsableKeysFailure

definition finish_fetch :: "nat \<Rightarrow> refresh_failure + 'k arc \<Rightarrow> 'k key_store \<Rightarrow> 'k key_store" where
  "finish_fetch ticket replacement st =
     (case replacement of Inr keys \<Rightarrow> st\<lparr>ks_keys := keys\<rparr> | Inl _ \<Rightarrow> st)
       \<lparr>ks_finished := ticket, ks_last_succeeded := is_ok replacement\<rparr>"

definition stop_store :: "'k key_store \<Rightarrow> 'k key_store" where
  "stop_store st = st\<lparr>ks_stopped := True\<rparr>"

definition fetch_key_set ::
  "('k, 'z) jose_lib_scheme \<Rightarrow> jwt_algorithm list \<Rightarrow> nat \<Rightarrow> provider_failure + bytes \<Rightarrow> refresh_failure + 'k arc" where
  "fetch_key_set lib algorithms address fetched =
     (case fetched of
        Inl e \<Rightarrow> Inl (FetchFailure e)
      | Inr bs \<Rightarrow>
          (case parse_key_set lib algorithms bs of
             Inl KeySetParse \<Rightarrow> Inl ParseFailure
           | Inl NoUsableKeys \<Rightarrow> Inl NoUsableKeysFailure
           | Inr keys \<Rightarrow> Inr \<lparr>arc_address = address, arc_keys = keys\<rparr>))"

definition refresh_period_for_sample :: "nat option \<Rightarrow> duration" where
  "refresh_period_for_sample sample =
     (let spread_ns = 90000000000 * (case sample of None \<Rightarrow> 0 | Some s \<Rightarrow> s) div u16_max
      in if spread_ns \<le> REFRESH_INTERVAL then REFRESH_INTERVAL - spread_ns else REFRESH_INTERVAL)"

subsection \<open>The worker and the requests\<close>

datatype refresh_worker = Waiting | Draining | Fetching nat | Exited

text \<open>
  Beside the store: the permit of \<open>Notify\<close>, where the worker is, how many requests started a fetch and have yet to
  notify, the clock, the next periodic refresh and the cancellation. For the statements it keeps the documents the
  provider supplied and the starts of fetches with the mark of those a request started.
\<close>

record 'k refresh_system =
  rs_store :: "'k key_store"
  rs_wake :: bool
  rs_worker :: refresh_worker
  rs_notifiers :: nat
  rs_now :: instant
  rs_next :: instant
  rs_cancelled :: bool
  rs_fresh :: nat
  rs_documents :: "bytes list"
  rs_starts :: "(instant \<times> bool) list"

text \<open>\<open>prepare_with_provider\<close> at its end: the first document installed and the worker not yet polled.\<close>

definition refresh_init :: "instant \<Rightarrow> nat option \<Rightarrow> bytes \<Rightarrow> 'k key_set \<Rightarrow> 'k refresh_system" where
  "refresh_init now sample doc keys =
     \<lparr>rs_store = key_store_new now \<lparr>arc_address = 0, arc_keys = keys\<rparr>, rs_wake = False, rs_worker = Waiting,
      rs_notifiers = 0, rs_now = now, rs_next = now + refresh_period_for_sample sample, rs_cancelled = False,
      rs_fresh = 1, rs_documents = [doc], rs_starts = [(now, False)]\<rparr>"

definition ask :: "instant \<Rightarrow> 'k arc \<Rightarrow> 'k refresh_system \<Rightarrow> 'k refresh_system" where
  "ask now' checked s =
     (case claim_refresh (rs_now s) now' checked (rs_store s) of
        (st, Started _) \<Rightarrow>
          s\<lparr>rs_store := st, rs_now := now', rs_notifiers := rs_notifiers s + 1, rs_starts := rs_starts s @ [(now', True)]\<rparr>
      | (st, _) \<Rightarrow> s\<lparr>rs_store := st, rs_now := now'\<rparr>)"

definition notify_one :: "'k refresh_system \<Rightarrow> 'k refresh_system" where
  "notify_one s = s\<lparr>rs_wake := True, rs_notifiers := rs_notifiers s - 1\<rparr>"

text \<open>The branches of the worker's \<open>select!\<close>, the check of \<open>pending\<close>, and the end of a fetch.\<close>

definition worker_notified :: "'k refresh_system \<Rightarrow> 'k refresh_system" where
  "worker_notified s = s\<lparr>rs_wake := False, rs_worker := Draining\<rparr>"

definition worker_timer :: "instant \<Rightarrow> instant \<Rightarrow> nat option \<Rightarrow> 'k refresh_system \<Rightarrow> 'k refresh_system" where
  "worker_timer now' now'' sample s =
     s\<lparr>rs_store := request_periodic now' (rs_store s),
       rs_next := now'' + refresh_period_for_sample sample,
       rs_now := now'',
       rs_worker := Draining,
       rs_starts := rs_starts s @ (if pending (rs_store s) = None then [(now', False)] else [])\<rparr>"

definition worker_drain :: "'k refresh_system \<Rightarrow> 'k refresh_system" where
  "worker_drain s =
     s\<lparr>rs_worker := (case pending (rs_store s) of Some ticket \<Rightarrow> Fetching ticket | None \<Rightarrow> Waiting)\<rparr>"

definition worker_finish ::
  "('k, 'z) jose_lib_scheme \<Rightarrow> jwt_algorithm list \<Rightarrow> nat \<Rightarrow> provider_failure + bytes \<Rightarrow> 'k refresh_system \<Rightarrow> 'k refresh_system" where
  "worker_finish lib algorithms ticket fetched s =
     s\<lparr>rs_store := finish_fetch ticket (fetch_key_set lib algorithms (rs_fresh s) fetched) (rs_store s),
       rs_fresh := rs_fresh s + 1,
       rs_documents := rs_documents s @ (case fetched of Inr doc \<Rightarrow> [doc] | Inl _ \<Rightarrow> []),
       rs_worker := Draining\<rparr>"

definition worker_exit :: "'k refresh_system \<Rightarrow> 'k refresh_system" where
  "worker_exit s = s\<lparr>rs_store := stop_store (rs_store s), rs_worker := Exited\<rparr>"

text \<open>
  Requests come with any checked set and at any time; the steps of a request and of the worker interleave. The branches are
  biased: cancellation first, then the permit, then the timer.
\<close>

inductive refresh_step ::
  "('k, 'z) jose_lib_scheme \<Rightarrow> jwt_algorithm list \<Rightarrow> 'k refresh_system \<Rightarrow> 'k refresh_system \<Rightarrow> bool"
  for lib :: "('k, 'z) jose_lib_scheme" and algorithms :: "jwt_algorithm list" where
  Ask: "rs_now s \<le> now' \<Longrightarrow> refresh_step lib algorithms s (ask now' checked s)"
| Notify: "0 < rs_notifiers s \<Longrightarrow> refresh_step lib algorithms s (notify_one s)"
| Notified: "rs_worker s = Waiting \<Longrightarrow> \<not> rs_cancelled s \<Longrightarrow> rs_wake s \<Longrightarrow> refresh_step lib algorithms s (worker_notified s)"
| Timer: "rs_worker s = Waiting \<Longrightarrow> \<not> rs_cancelled s \<Longrightarrow> \<not> rs_wake s \<Longrightarrow> rs_next s \<le> rs_now s \<Longrightarrow>
    rs_now s \<le> now' \<Longrightarrow> now' \<le> now'' \<Longrightarrow> refresh_step lib algorithms s (worker_timer now' now'' sample s)"
| Drain: "rs_worker s = Draining \<Longrightarrow> refresh_step lib algorithms s (worker_drain s)"
| Finish: "rs_worker s = Fetching ticket \<Longrightarrow> \<not> rs_cancelled s \<Longrightarrow>
    refresh_step lib algorithms s (worker_finish lib algorithms ticket fetched s)"
| Cancel: "refresh_step lib algorithms s (s\<lparr>rs_cancelled := True\<rparr>)"
| Exit: "rs_cancelled s \<Longrightarrow> rs_worker s = Waiting \<or> rs_worker s = Fetching ticket \<Longrightarrow>
    refresh_step lib algorithms s (worker_exit s)"
| Tick: "rs_now s \<le> now' \<Longrightarrow> refresh_step lib algorithms s (s\<lparr>rs_now := now'\<rparr>)"

subsection \<open>The invariant\<close>

fun demand_spaced :: "(instant \<times> bool) list \<Rightarrow> bool" where
  "demand_spaced (a # b # rest) =
     (fst a \<le> fst b \<and> (snd b \<longrightarrow> fst a + REFRESH_COOLDOWN \<le> fst b) \<and> demand_spaced (b # rest))"
| "demand_spaced _ = True"

lemma demand_spaced_snoc:
  "starts \<noteq> [] \<Longrightarrow>
     demand_spaced (starts @ [b]) \<longleftrightarrow>
       demand_spaced starts \<and> fst (last starts) \<le> fst b \<and> (snd b \<longrightarrow> fst (last starts) + REFRESH_COOLDOWN \<le> fst b)"
  by (induction starts rule: demand_spaced.induct) auto

lemma demand_spaced_rate:
  "demand_spaced starts \<Longrightarrow> starts \<noteq> [] \<Longrightarrow> \<not> snd (hd starts) \<Longrightarrow>
     length (filter snd starts) * REFRESH_COOLDOWN \<le> fst (last starts) - fst (hd starts) \<and> fst (hd starts) \<le> fst (last starts)"
proof (induction starts rule: rev_induct)
  case (snoc b starts)
  show ?case
  proof (cases "starts = []")
    case False
    with snoc have "demand_spaced starts" "fst (last starts) \<le> fst b"
      "snd b \<longrightarrow> fst (last starts) + REFRESH_COOLDOWN \<le> fst b" "\<not> snd (hd starts)"
      by (auto simp: demand_spaced_snoc)
    with snoc.IH False show ?thesis by auto
  qed (use snoc in auto)
qed simp

lemma demand_spaced_nth:
  "demand_spaced starts \<Longrightarrow>
     (\<forall>i < length starts. fst (starts ! i) \<le> fst (last starts)) \<and>
     (\<forall>j < length starts. \<forall>i < j. snd (starts ! j) \<longrightarrow> fst (starts ! i) + REFRESH_COOLDOWN \<le> fst (starts ! j))"
proof (induction starts rule: rev_induct)
  case (snoc b starts)
  show ?case
  proof (cases "starts = []")
    case False
    with snoc.prems have b: "demand_spaced starts" "fst (last starts) \<le> fst b"
      "snd b \<longrightarrow> fst (last starts) + REFRESH_COOLDOWN \<le> fst b" by (auto simp: demand_spaced_snoc)
    have upto: "fst (starts ! i) \<le> fst (last starts)" if "i < length starts" for i using snoc.IH b(1) that by blast
    then have "fst (starts ! i) \<le> fst b" "snd b \<longrightarrow> fst (starts ! i) + REFRESH_COOLDOWN \<le> fst b" if "i < length starts" for i
      using b(2,3) that by force+
    with snoc.IH b(1) show ?thesis by (auto simp: nth_append less_Suc_eq)
  qed simp
qed simp

definition refresh_inv :: "('k, 'z) jose_lib_scheme \<Rightarrow> jwt_algorithm list \<Rightarrow> 'k refresh_system \<Rightarrow> bool" where
  "refresh_inv lib algorithms s =
     (let st = rs_store s
      in ks_finished st \<le> ks_requested st \<and> ks_requested st \<le> Suc (ks_finished st) \<and>
         (ks_stopped st \<longleftrightarrow> rs_worker s = Exited) \<and>
         (\<forall>t. rs_worker s = Fetching t \<longrightarrow> t = ks_requested st \<and> ks_requested st = Suc (ks_finished st)) \<and>
         (ks_finished st < ks_requested st \<and> rs_worker s = Waiting \<longrightarrow> rs_wake s \<or> 0 < rs_notifiers s) \<and>
         (\<exists>doc \<in> set (rs_documents s). parse_key_set lib algorithms doc = Inr (arc_keys (ks_keys st))) \<and>
         rs_starts s \<noteq> [] \<and> fst (last (rs_starts s)) = ks_last_started st \<and> ks_last_started st \<le> rs_now s \<and>
         \<not> snd (hd (rs_starts s)) \<and> demand_spaced (rs_starts s))"

lemmas refresh_steps = ask_def claim_refresh_def notify_one_def worker_notified_def worker_timer_def worker_drain_def
  worker_finish_def worker_exit_def request_periodic_def pending_def finish_fetch_def stop_store_def fetch_key_set_def
  duration_since_def

lemma refresh_inv_init:
  "parse_key_set lib algorithms doc = Inr keys \<Longrightarrow> refresh_inv lib algorithms (refresh_init now sample doc keys)"
  by (simp add: refresh_inv_def refresh_init_def key_store_new_def)

lemma refresh_inv_ask: "refresh_inv lib algorithms s \<Longrightarrow> rs_now s \<le> now' \<Longrightarrow> refresh_inv lib algorithms (ask now' checked s)"
  by (auto simp: refresh_inv_def Let_def refresh_steps demand_spaced_snoc not_less split: refresh_claim.splits if_splits)

lemma refresh_inv_timer:
  "refresh_inv lib algorithms s \<Longrightarrow> rs_now s \<le> now' \<Longrightarrow> now' \<le> now'' \<Longrightarrow> rs_worker s = Waiting \<Longrightarrow>
     refresh_inv lib algorithms (worker_timer now' now'' sample s)"
  by (auto simp: refresh_inv_def Let_def refresh_steps demand_spaced_snoc split: if_splits)

lemma refresh_inv_finish:
  "refresh_inv lib algorithms s \<Longrightarrow> rs_worker s = Fetching t \<Longrightarrow>
     refresh_inv lib algorithms (worker_finish lib algorithms t fetched s)"
  by (auto simp: refresh_inv_def Let_def refresh_steps split: sum.splits key_set_error.splits)

lemma refresh_inv_step:
  assumes "refresh_step lib algorithms s t" "refresh_inv lib algorithms s"
  shows "refresh_inv lib algorithms t"
  using assms
proof cases
  case Ask
  then show ?thesis using assms refresh_inv_ask by blast
next
  case Timer
  then show ?thesis using assms refresh_inv_timer by blast
next
  case Finish
  then show ?thesis using assms refresh_inv_finish by blast
qed (use assms in \<open>auto simp: refresh_inv_def Let_def refresh_steps split: option.splits if_splits\<close>)

interpretation refresh: step_invariant "refresh_step lib algorithms" "refresh_inv lib algorithms"
  for lib :: "('k, 'z) jose_lib_scheme" and algorithms :: "jwt_algorithm list"
  by unfold_locales (rule refresh_inv_step)

lemma documents_step: "refresh_step lib algorithms s t \<Longrightarrow> set (rs_documents s) \<subseteq> set (rs_documents t)"
  by (cases rule: refresh_step.cases) (auto simp: refresh_steps split: refresh_claim.splits sum.splits)

lemma documents_run: "(refresh_step lib algorithms)\<^sup>*\<^sup>* s t \<Longrightarrow> set (rs_documents s) \<subseteq> set (rs_documents t)"
  by (induction rule: rtranclp_induct) (auto dest: documents_step)

lemma first_start_step: "refresh_step lib algorithms s t \<Longrightarrow> rs_starts s \<noteq> [] \<Longrightarrow> rs_starts t \<noteq> [] \<and> hd (rs_starts t) = hd (rs_starts s)"
  by (cases rule: refresh_step.cases) (auto simp: refresh_steps split: refresh_claim.splits sum.splits if_splits)

lemma first_start_run:
  assumes "(refresh_step lib algorithms)\<^sup>*\<^sup>* s t"
  shows "rs_starts s \<noteq> [] \<Longrightarrow> hd (rs_starts t) = hd (rs_starts s)"
proof -
  assume "rs_starts s \<noteq> []"
  with assms have "rs_starts t \<noteq> [] \<and> hd (rs_starts t) = hd (rs_starts s)"
    by (induction rule: rtranclp_induct) (auto dest: first_start_step)
  then show ?thesis by simp
qed

subsection \<open>Fetches\<close>

definition demo_jwk :: jwk where
  "demo_jwk = \<lparr>key_use = Some SignatureUse, key_operations = None, key_algorithm = Some EdDSA, key_id = Some [107],
     key_parameters = OctetPairKey CurveEd25519 [1]\<rparr>"

definition demo_claims :: json where
  "demo_claims = JObj [(bytes_of ''iss'', JStr [105]), (bytes_of ''aud'', JArr [JStr [98], JStr [97]]),
     (bytes_of ''exp'', JUInt 100), (bytes_of ''sub'', JStr [115]), (bytes_of ''scope'', JStr [122, 32, 121, 32, 122])]"

definition demo_jose :: "unit jose_lib" where
  "demo_jose = \<lparr>jl_from_str = (\<lambda>t. if t = [75] then Some (JObj [(bytes_of ''keys'', JArr [JNull])]) else Some demo_claims),
     jl_jwk = (\<lambda>_. Some demo_jwk),
     jl_header = (\<lambda>_. Some \<lparr>jh_alg = EdDSA, jh_typ = None, jh_kid = Some [107], jh_crit = None\<rparr>),
     jl_decode = (\<lambda>t. Some t), jl_decode_slice = (\<lambda>_ t. Some t),
     jl_rsa = (\<lambda>_ _ _. None), jl_raw = (\<lambda>_ _. Some ()), jl_verify_sig = (\<lambda>_ m sig. sig = [99])\<rparr>"

definition demo_keys :: "unit key_set" where
  "demo_keys = [\<lparr>jk_kid = Some [107], jk_verifiers = [(EdDsa, ())]\<rparr>]"

lemma demo_parse: "parse_key_set demo_jose [EdDsa] [75] = Inr demo_keys"
  by (simp add: parse_key_set_def demo_jose_def as_jwks_def struct_member_def required_field_def admit_entry_def okay_or_def
      demo_jwk_def admit_key_def ensured_def signature_usage_def key_algorithms_def alg_matches_def demo_keys_def Let_def)

text \<open>
  C21. Unknown keys cannot make the provider be asked without bound. However many requests ask for unknown keys and however their
  steps and the worker's interleave, a fetch that a request starts comes at least 30 seconds after every fetch started before it,
  whoever started that one and however long the store was idle, and at least 30 seconds after the preparation; so the fetches
  that requests started, taken 30 seconds each, fit in the time since then. At most one fetch is outstanding; and the installed
  key set is always parsed from a document that the provider supplied, the first one or a later one.
\<close>

theorem refresh_rate_bounded:
  assumes "parse_key_set lib algorithms doc = Inr keys"
    and "(refresh_step lib algorithms)\<^sup>*\<^sup>* (refresh_init now sample doc keys) s"
  shows "(\<forall>j < length (rs_starts s). \<forall>i < j. snd (rs_starts s ! j) \<longrightarrow>
        fst (rs_starts s ! i) + from_secs 30 \<le> fst (rs_starts s ! j)) \<and>
     hd (rs_starts s) = (now, False) \<and>
     length (filter snd (rs_starts s)) * from_secs 30 \<le> rs_now s - now \<and>
     ks_requested (rs_store s) - ks_finished (rs_store s) \<le> 1 \<and>
     (\<exists>d \<in> set (rs_documents s). parse_key_set lib algorithms d = Inr (arc_keys (ks_keys (rs_store s))))"
proof -
  from refresh.inv_run[OF assms(2) refresh_inv_init[OF assms(1)]] have inv: "refresh_inv lib algorithms s" .
  then have spaced: "demand_spaced (rs_starts s)" "rs_starts s \<noteq> []" "\<not> snd (hd (rs_starts s))"
    "fst (last (rs_starts s)) \<le> rs_now s" by (simp_all add: refresh_inv_def Let_def)
  have first: "hd (rs_starts s) = (now, False)" using first_start_run[OF assms(2)] by (simp add: refresh_init_def)
  have "\<forall>j < length (rs_starts s). \<forall>i < j. snd (rs_starts s ! j) \<longrightarrow> fst (rs_starts s ! i) + from_secs 30 \<le> fst (rs_starts s ! j)"
    using demand_spaced_nth[OF spaced(1)] by (simp add: REFRESH_COOLDOWN_def)
  moreover have "length (filter snd (rs_starts s)) * from_secs 30 \<le> rs_now s - now"
    using demand_spaced_rate[OF spaced(1-3)] spaced(4) unfolding first REFRESH_COOLDOWN_def
    by (metis diff_le_mono le_trans fst_conv)
  ultimately show ?thesis using inv first by (auto simp: refresh_inv_def Let_def)
qed

lemma demo_asked:
  "(refresh_step demo_jose [EdDsa])\<^sup>*\<^sup>* (refresh_init 0 None [75] demo_keys)
     (ask (from_secs 31) \<lparr>arc_address = 0, arc_keys = demo_keys\<rparr> (refresh_init 0 None [75] demo_keys\<lparr>rs_now := from_secs 30\<rparr>))"
proof -
  let ?s = "refresh_init 0 None [75] demo_keys :: unit refresh_system"
  have "refresh_step demo_jose [EdDsa] ?s (?s\<lparr>rs_now := from_secs 30\<rparr>)" by (rule Tick) (simp add: refresh_init_def)
  moreover have "refresh_step demo_jose [EdDsa] (?s\<lparr>rs_now := from_secs 30\<rparr>)
      (ask (from_secs 31) \<lparr>arc_address = 0, arc_keys = demo_keys\<rparr> (?s\<lparr>rs_now := from_secs 30\<rparr>))"
    by (rule Ask) (simp add: time_units)
  ultimately show ?thesis by auto
qed

theorem refresh_rate_bounded_witness:
  "(let s = ask (from_secs 31) \<lparr>arc_address = 0, arc_keys = demo_keys\<rparr> (refresh_init 0 None [75] demo_keys\<lparr>rs_now := from_secs 30\<rparr>)
    in rs_starts s = [(0, False), (from_secs 31, True)] \<and> fst (rs_starts s ! 0) + from_secs 30 \<le> fst (rs_starts s ! 1))"
proof -
  let ?s = "ask (from_secs 31) \<lparr>arc_address = 0, arc_keys = demo_keys\<rparr> (refresh_init 0 None [75] demo_keys\<lparr>rs_now := from_secs 30\<rparr>)"
  have starts: "rs_starts ?s = [(0, False), (from_secs 31, True)]"
    by (simp add: ask_def claim_refresh_def refresh_init_def key_store_new_def duration_since_def REFRESH_COOLDOWN_def time_units)
  moreover have "fst (rs_starts ?s ! 0) + from_secs 30 \<le> fst (rs_starts ?s ! 1)"
    using refresh_rate_bounded[OF demo_parse demo_asked, THEN conjunct1, rule_format, of 1 0] by (simp only: starts) simp
  ultimately show ?thesis by (simp only: Let_def)
qed

text \<open>What the request and the worker do on their own, whatever others ask: notify, wake, look, finish, exit.\<close>

inductive own_step ::
  "('k, 'z) jose_lib_scheme \<Rightarrow> jwt_algorithm list \<Rightarrow> 'k refresh_system \<Rightarrow> 'k refresh_system \<Rightarrow> bool"
  for lib :: "('k, 'z) jose_lib_scheme" and algorithms :: "jwt_algorithm list" where
  "0 < rs_notifiers s \<Longrightarrow> own_step lib algorithms s (notify_one s)"
| "rs_worker s = Waiting \<Longrightarrow> \<not> rs_cancelled s \<Longrightarrow> rs_wake s \<Longrightarrow> own_step lib algorithms s (worker_notified s)"
| "rs_worker s = Draining \<Longrightarrow> own_step lib algorithms s (worker_drain s)"
| "rs_worker s = Fetching ticket \<Longrightarrow> \<not> rs_cancelled s \<Longrightarrow>
     own_step lib algorithms s (worker_finish lib algorithms ticket fetched s)"
| "rs_cancelled s \<Longrightarrow> rs_worker s = Waiting \<or> rs_worker s = Fetching ticket \<Longrightarrow> own_step lib algorithms s (worker_exit s)"

lemma own_step_refresh: "own_step lib algorithms s t \<Longrightarrow> refresh_step lib algorithms s t"
  by (induction rule: own_step.induct) (auto intro: refresh_step.intros)

definition to_serve :: "'k refresh_system \<Rightarrow> nat" where
  "to_serve s =
     (case rs_worker s of Exited \<Rightarrow> 0 | Fetching _ \<Rightarrow> 1 | Draining \<Rightarrow> 2 | Waiting \<Rightarrow> if rs_wake s then 3 else 4)"

lemma awaited_None: "awaited st t = None \<longleftrightarrow> \<not> ks_stopped st \<and> ks_finished st < t"
  by (auto simp: awaited_def)

lemma to_serve_step:
  assumes "refresh_step lib algorithms s s'" "refresh_inv lib algorithms s" "t \<le> ks_requested (rs_store s)" "awaited (rs_store s) t = None"
  shows "awaited (rs_store s') t \<noteq> None \<or> (to_serve s' \<le> to_serve s \<and> t \<le> ks_requested (rs_store s'))"
  using assms
  by (cases rule: refresh_step.cases)
    (auto simp: awaited_None to_serve_def refresh_inv_def Let_def refresh_steps split: refresh_worker.splits if_splits)

lemma to_serve_own:
  assumes "refresh_inv lib algorithms s" "t \<le> ks_requested (rs_store s)" "awaited (rs_store s) t = None"
  shows "\<exists>s'. own_step lib algorithms s s' \<and> (awaited (rs_store s') t \<noteq> None \<or> to_serve s' < to_serve s)"
proof (cases "rs_worker s")
  case Waiting
  with assms have "rs_wake s \<or> 0 < rs_notifiers s" by (auto simp: refresh_inv_def Let_def awaited_None)
  then consider "rs_cancelled s" | "\<not> rs_cancelled s" "rs_wake s" | "\<not> rs_wake s" "0 < rs_notifiers s" by auto
  then show ?thesis
  proof cases
    case 1
    then have "own_step lib algorithms s (worker_exit s)" using Waiting by (intro own_step.intros) auto
    then show ?thesis using Waiting by (auto simp: awaited_None refresh_steps intro!: exI)
  next
    case 2
    then have "own_step lib algorithms s (worker_notified s)" using Waiting by (intro own_step.intros)
    then show ?thesis using 2 Waiting by (auto simp: to_serve_def refresh_steps intro!: exI)
  next
    case 3
    then have "own_step lib algorithms s (notify_one s)" by (intro own_step.intros)
    then show ?thesis using 3 Waiting by (auto simp: to_serve_def refresh_steps intro!: exI)
  qed
next
  case Draining
  then have "own_step lib algorithms s (worker_drain s)" by (intro own_step.intros)
  then show ?thesis using Draining assms by (auto simp: to_serve_def awaited_None refresh_steps intro!: exI)
next
  case (Fetching ticket)
  then have "own_step lib algorithms s (if rs_cancelled s then worker_exit s else worker_finish lib algorithms ticket (Inl ProviderTimeout) s)"
    by (auto intro: own_step.intros)
  then show ?thesis using Fetching assms
    by (auto simp: awaited_None refresh_inv_def Let_def refresh_steps intro!: exI split: if_splits)
next
  case Exited
  then show ?thesis using assms by (auto simp: refresh_inv_def Let_def awaited_None)
qed

text \<open>
  C20. No request waits for a fetch that nobody performs. In every reachable state in which a ticket that was handed out is not
  yet answered, whatever step happens either answers it or leaves it no further from its answer, and there is always a
  step of the worker or of the request that started the fetch, needing no other request and no timer, that answers it
  or brings it closer; the distance is at most four steps. In particular the wake-up is never lost, and cancellation
  answers every waiting request.
\<close>

theorem every_ticket_answered:
  assumes "parse_key_set lib algorithms doc = Inr keys"
    and "(refresh_step lib algorithms)\<^sup>*\<^sup>* (refresh_init now sample doc keys) s"
    and "ticket \<le> ks_requested (rs_store s)" "awaited (rs_store s) ticket = None"
  shows "to_serve s \<le> 4 \<and>
     (\<forall>s'. refresh_step lib algorithms s s' \<longrightarrow>
        awaited (rs_store s') ticket \<noteq> None \<or> (to_serve s' \<le> to_serve s \<and> ticket \<le> ks_requested (rs_store s'))) \<and>
     (\<exists>s'. own_step lib algorithms s s' \<and> refresh_step lib algorithms s s' \<and>
        (awaited (rs_store s') ticket \<noteq> None \<or> to_serve s' < to_serve s))"
proof -
  have inv: "refresh_inv lib algorithms s" by (rule refresh.inv_run[OF assms(2) refresh_inv_init[OF assms(1)]])
  from to_serve_own[OF inv assms(3,4)] obtain s' where
    "own_step lib algorithms s s'" "awaited (rs_store s') ticket \<noteq> None \<or> to_serve s' < to_serve s" by blast
  moreover have "to_serve s \<le> 4" by (simp add: to_serve_def split: refresh_worker.splits)
  ultimately show ?thesis using to_serve_step[OF _ inv assms(3,4)] own_step_refresh by blast
qed

theorem every_ticket_answered_witness:
  "\<exists>s'. own_step demo_jose [EdDsa]
     (ask (from_secs 31) \<lparr>arc_address = 0, arc_keys = demo_keys\<rparr> (refresh_init 0 None [75] demo_keys\<lparr>rs_now := from_secs 30\<rparr>)) s'"
proof -
  have "1 \<le> ks_requested (rs_store (ask (from_secs 31) \<lparr>arc_address = 0, arc_keys = demo_keys\<rparr>
      (refresh_init 0 None [75] demo_keys\<lparr>rs_now := from_secs 30\<rparr>)))"
    "awaited (rs_store (ask (from_secs 31) \<lparr>arc_address = 0, arc_keys = demo_keys\<rparr>
      (refresh_init 0 None [75] demo_keys\<lparr>rs_now := from_secs 30\<rparr>))) 1 = None"
    by (simp_all add: ask_def claim_refresh_def refresh_init_def key_store_new_def duration_since_def REFRESH_COOLDOWN_def
        time_units awaited_None)
  from every_ticket_answered[OF demo_parse demo_asked this] show ?thesis by blast
qed

subsection \<open>Verification over the store\<close>

text \<open>
  What \<open>refresh_for_unknown_key\<close> returns to a request that asks in \<open>s\<close> and is answered in \<open>t\<close>: at once, or by the look at the store
  that ends its wait.
\<close>

definition refresh_answer :: "'k refresh_system \<Rightarrow> 'k arc \<Rightarrow> 'k refresh_system \<Rightarrow> 'k arc unknown_key_refresh \<Rightarrow> bool" where
  "refresh_answer s checked t answer =
     (case snd (claim_refresh (rs_now s) (rs_now s) checked (rs_store s)) of
        Answered r \<Rightarrow> answer = r
      | Joined ticket \<Rightarrow> awaited (rs_store t) ticket = Some answer
      | Started ticket \<Rightarrow> awaited (rs_store t) ticket = Some answer)"

fun refreshed_keys :: "'k arc unknown_key_refresh \<Rightarrow> 'k key_set unknown_key_refresh" where
  "refreshed_keys (Refreshed a) = Refreshed (arc_keys a)"
| "refreshed_keys StillUnknown = StillUnknown"
| "refreshed_keys RefreshUnavailable = RefreshUnavailable"

lemma refresh_answer_keys:
  assumes "refresh_answer s checked t (Refreshed a)"
  shows "a = ks_keys (rs_store s) \<or> a = ks_keys (rs_store t)"
  using assms by (auto simp: refresh_answer_def claim_refresh_def awaited_def split: if_splits)

text \<open>
  C17. A token yields a principal only on the evidence of the provider. Whatever keys the store held when the token was checked and whatever
  the store answered after a refresh, over any interleaving of requests, fetches and cancellation: the signature of the token's own header and
  payload bytes verified under a key that an entry of a document of the provider supplied, for signatures, under an algorithm
  that is configured, that the header names, that belongs to the family of that key and is not another than
  the entry names, and whose identifier the header names if it names one; the header marks no critical extension and its type is admitted;
  the claims name the configured issuer and an accepted audience and the reading of the clock lies in their lifetime
  with 30 seconds of leeway; and the principal carries the configured issuer, a subject or a client, scopes of the
  scope grammar and the presented token.
\<close>

theorem jwt_principal_trusted:
  assumes prepared: "parse_key_set lib (jv_algorithms v) doc = Inr keys0"
    and checked: "(refresh_step lib (jv_algorithms v))\<^sup>*\<^sup>* (refresh_init start sample doc keys0) s0"
    and asked: "(refresh_step lib (jv_algorithms v))\<^sup>*\<^sup>* s0 s"
    and answered: "(refresh_step lib (jv_algorithms v))\<^sup>*\<^sup>* s t"
    and answer: "refresh_answer s (ks_keys (rs_store s0)) t answer"
    and ok: "verify_jwt lib v (arc_keys (ks_keys (rs_store s0))) (refreshed_keys answer) (Inr now) token = Inr p"
    and now: "now \<le> u64_max"
  shows "jwt_evidence lib v (set (rs_documents t)) now token p"
proof (rule verify_jwt_evidence[OF ok now])
  fix ks
  assume ks: "ks = arc_keys (ks_keys (rs_store s0)) \<or> refreshed_keys answer = Refreshed ks"
  have inv: "refresh_inv lib (jv_algorithms v) s0" "refresh_inv lib (jv_algorithms v) s" "refresh_inv lib (jv_algorithms v) t"
    using refresh.inv_run[OF _ refresh_inv_init[OF prepared]] checked asked answered by (meson rtranclp_trans)+
  have docs: "set (rs_documents s0) \<subseteq> set (rs_documents t)" "set (rs_documents s) \<subseteq> set (rs_documents t)"
    using documents_run[OF asked] documents_run[OF answered] by auto
  have "\<exists>x \<in> {s0, s, t}. ks = arc_keys (ks_keys (rs_store x))"
    using ks answer refresh_answer_keys[of s _ t] by (cases answer) auto
  then obtain x where x: "x \<in> {s0, s, t}" "ks = arc_keys (ks_keys (rs_store x))" by blast
  then have "refresh_inv lib (jv_algorithms v) x" "set (rs_documents x) \<subseteq> set (rs_documents t)" using inv docs by auto
  with x(2) show "\<exists>d \<in> set (rs_documents t). parse_key_set lib (jv_algorithms v) d = Inr ks"
    unfolding refresh_inv_def Let_def by blast
qed

definition demo_verifier :: jwt_verifier where
  "demo_verifier = \<lparr>jv_policy = \<lparr>cp_issuer = [105], cp_audiences = [[97]]\<rparr>, jv_profile = ResourceServer, jv_algorithms = [EdDsa]\<rparr>"

definition demo_principal :: principal where
  "demo_principal = \<lparr>pr_identity = \<lparr>id_issuer = [105], id_subject = Some [115], id_client_id = None,
     id_scopes = [[121], [122]], id_payload = [98], id_access_token = [97, 46, 98, 46, 99], id_actor = None\<rparr>,
     expiry_epoch_seconds = 100\<rparr>"

lemma demo_verified:
  "verify_jwt demo_jose demo_verifier demo_keys StillUnknown (Inr 120) [97, 46, 98, 46, 99] = Inr demo_principal"
proof -
  have decoded: "as_jwt_claims demo_claims = Some \<lparr>jc_iss = Some (One [105]), jc_aud = Some (Many [[98], [97]]),
      jc_exp = Some 100, jc_nbf = None, jc_sub = Some [115], jc_client_id = None, jc_azp = None, jc_appid = None,
      jc_cid = None, jc_scope = Some (One [122, 32, 121, 32, 122]), jc_scp = None, jc_jti = None, jc_iat = None, jc_act = None\<rparr>"
    by (simp add: as_jwt_claims_def demo_claims_def struct_member_def optional_field_def present_field_def Let_def)
  have d: "split_last_dot [97, 46, 98, 46, 99] = Some ([97, 46, 98], [99])" "split_last_dot [97, 46, 98] = Some ([97], [98])"
    by (simp_all add: split_last_dot_def Let_def)
  have sg: "check_signature demo_jose demo_keys StillUnknown [97, 46, 98] [99] (Some [107]) EdDsa = Inr ()"
    by (simp add: check_signature_def key_set_verify_def key_candidates_def demo_keys_def jk_verifier_def List.map_filter_def demo_jose_def)
  have c: "validate_jwt_claims (jl_from_str demo_jose) [98] (jv_policy demo_verifier) ResourceServer 120 [97, 46, 98, 46, 99] = Inr demo_principal"
    unfolding validate_jwt_claims_def Let_def
    by (simp add: demo_jose_def decoded ensured_def okay_or_def demo_verifier_def check_registered_claims_def check_lifetime_def
        sat_add_def LEEWAY_SECONDS_def u64_max_def check_profile_def normalize_scopes_def scope_pieces_def is_scope_token_def
        or_else_def actor_of_def demo_principal_def non_empty_def)
  show ?thesis unfolding verify_jwt_def d okay_or_def Let_def
    using c sg d by (simp add: demo_jose_def demo_verifier_def admitted_type_def ensured_def okay_or_def)
qed

theorem jwt_principal_trusted_witness:
  "jwt_evidence demo_jose demo_verifier {[75]} 120 [97, 46, 98, 46, 99] demo_principal"
proof -
  let ?s = "refresh_init 0 None [75] demo_keys"
  have a: "refresh_answer ?s (ks_keys (rs_store ?s)) ?s StillUnknown"
    by (simp add: refresh_answer_def claim_refresh_def refresh_init_def key_store_new_def duration_since_def REFRESH_COOLDOWN_def time_units)
  have p: "parse_key_set demo_jose (jv_algorithms demo_verifier) [75] = Inr demo_keys" by (simp add: demo_verifier_def demo_parse)
  have v: "verify_jwt demo_jose demo_verifier (arc_keys (ks_keys (rs_store ?s))) (refreshed_keys StillUnknown) (Inr 120) [97, 46, 98, 46, 99] =
      Inr demo_principal"
    by (simp add: refresh_init_def key_store_new_def demo_verified)
  from jwt_principal_trusted[OF p rtranclp.rtrancl_refl rtranclp.rtrancl_refl rtranclp.rtrancl_refl a v]
  show ?thesis by (simp add: refresh_init_def u64_max_def)
qed

end
