(* ===== verification/BearerIntrospect.thy ===== *)
theory BearerIntrospect
  imports BearerClaims
begin

text \<open>
  \<open>crates/infra-bearerauthn/src/provider.rs\<close> and \<open>introspection.rs\<close>: the exchange with the identity provider, the introspection of
  an opaque token, and the retention of verified responses.

  The URL parser, the HTTP client, the digest and the cache are other packages. A future is the list of what its polls answer. The two
  caches are met through what they answer; what they document is stated where it is relied on.
\<close>

subsection \<open>Provider URLs\<close>

record parsed_url =
  pu_scheme :: bytes
  pu_has_host :: bool
  pu_username :: bytes
  pu_password :: "bytes option"
  pu_query :: "bytes option"
  pu_fragment :: "bytes option"

record endpoint_url =
  eu_exact :: bytes
  eu_url :: parsed_url

definition HTTPS :: bytes where "HTTPS = bytes_of ''https''"

definition SCHEME_END :: bytes where "SCHEME_END = bytes_of ''://''"

text \<open>\<open>is_ascii_whitespace\<close> or \<open>is_ascii_control\<close>: every whitespace byte but the space is a control byte.\<close>

definition space_or_control :: "8 word \<Rightarrow> bool" where
  "space_or_control b = (b \<le> 0x20 \<or> b = 0x7F)"

fun after_separator :: "bytes \<Rightarrow> bytes \<Rightarrow> bytes option" where
  "after_separator sep [] = strip_prefix sep []"
| "after_separator sep (b # bs) =
     (case strip_prefix sep (b # bs) of Some r \<Rightarrow> Some r | None \<Rightarrow> after_separator sep bs)"

definition url_authority :: "bytes \<Rightarrow> bytes" where
  "url_authority raw =
     (case after_separator SCHEME_END raw of
        None \<Rightarrow> []
      | Some v \<Rightarrow> takeWhile (\<lambda>b. b \<notin> set [0x2F, 0x3F, 0x23]) v)"

definition admit_url :: "(bytes \<Rightarrow> parsed_url option) \<Rightarrow> bytes \<Rightarrow> bool \<Rightarrow> unit + endpoint_url" where
  "admit_url parse raw allow_query =
     bind_result (ensured (\<not> list_ex space_or_control raw) ()) (\<lambda>_.
     bind_result (okay_or () (parse raw)) (\<lambda>url.
     if pu_scheme url \<noteq> HTTPS \<or> \<not> pu_has_host url \<or> pu_username url \<noteq> [] \<or> pu_password url \<noteq> None \<or>
        pu_fragment url \<noteq> None \<or> (\<not> allow_query \<and> pu_query url \<noteq> None) \<or> 0x40 \<in> set (url_authority raw)
     then Inl () else Inr \<lparr>eu_exact = raw, eu_url = url\<rparr>))"

subsection \<open>One provider exchange\<close>

definition MAX_RESPONSE_BYTES :: nat where "MAX_RESPONSE_BYTES = 1048576"

definition PROVIDER_TIMEOUT :: duration where "PROVIDER_TIMEOUT = from_secs 3"

record transport_error =
  te_timeout :: bool
  te_connect :: bool

definition from_transport :: "transport_error \<Rightarrow> provider_failure" where
  "from_transport e = (if te_timeout e then ProviderTimeout else if te_connect e then ProviderConnect else ProviderTransfer)"

record provider_response =
  px_status :: nat
  px_content_type :: "bytes option"
  px_content_length :: "nat option"
  px_chunks :: "(transport_error + bytes) list"

definition APPLICATION_JSON :: bytes where "APPLICATION_JSON = bytes_of ''application/json''"

text \<open>\<open>HeaderValue::to_str\<close> admits visible ASCII, spaces and tabs; \<open>trim\<close> removes the last two.\<close>

definition to_str_byte :: "8 word \<Rightarrow> bool" where
  "to_str_byte b = ((0x20 \<le> b \<and> b < 0x7F) \<or> b = 0x09)"

definition trim_blank :: "bytes \<Rightarrow> bytes" where
  "trim_blank v =
     (let blank = \<lambda>b. b = 0x20 \<or> b = 0x09 in rev (dropWhile blank (rev (dropWhile blank v))))"

definition is_json_response :: "provider_response \<Rightarrow> bool" where
  "is_json_response r =
     (case px_content_type r of
        None \<Rightarrow> False
      | Some v \<Rightarrow> list_all to_str_byte v \<and> same_ignoring_case (trim_blank (takeWhile (\<lambda>b. b \<noteq> 0x3B) v)) APPLICATION_JSON)"

fun receive_chunks :: "bytes \<Rightarrow> (transport_error + bytes) list \<Rightarrow> provider_failure + bytes" where
  "receive_chunks body [] = Inr body"
| "receive_chunks body (Inl e # rest) = Inl (from_transport e)"
| "receive_chunks body (Inr chunk # rest) =
     (if length chunk > MAX_RESPONSE_BYTES - length body then Inl ProviderTooLarge
      else receive_chunks (body @ chunk) rest)"

definition receive_response :: "bool \<Rightarrow> transport_error + provider_response \<Rightarrow> provider_failure + bytes" where
  "receive_response require_json sent =
     (case sent of
        Inl e \<Rightarrow> Inl (from_transport e)
      | Inr r \<Rightarrow>
          if px_status r \<noteq> 200 then Inl (ProviderStatus (px_status r))
          else if require_json \<and> \<not> is_json_response r then Inl ProviderMediaType
          else if (case px_content_length r of None \<Rightarrow> False | Some n \<Rightarrow> n > MAX_RESPONSE_BYTES) then Inl ProviderTooLarge
          else receive_chunks [] (px_chunks r))"

text \<open>A biased \<open>select!\<close> of the scope's end and of a future: the first ready branch of the first ready poll.\<close>

fun race_stopped :: "(bool \<times> 'a option) list \<Rightarrow> 'a option option" where
  "race_stopped [] = None"
| "race_stopped ((stop, ready) # polls) =
     (if stop then Some None else case ready of Some x \<Rightarrow> Some (Some x) | None \<Rightarrow> race_stopped polls)"

text \<open>
  \<open>post_form_json\<close>: whether the scope has stopped at its checks, and the polls of the exchange. No value means that the caller
  dropped the future.
\<close>

record post_env =
  pe_stopped_first :: bool
  pe_stopped_built :: bool
  pe_exchange :: "(bool \<times> (transport_error + provider_response) option) list"
  pe_stopped_end :: bool

definition post_form_json :: "post_env \<Rightarrow> (provider_failure + bytes) option" where
  "post_form_json env =
     (if pe_stopped_first env \<or> pe_stopped_built env then Some (Inl ProviderTimeout)
      else case race_stopped (pe_exchange env) of
             None \<Rightarrow> None
           | Some None \<Rightarrow> Some (Inl ProviderTimeout)
           | Some (Some sent) \<Rightarrow>
               if pe_stopped_end env then Some (Inl ProviderTimeout) else Some (receive_response True sent))"

subsection \<open>Introspection\<close>

definition MAX_ENTRY_BYTES :: nat where "MAX_ENTRY_BYTES = 64 * 1024"

record cache_options =
  co_capacity :: nat
  co_ttl :: duration

definition cache_options_new :: "nat \<Rightarrow> duration \<Rightarrow> unit + cache_options" where
  "cache_options_new capacity ttl =
     (if \<not> (1 \<le> capacity \<and> capacity \<le> 1024) \<or> \<not> (from_secs 1 \<le> ttl \<and> ttl \<le> from_secs 300) then Inl ()
      else Inr \<lparr>co_capacity = capacity, co_ttl = ttl\<rparr>)"

text \<open>\<open>retention\<close>; the system time is in nanoseconds from the epoch and may precede it.\<close>

definition retention :: "principal \<Rightarrow> duration \<Rightarrow> int \<Rightarrow> duration" where
  "retention p ttl now =
     (if now < 0 \<or> length (id_payload (pr_identity p)) > MAX_ENTRY_BYTES then 0
      else if expiry_epoch_seconds p > i64_max then ttl
      else let token_expiry = int (from_secs (expiry_epoch_seconds p))
           in if now \<le> token_expiry then min (nat (token_expiry - now)) ttl else 0)"

record introspect_env =
  in_now_first :: "verification_error + nat"
  in_permit :: bool
  in_post :: post_env
  in_now_last :: "verification_error + nat"

definition introspect ::
  "(bytes \<Rightarrow> json option) \<Rightarrow> claim_policy \<Rightarrow> introspect_env \<Rightarrow> bytes \<Rightarrow> (verification_error + verified_introspection) option" where
  "introspect from_str policy env token =
     (case in_now_first env of
        Inl e \<Rightarrow> Some (Inl e)
      | Inr _ \<Rightarrow>
          if \<not> in_permit env then Some (Inl (unavailable_trust CapacityReason))
          else (case post_form_json (in_post env) of
                  None \<Rightarrow> None
                | Some (Inl failure) \<Rightarrow> Some (Inl (unavailable_trust (ProviderReason failure)))
                | Some (Inr response) \<Rightarrow>
                    Some (bind_result (in_now_last env) (\<lambda>now. validate_introspection_claims from_str response policy now token))))"

datatype fill = Fresh verified_introspection | Retained verified_introspection

text \<open>The initialization of a fill: a second look at the retained entry, else a fresh introspection that is inserted.\<close>

record fill_env =
  fl_now_first :: "verification_error + nat"
  fl_retained :: "verified_introspection option"
  fl_now_retained :: "verification_error + nat"
  fl_introspect :: introspect_env

definition fill_init ::
  "(bytes \<Rightarrow> json option) \<Rightarrow> claim_policy \<Rightarrow> fill_env \<Rightarrow> bytes \<Rightarrow> (verification_error + fill) option" where
  "fill_init from_str policy env token =
     (let fresh = map_option (\<lambda>r. bind_result r (\<lambda>v. Inr (Fresh v))) (introspect from_str policy (fl_introspect env) token)
      in case fl_now_first env of
           Inl e \<Rightarrow> Some (Inl e)
         | Inr _ \<Rightarrow>
             (case fl_retained env of
                None \<Rightarrow> fresh
              | Some v \<Rightarrow>
                  (case fl_now_retained env of
                     Inl e \<Rightarrow> Some (Inl e)
                   | Inr now \<Rightarrow> if reusable_at v now then Some (Inr (Retained v)) else fresh)))"

text \<open>One turn of the loop of \<open>verify_with_now\<close> and the loop; \<open>None\<close> when the caller drops the future.\<close>

record verify_turn =
  vt_retained :: "verified_introspection option"
  vt_now_retained :: "verification_error + nat"
  vt_filled :: "(verification_error + fill) option"
  vt_now_filled :: "verification_error + nat"

datatype turn_end = Returned "verification_error + principal" | Dropped | Again

definition filled_end :: "verify_turn \<Rightarrow> turn_end" where
  "filled_end t =
     (case vt_filled t of
        None \<Rightarrow> Dropped
      | Some (Inl e) \<Rightarrow> Returned (Inl e)
      | Some (Inr (Fresh v)) \<Rightarrow> Returned (bind_result (vt_now_filled t) (deliver v))
      | Some (Inr (Retained v)) \<Rightarrow>
          (case vt_now_filled t of
             Inl e \<Rightarrow> Returned (Inl e)
           | Inr now \<Rightarrow> if reusable_at v now then Returned (Inr (vi_principal v)) else Again))"

definition verify_turn_end :: "verify_turn \<Rightarrow> turn_end" where
  "verify_turn_end t =
     (case vt_retained t of
        None \<Rightarrow> filled_end t
      | Some v \<Rightarrow>
          (case vt_now_retained t of
             Inl e \<Rightarrow> Returned (Inl e)
           | Inr now \<Rightarrow> if reusable_at v now then Returned (Inr (vi_principal v)) else filled_end t))"

fun verify_turns :: "verify_turn list \<Rightarrow> (verification_error + principal) option" where
  "verify_turns [] = None"
| "verify_turns (t # ts) =
     (case verify_turn_end t of Returned r \<Rightarrow> Some r | Dropped \<Rightarrow> None | Again \<Rightarrow> verify_turns ts)"

record verify_env =
  vn_stopped :: bool
  vn_now :: "verification_error + nat"
  vn_direct :: introspect_env
  vn_now_direct :: "verification_error + nat"
  vn_turns :: "verify_turn list"

definition verify_introspection ::
  "(bytes \<Rightarrow> json option) \<Rightarrow> claim_policy \<Rightarrow> bool \<Rightarrow> verify_env \<Rightarrow> bytes \<Rightarrow> (verification_error + principal) option" where
  "verify_introspection from_str policy cached env token =
     (if vn_stopped env then Some (Inl (unavailable_trust (ProviderReason ProviderTimeout)))
      else case vn_now env of
             Inl e \<Rightarrow> Some (Inl e)
           | Inr _ \<Rightarrow>
               if \<not> cached then
                 (case introspect from_str policy (vn_direct env) token of
                    None \<Rightarrow> None
                  | Some r \<Rightarrow> Some (bind_result r (\<lambda>v. bind_result (vn_now_direct env) (deliver v))))
               else verify_turns (vn_turns env))"

subsection \<open>Bounds of the exchange\<close>

lemma receive_chunks_bounded:
  "receive_chunks body chunks = Inr r \<Longrightarrow> length body \<le> MAX_RESPONSE_BYTES \<Longrightarrow> length r \<le> MAX_RESPONSE_BYTES"
  by (induction body chunks rule: receive_chunks.induct) (auto split: if_splits)

lemma receive_bounded: "receive_response require_json sent = Inr r \<Longrightarrow> length r \<le> MAX_RESPONSE_BYTES"
  by (auto simp: receive_response_def split: sum.splits if_splits dest!: receive_chunks_bounded)

lemma receive_json: "receive_response True (Inr r) = Inr body \<Longrightarrow> px_status r = 200 \<and> is_json_response r"
  by (auto simp: receive_response_def split: if_splits)

text \<open>An admitted URL is HTTPS, has a host and no credentials or fragment, and its spelling is kept.\<close>

lemma admit_url_ok:
  assumes "admit_url parse raw allow_query = Inr u"
  shows "eu_exact u = raw \<and> parse raw = Some (eu_url u) \<and> pu_scheme (eu_url u) = HTTPS \<and> pu_has_host (eu_url u) \<and>
     pu_username (eu_url u) = [] \<and> pu_password (eu_url u) = None \<and> pu_fragment (eu_url u) = None \<and>
     0x40 \<notin> set (url_authority raw) \<and> (allow_query \<or> pu_query (eu_url u) = None) \<and> (\<forall>b \<in> set raw. 0x20 < b \<and> b \<noteq> 0x7F)"
  using assms by (auto simp: admit_url_def bind_result_Inr list_ex_iff space_or_control_def not_le split: if_splits)

subsection \<open>What a returned principal rests on\<close>

text \<open>A verified response of the provider to the introspection of a token, at a reading of the clock.\<close>

definition provider_evidence ::
  "(bytes \<Rightarrow> json option) \<Rightarrow> claim_policy \<Rightarrow> bytes \<Rightarrow> verified_introspection \<Rightarrow> bool" where
  "provider_evidence from_str policy token v =
     (\<exists>response now. now \<le> u64_max \<and> length response \<le> 1048576 \<and>
        validate_introspection_claims from_str response policy now token = Inr v)"

text \<open>The readings of \<open>unix_now\<close> fit \<open>u64\<close>.\<close>

definition clock_ok :: "verification_error + nat \<Rightarrow> bool" where
  "clock_ok r = (case r of Inl _ \<Rightarrow> True | Inr n \<Rightarrow> n \<le> u64_max)"

lemma introspect_evidence:
  assumes "introspect from_str policy env token = Some (Inr v)" "clock_ok (in_now_last env)"
  shows "provider_evidence from_str policy token v"
proof -
  from assms(1) obtain response now where
    "post_form_json (in_post env) = Some (Inr response)" "in_now_last env = Inr now"
    "validate_introspection_claims from_str response policy now token = Inr v"
    by (auto simp: introspect_def bind_result_Inr split: sum.splits if_splits option.splits)
  moreover from this(1) have "length response \<le> 1048576"
    by (auto simp: post_form_json_def MAX_RESPONSE_BYTES_def split: if_splits option.splits dest!: receive_bounded)
  ultimately show ?thesis using assms(2) by (auto simp: provider_evidence_def clock_ok_def)
qed

text \<open>
  What the caches document. An entry is inserted only by a fill, with the time it may be kept, and the cache returns for a key only an
  entry inserted under it, and none that may not be kept at all. A fill is answered by an initialization
  for the same key, the caller's own or that of a concurrent caller.
\<close>

definition inserted ::
  "(bytes \<Rightarrow> json option) \<Rightarrow> claim_policy \<Rightarrow> duration \<Rightarrow> (bytes \<Rightarrow> 'd) \<Rightarrow> 'd \<Rightarrow> verified_introspection \<Rightarrow> duration \<Rightarrow> bool" where
  "inserted from_str policy ttl digest key v kept =
     (\<exists>token env at_time. digest token = key \<and> introspect from_str policy env token = Some (Inr v) \<and>
        clock_ok (in_now_last env) \<and> kept = retention (vi_principal v) ttl at_time)"

definition cache_returns ::
  "(bytes \<Rightarrow> json option) \<Rightarrow> claim_policy \<Rightarrow> duration \<Rightarrow> (bytes \<Rightarrow> 'd) \<Rightarrow> 'd \<Rightarrow> verified_introspection option \<Rightarrow> bool" where
  "cache_returns from_str policy ttl digest key answer =
     (case answer of
        None \<Rightarrow> True
      | Some v \<Rightarrow> \<exists>kept. inserted from_str policy ttl digest key v kept \<and> 0 < kept)"

definition fill_returns ::
  "(bytes \<Rightarrow> json option) \<Rightarrow> claim_policy \<Rightarrow> duration \<Rightarrow> (bytes \<Rightarrow> 'd) \<Rightarrow> 'd \<Rightarrow> (verification_error + fill) option \<Rightarrow> bool" where
  "fill_returns from_str policy ttl digest key answer =
     (answer = None \<or> (\<exists>token env. digest token = key \<and> answer = fill_init from_str policy env token \<and>
        cache_returns from_str policy ttl digest key (fl_retained env) \<and> clock_ok (in_now_last (fl_introspect env))))"

definition caches_ok ::
  "(bytes \<Rightarrow> json option) \<Rightarrow> claim_policy \<Rightarrow> duration \<Rightarrow> (bytes \<Rightarrow> 'd) \<Rightarrow> 'd \<Rightarrow> verify_turn \<Rightarrow> bool" where
  "caches_ok from_str policy ttl digest key t =
     (cache_returns from_str policy ttl digest key (vt_retained t) \<and>
      fill_returns from_str policy ttl digest key (vt_filled t) \<and>
      clock_ok (vt_now_retained t) \<and> clock_ok (vt_now_filled t))"

lemma evidence_nbf:
  "provider_evidence from_str policy token v \<Longrightarrow> u64_option (vi_not_before v)"
  by (auto simp: provider_evidence_def dest!: introspected_principal)

lemma reusable_lifetime:
  assumes "reusable_at v now" "now \<le> u64_max" "u64_option (vi_not_before v)"
  shows "now < expiry_epoch_seconds (vi_principal v) \<and> in_lifetime (expiry_epoch_seconds (vi_principal v)) (vi_not_before v) now"
  using assms check_lifetime_iff[OF assms(2,3)] by (auto simp: reusable_at_def is_ok_iff)

lemma retention_bounds:
  "retention p ttl now \<le> ttl"
  "0 < retention p ttl now \<Longrightarrow> length (id_payload (pr_identity p)) \<le> MAX_ENTRY_BYTES"
  "0 < retention p ttl now \<Longrightarrow> expiry_epoch_seconds p \<le> i64_max \<Longrightarrow>
     now + int (retention p ttl now) \<le> int (from_secs (expiry_epoch_seconds p))"
  by (auto simp: retention_def Let_def min_def split: if_splits)

lemma cache_returns_evidence:
  assumes "cache_returns from_str policy ttl digest key (Some v)"
  shows "\<exists>token. digest token = key \<and> provider_evidence from_str policy token v \<and>
     length (id_payload (pr_identity (vi_principal v))) \<le> MAX_ENTRY_BYTES"
proof -
  from assms obtain token env at_time where t: "digest token = key" "introspect from_str policy env token = Some (Inr v)"
    "clock_ok (in_now_last env)" and "0 < retention (vi_principal v) ttl at_time"
    by (fastforce simp: cache_returns_def inserted_def)
  with retention_bounds(2) introspect_evidence[OF t(2,3)] show ?thesis by blast
qed

definition introspection_trusted ::
  "(bytes \<Rightarrow> json option) \<Rightarrow> claim_policy \<Rightarrow> bytes \<Rightarrow> nat \<Rightarrow> principal \<Rightarrow> bool" where
  "introspection_trusted from_str policy token now p =
     (\<exists>response c aud. length response \<le> 1048576 \<and>
        Option.bind (from_str (trim_json response)) as_envelope = Some True \<and>
        Option.bind (from_str (trim_json response)) as_active_claims = Some c \<and>
        cl_iss c = Some (cp_issuer policy) \<and>
        cl_aud c = Some aud \<and> set (values_of aud) \<inter> set (cp_audiences policy) \<noteq> {} \<and>
        cl_exp c = Some (expiry_epoch_seconds p) \<and> in_lifetime (expiry_epoch_seconds p) (cl_nbf c) now \<and>
        principal_ok policy (trim_json response) token p)"

lemma evidence_trusted:
  assumes "provider_evidence from_str policy token v" "in_lifetime (expiry_epoch_seconds (vi_principal v)) (vi_not_before v) now"
  shows "introspection_trusted from_str policy token now (vi_principal v)"
proof -
  from assms(1) obtain response before where r: "length response \<le> 1048576" "before \<le> u64_max"
    "validate_introspection_claims from_str response policy before token = Inr v"
    by (auto simp: provider_evidence_def)
  from introspected_principal[OF r(3,2)] assms(2) r(1) show ?thesis
    unfolding introspection_trusted_def by metis
qed

lemma delivered_trusted:
  assumes "provider_evidence from_str policy token v" "deliver v now = Inr p" "now \<le> u64_max"
  shows "introspection_trusted from_str policy token now p"
  using assms evidence_trusted[OF assms(1)] check_lifetime_iff[OF assms(3) evidence_nbf[OF assms(1)]]
  by (auto simp: deliver_def bind_result_Inr)

lemma reused_trusted:
  assumes "cache_returns from_str policy ttl digest key (Some v)" "reusable_at v now" "now \<le> u64_max"
  shows "\<exists>token. digest token = key \<and> introspection_trusted from_str policy token now (vi_principal v)"
proof -
  from cache_returns_evidence[OF assms(1)] obtain token
    where t: "digest token = key" "provider_evidence from_str policy token v" by blast
  with evidence_trusted[OF t(2)] reusable_lifetime[OF assms(2,3) evidence_nbf[OF t(2)]] show ?thesis by blast
qed

lemma fill_returns_cases:
  assumes "fill_returns from_str policy ttl digest key (Some (Inr f))"
  shows "case f of
      Fresh v \<Rightarrow> \<exists>token. digest token = key \<and> provider_evidence from_str policy token v
    | Retained v \<Rightarrow> cache_returns from_str policy ttl digest key (Some v)"
proof -
  from assms obtain token env where t: "digest token = key" "fill_init from_str policy env token = Some (Inr f)"
    "cache_returns from_str policy ttl digest key (fl_retained env)" "clock_ok (in_now_last (fl_introspect env))"
    by (auto simp: fill_returns_def)
  show ?thesis
  proof (cases f)
    case (Fresh v)
    with t(2) have "introspect from_str policy (fl_introspect env) token = Some (Inr v)"
      by (auto simp: fill_init_def Let_def bind_result_Inr split: sum.splits option.splits if_splits)
    with introspect_evidence t(1,4) Fresh show ?thesis by auto
  next
    case (Retained v)
    with t(2) have "fl_retained env = Some v"
      by (auto simp: fill_init_def Let_def bind_result_Inr split: sum.splits option.splits if_splits)
    with t(3) Retained show ?thesis by simp
  qed
qed

text \<open>
  The last clock reading of a turn before it delivers: a turn that finds a reusable entry delivers it on the reading of that look,
  and every other turn reads the clock again once its fill has answered.
\<close>

definition reuses :: "verify_turn \<Rightarrow> nat \<Rightarrow> bool" where
  "reuses t now \<longleftrightarrow> vt_now_retained t = Inr now \<and> (\<exists>v. vt_retained t = Some v \<and> reusable_at v now)"

definition last_reading :: "verify_turn \<Rightarrow> nat \<Rightarrow> bool" where
  "last_reading t now \<longleftrightarrow> (if \<exists>n. reuses t n then reuses t now else vt_now_filled t = Inr now)"

lemma filled_unless_reused:
  "verify_turn_end t = Returned (Inr p) \<Longrightarrow> (\<nexists>n. reuses t n) \<Longrightarrow> filled_end t = Returned (Inr p)"
  by (auto simp: verify_turn_end_def reuses_def split: option.splits sum.splits if_splits)

lemma reused_principal:
  "verify_turn_end t = Returned (Inr p) \<Longrightarrow> reuses t n \<Longrightarrow> \<exists>v. vt_retained t = Some v \<and> reusable_at v n \<and> p = vi_principal v"
  by (auto simp: verify_turn_end_def reuses_def)

lemma turn_trusted:
  assumes ok: "caches_ok from_str policy ttl digest key t" and p: "verify_turn_end t = Returned (Inr p)"
  shows "\<exists>token now. digest token = key \<and> last_reading t now \<and> introspection_trusted from_str policy token now p"
proof (cases "\<exists>n. reuses t n")
  case False
  then have last: "last_reading t now \<longleftrightarrow> vt_now_filled t = Inr now" for now by (simp add: last_reading_def)
  have filled: "filled_end t = Returned (Inr p)" by (rule filled_unless_reused[OF p False])
  then obtain f now where f: "vt_filled t = Some (Inr f)" "vt_now_filled t = Inr now"
    by (auto simp: filled_end_def bind_result_Inr split: option.splits sum.splits fill.splits)
  then have u64: "now \<le> u64_max" using ok by (auto simp: caches_ok_def clock_ok_def)
  from ok f have "fill_returns from_str policy ttl digest key (Some (Inr f))" by (simp add: caches_ok_def)
  note fill = fill_returns_cases[OF this]
  show ?thesis
  proof (cases f)
    case (Fresh v)
    with fill obtain token where "digest token = key" "provider_evidence from_str policy token v" by auto
    moreover have "deliver v now = Inr p" using filled f Fresh by (simp add: filled_end_def)
    ultimately show ?thesis using delivered_trusted u64 f(2) last by blast
  next
    case (Retained v)
    with fill have "cache_returns from_str policy ttl digest key (Some v)" by simp
    moreover have "reusable_at v now" "p = vi_principal v" using filled f Retained by (simp_all add: filled_end_def split: if_splits)
    ultimately show ?thesis using reused_trusted[of from_str policy ttl digest key v now] u64 f(2) last by auto
  qed
next
  case True
  then obtain now where now: "reuses t now" by blast
  with reused_principal[OF p now] obtain v where v: "vt_retained t = Some v" "vt_now_retained t = Inr now" "reusable_at v now" "p = vi_principal v"
    by (auto simp: reuses_def)
  have last: "last_reading t now" using now by (auto simp: last_reading_def)
  have "now \<le> u64_max" "cache_returns from_str policy ttl digest key (Some v)" using ok v by (auto simp: caches_ok_def clock_ok_def)
  with reused_trusted[of from_str policy ttl digest key v now] v last show ?thesis by auto
qed

text \<open>The turn that ends the loop, after turns that all found their entry no longer reusable.\<close>

lemma turns_end:
  "verify_turns turns = Some r \<Longrightarrow>
     \<exists>before t after. turns = before @ t # after \<and> (\<forall>b \<in> set before. verify_turn_end b = Again) \<and> verify_turn_end t = Returned r"
proof (induction turns)
  case (Cons t turns)
  show ?case
  proof (cases "verify_turn_end t = Again")
    case True
    with Cons obtain before u after where "turns = before @ u # after" "\<forall>b \<in> set before. verify_turn_end b = Again"
      "verify_turn_end u = Returned r" by auto
    with True have "t # turns = (t # before) @ u # after \<and> (\<forall>b \<in> set (t # before). verify_turn_end b = Again) \<and> verify_turn_end u = Returned r"
      by simp
    then show ?thesis by blast
  next
    case False
    with Cons.prems have "t # turns = [] @ t # turns \<and> verify_turn_end t = Returned r" by (cases "verify_turn_end t") auto
    then show ?thesis by fastforce
  qed
qed simp


definition demo_active :: json where
  "demo_active = JObj [(bytes_of ''active'', JBool True), (bytes_of ''iss'', JStr [105]), (bytes_of ''aud'', JStr [97]),
     (bytes_of ''exp'', JUInt 100), (bytes_of ''client_id'', JStr [99])]"

definition demo_response :: provider_response where
  "demo_response = \<lparr>px_status = 200, px_content_type = Some APPLICATION_JSON, px_content_length = None, px_chunks = [Inr [123]]\<rparr>"

definition demo_introspect :: introspect_env where
  "demo_introspect = \<lparr>in_now_first = Inr 90, in_permit = True,
     in_post = \<lparr>pe_stopped_first = False, pe_stopped_built = False, pe_exchange = [(False, None), (False, Some (Inr demo_response))],
       pe_stopped_end = False\<rparr>,
     in_now_last = Inr 91\<rparr>"

definition demo_introspected :: verified_introspection where
  "demo_introspected = \<lparr>vi_principal = \<lparr>pr_identity = \<lparr>id_issuer = [105], id_subject = None, id_client_id = Some [99],
     id_scopes = [], id_payload = [123], id_access_token = [116], id_actor = None\<rparr>, expiry_epoch_seconds = 100\<rparr>,
     vi_not_before = None\<rparr>"

definition demo_policy :: claim_policy where
  "demo_policy = \<lparr>cp_issuer = [105], cp_audiences = [[97]]\<rparr>"

lemma demo_introspection:
  "introspect (\<lambda>_. Some demo_active) demo_policy demo_introspect [116] = Some (Inr demo_introspected)"
proof -
  have decoded: "as_active_claims demo_active = Some \<lparr>cl_iss = Some [105], cl_aud = Some (One [97]), cl_exp = Some 100, cl_nbf = None,
      cl_sub = None, cl_client_id = Some [99], cl_scope = None, cl_scp = None, cl_act = None\<rparr>"
    by (simp add: as_active_claims_def demo_active_def struct_member_def optional_field_def Let_def)
  have active: "as_envelope demo_active = Some True"
    by (simp add: as_envelope_def demo_active_def struct_member_def required_field_def)
  have post: "post_form_json (in_post demo_introspect) = Some (Inr [123])"
    by (simp add: post_form_json_def demo_introspect_def receive_response_def demo_response_def is_json_response_def trim_blank_def
        APPLICATION_JSON_def to_str_byte_def same_ignoring_case_def MAX_RESPONSE_BYTES_def Let_def)
  have "validate_introspection_claims (\<lambda>_. Some demo_active) [123] demo_policy 91 [116] = Inr demo_introspected"
    by (simp add: validate_introspection_claims_def decoded active ensured_def okay_or_def demo_policy_def check_lifetime_def sat_add_def
        LEEWAY_SECONDS_def u64_max_def normalize_scopes_def scope_pieces_def or_else_def actor_of_def non_empty_def demo_introspected_def
        trim_json_def json_space_def Let_def)
  with post show ?thesis by (simp add: introspect_def demo_introspect_def)
qed

definition demo_verify :: verify_env where
  "demo_verify = \<lparr>vn_stopped = False, vn_now = Inr 90, vn_direct = demo_introspect, vn_now_direct = Inr 92,
     vn_turns = [\<lparr>vt_retained = None, vt_now_retained = Inr 90, vt_filled = Some (Inr (Fresh demo_introspected)), vt_now_filled = Inr 93\<rparr>]\<rparr>"


end
