(* ===== verification/BearerAuthenticate.thy ===== *)
theory BearerAuthenticate
  imports BearerRefresh BearerIntrospect
begin

text \<open>
  \<open>crates/infra-bearerauthn/src/lib.rs\<close> and \<open>authenticate.rs\<close>: the engine under the caller's scope, and the one recorded outcome of an
  inbound request. The recorded metrics are part of the result. An engine is, for a token, what the polls of the biased
  \<open>select!\<close> see: whether the scope has ended and what the engine is ready with.
\<close>

subsection \<open>Labels\<close>

definition provider_failure_label :: "provider_failure \<Rightarrow> string" where
  "provider_failure_label f =
     (case f of
        ProviderTimeout \<Rightarrow> ''provider_timeout''
      | ProviderConnect \<Rightarrow> ''provider_connect''
      | ProviderStatus n \<Rightarrow>
          if 400 \<le> n \<and> n \<le> 499 then ''provider_status_4xx''
          else if 500 \<le> n \<and> n \<le> 599 then ''provider_status_5xx'' else ''provider_status_other''
      | ProviderMediaType \<Rightarrow> ''provider_media_type''
      | ProviderTooLarge \<Rightarrow> ''provider_too_large''
      | ProviderTransfer \<Rightarrow> ''provider_transfer'')"

definition reason_label :: "verification_reason \<Rightarrow> string" where
  "reason_label r =
     (case r of
        MissingClaim \<Rightarrow> ''missing_claim'' | MalformedClaims \<Rightarrow> ''malformed_claims'' | IssuerReason \<Rightarrow> ''issuer''
      | AudienceReason \<Rightarrow> ''audience'' | ExpiredReason \<Rightarrow> ''expired'' | NotYetValid \<Rightarrow> ''not_yet_valid''
      | ScopeReason \<Rightarrow> ''scope'' | ClockReason \<Rightarrow> ''clock'' | HeaderReason \<Rightarrow> ''header'' | AlgorithmReason \<Rightarrow> ''algorithm''
      | ProfileReason \<Rightarrow> ''profile'' | SignatureReason \<Rightarrow> ''signature'' | UnknownKey \<Rightarrow> ''unknown_key''
      | RefreshReason \<Rightarrow> ''refresh'' | ProviderReason f \<Rightarrow> provider_failure_label f | Inactive \<Rightarrow> ''inactive''
      | CapacityReason \<Rightarrow> ''capacity'')"

definition failure_class :: "authn_failure \<Rightarrow> string" where
  "failure_class f =
     (case f of Missing \<Rightarrow> ''missing'' | Malformed \<Rightarrow> ''malformed'' | Invalid \<Rightarrow> ''invalid'' | Unavailable \<Rightarrow> ''unavailable'')"

text \<open>\<open>unix_time\<close> of a system time in nanoseconds from the epoch.\<close>

definition unix_time :: "int \<Rightarrow> verification_error + nat" where
  "unix_time now = (if now < 0 then Inl (unavailable_trust ClockReason) else Inr (nat now div nanos_per_sec))"

subsection \<open>The engine under a scope\<close>

datatype 'l metric = Verified | NotVerified 'l

definition record_verification :: "verification_error + principal \<Rightarrow> (authn_failure + principal) \<times> string metric list" where
  "record_verification r =
     (case r of
        Inr p \<Rightarrow> (Inr p, [Verified])
      | Inl e \<Rightarrow> (Inl (ve_failure e), [NotVerified (reason_label (ve_reason e))]))"

record engine_env =
  ee_stopped_first :: bool
  ee_polls :: "(bool \<times> (verification_error + principal) option) list"
  ee_stopped_last :: bool

definition verify_with_context :: "engine_env \<Rightarrow> (authn_failure + principal) option \<times> string metric list" where
  "verify_with_context env =
     (if ee_stopped_first env then (Some (Inl Unavailable), [])
      else case race_stopped (ee_polls env) of
             None \<Rightarrow> (None, [])
           | Some None \<Rightarrow> (Some (Inl Unavailable), [])
           | Some (Some r) \<Rightarrow>
               if ee_stopped_last env then (Some (Inl Unavailable), [])
               else (let (answer, recorded) = record_verification r in (Some answer, recorded)))"

datatype authn_outcome = SuccessOutcome | FailureOutcome authn_failure | CancelledOutcome

record authn_env =
  ae_stopped_first :: bool
  ae_engine :: "bytes \<Rightarrow> engine_env"
  ae_stopped_last :: bool

text \<open>
  The guard records \<open>cancelled\<close> when it is dropped unrecorded: on each early return, and when the caller drops the future.
\<close>

definition authenticate_with_context :: "authn_env \<Rightarrow> bytes list \<Rightarrow> (authn_failure + principal) option \<times> authn_outcome list" where
  "authenticate_with_context env authorization =
     (if ae_stopped_first env then (Some (Inl Unavailable), [CancelledOutcome])
      else case (case parse_bearer authorization of
                   Inr token \<Rightarrow> fst (verify_with_context (ae_engine env token))
                 | Inl failure \<Rightarrow> Some (Inl failure)) of
             None \<Rightarrow> (None, [CancelledOutcome])
           | Some result \<Rightarrow>
               if ae_stopped_last env then (Some (Inl Unavailable), [CancelledOutcome])
               else (Some result, [case result of Inr _ \<Rightarrow> SuccessOutcome | Inl f \<Rightarrow> FailureOutcome f]))"

subsection \<open>One outcome\<close>

lemma verify_with_context_ok:
  "fst (verify_with_context env) = Some (Inr p) \<longleftrightarrow>
     \<not> ee_stopped_first env \<and> race_stopped (ee_polls env) = Some (Some (Inr p)) \<and> \<not> ee_stopped_last env"
  by (auto simp: verify_with_context_def record_verification_def split: option.splits sum.splits prod.splits)

lemma authenticate_ok:
  "fst (authenticate_with_context env hs) = Some (Inr p) \<longleftrightarrow>
     \<not> ae_stopped_first env \<and> \<not> ae_stopped_last env \<and>
     (\<exists>token. parse_bearer hs = Inr token \<and> fst (verify_with_context (ae_engine env token)) = Some (Inr p))"
  by (auto simp: authenticate_with_context_def split: option.splits sum.splits)

lemma race_ready: "race_stopped polls = Some (Some x) \<Longrightarrow> (False, Some x) \<in> set polls"
  by (induction polls rule: race_stopped.induct) (auto split: if_splits option.splits)


end
