(* ===== verification/ObjectUpload.thy ===== *)
theory ObjectUpload
  imports Bearer "HOL-Library.Sublist"
begin

text \<open>
  \<open>crates/infra-object-storage/src/key.rs\<close> and \<open>body.rs\<close>: object keys, content types, and the upload body that is held to its
  declared length.

  The inner body is the list of what its polls answer, and is pending when the list ends. Trailers and the errors of the
  inner body are of any type.
\<close>

datatype storage_error =
    ObjectNotFound | ObjectAlreadyExists | ObjectTooLarge | StorageBusy | StorageUnavailable | StorageRejected
  | OutcomeUnknown | StorageIntegrity

subsection \<open>Keys and content types\<close>

definition MAX_OBJECT_KEY_BYTES :: nat where "MAX_OBJECT_KEY_BYTES = 1024"

definition MAX_CONTENT_TYPE_BYTES :: nat where "MAX_CONTENT_TYPE_BYTES = 1024"

definition key_byte :: "8 word \<Rightarrow> bool" where
  "key_byte b = (ascii_alphanumeric b \<or> b \<in> set [0x2E, 0x5F, 0x7E, 0x2D])"

definition valid_segment :: "bytes \<Rightarrow> bool" where
  "valid_segment s = (s \<noteq> [] \<and> s \<noteq> [0x2E] \<and> s \<noteq> [0x2E, 0x2E] \<and> list_all key_byte s)"

definition object_key :: "bytes \<Rightarrow> unit + bytes" where
  "object_key key =
     (if key = [] \<or> length key > MAX_OBJECT_KEY_BYTES then Inl ()
      else if list_all valid_segment (split_on (\<lambda>b. b = 0x2F) key) then Inr key else Inl ())"

text \<open>
  The bytes of an admitted content type are graphic ASCII or spaces, of which \<open>trim\<close> removes the spaces; whether a text with other bytes is
  blank does not matter.
\<close>

definition content_type :: "bytes \<Rightarrow> unit + bytes" where
  "content_type v =
     (if list_ex (\<lambda>b. b \<noteq> 0x20) v \<and> length v \<le> MAX_CONTENT_TYPE_BYTES \<and>
         list_all (\<lambda>b. b = 0x20 \<or> (0x21 \<le> b \<and> b \<le> 0x7E)) v
      then Inr v else Inl ())"

subsection \<open>The body of exact length\<close>

datatype 't frame = DataFrame bytes | TrailerFrame 't

datatype ('t, 'e) inner_poll = InnerPending | InnerFrame "'t frame" | InnerError 'e | InnerEnd

datatype ('t, 'e) poll_out = PollPending | PollFrame "'t frame" | PollMismatch | PollError 'e | PollEnd

record ('t, 'e) exact_length =
  el_inner :: "('t, 'e) inner_poll list"
  el_remaining :: nat
  el_held :: "bytes option"
  el_trailers :: "'t option"
  el_ended :: bool
  el_mismatch :: bool

definition exact_length_new :: "nat \<Rightarrow> ('t, 'e) inner_poll list \<Rightarrow> ('t, 'e) exact_length" where
  "exact_length_new len inner =
     \<lparr>el_inner = inner, el_remaining = len, el_held = None, el_trailers = None, el_ended = False, el_mismatch = False\<rparr>"

definition refuse :: "('t, 'e) exact_length \<Rightarrow> ('t, 'e) poll_out \<times> ('t, 'e) exact_length" where
  "refuse st = (PollMismatch, st\<lparr>el_mismatch := True, el_ended := True, el_held := None\<rparr>)"

definition ended_poll :: "('t, 'e) exact_length \<Rightarrow> ('t, 'e) poll_out \<times> ('t, 'e) exact_length" where
  "ended_poll st =
     (case el_held st of
        Some d \<Rightarrow> (PollFrame (DataFrame d), st\<lparr>el_held := None\<rparr>)
      | None \<Rightarrow>
          (case el_trailers st of
             Some t \<Rightarrow> (PollFrame (TrailerFrame t), st\<lparr>el_trailers := None\<rparr>)
           | None \<Rightarrow> (PollEnd, st)))"

text \<open>The loop of \<open>poll_frame\<close>, with the polls of the inner body that are left.\<close>

fun poll_loop :: "nat \<Rightarrow> ('t, 'e) exact_length \<Rightarrow> ('t, 'e) poll_out \<times> ('t, 'e) exact_length" where
  "poll_loop 0 st = (if el_ended st then ended_poll st else (PollPending, st))"
| "poll_loop (Suc polls_remaining) st =
     (if el_ended st then ended_poll st
      else case el_inner st of
        [] \<Rightarrow> (PollPending, st)
      | polled # inner \<Rightarrow>
          let st = st\<lparr>el_inner := inner\<rparr>
          in case polled of
               InnerPending \<Rightarrow> (PollPending, st)
             | InnerFrame (TrailerFrame t) \<Rightarrow>
                 if el_remaining st \<noteq> 0 then refuse st
                 else let st = st\<lparr>el_ended := True\<rparr>
                      in if el_held st \<noteq> None then poll_loop polls_remaining (st\<lparr>el_trailers := Some t\<rparr>)
                         else (PollFrame (TrailerFrame t), st)
             | InnerFrame (DataFrame d) \<Rightarrow>
                 if d = [] then poll_loop polls_remaining st
                 else if el_held st \<noteq> None then refuse st
                 else if length d > el_remaining st then refuse st
                 else let st = st\<lparr>el_remaining := el_remaining st - length d\<rparr>
                      in if el_remaining st = 0 then poll_loop polls_remaining (st\<lparr>el_held := Some d\<rparr>)
                         else (PollFrame (DataFrame d), st)
             | InnerError e \<Rightarrow> (PollError e, st)
             | InnerEnd \<Rightarrow>
                 if el_remaining st \<noteq> 0 then refuse st
                 else poll_loop polls_remaining (st\<lparr>el_ended := True\<rparr>))"

definition poll_frame :: "('t, 'e) exact_length \<Rightarrow> ('t, 'e) poll_out \<times> ('t, 'e) exact_length" where
  "poll_frame st = poll_loop 64 st"

definition is_end_stream :: "('t, 'e) exact_length \<Rightarrow> bool" where
  "is_end_stream st = (el_ended st \<and> el_held st = None \<and> el_trailers st = None)"

definition size_hint :: "('t, 'e) exact_length \<Rightarrow> nat" where
  "size_hint st = el_remaining st + (case el_held st of None \<Rightarrow> 0 | Some d \<Rightarrow> length d)"

text \<open>
  \<open>prepare_empty_stream\<close> of a streamed body: the first item before the deadline, or none in time, and the flag read after it.
\<close>

datatype first_item = FirstElapsed | FirstItem | FirstNone

definition prepare_empty_stream :: "nat \<Rightarrow> first_item \<Rightarrow> bool \<Rightarrow> (storage_error \<times> string) + unit" where
  "prepare_empty_stream len first length_mismatch =
     (if len \<noteq> 0 then Inr ()
      else case first of
             FirstElapsed \<Rightarrow> Inl (StorageUnavailable, ''timeout'')
           | FirstItem \<Rightarrow> Inl (StorageRejected, if length_mismatch then ''body_length'' else ''body'')
           | FirstNone \<Rightarrow> Inr ())"

text \<open>A consumer that polls the body a number of times.\<close>

fun poll_many :: "nat \<Rightarrow> ('t, 'e) exact_length \<Rightarrow> ('t, 'e) poll_out list \<times> ('t, 'e) exact_length" where
  "poll_many 0 st = ([], st)"
| "poll_many (Suc k) st =
     (let (r, st) = poll_frame st; (rs, st) = poll_many k st in (r # rs, st))"

subsection \<open>What is delivered\<close>

fun frame_data :: "'t frame \<Rightarrow> bytes" where
  "frame_data (DataFrame d) = d"
| "frame_data (TrailerFrame t) = []"

fun inner_data :: "('t, 'e) inner_poll \<Rightarrow> bytes" where
  "inner_data (InnerFrame f) = frame_data f"
| "inner_data _ = []"

fun out_data :: "('t, 'e) poll_out \<Rightarrow> bytes" where
  "out_data (PollFrame f) = frame_data f"
| "out_data _ = []"

text \<open>The end of the inner body: its end or its trailers.\<close>

fun is_end :: "('t, 'e) inner_poll \<Rightarrow> bool" where
  "is_end InnerEnd = True"
| "is_end (InnerFrame (TrailerFrame t)) = True"
| "is_end _ = False"

definition source_data :: "('t, 'e) inner_poll list \<Rightarrow> bytes" where
  "source_data ps = concat (map inner_data ps)"

lemma source_data_simps [simp]:
  "source_data [] = []" "source_data (p # ps) = inner_data p @ source_data ps"
  "source_data (ps @ qs) = source_data ps @ source_data qs"
  by (simp_all add: source_data_def)

definition complete_upload :: "nat \<Rightarrow> ('t, 'e) inner_poll list \<Rightarrow> bytes \<Rightarrow> bool" where
  "complete_upload len consumed data =
     (\<exists>pre e. consumed = pre @ [e] \<and> is_end e \<and> \<not> list_ex is_end pre \<and> source_data pre = data \<and> length data = len)"

definition wrong_length :: "nat \<Rightarrow> ('t, 'e) inner_poll list \<Rightarrow> bool" where
  "wrong_length len consumed =
     (length (source_data consumed) > len \<or> (length (source_data consumed) < len \<and> list_ex is_end consumed))"

definition held_data :: "('t, 'e) exact_length \<Rightarrow> bytes" where
  "held_data st = (case el_held st of None \<Rightarrow> [] | Some d \<Rightarrow> d)"

definition exact_inv :: "nat \<Rightarrow> ('t, 'e) inner_poll list \<Rightarrow> bytes \<Rightarrow> ('t, 'e) exact_length \<Rightarrow> bool" where
  "exact_inv len consumed out st =
     (if el_ended st then
        (if el_mismatch st
         then el_held st = None \<and> el_trailers st = None \<and> prefix out (source_data consumed) \<and>
              length out < max 1 len \<and> wrong_length len consumed
         else complete_upload len consumed (out @ held_data st))
      else \<not> el_mismatch st \<and> el_trailers st = None \<and> \<not> list_ex is_end consumed \<and>
           source_data consumed = out @ held_data st \<and> length (source_data consumed) + el_remaining st = len \<and>
           (el_held st \<noteq> None \<longrightarrow> el_remaining st = 0 \<and> held_data st \<noteq> []) \<and>
           (el_remaining st = 0 \<and> 0 < len \<longrightarrow> el_held st \<noteq> None))"

definition poll_ok :: "nat \<Rightarrow> ('t, 'e) inner_poll list \<Rightarrow> bytes \<Rightarrow> nat \<Rightarrow> ('t, 'e) exact_length \<Rightarrow> ('t, 'e) poll_out \<times> ('t, 'e) exact_length \<Rightarrow> bool" where
  "poll_ok len consumed out n st res =
     (\<exists>c. el_inner st = c @ el_inner (snd res) \<and> length c \<le> n \<and>
        exact_inv len (consumed @ c) (out @ out_data (fst res)) (snd res) \<and>
        (el_mismatch (snd res) \<longleftrightarrow> el_mismatch st \<or> fst res = PollMismatch) \<and>
        (fst res = PollEnd \<longrightarrow> is_end_stream (snd res)))"

lemma poll_ok_step:
  assumes "el_inner st = p # el_inner st'" "el_mismatch st' = el_mismatch st" "poll_ok len (consumed @ [p]) out n st' res"
  shows "poll_ok len consumed out (Suc n) st res"
proof -
  from assms(3) obtain c where "el_inner st' = c @ el_inner (snd res)" "length c \<le> n"
    "exact_inv len (consumed @ [p] @ c) (out @ out_data (fst res)) (snd res)"
    "el_mismatch (snd res) \<longleftrightarrow> el_mismatch st' \<or> fst res = PollMismatch" "fst res = PollEnd \<longrightarrow> is_end_stream (snd res)"
    by (auto simp: poll_ok_def)
  with assms(1,2) show ?thesis by (auto simp: poll_ok_def intro!: exI[of _ "p # c"])
qed

lemma poll_ok_stop:
  assumes "el_inner st = c @ el_inner st'" "length c \<le> n" "exact_inv len (consumed @ c) (out @ out_data r) st'"
    "el_mismatch st' \<longleftrightarrow> el_mismatch st \<or> r = PollMismatch" "r = PollEnd \<longrightarrow> is_end_stream st'"
  shows "poll_ok len consumed out n st (r, st')"
  using assms by (auto simp: poll_ok_def)

lemma ended_poll_ok:
  "exact_inv len consumed out st \<Longrightarrow> el_ended st \<Longrightarrow> poll_ok len consumed out n st (ended_poll st)"
  by (auto simp: ended_poll_def exact_inv_def held_data_def is_end_stream_def split: option.splits if_splits
      intro!: poll_ok_stop[of st "[]"])

lemma refuse_inv:
  assumes "exact_inv len consumed out st" "\<not> el_ended st" "el_inner st = p # inner" "wrong_length len (consumed @ [p])"
  shows "poll_ok len consumed out (Suc n) st (refuse (st\<lparr>el_inner := inner\<rparr>))"
proof -
  from assms(1,2) have "length out < max 1 len"
    by (auto simp: exact_inv_def held_data_def less_max_iff_disj split: option.splits)
  moreover from assms(1,2) have "prefix out (source_data (consumed @ [p]))" by (auto simp: exact_inv_def)
  ultimately show ?thesis unfolding refuse_def using assms
    by (intro poll_ok_stop[of st "[p]"]) (auto simp: exact_inv_def)
qed

text \<open>One poll of the inner body, by what it answers; the rest of the loop is the induction hypothesis.\<close>

lemma poll_data_ok:
  fixes st :: "('t, 'e) exact_length"
  assumes IH: "\<And>consumed (st :: ('t, 'e) exact_length). exact_inv len consumed out st \<Longrightarrow> poll_ok len consumed out n st (poll_loop n st)"
    and inv: "exact_inv len consumed out st" and opened: "\<not> el_ended st" and inner: "el_inner st = InnerFrame (DataFrame d) # ps"
  shows "poll_ok len consumed out (Suc n) st (poll_loop (Suc n) st)"
proof -
  let ?p = "InnerFrame (DataFrame d)" and ?st = "st\<lparr>el_inner := ps\<rparr>"
  note refused = refuse_inv[OF inv opened inner, of n]
  consider "d = []" | "d \<noteq> []" "el_held st \<noteq> None \<or> length d > el_remaining st"
    | "d \<noteq> []" "el_held st = None" "length d = el_remaining st" | "d \<noteq> []" "el_held st = None" "length d < el_remaining st"
    by linarith
  then show ?thesis
  proof cases
    case 1
    with inv opened have "exact_inv len (consumed @ [?p]) out ?st" by (auto simp: exact_inv_def held_data_def)
    from poll_ok_step[OF _ _ IH[OF this], of st] inner opened 1 show ?thesis by (simp add: Let_def)
  next
    case 2
    with inv opened have "wrong_length len (consumed @ [?p])" by (auto simp: exact_inv_def wrong_length_def)
    with refused opened inner 2 show ?thesis by (auto simp: Let_def)
  next
    case 3
    with inv opened have "exact_inv len (consumed @ [?p]) out (?st\<lparr>el_remaining := 0, el_held := Some d\<rparr>)"
      by (auto simp: exact_inv_def held_data_def)
    from poll_ok_step[OF _ _ IH[OF this], of st] inner opened 3 show ?thesis by (simp add: Let_def)
  next
    case 4
    with inv opened have "exact_inv len (consumed @ [?p]) (out @ d) (?st\<lparr>el_remaining := el_remaining st - length d\<rparr>)"
      by (auto simp: exact_inv_def held_data_def)
    with inner opened 4 inv show ?thesis by (auto simp: Let_def intro!: poll_ok_stop[of st "[?p]"])
  qed
qed

lemma poll_end_ok:
  fixes st :: "('t, 'e) exact_length"
  assumes IH: "\<And>consumed (st :: ('t, 'e) exact_length). exact_inv len consumed out st \<Longrightarrow> poll_ok len consumed out n st (poll_loop n st)"
    and inv: "exact_inv len consumed out st" and opened: "\<not> el_ended st" and inner: "el_inner st = p # ps" and p: "is_end p"
  shows "poll_ok len consumed out (Suc n) st (poll_loop (Suc n) st)"
proof -
  let ?st = "st\<lparr>el_inner := ps\<rparr>"
  from p have nil: "inner_data p = []" by (cases p rule: is_end.cases) auto
  have done_inv: "exact_inv len (consumed @ [p]) out (?st\<lparr>el_ended := True, el_trailers := t\<rparr>)" if "el_remaining st = 0" for t
    using inv opened that p nil by (auto simp: exact_inv_def complete_upload_def held_data_def)
  have late: "wrong_length len (consumed @ [p])" if "el_remaining st \<noteq> 0"
    using inv opened that p nil by (auto simp: exact_inv_def wrong_length_def)
  have same: "?st\<lparr>el_ended := True, el_trailers := None\<rparr> = ?st\<lparr>el_ended := True\<rparr>"
    using inv opened by (simp add: exact_inv_def)
  show ?thesis
  proof (cases "el_remaining st = 0")
    case False
    with refuse_inv[OF inv opened inner late[OF False], of n] opened inner p show ?thesis
      by (cases p rule: is_end.cases) (auto simp: Let_def)
  next
    case True
    note fin = poll_ok_step[OF _ _ IH[OF done_inv[OF True]], of st]
    show ?thesis
    proof (cases p rule: is_end.cases)
      case 1
      with fin[of None] inner opened True same show ?thesis by (simp add: Let_def)
    next
      case (2 t)
      show ?thesis
      proof (cases "el_held st")
        case None
        then show ?thesis using done_inv[OF True, of None] same 2 inner opened True inv
          by (auto simp: Let_def intro!: poll_ok_stop[of st "[p]"])
      next
        case (Some d)
        with fin[of "Some t"] 2 inner opened True show ?thesis by (simp add: Let_def)
      qed
    qed (use p in auto)
  qed
qed

lemma poll_loop_ok: "exact_inv len consumed out st \<Longrightarrow> poll_ok len consumed out n st (poll_loop n st)"
proof (induction n arbitrary: consumed st)
  case 0
  then show ?case using ended_poll_ok[OF 0] by (auto intro!: poll_ok_stop[of st "[]"])
next
  case (Suc n)
  show ?case
  proof (cases "el_ended st \<or> el_inner st = []")
    case True
    with ended_poll_ok[OF Suc.prems, of "Suc n"] Suc.prems show ?thesis by (auto intro!: poll_ok_stop[of st "[]"])
  next
    case False
    then obtain p ps where opened: "\<not> el_ended st" and inner: "el_inner st = p # ps" by (auto simp: neq_Nil_conv)
    show ?thesis
    proof (cases "is_end p")
      case True
      show ?thesis by (rule poll_end_ok[OF Suc.IH Suc.prems opened inner True])
    next
      case False
      then consider d where "p = InnerFrame (DataFrame d)" | "p = InnerPending" | e where "p = InnerError e"
        by (cases p rule: is_end.cases) auto
      then show ?thesis
      proof cases
        case 1
        with poll_data_ok[OF Suc.IH Suc.prems opened] inner show ?thesis by blast
      next
        case 2
        with opened inner Suc.prems show ?thesis by (auto simp: exact_inv_def held_data_def intro!: poll_ok_stop[of st "[p]"])
      next
        case 3
        with opened inner Suc.prems show ?thesis by (auto simp: exact_inv_def held_data_def intro!: poll_ok_stop[of st "[p]"])
      qed
    qed
  qed
qed

lemma end_stream_stays: "is_end_stream st \<Longrightarrow> poll_many k st = (replicate k PollEnd, st)"
proof (induction k)
  case (Suc k)
  then have "poll_frame st = (PollEnd, st)" by (simp add: poll_frame_def is_end_stream_def eval_nat_numeral ended_poll_def)
  with Suc show ?case by simp
qed simp

lemma poll_many_ok:
  "exact_inv len consumed out st \<Longrightarrow> poll_many k st = (rs, st') \<Longrightarrow>
     \<exists>c. el_inner st = c @ el_inner st' \<and> length c \<le> 64 * k \<and> exact_inv len (consumed @ c) (out @ concat (map out_data rs)) st' \<and>
       (el_mismatch st' \<longleftrightarrow> el_mismatch st \<or> PollMismatch \<in> set rs) \<and> (PollEnd \<in> set rs \<longrightarrow> is_end_stream st')"
proof (induction k arbitrary: consumed out st rs)
  case (Suc k)
  obtain r st1 where r: "poll_frame st = (r, st1)" by fastforce
  with Suc.prems(2) obtain rs1 where rs: "poll_many k st1 = (rs1, st')" "rs = r # rs1" by (auto split: prod.splits)
  from poll_loop_ok[OF Suc.prems(1), of 64] r obtain c where c: "el_inner st = c @ el_inner st1" "length c \<le> 64"
    "exact_inv len (consumed @ c) (out @ out_data r) st1" "el_mismatch st1 \<longleftrightarrow> el_mismatch st \<or> r = PollMismatch"
    "r = PollEnd \<longrightarrow> is_end_stream st1"
    by (auto simp: poll_frame_def poll_ok_def)
  from Suc.IH[OF c(3) rs(1)] obtain c1 where c1: "el_inner st1 = c1 @ el_inner st'" "length c1 \<le> 64 * k"
    "exact_inv len (consumed @ c @ c1) (out @ out_data r @ concat (map out_data rs1)) st'"
    "el_mismatch st' \<longleftrightarrow> el_mismatch st1 \<or> PollMismatch \<in> set rs1" "PollEnd \<in> set rs1 \<longrightarrow> is_end_stream st'" by auto
  have "is_end_stream st'" if "r = PollEnd" using end_stream_stays[of st1 k] c(5) rs(1) that by simp
  with c c1 rs show ?case by (auto intro!: exI[of _ "c @ c1"])
qed simp

lemma completeD: "complete_upload len c data \<Longrightarrow> \<exists>pre e. is_end e \<and> \<not> list_ex is_end pre \<and> source_data pre = data \<and> length data = len \<and> c = pre @ [e]"
  by (auto simp: complete_upload_def)

text \<open>
  C27. An upload is never stored truncated or extended. Whatever the inner body yields, in whatever frames and with whatever errors and
  pauses, and however often the body is polled: the bytes handed on are a prefix of the source and at most the declared length,
  so a consumer that stops at the declared length stores what the source yields or nothing. They reach the declared length, if it is not
  zero, only after the source has ended, and then they are all of its bytes; the same holds when the end is reported without a mismatch. A
  mismatch is reported exactly when the flag is set, is never a false alarm, and leaves the delivered bytes short of the
  declared length. Each poll of the body polls the source at most 64 times.
\<close>

theorem upload_exact:
  assumes "poll_many k (exact_length_new len source) = (rs, st)"
  shows "prefix (concat (map out_data rs)) (source_data source) \<and> length (concat (map out_data rs)) \<le> len \<and>
     (length (concat (map out_data rs)) = len \<and> 0 < len \<or> PollEnd \<in> set rs \<and> \<not> el_mismatch st \<longrightarrow>
        (\<exists>pre e rest. source = pre @ e # rest \<and> is_end e \<and> \<not> list_ex is_end pre \<and>
           source_data pre = concat (map out_data rs) \<and> length (concat (map out_data rs)) = len)) \<and>
     (el_mismatch st \<longleftrightarrow> PollMismatch \<in> set rs) \<and>
     (el_mismatch st \<longrightarrow> length (concat (map out_data rs)) < max 1 len \<and>
        (\<exists>consumed rest. source = consumed @ rest \<and> wrong_length len consumed)) \<and>
     length source \<le> 64 * k + length (el_inner st)"
proof -
  obtain out where out: "out = concat (map out_data rs)" by blast
  have "exact_inv len [] [] (exact_length_new len source)" by (auto simp: exact_inv_def exact_length_new_def held_data_def)
  from poll_many_ok[OF this assms] obtain c where src: "source = c @ el_inner st" "length c \<le> 64 * k" and inv: "exact_inv len c out st"
    and flag: "el_mismatch st \<longleftrightarrow> PollMismatch \<in> set rs" and fin: "PollEnd \<in> set rs \<longrightarrow> is_end_stream st"
    by (auto simp: exact_length_new_def out)
  have pre: "prefix out (source_data c)" and len: "length out \<le> len"
    using inv by (auto simp: exact_inv_def complete_upload_def prefix_def less_max_iff_disj split: if_splits)
  have whole: "complete_upload len c out" if "length out = len \<and> 0 < len \<or> PollEnd \<in> set rs \<and> \<not> el_mismatch st"
  proof -
    have "el_ended st" "\<not> el_mismatch st" using that inv fin
      by (auto simp: exact_inv_def is_end_stream_def less_max_iff_disj split: if_splits)
    with inv have "complete_upload len c (out @ held_data st)" by (simp add: exact_inv_def)
    moreover have "held_data st = []"
      using that fin calculation by (auto simp: complete_upload_def is_end_stream_def held_data_def)
    ultimately show ?thesis by simp
  qed
  have bad: "length out < max 1 len \<and> wrong_length len c" if "el_mismatch st"
    using inv that by (simp add: exact_inv_def split: if_splits)
  have "prefix out (source_data source)" using pre src(1) by (auto simp: prefix_def)
  moreover have "length source \<le> 64 * k + length (el_inner st)" using src by simp
  moreover have "length out = len \<and> 0 < len \<or> PollEnd \<in> set rs \<and> \<not> el_mismatch st \<longrightarrow>
      (\<exists>pre e rest. source = pre @ e # rest \<and> is_end e \<and> \<not> list_ex is_end pre \<and> source_data pre = out \<and> length out = len)"
  proof
    assume "length out = len \<and> 0 < len \<or> PollEnd \<in> set rs \<and> \<not> el_mismatch st"
    from completeD[OF whole[OF this]] src(1) show "\<exists>pre e rest. source = pre @ e # rest \<and> is_end e \<and> \<not> list_ex is_end pre \<and>
        source_data pre = out \<and> length out = len"
      by (metis append.assoc append_Cons append_Nil)
  qed
  ultimately show ?thesis unfolding out[symmetric] using len flag bad src(1) by blast
qed

definition demo_upload :: "(unit, unit) inner_poll list" where
  "demo_upload = [InnerFrame (DataFrame [1, 2]), InnerPending, InnerFrame (DataFrame [3]), InnerFrame (DataFrame []), InnerEnd]"

theorem upload_exact_witness:
  "\<exists>rs st. poll_many 4 (exact_length_new 3 demo_upload) = (rs, st) \<and> concat (map out_data rs) = [1, 2, 3] \<and>
     (\<exists>pre e rest. demo_upload = pre @ e # rest \<and> is_end e \<and> source_data pre = [1, 2, 3])"
proof -
  have run: "poll_many 4 (exact_length_new 3 demo_upload) =
      ([PollFrame (DataFrame [1, 2]), PollPending, PollFrame (DataFrame [3]), PollEnd],
       \<lparr>el_inner = [], el_remaining = 0, el_held = None, el_trailers = None, el_ended = True, el_mismatch = False\<rparr>)"
    by (simp add: eval_nat_numeral poll_frame_def exact_length_new_def demo_upload_def ended_poll_def Let_def)
  from upload_exact[OF run] run show ?thesis by auto
qed

subsection \<open>Keys\<close>

text \<open>
  An admitted key is never rewritten, has no empty, current or parent segment, and two admitted keys that differ differ in bytes that
  every provider keeps.
\<close>

lemma object_key_ok:
  assumes "object_key key = Inr k"
  shows "k = key \<and> 0 < length key \<and> length key \<le> 1024 \<and> (\<forall>s \<in> set (split_on (\<lambda>b. b = 0x2F) key). valid_segment s)"
  using assms by (auto simp: object_key_def MAX_OBJECT_KEY_BYTES_def list_all_iff split: if_splits)

end
