(* ===== verification/ObjectDownload.thy ===== *)
theory ObjectDownload
  imports ObjectUpload OperationScope
begin

text \<open>
  \<open>crates/infra-object-storage/src/download.rs\<close>: an open download. The mutex-held state is a record; the reads of the owner, the timer
  and the drop are events in any order, each one step under the lock. What the scope and the SDK body answer at a poll is an argument of the
  poll. Dropping the resource cell records the outcome of the guard, so the recorded outcomes are part of the state.
\<close>

subsection \<open>State\<close>

datatype body_poll = BodyPending | BodyChunk bytes | BodyError bool | BodyEnd | BodyPanic

record dl_resources =
  dr_remaining :: nat
  dr_last :: "bytes option"

datatype download_state = Open dl_resources | Succeeded "bytes option" | Failed storage_error

datatype dl_outcome = SuccessOutcome | FailureOutcome storage_error string | CancelledOutcome

record download =
  dl_status :: download_state
  dl_recorded :: "dl_outcome list"

definition stop_type :: "stopped_reason \<Rightarrow> string" where
  "stop_type r = (case r of DeadlineStop \<Rightarrow> ''timeout'' | CancelledStop \<Rightarrow> ''cancelled'')"

definition download_open :: "nat \<Rightarrow> download" where
  "download_open total_size = \<lparr>dl_status = Open \<lparr>dr_remaining = total_size, dr_last = None\<rparr>, dl_recorded = []\<rparr>"

text \<open>
  \<open>State::finish\<close> followed by \<open>Completion::finish\<close>: the guard records success or the failure, or, when it is dropped without either, the
  cancellation. Only an open download has anything to finish.
\<close>

definition finish_download :: "dl_outcome \<Rightarrow> download \<Rightarrow> download" where
  "finish_download outcome d =
     (case dl_status d of
        Open r \<Rightarrow>
          d\<lparr>dl_status := (case outcome of
                            SuccessOutcome \<Rightarrow> Succeeded (dr_last r)
                          | FailureOutcome e _ \<Rightarrow> Failed e
                          | CancelledOutcome \<Rightarrow> Failed StorageUnavailable),
            dl_recorded := dl_recorded d @ [outcome]\<rparr>
      | _ \<Rightarrow> d)"

datatype read_step = Buffered | EmptyStep | Chunk "bytes option"

record read_turn =
  rt_stopped_before :: "stopped_reason option"
  rt_proceed :: bool
  rt_body :: body_poll
  rt_stopped_after :: "stopped_reason option"

definition fail_read :: "storage_error \<Rightarrow> string \<Rightarrow> download \<Rightarrow> (storage_error + read_step) option \<times> download" where
  "fail_read e cls d = (Some (Inl e), finish_download (FailureOutcome e cls) d)"

text \<open>The match on what the body answered, once the scope is known to be alive.\<close>

definition read_polled :: "body_poll \<Rightarrow> dl_resources \<Rightarrow> download \<Rightarrow> (storage_error + read_step) option \<times> download" where
  "read_polled polled r d =
     (case polled of
        BodyChunk chunk \<Rightarrow>
          if chunk = [] then (Some (Inr EmptyStep), d)
          else if length chunk > dr_remaining r then fail_read StorageIntegrity ''content_length'' d
          else if length chunk = dr_remaining r
          then (Some (Inr Buffered), d\<lparr>dl_status := Open (r\<lparr>dr_remaining := 0, dr_last := Some chunk\<rparr>)\<rparr>)
          else (Some (Inr (Chunk (Some chunk))), d\<lparr>dl_status := Open (r\<lparr>dr_remaining := dr_remaining r - length chunk\<rparr>)\<rparr>)
      | BodyError checksum \<Rightarrow>
          if checksum then fail_read StorageIntegrity ''checksum'' d else fail_read StorageUnavailable ''body'' d
      | BodyEnd \<Rightarrow>
          if dr_remaining r = 0
          then (Some (Inr (Chunk (dr_last r))), (finish_download SuccessOutcome d)\<lparr>dl_status := Succeeded None\<rparr>)
          else fail_read StorageIntegrity ''content_length'' d
      | _ \<Rightarrow> (None, d))"

definition poll_download :: "read_turn \<Rightarrow> download \<Rightarrow> (storage_error + read_step) option \<times> download" where
  "poll_download t d =
     (case dl_status d of
        Succeeded last_chunk \<Rightarrow> (Some (Inr (Chunk last_chunk)), d\<lparr>dl_status := Succeeded None\<rparr>)
      | Failed e \<Rightarrow> (Some (Inl e), d)
      | Open r \<Rightarrow>
          (case rt_stopped_before t of
             Some why \<Rightarrow> fail_read StorageUnavailable (stop_type why) d
           | None \<Rightarrow>
               if \<not> rt_proceed t then (None, d)
               else (case rt_stopped_after t of
                       Some why \<Rightarrow> fail_read StorageUnavailable (stop_type why) d
                     | None \<Rightarrow> read_polled (rt_body t) r d)))"

definition terminate :: "stopped_reason option \<Rightarrow> dl_outcome \<Rightarrow> download \<Rightarrow> download" where
  "terminate why outcome d =
     finish_download (case why of None \<Rightarrow> outcome | Some w \<Rightarrow> FailureOutcome StorageUnavailable (stop_type w)) d"

datatype chunk_result = ChunkPending | ChunkOk "bytes option" | ChunkErr storage_error | ChunkPanic

text \<open>
  The loop of \<open>poll_chunk\<close> over its turns; a body that panics is caught, the download terminated as cancelled, and the
  panic resumed. The body is polled, and can panic, only past the check of the scope.
\<close>

definition body_reached :: "read_turn \<Rightarrow> download \<Rightarrow> bool" where
  "body_reached t d = (rt_stopped_before t = None \<and> rt_proceed t \<and> (\<exists>r. dl_status d = Open r))"

lemma body_reached_code [code]:
  "body_reached t d = (rt_stopped_before t = None \<and> rt_proceed t \<and> (case dl_status d of Open r \<Rightarrow> True | _ \<Rightarrow> False))"
  by (auto simp: body_reached_def split: download_state.splits)

fun poll_chunk :: "read_turn list \<Rightarrow> download \<Rightarrow> chunk_result \<times> download" where
  "poll_chunk [] d = (ChunkPending, d)"
| "poll_chunk (t # ts) d =
     (if body_reached t d \<and> rt_body t = BodyPanic
      then (ChunkPanic, terminate (rt_stopped_after t) CancelledOutcome d)
      else case poll_download t d of
             (None, d) \<Rightarrow> (ChunkPending, d)
           | (Some (Inl e), d) \<Rightarrow> (ChunkErr e, d)
           | (Some (Inr (Chunk c)), d) \<Rightarrow> (ChunkOk c, d)
           | (Some (Inr _), d) \<Rightarrow> poll_chunk ts d)"

text \<open>
  A poll of the owner, preceded by the look at the timer task; the timer's end; its unexpected exit; and the drop of the download.
\<close>

datatype dl_event =
    Read "stopped_reason option option" "read_turn list"
  | TimerStopped stopped_reason
  | TimerLost "stopped_reason option"
  | DropDownload "stopped_reason option"

fun dl_step :: "dl_event \<Rightarrow> download \<Rightarrow> chunk_result list \<times> download" where
  "dl_step (Read lost turns) d =
     (let (r, d) = poll_chunk turns
            (case lost of None \<Rightarrow> d | Some why \<Rightarrow> terminate why (FailureOutcome StorageUnavailable ''body'') d)
      in ([r], d))"
| "dl_step (TimerStopped why) d = ([], terminate (Some why) (FailureOutcome StorageUnavailable (stop_type why)) d)"
| "dl_step (TimerLost why) d = ([], terminate why (FailureOutcome StorageUnavailable ''body'') d)"
| "dl_step (DropDownload why) d = ([], terminate why CancelledOutcome d)"

fun dl_run :: "dl_event list \<Rightarrow> download \<Rightarrow> chunk_result list \<times> download" where
  "dl_run [] d = ([], d)"
| "dl_run (e # es) d = (let (r, d) = dl_step e d; (rs, d) = dl_run es d in (r @ rs, d))"

definition dl_is_end_stream :: "download \<Rightarrow> bool" where
  "dl_is_end_stream d = (dl_status d = Succeeded None)"

definition dl_size_hint :: "download \<Rightarrow> nat option" where
  "dl_size_hint d =
     (let chunk_len = (\<lambda>c. case c of None \<Rightarrow> 0 | Some x \<Rightarrow> length x)
      in case dl_status d of
           Open r \<Rightarrow> Some (dr_remaining r + chunk_len (dr_last r))
         | Succeeded c \<Rightarrow> Some (chunk_len c)
         | Failed _ \<Rightarrow> None)"

subsection \<open>What is delivered\<close>

fun chunk_data :: "chunk_result \<Rightarrow> bytes" where
  "chunk_data (ChunkOk (Some c)) = c"
| "chunk_data _ = []"

definition delivered :: "chunk_result list \<Rightarrow> bytes" where
  "delivered rs = concat (map chunk_data rs)"

lemma delivered_simps [simp]:
  "delivered [] = []" "delivered (r # rs) = chunk_data r @ delivered rs" "delivered (rs @ qs) = delivered rs @ delivered qs"
  by (simp_all add: delivered_def)

text \<open>
  The chunks the body supplied while the download was open, in order, and whether it confirmed its end: what a run consumed. It is
  recomputed beside the run.
\<close>

fun polled_data :: "body_poll \<Rightarrow> bytes" where
  "polled_data (BodyChunk c) = c"
| "polled_data _ = []"

definition taken :: "read_turn \<Rightarrow> download \<Rightarrow> body_poll list" where
  "taken t d = (if body_reached t d then [rt_body t] else [])"

fun taken_chunk :: "read_turn list \<Rightarrow> download \<Rightarrow> body_poll list" where
  "taken_chunk [] d = []"
| "taken_chunk (t # ts) d =
     taken t d @
     (if body_reached t d \<and> rt_body t = BodyPanic then []
      else case poll_download t d of (Some (Inr (Chunk _)), _) \<Rightarrow> [] | (Some (Inr _), d) \<Rightarrow> taken_chunk ts d | _ \<Rightarrow> [])"

fun taken_run :: "dl_event list \<Rightarrow> download \<Rightarrow> body_poll list" where
  "taken_run [] d = []"
| "taken_run (e # es) d =
     (case e of
        Read lost turns \<Rightarrow>
          taken_chunk turns (case lost of None \<Rightarrow> d | Some why \<Rightarrow> terminate why (FailureOutcome StorageUnavailable ''body'') d)
      | _ \<Rightarrow> []) @ taken_run es (snd (dl_step e d))"

definition body_data :: "body_poll list \<Rightarrow> bytes" where
  "body_data ps = concat (map polled_data ps)"

lemma body_data_simps [simp]:
  "body_data [] = []" "body_data (p # ps) = polled_data p @ body_data ps" "body_data (ps @ qs) = body_data ps @ body_data qs"
  by (simp_all add: body_data_def)

definition opt_data :: "bytes option \<Rightarrow> bytes" where
  "opt_data c = (case c of None \<Rightarrow> [] | Some x \<Rightarrow> x)"

definition failed_outcome :: "dl_outcome \<Rightarrow> storage_error option" where
  "failed_outcome o' =
     (case o' of SuccessOutcome \<Rightarrow> None | FailureOutcome e _ \<Rightarrow> Some e | CancelledOutcome \<Rightarrow> Some StorageUnavailable)"

definition download_inv :: "nat \<Rightarrow> body_poll list \<Rightarrow> bytes \<Rightarrow> download \<Rightarrow> bool" where
  "download_inv total_size seen out d =
     (case dl_status d of
        Open r \<Rightarrow>
          dl_recorded d = [] \<and> body_data seen = out @ opt_data (dr_last r) \<and>
          length (body_data seen) + dr_remaining r = total_size \<and>
          (dr_last r \<noteq> None \<longrightarrow> dr_remaining r = 0 \<and> dr_last r \<noteq> Some []) \<and> (dr_remaining r = 0 \<and> 0 < total_size \<longrightarrow> dr_last r \<noteq> None)
      | Succeeded c \<Rightarrow>
          c = None \<and> dl_recorded d = [SuccessOutcome] \<and> out = body_data seen \<and> length out = total_size \<and> BodyEnd \<in> set seen
      | Failed e \<Rightarrow>
          (\<exists>x. dl_recorded d = [x] \<and> failed_outcome x = Some e) \<and> prefix out (body_data seen) \<and> length out < max 1 total_size)"

lemma open_short: "download_inv total_size seen out d \<Longrightarrow> dl_status d = Open r \<Longrightarrow> length out < max 1 total_size \<and> prefix out (body_data seen)"
  by (auto simp: download_inv_def opt_data_def less_max_iff_disj split: option.splits)

lemma finish_failed_inv:
  assumes "download_inv total_size seen out d" "failed_outcome x \<noteq> None" "(\<exists>r. dl_status d = Open r) \<or> ps = []"
  shows "download_inv total_size (seen @ ps) out (finish_download x d)"
proof (cases "dl_status d")
  case (Open r)
  with open_short[OF assms(1) Open] assms show ?thesis
    by (auto simp: finish_download_def download_inv_def failed_outcome_def split: dl_outcome.splits)
qed (use assms in \<open>auto simp: finish_download_def\<close>)

lemma terminate_inv: "download_inv total_size seen out d \<Longrightarrow> failed_outcome x \<noteq> None \<Longrightarrow> download_inv total_size seen out (terminate why x d)"
  using finish_failed_inv[of total_size seen out d _ "[]"]
  by (auto simp: terminate_def failed_outcome_def split: option.splits dl_outcome.splits)

lemma fail_read_inv:
  assumes "download_inv total_size seen out d" "dl_status d = Open r"
  shows "download_inv total_size (seen @ ps) out (snd (fail_read e cls d))"
  using finish_failed_inv[OF assms(1), of "FailureOutcome e cls"] assms(2) by (auto simp: fail_read_def failed_outcome_def)

text \<open>What a poll adds to the delivered bytes.\<close>

fun step_data :: "(storage_error + read_step) option \<Rightarrow> bytes" where
  "step_data (Some (Inr (Chunk (Some c)))) = c"
| "step_data _ = []"

lemma read_polled_inv:
  assumes inv: "download_inv total_size seen out d" and r: "dl_status d = Open r" and p: "polled \<noteq> BodyPanic"
  shows "download_inv total_size (seen @ [polled]) (out @ step_data (fst (read_polled polled r d))) (snd (read_polled polled r d))"
proof (cases polled)
  case (BodyChunk c)
  consider "c = []" | "c \<noteq> []" "length c > dr_remaining r" | "c \<noteq> []" "length c = dr_remaining r" | "c \<noteq> []" "length c < dr_remaining r"
    by linarith
  then show ?thesis
  proof cases
    case 2
    with fail_read_inv[OF inv r] BodyChunk show ?thesis by (simp add: read_polled_def fail_read_def)
  qed (use inv r BodyChunk in \<open>auto simp: read_polled_def download_inv_def opt_data_def\<close>)
next
  case (BodyError b)
  with fail_read_inv[OF inv r] show ?thesis by (simp add: read_polled_def fail_read_def)
next
  case BodyEnd
  show ?thesis
  proof (cases "dr_remaining r = 0")
    case True
    then show ?thesis using inv r BodyEnd
      by (cases "dr_last r") (auto simp: read_polled_def download_inv_def finish_download_def opt_data_def)
  next
    case False
    with fail_read_inv[OF inv r] BodyEnd show ?thesis by (simp add: read_polled_def fail_read_def)
  qed
qed (use inv r p in \<open>auto simp: read_polled_def download_inv_def\<close>)

lemma poll_download_inv:
  assumes inv: "download_inv total_size seen out d" and p: "\<not> (body_reached t d \<and> rt_body t = BodyPanic)"
  shows "download_inv total_size (seen @ taken t d) (out @ step_data (fst (poll_download t d))) (snd (poll_download t d))"
proof (cases "dl_status d")
  case (Open r)
  then show ?thesis
  proof (cases "rt_stopped_before t = None \<and> rt_proceed t \<and> rt_stopped_after t = None")
    case True
    with Open p have "rt_body t \<noteq> BodyPanic" by (simp add: body_reached_def)
    with read_polled_inv[OF inv Open] True Open show ?thesis by (simp add: poll_download_def taken_def body_reached_def)
  next
    case False
    with fail_read_inv[OF inv Open] fail_read_inv[OF inv Open, of "[]", simplified] inv Open show ?thesis
      by (auto simp: poll_download_def taken_def body_reached_def fail_read_def split: option.splits)
  qed
qed (use inv in \<open>auto simp: poll_download_def taken_def body_reached_def download_inv_def\<close>)

lemma poll_chunk_inv:
  "download_inv total_size seen out d \<Longrightarrow> poll_chunk ts d = (r, d') \<Longrightarrow>
     download_inv total_size (seen @ taken_chunk ts d) (out @ chunk_data r) d' \<and>
     (\<forall>e. r = ChunkErr e \<longrightarrow> dl_status d' = Failed e) \<and> (r = ChunkOk None \<longrightarrow> dl_status d' = Succeeded None)"
proof (induction ts arbitrary: seen d)
  case (Cons t ts)
  show ?case
  proof (cases "body_reached t d \<and> rt_body t = BodyPanic")
    case True
    then obtain r0 where "dl_status d = Open r0" by (auto simp: body_reached_def)
    then have "download_inv total_size (seen @ [BodyPanic]) out (terminate (rt_stopped_after t) CancelledOutcome d)"
      using finish_failed_inv[OF Cons.prems(1), where ps = "[BodyPanic]"]
      by (auto simp: terminate_def failed_outcome_def split: option.splits)
    with True Cons.prems show ?thesis by (auto simp: taken_def)
  next
    case False
    obtain res d1 where p: "poll_download t d = (res, d1)" by fastforce
    from poll_download_inv[OF Cons.prems(1) False] p have inv: "download_inv total_size (seen @ taken t d) (out @ step_data res) d1" by simp
    have tail: "poll_chunk (t # ts) d = poll_chunk ts d1" "taken_chunk (t # ts) d = taken t d @ taken_chunk ts d1" "step_data res = []"
      if "res = Some (Inr Buffered) \<or> res = Some (Inr EmptyStep)" using that False p by auto
    consider "res = Some (Inr Buffered) \<or> res = Some (Inr EmptyStep)" | "res = None" | e where "res = Some (Inl e)"
      | c where "res = Some (Inr (Chunk c))"
      by (metis old.sum.exhaust option.exhaust read_step.exhaust)
    then show ?thesis
    proof cases
      case 1
      with Cons.IH[of "seen @ taken t d" d1] inv tail[OF 1] Cons.prems(2) show ?thesis by simp
    next
      case 2
      with False p inv Cons.prems(2) show ?thesis by auto
    next
      case 3
      then have "dl_status d1 = Failed e" using p
        by (auto simp: poll_download_def read_polled_def fail_read_def finish_download_def
            split: download_state.splits option.splits if_splits body_poll.splits)
      with 3 False p inv Cons.prems(2) show ?thesis by auto
    next
      case 4
      then have "c = None \<longrightarrow> dl_status d1 = Succeeded None" using p
        by (auto simp: poll_download_def read_polled_def fail_read_def
            split: download_state.splits option.splits if_splits body_poll.splits)
      with 4 False p inv Cons.prems(2) show ?thesis by (cases c) auto
    qed
  qed
qed simp

lemma dl_step_inv:
  assumes "download_inv total_size seen out d" "dl_step e d = (rs, d')"
  shows "download_inv total_size (seen @ (case e of
        Read lost turns \<Rightarrow>
          taken_chunk turns (case lost of None \<Rightarrow> d | Some why \<Rightarrow> terminate why (FailureOutcome StorageUnavailable ''body'') d)
      | _ \<Rightarrow> [])) (out @ delivered rs) d' \<and>
     (\<forall>err. ChunkErr err \<in> set rs \<longrightarrow> dl_status d' = Failed err) \<and> (ChunkOk None \<in> set rs \<longrightarrow> dl_status d' = Succeeded None)"
proof (cases e)
  case (Read lost turns)
  let ?d = "case lost of None \<Rightarrow> d | Some why \<Rightarrow> terminate why (FailureOutcome StorageUnavailable ''body'') d"
  have inv: "download_inv total_size seen out ?d" using terminate_inv[OF assms(1)] assms(1)
    by (auto simp: failed_outcome_def split: option.splits)
  obtain r d1 where "poll_chunk turns ?d = (r, d1)" by fastforce
  with poll_chunk_inv[OF inv this] assms(2) Read show ?thesis by auto
qed (use terminate_inv[OF assms(1)] assms(2) in \<open>auto simp: failed_outcome_def\<close>)

text \<open>A download that has ended, well or not, stays so: every later read gives the same answer and nothing more is recorded.\<close>

lemma poll_chunk_terminal:
  "dl_status d = Failed e \<Longrightarrow> poll_chunk ts d = (if ts = [] then ChunkPending else ChunkErr e, d)"
  "dl_status d = Succeeded None \<Longrightarrow> poll_chunk ts d = (if ts = [] then ChunkPending else ChunkOk None, d)"
  by (cases ts; simp add: body_reached_def poll_download_def)+

lemma dl_run_terminal:
  assumes "dl_status d = Failed e \<or> dl_status d = Succeeded None"
  shows "snd (dl_run es d) = d \<and>
     set (fst (dl_run es d)) \<subseteq> {ChunkPending, case dl_status d of Failed e \<Rightarrow> ChunkErr e | _ \<Rightarrow> ChunkOk None}"
proof (induction es)
  case (Cons ev es)
  have term_same: "terminate why x d = d" for why x using assms by (auto simp: terminate_def finish_download_def)
  have "snd (dl_step ev d) = d \<and> set (fst (dl_step ev d)) \<subseteq> {ChunkPending, case dl_status d of Failed e \<Rightarrow> ChunkErr e | _ \<Rightarrow> ChunkOk None}"
    using assms by (cases ev) (auto simp: term_same poll_chunk_terminal split: option.splits)
  with Cons show ?case by (cases "dl_step ev d"; cases "dl_run es d") auto
qed simp

lemma dl_run_inv:
  "download_inv total_size seen out d \<Longrightarrow> dl_run es d = (rs, d') \<Longrightarrow>
     download_inv total_size (seen @ taken_run es d) (out @ delivered rs) d' \<and>
     (\<forall>err. ChunkErr err \<in> set rs \<longrightarrow> dl_status d' = Failed err) \<and> (ChunkOk None \<in> set rs \<longrightarrow> dl_status d' = Succeeded None)"
proof (induction es arbitrary: seen out d rs)
  case (Cons e es)
  obtain r1 d1 rs1 where s: "dl_step e d = (r1, d1)" "dl_run es d1 = (rs1, d')" "rs = r1 @ rs1"
    using Cons.prems(2) by (auto split: prod.splits)
  note one = dl_step_inv[OF Cons.prems(1) s(1)]
  from Cons.IH[OF conjunct1[OF one] s(2)]
  have rest: "download_inv total_size (seen @ taken_run (e # es) d) (out @ delivered rs) d'"
    "\<forall>err. ChunkErr err \<in> set rs1 \<longrightarrow> dl_status d' = Failed err" "ChunkOk None \<in> set rs1 \<longrightarrow> dl_status d' = Succeeded None"
    by (simp_all add: s)
  have "d' = d1" if "dl_status d1 = Failed err \<or> dl_status d1 = Succeeded None" for err
    using dl_run_terminal[OF that, of es] s(2) by simp
  with one rest s(3) show ?case by auto
qed simp

text \<open>The timer, its loss and the drop end an open download.\<close>

lemma dl_step_open:
  "dl_step e d = (rs, d') \<Longrightarrow> dl_status d' = Open r \<Longrightarrow> (\<exists>r. dl_status d = Open r) \<and> (\<exists>lost turns. e = Read lost turns)"
proof (cases e)
  case (Read lost turns)
  assume s: "dl_step e d = (rs, d')" "dl_status d' = Open r"
  have kept: "\<exists>r. dl_status d = Open r" if "poll_chunk ts d = (x, d1)" "dl_status d1 = Open r" for ts d x d1
    using that poll_chunk_terminal(1)[of d _ ts]
  proof (cases "dl_status d")
    case (Succeeded c)
    with that show ?thesis by (cases ts) (auto simp: body_reached_def poll_download_def)
  qed auto
  let ?d = "case lost of None \<Rightarrow> d | Some why \<Rightarrow> terminate why (FailureOutcome StorageUnavailable ''body'') d"
  from s(1) Read have "\<exists>x. poll_chunk turns ?d = (x, d')" by (auto split: prod.splits)
  with kept s(2) have "\<exists>r. dl_status ?d = Open r" by blast
  then have "\<exists>r. dl_status d = Open r"
    by (auto simp: terminate_def finish_download_def split: option.splits download_state.splits)
  with Read show ?thesis by blast
qed (auto simp: terminate_def finish_download_def split: download_state.splits dl_outcome.splits option.splits)

lemma dl_run_open:
  "dl_run es d = (rs, d') \<Longrightarrow> dl_status d' = Open r \<Longrightarrow> (\<exists>r. dl_status d = Open r) \<and> (\<forall>e \<in> set es. \<exists>lost turns. e = Read lost turns)"
proof (induction es arbitrary: d rs)
  case (Cons e es)
  obtain r1 d1 rs1 where s: "dl_step e d = (r1, d1)" "dl_run es d1 = (rs1, d')"
    using Cons.prems(1) by (auto split: prod.splits)
  from Cons.IH[OF s(2) Cons.prems(2)] dl_step_open[OF s(1)] show ?case by auto
qed auto

text \<open>
  C28. A download delivers the object or says that it did not. Whatever the body, the scope, the timer and the owner do, and in whatever
  order: the delivered bytes are a prefix of what the body supplied and never exceed the size of the object. They
  reach a size that is not zero only when the body has confirmed its end after exactly that many bytes, the last chunk being
  withheld until then; an end of stream is reported only in that case. The outcome is recorded exactly once, when the
  download ends: success exactly when all was delivered, and otherwise the failure that this and every later read reports. A dropped
  or timed-out download has ended, so its permit and body are released.
\<close>

theorem download_exact:
  assumes "dl_run es (download_open total_size) = (rs, d)"
  shows "prefix (delivered rs) (body_data (taken_run es (download_open total_size))) \<and> length (delivered rs) \<le> total_size \<and>
     (length (delivered rs) = total_size \<and> 0 < total_size \<or> ChunkOk None \<in> set rs \<longrightarrow>
        dl_status d = Succeeded None \<and> BodyEnd \<in> set (taken_run es (download_open total_size)) \<and>
        delivered rs = body_data (taken_run es (download_open total_size)) \<and> length (delivered rs) = total_size) \<and>
     (\<forall>err. ChunkErr err \<in> set rs \<longrightarrow> dl_status d = Failed err) \<and>
     (case dl_status d of
        Open _ \<Rightarrow> dl_recorded d = [] \<and> (\<forall>e \<in> set es. \<exists>lost turns. e = Read lost turns)
      | Succeeded _ \<Rightarrow> dl_recorded d = [SuccessOutcome]
      | Failed err \<Rightarrow> \<exists>x. dl_recorded d = [x] \<and> failed_outcome x = Some err)"
proof -
  have "download_inv total_size [] [] (download_open total_size)" by (auto simp: download_inv_def download_open_def opt_data_def)
  from dl_run_inv[OF this assms] have inv: "download_inv total_size (taken_run es (download_open total_size)) (delivered rs) d"
    and err: "\<forall>err. ChunkErr err \<in> set rs \<longrightarrow> dl_status d = Failed err" and fin: "ChunkOk None \<in> set rs \<longrightarrow> dl_status d = Succeeded None"
    by simp_all
  have short: "length (delivered rs) < max 1 total_size \<and> prefix (delivered rs) (body_data (taken_run es (download_open total_size)))"
    if "dl_status d \<noteq> Succeeded None"
    using inv open_short[OF inv] that by (cases "dl_status d") (auto simp: download_inv_def)
  have reads: "\<forall>e \<in> set es. \<exists>lost turns. e = Read lost turns" if "dl_status d = Open r" for r
    using dl_run_open[OF assms] that by blast
  from inv short reads err fin show ?thesis
    by (cases "dl_status d") (auto simp: download_inv_def less_max_iff_disj)
qed

definition demo_body :: "body_poll \<Rightarrow> read_turn" where
  "demo_body b = \<lparr>rt_stopped_before = None, rt_proceed = True, rt_body = b, rt_stopped_after = None\<rparr>"

definition demo_reads :: "dl_event list" where
  "demo_reads = [Read None [demo_body (BodyChunk [1, 2])], Read None [demo_body (BodyChunk [3]), demo_body BodyEnd],
     Read None [demo_body BodyPending], DropDownload None]"

theorem download_exact_witness:
  "\<exists>rs d. dl_run demo_reads (download_open 3) = (rs, d) \<and> delivered rs = [1, 2, 3] \<and>
     dl_status d = Succeeded None \<and> dl_recorded d = [SuccessOutcome] \<and> BodyEnd \<in> set (taken_run demo_reads (download_open 3))"
proof -
  have run: "dl_run demo_reads (download_open 3) =
      ([ChunkOk (Some [1, 2]), ChunkOk (Some [3]), ChunkOk None], \<lparr>dl_status = Succeeded None, dl_recorded = [SuccessOutcome]\<rparr>)"
    by (simp add: demo_reads_def demo_body_def download_open_def body_reached_def poll_download_def read_polled_def finish_download_def
        terminate_def)
  from download_exact[OF run] run show ?thesis by auto
qed

end
