(* ===== verification/ObjectClient.thy ===== *)
theory ObjectClient
  imports ObjectDownload
begin

text \<open>
  \<open>crates/infra-object-storage/src/error.rs\<close> and \<open>lib.rs\<close>: the mapping from provider replies to the failures a caller sees, and the
  operations of the client under the caller's scope. The SDK is met through what its future answers. Each operation returns, with
  its result, the outcomes its guard records; no result means that the caller dropped the future, and the dropped guard then records
  the cancellation.
\<close>

subsection \<open>Replies\<close>

datatype call = ReadCall | MutationCall | CreateOnlyCall

datatype reply = NotSent | NoCredentials | Lost | StatusReply nat "string option"

definition classify_reply :: "call \<Rightarrow> reply \<Rightarrow> storage_error" where
  "classify_reply c r =
     (let ambiguous = (if c = ReadCall then StorageUnavailable else OutcomeUnknown)
      in case r of
           NotSent \<Rightarrow> StorageRejected
         | NoCredentials \<Rightarrow> StorageUnavailable
         | Lost \<Rightarrow> ambiguous
         | StatusReply status code \<Rightarrow>
             if code = Some ''NoSuchBucket'' then StorageRejected
             else if status = 404 \<and> c = ReadCall then ObjectNotFound
             else if status = 412 \<and> c = CreateOnlyCall then ObjectAlreadyExists
             else if status \<in> {409, 429, 503} \<or> code = Some ''RequestTimeout'' then StorageUnavailable
             else if status = 501 then StorageRejected
             else if 500 \<le> status \<and> status \<le> 599 then ambiguous
             else StorageRejected)"

datatype sdk_error =
    ConstructionFailure
  | ServiceError nat "string option"
  | DispatchFailure bool bool
  | SdkTimeout
  | ResponseError

definition sdk_code :: "sdk_error \<Rightarrow> string option" where
  "sdk_code e = (case e of ServiceError _ code \<Rightarrow> code | _ \<Rightarrow> None)"

definition is_identifier :: "string \<Rightarrow> bool" where
  "is_identifier code = (code \<noteq> [] \<and> length code \<le> 64 \<and> list_all ascii_alphanumeric (bytes_of code))"

text \<open>\<open>DispatchFailure\<close> says whether a credentials error caused it and whether it is a timeout.\<close>

definition reply_of :: "sdk_error \<Rightarrow> reply \<times> string" where
  "reply_of e =
     (case e of
        ConstructionFailure \<Rightarrow> (NotSent, ''construction'')
      | ServiceError status code \<Rightarrow>
          (StatusReply status code,
           case code of Some c \<Rightarrow> if is_identifier c then c else decimal status | None \<Rightarrow> decimal status)
      | DispatchFailure credentials timed_out \<Rightarrow>
          if credentials then (NoCredentials, ''credentials'')
          else if timed_out then (Lost, ''timeout'') else (Lost, ''dispatch'')
      | SdkTimeout \<Rightarrow> (Lost, ''timeout'')
      | ResponseError \<Rightarrow> (Lost, ''response''))"

definition from_sdk :: "call \<Rightarrow> sdk_error \<Rightarrow> storage_error \<times> string" where
  "from_sdk c e = (classify_reply c (fst (reply_of e)), snd (reply_of e))"

subsection \<open>A future within the scope\<close>

record 'a scoped_poll =
  sp_stopped :: "stopped_reason option"
  sp_waited :: "stopped_reason option"
  sp_ready :: "'a option"

fun within :: "bool \<Rightarrow> 'a scoped_poll list \<Rightarrow> ((stopped_reason \<times> bool) + 'a) option" where
  "within polled [] = None"
| "within polled (p # ps) =
     (case sp_stopped p of
        Some why \<Rightarrow> Some (Inl (why, polled))
      | None \<Rightarrow>
          (case sp_waited p of
             Some why \<Rightarrow> Some (Inl (why, polled))
           | None \<Rightarrow> (case sp_ready p of Some x \<Rightarrow> Some (Inr x) | None \<Rightarrow> within True ps)))"

type_synonym 'a storage_operation = "(storage_error + 'a) option \<times> dl_outcome list"

definition failed :: "storage_error \<Rightarrow> string \<Rightarrow> 'a storage_operation" where
  "failed e cls = (Some (Inl e), [FailureOutcome e cls])"

definition succeeded :: "'a \<Rightarrow> 'a storage_operation" where
  "succeeded x = (Some (Inr x), [SuccessOutcome])"

definition dropped :: "'a storage_operation" where
  "dropped = (None, [CancelledOutcome])"

text \<open>\<open>check\<close> of the scope, then the rest.\<close>

definition checked :: "stopped_reason option \<Rightarrow> 'a storage_operation \<Rightarrow> 'a storage_operation" where
  "checked stop rest = (case stop of Some why \<Rightarrow> failed StorageUnavailable (stop_type why) | None \<Rightarrow> rest)"

subsection \<open>The budget of one call\<close>

definition STORAGE_MAX_ATTEMPTS :: nat where "STORAGE_MAX_ATTEMPTS = 3"
definition CONNECT_TIMEOUT :: duration where "CONNECT_TIMEOUT = from_millis 3100"
definition READ_ATTEMPT_SHARE :: nat where "READ_ATTEMPT_SHARE = 2"

record call_config =
  cc_operation_timeout :: duration
  cc_attempt_timeout :: duration
  cc_connect_timeout :: duration
  cc_max_attempts :: "nat option"

text \<open>No attempt count leaves the one of the client in force.\<close>

definition operation_config :: "duration \<Rightarrow> duration option \<Rightarrow> bool \<Rightarrow> call_config" where
  "operation_config operation_timeout left mutation =
     (let budget = (case left of Some r \<Rightarrow> r | None \<Rightarrow> operation_timeout);
          attempt = (if mutation then budget else min budget (operation_timeout div READ_ATTEMPT_SHARE))
      in \<lparr>cc_operation_timeout = budget, cc_attempt_timeout = attempt, cc_connect_timeout = min CONNECT_TIMEOUT attempt,
          cc_max_attempts = (if mutation then Some 1 else None)\<rparr>)"

definition attempts_allowed :: "call_config \<Rightarrow> nat" where
  "attempts_allowed c = (case cc_max_attempts c of Some n \<Rightarrow> n | None \<Rightarrow> STORAGE_MAX_ATTEMPTS)"

text \<open>
  A mutation is sent at most once, which is what makes its reply conclusive; connecting fits the attempt and the attempt fits what is left of the
  operation; and a read that loses one attempt from the start has half of the operation left for another.
\<close>

lemma operation_config_bounds:
  fixes operation_timeout left mutation
  defines "c \<equiv> operation_config operation_timeout left mutation"
  shows "cc_connect_timeout c \<le> cc_attempt_timeout c" "cc_attempt_timeout c \<le> cc_operation_timeout c"
    "mutation \<Longrightarrow> attempts_allowed c = 1"
    "\<not> mutation \<Longrightarrow> left = Some operation_timeout \<Longrightarrow> operation_timeout \<le> 2 * (cc_operation_timeout c - cc_attempt_timeout c)"
  by (auto simp: c_def operation_config_def attempts_allowed_def READ_ATTEMPT_SHARE_def Let_def)

subsection \<open>Mutations\<close>

record put_env =
  pt_begin :: "stopped_reason option"
  pt_permit :: bool
  pt_prepare :: "(first_item \<times> bool) scoped_poll list"
  pt_left :: "duration option"
  pt_before :: "stopped_reason option"
  pt_send :: "call_config \<Rightarrow> (sdk_error + unit) scoped_poll list"
  pt_mismatch :: "bool option"

text \<open>
  A put of an empty stream first looks for an item; \<open>pt_prepare\<close> are the polls of that look, with what it found and the
  flag of the stream. \<open>pt_mismatch\<close> is absent for a body in memory. What the SDK does depends on the configuration that the call passes to it.
\<close>

definition prepare_polls :: "nat \<Rightarrow> put_env \<Rightarrow> ((storage_error \<times> string) + unit) scoped_poll list" where
  "prepare_polls len env =
     map (\<lambda>p. \<lparr>sp_stopped = sp_stopped p, sp_waited = sp_waited p,
       sp_ready = map_option (\<lambda>(first, differs). if pt_mismatch env = None then Inr () else prepare_empty_stream len first differs) (sp_ready p)\<rparr>)
       (pt_prepare env)"

text \<open>The flag that is read at the end; an empty stream has become a body in memory by then.\<close>

definition body_differs :: "nat \<Rightarrow> put_env \<Rightarrow> bool" where
  "body_differs len env = (len \<noteq> 0 \<and> pt_mismatch env = Some True)"

definition put_config :: "duration \<Rightarrow> put_env \<Rightarrow> call_config" where
  "put_config operation_timeout env = operation_config operation_timeout (pt_left env) True"

definition put_with_context :: "duration \<Rightarrow> nat \<Rightarrow> nat \<Rightarrow> bool \<Rightarrow> put_env \<Rightarrow> unit storage_operation" where
  "put_with_context operation_timeout max_object_bytes len create_only env =
     checked (pt_begin env)
       (if len > max_object_bytes then failed ObjectTooLarge ''too_large''
        else if \<not> pt_permit env then failed StorageBusy ''busy''
        else case within False (prepare_polls len env) of
               None \<Rightarrow> dropped
             | Some (Inl (why, _)) \<Rightarrow> failed StorageUnavailable (stop_type why)
             | Some (Inr (Inl (e, cls))) \<Rightarrow> failed e cls
             | Some (Inr (Inr _)) \<Rightarrow>
                 checked (pt_before env)
                   (case within False (pt_send env (put_config operation_timeout env)) of
                      None \<Rightarrow> dropped
                    | Some (Inr (Inr _)) \<Rightarrow> succeeded ()
                    | Some other \<Rightarrow>
                        if body_differs len env then failed StorageRejected ''body_length''
                        else (case other of
                                Inr (Inl e) \<Rightarrow>
                                  (let (err, cls) = from_sdk (if create_only then CreateOnlyCall else MutationCall) e
                                   in failed err cls)
                              | Inl (why, polled) \<Rightarrow>
                                  failed (if polled then OutcomeUnknown else StorageUnavailable) (stop_type why))))"

record delete_env =
  de_begin :: "stopped_reason option"
  de_permit :: bool
  de_before :: "stopped_reason option"
  de_send :: "(sdk_error + unit) scoped_poll list"

definition delete_with_context :: "delete_env \<Rightarrow> unit storage_operation" where
  "delete_with_context env =
     checked (de_begin env)
       (if \<not> de_permit env then failed StorageBusy ''busy''
        else checked (de_before env)
          (case within False (de_send env) of
             None \<Rightarrow> dropped
           | Some (Inl (why, polled)) \<Rightarrow> failed (if polled then OutcomeUnknown else StorageUnavailable) (stop_type why)
           | Some (Inr (Inr _)) \<Rightarrow> succeeded ()
           | Some (Inr (Inl e)) \<Rightarrow>
               if sdk_code e = Some ''NoSuchKey'' then succeeded ()
               else (let (err, cls) = from_sdk MutationCall e in failed err cls)))"

subsection \<open>Reads\<close>

record object_metadata =
  om_size :: nat
  om_content_type :: "string option"
  om_last_modified :: "int option"
  om_e_tag :: "string option"

text \<open>\<open>ro_last_modified\<close> is the header after the conversion of the SDK, absent when that fails.\<close>

record read_output =
  ro_content_range :: bool
  ro_content_length :: "int option"
  ro_content_type :: "string option"
  ro_last_modified :: "int option"
  ro_e_tag :: "string option"

definition from_response_fields :: "read_output \<Rightarrow> storage_error + object_metadata" where
  "from_response_fields r =
     (case ro_content_length r of
        Some n \<Rightarrow>
          if 0 \<le> n then Inr \<lparr>om_size = nat n, om_content_type = ro_content_type r, om_last_modified = ro_last_modified r,
                    om_e_tag = ro_e_tag r\<rparr>
          else Inl StorageIntegrity
      | None \<Rightarrow> Inl StorageIntegrity)"

record get_env =
  ge_begin :: "stopped_reason option"
  ge_permit :: bool
  ge_send :: "(sdk_error + read_output) scoped_poll list"
  ge_received :: "stopped_reason option"
  ge_mapped :: "stopped_reason option"
  ge_first :: "read_turn list list"

definition get_metadata :: "nat \<Rightarrow> read_output \<Rightarrow> (storage_error \<times> string) + object_metadata" where
  "get_metadata max_object_bytes r =
     (if ro_content_range r then Inl (StorageIntegrity, ''content_range'')
      else case from_response_fields r of
             Inl e \<Rightarrow> Inl (e, ''content_length'')
           | Inr m \<Rightarrow> if om_size m > max_object_bytes then Inl (ObjectTooLarge, ''too_large'') else Inr m)"

text \<open>\<open>next_chunk\<close>: polls until one is ready.\<close>

fun next_chunk :: "read_turn list list \<Rightarrow> download \<Rightarrow> chunk_result \<times> download" where
  "next_chunk [] d = (ChunkPending, d)"
| "next_chunk (turns # polls) d =
     (case poll_chunk turns d of (ChunkPending, d) \<Rightarrow> next_chunk polls d | ready \<Rightarrow> ready)"

text \<open>
  A download that opens takes the guard with it, so nothing is recorded for the call itself; an empty object is read to its end at once.
\<close>

definition get_with_context :: "nat \<Rightarrow> get_env \<Rightarrow> (object_metadata \<times> download) storage_operation" where
  "get_with_context max_object_bytes env =
     checked (ge_begin env)
       (if \<not> ge_permit env then failed StorageBusy ''busy''
        else case within False (ge_send env) of
               None \<Rightarrow> dropped
             | Some (Inl (why, _)) \<Rightarrow> failed StorageUnavailable (stop_type why)
             | Some (Inr result) \<Rightarrow>
                 checked (ge_received env)
                   (checked (ge_mapped env)
                      (case result of
                         Inl e \<Rightarrow> (let (err, cls) = from_sdk ReadCall e in failed err cls)
                       | Inr r \<Rightarrow>
                           (case get_metadata max_object_bytes r of
                              Inl (err, cls) \<Rightarrow> failed err cls
                            | Inr m \<Rightarrow>
                                let d = download_open (om_size m)
                                in if om_size m = 0 then
                                     (case next_chunk (ge_first env) d of
                                        (ChunkOk _, d) \<Rightarrow> (Some (Inr (m, d)), dl_recorded d)
                                      | (ChunkErr e, d) \<Rightarrow> (Some (Inl e), dl_recorded d)
                                      | (_, d) \<Rightarrow> (None, dl_recorded (terminate None CancelledOutcome d)))
                                   else (Some (Inr (m, d)), [])))))"

record head_env =
  he_begin :: "stopped_reason option"
  he_permit :: bool
  he_send :: "(sdk_error + read_output) scoped_poll list"
  he_received :: "stopped_reason option"
  he_last :: "stopped_reason option"

definition head_with_context :: "head_env \<Rightarrow> object_metadata storage_operation" where
  "head_with_context env =
     checked (he_begin env)
       (if \<not> he_permit env then failed StorageBusy ''busy''
        else case within False (he_send env) of
               None \<Rightarrow> dropped
             | Some (Inl (why, _)) \<Rightarrow> failed StorageUnavailable (stop_type why)
             | Some (Inr result) \<Rightarrow>
                 checked (he_received env)
                   (case result of
                      Inl e \<Rightarrow> (let (err, cls) = from_sdk ReadCall e in failed err cls)
                    | Inr r \<Rightarrow>
                        (case from_response_fields r of
                           Inl e \<Rightarrow> failed e ''content_length''
                         | Inr m \<Rightarrow> checked (he_last env) (succeeded m))))"

definition PRESIGN_MIN :: duration where "PRESIGN_MIN = from_secs 1"
definition PRESIGN_MAX :: duration where "PRESIGN_MAX = from_secs (7 * 24 * 60 * 60)"

record presign_env =
  ps_begin :: "stopped_reason option"
  ps_config :: bool
  ps_sign :: "(sdk_error + (bool \<times> string)) scoped_poll list"
  ps_signed :: "stopped_reason option"
  ps_last :: "stopped_reason option"

text \<open>The signed request says whether it needs headers, and its URL.\<close>

definition presign_get_with_context :: "duration \<Rightarrow> presign_env \<Rightarrow> string storage_operation" where
  "presign_get_with_context expires_in env =
     checked (ps_begin env)
       (if \<not> (PRESIGN_MIN \<le> expires_in \<and> expires_in \<le> PRESIGN_MAX) \<or> \<not> ps_config env then failed StorageRejected ''expires_in''
        else case within False (ps_sign env) of
               None \<Rightarrow> dropped
             | Some (Inl (why, _)) \<Rightarrow> failed StorageUnavailable (stop_type why)
             | Some (Inr result) \<Rightarrow>
                 checked (ps_signed env)
                   (case result of
                      Inr (headers, url) \<Rightarrow>
                        if headers then failed StorageRejected ''presigned_headers''
                        else checked (ps_last env) (succeeded url)
                    | Inl e \<Rightarrow> (let (err, cls) = from_sdk ReadCall e in failed err cls)))"

text \<open>The readiness probe asks for the bucket outside admission and outside any scope.\<close>

definition bucket_probe_check :: "(sdk_error + unit) option \<Rightarrow> (string + unit) option \<times> dl_outcome list" where
  "bucket_probe_check answer =
     (case answer of
        None \<Rightarrow> (None, [CancelledOutcome])
      | Some (Inr _) \<Rightarrow> (Some (Inr ()), [SuccessOutcome])
      | Some (Inl e) \<Rightarrow>
          (let (err, cls) = from_sdk ReadCall e
           in (Some (Inl (''object storage bucket check failed: '' @ cls)), [FailureOutcome err cls])))"

subsection \<open>What a caller may conclude\<close>

text \<open>
  What a provider documents of a mutation. It does not apply a request that was not sent, and it does not apply one that it
  answers with a status other than a server error, or with 501 or 503; it applies one that it answers with success. It does not store an
  object whose body ended short of its declared length.
\<close>

definition refused_status :: "nat \<Rightarrow> bool" where
  "refused_status s = (\<not> (500 \<le> s \<and> s \<le> 599) \<or> s = 501 \<or> s = 503)"

definition sdk_honest :: "bool \<Rightarrow> sdk_error \<Rightarrow> bool" where
  "sdk_honest applied e =
     (case e of
        ConstructionFailure \<Rightarrow> \<not> applied
      | ServiceError s code \<Rightarrow>
          refused_status s \<or> code = Some ''NoSuchBucket'' \<or> code = Some ''RequestTimeout'' \<longrightarrow> \<not> applied
      | DispatchFailure credentials _ \<Rightarrow> credentials \<longrightarrow> \<not> applied
      | _ \<Rightarrow> True)"

definition future_polled :: "'a scoped_poll list \<Rightarrow> bool" where
  "future_polled ps = (\<exists>p rest. ps = p # rest \<and> sp_stopped p = None \<and> sp_waited p = None)"

definition send_honest :: "bool \<Rightarrow> (sdk_error + unit) scoped_poll list \<Rightarrow> bool" where
  "send_honest applied ps =
     ((applied \<longrightarrow> future_polled ps) \<and>
      (\<forall>p \<in> set ps. case sp_ready p of None \<Rightarrow> True | Some (Inr _) \<Rightarrow> applied | Some (Inl e) \<Rightarrow> sdk_honest applied e))"

lemma classify_conclusive:
  assumes "c \<noteq> ReadCall" "sdk_honest applied e" "fst (from_sdk c e) \<noteq> OutcomeUnknown"
  shows "\<not> applied"
  using assms
  by (auto simp: from_sdk_def reply_of_def classify_reply_def sdk_honest_def refused_status_def Let_def
      split: sdk_error.splits if_splits)

lemma within_answer: "within polled ps = Some (Inr x) \<Longrightarrow> \<exists>p \<in> set ps. sp_ready p = Some x"
  by (induction polled ps rule: within.induct) (auto split: option.splits)

lemma within_unpolled: "within False ps = Some (Inl (why, False)) \<Longrightarrow> \<not> future_polled ps"
proof -
  have "within True ps \<noteq> Some (Inl (why, False))" for ps :: "'a scoped_poll list"
    by (induction ps) (auto split: option.splits)
  then show "within False ps = Some (Inl (why, False)) \<Longrightarrow> \<not> future_polled ps"
    by (cases ps) (auto simp: future_polled_def split: option.splits)
qed

lemmas operation_ends = checked_def failed_def succeeded_def dropped_def

lemma send_conclusive:
  assumes "send_honest applied ps" "within False ps = Some r"
  shows "r = Inr (Inr u) \<Longrightarrow> applied"
    "r = Inl (why, False) \<Longrightarrow> \<not> applied"
    "r = Inr (Inl e) \<Longrightarrow> sdk_honest applied e"
  using assms within_answer[of False ps] within_unpolled[of ps why] by (fastforce simp: send_honest_def)+

text \<open>The outcome recorded for an operation that ended is the result it returned.\<close>

definition recorded_as :: "'a storage_operation \<Rightarrow> bool" where
  "recorded_as r =
     (case fst r of
        None \<Rightarrow> snd r = [CancelledOutcome]
      | Some (Inr _) \<Rightarrow> snd r = [SuccessOutcome]
      | Some (Inl e) \<Rightarrow> \<exists>cls. snd r = [FailureOutcome e cls])"

lemma recorded_ends [simp]:
  "recorded_as (failed e cls)" "recorded_as (succeeded x)" "recorded_as dropped"
  "recorded_as (checked stop r) \<longleftrightarrow> stop \<noteq> None \<or> recorded_as r"
  by (auto simp: recorded_as_def operation_ends split: option.splits)

subsection \<open>Conclusive mutations\<close>

text \<open>A put reaches the provider only when every step before it let it through and its future was polled.\<close>

definition put_dispatched :: "duration \<Rightarrow> nat \<Rightarrow> nat \<Rightarrow> put_env \<Rightarrow> bool" where
  "put_dispatched operation_timeout max_object_bytes len env =
     (pt_begin env = None \<and> len \<le> max_object_bytes \<and> pt_permit env \<and> within False (prepare_polls len env) = Some (Inr (Inr ())) \<and>
      pt_before env = None \<and> future_polled (pt_send env (put_config operation_timeout env)))"

lemma put_sent:
  assumes "pt_begin env = None" "len \<le> max_object_bytes" "pt_permit env" "within False (prepare_polls len env) = Some (Inr (Inr ()))"
    "pt_before env = None"
  shows "put_with_context operation_timeout max_object_bytes len create_only env =
     (case within False (pt_send env (put_config operation_timeout env)) of
        None \<Rightarrow> dropped
      | Some (Inr (Inr _)) \<Rightarrow> succeeded ()
      | Some other \<Rightarrow>
          if body_differs len env then failed StorageRejected ''body_length''
          else (case other of
                  Inr (Inl e) \<Rightarrow> (let (err, cls) = from_sdk (if create_only then CreateOnlyCall else MutationCall) e in failed err cls)
                | Inl (why, polled) \<Rightarrow> failed (if polled then OutcomeUnknown else StorageUnavailable) (stop_type why)))"
  using assms by (simp add: put_with_context_def checked_def)

text \<open>The look at an empty stream fails only with errors that say nothing was stored.\<close>

lemma prepare_polls_errors:
  "p \<in> set (prepare_polls len env) \<Longrightarrow> sp_ready p = Some (Inl (e, cls)) \<Longrightarrow> e \<in> {StorageUnavailable, StorageRejected}"
  by (auto simp: prepare_polls_def prepare_empty_stream_def split: if_splits first_item.splits)

lemma put_unsent:
  assumes "\<not> (pt_begin env = None \<and> len \<le> max_object_bytes \<and> pt_permit env \<and>
      within False (prepare_polls len env) = Some (Inr (Inr ())) \<and> pt_before env = None)"
  shows "recorded_as (put_with_context operation_timeout max_object_bytes len create_only env) \<and>
     (case fst (put_with_context operation_timeout max_object_bytes len create_only env) of
        None \<Rightarrow> True | Some (Inr _) \<Rightarrow> False | Some (Inl e) \<Rightarrow> e \<notin> {OutcomeUnknown, ObjectAlreadyExists})"
proof (cases "pt_begin env = None \<and> len \<le> max_object_bytes \<and> pt_permit env")
  case False
  then show ?thesis by (cases "pt_begin env") (simp_all add: put_with_context_def operation_ends recorded_as_def)
next
  case started: True
  show ?thesis
  proof (cases "within False (prepare_polls len env)")
    case None
    with started show ?thesis by (simp add: put_with_context_def operation_ends recorded_as_def)
  next
    case (Some r)
    consider why p where "r = Inl (why, p)" | e cls where "r = Inr (Inl (e, cls))" | "r = Inr (Inr ())"
      by (metis old.prod.exhaust old.sum.exhaust old.unit.exhaust)
    then show ?thesis
    proof cases
      case 1
      with started Some show ?thesis by (simp add: put_with_context_def operation_ends recorded_as_def)
    next
      case 2
      with Some within_answer[of False "prepare_polls len env"] prepare_polls_errors have "e \<in> {StorageUnavailable, StorageRejected}" by blast
      with started Some 2 show ?thesis by (auto simp: put_with_context_def operation_ends recorded_as_def)
    next
      case 3
      with assms started Some obtain why where "pt_before env = Some why" by auto
      with started Some 3 show ?thesis by (simp add: put_with_context_def operation_ends recorded_as_def)
    qed
  qed
qed

lemma from_sdk_exists: "fst (from_sdk c e) = ObjectAlreadyExists \<Longrightarrow> c = CreateOnlyCall"
  by (auto simp: from_sdk_def reply_of_def classify_reply_def Let_def split: sdk_error.splits if_splits)

lemma future_polled_within: "within False ps = Some (Inr x) \<or> within False ps = Some (Inl (why, True)) \<Longrightarrow> future_polled ps"
  by (cases ps) (auto simp: future_polled_def split: option.splits)

lemma put_sent_conclusive:
  assumes through: "pt_begin env = None \<and> len \<le> max_object_bytes \<and> pt_permit env \<and>
      within False (prepare_polls len env) = Some (Inr (Inr ())) \<and> pt_before env = None"
    and honest: "send_honest applied (pt_send env (put_config operation_timeout env))"
    and short: "body_differs len env \<longrightarrow> \<not> applied"
  shows "recorded_as (put_with_context operation_timeout max_object_bytes len create_only env) \<and>
     (case fst (put_with_context operation_timeout max_object_bytes len create_only env) of
        None \<Rightarrow> True
      | Some (Inr _) \<Rightarrow> applied
      | Some (Inl e) \<Rightarrow>
          (e = OutcomeUnknown \<longrightarrow> put_dispatched operation_timeout max_object_bytes len env) \<and> (e \<noteq> OutcomeUnknown \<longrightarrow> \<not> applied) \<and>
          (e = ObjectAlreadyExists \<longrightarrow> create_only))"
proof -
  note put = put_sent[of env len max_object_bytes operation_timeout create_only]
  have polled: "put_dispatched operation_timeout max_object_bytes len env" if "future_polled (pt_send env (put_config operation_timeout env))" using through that by (simp add: put_dispatched_def)
  show ?thesis
  proof (cases "within False (pt_send env (put_config operation_timeout env))")
    case None
    with put through show ?thesis by (simp add: dropped_def recorded_as_def)
  next
    case (Some r)
    note c = send_conclusive[OF honest Some]
    consider u where "r = Inr (Inr u)" | "body_differs len env" "\<nexists>u. r = Inr (Inr u)"
      | e where "\<not> body_differs len env" "r = Inr (Inl e)" | why p where "\<not> body_differs len env" "r = Inl (why, p)"
      by (metis old.prod.exhaust old.sum.exhaust)
    then show ?thesis
    proof cases
      case 1
      with put through Some c(1) show ?thesis by (simp add: succeeded_def recorded_as_def)
    next
      case 2
      with put through Some short show ?thesis by (auto simp: failed_def recorded_as_def split: sum.splits)
    next
      case 3
      let ?c = "if create_only then CreateOnlyCall else MutationCall"
      have "put_with_context operation_timeout max_object_bytes len create_only env = failed (fst (from_sdk ?c e)) (snd (from_sdk ?c e))"
        using put through Some 3 by (simp add: case_prod_beta)
      moreover have "fst (from_sdk ?c e) \<noteq> OutcomeUnknown \<Longrightarrow> \<not> applied" using classify_conclusive[of ?c applied e] c(3)[OF 3(2)] by simp
      moreover have "put_dispatched operation_timeout max_object_bytes len env" using polled future_polled_within[of "pt_send env (put_config operation_timeout env)" "Inl e"] Some 3 by simp
      ultimately show ?thesis using from_sdk_exists[of ?c e] by (auto simp: failed_def recorded_as_def split: if_splits)
    next
      case 4
      have "p \<Longrightarrow> put_dispatched operation_timeout max_object_bytes len env" using polled future_polled_within[of "pt_send env (put_config operation_timeout env)" _ why] Some 4 by simp
      with put through Some 4 c(2)[of why] show ?thesis by (auto simp: failed_def recorded_as_def)
    qed
  qed
qed

text \<open>
  C26. The result of a put says what the caller may rely on. For a provider that keeps to what it documents of a request that is sent at most
  once, as this one is, whatever the stream, the scope and the transport do: success means that the object is stored; the unknown outcome is reported only for a request that was handed to the
  transport; every other error, a body that differs from its declared length included, means that nothing was stored, so a retry is safe; that the
  object exists already is reported only to a create-only put; and exactly the returned result is recorded, or the
  cancellation when the caller drops the put.
\<close>

theorem put_conclusive:
  assumes sent: "applied \<longrightarrow> put_dispatched operation_timeout max_object_bytes len env"
    and honest: "\<And>config. attempts_allowed config = 1 \<Longrightarrow> send_honest applied (pt_send env config)"
    and short: "body_differs len env \<longrightarrow> \<not> applied"
  shows "recorded_as (put_with_context operation_timeout max_object_bytes len create_only env) \<and>
     (case fst (put_with_context operation_timeout max_object_bytes len create_only env) of
        None \<Rightarrow> True
      | Some (Inr _) \<Rightarrow> applied
      | Some (Inl e) \<Rightarrow>
          (e = OutcomeUnknown \<longrightarrow> put_dispatched operation_timeout max_object_bytes len env) \<and> (e \<noteq> OutcomeUnknown \<longrightarrow> \<not> applied) \<and>
          (e = ObjectAlreadyExists \<longrightarrow> create_only))"
proof (cases "pt_begin env = None \<and> len \<le> max_object_bytes \<and> pt_permit env \<and>
      within False (prepare_polls len env) = Some (Inr (Inr ())) \<and> pt_before env = None")
  case False
  with sent have "\<not> applied" by (auto simp: put_dispatched_def)
  with put_unsent[OF False, of operation_timeout create_only] show ?thesis by (auto split: option.splits sum.splits)
next
  case True
  have "attempts_allowed (put_config operation_timeout env) = 1" unfolding put_config_def by (rule operation_config_bounds(3)) simp
  from put_sent_conclusive[OF True honest[OF this] short] show ?thesis .
qed

definition demo_put :: put_env where
  "demo_put = \<lparr>pt_begin = None, pt_permit = True,
     pt_prepare = [\<lparr>sp_stopped = None, sp_waited = None, sp_ready = Some (FirstNone, False)\<rparr>], pt_left = Some 9, pt_before = None,
     pt_send = (\<lambda>config. [\<lparr>sp_stopped = None, sp_waited = None, sp_ready = Some (Inl (ServiceError 412 None))\<rparr>]), pt_mismatch = Some False\<rparr>"

theorem put_conclusive_witness:
  "fst (put_with_context 9 10 3 True demo_put) = Some (Inl ObjectAlreadyExists) \<and> recorded_as (put_with_context 9 10 3 True demo_put)"
proof -
  have r: "fst (put_with_context 9 10 3 True demo_put) = Some (Inl ObjectAlreadyExists)"
    by (simp add: put_with_context_def demo_put_def body_differs_def prepare_polls_def prepare_empty_stream_def operation_ends from_sdk_def reply_of_def classify_reply_def Let_def)
  have honest: "send_honest False (pt_send demo_put config)" for config by (simp add: send_honest_def demo_put_def sdk_honest_def)
  from put_conclusive[OF _ honest, of 9 10 3 True] r show ?thesis by (simp add: demo_put_def body_differs_def)
qed

subsection \<open>The other operations\<close>

lemma delete_recorded: "recorded_as (delete_with_context env)"
  by (auto simp: delete_with_context_def Let_def split: option.splits sum.splits prod.splits)

lemma delete_conclusive:
  assumes "send_honest applied (de_send env)" "applied \<longrightarrow> de_begin env = None \<and> de_permit env \<and> de_before env = None"
    "fst (delete_with_context env) = Some (Inl e)" "e \<noteq> OutcomeUnknown"
  shows "\<not> applied"
proof (cases "de_begin env = None \<and> de_permit env \<and> de_before env = None")
  case True
  with assms(3) obtain r where r: "within False (de_send env) = Some r"
    by (cases "within False (de_send env)") (auto simp: delete_with_context_def operation_ends)
  note c = send_conclusive[OF assms(1) r]
  from True assms(3,4) r c(2) classify_conclusive[of MutationCall applied] c(3) show ?thesis
    by (auto simp: delete_with_context_def operation_ends case_prod_beta split: sum.splits if_splits prod.splits)
qed (use assms in auto)

lemma head_recorded: "recorded_as (head_with_context env)"
  by (auto simp: head_with_context_def Let_def split: option.splits sum.splits prod.splits)

lemma presign_recorded: "recorded_as (presign_get_with_context expires_in env)"
  by (auto simp: presign_get_with_context_def Let_def split: option.splits sum.splits prod.splits)

lemma presign_lifetime:
  "fst (presign_get_with_context expires_in env) = Some (Inr url) \<Longrightarrow> from_secs 1 \<le> expires_in \<and> expires_in \<le> from_secs (7 * 24 * 60 * 60)"
  by (auto simp: presign_get_with_context_def operation_ends PRESIGN_MIN_def PRESIGN_MAX_def case_prod_beta split: option.splits if_splits)

text \<open>An opened download is of the declared size, which is within the limit.\<close>

lemma get_bounded:
  assumes "fst (get_with_context max_object_bytes env) = Some (Inr (m, d))"
  shows "om_size m \<le> max_object_bytes \<and> (om_size m \<noteq> 0 \<longrightarrow> d = download_open (om_size m))"
  using assms
  by (auto simp: get_with_context_def get_metadata_def operation_ends case_prod_beta Let_def
      split: option.splits sum.splits prod.splits if_splits chunk_result.splits)

subsection \<open>Collecting a download\<close>

text \<open>\<open>into_bytes\<close>; each list holds the polls of one chunk. Without a result the future was dropped or the body panicked.\<close>

fun into_bytes :: "read_turn list list list \<Rightarrow> bytes \<Rightarrow> download \<Rightarrow> (storage_error + bytes) option \<times> download" where
  "into_bytes [] buffer d = (None, d)"
| "into_bytes (polls # rest) buffer d =
     (case next_chunk polls d of
        (ChunkOk (Some c), d) \<Rightarrow> into_bytes rest (buffer @ c) d
      | (ChunkOk None, d) \<Rightarrow> (Some (Inr buffer), d)
      | (ChunkErr e, d) \<Rightarrow> (Some (Inl e), d)
      | (_, d) \<Rightarrow> (None, d))"

lemma next_chunk_inv:
  "download_inv n seen out d \<Longrightarrow> next_chunk polls d = (r, d') \<Longrightarrow>
     \<exists>seen'. download_inv n (seen @ seen') (out @ chunk_data r) d' \<and>
       (\<forall>e. r = ChunkErr e \<longrightarrow> dl_status d' = Failed e) \<and> (r = ChunkOk None \<longrightarrow> dl_status d' = Succeeded None)"
proof (induction polls d arbitrary: seen rule: next_chunk.induct)
  case (1 d)
  then show ?case by (intro exI[of _ "[]"]) auto
next
  case (2 turns polls d)
  obtain x d1 where x: "poll_chunk turns d = (x, d1)" by fastforce
  note one = poll_chunk_inv[OF 2(2) x]
  show ?case
  proof (cases "x = ChunkPending")
    case True
    from 2(3) x True have rest: "next_chunk polls d1 = (r, d')" by simp
    from one True have "download_inv n (seen @ taken_chunk turns d) out d1" by simp
    from 2(1)[OF x[symmetric] True this rest] obtain seen' where
      "download_inv n ((seen @ taken_chunk turns d) @ seen') (out @ chunk_data r) d'"
      "(\<forall>e. r = ChunkErr e \<longrightarrow> dl_status d' = Failed e) \<and> (r = ChunkOk None \<longrightarrow> dl_status d' = Succeeded None)" by blast
    then show ?thesis by (intro exI[of _ "taken_chunk turns d @ seen'"]) simp
  next
    case False
    with 2(3) x have "r = x \<and> d' = d1" by (auto split: chunk_result.splits)
    with one show ?thesis by (intro exI[of _ "taken_chunk turns d"]) simp
  qed
qed

text \<open>
  Collected bytes are the whole object: as many as its declared size and all that the body supplied up to its confirmed end. An
  error is the recorded failure.
\<close>

lemma into_bytes_exact:
  "download_inv n seen buffer d \<Longrightarrow> into_bytes chunks buffer d = (Some r, d') \<Longrightarrow>
     (case r of
        Inr b \<Rightarrow> length b = n \<and> dl_recorded d' = [SuccessOutcome] \<and> (\<exists>seen'. BodyEnd \<in> set (seen @ seen') \<and> b = body_data (seen @ seen'))
      | Inl e \<Rightarrow> \<exists>x. dl_recorded d' = [x] \<and> failed_outcome x = Some e)"
proof (induction chunks buffer d arbitrary: seen rule: into_bytes.induct)
  case (2 polls rest buffer d)
  obtain x d1 where x: "next_chunk polls d = (x, d1)" by fastforce
  from next_chunk_inv[OF 2(2) x] obtain seen' where inv: "download_inv n (seen @ seen') (buffer @ chunk_data x) d1"
    "\<forall>e. x = ChunkErr e \<longrightarrow> dl_status d1 = Failed e" "x = ChunkOk None \<longrightarrow> dl_status d1 = Succeeded None" by blast
  show ?case
  proof (cases x)
    case (ChunkOk c)
    then show ?thesis
    proof (cases c)
      case None
      with 2(3) x ChunkOk have "r = Inr buffer" "d' = d1" by simp_all
      with inv(1,3) ChunkOk None show ?thesis by (auto simp: download_inv_def)
    next
      case (Some b)
      with 2(3) x ChunkOk have "into_bytes rest (buffer @ b) d1 = (Some r, d')" by simp
      note tail = 2(1)[OF x[symmetric] ChunkOk Some _ this, of "seen @ seen'"]
      have grow: "\<exists>q. BodyEnd \<in> set (seen @ q) \<and> y = body_data (seen @ q)" if "BodyEnd \<in> set ((seen @ seen') @ p)" "y = body_data ((seen @ seen') @ p)" for p y
        using that by (intro exI[of _ "seen' @ p"]) simp
      show ?thesis using tail inv(1) ChunkOk Some grow by (cases r) (simp, fastforce)+
    qed
  qed (use 2(3) x inv in \<open>auto simp: download_inv_def\<close>)
qed simp

end
