(* ===== verification/ObjectProvider.thy ===== *)
theory ObjectProvider
  imports ObjectClient JobKind
begin

text \<open>
  \<open>crates/infra-object-storage/src/provider.rs\<close>, \<open>credentials.rs\<close> and \<open>ObjectStorage::try_new\<close>: which combinations of provider, bucket and
  credentials become a client, and what that client may send where.

  A \<open>string\<close> stands for the bytes of a text in UTF-8. The URL parser, the largest count of the semaphore and whether the fixed
  address of the metadata service parses are arguments.
\<close>

subsection \<open>Provider\<close>

datatype storage_provider =
    AmazonS3 string string
  | CloudflareR2 string
  | Railway string string
  | S3Compatible string string bool
  | LocalStore string string

definition provider_name :: "storage_provider \<Rightarrow> string" where
  "provider_name p =
     (case p of
        AmazonS3 _ _ \<Rightarrow> ''amazon_s3'' | CloudflareR2 _ \<Rightarrow> ''cloudflare_r2'' | Railway _ _ \<Rightarrow> ''railway''
      | S3Compatible _ _ _ \<Rightarrow> ''s3_compatible'' | LocalStore _ _ \<Rightarrow> ''local'')"

datatype storage_config_error =
    BadBucket | BadRegion | BadEndpoint | BadBucketOwner | BadCredentials | NoAccessKeyId | NoSecretAccessKey | BadMaxConcurrency

datatype upload_checksum = AlwaysChecksum | BytesOnlyChecksum | NeverChecksum

record admitted_provider =
  ap_endpoint :: "string option"
  ap_region :: string
  ap_path_style :: bool
  ap_expected_bucket_owner :: "string option"
  ap_checksum :: upload_checksum

text \<open>What the parser reports of a URL.\<close>

record origin_url =
  og_text :: string
  og_scheme :: string
  og_username :: string
  og_password :: "string option"
  og_host :: "string option"
  og_port :: "nat option"
  og_path :: string
  og_query :: "string option"
  og_fragment :: "string option"

definition bare_origin :: "origin_url \<Rightarrow> bool" where
  "bare_origin u =
     (og_username u = [] \<and> og_password u = None \<and> og_path u = ''/'' \<and> og_query u = None \<and> og_fragment u = None \<and>
      (case og_host u of Some h \<Rightarrow> h \<noteq> [] | None \<Rightarrow> False))"

definition parse_origin :: "(string \<Rightarrow> origin_url option) \<Rightarrow> string \<Rightarrow> bool \<Rightarrow> storage_config_error + origin_url" where
  "parse_origin parse endpoint allow_plaintext =
     (case parse endpoint of
        None \<Rightarrow> Inl BadEndpoint
      | Some u \<Rightarrow>
          if (og_scheme u = ''https'' \<or> (allow_plaintext \<and> og_scheme u = ''http'')) \<and> bare_origin u then Inr u else Inl BadEndpoint)"

definition serialize_origin :: "origin_url \<Rightarrow> string" where
  "serialize_origin u = rev (dropWhile (\<lambda>c. c = CHR ''/'') (rev (og_text u)))"

definition dns_char :: "char \<Rightarrow> bool" where
  "dns_char c = (is_ascii_lowercase c \<or> is_ascii_digit c \<or> c = CHR ''-'')"

definition signing_region :: "string \<Rightarrow> string \<Rightarrow> storage_config_error + string" where
  "signing_region region fallback =
     (if region = [] then Inr fallback
      else if length region \<le> 32 \<and> list_all dns_char region then Inr region else Inl BadRegion)"

definition hex_char :: "char \<Rightarrow> bool" where
  "hex_char c = (is_ascii_digit c \<or> c \<in> set ''abcdef'')"

definition R2_SUFFIX :: string where "R2_SUFFIX = ''.r2.cloudflarestorage.com''"

definition split_dot :: "string \<Rightarrow> (string \<times> string) option" where
  "split_dot s =
     (case dropWhile (\<lambda>c. c \<noteq> CHR ''.'') s of [] \<Rightarrow> None | _ # rest \<Rightarrow> Some (takeWhile (\<lambda>c. c \<noteq> CHR ''.'') s, rest))"

definition r2_account :: "string \<Rightarrow> string option" where
  "r2_account rest =
     (case split_dot rest of
        None \<Rightarrow> Some rest
      | Some (account, zone) \<Rightarrow> if zone = ''eu'' \<or> zone = ''fedramp'' then Some account else None)"

definition r2_host :: "string \<Rightarrow> bool" where
  "r2_host host =
     (case strip_prefix (rev R2_SUFFIX) (rev host) of
        None \<Rightarrow> False
      | Some rest \<Rightarrow>
          (case r2_account (rev rest) of
             None \<Rightarrow> False
           | Some account \<Rightarrow> length account = 32 \<and> list_all hex_char account))"

definition valid_bucket :: "string \<Rightarrow> bool" where
  "valid_bucket b =
     (3 \<le> length b \<and> length b \<le> 63 \<and> list_all dns_char b \<and>
      (case b of [] \<Rightarrow> False | c # _ \<Rightarrow> ascii_alphanumeric (of_char c)) \<and>
      (case rev b of [] \<Rightarrow> False | c # _ \<Rightarrow> ascii_alphanumeric (of_char c)))"

text \<open>An endpoint is refused before the region is looked at.\<close>

definition at_origin ::
  "(string \<Rightarrow> origin_url option) \<Rightarrow> string \<Rightarrow> bool \<Rightarrow> (origin_url \<Rightarrow> bool) \<Rightarrow> (origin_url \<Rightarrow> storage_config_error + 'a) \<Rightarrow> storage_config_error + 'a"
  where
  "at_origin parse endpoint allow_plaintext accepted k =
     bind_result (parse_origin parse endpoint allow_plaintext) (\<lambda>u. if accepted u then k u else Inl BadEndpoint)"

definition admit_provider ::
  "(string \<Rightarrow> origin_url option) \<Rightarrow> storage_provider \<Rightarrow> string \<Rightarrow> storage_config_error + admitted_provider" where
  "admit_provider parse p bucket =
     (if \<not> valid_bucket bucket then Inl BadBucket
      else case p of
        AmazonS3 region owner \<Rightarrow>
          if region = [] then Inl BadRegion
          else bind_result (signing_region region []) (\<lambda>region.
            if length owner \<noteq> 12 \<or> \<not> list_all is_ascii_digit owner then Inl BadBucketOwner
            else Inr \<lparr>ap_endpoint = None, ap_region = region, ap_path_style = False, ap_expected_bucket_owner = Some owner,
                      ap_checksum = AlwaysChecksum\<rparr>)
      | CloudflareR2 endpoint \<Rightarrow>
          at_origin parse endpoint False (\<lambda>u. r2_host (case og_host u of Some h \<Rightarrow> h | None \<Rightarrow> []) \<and> og_port u = None) (\<lambda>u.
            Inr \<lparr>ap_endpoint = Some (serialize_origin u), ap_region = ''auto'', ap_path_style = False, ap_expected_bucket_owner = None,
                 ap_checksum = BytesOnlyChecksum\<rparr>)
      | Railway endpoint region \<Rightarrow>
          at_origin parse endpoint False (\<lambda>u. og_port u = None) (\<lambda>u.
            bind_result (signing_region region ''auto'') (\<lambda>region.
              Inr \<lparr>ap_endpoint = Some (serialize_origin u), ap_region = region, ap_path_style = False, ap_expected_bucket_owner = None,
                   ap_checksum = NeverChecksum\<rparr>))
      | S3Compatible endpoint region path_style \<Rightarrow>
          at_origin parse endpoint False (\<lambda>_. True) (\<lambda>u.
            bind_result (signing_region region ''us-east-1'') (\<lambda>region.
              Inr \<lparr>ap_endpoint = Some (serialize_origin u), ap_region = region, ap_path_style = path_style, ap_expected_bucket_owner = None,
                   ap_checksum = NeverChecksum\<rparr>))
      | LocalStore endpoint region \<Rightarrow>
          at_origin parse endpoint True (\<lambda>_. True) (\<lambda>u.
            bind_result (signing_region region ''us-east-1'') (\<lambda>region.
              Inr \<lparr>ap_endpoint = Some (serialize_origin u), ap_region = region, ap_path_style = True, ap_expected_bucket_owner = None,
                   ap_checksum = AlwaysChecksum\<rparr>)))"

subsection \<open>Credentials\<close>

datatype credential_source = AccessKey ustr ustr | WorkloadIdentity

datatype credentials_provider = StaticKeys ustr ustr | PlatformIdentity string

definition credentials_provider_of ::
  "bool \<Rightarrow> credential_source \<Rightarrow> storage_provider \<Rightarrow> string \<Rightarrow> storage_config_error + credentials_provider" where
  "credentials_provider_of metadata_endpoint_ok source p region =
     (case source of
        AccessKey key_id secret \<Rightarrow>
          if list_all is_whitespace key_id then Inl NoAccessKeyId
          else if list_all is_whitespace secret then Inl NoSecretAccessKey
          else Inr (StaticKeys key_id secret)
      | WorkloadIdentity \<Rightarrow>
          (case p of
             AmazonS3 _ _ \<Rightarrow> if metadata_endpoint_ok then Inr (PlatformIdentity region) else Inl BadCredentials
           | _ \<Rightarrow> Inl BadCredentials))"

subsection \<open>The client\<close>

record storage_options =
  so_provider :: storage_provider
  so_bucket :: string
  so_credentials :: credential_source
  so_max_object_bytes :: nat
  so_max_concurrency :: nat
  so_operation_timeout :: duration

record storage_inner =
  si_provider :: string
  si_cloud_region :: "string option"
  si_bucket :: string
  si_admitted :: admitted_provider
  si_credentials :: credentials_provider
  si_max_object_bytes :: nat
  si_operation_timeout :: duration
  si_admission :: nat

definition build_storage :: "storage_options \<Rightarrow> admitted_provider \<Rightarrow> credentials_provider \<Rightarrow> storage_inner" where
  "build_storage options admitted credentials =
     \<lparr>si_provider = provider_name (so_provider options),
      si_cloud_region = (case so_provider options of AmazonS3 _ _ \<Rightarrow> Some (ap_region admitted) | _ \<Rightarrow> None),
      si_bucket = so_bucket options, si_admitted = admitted, si_credentials = credentials,
      si_max_object_bytes = so_max_object_bytes options, si_operation_timeout = so_operation_timeout options,
      si_admission = so_max_concurrency options\<rparr>"

definition storage_try_new ::
  "(string \<Rightarrow> origin_url option) \<Rightarrow> nat \<Rightarrow> bool \<Rightarrow> storage_options \<Rightarrow> storage_config_error + storage_inner" where
  "storage_try_new parse max_permits metadata_endpoint_ok options =
     bind_result (admit_provider parse (so_provider options) (so_bucket options)) (\<lambda>admitted.
     bind_result (ensured (1 \<le> so_max_concurrency options \<and> so_max_concurrency options \<le> max_permits) BadMaxConcurrency) (\<lambda>_.
     bind_result (credentials_provider_of metadata_endpoint_ok (so_credentials options) (so_provider options) (ap_region admitted))
       (\<lambda>credentials. Inr (build_storage options admitted credentials))))"

text \<open>The checksum that a put names.\<close>

definition put_checksum :: "upload_checksum \<Rightarrow> bool \<Rightarrow> bool" where
  "put_checksum c in_memory =
     (case c of AlwaysChecksum \<Rightarrow> True | BytesOnlyChecksum \<Rightarrow> in_memory | NeverChecksum \<Rightarrow> False)"

subsection \<open>Shapes\<close>

lemma hex_no_dot: "list_all hex_char a \<Longrightarrow> CHR ''.'' \<notin> set a"
  by (auto simp: list_all_iff hex_char_def is_ascii_digit_def)

lemma split_dot_cases:
  "split_dot s = None \<longleftrightarrow> CHR ''.'' \<notin> set s"
  "split_dot s = Some (a, r) \<longleftrightarrow> s = a @ CHR ''.'' # r \<and> CHR ''.'' \<notin> set a"
proof -
  show "split_dot s = None \<longleftrightarrow> CHR ''.'' \<notin> set s"
  proof (cases "dropWhile (\<lambda>c. c \<noteq> CHR ''.'') s")
    case Nil
    then have "\<forall>c \<in> set s. c \<noteq> CHR ''.''" by (simp only: dropWhile_eq_Nil_conv)
    then have "CHR ''.'' \<notin> set s" by blast
    with Nil show ?thesis by (simp add: split_dot_def del: dropWhile_eq_Nil_conv)
  next
    case (Cons x xs)
    then have "\<not> (\<forall>c \<in> set s. c \<noteq> CHR ''.'')" using dropWhile_eq_Nil_conv[of "\<lambda>c. c \<noteq> CHR ''.''" s] by (metis list.distinct(1))
    then have "CHR ''.'' \<in> set s" by blast
    with Cons show ?thesis by (simp add: split_dot_def)
  qed
  show "split_dot s = Some (a, r) \<longleftrightarrow> s = a @ CHR ''.'' # r \<and> CHR ''.'' \<notin> set a"
  proof
    assume *: "split_dot s = Some (a, r)"
    then obtain c where d: "dropWhile (\<lambda>c. c \<noteq> CHR ''.'') s = c # r" "a = takeWhile (\<lambda>c. c \<noteq> CHR ''.'') s"
      by (auto simp: split_dot_def split: list.splits)
    then have "c = CHR ''.''" using hd_dropWhile[of "\<lambda>c. c \<noteq> CHR ''.''" s] by force
    with d takeWhile_dropWhile_id[of "\<lambda>c. c \<noteq> CHR ''.''" s] show "s = a @ CHR ''.'' # r \<and> CHR ''.'' \<notin> set a"
      by (metis (mono_tags) set_takeWhileD)
  next
    assume s: "s = a @ CHR ''.'' # r \<and> CHR ''.'' \<notin> set a"
    then have "dropWhile (\<lambda>c. c \<noteq> CHR ''.'') s = CHR ''.'' # r" by (subst conjunct1[OF s], subst dropWhile_append2) auto
    moreover from s have "takeWhile (\<lambda>c. c \<noteq> CHR ''.'') s = a" by (subst conjunct1[OF s], subst takeWhile_append2) auto
    ultimately show "split_dot s = Some (a, r)" by (simp add: split_dot_def)
  qed
qed

lemma r2_account_exact:
  "(case r2_account s of None \<Rightarrow> False | Some a \<Rightarrow> length a = 32 \<and> list_all hex_char a) \<longleftrightarrow>
      (\<exists>a zone. s = a @ zone \<and> zone \<in> {[], ''.eu'', ''.fedramp''} \<and> length a = 32 \<and> list_all hex_char a)"
proof (cases "split_dot s")
  case None
  with split_dot_cases(1)[of s] have "CHR ''.'' \<notin> set s" by simp
  with None show ?thesis by (auto simp: r2_account_def)
next
  case (Some x)
  obtain a r where x: "x = (a, r)" by (cases x)
  with Some have s: "s = a @ CHR ''.'' # r" "CHR ''.'' \<notin> set a" by (auto simp: split_dot_cases)
  have eqv: "s = b @ zone \<and> zone \<in> {[], ''.eu'', ''.fedramp''} \<and> list_all hex_char b \<longleftrightarrow>
      b = a \<and> zone = CHR ''.'' # r \<and> (r = ''eu'' \<or> r = ''fedramp'') \<and> list_all hex_char a" for b zone
  proof
    assume z: "s = b @ zone \<and> zone \<in> {[], ''.eu'', ''.fedramp''} \<and> list_all hex_char b"
    with s hex_no_dot[of b] have "zone \<noteq> []" by auto
    with z obtain q where q: "zone = CHR ''.'' # q" "q = ''eu'' \<or> q = ''fedramp''" by auto
    with z hex_no_dot[of b] have "split_dot s = Some (b, q)" by (simp add: split_dot_cases)
    with Some x have ba: "b = a" "q = r" by simp_all
    from z have "list_all hex_char b" by (elim conjE)
    with q show "b = a \<and> zone = CHR ''.'' # r \<and> (r = ''eu'' \<or> r = ''fedramp'') \<and> list_all hex_char a"
      unfolding ba by (intro conjI refl)
  qed (use s in auto)
  have "(\<exists>b zone. s = b @ zone \<and> zone \<in> {[], ''.eu'', ''.fedramp''} \<and> length b = 32 \<and> list_all hex_char b) \<longleftrightarrow>
      (r = ''eu'' \<or> r = ''fedramp'') \<and> length a = 32 \<and> list_all hex_char a" (is "?L \<longleftrightarrow> ?R")
  proof
    assume ?L
    then obtain b zone where b: "s = b @ zone \<and> zone \<in> {[], ''.eu'', ''.fedramp''} \<and> list_all hex_char b" "length b = 32" by blast
    from eqv[THEN iffD1, OF b(1)] b(2) show ?R by (elim conjE) (intro conjI; simp only:)
  next
    assume r: ?R
    then have "a = a \<and> CHR ''.'' # r = CHR ''.'' # r \<and> (r = ''eu'' \<or> r = ''fedramp'') \<and> list_all hex_char a" by (intro conjI refl; elim conjE)
    from eqv[THEN iffD2, OF this] r show ?L by (intro exI[of _ a] exI[of _ "CHR ''.'' # r"]) (elim conjE, intro conjI)
  qed
  moreover have "r2_account s = (if r = ''eu'' \<or> r = ''fedramp'' then Some a else None)" by (simp only: r2_account_def Some x option.case prod.case)
  ultimately show ?thesis by (cases "r = ''eu'' \<or> r = ''fedramp''") (simp_all only: if_True if_False option.case simp_thms)
qed

text \<open>The hosts of R2 are an account of 32 hexadecimal digits under the fixed domain, with at most a jurisdiction between.\<close>

lemma r2_host_exact:
  "r2_host host \<longleftrightarrow>
     (\<exists>account zone. host = account @ zone @ R2_SUFFIX \<and> zone \<in> {[], ''.eu'', ''.fedramp''} \<and> length account = 32 \<and> list_all hex_char account)"
proof -
  have suffix: "strip_prefix (rev R2_SUFFIX) (rev host) = Some rest \<longleftrightarrow> host = rev rest @ R2_SUFFIX" for rest
    unfolding strip_prefix_Some by (metis rev_append rev_rev_ident)
  show ?thesis
  proof (cases "strip_prefix (rev R2_SUFFIX) (rev host)")
    case None
    then have "\<nexists>rest. host = rest @ R2_SUFFIX" using suffix by (metis option.distinct(1) rev_rev_ident)
    with None show ?thesis by (auto simp: r2_host_def)
  next
    case (Some rest)
    then have "host = rev rest @ R2_SUFFIX" using suffix by simp
    then have "host = account @ zone @ R2_SUFFIX \<longleftrightarrow> rev rest = account @ zone" for account zone by simp
    with Some r2_account_exact[of "rev rest"] show ?thesis unfolding r2_host_def by simp
  qed
qed

subsection \<open>What an admitted client may do\<close>

lemma at_origin_Inr:
  "at_origin parse endpoint plain accepted k = Inr a \<longleftrightarrow>
     (\<exists>u. parse endpoint = Some u \<and> (og_scheme u = ''https'' \<or> (plain \<and> og_scheme u = ''http'')) \<and> bare_origin u \<and> accepted u \<and> k u = Inr a)"
  by (auto simp: at_origin_def parse_origin_def bind_result_Inr split: option.splits if_splits)

definition configured_endpoint :: "storage_provider \<Rightarrow> string option" where
  "configured_endpoint p =
     (case p of AmazonS3 _ _ \<Rightarrow> None | CloudflareR2 e \<Rightarrow> Some e | Railway e _ \<Rightarrow> Some e | S3Compatible e _ _ \<Rightarrow> Some e | LocalStore e _ \<Rightarrow> Some e)"

text \<open>A client talks TLS unless it is for a local store, and only to the bare origin that was configured.\<close>

lemma admitted_endpoint:
  assumes "admit_provider parse p bucket = Inr a" "ap_endpoint a = Some e"
  shows "\<exists>endpoint u. configured_endpoint p = Some endpoint \<and> parse endpoint = Some u \<and> e = serialize_origin u \<and> bare_origin u \<and>
     (og_scheme u = ''https'' \<or> (\<exists>region. p = LocalStore endpoint region \<and> og_scheme u = ''http''))"
  using assms by (cases p) (auto simp: admit_provider_def bind_result_Inr at_origin_Inr configured_endpoint_def split: if_splits)

text \<open>The account that must own the bucket is named exactly on Amazon S3, which alone has no configured endpoint.\<close>

lemma admitted_owner:
  assumes "admit_provider parse p bucket = Inr a"
  shows "(\<exists>region owner. p = AmazonS3 region owner \<and> ap_endpoint a = None \<and> ap_expected_bucket_owner a = Some owner \<and>
            length owner = 12 \<and> list_all is_ascii_digit owner) \<or>
         ((\<nexists>region owner. p = AmazonS3 region owner) \<and> ap_endpoint a \<noteq> None \<and> ap_expected_bucket_owner a = None)"
  using assms by (cases p) (auto simp: admit_provider_def bind_result_Inr at_origin_Inr split: if_splits)

lemma signing_region_ok:
  "signing_region region fallback = Inr r \<Longrightarrow> r = fallback \<or> (r \<noteq> [] \<and> length r \<le> 32 \<and> list_all dns_char r)"
  by (auto simp: signing_region_def split: if_splits)

text \<open>A bucket name is one DNS label, so the certificate for the bucket's host is the wildcard of the provider.\<close>

lemma admitted_bucket: "admit_provider parse p bucket = Inr a \<Longrightarrow> valid_bucket bucket \<and> CHR ''.'' \<notin> set bucket \<and> CHR ''/'' \<notin> set bucket"
  by (auto simp: admit_provider_def valid_bucket_def list_all_iff dns_char_def is_ascii_lowercase_def is_ascii_digit_def split: if_splits)

text \<open>
  What building a client establishes: some operation can be admitted and the semaphore can count them; the
  platform's identity is used for Amazon S3 alone; static keys are not blank; a stream is checksummed only where the provider takes a trailer.
\<close>

lemma storage_built:
  assumes "storage_try_new parse max_permits metadata_endpoint_ok options = Inr inner"
  shows "1 \<le> si_admission inner" "si_admission inner \<le> max_permits"
    "si_credentials inner = PlatformIdentity r \<Longrightarrow> \<exists>region owner. so_provider options = AmazonS3 region owner"
    "si_credentials inner = StaticKeys i k \<Longrightarrow> (\<exists>c \<in> set i. \<not> is_whitespace c) \<and> (\<exists>c \<in> set k. \<not> is_whitespace c)"
    "admit_provider parse (so_provider options) (so_bucket options) = Inr (si_admitted inner)"
proof -
  from assms obtain a c where admitted: "admit_provider parse (so_provider options) (so_bucket options) = Inr a"
    and n: "1 \<le> so_max_concurrency options" "so_max_concurrency options \<le> max_permits"
    and c: "credentials_provider_of metadata_endpoint_ok (so_credentials options) (so_provider options) (ap_region a) = Inr c"
    and inner: "inner = build_storage options a c"
    unfolding storage_try_new_def bind_result_Inr ensured_simps by blast
  show "1 \<le> si_admission inner" "si_admission inner \<le> max_permits" using n by (simp_all add: inner build_storage_def)
  show "admit_provider parse (so_provider options) (so_bucket options) = Inr (si_admitted inner)"
    using admitted by (simp add: inner build_storage_def)
  have "si_credentials inner = c" by (simp add: inner build_storage_def)
  with c show "si_credentials inner = PlatformIdentity r \<Longrightarrow> \<exists>region owner. so_provider options = AmazonS3 region owner"
    "si_credentials inner = StaticKeys i k \<Longrightarrow> (\<exists>c \<in> set i. \<not> is_whitespace c) \<and> (\<exists>c \<in> set k. \<not> is_whitespace c)"
    unfolding credentials_provider_of_def
    by (cases "so_credentials options"; cases "so_provider options"; auto simp: list_all_iff split: if_splits)+
qed

lemma stream_checksum:
  assumes "admit_provider parse p bucket = Inr a" "put_checksum (ap_checksum a) False"
  shows "(\<exists>region owner. p = AmazonS3 region owner) \<or> (\<exists>endpoint region. p = LocalStore endpoint region)"
  using assms by (cases p) (auto simp: admit_provider_def bind_result_Inr at_origin_Inr put_checksum_def split: if_splits)

text \<open>Each refusal names the field that caused it.\<close>

lemma refusal_exact:
  "admit_provider parse p bucket = Inl BadBucket \<longleftrightarrow> \<not> valid_bucket bucket"
  "admit_provider parse p bucket \<noteq> Inl BadMaxConcurrency"
  "admit_provider parse p bucket = Inl BadBucketOwner \<Longrightarrow> \<exists>region owner. p = AmazonS3 region owner"
  by (cases p; auto simp: admit_provider_def bind_result_def at_origin_def parse_origin_def signing_region_def
      split: if_splits sum.splits option.splits)+

end
