(* ===== verification/OauthToken.thy ===== *)
theory OauthToken
  imports BearerIntrospect OutboundHttp
begin

text \<open>
  \<open>crates/infra-oauth2-client-credentials/src/lib.rs\<close>, the parts without shared state: admission of the options, the client
  assertion, the forms of the two grants, the reading of the provider's answer and the token that comes of it.

  The signature, the form encoding, the URL parser and \<open>serde_json\<close> are parameters. Texts of the configuration are
  lists of code points. The readings of the clock are arguments.
\<close>

subsection \<open>Errors\<close>

datatype rejection =
    InvalidRequest | InvalidClient | InvalidGrant | UnauthorizedClient | UnsupportedGrantType | InvalidScope
  | InvalidTargetCode | OtherRejection

datatype acquisition_error =
    AcqTimeout | AcqTransport | AcqResponseLimit | AcqUnavailable | AcqAtCapacity | AcqRejected rejection
  | AcqInvalidResponse | AcqAssertion

fun rejection_label :: "rejection \<Rightarrow> string" where
  "rejection_label InvalidRequest = ''invalid_request''"
| "rejection_label InvalidClient = ''invalid_client''"
| "rejection_label InvalidGrant = ''invalid_grant''"
| "rejection_label UnauthorizedClient = ''unauthorized_client''"
| "rejection_label UnsupportedGrantType = ''unsupported_grant_type''"
| "rejection_label InvalidScope = ''invalid_scope''"
| "rejection_label InvalidTargetCode = ''invalid_target''"
| "rejection_label OtherRejection = ''rejected''"

fun acquisition_label :: "acquisition_error \<Rightarrow> string" where
  "acquisition_label AcqTimeout = ''timeout''"
| "acquisition_label AcqTransport = ''transport''"
| "acquisition_label AcqResponseLimit = ''limit''"
| "acquisition_label AcqUnavailable = ''unavailable''"
| "acquisition_label AcqAtCapacity = ''capacity''"
| "acquisition_label (AcqRejected r) = rejection_label r"
| "acquisition_label AcqInvalidResponse = ''invalid''"
| "acquisition_label AcqAssertion = ''assertion''"

definition REGISTERED :: "rejection list" where
  "REGISTERED = [InvalidRequest, InvalidClient, InvalidGrant, UnauthorizedClient, UnsupportedGrantType, InvalidScope, InvalidTargetCode]"

definition rejection_from_body :: "(bytes \<Rightarrow> json option) \<Rightarrow> bytes \<Rightarrow> rejection" where
  "rejection_from_body from_slice body =
     (case Option.bind (from_slice body) (\<lambda>j. required_field as_str (struct_member [''error''] j ''error'')) of
        None \<Rightarrow> OtherRejection
      | Some code \<Rightarrow>
          (case find (\<lambda>r. bytes_of (rejection_label r) = code) REGISTERED of Some r \<Rightarrow> r | None \<Rightarrow> OtherRejection))"

subsection \<open>Options\<close>

record oauth_options =
  oo_token_url :: ustr
  oo_client_id :: ustr
  oo_private_key :: ustr
  oo_key_id :: ustr
  oo_assertion_audience :: ustr
  oo_scopes :: "ustr list"
  oo_audience :: "ustr option"
  oo_exchange_cache_capacity :: nat
  oo_provider_concurrency :: nat

record config_refusal =
  cr_key :: string
  cr_reason :: string

definition EXCHANGE_CACHE_CAPACITY :: "nat set" where "EXCHANGE_CACHE_CAPACITY = {1..65536}"

definition admitted_provider_concurrency :: "nat \<Rightarrow> nat \<Rightarrow> config_refusal + nat" where
  "admitted_provider_concurrency max_permits v =
     (if v > 0 \<and> v \<le> max_permits then Inr v
      else Inl \<lparr>cr_key = ''provider_concurrency'', cr_reason = ''must be positive and supported on this target''\<rparr>)"

definition scope_char :: "nat \<Rightarrow> bool" where
  "scope_char c = (c = 0x21 \<or> (0x23 \<le> c \<and> c \<le> 0x5B) \<or> (0x5D \<le> c \<and> c \<le> 0x7E))"

definition scope_token :: "ustr \<Rightarrow> bool" where
  "scope_token s = (s \<noteq> [] \<and> list_all scope_char s)"

fun after_scheme :: "ustr \<Rightarrow> ustr option" where
  "after_scheme [] = None"
| "after_scheme (c # cs) =
     (case strip_prefix (ascii ''://'') (c # cs) of Some r \<Rightarrow> Some r | None \<Rightarrow> after_scheme cs)"

definition raw_authority_has_userinfo :: "ustr \<Rightarrow> bool" where
  "raw_authority_has_userinfo token_url =
     (case after_scheme token_url of
        None \<Rightarrow> False
      | Some authority \<Rightarrow> 0x40 \<in> set (takeWhile (\<lambda>c. c \<notin> set [0x2F, 0x3F, 0x23]) authority))"

definition blank :: "ustr \<Rightarrow> bool" where "blank s = list_all is_whitespace s"

definition USERINFO_REASON :: string where "USERINFO_REASON = ''must be HTTPS without userinfo or fragment''"

definition refused :: "string \<Rightarrow> string \<Rightarrow> config_refusal" where "refused key reason = \<lparr>cr_key = key, cr_reason = reason\<rparr>"

definition admit_endpoint :: "(ustr \<Rightarrow> parsed_url option) \<Rightarrow> ustr \<Rightarrow> config_refusal + parsed_url" where
  "admit_endpoint parse token_url =
     (if list_ex (\<lambda>c. is_whitespace c \<or> is_control c) token_url then Inl (refused ''token_url'' USERINFO_REASON)
      else case parse token_url of
             None \<Rightarrow> Inl (refused ''token_url'' ''invalid URL'')
           | Some u \<Rightarrow>
               if pu_scheme u \<noteq> bytes_of ''https'' \<or> \<not> pu_has_host u \<or> pu_username u \<noteq> [] \<or> pu_password u \<noteq> None \<or>
                  raw_authority_has_userinfo token_url \<or> pu_fragment u \<noteq> None
               then Inl (refused ''token_url'' USERINFO_REASON) else Inr u)"

definition admit_options :: "(ustr \<Rightarrow> parsed_url option) \<Rightarrow> nat \<Rightarrow> oauth_options \<Rightarrow> config_refusal + parsed_url" where
  "admit_options parse max_permits o' =
     bind_result (admitted_provider_concurrency max_permits (oo_provider_concurrency o')) (\<lambda>_.
     bind_result (ensured (\<not> blank (oo_client_id o')) (refused ''client_id'' ''must be nonempty'')) (\<lambda>_.
     bind_result (ensured (\<not> blank (oo_key_id o')) (refused ''key_id'' ''must be nonempty'')) (\<lambda>_.
     bind_result (ensured (\<not> blank (oo_assertion_audience o')) (refused ''assertion_audience'' ''must be nonempty'')) (\<lambda>_.
     bind_result (ensured (\<not> blank (oo_private_key o')) (refused ''private_key'' ''must be nonempty'')) (\<lambda>_.
     bind_result (ensured (list_all scope_token (oo_scopes o')) (refused ''scopes'' ''must contain RFC 6749 scope tokens'')) (\<lambda>_.
     bind_result (ensured (oo_audience o' \<noteq> Some []) (refused ''audience'' ''must be nonempty when configured'')) (\<lambda>_.
     bind_result (ensured (oo_exchange_cache_capacity o' \<in> EXCHANGE_CACHE_CAPACITY)
        (refused ''exchange_cache_capacity'' ''must be from 1 to 65536'')) (\<lambda>_.
     admit_endpoint parse (oo_token_url o')))))))))"

subsection \<open>The client assertion\<close>

definition ASSERTION_LIFETIME_SECS :: nat where "ASSERTION_LIFETIME_SECS = 60"
definition ASSERTION_BACKDATE_SECS :: nat where "ASSERTION_BACKDATE_SECS = 10"

record assertion_claims =
  as_iss :: ustr
  as_sub :: ustr
  as_aud :: ustr
  as_iat :: nat
  as_nbf :: nat
  as_exp :: nat
  as_jti :: ustr

record signer =
  sg_client_id :: ustr
  sg_assertion_audience :: ustr

text \<open>The clock is absent when it reads before the epoch; \<open>encode\<close> is the signature under the key and the header of the signer.\<close>

definition assertion_at :: "signer \<Rightarrow> nat \<Rightarrow> ustr \<Rightarrow> assertion_claims" where
  "assertion_at s unix jti =
     (let issued = unix - ASSERTION_BACKDATE_SECS
      in \<lparr>as_iss = sg_client_id s, as_sub = sg_client_id s, as_aud = sg_assertion_audience s, as_iat = issued, as_nbf = issued,
          as_exp = issued + ASSERTION_LIFETIME_SECS, as_jti = jti\<rparr>)"

definition sign :: "(assertion_claims \<Rightarrow> ustr option) \<Rightarrow> signer \<Rightarrow> nat option \<Rightarrow> ustr \<Rightarrow> acquisition_error + ustr" where
  "sign encode s unix jti =
     (case unix of
        None \<Rightarrow> Inl AcqAssertion
      | Some t \<Rightarrow> okay_or AcqAssertion (encode (assertion_at s t jti)))"

subsection \<open>The forms\<close>

definition CLIENT_ASSERTION_TYPE :: ustr where
  "CLIENT_ASSERTION_TYPE = ascii ''urn:ietf:params:oauth:client-assertion-type:jwt-bearer''"
definition GRANT_CLIENT_CREDENTIALS :: ustr where "GRANT_CLIENT_CREDENTIALS = ascii ''client_credentials''"
definition GRANT_TOKEN_EXCHANGE :: ustr where "GRANT_TOKEN_EXCHANGE = ascii ''urn:ietf:params:oauth:grant-type:token-exchange''"
definition TOKEN_TYPE_ACCESS_TOKEN :: string where "TOKEN_TYPE_ACCESS_TOKEN = ''urn:ietf:params:oauth:token-type:access_token''"

type_synonym form = "(string \<times> ustr) list"

definition form_fields :: "signer \<Rightarrow> ustr \<Rightarrow> form" where
  "form_fields s assertion =
     [(''client_id'', sg_client_id s), (''client_assertion_type'', CLIENT_ASSERTION_TYPE), (''client_assertion'', assertion)]"

fun join_spaces :: "ustr list \<Rightarrow> ustr" where
  "join_spaces [] = []"
| "join_spaces [s] = s"
| "join_spaces (s # t # ss) = s @ 0x20 # join_spaces (t # ss)"

definition joined_scopes :: "ustr list \<Rightarrow> ustr option" where
  "joined_scopes scopes = (if scopes = [] then None else Some (join_spaces scopes))"

definition optional_param :: "string \<Rightarrow> ustr option \<Rightarrow> form" where
  "optional_param n v = (case v of None \<Rightarrow> [] | Some x \<Rightarrow> [(n, x)])"

definition client_credentials_form :: "signer \<Rightarrow> ustr list \<Rightarrow> ustr option \<Rightarrow> ustr \<Rightarrow> form" where
  "client_credentials_form s scopes audience assertion =
     (''grant_type'', GRANT_CLIENT_CREDENTIALS) # form_fields s assertion @ optional_param ''scope'' (joined_scopes scopes) @
     optional_param ''audience'' audience"

definition token_exchange_form :: "signer \<Rightarrow> ustr list \<Rightarrow> ustr option \<Rightarrow> ustr \<Rightarrow> ustr \<Rightarrow> form" where
  "token_exchange_form s scopes audience subject assertion =
     [(''grant_type'', GRANT_TOKEN_EXCHANGE), (''subject_token'', subject),
      (''subject_token_type'', ascii TOKEN_TYPE_ACCESS_TOKEN), (''requested_token_type'', ascii TOKEN_TYPE_ACCESS_TOKEN)] @
     optional_param ''scope'' (joined_scopes scopes) @ optional_param ''audience'' audience @ form_fields s assertion"

subsection \<open>The answer\<close>

record token_response =
  tr_access_token :: bytes
  tr_token_type :: bytes
  tr_expires_in :: "nat option"
  tr_issued_token_type :: "bytes option"

definition as_token_response :: "json \<Rightarrow> token_response option" where
  "as_token_response j =
     (let f = struct_member [''access_token'', ''token_type'', ''expires_in'', ''issued_token_type''] j
      in do { access_token \<leftarrow> required_field as_str (f ''access_token'');
              token_type \<leftarrow> required_field as_str (f ''token_type'');
              expires_in \<leftarrow> optional_field as_u64 (f ''expires_in'');
              issued \<leftarrow> optional_field as_str (f ''issued_token_type'');
              Some \<lparr>tr_access_token = access_token, tr_token_type = token_type, tr_expires_in = expires_in,
                    tr_issued_token_type = issued\<rparr> })"

definition map_transport_error :: "'s http_error \<Rightarrow> acquisition_error" where
  "map_transport_error e =
     (case e of
        TimedOut \<Rightarrow> AcqTimeout
      | ResponseBodyTooLarge \<Rightarrow> AcqResponseLimit
      | InvalidTarget \<Rightarrow> AcqTransport
      | Transport _ \<Rightarrow> AcqTransport)"

record token_answer =
  ta_status :: nat
  ta_content_type :: "bytes option"
  ta_body :: bytes

definition json_media :: "bytes \<Rightarrow> bool" where
  "json_media v =
     (list_all to_str_byte v \<and> same_ignoring_case (trim_blank (takeWhile (\<lambda>b. b \<noteq> 0x3B) v)) APPLICATION_JSON)"

definition read_answer :: "(bytes \<Rightarrow> json option) \<Rightarrow> token_answer \<Rightarrow> acquisition_error + token_response" where
  "read_answer from_slice a =
     (if (500 \<le> ta_status a \<and> ta_status a < 600) \<or> ta_status a = 429 then Inl AcqUnavailable
      else if \<not> (200 \<le> ta_status a \<and> ta_status a < 300) then Inl (AcqRejected (rejection_from_body from_slice (ta_body a)))
      else if (case ta_content_type a of None \<Rightarrow> False | Some v \<Rightarrow> \<not> json_media v) then Inl AcqInvalidResponse
      else okay_or AcqInvalidResponse (Option.bind (from_slice (ta_body a)) as_token_response))"

text \<open>\<open>post_form\<close> on what the bounded client returned; a request that cannot be built is an invalid response.\<close>

definition post_form ::
  "(bytes \<Rightarrow> json option) \<Rightarrow> bool \<Rightarrow> 's http_error + token_answer \<Rightarrow> acquisition_error + token_response" where
  "post_form from_slice built reply =
     (if \<not> built then Inl AcqInvalidResponse
      else case reply of Inl e \<Rightarrow> Inl (map_transport_error e) | Inr a \<Rightarrow> read_answer from_slice a)"

subsection \<open>The token\<close>

definition FETCH_TIMEOUT :: duration where "FETCH_TIMEOUT = from_secs 5"
definition FAILURE_WINDOW :: duration where "FAILURE_WINDOW = from_secs 1"
definition REUSE_MARGIN :: duration where "REUSE_MARGIN = from_secs 10"
definition REFRESH_AHEAD :: duration where "REFRESH_AHEAD = from_secs 300"
definition REFRESH_RETRY :: duration where "REFRESH_RETRY = from_secs 30"
definition EVICTION_MIN_AGE :: duration where "EVICTION_MIN_AGE = from_secs 30"

record oauth_token =
  ot_header :: bytes
  ot_acquired :: instant
  ot_reuse_until :: "instant option"
  ot_refresh_after :: "instant option"

definition is_reusable :: "oauth_token \<Rightarrow> instant \<Rightarrow> bool" where
  "is_reusable t now = (case ot_reuse_until t of None \<Rightarrow> False | Some until \<Rightarrow> now < until)"

definition is_evictable :: "oauth_token \<Rightarrow> instant \<Rightarrow> bool" where
  "is_evictable t now = (duration_since now (ot_acquired t) \<ge> EVICTION_MIN_AGE)"

text \<open>The sample is absent when the source of randomness fails.\<close>

definition refresh_spread :: "duration \<Rightarrow> nat option \<Rightarrow> duration" where
  "refresh_spread window sample = window * (case sample of None \<Rightarrow> 0 | Some s \<Rightarrow> s) div u16_max"

definition refresh_retry :: "nat option \<Rightarrow> duration" where
  "refresh_retry sample = REFRESH_RETRY + refresh_spread (REFRESH_RETRY div 10) sample"

text \<open>\<open>HeaderValue::try_from\<close> admits tabs and every byte from the space up but delete.\<close>

definition header_byte :: "8 word \<Rightarrow> bool" where
  "header_byte b = (b = 0x09 \<or> (0x20 \<le> b \<and> b \<noteq> 0x7F))"

definition BEARER_PREFIX :: bytes where "BEARER_PREFIX = bytes_of ''Bearer ''"

definition reuse_cutoff :: "instant \<Rightarrow> instant \<Rightarrow> nat option \<Rightarrow> acquisition_error + instant option" where
  "reuse_cutoff started now expires_in =
     (case expires_in of
        None \<Rightarrow> Inr None
      | Some lifetime \<Rightarrow>
          (case instant_checked_add started (from_secs lifetime) of
             None \<Rightarrow> Inl AcqInvalidResponse
           | Some expiry \<Rightarrow>
               if now \<ge> expiry then Inl AcqInvalidResponse
               else Inr (Some (case instant_checked_sub expiry REUSE_MARGIN of None \<Rightarrow> started | Some u \<Rightarrow> u))))"

definition refresh_time :: "instant \<Rightarrow> nat option \<Rightarrow> instant \<Rightarrow> instant" where
  "refresh_time started sample until =
     (let maximum_lead = min REFRESH_AHEAD (duration_since until started div 4);
          spread = refresh_spread (maximum_lead div 10) sample;
          lead = (if spread \<le> maximum_lead then maximum_lead - spread else maximum_lead)
      in until - lead)"

definition into_token ::
  "instant \<Rightarrow> instant \<Rightarrow> instant \<Rightarrow> nat option \<Rightarrow> string option \<Rightarrow> token_response \<Rightarrow> acquisition_error + oauth_token" where
  "into_token started now now' sample require_issued r =
     bind_result (ensured (same_ignoring_case (tr_token_type r) (bytes_of ''bearer'')) AcqInvalidResponse) (\<lambda>_.
     bind_result (ensured (case require_issued of None \<Rightarrow> True | Some e \<Rightarrow> tr_issued_token_type r = Some (bytes_of e)) AcqInvalidResponse) (\<lambda>_.
     bind_result (ensured (tr_access_token r \<noteq> []) AcqInvalidResponse) (\<lambda>_.
     bind_result (ensured (list_all header_byte (BEARER_PREFIX @ tr_access_token r)) AcqInvalidResponse) (\<lambda>_.
     bind_result (reuse_cutoff started now (tr_expires_in r)) (\<lambda>reuse_until.
     Inr \<lparr>ot_header = BEARER_PREFIX @ tr_access_token r, ot_acquired = started, ot_reuse_until = reuse_until,
          ot_refresh_after =
            (case reuse_until of Some u \<Rightarrow> if now' < u then Some (refresh_time started sample u) else None | None \<Rightarrow> None)\<rparr>)))))"

subsection \<open>Bounds\<close>

lemma refresh_spread_le: "(\<forall>s. sample = Some s \<longrightarrow> s \<le> u16_max) \<Longrightarrow> refresh_spread window sample \<le> window"
proof -
  assume s: "\<forall>s. sample = Some s \<longrightarrow> s \<le> u16_max"
  have "(case sample of None \<Rightarrow> 0 | Some s \<Rightarrow> s) \<le> u16_max" using s by (cases sample) auto
  then have "window * (case sample of None \<Rightarrow> 0 | Some s \<Rightarrow> s) \<le> window * u16_max" by simp
  then show ?thesis unfolding refresh_spread_def by (metis div_le_mono nonzero_mult_div_cancel_right u16_max_def zero_neq_numeral)
qed

text \<open>The product of \<open>refresh_spread\<close> fits \<open>u64\<close> for the windows the code passes.\<close>

lemma refresh_spread_fits:
  assumes "window \<le> from_secs 30" "s \<le> u16_max"
  shows "window * s \<le> u64_max"
proof -
  have "window * s \<le> from_secs 30 * u16_max" using assms by (rule mult_le_mono)
  then show ?thesis by (simp add: time_units u16_max_def u64_max_def)
qed

lemma refresh_window_small: "min REFRESH_AHEAD d div 10 \<le> from_secs 30" "REFRESH_RETRY div 10 \<le> from_secs 30"
  by (auto simp: REFRESH_AHEAD_def REFRESH_RETRY_def time_units intro: order.trans[OF div_le_mono[of _ "300000000000"]])

lemma reuse_cutoff_ok:
  assumes "reuse_cutoff started now expires_in = Inr u"
  shows "(expires_in = None \<and> u = None) \<or>
     (\<exists>lifetime cutoff. expires_in = Some lifetime \<and> u = Some cutoff \<and> now < started + from_secs lifetime \<and>
        (cutoff + REUSE_MARGIN = started + from_secs lifetime \<or> cutoff = started))"
  using assms
  by (auto simp: reuse_cutoff_def instant_checked_add_def instant_checked_sub_def split: option.splits if_splits)

text \<open>A background refresh starts within the reuse of a token, and no earlier than five minutes or a quarter of it before its end.\<close>

lemma refresh_time_bounds:
  assumes "started \<le> until" "\<forall>s. sample = Some s \<longrightarrow> s \<le> u16_max"
  shows "started \<le> refresh_time started sample until" "refresh_time started sample until \<le> until"
    "until - refresh_time started sample until \<le> REFRESH_AHEAD"
    "4 * (until - refresh_time started sample until) \<le> until - started"
proof -
  let ?lead = "min REFRESH_AHEAD (duration_since until started div 4)"
  have "4 * (duration_since until started div 4) \<le> duration_since until started" by simp
  moreover have "duration_since until started = until - started" by (simp add: duration_since_def)
  ultimately have quarter: "4 * ?lead \<le> until - started" using min.cobounded2[of REFRESH_AHEAD "duration_since until started div 4"] by linarith
  have "\<exists>lead. refresh_time started sample until = until - lead \<and> lead \<le> ?lead"
    unfolding refresh_time_def Let_def by (intro exI conjI, rule refl, split if_split, intro conjI impI diff_le_self order.refl)
  then obtain lead where lead: "refresh_time started sample until = until - lead" "lead \<le> ?lead" by blast
  have "lead \<le> REFRESH_AHEAD" using lead(2) by simp
  have "4 * lead \<le> until - started" using lead(2) quarter by linarith
  with lead \<open>lead \<le> REFRESH_AHEAD\<close> assms(1)
  show "started \<le> refresh_time started sample until" "refresh_time started sample until \<le> until"
    "until - refresh_time started sample until \<le> REFRESH_AHEAD" "4 * (until - refresh_time started sample until) \<le> until - started"
    by linarith+
qed

lemma into_token_ok:
  assumes "into_token started now now' sample issued r = Inr t"
  shows "ot_header t = BEARER_PREFIX @ tr_access_token r" "tr_access_token r \<noteq> []" "ot_acquired t = started"
    "same_ignoring_case (tr_token_type r) (bytes_of ''bearer'')" "list_all header_byte (ot_header t)"
    "issued = Some e \<Longrightarrow> tr_issued_token_type r = Some (bytes_of e)"
    "reuse_cutoff started now (tr_expires_in r) = Inr (ot_reuse_until t)"
  using assms by (auto simp: into_token_def bind_result_Inr)

text \<open>A token is reused only while its stated lifetime has more than the margin left.\<close>

lemma reusable_margin:
  assumes "into_token started now now' sample issued r = Inr t" "is_reusable t later" "started \<le> later"
  shows "\<exists>lifetime. tr_expires_in r = Some lifetime \<and> later + REUSE_MARGIN < started + from_secs lifetime"
  using reuse_cutoff_ok[OF into_token_ok(7)[OF assms(1)]] assms(2,3) by (auto simp: is_reusable_def)

text \<open>The assertion is in force when it is signed, and for less than a minute after.\<close>

lemma assertion_window:
  "as_nbf (assertion_at s unix jti) \<le> unix" "unix < as_exp (assertion_at s unix jti)"
  "as_exp (assertion_at s unix jti) \<le> unix + ASSERTION_LIFETIME_SECS"
  "as_exp (assertion_at s unix jti) - as_iat (assertion_at s unix jti) = ASSERTION_LIFETIME_SECS"
  by (simp_all add: assertion_at_def ASSERTION_LIFETIME_SECS_def ASSERTION_BACKDATE_SECS_def Let_def)

text \<open>The scopes of the form are the configured ones.\<close>

lemma scope_no_space: "scope_token s \<Longrightarrow> \<forall>c \<in> set s. c \<noteq> 0x20"
  by (auto simp: scope_token_def scope_char_def list_all_iff)

lemma join_spaces_split: "list_all scope_token scopes \<Longrightarrow> scopes \<noteq> [] \<Longrightarrow> split_on (\<lambda>c. c = 0x20) (join_spaces scopes) = scopes"
proof (induction scopes rule: join_spaces.induct)
  case (2 s)
  then show ?case using scope_no_space[of s] by (simp add: split_on_single)
next
  case (3 s t ss)
  then show ?case using scope_no_space[of s] by (simp add: split_on_append split_on_single)
qed simp

text \<open>A refusal names the registered code of the provider or none.\<close>

lemma rejection_exact:
  assumes "rejection_from_body from_slice body = r" "r \<noteq> OtherRejection"
  shows "\<exists>j. from_slice body = Some j \<and> struct_member [''error''] j ''error'' = Member (JStr (bytes_of (rejection_label r)))"
proof -
  from assms obtain code j where j: "from_slice body = Some j" "required_field as_str (struct_member [''error''] j ''error'') = Some code"
    and r: "find (\<lambda>r. bytes_of (rejection_label r) = code) REGISTERED = Some r"
    by (auto simp: rejection_from_body_def Option.bind_eq_Some_conv split: option.splits)
  from r have "bytes_of (rejection_label r) = code" by (auto dest: find_Some_mem)
  moreover from j(2) obtain v where "struct_member [''error''] j ''error'' = Member v" "as_str v = Some code"
    by (auto simp: required_field_def split: member.splits)
  ultimately show ?thesis using j(1) by (cases v) auto
qed

lemma labels_distinct: "rejection_label a = rejection_label b \<Longrightarrow> a = b"
  by (cases a; cases b) simp_all

text \<open>A token endpoint is HTTPS, and its text has no credentials and no fragment.\<close>

lemma admit_options_ok:
  assumes "admit_options parse max_permits o' = Inr u"
  shows "parse (oo_token_url o') = Some u" "pu_scheme u = bytes_of ''https''" "pu_has_host u" "pu_username u = []" "pu_password u = None"
    "pu_fragment u = None" "\<not> raw_authority_has_userinfo (oo_token_url o')"
    "1 \<le> oo_provider_concurrency o'" "oo_provider_concurrency o' \<le> max_permits"
    "1 \<le> oo_exchange_cache_capacity o'" "oo_exchange_cache_capacity o' \<le> 65536" "list_all scope_token (oo_scopes o')"
  using assms
  by (auto simp: admit_options_def bind_result_Inr admitted_provider_concurrency_def admit_endpoint_def EXCHANGE_CACHE_CAPACITY_def
      split: if_splits option.splits)

end
