(* ===== verification/OauthCache.thy ===== *)
theory OauthCache
  imports OauthToken
begin

text \<open>
  \<open>crates/infra-oauth2-client-credentials/src/lib.rs\<close>, the service token that all callers share: the cache, the lock under which it is
  requested, the remembered failure, the background refresh and its driver, as a step relation of any number of
  callers, one driver, the exchanges that share the permits, and the clock.

  An \<open>Arc\<close> of a token is its address and its content. A section between two waits is one step, or several where the code
  reads the clock or shared state in between; each critical section of the mutex is within one step. The channel holds
  at most one request. For the statements the state also keeps the answers of the provider.
\<close>

subsection \<open>The cache\<close>

record arc_token =
  at_address :: nat
  at_token :: oauth_token

record cached =
  ca_token :: "arc_token option"
  ca_refresh_after :: "instant option"
  ca_failure :: "(acquisition_error \<times> instant) option"
  ca_refresh_pending :: bool

record refresh_request =
  rq_current :: arc_token
  rq_deadline :: instant

definition cached_default :: cached where
  "cached_default = \<lparr>ca_token = None, ca_refresh_after = None, ca_failure = None, ca_refresh_pending = False\<rparr>"

definition completed_failure :: "instant \<Rightarrow> cached \<Rightarrow> acquisition_error option" where
  "completed_failure now c = (case ca_failure c of None \<Rightarrow> None | Some (e, until) \<Rightarrow> if now < until then Some e else None)"

definition remember_failure :: "instant \<Rightarrow> acquisition_error \<Rightarrow> cached \<Rightarrow> cached" where
  "remember_failure now e c = (if e = AcqAtCapacity then c else c\<lparr>ca_failure := Some (e, now + FAILURE_WINDOW)\<rparr>)"

definition store_service_token :: "instant \<Rightarrow> arc_token \<Rightarrow> cached \<Rightarrow> cached" where
  "store_service_token now t c =
     (let c = c\<lparr>ca_failure := None\<rparr>
      in if is_reusable (at_token t) now then c\<lparr>ca_refresh_after := ot_refresh_after (at_token t), ca_token := Some t\<rparr> else c)"

text \<open>\<open>sendable\<close> says whether \<open>try_send\<close> succeeds: the channel is open and empty.\<close>

definition refresh_due :: "instant \<Rightarrow> cached \<Rightarrow> bool" where
  "refresh_due now c =
     ((case ca_refresh_after c of None \<Rightarrow> False | Some after \<Rightarrow> now \<ge> after) \<and> \<not> ca_refresh_pending c \<and>
      (case ca_failure c of None \<Rightarrow> True | Some (_, until) \<Rightarrow> now \<ge> until))"

definition reusable_service_token ::
  "instant \<Rightarrow> nat option \<Rightarrow> bool \<Rightarrow> cached \<Rightarrow> arc_token option \<times> refresh_request option \<times> cached" where
  "reusable_service_token now sample sendable c =
     (case ca_token c of
        None \<Rightarrow> (None, None, c)
      | Some t \<Rightarrow>
          if \<not> is_reusable (at_token t) now then (None, None, c)
          else if refresh_due now c then
            (Some t,
             if sendable then Some \<lparr>rq_current = t, rq_deadline = now + FETCH_TIMEOUT\<rparr> else None,
             c\<lparr>ca_refresh_after := Some (now + refresh_retry sample), ca_refresh_pending := sendable\<rparr>)
          else (Some t, None, c))"

definition reject_service_token :: "instant \<Rightarrow> arc_token \<Rightarrow> cached \<Rightarrow> cached" where
  "reject_service_token now used c =
     (if \<not> is_evictable (at_token used) now then c
      else case ca_token c of
             Some t \<Rightarrow> if at_address t = at_address used then c\<lparr>ca_token := None, ca_refresh_after := None\<rparr> else c
           | None \<Rightarrow> c)"

subsection \<open>One request\<close>

definition check_lifecycle :: "instant \<Rightarrow> bool \<Rightarrow> instant \<Rightarrow> acquisition_error + unit" where
  "check_lifecycle now is_closed deadline =
     (if is_closed then Inl (if now \<ge> deadline then AcqTimeout else AcqUnavailable) else Inr ())"

definition check_admission :: "instant \<Rightarrow> instant \<Rightarrow> bool \<Rightarrow> instant \<Rightarrow> acquisition_error + unit" where
  "check_admission now now' is_closed deadline =
     (if now \<ge> deadline then Inl AcqTimeout else check_lifecycle now' is_closed deadline)"

text \<open>
  \<open>request_client_credentials\<close>. What the environment supplies: the clock and the identifier of the assertion, its signature, whether the request could be
  built, the provider's reply, and the two clock readings and the sample of \<open>into_token\<close>.
\<close>

record request_env =
  re_unix :: "nat option"
  re_jti :: ustr
  re_encode :: "assertion_claims \<Rightarrow> ustr option"
  re_built :: bool
  re_reply :: "string http_error + token_answer"
  re_now :: instant
  re_now' :: instant
  re_sample :: "nat option"

definition request_client_credentials ::
  "(bytes \<Rightarrow> json option) \<Rightarrow> signer \<Rightarrow> instant \<Rightarrow> request_env \<Rightarrow> acquisition_error + oauth_token" where
  "request_client_credentials from_slice sg started env =
     bind_result (sign (re_encode env) sg (re_unix env) (re_jti env)) (\<lambda>_.
     bind_result (post_form from_slice (re_built env) (re_reply env)) (\<lambda>r.
     into_token started (re_now env) (re_now' env) (re_sample env) None r))"

text \<open>\<open>fetch_service_token\<close> past the permit: the timer may end the wait, and a result after the deadline is a timeout.\<close>

definition fetched_token ::
  "(bytes \<Rightarrow> json option) \<Rightarrow> signer \<Rightarrow> instant \<Rightarrow> instant \<Rightarrow> instant \<Rightarrow> request_env option \<Rightarrow> acquisition_error + oauth_token" where
  "fetched_token from_slice sg deadline started now answer =
     (if now \<ge> deadline then Inl AcqTimeout
      else case answer of None \<Rightarrow> Inl AcqTimeout | Some env \<Rightarrow> request_client_credentials from_slice sg started env)"

definition admit_attempt :: "instant \<Rightarrow> instant \<Rightarrow> nat \<Rightarrow> acquisition_error + nat" where
  "admit_attempt now deadline permits =
     (if now \<ge> deadline then Inl AcqTimeout else if permits = 0 then Inl AcqAtCapacity else Inr (permits - 1))"

subsection \<open>Callers and driver\<close>

text \<open>
  Where a caller of \<open>service_token\<close> is; \<open>Fetching\<close> has the deadline, that of the fetch, whether the first is the shorter, and the start.
  A returned token keeps when it was taken and whether this caller requested it.
\<close>

datatype caller =
    NotStarted
  | Admitting instant
  | Looking instant
  | Locking instant
  | Readmitting instant
  | Relooking instant
  | Judging instant instant
  | Attempting instant instant bool
  | Requesting instant instant bool instant
  | Deciding instant bool "acquisition_error + oauth_token"
  | Returned "acquisition_error + arc_token" instant bool
  | Dropped

datatype driver =
    DIdle
  | DLocking refresh_request
  | DChecking refresh_request
  | DComparing refresh_request
  | DAttempting refresh_request
  | DRequesting refresh_request instant
  | DDeciding "acquisition_error + oauth_token"
  | DRescheduling
  | DFinishing
  | DClosing
  | DGone

datatype holder = ByCaller nat | ByDriver

record oauth_system =
  oy_now :: instant
  oy_cached :: cached
  oy_lock :: "holder option"
  oy_channel :: "refresh_request option"
  oy_closed :: bool
  oy_permits :: nat
  oy_exchanges :: nat
  oy_callers :: "nat \<Rightarrow> caller"
  oy_driver :: driver
  oy_fresh :: nat
  oy_answers :: "token_response list"

definition oauth_init :: "instant \<Rightarrow> nat \<Rightarrow> oauth_system" where
  "oauth_init now permits =
     \<lparr>oy_now = now, oy_cached = cached_default, oy_lock = None, oy_channel = None, oy_closed = False, oy_permits = permits,
      oy_exchanges = 0, oy_callers = (\<lambda>_. NotStarted), oy_driver = DIdle, oy_fresh = 0, oy_answers = []\<rparr>"

definition goto :: "nat \<Rightarrow> caller \<Rightarrow> oauth_system \<Rightarrow> oauth_system" where
  "goto i c s = s\<lparr>oy_callers := (oy_callers s)(i := c)\<rparr>"

definition release :: "oauth_system \<Rightarrow> oauth_system" where
  "release s = s\<lparr>oy_lock := None\<rparr>"

text \<open>The look at the cache, which may put a refresh request into the channel.\<close>

definition look :: "nat option \<Rightarrow> oauth_system \<Rightarrow> arc_token option \<times> oauth_system" where
  "look sample s =
     (case reusable_service_token (oy_now s) sample (\<not> oy_closed s \<and> oy_channel s = None) (oy_cached s) of
        (t, rq, c) \<Rightarrow> (t, s\<lparr>oy_cached := c, oy_channel := (case rq of None \<Rightarrow> oy_channel s | Some r \<Rightarrow> Some r)\<rparr>))"

definition caller_admit :: "instant \<Rightarrow> nat \<Rightarrow> instant \<Rightarrow> oauth_system \<Rightarrow> oauth_system" where
  "caller_admit now' i deadline s =
     (case check_admission (oy_now s) now' (oy_closed s) deadline of
        Inl e \<Rightarrow> goto i (Returned (Inl e) now' False) (s\<lparr>oy_now := now'\<rparr>)
      | Inr _ \<Rightarrow> goto i (Looking deadline) (s\<lparr>oy_now := now'\<rparr>))"

definition caller_look :: "nat option \<Rightarrow> nat \<Rightarrow> instant \<Rightarrow> oauth_system \<Rightarrow> oauth_system" where
  "caller_look sample i deadline s =
     (case look sample s of
        (Some t, s) \<Rightarrow> goto i (Returned (Inr t) (oy_now s) False) s
      | (None, s) \<Rightarrow> goto i (Locking deadline) s)"

definition caller_readmit :: "instant \<Rightarrow> nat \<Rightarrow> instant \<Rightarrow> oauth_system \<Rightarrow> oauth_system" where
  "caller_readmit now' i deadline s =
     (case check_admission (oy_now s) now' (oy_closed s) deadline of
        Inl e \<Rightarrow> release (goto i (Returned (Inl e) now' False) (s\<lparr>oy_now := now'\<rparr>))
      | Inr _ \<Rightarrow> goto i (Relooking deadline) (s\<lparr>oy_now := now'\<rparr>))"

definition caller_relook :: "nat option \<Rightarrow> nat \<Rightarrow> instant \<Rightarrow> oauth_system \<Rightarrow> oauth_system" where
  "caller_relook sample i deadline s =
     (case look sample s of
        (Some t, s) \<Rightarrow> release (goto i (Returned (Inr t) (oy_now s) False) s)
      | (None, s) \<Rightarrow> goto i (Judging deadline (oy_now s)) s)"

definition caller_judge :: "nat \<Rightarrow> instant \<Rightarrow> instant \<Rightarrow> oauth_system \<Rightarrow> oauth_system" where
  "caller_judge i deadline now s =
     (case completed_failure now (oy_cached s) of
        Some e \<Rightarrow> release (goto i (Returned (Inl e) now False) s)
      | None \<Rightarrow>
          let full_deadline = now + FETCH_TIMEOUT
          in goto i (Attempting deadline (min deadline full_deadline) (deadline < full_deadline)) s)"

text \<open>The attempt itself may refuse; \<open>now'\<close> is the reading after it, past which every result is a timeout.\<close>

definition caller_attempt :: "instant \<Rightarrow> instant \<Rightarrow> nat \<Rightarrow> instant \<Rightarrow> instant \<Rightarrow> bool \<Rightarrow> oauth_system \<Rightarrow> oauth_system" where
  "caller_attempt started now' i deadline fetch_deadline shortened s =
     (case admit_attempt (oy_now s) fetch_deadline (oy_permits s) of
        Inl e \<Rightarrow> goto i (Deciding deadline shortened (Inl (if now' \<ge> fetch_deadline then AcqTimeout else e))) (s\<lparr>oy_now := now'\<rparr>)
      | Inr permits \<Rightarrow> goto i (Requesting deadline fetch_deadline shortened started) (s\<lparr>oy_permits := permits\<rparr>))"

text \<open>The answer that the provider's reply holds, for the record of answers.\<close>

definition answers_of :: "(bytes \<Rightarrow> json option) \<Rightarrow> request_env option \<Rightarrow> token_response list" where
  "answers_of from_slice answer =
     (case answer of
        None \<Rightarrow> []
      | Some env \<Rightarrow> (case post_form from_slice (re_built env) (re_reply env) of Inl _ \<Rightarrow> [] | Inr r \<Rightarrow> [r]))"

definition caller_fetched ::
  "(bytes \<Rightarrow> json option) \<Rightarrow> signer \<Rightarrow> request_env option \<Rightarrow> nat \<Rightarrow> instant \<Rightarrow> instant \<Rightarrow> bool \<Rightarrow> instant \<Rightarrow> oauth_system \<Rightarrow> oauth_system" where
  "caller_fetched from_slice sg answer i deadline fetch_deadline shortened started s =
     goto i (Deciding deadline shortened (fetched_token from_slice sg fetch_deadline started (oy_now s) answer))
       (s\<lparr>oy_permits := oy_permits s + 1, oy_answers := oy_answers s @ answers_of from_slice answer\<rparr>)"

definition caller_decide :: "nat \<Rightarrow> instant \<Rightarrow> bool \<Rightarrow> acquisition_error + oauth_token \<Rightarrow> oauth_system \<Rightarrow> oauth_system" where
  "caller_decide i deadline shortened result s =
     release
       (if shortened \<and> oy_now s \<ge> deadline then goto i (Returned (Inl AcqTimeout) (oy_now s) False) s
        else case result of
          Inr t \<Rightarrow>
            let a = \<lparr>at_address = oy_fresh s, at_token = t\<rparr>
            in goto i (Returned (Inr a) (oy_now s) True)
                 (s\<lparr>oy_fresh := oy_fresh s + 1, oy_cached := store_service_token (oy_now s) a (oy_cached s)\<rparr>)
        | Inl e \<Rightarrow>
            goto i (Returned (Inl e) (oy_now s) False)
              (if e \<noteq> AcqTimeout \<or> \<not> shortened then s\<lparr>oy_cached := remember_failure (oy_now s) e (oy_cached s)\<rparr> else s))"

text \<open>Dropping the future gives back the lock and the permit it holds.\<close>

definition caller_drop :: "nat \<Rightarrow> oauth_system \<Rightarrow> oauth_system" where
  "caller_drop i s =
     goto i Dropped
       (s\<lparr>oy_lock := (if oy_lock s = Some (ByCaller i) then None else oy_lock s),
          oy_permits := (case oy_callers s i of Requesting _ _ _ _ \<Rightarrow> oy_permits s + 1 | _ \<Rightarrow> oy_permits s)\<rparr>)"

definition driver_check :: "refresh_request \<Rightarrow> oauth_system \<Rightarrow> oauth_system" where
  "driver_check rq s =
     (if oy_now s \<ge> rq_deadline rq \<or> completed_failure (oy_now s) (oy_cached s) \<noteq> None
      then release (s\<lparr>oy_driver := DFinishing\<rparr>) else s\<lparr>oy_driver := DComparing rq\<rparr>)"

definition driver_compare :: "refresh_request \<Rightarrow> oauth_system \<Rightarrow> oauth_system" where
  "driver_compare rq s =
     (if \<not> (case ca_token (oy_cached s) of None \<Rightarrow> False | Some t \<Rightarrow> at_address t = at_address (rq_current rq))
      then release (s\<lparr>oy_driver := DFinishing\<rparr>) else s\<lparr>oy_driver := DAttempting rq\<rparr>)"

definition driver_attempt :: "instant \<Rightarrow> instant \<Rightarrow> refresh_request \<Rightarrow> oauth_system \<Rightarrow> oauth_system" where
  "driver_attempt started now' rq s =
     (case admit_attempt (oy_now s) (rq_deadline rq) (oy_permits s) of
        Inl e \<Rightarrow> s\<lparr>oy_driver := DDeciding (Inl (if now' \<ge> rq_deadline rq then AcqTimeout else e)), oy_now := now'\<rparr>
      | Inr permits \<Rightarrow> s\<lparr>oy_driver := DRequesting rq started, oy_permits := permits\<rparr>)"

definition driver_fetched ::
  "(bytes \<Rightarrow> json option) \<Rightarrow> signer \<Rightarrow> request_env option \<Rightarrow> refresh_request \<Rightarrow> instant \<Rightarrow> oauth_system \<Rightarrow> oauth_system" where
  "driver_fetched from_slice sg answer rq started s =
     s\<lparr>oy_driver := DDeciding (fetched_token from_slice sg (rq_deadline rq) started (oy_now s) answer),
       oy_permits := oy_permits s + 1, oy_answers := oy_answers s @ answers_of from_slice answer\<rparr>"

definition driver_decide :: "acquisition_error + oauth_token \<Rightarrow> oauth_system \<Rightarrow> oauth_system" where
  "driver_decide result s =
     (case result of
        Inr t \<Rightarrow>
          s\<lparr>oy_driver := DRescheduling, oy_fresh := oy_fresh s + 1,
            oy_cached := store_service_token (oy_now s) \<lparr>at_address = oy_fresh s, at_token = t\<rparr> (oy_cached s)\<rparr>
      | Inl e \<Rightarrow> release (s\<lparr>oy_driver := DFinishing, oy_cached := remember_failure (oy_now s) e (oy_cached s)\<rparr>))"

definition driver_reschedule :: "nat option \<Rightarrow> oauth_system \<Rightarrow> oauth_system" where
  "driver_reschedule sample s =
     release (s\<lparr>oy_driver := DFinishing,
       oy_cached := (oy_cached s)\<lparr>ca_refresh_after := map_option (max (oy_now s + refresh_retry sample)) (ca_refresh_after (oy_cached s))\<rparr>\<rparr>)"

definition clear_pending :: "driver \<Rightarrow> oauth_system \<Rightarrow> oauth_system" where
  "clear_pending d s = s\<lparr>oy_driver := d, oy_cached := (oy_cached s)\<lparr>ca_refresh_pending := False\<rparr>\<rparr>"

text \<open>Shutdown, the last owner gone, or the driver dropped: the channel closes, and what \<open>refresh_ahead\<close> held is given back.\<close>

definition driver_close :: "oauth_system \<Rightarrow> oauth_system" where
  "driver_close s =
     s\<lparr>oy_driver := DClosing, oy_closed := True, oy_lock := (if oy_lock s = Some ByDriver then None else oy_lock s),
       oy_permits := (case oy_driver s of DRequesting _ _ \<Rightarrow> oy_permits s + 1 | _ \<Rightarrow> oy_permits s)\<rparr>"

definition running :: "caller \<Rightarrow> bool" where
  "running c = (case c of NotStarted \<Rightarrow> False | Returned _ _ _ \<Rightarrow> False | Dropped \<Rightarrow> False | _ \<Rightarrow> True)"

text \<open>The readings of \<open>into_token\<close> lie between the start of the fetch and the present, and samples are of sixteen bits.\<close>

definition env_ok :: "instant \<Rightarrow> instant \<Rightarrow> request_env option \<Rightarrow> bool" where
  "env_ok started now answer =
     (case answer of
        None \<Rightarrow> True
      | Some env \<Rightarrow> started \<le> re_now env \<and> re_now env \<le> re_now' env \<and> re_now' env \<le> now)"

inductive oauth_step :: "(bytes \<Rightarrow> json option) \<Rightarrow> signer \<Rightarrow> oauth_system \<Rightarrow> oauth_system \<Rightarrow> bool"
  for from_slice :: "bytes \<Rightarrow> json option" and sg :: signer where
  tick: "oy_now s \<le> now \<Longrightarrow> oauth_step from_slice sg s (s\<lparr>oy_now := now\<rparr>)"
| begin_call: "oy_callers s i = NotStarted \<Longrightarrow> oauth_step from_slice sg s (goto i (Admitting deadline) s)"
| admit: "oy_callers s i = Admitting deadline \<Longrightarrow> oy_now s \<le> now \<Longrightarrow> oauth_step from_slice sg s (caller_admit now i deadline s)"
| first_look: "oy_callers s i = Looking deadline \<Longrightarrow> oauth_step from_slice sg s (caller_look sample i deadline s)"
| lock: "oy_callers s i = Locking deadline \<Longrightarrow> oy_lock s = None \<Longrightarrow>
    oauth_step from_slice sg s (goto i (Readmitting deadline) (s\<lparr>oy_lock := Some (ByCaller i)\<rparr>))"
| lock_timeout: "oy_callers s i = Locking deadline \<Longrightarrow> oy_now s \<ge> deadline \<Longrightarrow>
    oauth_step from_slice sg s (goto i (Returned (Inl AcqTimeout) (oy_now s) False) s)"
| readmit: "oy_callers s i = Readmitting deadline \<Longrightarrow> oy_now s \<le> now \<Longrightarrow> oauth_step from_slice sg s (caller_readmit now i deadline s)"
| relook: "oy_callers s i = Relooking deadline \<Longrightarrow> oauth_step from_slice sg s (caller_relook sample i deadline s)"
| judge: "oy_callers s i = Judging deadline now \<Longrightarrow> oauth_step from_slice sg s (caller_judge i deadline now s)"
| attempt: "oy_callers s i = Attempting deadline fetch_deadline shortened \<Longrightarrow> oy_now s \<le> now \<Longrightarrow> now \<le> now' \<Longrightarrow>
    oauth_step from_slice sg s (caller_attempt (oy_now s) now' i deadline fetch_deadline shortened (s\<lparr>oy_now := now\<rparr>))"
| fetch_end: "oy_callers s i = Requesting deadline fetch_deadline shortened started \<Longrightarrow>
    answer = None \<longrightarrow> oy_now s \<ge> fetch_deadline \<Longrightarrow> env_ok started (oy_now s) answer \<Longrightarrow>
    oauth_step from_slice sg s (caller_fetched from_slice sg answer i deadline fetch_deadline shortened started s)"
| decide: "oy_callers s i = Deciding deadline shortened result \<Longrightarrow> oauth_step from_slice sg s (caller_decide i deadline shortened result s)"
| drop_call: "running (oy_callers s i) \<Longrightarrow> oauth_step from_slice sg s (caller_drop i s)"
| reject: "oy_callers s i = Returned (Inr a) t own \<Longrightarrow>
    oauth_step from_slice sg s (s\<lparr>oy_cached := reject_service_token (oy_now s) a (oy_cached s)\<rparr>)"
| exchange_start: "oy_permits s > 0 \<Longrightarrow> oauth_step from_slice sg s (s\<lparr>oy_permits := oy_permits s - 1, oy_exchanges := oy_exchanges s + 1\<rparr>)"
| exchange_end: "oy_exchanges s > 0 \<Longrightarrow> oauth_step from_slice sg s (s\<lparr>oy_permits := oy_permits s + 1, oy_exchanges := oy_exchanges s - 1\<rparr>)"
| driver_receive: "oy_driver s = DIdle \<Longrightarrow> oy_channel s = Some rq \<Longrightarrow>
    oauth_step from_slice sg s (s\<lparr>oy_driver := DLocking rq, oy_channel := None\<rparr>)"
| driver_lock: "oy_driver s = DLocking rq \<Longrightarrow> oy_lock s = None \<Longrightarrow>
    oauth_step from_slice sg s (s\<lparr>oy_driver := DChecking rq, oy_lock := Some ByDriver\<rparr>)"
| driver_lock_timeout: "oy_driver s = DLocking rq \<Longrightarrow> oy_now s \<ge> rq_deadline rq \<Longrightarrow> oauth_step from_slice sg s (s\<lparr>oy_driver := DFinishing\<rparr>)"
| driver_check: "oy_driver s = DChecking rq \<Longrightarrow> oauth_step from_slice sg s (driver_check rq s)"
| driver_compare: "oy_driver s = DComparing rq \<Longrightarrow> oauth_step from_slice sg s (driver_compare rq s)"
| driver_attempt: "oy_driver s = DAttempting rq \<Longrightarrow> oy_now s \<le> now \<Longrightarrow> now \<le> now' \<Longrightarrow>
    oauth_step from_slice sg s (driver_attempt (oy_now s) now' rq (s\<lparr>oy_now := now\<rparr>))"
| driver_fetch_end: "oy_driver s = DRequesting rq started \<Longrightarrow> answer = None \<longrightarrow> oy_now s \<ge> rq_deadline rq \<Longrightarrow>
    env_ok started (oy_now s) answer \<Longrightarrow> oauth_step from_slice sg s (driver_fetched from_slice sg answer rq started s)"
| driver_decide: "oy_driver s = DDeciding result \<Longrightarrow> oauth_step from_slice sg s (driver_decide result s)"
| driver_reschedule: "oy_driver s = DRescheduling \<Longrightarrow> oauth_step from_slice sg s (driver_reschedule sample s)"
| driver_finish: "oy_driver s = DFinishing \<Longrightarrow> oauth_step from_slice sg s (clear_pending DIdle s)"
| driver_close: "oy_driver s \<noteq> DClosing \<Longrightarrow> oy_driver s \<noteq> DGone \<Longrightarrow> oauth_step from_slice sg s (driver_close s)"
| driver_drop: "oy_driver s = DClosing \<Longrightarrow> oauth_step from_slice sg s (clear_pending DGone s)"

subsection \<open>Lock and permits\<close>

definition holds_lock :: "caller \<Rightarrow> bool" where
  "holds_lock c =
     (case c of
        Readmitting _ \<Rightarrow> True | Relooking _ \<Rightarrow> True | Judging _ _ \<Rightarrow> True | Attempting _ _ _ \<Rightarrow> True | Requesting _ _ _ _ \<Rightarrow> True
      | Deciding _ _ _ \<Rightarrow> True | _ \<Rightarrow> False)"

definition driver_holds :: "driver \<Rightarrow> bool" where
  "driver_holds d =
     (case d of DChecking _ \<Rightarrow> True | DComparing _ \<Rightarrow> True | DAttempting _ \<Rightarrow> True | DRequesting _ _ \<Rightarrow> True | DDeciding _ \<Rightarrow> True | DRescheduling \<Rightarrow> True | _ \<Rightarrow> False)"

definition requesting :: "caller \<Rightarrow> bool" where
  "requesting c = (case c of Requesting _ _ _ _ \<Rightarrow> True | _ \<Rightarrow> False)"

definition driver_requesting :: "driver \<Rightarrow> bool" where
  "driver_requesting d = (case d of DRequesting _ _ \<Rightarrow> True | _ \<Rightarrow> False)"

definition lock_inv :: "oauth_system \<Rightarrow> bool" where
  "lock_inv s =
     ((\<forall>i. oy_lock s = Some (ByCaller i) \<longleftrightarrow> holds_lock (oy_callers s i)) \<and> (oy_lock s = Some ByDriver \<longleftrightarrow> driver_holds (oy_driver s)))"

definition service_requests :: "oauth_system \<Rightarrow> nat" where
  "service_requests s =
     (case oy_lock s of
        None \<Rightarrow> 0
      | Some (ByCaller i) \<Rightarrow> if requesting (oy_callers s i) then 1 else 0
      | Some ByDriver \<Rightarrow> if driver_requesting (oy_driver s) then 1 else 0)"

definition permit_inv :: "nat \<Rightarrow> oauth_system \<Rightarrow> bool" where
  "permit_inv permits s = (oy_permits s + oy_exchanges s + service_requests s = permits)"

lemmas caller_steps = caller_admit_def caller_look_def caller_readmit_def caller_relook_def caller_judge_def caller_attempt_def
  caller_fetched_def caller_decide_def
lemmas driver_steps = driver_check_def driver_compare_def driver_attempt_def driver_fetched_def driver_decide_def driver_reschedule_def clear_pending_def

lemma place_simps [simp]:
  "\<not> holds_lock NotStarted" "\<not> holds_lock (Admitting d)" "\<not> holds_lock (Looking d)" "\<not> holds_lock (Locking d)" "holds_lock (Readmitting d)"
  "holds_lock (Relooking d)" "holds_lock (Judging d n)" "holds_lock (Attempting d f b)" "holds_lock (Requesting d f b n)"
  "holds_lock (Deciding d b r)" "\<not> holds_lock (Returned x n b)" "\<not> holds_lock Dropped"
  "\<not> requesting NotStarted" "\<not> requesting (Admitting d)" "\<not> requesting (Looking d)" "\<not> requesting (Locking d)" "\<not> requesting (Readmitting d)"
  "\<not> requesting (Relooking d)" "\<not> requesting (Judging d n)" "\<not> requesting (Attempting d f b)" "requesting (Requesting d f b n)"
  "\<not> requesting (Deciding d b r)" "\<not> requesting (Returned x n b)" "\<not> requesting Dropped"
  "\<not> driver_holds DIdle" "\<not> driver_holds (DLocking q)" "driver_holds (DChecking q)" "driver_holds (DComparing q)" "driver_holds (DAttempting q)" "driver_holds (DRequesting q n)"
  "driver_holds (DDeciding r)" "driver_holds DRescheduling" "\<not> driver_holds DFinishing" "\<not> driver_holds DClosing" "\<not> driver_holds DGone"
  "\<not> driver_requesting DIdle" "\<not> driver_requesting (DLocking q)" "\<not> driver_requesting (DChecking q)" "\<not> driver_requesting (DComparing q)" "\<not> driver_requesting (DAttempting q)"
  "driver_requesting (DRequesting q n)" "\<not> driver_requesting (DDeciding r)" "\<not> driver_requesting DRescheduling" "\<not> driver_requesting DFinishing"
  "\<not> driver_requesting DClosing" "\<not> driver_requesting DGone"
  by (simp_all add: holds_lock_def driver_holds_def requesting_def driver_requesting_def)

lemma requesting_holds: "requesting c \<Longrightarrow> holds_lock c" "driver_requesting d \<Longrightarrow> driver_holds d"
  by (auto simp: requesting_def driver_requesting_def split: caller.splits driver.splits)

text \<open>What the lock and the count of requests depend on.\<close>

lemma lock_frame [simp]:
  "lock_inv (s\<lparr>oy_now := n\<rparr>) = lock_inv s" "lock_inv (s\<lparr>oy_cached := c\<rparr>) = lock_inv s" "lock_inv (s\<lparr>oy_channel := q\<rparr>) = lock_inv s"
  "lock_inv (s\<lparr>oy_closed := b\<rparr>) = lock_inv s" "lock_inv (s\<lparr>oy_permits := n\<rparr>) = lock_inv s" "lock_inv (s\<lparr>oy_exchanges := n\<rparr>) = lock_inv s"
  "lock_inv (s\<lparr>oy_fresh := n\<rparr>) = lock_inv s" "lock_inv (s\<lparr>oy_answers := rs\<rparr>) = lock_inv s"
  by (simp_all add: lock_inv_def)

lemma requests_frame [simp]:
  "service_requests (s\<lparr>oy_now := n\<rparr>) = service_requests s" "service_requests (s\<lparr>oy_cached := c\<rparr>) = service_requests s"
  "service_requests (s\<lparr>oy_channel := q\<rparr>) = service_requests s" "service_requests (s\<lparr>oy_closed := b\<rparr>) = service_requests s"
  "service_requests (s\<lparr>oy_permits := n\<rparr>) = service_requests s" "service_requests (s\<lparr>oy_exchanges := n\<rparr>) = service_requests s"
  "service_requests (s\<lparr>oy_fresh := n\<rparr>) = service_requests s" "service_requests (s\<lparr>oy_answers := rs\<rparr>) = service_requests s"
  "service_requests (release s) = 0"
  by (simp_all add: service_requests_def release_def split: option.splits holder.splits)

lemma place_fields [simp]:
  "oy_permits (goto i c s) = oy_permits s" "oy_exchanges (goto i c s) = oy_exchanges s" "oy_lock (goto i c s) = oy_lock s" "oy_driver (goto i c s) = oy_driver s"
  "oy_callers (goto i c s) j = (if j = i then c else oy_callers s j)" "oy_cached (goto i c s) = oy_cached s" "oy_now (goto i c s) = oy_now s"
  "oy_answers (goto i c s) = oy_answers s" "oy_fresh (goto i c s) = oy_fresh s" "oy_channel (goto i c s) = oy_channel s" "oy_closed (goto i c s) = oy_closed s"
  "oy_permits (release s) = oy_permits s" "oy_exchanges (release s) = oy_exchanges s" "oy_lock (release s) = None" "oy_driver (release s) = oy_driver s"
  "oy_callers (release s) = oy_callers s" "oy_cached (release s) = oy_cached s" "oy_now (release s) = oy_now s" "oy_answers (release s) = oy_answers s"
  "oy_fresh (release s) = oy_fresh s" "oy_channel (release s) = oy_channel s" "oy_closed (release s) = oy_closed s"
  by (simp_all add: goto_def release_def)

lemma look_frame: "look sample s = (t, s') \<Longrightarrow> \<exists>c q. s' = s\<lparr>oy_cached := c, oy_channel := q\<rparr>"
  by (auto simp: look_def split: prod.splits)

lemma lock_holder:
  assumes "lock_inv s" "holds_lock (oy_callers s i)"
  shows "oy_lock s = Some (ByCaller i)" "j \<noteq> i \<Longrightarrow> \<not> holds_lock (oy_callers s j)" "\<not> driver_holds (oy_driver s)"
  using assms unfolding lock_inv_def by (metis holder.inject holder.distinct(1) option.inject)+

lemma lock_goto: "lock_inv s \<Longrightarrow> holds_lock c = holds_lock (oy_callers s i) \<Longrightarrow> lock_inv (goto i c s)"
  by (auto simp: lock_inv_def)

lemma lock_release: "lock_inv s \<Longrightarrow> holds_lock (oy_callers s i) \<Longrightarrow> \<not> holds_lock c \<Longrightarrow> lock_inv (release (goto i c s))"
proof -
  assume s: "lock_inv s" "holds_lock (oy_callers s i)" "\<not> holds_lock c"
  from lock_holder(2)[OF s(1,2)] lock_holder(3)[OF s(1,2)] s(3) show ?thesis unfolding lock_inv_def[of "release (goto i c s)"] by simp
qed

lemma lock_driver: "lock_inv s \<Longrightarrow> driver_holds d = driver_holds (oy_driver s) \<Longrightarrow> lock_inv (s\<lparr>oy_driver := d\<rparr>)"
  by (simp add: lock_inv_def)

lemma lock_driver_release: "lock_inv s \<Longrightarrow> driver_holds (oy_driver s) \<Longrightarrow> \<not> driver_holds d \<Longrightarrow> lock_inv (release (s\<lparr>oy_driver := d\<rparr>))"
  by (auto simp: lock_inv_def)

lemma lock_release_cached [simp]: "lock_inv (release (s\<lparr>oy_cached := c\<rparr>)) = lock_inv (release s)"
  by (simp add: lock_inv_def)

lemma lock_inv_step: "oauth_step from_slice sg s t \<Longrightarrow> lock_inv s \<Longrightarrow> lock_inv t"
proof (induction rule: oauth_step.induct)
  case (drop_call s i)
  show ?case
  proof (cases "holds_lock (oy_callers s i)")
    case True
    with lock_holder[OF drop_call.prems True] lock_release[OF drop_call.prems True, of Dropped] show ?thesis
      by (simp add: caller_drop_def release_def goto_def lock_inv_def)
  next
    case False
    with drop_call.prems have "oy_lock s \<noteq> Some (ByCaller i)" by (simp add: lock_inv_def)
    with lock_goto[OF drop_call.prems, of Dropped i] False show ?thesis by (simp add: caller_drop_def goto_def lock_inv_def)
  qed
next
  case (driver_close s)
  then show ?case by (auto simp: lock_inv_def driver_close_def)
next
  case (first_look s i deadline sample)
  then show ?case by (auto simp: caller_look_def dest!: look_frame intro!: lock_goto split: prod.splits option.splits)
next
  case (relook s i deadline sample)
  then show ?case by (auto simp: caller_relook_def dest!: look_frame intro!: lock_goto lock_release split: prod.splits option.splits)
next
  case (lock s i deadline)
  then show ?case by (auto simp: lock_inv_def)
next
  case (driver_lock s rq)
  then show ?case by (auto simp: lock_inv_def)
qed (auto simp: caller_steps driver_steps Let_def intro!: lock_goto lock_release lock_driver lock_driver_release split: sum.splits option.splits)

lemma requests_goto: "requesting c = requesting (oy_callers s i) \<Longrightarrow> service_requests (goto i c s) = service_requests s"
  by (auto simp: service_requests_def split: option.splits holder.splits)

lemma requests_driver: "driver_requesting d = driver_requesting (oy_driver s) \<Longrightarrow> service_requests (s\<lparr>oy_driver := d\<rparr>) = service_requests s"
  by (auto simp: service_requests_def split: option.splits holder.splits)

lemma requests_caller: "lock_inv s \<Longrightarrow> holds_lock (oy_callers s i) \<Longrightarrow> service_requests s = (if requesting (oy_callers s i) then 1 else 0)"
  using lock_holder[of s i] by (simp add: service_requests_def)

lemma requests_of_driver: "lock_inv s \<Longrightarrow> driver_holds (oy_driver s) \<Longrightarrow> service_requests s = (if driver_requesting (oy_driver s) then 1 else 0)"
  by (simp add: service_requests_def lock_inv_def)

lemma requests_free: "lock_inv s \<Longrightarrow> \<not> holds_lock (oy_callers s i) \<Longrightarrow> service_requests (goto i c s) = service_requests s"
  by (auto simp: service_requests_def lock_inv_def split: option.splits holder.splits)

lemma permit_inv_step: "oauth_step from_slice sg s t \<Longrightarrow> lock_inv s \<Longrightarrow> permit_inv permits s \<Longrightarrow> permit_inv permits t"
proof (induction rule: oauth_step.induct)
  case (drop_call s i)
  show ?case
  proof (cases "holds_lock (oy_callers s i)")
    case True
    with drop_call.prems requests_caller[of s i] lock_holder[of s i] show ?thesis
      by (auto simp: permit_inv_def caller_drop_def service_requests_def requesting_def split: caller.splits)
  next
    case False
    with requesting_holds have "\<not> requesting (oy_callers s i)" by blast
    moreover from False drop_call.prems have "oy_lock s \<noteq> Some (ByCaller i)" by (simp add: lock_inv_def)
    ultimately show ?thesis using drop_call.prems requests_free[of s i Dropped] False
      by (auto simp: permit_inv_def caller_drop_def requesting_def split: caller.splits)
  qed
next
  case (driver_close s)
  then show ?case
  proof (cases "driver_holds (oy_driver s)")
    case True
    with driver_close.prems requests_of_driver[of s] show ?thesis
      by (auto simp: permit_inv_def driver_close_def service_requests_def lock_inv_def driver_requesting_def split: driver.splits)
  next
    case False
    with requesting_holds have "\<not> driver_requesting (oy_driver s)" by blast
    moreover from False driver_close.prems have free: "oy_lock s \<noteq> Some ByDriver" by (simp add: lock_inv_def)
    moreover from free have "service_requests (driver_close s) = service_requests s"
      by (simp add: service_requests_def driver_close_def split: option.splits holder.splits)
    ultimately show ?thesis using driver_close.prems by (auto simp: permit_inv_def driver_close_def driver_requesting_def split: driver.splits)
  qed
next
  case (first_look s i deadline sample)
  then show ?case by (auto simp: caller_look_def permit_inv_def requests_goto dest!: look_frame split: prod.splits option.splits)
next
  case (relook s i deadline sample)
  then show ?case using requests_caller[of s i]
    by (auto simp: caller_relook_def permit_inv_def requests_goto dest!: look_frame split: prod.splits option.splits)
next
  case (attempt s i deadline fetch_deadline shortened now now')
  then show ?case using requests_caller[of s i] lock_holder[of s i]
    by (auto simp: caller_attempt_def permit_inv_def admit_attempt_def service_requests_def split: if_splits)
next
  case (fetch_end s i deadline fetch_deadline shortened started answer)
  then show ?case using lock_holder[of s i] by (auto simp: permit_inv_def service_requests_def caller_fetched_def)
next
  case (decide s i deadline shortened result)
  then show ?case using requests_caller[of s i] by (auto simp: caller_decide_def permit_inv_def Let_def split: sum.splits)
next
  case (driver_attempt s rq now now')
  then show ?case
    by (auto simp: permit_inv_def service_requests_def driver_attempt_def admit_attempt_def lock_inv_def split: if_splits)
next
  case (driver_fetch_end s rq started answer)
  then show ?case by (auto simp: permit_inv_def service_requests_def driver_fetched_def lock_inv_def)
next
  case (lock s i deadline)
  then show ?case by (auto simp: permit_inv_def service_requests_def)
next
  case (driver_lock s rq)
  then show ?case by (auto simp: permit_inv_def service_requests_def)
next
  case (readmit s i deadline now)
  then show ?case using requests_caller[of s i] by (auto simp: caller_readmit_def permit_inv_def requests_goto split: sum.splits)
next
  case (judge s i deadline now)
  then show ?case using requests_caller[of s i] by (auto simp: caller_judge_def permit_inv_def requests_goto Let_def split: option.splits)
next
  case (driver_check s rq)
  then show ?case using requests_of_driver[of s] by (auto simp: driver_check_def permit_inv_def requests_driver)
next
  case (driver_compare s rq)
  then show ?case using requests_of_driver[of s] by (auto simp: driver_compare_def permit_inv_def requests_driver)
next
  case (driver_decide s result)
  then show ?case using requests_of_driver[of s] by (auto simp: driver_decide_def permit_inv_def requests_driver split: sum.splits)
next
  case (driver_reschedule s sample)
  then show ?case using requests_of_driver[of s] by (auto simp: driver_reschedule_def permit_inv_def)
qed (auto simp: permit_inv_def caller_admit_def clear_pending_def requests_goto requests_driver split: sum.splits)

subsection \<open>The pending refresh\<close>

definition driver_busy :: "driver \<Rightarrow> bool" where
  "driver_busy d = (d \<noteq> DIdle \<and> d \<noteq> DClosing \<and> d \<noteq> DGone)"

definition pending_inv :: "oauth_system \<Rightarrow> bool" where
  "pending_inv s =
     ((oy_closed s \<longleftrightarrow> oy_driver s = DClosing \<or> oy_driver s = DGone) \<and>
      (\<not> oy_closed s \<longrightarrow> (ca_refresh_pending (oy_cached s) \<longleftrightarrow> oy_channel s \<noteq> None \<or> driver_busy (oy_driver s)) \<and>
         \<not> (oy_channel s \<noteq> None \<and> driver_busy (oy_driver s))) \<and>
      (oy_driver s = DGone \<longrightarrow> \<not> ca_refresh_pending (oy_cached s)))"

lemma pending_kept [simp]:
  "ca_refresh_pending (remember_failure now e c) = ca_refresh_pending c" "ca_refresh_pending (store_service_token now a c) = ca_refresh_pending c"
  "ca_refresh_pending (reject_service_token now a c) = ca_refresh_pending c"
  by (auto simp: remember_failure_def store_service_token_def reject_service_token_def Let_def split: option.splits)

lemma look_pending:
  assumes "look sample s = (t, s')" "pending_inv s"
  shows "pending_inv s' \<and> oy_callers s' = oy_callers s \<and> oy_lock s' = oy_lock s"
proof (cases "ca_token (oy_cached s)")
  case (Some a)
  with assms show ?thesis
    by (cases "refresh_due (oy_now s) (oy_cached s)")
      (auto simp: look_def reusable_service_token_def pending_inv_def refresh_due_def split: if_splits)
qed (use assms in \<open>auto simp: look_def reusable_service_token_def pending_inv_def\<close>)

lemma pending_goto [simp]: "pending_inv (goto i c s) = pending_inv s" "pending_inv (release s) = pending_inv s" "pending_inv (s\<lparr>oy_now := n\<rparr>) = pending_inv s"
  by (simp_all add: pending_inv_def goto_def release_def)

lemma pending_inv_step: "oauth_step from_slice sg s t \<Longrightarrow> pending_inv s \<Longrightarrow> pending_inv t"
proof (induction rule: oauth_step.induct)
  case (first_look s i deadline sample)
  then show ?case by (auto simp: caller_look_def dest: look_pending split: prod.splits option.splits)
next
  case (relook s i deadline sample)
  then show ?case by (auto simp: caller_relook_def dest: look_pending split: prod.splits option.splits)
next
  case (decide s i deadline shortened result)
  then show ?case by (auto simp: caller_decide_def pending_inv_def Let_def split: sum.splits)
next
  case (drop_call s i)
  then show ?case by (simp add: caller_drop_def pending_inv_def)
next
  case (driver_check s rq)
  then show ?case by (simp add: driver_check_def pending_inv_def driver_busy_def)
next
  case (driver_compare s rq)
  then show ?case by (simp add: driver_compare_def pending_inv_def driver_busy_def)
next
  case (driver_decide s result)
  then show ?case by (auto simp: driver_decide_def pending_inv_def driver_busy_def split: sum.splits)
qed (auto simp: caller_admit_def caller_readmit_def caller_judge_def caller_attempt_def caller_fetched_def driver_attempt_def driver_fetched_def
    driver_reschedule_def clear_pending_def driver_close_def pending_inv_def driver_busy_def Let_def split: sum.splits option.splits)

subsection \<open>Where tokens come from\<close>

definition issued :: "oauth_system \<Rightarrow> oauth_token \<Rightarrow> bool" where
  "issued s t =
     (ot_acquired t \<le> oy_now s \<and>
      (\<exists>r \<in> set (oy_answers s). \<exists>now now' sample. into_token (ot_acquired t) now now' sample None r = Inr t))"

definition caller_token_ok :: "oauth_system \<Rightarrow> caller \<Rightarrow> bool" where
  "caller_token_ok s c =
     (case c of
        Requesting _ _ _ started \<Rightarrow> started \<le> oy_now s
      | Deciding _ _ (Inr t) \<Rightarrow> issued s t
      | Returned (Inr a) t own \<Rightarrow>
          issued s (at_token a) \<and> at_address a < oy_fresh s \<and> t \<le> oy_now s \<and> ot_acquired (at_token a) \<le> t \<and> (\<not> own \<longrightarrow> is_reusable (at_token a) t)
      | _ \<Rightarrow> True)"

definition driver_token_ok :: "oauth_system \<Rightarrow> driver \<Rightarrow> bool" where
  "driver_token_ok s d =
     (case d of DRequesting _ started \<Rightarrow> started \<le> oy_now s | DDeciding (Inr t) \<Rightarrow> issued s t | _ \<Rightarrow> True)"

definition token_inv :: "oauth_system \<Rightarrow> bool" where
  "token_inv s =
     ((\<forall>a. ca_token (oy_cached s) = Some a \<longrightarrow> issued s (at_token a) \<and> at_address a < oy_fresh s) \<and>
      (\<forall>i. caller_token_ok s (oy_callers s i)) \<and> driver_token_ok s (oy_driver s))"

text \<open>Time, answers and addresses only grow.\<close>

definition later :: "oauth_system \<Rightarrow> oauth_system \<Rightarrow> bool" where
  "later s t = (oy_now s \<le> oy_now t \<and> set (oy_answers s) \<subseteq> set (oy_answers t) \<and> oy_fresh s \<le> oy_fresh t)"

lemma later_ok:
  assumes "later s t"
  shows "issued s x \<Longrightarrow> issued t x" "caller_token_ok s c \<Longrightarrow> caller_token_ok t c" "driver_token_ok s d \<Longrightarrow> driver_token_ok t d"
proof -
  show iss: "issued s x \<Longrightarrow> issued t x" for x using assms unfolding issued_def later_def by (meson order.trans subsetD)
  show "caller_token_ok s c \<Longrightarrow> caller_token_ok t c"
    using assms iss by (auto simp: caller_token_ok_def later_def split: caller.splits sum.splits)
  show "driver_token_ok s d \<Longrightarrow> driver_token_ok t d"
    using assms iss by (auto simp: driver_token_ok_def later_def split: driver.splits sum.splits)
qed

lemma token_invI:
  assumes "token_inv s" "later s t"
    and "\<And>a. ca_token (oy_cached t) = Some a \<Longrightarrow> ca_token (oy_cached s) = Some a \<or> (issued t (at_token a) \<and> at_address a < oy_fresh t)"
    and "\<And>j. oy_callers t j = oy_callers s j \<or> caller_token_ok t (oy_callers t j)"
    and "oy_driver t = oy_driver s \<or> driver_token_ok t (oy_driver t)"
  shows "token_inv t"
proof -
  have "issued t (at_token a) \<and> at_address a < oy_fresh t" if "ca_token (oy_cached t) = Some a" for a
    using assms(1,2) assms(3)[OF that] later_ok(1)[OF assms(2)] unfolding token_inv_def later_def by (meson order.strict_trans2)
  moreover have "caller_token_ok t (oy_callers t j)" for j
    using assms(1) assms(4)[of j] later_ok(2)[OF assms(2)] unfolding token_inv_def by metis
  moreover have "driver_token_ok t (oy_driver t)"
    using assms(1,5) later_ok(3)[OF assms(2)] unfolding token_inv_def by metis
  ultimately show ?thesis by (simp add: token_inv_def)
qed

lemma caller_token_simps [simp]:
  "caller_token_ok s NotStarted" "caller_token_ok s (Admitting d)" "caller_token_ok s (Looking d)" "caller_token_ok s (Locking d)"
  "caller_token_ok s (Readmitting d)" "caller_token_ok s (Relooking d)" "caller_token_ok s (Judging d n)" "caller_token_ok s (Attempting d f b)"
  "caller_token_ok s (Requesting d f b n) \<longleftrightarrow> n \<le> oy_now s" "caller_token_ok s (Deciding d b (Inl e))"
  "caller_token_ok s (Deciding d b (Inr x)) \<longleftrightarrow> issued s x" "caller_token_ok s (Returned (Inl e) n b)" "caller_token_ok s Dropped"
  by (simp_all add: caller_token_ok_def)

lemma driver_token_simps [simp]:
  "driver_token_ok s DIdle" "driver_token_ok s (DLocking q)" "driver_token_ok s (DChecking q)" "driver_token_ok s (DComparing q)" "driver_token_ok s (DAttempting q)"
  "driver_token_ok s (DRequesting q n) \<longleftrightarrow> n \<le> oy_now s" "driver_token_ok s (DDeciding (Inl e))" "driver_token_ok s (DDeciding (Inr x)) \<longleftrightarrow> issued s x"
  "driver_token_ok s DRescheduling" "driver_token_ok s DFinishing" "driver_token_ok s DClosing" "driver_token_ok s DGone"
  by (simp_all add: driver_token_ok_def)

lemma fetched_issued:
  assumes "fetched_token from_slice sg deadline started now answer = Inr x"
  shows "\<exists>r \<in> set (answers_of from_slice answer). \<exists>n n' sample. into_token started n n' sample None r = Inr x" "ot_acquired x = started"
proof -
  from assms obtain env where env: "answer = Some env" "request_client_credentials from_slice sg started env = Inr x"
    by (auto simp: fetched_token_def split: if_splits option.splits)
  then obtain r where r: "post_form from_slice (re_built env) (re_reply env) = Inr r"
    "into_token started (re_now env) (re_now' env) (re_sample env) None r = Inr x"
    by (auto simp: request_client_credentials_def bind_result_Inr)
  then show "\<exists>r \<in> set (answers_of from_slice answer). \<exists>n n' sample. into_token started n n' sample None r = Inr x"
    using env(1) by (auto simp: answers_of_def)
  from r(2) show "ot_acquired x = started" by (rule into_token_ok(3))
qed

lemma stored_token: "ca_token (store_service_token now a c) = Some b \<Longrightarrow> b = a \<or> ca_token c = Some b"
  by (auto simp: store_service_token_def Let_def split: if_splits)

lemma kept_token:
  "ca_token (remember_failure now e c) = ca_token c" "ca_token (reject_service_token now a c) = Some b \<Longrightarrow> ca_token c = Some b"
  by (auto simp: remember_failure_def reject_service_token_def split: if_splits option.splits)

lemma look_token:
  assumes "look sample s = (t, s')"
  shows "ca_token (oy_cached s') = ca_token (oy_cached s)" "t = Some a \<Longrightarrow> ca_token (oy_cached s) = Some a \<and> is_reusable (at_token a) (oy_now s)"
    "later s s'" "oy_callers s' = oy_callers s" "oy_driver s' = oy_driver s" "oy_now s' = oy_now s" "oy_fresh s' = oy_fresh s"
  using assms by (auto simp: look_def reusable_service_token_def later_def split: option.splits if_splits)

lemma token_caller: "token_inv s \<Longrightarrow> caller_token_ok s (oy_callers s i)"
  by (simp add: token_inv_def)

lemma token_inv_step: "oauth_step from_slice sg s t \<Longrightarrow> token_inv s \<Longrightarrow> token_inv t"
proof (induction rule: oauth_step.induct)
  case (first_look s i deadline sample)
  obtain x s1 where l: "look sample s = (x, s1)" by fastforce
  note lt = look_token[OF l]
  show ?case
  proof (rule token_invI[OF first_look.prems])
    show "later s (caller_look sample i deadline s)" using lt(3) by (auto simp: caller_look_def l later_def split: option.splits)
    fix j
    show "oy_callers (caller_look sample i deadline s) j = oy_callers s j \<or>
        caller_token_ok (caller_look sample i deadline s) (oy_callers (caller_look sample i deadline s) j)"
      using lt first_look.prems later_ok(1)[OF lt(3)]
      by (auto simp: caller_look_def l caller_token_ok_def token_inv_def issued_def split: option.splits)
  qed (use lt in \<open>auto simp: caller_look_def l split: option.splits\<close>)
next
  case (relook s i deadline sample)
  obtain x s1 where l: "look sample s = (x, s1)" by fastforce
  note lt = look_token[OF l]
  show ?case
  proof (rule token_invI[OF relook.prems])
    show "later s (caller_relook sample i deadline s)" using lt(3) by (auto simp: caller_relook_def l later_def split: option.splits)
    fix j
    show "oy_callers (caller_relook sample i deadline s) j = oy_callers s j \<or>
        caller_token_ok (caller_relook sample i deadline s) (oy_callers (caller_relook sample i deadline s) j)"
      using lt relook.prems later_ok(1)[OF lt(3)]
      by (auto simp: caller_relook_def l caller_token_ok_def token_inv_def issued_def split: option.splits)
  qed (use lt in \<open>auto simp: caller_relook_def l split: option.splits\<close>)
next
  case (fetch_end s i deadline fetch_deadline shortened started answer)
  let ?t = "caller_fetched from_slice sg answer i deadline fetch_deadline shortened started s"
  have "started \<le> oy_now s" using token_caller[OF fetch_end.prems, of i] fetch_end.hyps(1) by simp
  then have "caller_token_ok ?t (oy_callers ?t i)"
    using fetched_issued[of from_slice sg fetch_deadline started "oy_now s" answer]
    by (cases "fetched_token from_slice sg fetch_deadline started (oy_now s) answer") (auto simp: caller_fetched_def issued_def)
  then show ?case by (intro token_invI[OF fetch_end.prems]) (auto simp: caller_fetched_def later_def)
next
  case (driver_fetch_end s rq started answer)
  let ?t = "driver_fetched from_slice sg answer rq started s"
  have "started \<le> oy_now s" using driver_fetch_end by (simp add: token_inv_def)
  then have "driver_token_ok ?t (oy_driver ?t)"
    using fetched_issued[of from_slice sg "rq_deadline rq" started "oy_now s" answer]
    by (cases "fetched_token from_slice sg (rq_deadline rq) started (oy_now s) answer") (auto simp: driver_fetched_def issued_def)
  then show ?case by (intro token_invI[OF driver_fetch_end.prems]) (auto simp: driver_fetched_def later_def)
next
  case (decide s i deadline shortened result)
  show ?case
  proof (cases result)
    case (Inr x)
    with token_caller[OF decide.prems, of i] decide.hyps have "issued s x" by simp
    then show ?thesis using Inr
      by (intro token_invI[OF decide.prems])
        (auto simp: caller_decide_def later_def Let_def issued_def caller_token_ok_def dest!: stored_token, blast+)
  next
    case (Inl e)
    then show ?thesis by (intro token_invI[OF decide.prems]) (auto simp: caller_decide_def later_def kept_token(1) split: if_splits)
  qed
next
  case (driver_decide s result)
  show ?case
  proof (cases result)
    case (Inr x)
    with driver_decide have "issued s x" by (simp add: token_inv_def)
    then show ?thesis using Inr
      by (intro token_invI[OF driver_decide.prems]) (auto simp: driver_decide_def later_def issued_def dest!: stored_token, blast)
  next
    case (Inl e)
    then show ?thesis by (intro token_invI[OF driver_decide.prems]) (simp_all add: driver_decide_def later_def kept_token(1))
  qed
next
  case (attempt s i deadline fetch_deadline shortened now now')
  then show ?case by (intro token_invI[OF attempt.prems]) (auto simp: caller_attempt_def later_def split: sum.splits)
next
  case (driver_attempt s rq now now')
  then show ?case by (intro token_invI[OF driver_attempt.prems]) (auto simp: driver_attempt_def later_def split: sum.splits)
next
  case (reject s i a t own)
  then show ?case by (intro token_invI[OF reject.prems]) (auto simp: later_def dest: kept_token(2))
qed ((rule token_invI, assumption, (auto simp: caller_admit_def caller_readmit_def caller_judge_def caller_drop_def driver_check_def driver_compare_def
    driver_reschedule_def clear_pending_def driver_close_def later_def Let_def split: sum.splits option.splits)[4])+)

subsection \<open>Budgets\<close>

text \<open>Every request has a deadline at most five seconds after its start, and a caller's own deadline bounds it too.\<close>

definition caller_time_ok :: "oauth_system \<Rightarrow> caller \<Rightarrow> bool" where
  "caller_time_ok s c =
     (case c of
        Judging _ n \<Rightarrow> n \<le> oy_now s
      | Attempting d f b \<Rightarrow> f \<le> oy_now s + FETCH_TIMEOUT \<and> f \<le> d
      | Requesting d f b started \<Rightarrow> started \<le> oy_now s \<and> f \<le> started + FETCH_TIMEOUT \<and> f \<le> d
      | _ \<Rightarrow> True)"

definition driver_time_ok :: "oauth_system \<Rightarrow> driver \<Rightarrow> bool" where
  "driver_time_ok s d =
     (case d of
        DLocking q \<Rightarrow> rq_deadline q \<le> oy_now s + FETCH_TIMEOUT
      | DChecking q \<Rightarrow> rq_deadline q \<le> oy_now s + FETCH_TIMEOUT
      | DComparing q \<Rightarrow> rq_deadline q \<le> oy_now s + FETCH_TIMEOUT
      | DAttempting q \<Rightarrow> rq_deadline q \<le> oy_now s + FETCH_TIMEOUT
      | DRequesting q started \<Rightarrow> started \<le> oy_now s \<and> rq_deadline q \<le> started + FETCH_TIMEOUT
      | _ \<Rightarrow> True)"

definition time_inv :: "oauth_system \<Rightarrow> bool" where
  "time_inv s =
     ((\<forall>i. caller_time_ok s (oy_callers s i)) \<and> driver_time_ok s (oy_driver s) \<and>
      (\<forall>q. oy_channel s = Some q \<longrightarrow> rq_deadline q \<le> oy_now s + FETCH_TIMEOUT))"

lemma time_simps [simp]:
  "caller_time_ok s NotStarted" "caller_time_ok s (Admitting d)" "caller_time_ok s (Looking d)" "caller_time_ok s (Locking d)"
  "caller_time_ok s (Readmitting d)" "caller_time_ok s (Relooking d)" "caller_time_ok s (Judging d n) \<longleftrightarrow> n \<le> oy_now s"
  "caller_time_ok s (Attempting d f b) \<longleftrightarrow> f \<le> oy_now s + FETCH_TIMEOUT \<and> f \<le> d"
  "caller_time_ok s (Requesting d f b n) \<longleftrightarrow> n \<le> oy_now s \<and> f \<le> n + FETCH_TIMEOUT \<and> f \<le> d" "caller_time_ok s (Deciding d b r)"
  "caller_time_ok s (Returned x n b)" "caller_time_ok s Dropped"
  "driver_time_ok s DIdle" "driver_time_ok s (DLocking q) \<longleftrightarrow> rq_deadline q \<le> oy_now s + FETCH_TIMEOUT"
  "driver_time_ok s (DChecking q) \<longleftrightarrow> rq_deadline q \<le> oy_now s + FETCH_TIMEOUT"
  "driver_time_ok s (DComparing q) \<longleftrightarrow> rq_deadline q \<le> oy_now s + FETCH_TIMEOUT"
  "driver_time_ok s (DAttempting q) \<longleftrightarrow> rq_deadline q \<le> oy_now s + FETCH_TIMEOUT"
  "driver_time_ok s (DRequesting q n) \<longleftrightarrow> n \<le> oy_now s \<and> rq_deadline q \<le> n + FETCH_TIMEOUT" "driver_time_ok s (DDeciding r)"
  "driver_time_ok s DRescheduling" "driver_time_ok s DFinishing" "driver_time_ok s DClosing" "driver_time_ok s DGone"
  by (simp_all add: caller_time_ok_def driver_time_ok_def)

lemma time_later: "oy_now s \<le> oy_now t \<Longrightarrow> caller_time_ok s c \<Longrightarrow> caller_time_ok t c" "oy_now s \<le> oy_now t \<Longrightarrow> driver_time_ok s d \<Longrightarrow> driver_time_ok t d"
  by (cases c; cases d; simp)+

lemma time_invI:
  assumes "time_inv s" "oy_now s \<le> oy_now t" "\<And>j. oy_callers t j = oy_callers s j \<or> caller_time_ok t (oy_callers t j)"
    and "oy_driver t = oy_driver s \<or> driver_time_ok t (oy_driver t)"
    and "\<And>q. oy_channel t = Some q \<Longrightarrow> oy_channel s = Some q \<or> rq_deadline q \<le> oy_now t + FETCH_TIMEOUT"
  shows "time_inv t"
  using assms(1) time_later[OF assms(2)] assms(3-) assms(2) unfolding time_inv_def by (metis add_le_mono1 order.trans)

lemma look_channel: "look sample s = (x, s') \<Longrightarrow> oy_channel s' = Some q \<Longrightarrow> oy_channel s = Some q \<or> rq_deadline q = oy_now s + FETCH_TIMEOUT"
  by (auto simp: look_def reusable_service_token_def split: option.splits if_splits)

lemma time_inv_step: "oauth_step from_slice sg s t \<Longrightarrow> time_inv s \<Longrightarrow> time_inv t"
proof (induction rule: oauth_step.induct)
  case (first_look s i deadline sample)
  obtain x s1 where l: "look sample s = (x, s1)" by fastforce
  show ?case using look_token[OF l] look_channel[OF l]
    by (intro time_invI[OF first_look.prems]) (auto simp: caller_look_def l split: option.splits)
next
  case (relook s i deadline sample)
  obtain x s1 where l: "look sample s = (x, s1)" by fastforce
  show ?case using look_token[OF l] look_channel[OF l]
    by (intro time_invI[OF relook.prems]) (auto simp: caller_relook_def l split: option.splits)
next
  case (judge s i deadline now)
  then have "now \<le> oy_now s" unfolding time_inv_def by (metis time_simps(7))
  then show ?case by (intro time_invI[OF judge.prems]) (auto simp: caller_judge_def Let_def split: option.splits)
next
  case (attempt s i deadline fetch_deadline shortened now now')
  then have "fetch_deadline \<le> oy_now s + FETCH_TIMEOUT \<and> fetch_deadline \<le> deadline" unfolding time_inv_def by (metis time_simps(8))
  with attempt.hyps show ?case by (intro time_invI[OF attempt.prems]) (auto simp: caller_attempt_def split: sum.splits)
next
  case (decide s i deadline shortened result)
  then show ?case by (intro time_invI[OF decide.prems]) (auto simp: caller_decide_def Let_def split: sum.splits if_splits)
next
  case (driver_attempt s rq now now')
  then have "rq_deadline rq \<le> oy_now s + FETCH_TIMEOUT" by (simp add: time_inv_def)
  with driver_attempt.hyps show ?case by (intro time_invI[OF driver_attempt.prems]) (auto simp: driver_attempt_def split: sum.splits)
next
  case (driver_receive s rq)
  then have "rq_deadline rq \<le> oy_now s + FETCH_TIMEOUT" by (simp add: time_inv_def)
  then show ?case by (intro time_invI[OF driver_receive.prems]) auto
next
  case (driver_lock s rq)
  then have "rq_deadline rq \<le> oy_now s + FETCH_TIMEOUT" by (simp add: time_inv_def)
  then show ?case by (intro time_invI[OF driver_lock.prems]) auto
next
  case (driver_check s rq)
  then have "rq_deadline rq \<le> oy_now s + FETCH_TIMEOUT" by (simp add: time_inv_def)
  then show ?case by (intro time_invI[OF driver_check.prems]) (auto simp: driver_check_def)
next
  case (driver_compare s rq)
  then have "rq_deadline rq \<le> oy_now s + FETCH_TIMEOUT" by (simp add: time_inv_def)
  then show ?case by (intro time_invI[OF driver_compare.prems]) (auto simp: driver_compare_def)
qed ((rule time_invI, assumption, (auto simp: caller_admit_def caller_readmit_def caller_drop_def caller_fetched_def driver_fetched_def driver_decide_def
    driver_reschedule_def clear_pending_def driver_close_def split: sum.splits option.splits)[4])+)

subsection \<open>All together\<close>

definition oauth_inv :: "nat \<Rightarrow> oauth_system \<Rightarrow> bool" where
  "oauth_inv permits s = (lock_inv s \<and> permit_inv permits s \<and> pending_inv s \<and> token_inv s \<and> time_inv s)"

lemma oauth_inv_step: "oauth_inv permits s \<Longrightarrow> oauth_step from_slice sg s t \<Longrightarrow> oauth_inv permits t"
  unfolding oauth_inv_def by (auto intro: lock_inv_step permit_inv_step pending_inv_step token_inv_step time_inv_step)

interpretation oauth: step_invariant "oauth_step from_slice sg" "oauth_inv permits"
  by unfold_locales (rule oauth_inv_step)

lemma oauth_inv_init: "oauth_inv permits (oauth_init now permits)"
  by (simp add: oauth_inv_def oauth_init_def lock_inv_def permit_inv_def service_requests_def pending_inv_def driver_busy_def cached_default_def
      token_inv_def time_inv_def)

lemma oauth_reachable: "(oauth_step from_slice sg)\<^sup>*\<^sup>* (oauth_init now permits) s \<Longrightarrow> oauth_inv permits s"
  using oauth.inv_run oauth_inv_init by blast

text \<open>
  C23. Every service token that a caller gets comes from an answer of the provider that says it is a bearer token, and is the header of that
  answer's token. Unless the caller requested it itself, more than ten seconds of its stated lifetime are left when the caller takes
  it; so a token is never reused past its expiry, and one without a stated lifetime is never reused.
\<close>

theorem service_token_trusted:
  assumes "(oauth_step from_slice sg)\<^sup>*\<^sup>* (oauth_init start permits) s" "oy_callers s i = Returned (Inr a) t own"
  shows "\<exists>r \<in> set (oy_answers s).
     ot_header (at_token a) = BEARER_PREFIX @ tr_access_token r \<and> tr_access_token r \<noteq> [] \<and>
     same_ignoring_case (tr_token_type r) (bytes_of ''bearer'') \<and>
     ot_acquired (at_token a) \<le> t \<and> t \<le> oy_now s \<and>
     (own \<or> (\<exists>lifetime. tr_expires_in r = Some lifetime \<and> t + from_secs 10 < ot_acquired (at_token a) + from_secs lifetime))"
proof -
  from oauth_reachable[OF assms(1)] have "caller_token_ok s (Returned (Inr a) t own)"
    using assms(2) token_caller[of s i] by (simp add: oauth_inv_def)
  then obtain r n n' sample where r: "r \<in> set (oy_answers s)" "into_token (ot_acquired (at_token a)) n n' sample None r = Inr (at_token a)"
    and t: "t \<le> oy_now s" "ot_acquired (at_token a) \<le> t" "\<not> own \<Longrightarrow> is_reusable (at_token a) t"
    by (auto simp: caller_token_ok_def issued_def)
  from reusable_margin[OF r(2) t(3) t(2)] into_token_ok[OF r(2)] r(1) t(1,2) show ?thesis
    unfolding REUSE_MARGIN_def by blast
qed

text \<open>
  C24. The provider is asked under control. In every interleaving of callers, driver, exchanges and drops: at most one service token request is in flight, by
  a caller or by the driver; with the exchanges there are never more than the configured number of attempts, and none of their permits is lost;
  each request has a deadline at most five seconds after its start; and while the driver lives, a refresh is marked pending exactly when one request is in the
  channel or with the driver, so that refreshes are neither lost nor doubled.
\<close>

theorem token_requests_controlled:
  assumes "(oauth_step from_slice sg)\<^sup>*\<^sup>* (oauth_init start permits) s"
  shows "(requesting (oy_callers s i) \<and> requesting (oy_callers s j) \<longrightarrow> i = j) \<and>
     \<not> (requesting (oy_callers s i) \<and> driver_requesting (oy_driver s)) \<and>
     oy_permits s + oy_exchanges s + service_requests s = permits \<and>
     (requesting (oy_callers s i) \<or> driver_requesting (oy_driver s) \<longrightarrow> service_requests s = 1) \<and>
     (oy_callers s i = Requesting deadline fetch_deadline shortened started \<longrightarrow>
        fetch_deadline \<le> started + from_secs 5 \<and> fetch_deadline \<le> deadline) \<and>
     (oy_driver s = DRequesting rq dstarted \<longrightarrow> rq_deadline rq \<le> dstarted + from_secs 5) \<and>
     (\<not> oy_closed s \<longrightarrow>
        (ca_refresh_pending (oy_cached s) \<longleftrightarrow> oy_channel s \<noteq> None \<or> driver_busy (oy_driver s)) \<and>
        \<not> (oy_channel s \<noteq> None \<and> driver_busy (oy_driver s)))"
proof -
  from oauth_reachable[OF assms] have inv: "lock_inv s" "permit_inv permits s" "pending_inv s" "time_inv s" by (auto simp: oauth_inv_def)
  have one: "i = j" if "requesting (oy_callers s i)" "requesting (oy_callers s j)"
    using lock_holder(2)[OF inv(1) requesting_holds(1)[OF that(1)], of j] requesting_holds(1)[OF that(2)] by blast
  have apart: "\<not> driver_requesting (oy_driver s)" if "requesting (oy_callers s i)"
    using lock_holder(3)[OF inv(1) requesting_holds(1)[OF that]] requesting_holds(2) by blast
  have "service_requests s = 1" if "requesting (oy_callers s i) \<or> driver_requesting (oy_driver s)"
    using that requests_caller[OF inv(1) requesting_holds(1)] requests_of_driver[OF inv(1) requesting_holds(2)] by auto
  moreover have "caller_time_ok s (oy_callers s i)" "driver_time_ok s (oy_driver s)" using inv(4) by (simp_all add: time_inv_def)
  ultimately show ?thesis using one apart inv(2,3) unfolding permit_inv_def pending_inv_def FETCH_TIMEOUT_def[symmetric] by auto
qed

text \<open>A run: one caller requests a token of an hour, and a second one, a minute later, reuses it.\<close>

definition demo_body :: bytes where "demo_body = [1]"

definition demo_slice :: "bytes \<Rightarrow> json option" where
  "demo_slice b = (if b = demo_body then
     Some (JObj [(bytes_of ''access_token'', JStr (bytes_of ''abc'')), (bytes_of ''token_type'', JStr (bytes_of ''Bearer'')),
       (bytes_of ''expires_in'', JUInt 3600)]) else None)"

definition demo_signer :: signer where "demo_signer = \<lparr>sg_client_id = ascii ''c'', sg_assertion_audience = ascii ''a''\<rparr>"

definition demo_request :: request_env where
  "demo_request = \<lparr>re_unix = Some 100, re_jti = ascii ''j'', re_encode = (\<lambda>_. Some (ascii ''s'')), re_built = True,
     re_reply = Inr \<lparr>ta_status = 200, ta_content_type = None, ta_body = demo_body\<rparr>, re_now = from_secs 100, re_now' = from_secs 100,
     re_sample = None\<rparr>"

definition demo_response :: token_response where
  "demo_response = \<lparr>tr_access_token = bytes_of ''abc'', tr_token_type = bytes_of ''Bearer'', tr_expires_in = Some 3600, tr_issued_token_type = None\<rparr>"

definition demo_token :: oauth_token where
  "demo_token = \<lparr>ot_header = bytes_of ''Bearer abc'', ot_acquired = from_secs 100, ot_reuse_until = Some (from_secs 3690),
     ot_refresh_after = Some (from_secs 3390)\<rparr>"

definition demo_state :: "instant \<Rightarrow> holder option \<Rightarrow> nat \<Rightarrow> caller \<Rightarrow> caller \<Rightarrow> bool \<Rightarrow> oauth_system" where
  "demo_state now l permits c d full =
     \<lparr>oy_now = now,
      oy_cached = (if full then \<lparr>ca_token = Some \<lparr>at_address = 0, at_token = demo_token\<rparr>, ca_refresh_after = Some (from_secs 3390),
         ca_failure = None, ca_refresh_pending = False\<rparr> else cached_default),
      oy_lock = l, oy_channel = None, oy_closed = False, oy_permits = permits, oy_exchanges = 0,
      oy_callers = (\<lambda>i. if i = 0 then c else if i = 1 then d else NotStarted), oy_driver = DIdle, oy_fresh = (if full then 1 else 0),
      oy_answers = (case c of Deciding _ _ _ \<Rightarrow> [demo_response] | Returned _ _ _ \<Rightarrow> [demo_response] | _ \<Rightarrow> [])\<rparr>"

lemma demo_goto:
  "goto (Suc 0) d' (demo_state now l permits c d full) = demo_state now l permits c d' full"
  "(demo_state now l permits c d full)\<lparr>oy_now := now'\<rparr> = demo_state now' l permits c d full"
  by (auto simp: goto_def demo_state_def fun_eq_iff)

lemma demo_goto_first:
  "\<forall>d b r. c \<noteq> Deciding d b r \<Longrightarrow> \<forall>r n b. c \<noteq> Returned r n b \<Longrightarrow> \<forall>d b r. c' \<noteq> Deciding d b r \<Longrightarrow> \<forall>r n b. c' \<noteq> Returned r n b \<Longrightarrow>
     goto 0 c' (demo_state now l permits c d full) = demo_state now l permits c' d full"
  "(demo_state now l permits c d full)\<lparr>oy_lock := l'\<rparr> = demo_state now l' permits c d full"
  "(demo_state now l permits c d full)\<lparr>oy_permits := permits'\<rparr> = demo_state now l permits' c d full"
  by (auto simp: goto_def demo_state_def fun_eq_iff split: caller.splits)

lemma demo_fields [simp]:
  "oy_now (demo_state now l permits c d full) = now" "oy_lock (demo_state now l permits c d full) = l" "oy_permits (demo_state now l permits c d full) = permits"
  "oy_callers (demo_state now l permits c d full) 0 = c" "oy_callers (demo_state now l permits c d full) (Suc 0) = d"
  "oy_closed (demo_state now l permits c d full) = False"
  by (simp_all add: demo_state_def)

lemma demo_init: "oauth_init now 1 = demo_state now None 1 NotStarted NotStarted False"
  by (simp add: oauth_init_def demo_state_def fun_eq_iff)

lemma demo_look_empty: "look None (demo_state now l permits c d False) = (None, demo_state now l permits c d False)"
  by (simp add: look_def demo_state_def reusable_service_token_def cached_default_def)

lemma demo_look_full:
  "look None (demo_state (from_secs 160) l permits c d True) = (Some \<lparr>at_address = 0, at_token = demo_token\<rparr>, demo_state (from_secs 160) l permits c d True)"
  by (simp add: look_def demo_state_def reusable_service_token_def demo_token_def is_reusable_def refresh_due_def time_units)

lemma demo_answer: "answers_of demo_slice (Some demo_request) = [demo_response]"
  by (simp add: answers_of_def demo_request_def post_form_def read_answer_def demo_slice_def as_token_response_def struct_member_def
      required_field_def optional_field_def demo_response_def okay_or_def Let_def bytes_of_def)

lemma demo_fetched: "fetched_token demo_slice demo_signer (from_secs 105) (from_secs 100) (from_secs 100) (Some demo_request) = Inr demo_token"
proof -
  have "post_form demo_slice True (re_reply demo_request) = Inr demo_response"
    using demo_answer by (simp add: answers_of_def demo_request_def split: sum.splits)
  moreover have "into_token (from_secs 100) (from_secs 100) (from_secs 100) None None demo_response = Inr demo_token"
    by (simp add: into_token_def demo_response_def demo_token_def same_ignoring_case_def lower_byte_def bytes_of_def BEARER_PREFIX_def header_byte_def
        reuse_cutoff_def instant_checked_add_def instant_checked_sub_def instant_max_def REUSE_MARGIN_def refresh_time_def REFRESH_AHEAD_def duration_since_def
        refresh_spread_def time_units Let_def ensured_def)
  ultimately show ?thesis
    by (simp add: fetched_token_def request_client_credentials_def demo_request_def sign_def okay_or_def time_units)
qed

text \<open>The steps of the run, in their order.\<close>

lemma demo_first_steps:
  "oauth_step demo_slice demo_signer (demo_state (from_secs 100) None 1 NotStarted NotStarted False)
     (demo_state (from_secs 100) None 1 (Admitting (from_secs 200)) NotStarted False)"
  "oauth_step demo_slice demo_signer (demo_state (from_secs 100) None 1 (Admitting (from_secs 200)) NotStarted False)
     (demo_state (from_secs 100) None 1 (Looking (from_secs 200)) NotStarted False)"
  "oauth_step demo_slice demo_signer (demo_state (from_secs 100) None 1 (Looking (from_secs 200)) NotStarted False)
     (demo_state (from_secs 100) None 1 (Locking (from_secs 200)) NotStarted False)"
  "oauth_step demo_slice demo_signer (demo_state (from_secs 100) None 1 (Locking (from_secs 200)) NotStarted False)
     (demo_state (from_secs 100) (Some (ByCaller 0)) 1 (Readmitting (from_secs 200)) NotStarted False)"
  "oauth_step demo_slice demo_signer (demo_state (from_secs 100) (Some (ByCaller 0)) 1 (Readmitting (from_secs 200)) NotStarted False)
     (demo_state (from_secs 100) (Some (ByCaller 0)) 1 (Relooking (from_secs 200)) NotStarted False)"
  "oauth_step demo_slice demo_signer (demo_state (from_secs 100) (Some (ByCaller 0)) 1 (Relooking (from_secs 200)) NotStarted False)
     (demo_state (from_secs 100) (Some (ByCaller 0)) 1 (Judging (from_secs 200) (from_secs 100)) NotStarted False)"
proof -
  let ?s = "\<lambda>l c. demo_state (from_secs 100) l 1 c NotStarted False" and ?d = "from_secs 200" and ?h = "Some (ByCaller 0)"
  note run = demo_goto demo_goto_first demo_look_empty check_admission_def check_lifecycle_def time_units
  show "oauth_step demo_slice demo_signer (?s None NotStarted) (?s None (Admitting ?d))"
    using oauth_step.begin_call[of "?s None NotStarted" 0 demo_slice demo_signer ?d] by (simp add: run)
  show "oauth_step demo_slice demo_signer (?s None (Admitting ?d)) (?s None (Looking ?d))"
    using oauth_step.admit[of "?s None (Admitting ?d)" 0 ?d "from_secs 100" demo_slice demo_signer] by (simp add: caller_admit_def run)
  show "oauth_step demo_slice demo_signer (?s None (Looking ?d)) (?s None (Locking ?d))"
    using oauth_step.first_look[of "?s None (Looking ?d)" 0 ?d demo_slice demo_signer None] by (simp add: caller_look_def run)
  show "oauth_step demo_slice demo_signer (?s None (Locking ?d)) (?s ?h (Readmitting ?d))"
    using oauth_step.lock[of "?s None (Locking ?d)" 0 ?d demo_slice demo_signer] by (simp add: run)
  show "oauth_step demo_slice demo_signer (?s ?h (Readmitting ?d)) (?s ?h (Relooking ?d))"
    using oauth_step.readmit[of "?s ?h (Readmitting ?d)" 0 ?d "from_secs 100" demo_slice demo_signer] by (simp add: caller_readmit_def run)
  show "oauth_step demo_slice demo_signer (?s ?h (Relooking ?d)) (?s ?h (Judging ?d (from_secs 100)))"
    using oauth_step.relook[of "?s ?h (Relooking ?d)" 0 ?d demo_slice demo_signer None] by (simp add: caller_relook_def run)
qed

definition demo_arc :: arc_token where "demo_arc = \<lparr>at_address = 0, at_token = demo_token\<rparr>"

lemma demo_request_steps:
  "oauth_step demo_slice demo_signer (demo_state (from_secs 100) (Some (ByCaller 0)) 1 (Judging (from_secs 200) (from_secs 100)) NotStarted False)
     (demo_state (from_secs 100) (Some (ByCaller 0)) 1 (Attempting (from_secs 200) (from_secs 105) False) NotStarted False)"
  "oauth_step demo_slice demo_signer (demo_state (from_secs 100) (Some (ByCaller 0)) 1 (Attempting (from_secs 200) (from_secs 105) False) NotStarted False)
     (demo_state (from_secs 100) (Some (ByCaller 0)) 0 (Requesting (from_secs 200) (from_secs 105) False (from_secs 100)) NotStarted False)"
  "oauth_step demo_slice demo_signer
     (demo_state (from_secs 100) (Some (ByCaller 0)) 0 (Requesting (from_secs 200) (from_secs 105) False (from_secs 100)) NotStarted False)
     (demo_state (from_secs 100) (Some (ByCaller 0)) 1 (Deciding (from_secs 200) False (Inr demo_token)) NotStarted False)"
  "oauth_step demo_slice demo_signer (demo_state (from_secs 100) (Some (ByCaller 0)) 1 (Deciding (from_secs 200) False (Inr demo_token)) NotStarted False)
     (demo_state (from_secs 100) None 1 (Returned (Inr demo_arc) (from_secs 100) True) NotStarted True)"
proof -
  let ?s = "\<lambda>l n c. demo_state (from_secs 100) l n c NotStarted False" and ?d = "from_secs 200" and ?f = "from_secs 105" and ?h = "Some (ByCaller 0)"
  have empty: "oy_cached (demo_state now l n c d False) = cached_default" for now l n c d by (simp add: demo_state_def)
  show "oauth_step demo_slice demo_signer (?s ?h 1 (Judging ?d (from_secs 100))) (?s ?h 1 (Attempting ?d ?f False))"
    using oauth_step.judge[of "?s ?h 1 (Judging ?d (from_secs 100))" 0 ?d "from_secs 100" demo_slice demo_signer]
    by (simp add: caller_judge_def empty completed_failure_def cached_default_def demo_goto_first FETCH_TIMEOUT_def time_units)
  show "oauth_step demo_slice demo_signer (?s ?h 1 (Attempting ?d ?f False)) (?s ?h 0 (Requesting ?d ?f False (from_secs 100)))"
    using oauth_step.attempt[of "?s ?h 1 (Attempting ?d ?f False)" 0 ?d ?f False "from_secs 100" "from_secs 100" demo_slice demo_signer]
    by (simp add: caller_attempt_def admit_attempt_def demo_goto demo_goto_first time_units)
  show "oauth_step demo_slice demo_signer (?s ?h 0 (Requesting ?d ?f False (from_secs 100))) (?s ?h 1 (Deciding ?d False (Inr demo_token)))"
    using oauth_step.fetch_end[of "?s ?h 0 (Requesting ?d ?f False (from_secs 100))" 0 ?d ?f False "from_secs 100" "Some demo_request" demo_slice demo_signer]
    by (simp add: caller_fetched_def demo_fetched demo_answer env_ok_def)
      (simp add: demo_request_def demo_state_def goto_def fun_upd_def cong: if_cong)
  show "oauth_step demo_slice demo_signer (?s ?h 1 (Deciding ?d False (Inr demo_token))) (demo_state (from_secs 100) None 1 (Returned (Inr demo_arc) (from_secs 100) True) NotStarted True)"
    using oauth_step.decide[of "?s ?h 1 (Deciding ?d False (Inr demo_token))" 0 ?d False "Inr demo_token" demo_slice demo_signer]
    by (simp add: caller_decide_def empty)
      (simp add: demo_arc_def demo_state_def goto_def release_def store_service_token_def is_reusable_def demo_token_def cached_default_def Let_def time_units fun_upd_def cong: if_cong)
qed

lemma demo_reuse_steps:
  "oauth_step demo_slice demo_signer (demo_state (from_secs 100) None 1 (Returned (Inr demo_arc) (from_secs 100) True) NotStarted True)
     (demo_state (from_secs 160) None 1 (Returned (Inr demo_arc) (from_secs 100) True) NotStarted True)"
  "oauth_step demo_slice demo_signer (demo_state (from_secs 160) None 1 (Returned (Inr demo_arc) (from_secs 100) True) NotStarted True)
     (demo_state (from_secs 160) None 1 (Returned (Inr demo_arc) (from_secs 100) True) (Admitting (from_secs 200)) True)"
  "oauth_step demo_slice demo_signer (demo_state (from_secs 160) None 1 (Returned (Inr demo_arc) (from_secs 100) True) (Admitting (from_secs 200)) True)
     (demo_state (from_secs 160) None 1 (Returned (Inr demo_arc) (from_secs 100) True) (Looking (from_secs 200)) True)"
  "oauth_step demo_slice demo_signer (demo_state (from_secs 160) None 1 (Returned (Inr demo_arc) (from_secs 100) True) (Looking (from_secs 200)) True)
     (demo_state (from_secs 160) None 1 (Returned (Inr demo_arc) (from_secs 100) True) (Returned (Inr demo_arc) (from_secs 160) False) True)"
proof -
  let ?s = "\<lambda>n c. demo_state n None 1 (Returned (Inr demo_arc) (from_secs 100) True) c True" and ?d = "from_secs 200"
  note run = demo_goto check_admission_def check_lifecycle_def time_units
  show "oauth_step demo_slice demo_signer (?s (from_secs 100) NotStarted) (?s (from_secs 160) NotStarted)"
    using oauth_step.tick[of "?s (from_secs 100) NotStarted" "from_secs 160" demo_slice demo_signer] by (simp add: run)
  show "oauth_step demo_slice demo_signer (?s (from_secs 160) NotStarted) (?s (from_secs 160) (Admitting ?d))"
    using oauth_step.begin_call[of "?s (from_secs 160) NotStarted" 1 demo_slice demo_signer ?d] by (simp add: run)
  show "oauth_step demo_slice demo_signer (?s (from_secs 160) (Admitting ?d)) (?s (from_secs 160) (Looking ?d))"
    using oauth_step.admit[of "?s (from_secs 160) (Admitting ?d)" 1 ?d "from_secs 160" demo_slice demo_signer] by (simp add: caller_admit_def run)
  show "oauth_step demo_slice demo_signer (?s (from_secs 160) (Looking ?d)) (?s (from_secs 160) (Returned (Inr demo_arc) (from_secs 160) False))"
    using oauth_step.first_look[of "?s (from_secs 160) (Looking ?d)" 1 ?d demo_slice demo_signer None]
    by (simp add: caller_look_def demo_look_full demo_goto demo_arc_def)
qed

lemmas demo_run = demo_first_steps demo_request_steps demo_reuse_steps

text \<open>The run up to the request, and to the reuse.\<close>

lemma demo_requesting_run:
  "(oauth_step demo_slice demo_signer)\<^sup>*\<^sup>* (oauth_init (from_secs 100) 1)
     (demo_state (from_secs 100) (Some (ByCaller 0)) 0 (Requesting (from_secs 200) (from_secs 105) False (from_secs 100)) NotStarted False)"
  unfolding demo_init by (rule converse_rtranclp_into_rtranclp demo_run rtranclp.rtrancl_refl)+

lemma demo_reuse_run:
  "(oauth_step demo_slice demo_signer)\<^sup>*\<^sup>* (oauth_init (from_secs 100) 1)
     (demo_state (from_secs 160) None 1 (Returned (Inr demo_arc) (from_secs 100) True) (Returned (Inr demo_arc) (from_secs 160) False) True)"
  using demo_requesting_run by (rule rtranclp_trans) (rule converse_rtranclp_into_rtranclp demo_run rtranclp.rtrancl_refl)+

theorem service_token_trusted_witness:
  "\<exists>r lifetime. r \<in> set (oy_answers (demo_state (from_secs 160) None 1 (Returned (Inr demo_arc) (from_secs 100) True)
       (Returned (Inr demo_arc) (from_secs 160) False) True)) \<and>
     ot_header (at_token demo_arc) = BEARER_PREFIX @ tr_access_token r \<and> tr_expires_in r = Some lifetime \<and>
     from_secs 160 + from_secs 10 < ot_acquired (at_token demo_arc) + from_secs lifetime"
proof -
  let ?s = "demo_state (from_secs 160) None 1 (Returned (Inr demo_arc) (from_secs 100) True) (Returned (Inr demo_arc) (from_secs 160) False) True"
  have "oy_callers ?s 1 = Returned (Inr demo_arc) (from_secs 160) False" by simp
  from service_token_trusted[OF demo_reuse_run this] show ?thesis by blast
qed

theorem token_requests_controlled_witness:
  "service_requests (demo_state (from_secs 100) (Some (ByCaller 0)) 0 (Requesting (from_secs 200) (from_secs 105) False (from_secs 100)) NotStarted False) = 1 \<and>
   from_secs 105 \<le> from_secs 100 + from_secs 5"
proof -
  let ?c = "Requesting (from_secs 200) (from_secs 105) False (from_secs 100)"
  have "oy_callers (demo_state (from_secs 100) (Some (ByCaller 0)) 0 ?c NotStarted False) 0 = ?c" by simp
  with token_requests_controlled[OF demo_requesting_run, of 0 0 "from_secs 200" "from_secs 105" False "from_secs 100"] show ?thesis by simp
qed

end
