(* ===== verification/OauthClient.thy ===== *)
theory OauthClient
  imports OauthCache
begin

text \<open>
  \<open>crates/infra-oauth2-client-credentials/src/lib.rs\<close>, tokens exchanged for a subject and the authenticated client, and the mapping of failures
  in \<open>grpc.rs\<close>.

  The cache of exchanged tokens is another package: a look under a key answers an entry, which it says is fresh or not, or
  the failure of the shared initializer. What the client relies on is that an entry under a key was returned by an initializer for a
  subject with that key. The digest of a subject's text and the provider, as the answers it may give to a form, are parameters. A wait is the
  list of what its polls find. The acquisition of a service token is the caller of \<open>OauthCache\<close>.
\<close>

subsection \<open>Exchanged tokens\<close>

text \<open>\<open>reply\<close> is what the token client returns for the form that is sent.\<close>

definition request_token_exchange ::
  "(bytes \<Rightarrow> json option) \<Rightarrow> signer \<Rightarrow> ustr list \<Rightarrow> ustr option \<Rightarrow> (form \<Rightarrow> string http_error + token_answer) \<Rightarrow> ustr \<Rightarrow> instant \<Rightarrow> request_env
   \<Rightarrow> acquisition_error + oauth_token" where
  "request_token_exchange from_slice sg scopes audience reply subject started env =
     bind_result (sign (re_encode env) sg (re_unix env) (re_jti env)) (\<lambda>assertion.
     bind_result (post_form from_slice (re_built env) (reply (token_exchange_form sg scopes audience subject assertion))) (\<lambda>r.
     into_token started (re_now env) (re_now' env) (re_sample env) (Some TOKEN_TYPE_ACCESS_TOKEN) r))"

text \<open>The initializer of an entry: the permit, then the request.\<close>

definition fetch_exchange ::
  "(bytes \<Rightarrow> json option) \<Rightarrow> signer \<Rightarrow> ustr list \<Rightarrow> ustr option \<Rightarrow> (form \<Rightarrow> string http_error + token_answer) \<Rightarrow> ustr
   \<Rightarrow> instant \<Rightarrow> instant \<Rightarrow> instant \<Rightarrow> nat \<Rightarrow> request_env \<Rightarrow> acquisition_error + oauth_token" where
  "fetch_exchange from_slice sg scopes audience reply subject started now deadline permits env =
     bind_result (admit_attempt now deadline permits) (\<lambda>_. request_token_exchange from_slice sg scopes audience reply subject started env)"

datatype entry_answer = EntryTimeout | EntryError acquisition_error | Entry arc_token bool

record exchange_turn =
  xt_now :: instant
  xt_now' :: instant
  xt_closed :: bool
  xt_entry :: "bytes \<Rightarrow> entry_answer option"
  xt_after :: instant

definition exchanged_or_fetch :: "entry_answer \<Rightarrow> acquisition_error + (arc_token \<times> bool)" where
  "exchanged_or_fetch a =
     (case a of EntryTimeout \<Rightarrow> Inl AcqTimeout | EntryError e \<Rightarrow> Inl e | Entry t fresh \<Rightarrow> Inr (t, fresh))"

text \<open>
  \<open>exchange\<close> under the subject's key. An entry that is neither fresh nor reusable is forgotten, and the next turn is what the cache answers
  after that.
\<close>

fun exchange_subject :: "instant \<Rightarrow> bytes \<Rightarrow> exchange_turn list \<Rightarrow> (acquisition_error + arc_token) option" where
  "exchange_subject deadline key [] = None"
| "exchange_subject deadline key (x # xs) =
     (case check_admission (xt_now x) (xt_now' x) (xt_closed x) deadline of
        Inl e \<Rightarrow> Some (Inl e)
      | Inr _ \<Rightarrow>
          (case xt_entry x key of
             None \<Rightarrow> None
           | Some a \<Rightarrow>
               (case exchanged_or_fetch a of
                  Inl e \<Rightarrow> Some (Inl e)
                | Inr (t, fresh) \<Rightarrow>
                    if fresh \<or> is_reusable (at_token t) (xt_after x) then Some (Inr t) else exchange_subject deadline key xs)))"

text \<open>The entry of a key after a resource refused the token that was used.\<close>

definition forget_exchanged :: "arc_token \<Rightarrow> arc_token option \<Rightarrow> arc_token option" where
  "forget_exchanged used current =
     (case current of Some t \<Rightarrow> if at_address t = at_address used then None else Some t | None \<Rightarrow> None)"

definition reject_exchanged :: "instant \<Rightarrow> arc_token \<Rightarrow> arc_token option \<Rightarrow> arc_token option" where
  "reject_exchanged now used current = (if is_evictable (at_token used) now then forget_exchanged used current else current)"

text \<open>The two caches of an owner of credentials.\<close>

record token_caches =
  tc_cached :: cached
  tc_exchanged :: "bytes \<Rightarrow> arc_token option"

subsection \<open>Authorization of a request\<close>

definition acquisition_stopped :: "stopped_reason \<Rightarrow> acquisition_error" where
  "acquisition_stopped why = (case why of DeadlineStop \<Rightarrow> AcqTimeout | CancelledStop \<Rightarrow> AcqUnavailable)"

definition acquisition_deadline :: "instant option \<Rightarrow> instant \<Rightarrow> instant" where
  "acquisition_deadline cutoff now = (case cutoff of Some d \<Rightarrow> d | None \<Rightarrow> now + FETCH_TIMEOUT)"

datatype acquired = ServiceToken arc_token | ExchangedToken bytes arc_token

fun acquired_token :: "acquired \<Rightarrow> arc_token" where
  "acquired_token (ServiceToken t) = t"
| "acquired_token (ExchangedToken key t) = t"

definition reject_acquired :: "instant \<Rightarrow> acquired \<Rightarrow> token_caches \<Rightarrow> token_caches" where
  "reject_acquired now a caches =
     (case a of
        ServiceToken t \<Rightarrow> caches\<lparr>tc_cached := reject_service_token now t (tc_cached caches)\<rparr>
      | ExchangedToken key t \<Rightarrow>
          caches\<lparr>tc_exchanged := (tc_exchanged caches)(key := reject_exchanged now t (tc_exchanged caches key))\<rparr>)"

text \<open>A biased \<open>select!\<close> of the end of a scope and a future.\<close>

fun race_scope :: "(stopped_reason option \<times> 'a option) list \<Rightarrow> (stopped_reason + 'a) option" where
  "race_scope [] = None"
| "race_scope ((Some why, _) # _) = Some (Inl why)"
| "race_scope ((None, Some x) # _) = Some (Inr x)"
| "race_scope ((None, None) # rest) = race_scope rest"

definition AUTHORIZATION :: string where "AUTHORIZATION = ''authorization''"

type_synonym headers = "(string \<times> bytes) list"

record authorize_env =
  az_first :: "stopped_reason option"
  az_cutoff :: "instant option"
  az_now :: instant
  az_now' :: instant
  az_now'' :: instant
  az_closed :: bool
  az_exchange :: "exchange_turn list"
  az_service :: "instant \<Rightarrow> (acquisition_error + arc_token) option"
  az_polls :: "(stopped_reason option \<times> bool) list"
  az_last :: "stopped_reason option"

text \<open>
  The acquisition inside \<open>authorize\<close>: an exchange under the subject's key when the request acts for one, the service token otherwise.
  \<open>az_service\<close> is what \<open>service_token\<close> returns for a deadline. The polls say whether the scope stopped and whether the acquisition is ready.
\<close>

definition acquire ::
  "(ustr \<Rightarrow> bytes) \<Rightarrow> ustr option \<Rightarrow> instant \<Rightarrow> authorize_env \<Rightarrow> (acquisition_error + acquired) option" where
  "acquire digest on_behalf_of deadline env =
     (case on_behalf_of of
        Some subject \<Rightarrow>
          (let key = digest subject
           in map_option (map_sum id (ExchangedToken key)) (exchange_subject deadline key (az_exchange env)))
      | None \<Rightarrow> map_option (map_sum id ServiceToken) (az_service env deadline))"

definition authorize ::
  "(ustr \<Rightarrow> bytes) \<Rightarrow> ustr option \<Rightarrow> authorize_env \<Rightarrow> headers \<Rightarrow> (acquisition_error + (acquired \<times> headers)) option" where
  "authorize digest on_behalf_of env hs =
     (case az_first env of
        Some why \<Rightarrow> Some (Inl (acquisition_stopped why))
      | None \<Rightarrow>
          (let deadline = acquisition_deadline (az_cutoff env) (az_now env)
           in case check_admission (az_now' env) (az_now'' env) (az_closed env) deadline of
             Inl e \<Rightarrow> Some (Inl e)
           | Inr _ \<Rightarrow>
               (case race_scope (map (\<lambda>(why, ready). (why, if ready then acquire digest on_behalf_of deadline env else None)) (az_polls env)) of
                  None \<Rightarrow> None
                | Some (Inl why) \<Rightarrow> Some (Inl (acquisition_stopped why))
                | Some (Inr (Inl e)) \<Rightarrow> Some (Inl e)
                | Some (Inr (Inr a)) \<Rightarrow>
                    (case az_last env of
                       Some why \<Rightarrow> Some (Inl (acquisition_stopped why))
                     | None \<Rightarrow> Some (Inr (a, insert_header AUTHORIZATION (ot_header (at_token (acquired_token a))) hs))))))"

subsection \<open>The authenticated client\<close>

datatype 's client_error = AuthorizationConflict | SubjectRequired | Acquisition acquisition_error | Resource "'s http_error"

record outbound_request =
  or_headers :: headers
  or_on_behalf_of :: "ustr option"

record 'r client_env =
  cl_now :: instant
  cl_lifecycle_now :: instant
  cl_closed :: bool
  cl_request_first :: "stopped_reason option"
  cl_authorize :: authorize_env
  cl_request_polls :: "(stopped_reason option \<times> bool) list"
  cl_request_last :: "stopped_reason option"
  cl_response :: "(string http_error + (nat \<times> 'r)) option"
  cl_caches :: token_caches
  cl_reject_now :: instant

text \<open>
  What a call did: the request that was dispatched, the token it used, the result, absent when the caller dropped the call, and what
  it left of the caches, which hold \<open>cl_caches\<close> when the response is there. The polls under the scope of the request say whether it
  stopped and whether \<open>authorize\<close> is ready.
\<close>

record 'r client_outcome =
  co_dispatched :: "outbound_request option"
  co_used :: "acquired option"
  co_caches :: token_caches
  co_result :: "(string client_error + (nat \<times> 'r)) option"

definition refused_call :: "token_caches \<Rightarrow> (string client_error + (nat \<times> 'r)) option \<Rightarrow> 'r client_outcome" where
  "refused_call caches r = \<lparr>co_dispatched = None, co_used = None, co_caches = caches, co_result = r\<rparr>"

definition dispatch_call :: "'r client_env \<Rightarrow> (acquired \<times> headers) \<Rightarrow> 'r client_outcome" where
  "dispatch_call env a =
     \<lparr>co_dispatched = Some \<lparr>or_headers = snd a, or_on_behalf_of = None\<rparr>, co_used = Some (fst a),
      co_caches =
        (case cl_response env of
           Some (Inr (status, _)) \<Rightarrow> if status = 401 then reject_acquired (cl_reject_now env) (fst a) (cl_caches env) else cl_caches env
         | _ \<Rightarrow> cl_caches env),
      co_result = map_option (map_sum Resource id) (cl_response env)\<rparr>"

definition execute_authenticated ::
  "(ustr \<Rightarrow> bytes) \<Rightarrow> bool \<Rightarrow> 'r client_env \<Rightarrow> outbound_request \<Rightarrow> 'r client_outcome" where
  "execute_authenticated digest subject_required env req =
     (case check_lifecycle (cl_lifecycle_now env) (cl_closed env) (acquisition_deadline (az_cutoff (cl_authorize env)) (cl_now env)) of
        Inl e \<Rightarrow> refused_call (cl_caches env) (Some (Inl (Acquisition e)))
      | Inr _ \<Rightarrow>
          if get_all AUTHORIZATION (or_headers req) \<noteq> [] then refused_call (cl_caches env) (Some (Inl AuthorizationConflict))
          else if subject_required \<and> or_on_behalf_of req = None then refused_call (cl_caches env) (Some (Inl SubjectRequired))
          else case cl_request_first env of
            Some why \<Rightarrow> refused_call (cl_caches env) (Some (Inl (Acquisition (acquisition_stopped why))))
          | None \<Rightarrow>
              (case race_scope (map (\<lambda>(why, ready). (why, if ready then authorize digest (or_on_behalf_of req) (cl_authorize env) (or_headers req) else None))
                      (cl_request_polls env)) of
                 None \<Rightarrow> refused_call (cl_caches env) None
               | Some (Inl why) \<Rightarrow> refused_call (cl_caches env) (Some (Inl (Acquisition (acquisition_stopped why))))
               | Some (Inr (Inl e)) \<Rightarrow> refused_call (cl_caches env) (Some (Inl (Acquisition e)))
               | Some (Inr (Inr a)) \<Rightarrow>
                   (case cl_request_last env of
                      Some why \<Rightarrow> refused_call (cl_caches env) (Some (Inl (Acquisition (acquisition_stopped why))))
                    | None \<Rightarrow> dispatch_call env a)))"

subsection \<open>gRPC\<close>

datatype grpc_code = DeadlineExceeded | GrpcUnavailable | GrpcUnauthenticated

definition acquisition_status :: "acquisition_error \<Rightarrow> grpc_code" where
  "acquisition_status e =
     (case e of
        AcqTimeout \<Rightarrow> DeadlineExceeded
      | AcqTransport \<Rightarrow> GrpcUnavailable
      | AcqUnavailable \<Rightarrow> GrpcUnavailable
      | AcqAtCapacity \<Rightarrow> GrpcUnavailable
      | _ \<Rightarrow> GrpcUnauthenticated)"

text \<open>\<open>Code::from_bytes\<close> reads the code 16.\<close>

definition unauthenticated :: "nat \<Rightarrow> bytes option \<Rightarrow> bool" where
  "unauthenticated http_status grpc_status =
     (case grpc_status of Some v \<Rightarrow> v = bytes_of ''16'' | None \<Rightarrow> http_status = 401)"

subsection \<open>What a dispatched request carries\<close>

lemma race_scope_Inr: "race_scope ps = Some (Inr x) \<Longrightarrow> \<exists>p \<in> set ps. snd p = Some x"
  by (induction ps rule: race_scope.induct) auto

lemma insert_header_get: "get_all n (insert_header n v hs) = [v]"
  by (simp add: insert_header_def get_all_def remove_header_def)

lemma insert_header_other: "m \<noteq> n \<Longrightarrow> get_all m (insert_header n v hs) = get_all m hs"
  using get_all_removed[of m n hs] by (simp add: insert_header_def get_all_def)

lemma authorize_ok:
  assumes "authorize digest obo env hs = Some (Inr (a, hs'))"
  shows "acquire digest obo (acquisition_deadline (az_cutoff env) (az_now env)) env = Some (Inr a)"
    "hs' = insert_header AUTHORIZATION (ot_header (at_token (acquired_token a))) hs"
proof -
  let ?f = "\<lambda>(why, ready). (why, if ready then acquire digest obo (acquisition_deadline (az_cutoff env) (az_now env)) env else None)"
  from assms have won: "race_scope (map ?f (az_polls env)) = Some (Inr (Inr a))"
    and "hs' = insert_header AUTHORIZATION (ot_header (at_token (acquired_token a))) hs"
    by (auto simp: authorize_def Let_def split: option.splits sum.splits)
  moreover from race_scope_Inr[OF won] have "acquire digest obo (acquisition_deadline (az_cutoff env) (az_now env)) env = Some (Inr a)"
    by (auto split: if_splits)
  ultimately show "acquire digest obo (acquisition_deadline (az_cutoff env) (az_now env)) env = Some (Inr a)"
    "hs' = insert_header AUTHORIZATION (ot_header (at_token (acquired_token a))) hs" by blast+
qed

lemma acquire_ok:
  assumes "acquire digest obo deadline env = Some (Inr a)"
  obtains t where "obo = None" "a = ServiceToken t" "az_service env deadline = Some (Inr t)"
  | subject t where "obo = Some subject" "a = ExchangedToken (digest subject) t"
      "exchange_subject deadline (digest subject) (az_exchange env) = Some (Inr t)"
proof (cases obo)
  case None
  with assms obtain x where "az_service env deadline = Some x" "map_sum id ServiceToken x = Inr a" by (auto simp: acquire_def)
  with None that(1) show ?thesis by (cases x) auto
next
  case (Some subject)
  with assms obtain x where "exchange_subject deadline (digest subject) (az_exchange env) = Some x"
    "map_sum id (ExchangedToken (digest subject)) x = Inr a" by (auto simp: acquire_def Let_def)
  with Some that(2) show ?thesis by (cases x) auto
qed

text \<open>A token exchanged for a subject is the caller's own or has reuse left when it is taken.\<close>

lemma exchange_subject_ok:
  "exchange_subject deadline key xs = Some (Inr t) \<Longrightarrow>
     \<exists>x \<in> set xs. \<exists>fresh. xt_entry x key = Some (Entry t fresh) \<and> (fresh \<or> is_reusable (at_token t) (xt_after x)) \<and> xt_now x < deadline \<and> \<not> xt_closed x"
  by (induction xs)
    (auto simp: exchanged_or_fetch_def check_admission_def check_lifecycle_def split: sum.splits option.splits entry_answer.splits if_splits)

text \<open>
  An initializer for a subject returned this token, with replies that the provider gave to the forms it got. The cache of
  exchanged tokens answers for a key only what initializers for subjects with that key returned.
\<close>

definition exchanged_for ::
  "(form \<Rightarrow> token_answer \<Rightarrow> bool) \<Rightarrow> (bytes \<Rightarrow> json option) \<Rightarrow> signer \<Rightarrow> ustr list \<Rightarrow> ustr option \<Rightarrow> ustr \<Rightarrow> oauth_token \<Rightarrow> bool" where
  "exchanged_for provider from_slice sg scopes audience subject t \<longleftrightarrow>
     (\<exists>reply started now deadline permits env. (\<forall>f a. reply f = Inr a \<longrightarrow> provider f a) \<and>
        fetch_exchange from_slice sg scopes audience reply subject started now deadline permits env = Inr t)"

definition entries_ok ::
  "(form \<Rightarrow> token_answer \<Rightarrow> bool) \<Rightarrow> (bytes \<Rightarrow> json option) \<Rightarrow> signer \<Rightarrow> ustr list \<Rightarrow> ustr option \<Rightarrow> (ustr \<Rightarrow> bytes) \<Rightarrow> exchange_turn \<Rightarrow> bool" where
  "entries_ok provider from_slice sg scopes audience digest x \<longleftrightarrow>
     (\<forall>key t fresh. xt_entry x key = Some (Entry t fresh) \<longrightarrow>
        (\<exists>subject. digest subject = key \<and> exchanged_for provider from_slice sg scopes audience subject (at_token t)))"

text \<open>A service token is what a caller of the shared cache got.\<close>

definition service_ok :: "(bytes \<Rightarrow> json option) \<Rightarrow> signer \<Rightarrow> (instant \<Rightarrow> (acquisition_error + arc_token) option) \<Rightarrow> bool" where
  "service_ok from_slice sg service \<longleftrightarrow>
     (\<forall>deadline r. service deadline = Some r \<longrightarrow>
        (\<exists>start permits s i taken own. (oauth_step from_slice sg)\<^sup>*\<^sup>* (oauth_init start permits) s \<and>
           oy_callers s i = caller.Returned r taken own))"

text \<open>
  An initializer only returns a token that the provider issued as an access token, in answer to the exchange form with this subject.
\<close>

definition exchange_answered ::
  "(form \<Rightarrow> token_answer \<Rightarrow> bool) \<Rightarrow> (bytes \<Rightarrow> json option) \<Rightarrow> signer \<Rightarrow> ustr list \<Rightarrow> ustr option \<Rightarrow> ustr \<Rightarrow> bytes \<Rightarrow> bool" where
  "exchange_answered provider from_slice sg scopes audience subject header \<longleftrightarrow>
     (\<exists>assertion a r. provider (token_exchange_form sg scopes audience subject assertion) a \<and> read_answer from_slice a = Inr r \<and>
        tr_issued_token_type r = Some (bytes_of TOKEN_TYPE_ACCESS_TOKEN) \<and> header = BEARER_PREFIX @ tr_access_token r)"

lemma exchanged_for_answered:
  assumes "exchanged_for provider from_slice sg scopes audience subject t"
  shows "exchange_answered provider from_slice sg scopes audience subject (ot_header t)"
proof -
  from assms obtain reply :: "form \<Rightarrow> string http_error + token_answer" and env :: request_env and started assertion r where reply: "\<forall>f a. reply f = Inr a \<longrightarrow> provider f a"
    and r: "post_form from_slice (re_built env) (reply (token_exchange_form sg scopes audience subject assertion)) = Inr r"
      "into_token started (re_now env) (re_now' env) (re_sample env) (Some TOKEN_TYPE_ACCESS_TOKEN) r = Inr t"
    unfolding exchanged_for_def fetch_exchange_def request_token_exchange_def bind_result_Inr by blast
  from r(1) obtain a where "reply (token_exchange_form sg scopes audience subject assertion) = Inr a" "read_answer from_slice a = Inr r"
    by (auto simp: post_form_def split: if_splits sum.splits)
  with reply into_token_ok(1,6)[OF r(2)] show ?thesis unfolding exchange_answered_def by blast
qed

lemma service_ok_answered:
  assumes "service_ok from_slice sg service" "service deadline = Some (Inr t)"
  shows "\<exists>start permits s. (oauth_step from_slice sg)\<^sup>*\<^sup>* (oauth_init start permits) s \<and>
     (\<exists>r \<in> set (oy_answers s). ot_header (at_token t) = BEARER_PREFIX @ tr_access_token r)"
proof -
  from assms obtain start permits s i taken own where run: "(oauth_step from_slice sg)\<^sup>*\<^sup>* (oauth_init start permits) s"
    "oy_callers s i = caller.Returned (Inr t) taken own" unfolding service_ok_def by blast
  from oauth_reachable[OF run(1)] have "caller_token_ok s (caller.Returned (Inr t) taken own)"
    using run(2) token_caller[of s i] by (simp add: oauth_inv_def)
  then obtain r n n' sample where "r \<in> set (oy_answers s)" "into_token (ot_acquired (at_token t)) n n' sample None r = Inr (at_token t)"
    by (auto simp: caller_token_ok_def issued_def)
  with run(1) into_token_ok(1) show ?thesis by blast
qed

text \<open>
  The used token is forgotten where it came from, while it is still the entry there.
\<close>

definition still_cached :: "arc_token \<Rightarrow> arc_token option \<Rightarrow> bool" where
  "still_cached t current \<longleftrightarrow> (\<exists>c. current = Some c \<and> at_address c = at_address t)"

definition without_token :: "bytes option \<Rightarrow> arc_token \<Rightarrow> token_caches \<Rightarrow> token_caches" where
  "without_token key t caches =
     (case key of
        None \<Rightarrow>
          if still_cached t (ca_token (tc_cached caches))
          then caches\<lparr>tc_cached := (tc_cached caches)\<lparr>ca_token := None, ca_refresh_after := None\<rparr>\<rparr> else caches
      | Some k \<Rightarrow>
          if still_cached t (tc_exchanged caches k) then caches\<lparr>tc_exchanged := (tc_exchanged caches)(k := None)\<rparr> else caches)"

text \<open>
  Only the token that was used is ever given up, and only at the age of thirty seconds; this holds of the service token and of exchanged
  ones, so a resource that refuses every token does not cost a token request per call.
\<close>

lemma is_evictable_age: "is_evictable t now \<longleftrightarrow> ot_acquired t + from_secs 30 \<le> now"
  by (auto simp: is_evictable_def duration_since_def EVICTION_MIN_AGE_def time_units)

lemma reject_service_exact:
  "caches\<lparr>tc_cached := reject_service_token now t (tc_cached caches)\<rparr> =
     (if ot_acquired (at_token t) + from_secs 30 \<le> now then without_token None t caches else caches)"
  by (auto simp: reject_service_token_def is_evictable_age without_token_def still_cached_def split: option.splits)

lemma reject_exchanged_exact:
  "caches\<lparr>tc_exchanged := (tc_exchanged caches)(key := reject_exchanged now t (tc_exchanged caches key))\<rparr> =
     (if ot_acquired (at_token t) + from_secs 30 \<le> now then without_token (Some key) t caches else caches)"
  by (cases "tc_exchanged caches key")
    (auto simp: reject_exchanged_def forget_exchanged_def is_evictable_age without_token_def still_cached_def fun_upd_idem)

lemma execute_authenticated_cases:
  obtains r where "execute_authenticated digest required env req = refused_call (cl_caches env) r" "\<forall>x. r \<noteq> Some (Inr x)" "\<forall>e. r \<noteq> Some (Inl (Resource e))"
  | a hs where "execute_authenticated digest required env req = dispatch_call env (a, hs)"
      "authorize digest (or_on_behalf_of req) (cl_authorize env) (or_headers req) = Some (Inr (a, hs))"
      "get_all AUTHORIZATION (or_headers req) = []" "required \<longrightarrow> or_on_behalf_of req \<noteq> None"
      "cl_request_first env = None" "cl_request_last env = None" "\<not> cl_closed env"
proof (cases "check_lifecycle (cl_lifecycle_now env) (cl_closed env) (acquisition_deadline (az_cutoff (cl_authorize env)) (cl_now env))")
  case (Inl e)
  then show ?thesis by (intro that(1)[of "Some (Inl (Acquisition e))"]) (simp_all add: execute_authenticated_def)
next
  case (Inr u)
  then have live: "\<not> cl_closed env" by (simp add: check_lifecycle_def split: if_splits)
  consider "get_all AUTHORIZATION (or_headers req) \<noteq> [] \<or> (required \<and> or_on_behalf_of req = None)"
    | why where "get_all AUTHORIZATION (or_headers req) = []" "\<not> (required \<and> or_on_behalf_of req = None)" "cl_request_first env = Some why"
    | "get_all AUTHORIZATION (or_headers req) = []" "\<not> (required \<and> or_on_behalf_of req = None)" "cl_request_first env = None" by fastforce
  then show ?thesis
  proof cases
    case 1
    with Inr show ?thesis
      by (intro that(1)[of "Some (Inl (if get_all AUTHORIZATION (or_headers req) \<noteq> [] then AuthorizationConflict else SubjectRequired))"])
        (simp_all add: execute_authenticated_def)
  next
    case 2
    with Inr show ?thesis
      by (intro that(1)[of "Some (Inl (Acquisition (acquisition_stopped why)))"]) (auto simp: execute_authenticated_def)
  next
    case 3
    let ?polls = "map (\<lambda>(why, ready). (why, if ready then authorize digest (or_on_behalf_of req) (cl_authorize env) (or_headers req) else None)) (cl_request_polls env)"
    have run: "execute_authenticated digest required env req =
        (case race_scope ?polls of
           None \<Rightarrow> refused_call (cl_caches env) None
         | Some (Inl why) \<Rightarrow> refused_call (cl_caches env) (Some (Inl (Acquisition (acquisition_stopped why))))
         | Some (Inr (Inl e)) \<Rightarrow> refused_call (cl_caches env) (Some (Inl (Acquisition e)))
         | Some (Inr (Inr a)) \<Rightarrow>
             (case cl_request_last env of
                Some why \<Rightarrow> refused_call (cl_caches env) (Some (Inl (Acquisition (acquisition_stopped why))))
              | None \<Rightarrow> dispatch_call env a))"
      using 3 Inr by (simp add: execute_authenticated_def del: not_None_eq) blast
    show ?thesis
    proof (cases "\<exists>a. race_scope ?polls = Some (Inr (Inr a)) \<and> cl_request_last env = None")
      case True
      then obtain a where a: "race_scope ?polls = Some (Inr (Inr a))" "cl_request_last env = None" by blast
      from race_scope_Inr[OF a(1)] have "authorize digest (or_on_behalf_of req) (cl_authorize env) (or_headers req) = Some (Inr a)"
        by (auto split: if_splits)
      with run a 3 live show ?thesis by (intro that(2)[of "fst a" "snd a"]) auto
    next
      case False
      with run show ?thesis by (intro that(1)[of "co_result (execute_authenticated digest required env req)"])
          (auto simp: refused_call_def split: option.splits sum.splits)
    qed
  qed
qed

text \<open>
  C25. What reaches the resource. A request is dispatched only when its caller set no credentials of its own; it then carries exactly one
  credential and otherwise the caller's headers, and never the subject's token. A request on behalf of a subject carries the token that the provider issued in answer to
  the exchange form of a subject with the same digest; one without a subject carries a service token from an answer of the provider, and a client that requires a
  subject dispatches nothing without one. The response is returned as it came. A 401 gives up the token that was used, where it came from, when
  it is at least thirty seconds old and still the one in the cache; nothing else changes the caches. Every other outcome is an error or a drop with nothing dispatched.
  Assumed are the cache of exchanged tokens, which answers what initializers for the key returned, and the shared cache of the service token.
\<close>

theorem authenticated_dispatch:
  assumes entries: "\<forall>x \<in> set (az_exchange (cl_authorize env)). entries_ok provider from_slice sg scopes audience digest x"
    and service: "service_ok from_slice sg (az_service (cl_authorize env))"
  shows "case co_dispatched (execute_authenticated digest required env req) of
     None \<Rightarrow>
       co_caches (execute_authenticated digest required env req) = cl_caches env \<and>
       (\<forall>x. co_result (execute_authenticated digest required env req) \<noteq> Some (Inr x))
   | Some sent_req \<Rightarrow>
       get_all AUTHORIZATION (or_headers req) = [] \<and> or_on_behalf_of sent_req = None \<and> (required \<longrightarrow> or_on_behalf_of req \<noteq> None) \<and>
       (\<forall>n. n \<noteq> AUTHORIZATION \<longrightarrow> get_all n (or_headers sent_req) = get_all n (or_headers req)) \<and>
       (\<exists>t. get_all AUTHORIZATION (or_headers sent_req) = [ot_header (at_token t)] \<and>
          (case or_on_behalf_of req of
             Some subject \<Rightarrow>
               \<exists>presented. digest presented = digest subject \<and>
                 exchange_answered provider from_slice sg scopes audience presented (ot_header (at_token t))
           | None \<Rightarrow>
               \<exists>start permits s. (oauth_step from_slice sg)\<^sup>*\<^sup>* (oauth_init start permits) s \<and>
                 (\<exists>r \<in> set (oy_answers s). ot_header (at_token t) = BEARER_PREFIX @ tr_access_token r)) \<and>
          co_caches (execute_authenticated digest required env req) =
            (if (\<exists>body. cl_response env = Some (Inr (401, body))) \<and> ot_acquired (at_token t) + from_secs 30 \<le> cl_reject_now env
             then without_token (map_option digest (or_on_behalf_of req)) t (cl_caches env) else cl_caches env) \<and>
          co_result (execute_authenticated digest required env req) = map_option (map_sum Resource id) (cl_response env))"
proof (cases rule: execute_authenticated_cases[of digest required env req])
  case (1 r)
  then show ?thesis by (simp add: refused_call_def)
next
  case (2 a hs)
  note ok = authorize_ok[OF 2(2)]
  let ?r = "execute_authenticated digest required env req" and ?t = "acquired_token a"
  have hs: "get_all AUTHORIZATION hs = [ot_header (at_token ?t)]" "n \<noteq> AUTHORIZATION \<Longrightarrow> get_all n hs = get_all n (or_headers req)" for n
    using ok(2) by (simp_all add: insert_header_get insert_header_other)
  have r: "co_dispatched ?r = Some \<lparr>or_headers = hs, or_on_behalf_of = None\<rparr>" "co_result ?r = map_option (map_sum Resource id) (cl_response env)"
    "co_caches ?r = (if \<exists>body. cl_response env = Some (Inr (401, body)) then reject_acquired (cl_reject_now env) a (cl_caches env) else cl_caches env)"
    unfolding 2(1) by (auto simp: dispatch_call_def split: option.splits sum.splits)
  from ok(1) have used: "(case or_on_behalf_of req of
      Some subject \<Rightarrow> \<exists>presented. digest presented = digest subject \<and>
        exchange_answered provider from_slice sg scopes audience presented (ot_header (at_token ?t))
    | None \<Rightarrow> \<exists>start permits s. (oauth_step from_slice sg)\<^sup>*\<^sup>* (oauth_init start permits) s \<and>
        (\<exists>r \<in> set (oy_answers s). ot_header (at_token ?t) = BEARER_PREFIX @ tr_access_token r)) \<and>
    reject_acquired (cl_reject_now env) a (cl_caches env) =
      (if ot_acquired (at_token ?t) + from_secs 30 \<le> cl_reject_now env
       then without_token (map_option digest (or_on_behalf_of req)) ?t (cl_caches env) else cl_caches env)"
  proof (cases rule: acquire_ok)
    case (1 t)
    with service_ok_answered[OF service 1(3)] show ?thesis by (simp add: reject_acquired_def reject_service_exact)
  next
    case (2 subject t)
    from exchange_subject_ok[OF 2(3)] entries obtain presented where "digest presented = digest subject"
      "exchanged_for provider from_slice sg scopes audience presented (at_token t)" by (fastforce simp: entries_ok_def)
    with exchanged_for_answered 2 show ?thesis by (auto simp: reject_acquired_def reject_exchanged_exact)
  qed
  show ?thesis unfolding r option.case
    by (intro conjI exI[of _ ?t]) (use hs 2(3,4) used in simp_all)
qed

text \<open>A call on behalf of a subject: the provider answers its exchange, the resource refuses the token half a minute later.\<close>

definition demo_answer_body :: token_answer where
  "demo_answer_body = \<lparr>ta_status = 200, ta_content_type = None, ta_body = [2]\<rparr>"

definition demo_json :: "bytes \<Rightarrow> json option" where
  "demo_json b = Some (JObj [(bytes_of ''access_token'', JStr (bytes_of ''xyz'')), (bytes_of ''token_type'', JStr (bytes_of ''Bearer'')),
     (bytes_of ''issued_token_type'', JStr (bytes_of TOKEN_TYPE_ACCESS_TOKEN))])"

definition demo_provider :: "form \<Rightarrow> token_answer \<Rightarrow> bool" where
  "demo_provider f a \<longleftrightarrow> (''subject_token'', [9]) \<in> set f \<and> a = demo_answer_body"

definition demo_exchanged :: arc_token where
  "demo_exchanged = \<lparr>at_address = 4, at_token =
     \<lparr>ot_header = bytes_of ''Bearer xyz'', ot_acquired = 0, ot_reuse_until = None, ot_refresh_after = None\<rparr>\<rparr>"

definition demo_digest :: "ustr \<Rightarrow> bytes" where "demo_digest subject = map of_nat subject"

definition demo_client :: "nat client_env" where
  "demo_client = \<lparr>cl_now = 0, cl_lifecycle_now = 0, cl_closed = False, cl_request_first = None,
     cl_authorize = \<lparr>az_first = None, az_cutoff = None, az_now = 0, az_now' = 0, az_now'' = 0, az_closed = False,
       az_exchange = [\<lparr>xt_now = 0, xt_now' = 0, xt_closed = False,
         xt_entry = (\<lambda>key. if key = [9] then Some (Entry demo_exchanged True) else None), xt_after = 0\<rparr>],
       az_service = (\<lambda>_. None), az_polls = [(None, False), (None, True)], az_last = None\<rparr>,
     cl_request_polls = [(None, False), (None, True)], cl_request_last = None, cl_response = Some (Inr (401, 7)),
     cl_caches = \<lparr>tc_cached = cached_default, tc_exchanged = (\<lambda>key. if key = [9] then Some demo_exchanged else None)\<rparr>,
     cl_reject_now = from_secs 31\<rparr>"

definition demo_call :: outbound_request where
  "demo_call = \<lparr>or_headers = [(''accept'', [1])], or_on_behalf_of = Some [9]\<rparr>"

lemma demo_exchanged_for: "exchanged_for demo_provider demo_json demo_signer [] None [9] (at_token demo_exchanged)"
proof -
  let ?reply = "\<lambda>f. if (''subject_token'', [9]) \<in> set f then Inr demo_answer_body else Inl TimedOut :: string http_error + token_answer"
  have "as_token_response (the (demo_json [2])) = Some \<lparr>tr_access_token = bytes_of ''xyz'', tr_token_type = bytes_of ''Bearer'', tr_expires_in = None,
      tr_issued_token_type = Some (bytes_of TOKEN_TYPE_ACCESS_TOKEN)\<rparr>"
    by (simp add: demo_json_def as_token_response_def struct_member_def required_field_def optional_field_def TOKEN_TYPE_ACCESS_TOKEN_def Let_def)
  then have "read_answer demo_json demo_answer_body = Inr \<lparr>tr_access_token = bytes_of ''xyz'', tr_token_type = bytes_of ''Bearer'', tr_expires_in = None,
      tr_issued_token_type = Some (bytes_of TOKEN_TYPE_ACCESS_TOKEN)\<rparr>"
    by (simp add: read_answer_def demo_answer_body_def demo_json_def okay_or_def)
  then have "fetch_exchange demo_json demo_signer [] None ?reply [9] 0 0 1 1 demo_request = Inr (at_token demo_exchanged)"
    by (simp add: fetch_exchange_def request_token_exchange_def admit_attempt_def demo_request_def sign_def okay_or_def post_form_def
        token_exchange_form_def into_token_def same_ignoring_case_def lower_byte_def BEARER_PREFIX_def header_byte_def reuse_cutoff_def ensured_def demo_exchanged_def)
  moreover have "?reply f = Inr a \<Longrightarrow> demo_provider f a" for f a by (auto simp: demo_provider_def split: if_splits)
  ultimately show ?thesis unfolding exchanged_for_def
    by (intro exI[of _ ?reply] exI[of _ 0] exI[of _ 1] exI[of _ demo_request] conjI) auto
qed

lemma demo_dispatches:
  "co_dispatched (execute_authenticated demo_digest True demo_client demo_call) \<noteq> None"
  by (simp add: execute_authenticated_def demo_client_def demo_call_def check_lifecycle_def authorize_def acquire_def exchanged_or_fetch_def check_admission_def
      acquisition_deadline_def FETCH_TIMEOUT_def time_units dispatch_call_def AUTHORIZATION_def get_all_def demo_digest_def Let_def)

theorem authenticated_dispatch_witness:
  "\<exists>sent_req. co_dispatched (execute_authenticated demo_digest True demo_client demo_call) = Some sent_req \<and> or_on_behalf_of sent_req = None \<and>
     get_all ''accept'' (or_headers sent_req) = [[1]] \<and>
     (\<exists>header presented. get_all AUTHORIZATION (or_headers sent_req) = [header] \<and> demo_digest presented = [9] \<and>
        exchange_answered demo_provider demo_json demo_signer [] None presented header)"
proof -
  let ?r = "execute_authenticated demo_digest True demo_client demo_call"
  obtain q where q: "co_dispatched ?r = Some q" using demo_dispatches by blast
  have entries: "\<forall>x \<in> set (az_exchange (cl_authorize demo_client)). entries_ok demo_provider demo_json demo_signer [] None demo_digest x"
    using demo_exchanged_for by (auto simp: demo_client_def entries_ok_def demo_digest_def intro!: exI[of _ "[9]"])
  have service: "service_ok demo_json demo_signer (az_service (cl_authorize demo_client))" by (simp add: demo_client_def service_ok_def)
  note sent = authenticated_dispatch[OF entries service, of True demo_call, unfolded q option.case]
  have obo: "or_on_behalf_of demo_call = Some [9]" by (simp add: demo_call_def)
  have "''accept'' \<noteq> AUTHORIZATION" by (simp add: AUTHORIZATION_def)
  then have "get_all ''accept'' (or_headers q) = get_all ''accept'' (or_headers demo_call)" using sent by simp
  moreover have "get_all ''accept'' (or_headers demo_call) = [[1]]" by (simp add: demo_call_def get_all_def)
  moreover have "demo_digest [9] = [9]" by (simp add: demo_digest_def)
  moreover have "\<exists>(t :: arc_token) presented. get_all AUTHORIZATION (or_headers q) = [ot_header (at_token t)] \<and> demo_digest presented = demo_digest [9] \<and>
      exchange_answered demo_provider demo_json demo_signer [] None presented (ot_header (at_token t))"
    using sent unfolding obo option.case by (elim conjE exE) (intro exI conjI, assumption+)
  moreover have "or_on_behalf_of q = None" using sent by simp
  ultimately show ?thesis using q by auto
qed

end
