(* ===== verification/Spec2Isabelle.thy ===== *)
theory Spec2Isabelle
  imports OperationScope Health JobQueue JobMaintenance IdemHttp WebhookOutbound
    MessageBroker MessagePull MessageOutbox BearerAuthenticate ObjectProvider OauthClient
begin

text \<open>
  A verification library for the service template under \<open>crates/\<close>: a Rust service with readiness,
  durable background jobs on PostgreSQL, HTTP idempotency, signed webhooks, domain events on a message
  broker, bearer authentication, object storage and bounded outbound HTTP.

  \<^bold>\<open>How the parts interact.\<close> Every operation runs in a scope with a deadline (\<open>operation-context\<close>).
  Readiness (\<open>health\<close>) is probed concurrently with the traffic it gates. Producers enqueue jobs on
  their own transaction (\<open>infra-jobs\<close>), workers claim them under a generation and a lease and write
  each outcome behind that fence. The idempotency store and the webhook seams put their records and
  the caller's data into one transaction of \<open>infra-postgres\<close>; the HTTP seam of \<open>infra-http\<close> stores
  and replays responses on top of it. Outbound webhooks are jobs whose handler sends a signed
  request through the client of \<open>infra-outbound-http\<close>. Domain events are published directly or through
  an outbox job of the caller's transaction, and consumed from a broker (\<open>infra-messaging\<close>).
  Inbound requests present bearer tokens, verified under provider keys that one worker keeps fresh, or
  by introspection (\<open>infra-bearerauthn\<close>); outbound calls carry tokens of the service itself
  (\<open>infra-oauth2-client-credentials\<close>). Objects are stored and read through an S3 client that says what a failed call may have
  done (\<open>infra-object-storage\<close>).

  \<^bold>\<open>The theories.\<close>
  \<^item> \<open>Prelude\<close>: time, text, bytes, header maps, results, and the locales \<open>step_invariant\<close> and
    \<open>stable_observation\<close> for step relations.
  \<^item> \<open>OperationScope\<close> (\<open>operation-context/src/lib.rs\<close>): deadlines and scopes; a child never outlives
    its parent.
  \<^item> \<open>Validate\<close>, \<open>Health\<close> (\<open>config/src/validate.rs\<close>, \<open>config/src/health.rs\<close>, \<open>health/src/lib.rs\<close>):
    configuration of the probe loop, the failure threshold, freshness and draining as a step relation
    of the interleaved probe, stop, drain and clock; after a missed bound nothing restores readiness and a
    drain is final.
  \<^item> \<open>JobKind\<close>, \<open>JobEnqueue\<close>, \<open>JobTable\<close>, \<open>JobAttempt\<close>, \<open>JobClaim\<close>, \<open>JobOperator\<close>,
    \<open>JobMaintenance\<close>, \<open>JobQueue\<close> (\<open>infra-jobs/src/\<close>): kinds, policies and errors; the payload
    writer and preparation; the rows and constraints of the table; outcome writes and their fence; the
    claim statement and the rounds of the claim loop; paging and redrive; retention; and all of them
    as steps of one queue with its invariant.
  \<^item> \<open>Postgres\<close> (\<open>infra-postgres/src/error.rs\<close>, \<open>transaction.rs\<close>, \<open>observe.rs\<close>): a work is a tree of
    statements on an abstract session; the boundary refines the atomic transaction, and the locale
    \<open>tx_boundary\<close>, interpreted on it, is what its callers use.
  \<^item> \<open>IdemStore\<close>, \<open>IdemAttempt\<close> (\<open>infra-idempotency-store/src/\<close>): concurrent attempts of all processes
    as steps on one database, and one attempt and one cleanup pass on the boundary.
  \<^item> \<open>Problem\<close>, \<open>IdemIdentity\<close>, \<open>IdemHttp\<close> (\<open>service-failure/src/lib.rs\<close>, \<open>infra-http/src/problem.rs\<close>,
    \<open>infra-http/src/idempotency/\<close>): the failure catalog, key and request identity, and the handler
    seam with capture and replay.
  \<^item> \<open>WebhookProtocol\<close>, \<open>WebhookInbound\<close>, \<open>WebhookOutbound\<close> (\<open>infra-webhooks/src/\<close>): signing and
    verification, admission with its processing job, processing with completion, and delivery.
  \<^item> \<open>OutboundHttp\<close> (\<open>infra-outbound-http/src/\<close>): admission and framing of requests and the bounded
    exchange.
  \<^item> \<open>MessageWire\<close>, \<open>MessageProducer\<close>, \<open>MessageConsumer\<close>, \<open>MessageBroker\<close>, \<open>MessageAdmission\<close>,
    \<open>MessagePull\<close>, \<open>MessageOutbox\<close> (\<open>infra-messaging/src/\<close>): the envelope and its checks; routes, handlers and the
    publication with its conclusive or uncertain answer; one delivery up to its settlement; all
    deliveries as steps of a broker that recognizes a repeated identity only inside its duplicate window, with
    the invariant that no event is lost; the bounds and the
    topology a process admits; the pull loop and its drain; and the transactional outbox on the
    boundary of \<open>Postgres\<close> and the statements of \<open>infra-jobs\<close>.
  \<^item> \<open>Bearer\<close>, \<open>BearerClaims\<close>, \<open>BearerKeys\<close>, \<open>BearerRefresh\<close>, \<open>BearerIntrospect\<close>, \<open>BearerAuthenticate\<close>
    (\<open>infra-bearerauthn/src/\<close>): the bearer envelope against its grammar; typed claims and their checks; the admission of keys
    and the verification of a signed token; the shared key store and its worker as a step relation, with the invariant of its
    tickets and the verification over it; the provider exchange and introspection with its two caches; and the one
    recorded outcome of a request.
  \<^item> \<open>ObjectUpload\<close>, \<open>ObjectDownload\<close>, \<open>ObjectClient\<close>, \<open>ObjectProvider\<close> (\<open>infra-object-storage/src/\<close>): keys and the upload body of exact
    length; the download with its timer and its invariant; the operations of the client, the mapping of provider
    replies and what a caller may conclude; and the admission of provider, bucket and credentials.
  \<^item> \<open>OauthToken\<close>, \<open>OauthCache\<close>, \<open>OauthClient\<close> (\<open>infra-oauth2-client-credentials/src/\<close>): the options, the signed assertion, the forms and the
    reading of the provider's answer; the service token that all callers share, with its lock, its permits and the
    background refresh, as a step relation with its invariants; and the exchange for a subject, what an authenticated
    call sends and what a refusal of the resource gives up.
  \<^item> \<open>Fragments\<close>: reading a text in fragments that end at characters, for the two cooperative size
    checks.

  \<^bold>\<open>Conventions.\<close> State is a record or a tuple that an operation returns updated; a fallible
  operation returns a sum with the error on the left; machine integers are \<^typ>\<open>nat\<close> or \<^typ>\<open>int\<close> with the
  checked, saturating or wrapping operation of the source written out, and bytes are words of eight
  bits. A clock reading, a database answer or fault, a dropped future and the yields of a transport
  are arguments: a theorem holds for all of them. Code of other packages (SHA-256, HMAC, base64,
  serde, URL and header parsing, the SQL server's statement atomicity) is a parameter; what is relied
  on is a named predicate (\<open>codec_ok\<close>, \<open>http_lib_ok\<close>, \<open>commit_codes_honest\<close>, \<open>limited_ok\<close>,
  \<open>preflight_lib_ok\<close>, \<open>entries_ok\<close> and so on), and each theorem that uses one has a witness.

  \<^bold>\<open>Loops and fuel.\<close> Loops of the code are structural or have a termination proof. Loops driven by
  the environment take the list of what the environment does: the waits of an acquisition, the turns
  of a cleanup pass, the frames of a body. The preflight takes the number of polls of its executor, and
  its theory shows that the lengths of its two texts plus three are enough; the size check of the
  outbox needs as many polls as its fields have bytes, and one more. A race of futures takes the
  list of its turns, each saying what is ready, and is pending when the list ends.

  \<^bold>\<open>Not modelled.\<close> Spans, logs and histograms, except where a count is part of a contract; timers of
  periodic loops; the composition of the processes (\<open>service\<close>, \<open>jobs-worker\<close>), of axum, tower, tonic
  and hyper layers; the connection to the broker, its credential files and
  the AsyncAPI document; the client of Redis; the S3 SDK below its answers; OIDC discovery; and the loading of
  configuration. They are mostly calls into packages that are not part of the repository.
\<close>

end
